(* ===== verification/Prelude.thy ===== *)
theory Prelude
  imports Complex_Main "HOL-Library.AList" "HOL-Library.Multiset" "HOL-Library.Product_Lexorder"
    "HOL-Library.List_Lexorder" "HOL-Library.Char_ord"
begin

text \<open>
  Shared types, generic lemmas and simplification collections of the development.

  Python dictionaries iterate in insertion order, so a dictionary is an association list:
  \<open>map_of\<close> is the lookup, \<open>AList.update\<close> is \<open>d[k] = v\<close> (in place when the key is present,
  at the end otherwise), \<open>AList.delete\<close> is \<open>del d[k]\<close>.

  A datetime is a UTC instant counted in whole microseconds (Python's resolution), an
  \<open>int\<close>; a number of seconds, a Python float, is an exact \<open>rat\<close>: the rounding of binary
  floating point is not modelled, the rounding of \<open>timedelta\<close> and of \<open>fromtimestamp\<close> to
  whole microseconds (half to even) is.
\<close>

section \<open>Dictionaries as association lists\<close>

declare map_of_eq_Some_iff [simp del] dropWhile_eq_Nil_conv [simp del]

type_synonym ('k, 'v) dict = "('k \<times> 'v) list"

abbreviation dict_keys :: "('k, 'v) dict \<Rightarrow> 'k list" where
  "dict_keys d \<equiv> map fst d"

abbreviation dict_values :: "('k, 'v) dict \<Rightarrow> 'v list" where
  "dict_values d \<equiv> map snd d"

abbreviation dict_set :: "('k, 'v) dict \<Rightarrow> 'k \<Rightarrow> 'v \<Rightarrow> ('k, 'v) dict" where
  "dict_set d k v \<equiv> AList.update k v d"

abbreviation dict_del :: "('k, 'v) dict \<Rightarrow> 'k \<Rightarrow> ('k, 'v) dict" where
  "dict_del d k \<equiv> AList.delete k d"

named_theorems dict_simps

lemma map_of_dict_set [dict_simps, simp]:
  "map_of (AList.update k v d) = (map_of d)(k \<mapsto> v)"
  by (rule update_conv')

lemma map_of_dict_del [dict_simps, simp]:
  "map_of (AList.delete k d) = (map_of d)(k := None)"
  by (rule delete_conv')

lemma distinct_dict_set [dict_simps, simp]:
  "distinct (map fst d) \<Longrightarrow> distinct (map fst (AList.update k v d))"
  by (rule distinct_update)

lemma distinct_dict_del [dict_simps, simp]:
  "distinct (map fst d) \<Longrightarrow> distinct (map fst (AList.delete k d))"
  by (rule distinct_delete)

lemma keys_dict_set: "set (map fst (AList.update k v d)) = insert k (set (map fst d))"
  by (simp add: dom_update)

lemma dict_set_present:
  "k \<in> set (map fst d) \<Longrightarrow> map fst (AList.update k v d) = map fst d"
  by (induction d) auto

lemma dict_set_absent:
  "k \<notin> set (map fst d) \<Longrightarrow> AList.update k v d = d @ [(k, v)]"
  by (induction d) auto

lemma dict_set_present_map:
  "distinct (map fst d) \<Longrightarrow> k \<in> set (map fst d) \<Longrightarrow>
   AList.update k v d = map (\<lambda>(k', v'). if k' = k then (k', v) else (k', v')) d"
proof (induction d)
  case Nil
  then show ?case by simp
next
  case (Cons a d)
  have *: "k \<notin> set (map fst d) \<Longrightarrow>
    map (\<lambda>(k', v'). if k' = k then (k', v) else (k', v')) d = d"
    by (rule map_idI) (force split: prod.splits)
  show ?case
  proof (cases "fst a = k")
    case True
    with Cons.prems * show ?thesis by (cases a) auto
  next
    case False
    with Cons show ?thesis by (cases a) auto
  qed
qed

lemma dict_item: "distinct (map fst d) \<Longrightarrow> (k, v) \<in> set d \<longleftrightarrow> map_of d k = Some v"
  by (rule map_of_eq_Some_iff [symmetric])

lemma map_of_None_keys: "map_of d k = None \<longleftrightarrow> k \<notin> set (map fst d)"
  by (simp add: map_of_eq_None_iff image_iff)

lemma map_of_dict_map_values:
  "map_of (map (\<lambda>(k, v). (k, f v)) d) = map_option f \<circ> map_of d"
  by (induction d) (auto simp: fun_eq_iff)

lemma map_of_value: "map_of d k = Some v \<Longrightarrow> v \<in> set (map snd d)"
  by (force dest: map_of_SomeD)

lemma map_of_foldl_set:
  "map_of (foldl (\<lambda>d k. dict_set d k v) d ks) k = (if k \<in> set ks then Some v else map_of d k)"
  by (induction ks arbitrary: d) auto

lemma distinct_foldl_set:
  "distinct (map fst d) \<Longrightarrow> distinct (map fst (foldl (\<lambda>d k. dict_set d k v) d ks))"
  by (induction ks arbitrary: d) auto

lemma foldl_dict_del: "map_of (foldl dict_del d ks) k = (if k \<in> set ks then None else map_of d k)"
  by (induction ks arbitrary: d) auto

lemma distinct_foldl_del: "distinct (map fst d) \<Longrightarrow> distinct (map fst (foldl dict_del d ks))"
  by (induction ks arbitrary: d) auto

lemma filter_key_iff:
  assumes "distinct (map fst d)"
  shows "k \<in> set (map fst (filter (\<lambda>(e, c). P c) d)) \<longleftrightarrow> (\<exists>v. map_of d k = Some v \<and> P v)"
  by (auto simp: dict_item [OF assms] image_iff)

section \<open>Results\<close>

text \<open>
  A Python call either raises (\<open>Inl\<close>) or returns (\<open>Inr\<close>); a stateful operation returns
  the result together with the state it leaves, also when it raises.
\<close>

fun is_ok :: "'e + 'a \<Rightarrow> bool" where
  "is_ok (Inl _) = False"
| "is_ok (Inr _) = True"

definition py_bind :: "'e + 'a \<Rightarrow> ('a \<Rightarrow> 'e + 'b) \<Rightarrow> 'e + 'b" where
  "py_bind r f = (case r of Inl e \<Rightarrow> Inl e | Inr x \<Rightarrow> f x)"

lemma py_bind_simps [simp]:
  "py_bind (Inl e) f = Inl e"
  "py_bind (Inr x) f = f x"
  by (simp_all add: py_bind_def)

lemma py_bind_Inr_iff: "py_bind r f = Inr y \<longleftrightarrow> (\<exists>x. r = Inr x \<and> f x = Inr y)"
  by (cases r) auto

section \<open>Sequences\<close>

text \<open>
  \<open>xs[:n]\<close>: a negative bound counts from the end.
\<close>

definition py_take :: "int \<Rightarrow> 'a list \<Rightarrow> 'a list" where
  "py_take n xs = (if 0 \<le> n then take (nat n) xs else take (nat (int (length xs) + n)) xs)"

lemma py_take_nonneg [simp]: "0 \<le> n \<Longrightarrow> py_take n xs = take (nat n) xs"
  by (simp add: py_take_def)

lemma set_py_take: "set (py_take n xs) \<subseteq> set xs"
  by (auto simp: py_take_def dest: in_set_takeD)

lemma map_py_take: "map f (py_take n xs) = py_take n (map f xs)"
  by (simp add: py_take_def take_map)

text \<open>Sorting commutes with a map that keeps the keys.\<close>

lemma map_insort_key:
  "(\<And>x. x \<in> insert a (set xs) \<Longrightarrow> g (h x) = f x) \<Longrightarrow>
   map h (insort_key f a xs) = insort_key g (h a) (map h xs)"
  by (induction xs) auto

lemma map_sort_key:
  assumes "\<And>x. x \<in> set xs \<Longrightarrow> g (h x) = f x"
  shows "map h (sort_key f xs) = sort_key g (map h xs)"
  using assms
proof (induction xs)
  case Nil
  then show ?case by simp
next
  case (Cons a xs)
  have "map h (insort_key f a (sort_key f xs)) = insort_key g (h a) (map h (sort_key f xs))"
    using Cons.prems by (intro map_insort_key) auto
  with Cons show ?case by simp
qed

lemma distinct_map_sort_key [simp]: "distinct (map f (sort_key g xs)) = distinct (map f xs)"
proof -
  have "mset (map f (sort_key g xs)) = mset (map f xs)" by simp
  then show ?thesis by (rule mset_eq_imp_distinct_iff)
qed

lemma distinct_map_takeWhile: "distinct (map f xs) \<Longrightarrow> distinct (map f (takeWhile P xs))"
  by (induction xs) (auto dest: set_takeWhileD)

lemma sorted_map_fst: "sorted (map (\<lambda>x. (f x, g x)) xs) \<Longrightarrow> sorted (map f xs)"
  by (induction xs) (auto simp: less_eq_prod_def less_le)

lemma sort_key_filter: "sort_key f (filter P xs) = filter P (sort_key f xs)"
  by (simp add: filter_sort)

lemma insort_key_cong_order:
  "(\<And>y. y \<in> set xs \<Longrightarrow> f x \<le> f y \<longleftrightarrow> g x \<le> g y) \<Longrightarrow> insort_key f x xs = insort_key g x xs"
  by (induction xs) auto

text \<open>Sorting depends on the order of the keys only.\<close>

lemma sort_key_cong_order:
  assumes "\<And>x y. x \<in> set xs \<Longrightarrow> y \<in> set xs \<Longrightarrow> f x \<le> f y \<longleftrightarrow> g x \<le> g y"
  shows "sort_key f xs = sort_key g xs"
  using assms
proof (induction xs)
  case Nil
  then show ?case by simp
next
  case (Cons a xs)
  have "insort_key f a (sort_key g xs) = insort_key g a (sort_key g xs)"
    using Cons.prems by (intro insort_key_cong_order) auto
  with Cons show ?case by simp
qed

lemma hd_sort_key_min:
  assumes "sort_key f xs = y # ys" and "x \<in> set xs"
  shows "f y \<le> f x"
proof -
  have "sorted (map f (sort_key f xs))" by simp
  moreover have "x \<in> set (sort_key f xs)" using assms(2) by simp
  ultimately show ?thesis using assms(1) by auto
qed

lemma filter_eq_single: "distinct xs \<Longrightarrow> x \<in> set xs \<Longrightarrow> filter (\<lambda>y. y = x) xs = [x]"
  by (induction xs) (auto simp: filter_empty_conv)

section \<open>Decimal text\<close>

text \<open>\<open>str(n)\<close> of an integer.\<close>

fun string_of_nat :: "nat \<Rightarrow> string" where
  "string_of_nat n =
     (if n < 10 then [char_of (48 + n)] else string_of_nat (n div 10) @ [char_of (48 + n mod 10)])"

declare string_of_nat.simps [simp del]

definition string_of_int :: "int \<Rightarrow> string" where
  "string_of_int i =
     (if i < 0 then ''-'' @ string_of_nat (nat (- i)) else string_of_nat (nat i))"

lemma string_of_nat_nonempty: "string_of_nat n \<noteq> []"
  by (subst string_of_nat.simps) simp

section \<open>Time\<close>

type_synonym datetime = int
type_synonym seconds = rat

definition round_half_even :: "rat \<Rightarrow> int" where
  "round_half_even x =
     (let f = \<lfloor>x\<rfloor>; d = x - of_int f in
      if d < 1 / 2 then f else if 1 / 2 < d then f + 1 else if even f then f else f + 1)"

lemma round_half_even_of_int [simp]: "round_half_even (of_int n) = n"
  by (simp add: round_half_even_def)

lemma round_half_even_near: "\<bar>of_int (round_half_even x) - x\<bar> \<le> 1 / 2"
proof -
  have "of_int \<lfloor>x\<rfloor> \<le> x" and "x < of_int \<lfloor>x\<rfloor> + 1"
    by linarith+
  then show ?thesis by (auto simp: round_half_even_def Let_def abs_le_iff field_simps)
qed

text \<open>\<open>dt + timedelta(seconds=s)\<close>.\<close>

definition add_seconds :: "datetime \<Rightarrow> seconds \<Rightarrow> datetime" where
  "add_seconds t s = t + round_half_even (s * 1000000)"

text \<open>A number of seconds that is a whole number of microseconds.\<close>

definition whole_us :: "seconds \<Rightarrow> bool" where
  "whole_us s \<longleftrightarrow> of_int \<lfloor>s * 1000000\<rfloor> = s * 1000000"

lemma whole_us_round: "whole_us s \<Longrightarrow> of_int (round_half_even (s * 1000000)) = s * 1000000"
  unfolding whole_us_def by (metis round_half_even_of_int)

end
