(* ===== verification/PyJson.thy ===== *)
theory PyJson
  imports Prelude
begin

text \<open>
  JSON values as Python holds them after \<open>json.loads\<close>: the types a request body, a stored
  payload or a session document can contain. Object members keep their order. A float is an
  exact rational (no infinities, no NaN).
\<close>

datatype json =
    JNull
  | JBool bool
  | JInt int
  | JFloat rat
  | JStr string
  | JArr "json list"
  | JObj "(string \<times> json) list"

type_synonym json_obj = "(string, json) dict"

text \<open>\<open>bool(v)\<close>: what \<open>if v\<close>, \<open>v or w\<close> and \<open>not v\<close> test.\<close>

fun truthy :: "json \<Rightarrow> bool" where
  "truthy JNull = False"
| "truthy (JBool b) = b"
| "truthy (JInt n) = (n \<noteq> 0)"
| "truthy (JFloat r) = (r \<noteq> 0)"
| "truthy (JStr s) = (s \<noteq> [])"
| "truthy (JArr xs) = (xs \<noteq> [])"
| "truthy (JObj kvs) = (kvs \<noteq> [])"

text \<open>Whether \<open>v in a_set\<close> and \<open>a_dict[v]\<close> raise \<open>TypeError\<close> is whether \<open>v\<close> is not hashable.\<close>

fun hashable :: "json \<Rightarrow> bool" where
  "hashable (JArr _) = False"
| "hashable (JObj _) = False"
| "hashable _ = True"

text \<open>\<open>d.get(k)\<close>: a missing member reads as \<open>None\<close>.\<close>

definition obj_get :: "json_obj \<Rightarrow> string \<Rightarrow> json" where
  "obj_get d k = (case map_of d k of None \<Rightarrow> JNull | Some v \<Rightarrow> v)"

text \<open>\<open>d.get(k, v)\<close>.\<close>

definition get_default :: "json_obj \<Rightarrow> string \<Rightarrow> json \<Rightarrow> json" where
  "get_default d k v = (case map_of d k of None \<Rightarrow> v | Some x \<Rightarrow> x)"

definition opt_str :: "string option \<Rightarrow> json" where
  "opt_str s = (case s of None \<Rightarrow> JNull | Some x \<Rightarrow> JStr x)"

definition opt_obj :: "json_obj option \<Rightarrow> json" where
  "opt_obj d = (case d of None \<Rightarrow> JNull | Some x \<Rightarrow> JObj x)"

text \<open>A string read with truthiness: \<open>None\<close> and the empty string are both absent.\<close>

definition str_truthy :: "string option \<Rightarrow> bool" where
  "str_truthy s = (case s of None \<Rightarrow> False | Some x \<Rightarrow> x \<noteq> [])"

definition str_or :: "string option \<Rightarrow> string option \<Rightarrow> string option" where
  "str_or a b = (if str_truthy a then a else b)"

lemma obj_get_del [simp]: "obj_get (AList.delete k d) k' = (if k' = k then JNull else obj_get d k')"
  by (simp add: obj_get_def)

lemma obj_get_set [simp]: "obj_get (AList.update k v d) k' = (if k' = k then v else obj_get d k')"
  by (simp add: obj_get_def)

text \<open>\<open>isinstance(v, (int, float))\<close>, a \<open>bool\<close> being an \<open>int\<close>, and its value.\<close>

fun json_num :: "json \<Rightarrow> rat option" where
  "json_num (JInt n) = Some (of_int n)"
| "json_num (JFloat r) = Some r"
| "json_num (JBool b) = Some (if b then 1 else 0)"
| "json_num _ = None"

text \<open>
  Python's \<open>==\<close>: numbers by value whatever their type, dictionaries whatever their order. The
  comparison of objects looks every key up on both sides.
\<close>

lemma size_obj_member: "map_of kvs k = Some x \<Longrightarrow> size x < Suc (size_list (size_prod (\<lambda>_. 0) size) kvs)"
  by (induction kvs) (auto split: if_splits)

function json_eq :: "json \<Rightarrow> json \<Rightarrow> bool" where
  "json_eq JNull v = (v = JNull)"
| "json_eq (JStr s) v = (v = JStr s)"
| "json_eq (JBool b) v = (json_num v = Some (if b then 1 else 0))"
| "json_eq (JInt n) v = (json_num v = Some (of_int n))"
| "json_eq (JFloat r) v = (json_num v = Some r)"
| "json_eq (JArr xs) v = (case v of JArr ys \<Rightarrow> list_all2 json_eq xs ys | _ \<Rightarrow> False)"
| "json_eq (JObj kvs) v =
     (case v of
        JObj kvs' \<Rightarrow>
          set (map fst kvs) = set (map fst kvs') \<and>
          list_all (\<lambda>k. case map_of kvs k of None \<Rightarrow> True
                        | Some x \<Rightarrow> (case map_of kvs' k of None \<Rightarrow> False | Some y \<Rightarrow> json_eq x y))
            (map fst kvs)
      | _ \<Rightarrow> False)"
  by pat_completeness auto
termination
  by (relation "measure (size \<circ> fst)") (auto dest: size_obj_member simp: less_Suc_eq_le size_list_estimation')

lemma json_eq_refl [simp]: "json_eq v v"
proof (induction v)
  case (JArr xs)
  then show ?case by (simp add: list_all2_same)
next
  case (JObj kvs)
  have "map_of kvs k = Some x \<Longrightarrow> json_eq x x" for k x
    using JObj [of "(k, x)" x] by (auto dest: map_of_SomeD)
  then show ?case by (auto simp: list_all_iff split: option.split)
qed simp_all

text \<open>\<open>d.update(e)\<close>.\<close>

definition dict_update :: "('k, 'v) dict \<Rightarrow> ('k, 'v) dict \<Rightarrow> ('k, 'v) dict" where
  "dict_update d e = foldl (\<lambda>d (k, v). dict_set d k v) d e"

lemma map_of_dict_update: "distinct (map fst e) \<Longrightarrow> map_of (dict_update d e) = map_of d ++ map_of e"
proof (induction e arbitrary: d)
  case (Cons p e)
  obtain k v where p: "p = (k, v)" by (cases p)
  from Cons.prems have "map_of e k = None" by (auto simp: p map_of_None_keys)
  with Cons show ?case
    by (auto simp: p dict_update_def fun_eq_iff map_add_def split: option.split)
qed (simp add: dict_update_def)

lemma distinct_dict_update [simp]: "distinct (map fst d) \<Longrightarrow> distinct (map fst (dict_update d e))"
  by (induction e arbitrary: d) (auto simp: dict_update_def)

end
