(* ===== verification/ExecModels.thy ===== *)
theory ExecModels
  imports PyJson
begin

text \<open>
  The storage-free data model of the durable execution seam
  (\<open>backend/agents/execution/models.py\<close>): job kinds and states, the retry policy and the
  job record. Field names carry the prefix \<open>j_\<close> (jobs) and \<open>rp_\<close> (retry policy), the rest
  is the source's name.
\<close>

section \<open>Kinds and states\<close>

datatype execution_kind = SCHEDULED | EVENT

datatype execution_state = PENDING | RUNNING | SUCCEEDED | DEAD_LETTER | CANCELLED

fun kind_value :: "execution_kind \<Rightarrow> string" where
  "kind_value SCHEDULED = ''scheduled''"
| "kind_value EVENT = ''event''"

fun state_value :: "execution_state \<Rightarrow> string" where
  "state_value PENDING = ''pending''"
| "state_value RUNNING = ''running''"
| "state_value SUCCEEDED = ''succeeded''"
| "state_value DEAD_LETTER = ''dead_letter''"
| "state_value CANCELLED = ''cancelled''"

text \<open>The enum constructors applied to a stored string; \<open>None\<close> is the \<open>ValueError\<close>.\<close>

definition kind_of_value :: "string \<Rightarrow> execution_kind option" where
  "kind_of_value v =
     (if v = ''scheduled'' then Some SCHEDULED else if v = ''event'' then Some EVENT else None)"

definition state_of_value :: "string \<Rightarrow> execution_state option" where
  "state_of_value v =
     (if v = ''pending'' then Some PENDING
      else if v = ''running'' then Some RUNNING
      else if v = ''succeeded'' then Some SUCCEEDED
      else if v = ''dead_letter'' then Some DEAD_LETTER
      else if v = ''cancelled'' then Some CANCELLED
      else None)"

lemma kind_of_value_inverse [simp]: "kind_of_value (kind_value k) = Some k"
  by (cases k) (simp_all add: kind_of_value_def)

lemma state_of_value_inverse [simp]: "state_of_value (state_value s) = Some s"
  by (cases s) (simp_all add: state_of_value_def)

lemma kind_value_inject [simp]: "kind_value a = kind_value b \<longleftrightarrow> a = b"
  by (metis kind_of_value_inverse option.inject)

lemma state_value_inject [simp]: "state_value a = state_value b \<longleftrightarrow> a = b"
  by (metis state_of_value_inverse option.inject)

lemma state_value_literals [simp]:
  "state_value s = ''pending'' \<longleftrightarrow> s = PENDING" "state_value s = ''running'' \<longleftrightarrow> s = RUNNING"
  "state_value s = ''succeeded'' \<longleftrightarrow> s = SUCCEEDED"
  "state_value s = ''dead_letter'' \<longleftrightarrow> s = DEAD_LETTER"
  "state_value s = ''cancelled'' \<longleftrightarrow> s = CANCELLED"
  by (cases s; simp)+

lemma kind_value_literals [simp]:
  "kind_value k = ''scheduled'' \<longleftrightarrow> k = SCHEDULED" "kind_value k = ''event'' \<longleftrightarrow> k = EVENT"
  by (cases k; simp)+

definition TERMINAL_STATES :: "execution_state list" where
  "TERMINAL_STATES = [SUCCEEDED, DEAD_LETTER, CANCELLED]"

definition state_is_terminal :: "execution_state \<Rightarrow> bool" where
  "state_is_terminal s = (s \<in> set TERMINAL_STATES)"

lemma state_is_terminal_simps [simp]:
  "\<not> state_is_terminal PENDING" "\<not> state_is_terminal RUNNING"
  "state_is_terminal SUCCEEDED" "state_is_terminal DEAD_LETTER" "state_is_terminal CANCELLED"
  by (simp_all add: state_is_terminal_def TERMINAL_STATES_def)

lemma state_not_terminal: "\<not> state_is_terminal s \<longleftrightarrow> s = PENDING \<or> s = RUNNING"
  by (cases s) simp_all

section \<open>Retry policy\<close>

record retry_policy =
  rp_max_attempts :: int
  rp_base_seconds :: seconds
  rp_factor :: rat
  rp_max_seconds :: seconds

definition default_retry_policy :: retry_policy where
  "default_retry_policy =
     \<lparr>rp_max_attempts = 3, rp_base_seconds = 1 / 2, rp_factor = 2, rp_max_seconds = 300\<rparr>"

text \<open>\<open>__post_init__\<close>: the first failing check raises \<open>ValueError\<close> with its message.\<close>

definition retry_policy_post_init :: "retry_policy \<Rightarrow> string + retry_policy" where
  "retry_policy_post_init p =
     (if rp_max_attempts p < 1 then Inl ''max_attempts must be >= 1''
      else if rp_base_seconds p < 0 \<or> rp_max_seconds p < 0
        then Inl ''backoff seconds must be non-negative''
      else if rp_factor p < 1 then Inl ''factor must be >= 1''
      else Inr p)"

definition backoff_seconds :: "retry_policy \<Rightarrow> int \<Rightarrow> seconds" where
  "backoff_seconds p attempts =
     (if attempts \<le> 0 then 0
      else min (rp_base_seconds p * rp_factor p ^ nat (attempts - 1)) (rp_max_seconds p))"

lemma retry_policy_post_init_ok:
  "retry_policy_post_init p = Inr q \<longleftrightarrow>
     q = p \<and> 1 \<le> rp_max_attempts p \<and> 0 \<le> rp_base_seconds p \<and> 0 \<le> rp_max_seconds p \<and>
     1 \<le> rp_factor p"
  by (auto simp: retry_policy_post_init_def)

lemma backoff_seconds_bounds:
  assumes "retry_policy_post_init p = Inr q"
  shows "0 \<le> backoff_seconds p n \<and> backoff_seconds p n \<le> rp_max_seconds p"
  using assms by (auto simp: retry_policy_post_init_ok backoff_seconds_def)

lemma backoff_seconds_mono:
  assumes "retry_policy_post_init p = Inr q" and "m \<le> n"
  shows "backoff_seconds p m \<le> backoff_seconds p n"
proof (cases "m \<le> 0")
  case True
  with backoff_seconds_bounds [OF assms(1), of n] show ?thesis
    by (simp add: backoff_seconds_def)
next
  case False
  from assms have "1 \<le> rp_factor p" and "0 \<le> rp_base_seconds p"
    by (auto simp: retry_policy_post_init_ok)
  moreover from this assms(2) have "rp_factor p ^ nat (m - 1) \<le> rp_factor p ^ nat (n - 1)"
    by (intro power_increasing) auto
  ultimately have "rp_base_seconds p * rp_factor p ^ nat (m - 1)
      \<le> rp_base_seconds p * rp_factor p ^ nat (n - 1)"
    by (intro mult_left_mono)
  with False assms(2) show ?thesis
    by (auto simp: backoff_seconds_def min_def)
qed

section \<open>Jobs\<close>

record execution_job =
  j_agent_id :: string
  j_kind :: execution_kind
  j_idempotency_key :: string
  j_payload :: json_obj
  j_id :: string
  j_state :: execution_state
  j_attempts :: int
  j_run_at :: datetime
  j_lease_owner :: "string option"
  j_lease_expiry :: "datetime option"
  j_correlation_id :: "string option"
  j_session_id :: "string option"
  j_origin :: "string option"
  j_last_error :: "string option"
  j_dead_letter_reason :: "string option"
  j_result :: "json_obj option"
  j_created_at :: datetime
  j_updated_at :: datetime
  j_started_at :: "datetime option"
  j_finished_at :: "datetime option"

text \<open>
  The constructor with its defaults: the id (\<open>job-\<close> and a fresh UUID) and the clock are
  arguments, as \<open>default_factory\<close> reads them from the environment.
\<close>

definition new_execution_job ::
    "string \<Rightarrow> datetime \<Rightarrow> string \<Rightarrow> execution_kind \<Rightarrow> string \<Rightarrow> json_obj \<Rightarrow> execution_job" where
  "new_execution_job fresh_id clock agent_id kind key payload =
     \<lparr>j_agent_id = agent_id, j_kind = kind, j_idempotency_key = key, j_payload = payload,
      j_id = fresh_id, j_state = PENDING, j_attempts = 0, j_run_at = clock,
      j_lease_owner = None, j_lease_expiry = None,
      j_correlation_id = None, j_session_id = None, j_origin = None,
      j_last_error = None, j_dead_letter_reason = None, j_result = None,
      j_created_at = clock, j_updated_at = clock, j_started_at = None, j_finished_at = None\<rparr>"

definition job_is_terminal :: "execution_job \<Rightarrow> bool" where
  "job_is_terminal j = state_is_terminal (j_state j)"

end
