(* ===== verification/ExecContract.thy ===== *)
theory ExecContract
  imports ExecModels
begin

text \<open>
  The interface every execution store implements (\<open>backend/agents/execution/store.py\<close>) and
  an abstract specification of it: a map from job ids to jobs and a relation
  \<open>exec_spec\<close> that says, for every operation, which results and which new maps the contract
  allows. The locale \<open>execution_store\<close> is the contract; its lemmas (terminal states are
  sticky, leases exclude, attempts are bounded, keys deduplicate) are proved once and hold
  for each adapter through its interpretation.
\<close>

section \<open>Operations and results\<close>

datatype exec_error =
    JobNotFoundError string
  | KeyError string
  | IntegrityError string
  | ValueError string
  | AssertionError
  | AttributeError

text \<open>
  One constructor per method of the protocol. \<open>now\<close> is the resolved clock
  (\<open>now or utcnow()\<close>); \<open>lease_seconds\<close> is given.
\<close>

datatype exec_op =
    OpEnqueue execution_job
  | OpClaimNext string datetime seconds
  | OpRenewLease string string datetime seconds
  | OpComplete string "json_obj option" datetime
  | OpFail string string datetime
  | OpCancel string datetime
  | OpRecoverStale datetime
  | OpGet string
  | OpListJobs "execution_state list option" "string option" "execution_kind option" "int option"

datatype exec_result =
    RJob "exec_error + execution_job"
  | RJobOpt "exec_error + execution_job option"
  | RBool bool
  | RJobs "exec_error + execution_job list"

fun exec_run :: "('s \<Rightarrow> exec_op \<Rightarrow> exec_result \<times> 's) \<Rightarrow> 's \<Rightarrow> exec_op list \<Rightarrow> exec_result list \<times> 's"
where
  "exec_run step s [] = ([], s)"
| "exec_run step s (op # ops) =
     (case step s op of (r, s') \<Rightarrow>
      (case exec_run step s' ops of (rs, s'') \<Rightarrow> (r # rs, s'')))"

section \<open>What each operation does to a job\<close>

definition spec_lease_expired :: "datetime \<Rightarrow> execution_job \<Rightarrow> bool" where
  "spec_lease_expired now j = (case j_lease_expiry j of None \<Rightarrow> False | Some e \<Rightarrow> e \<le> now)"

definition spec_stale :: "datetime \<Rightarrow> execution_job \<Rightarrow> bool" where
  "spec_stale now j = (j_state j = RUNNING \<and> spec_lease_expired now j)"

definition spec_runnable :: "datetime \<Rightarrow> execution_job \<Rightarrow> bool" where
  "spec_runnable now j = ((j_state j = PENDING \<and> j_run_at j \<le> now) \<or> spec_stale now j)"

definition spec_exhausted :: "retry_policy \<Rightarrow> execution_job \<Rightarrow> bool" where
  "spec_exhausted p j = (rp_max_attempts p < j_attempts j + 1)"

definition spec_order :: "execution_job \<Rightarrow> datetime \<times> datetime" where
  "spec_order j = (j_run_at j, j_created_at j)"

definition spec_attempt :: "datetime \<Rightarrow> execution_job \<Rightarrow> execution_job" where
  "spec_attempt now j =
     j\<lparr>j_attempts := j_attempts j + 1,
       j_started_at := Some (case j_started_at j of None \<Rightarrow> now | Some t \<Rightarrow> t),
       j_updated_at := now\<rparr>"

definition spec_give_up :: "datetime \<Rightarrow> execution_job \<Rightarrow> execution_job" where
  "spec_give_up now j =
     (spec_attempt now j)\<lparr>j_state := DEAD_LETTER,
        j_dead_letter_reason := Some ''max attempts exceeded'',
        j_lease_owner := None, j_lease_expiry := None, j_finished_at := Some now\<rparr>"

definition spec_lease :: "string \<Rightarrow> datetime \<Rightarrow> seconds \<Rightarrow> execution_job \<Rightarrow> execution_job" where
  "spec_lease w now lease j =
     (spec_attempt now j)\<lparr>j_state := RUNNING, j_lease_owner := Some w,
        j_lease_expiry := Some (add_seconds now lease)\<rparr>"

definition spec_renew :: "datetime \<Rightarrow> seconds \<Rightarrow> execution_job \<Rightarrow> execution_job" where
  "spec_renew now lease j =
     j\<lparr>j_lease_expiry := Some (add_seconds now lease), j_updated_at := now\<rparr>"

definition spec_succeed :: "json_obj option \<Rightarrow> datetime \<Rightarrow> execution_job \<Rightarrow> execution_job" where
  "spec_succeed result now j =
     j\<lparr>j_state := SUCCEEDED, j_result := result, j_lease_owner := None, j_lease_expiry := None,
       j_finished_at := Some now, j_updated_at := now\<rparr>"

definition failure_reason :: "int \<Rightarrow> string" where
  "failure_reason n = ''failed after '' @ string_of_int n @ '' attempt(s)''"

definition spec_fail :: "retry_policy \<Rightarrow> string \<Rightarrow> datetime \<Rightarrow> execution_job \<Rightarrow> execution_job" where
  "spec_fail p error now j =
     (if rp_max_attempts p \<le> j_attempts j
      then j\<lparr>j_last_error := Some error, j_lease_owner := None, j_lease_expiry := None,
             j_updated_at := now, j_state := DEAD_LETTER,
             j_dead_letter_reason := Some (failure_reason (j_attempts j)),
             j_finished_at := Some now\<rparr>
      else j\<lparr>j_last_error := Some error, j_lease_owner := None, j_lease_expiry := None,
             j_updated_at := now, j_state := PENDING,
             j_run_at := add_seconds now (backoff_seconds p (j_attempts j))\<rparr>)"

definition spec_cancel :: "datetime \<Rightarrow> execution_job \<Rightarrow> execution_job" where
  "spec_cancel now j =
     j\<lparr>j_state := CANCELLED, j_lease_owner := None, j_lease_expiry := None,
       j_finished_at := Some now, j_updated_at := now\<rparr>"

definition spec_recover :: "datetime \<Rightarrow> execution_job \<Rightarrow> execution_job" where
  "spec_recover now j =
     j\<lparr>j_state := PENDING, j_lease_owner := None, j_lease_expiry := None,
       j_run_at := now, j_updated_at := now\<rparr>"

definition spec_matches ::
    "execution_state list option \<Rightarrow> string option \<Rightarrow> execution_kind option \<Rightarrow> execution_job \<Rightarrow> bool"
where
  "spec_matches states agent kind j =
     ((case states of None \<Rightarrow> True | Some ss \<Rightarrow> ss = [] \<or> j_state j \<in> set ss) \<and>
      (case agent of None \<Rightarrow> True | Some a \<Rightarrow> j_agent_id j = a) \<and>
      (case kind of None \<Rightarrow> True | Some k \<Rightarrow> j_kind j = k))"

lemmas spec_job_defs = spec_attempt_def spec_give_up_def spec_lease_def spec_renew_def
  spec_succeed_def spec_fail_def spec_cancel_def spec_recover_def

section \<open>The abstract machine\<close>

type_synonym job_map = "string \<Rightarrow> execution_job option"

definition spec_known :: "job_map \<Rightarrow> string \<Rightarrow> bool" where
  "spec_known m key = (\<exists>i j. m i = Some j \<and> j_idempotency_key j = key)"

text \<open>
  \<open>claim_next\<close>: runnable jobs whose budget is spent are given up, oldest first, until a job
  with budget left is found and leased; jobs behind it are not touched.
\<close>

definition spec_claimed ::
    "retry_policy \<Rightarrow> datetime \<Rightarrow> job_map \<Rightarrow> execution_job \<Rightarrow> execution_job \<Rightarrow> job_map \<Rightarrow> bool" where
  "spec_claimed p now m j j' m' \<longleftrightarrow>
     m (j_id j) = Some j \<and> spec_runnable now j \<and> \<not> spec_exhausted p j \<and>
     (\<forall>i k. m i = Some k \<and> spec_runnable now k \<and> \<not> spec_exhausted p k \<longrightarrow>
        spec_order j \<le> spec_order k) \<and>
     m' (j_id j) = Some j' \<and>
     (\<forall>i. i \<noteq> j_id j \<longrightarrow> m' i = m i \<or>
        (\<exists>k. m i = Some k \<and> spec_runnable now k \<and> spec_exhausted p k \<and>
             spec_order k \<le> spec_order j \<and> m' i = Some (spec_give_up now k))) \<and>
     (\<forall>i k. m i = Some k \<and> spec_runnable now k \<and> spec_exhausted p k \<and>
             spec_order k < spec_order j \<longrightarrow> m' i = Some (spec_give_up now k))"

inductive exec_spec ::
    "retry_policy \<Rightarrow> job_map \<Rightarrow> exec_op \<Rightarrow> exec_result \<Rightarrow> job_map \<Rightarrow> bool" for p m where
  enqueue_known:
    "m i = Some j \<Longrightarrow> j_idempotency_key j = j_idempotency_key x \<Longrightarrow>
     exec_spec p m (OpEnqueue x) (RJob (Inr j)) m"
| enqueue_new:
    "\<not> spec_known m (j_idempotency_key x) \<Longrightarrow> m (j_id x) = None \<Longrightarrow>
     exec_spec p m (OpEnqueue x) (RJob (Inr x)) (m(j_id x \<mapsto> x))"
| claim_none:
    "(\<And>i k. m i = Some k \<Longrightarrow> spec_runnable now k \<Longrightarrow> spec_exhausted p k) \<Longrightarrow>
     exec_spec p m (OpClaimNext w now lease) (RJobOpt (Inr None))
       (\<lambda>i. map_option (\<lambda>k. if spec_runnable now k then spec_give_up now k else k) (m i))"
| claim_some:
    "spec_claimed p now m j (spec_lease w now lease j) m' \<Longrightarrow>
     exec_spec p m (OpClaimNext w now lease) (RJobOpt (Inr (Some (spec_lease w now lease j)))) m'"
| renew_ok:
    "m i = Some j \<Longrightarrow> j_state j = RUNNING \<Longrightarrow> j_lease_owner j = Some w \<Longrightarrow>
     exec_spec p m (OpRenewLease i w now lease) (RBool True) (m(i \<mapsto> spec_renew now lease j))"
| renew_refused:
    "\<not> (\<exists>j. m i = Some j \<and> j_state j = RUNNING \<and> j_lease_owner j = Some w) \<Longrightarrow>
     exec_spec p m (OpRenewLease i w now lease) (RBool False) m"
| complete_unknown:
    "m i = None \<Longrightarrow> exec_spec p m (OpComplete i res now) (RJob (Inl (JobNotFoundError i))) m"
| complete_terminal:
    "m i = Some j \<Longrightarrow> job_is_terminal j \<Longrightarrow> exec_spec p m (OpComplete i res now) (RJob (Inr j)) m"
| complete_live:
    "m i = Some j \<Longrightarrow> \<not> job_is_terminal j \<Longrightarrow>
     exec_spec p m (OpComplete i res now) (RJob (Inr (spec_succeed res now j)))
       (m(i \<mapsto> spec_succeed res now j))"
| fail_unknown:
    "m i = None \<Longrightarrow> exec_spec p m (OpFail i err now) (RJob (Inl (JobNotFoundError i))) m"
| fail_terminal:
    "m i = Some j \<Longrightarrow> job_is_terminal j \<Longrightarrow> exec_spec p m (OpFail i err now) (RJob (Inr j)) m"
| fail_live:
    "m i = Some j \<Longrightarrow> \<not> job_is_terminal j \<Longrightarrow>
     exec_spec p m (OpFail i err now) (RJob (Inr (spec_fail p err now j)))
       (m(i \<mapsto> spec_fail p err now j))"
| cancel_live:
    "m i = Some j \<Longrightarrow> \<not> job_is_terminal j \<Longrightarrow>
     exec_spec p m (OpCancel i now) (RBool True) (m(i \<mapsto> spec_cancel now j))"
| cancel_refused:
    "\<not> (\<exists>j. m i = Some j \<and> \<not> job_is_terminal j) \<Longrightarrow>
     exec_spec p m (OpCancel i now) (RBool False) m"
| recover:
    "set js = spec_recover now ` {j. j \<in> ran m \<and> spec_stale now j} \<Longrightarrow> distinct (map j_id js) \<Longrightarrow>
     exec_spec p m (OpRecoverStale now) (RJobs (Inr js))
       (\<lambda>i. map_option (\<lambda>k. if spec_stale now k then spec_recover now k else k) (m i))"
| get: "exec_spec p m (OpGet i) (RJobOpt (Inr (m i))) m"
| list_jobs:
    "set js = {j. j \<in> ran m \<and> spec_matches states agent kind j} \<Longrightarrow> distinct (map j_id js) \<Longrightarrow>
     sorted (map (\<lambda>j. - j_created_at j) js) \<Longrightarrow>
     exec_spec p m (OpListJobs states agent kind limit)
       (RJobs (Inr (case limit of None \<Rightarrow> js | Some n \<Rightarrow> take (nat n) js))) m"

inductive_cases exec_spec_enqueueE: "exec_spec p m (OpEnqueue x) r m'"
inductive_cases exec_spec_claimE: "exec_spec p m (OpClaimNext w now lease) r m'"
inductive_cases exec_spec_recoverE: "exec_spec p m (OpRecoverStale now) r m'"

text \<open>
  What a caller owes the store: ids of new jobs are fresh (they are UUIDs), leases are whole
  microseconds (the resolution of a datetime), limits are not negative.
\<close>

definition op_ok :: "job_map \<Rightarrow> exec_op \<Rightarrow> bool" where
  "op_ok m op =
     (case op of
        OpEnqueue x \<Rightarrow> (spec_known m (j_idempotency_key x) \<or> m (j_id x) = None) \<and>
          0 \<le> j_attempts x
      | OpClaimNext w now lease \<Rightarrow> whole_us lease
      | OpRenewLease i w now lease \<Rightarrow> whole_us lease
      | OpListJobs states agent kind limit \<Rightarrow> (case limit of None \<Rightarrow> True | Some n \<Rightarrow> 0 \<le> n)
      | _ \<Rightarrow> True)"

section \<open>Claiming from a sorted candidate list\<close>

text \<open>
  Both adapters walk the runnable jobs in order: give up a prefix of exhausted jobs, lease the
  first job with budget left. The closed form below is what they are compared with.
\<close>

definition spec_exhausted_item :: "retry_policy \<Rightarrow> string \<times> execution_job \<Rightarrow> bool" where
  "spec_exhausted_item p c = spec_exhausted p (snd c)"

definition spec_given_up ::
    "datetime \<Rightarrow> (string \<times> execution_job) list \<Rightarrow> job_map \<Rightarrow> job_map" where
  "spec_given_up now pre m =
     (\<lambda>i. case map_of pre i of Some k \<Rightarrow> Some (spec_give_up now k) | None \<Rightarrow> m i)"

definition spec_claim_list ::
    "retry_policy \<Rightarrow> string \<Rightarrow> datetime \<Rightarrow> seconds \<Rightarrow> (string \<times> execution_job) list \<Rightarrow> job_map \<Rightarrow>
     execution_job option \<times> job_map" where
  "spec_claim_list p w now lease cs m =
     (let m1 = spec_given_up now (takeWhile (spec_exhausted_item p) cs) m
      in case dropWhile (spec_exhausted_item p) cs of
           [] \<Rightarrow> (None, m1)
         | c # _ \<Rightarrow> (Some (spec_lease w now lease (snd c)),
                     m1(fst c \<mapsto> spec_lease w now lease (snd c))))"

lemma takeWhile_map_ofD:
  assumes "distinct (map fst cs)" and "map_of (takeWhile P cs) i = Some k"
  shows "(i, k) \<in> set cs \<and> P (i, k)"
  using map_of_SomeD [OF assms(2)] by (auto dest: set_takeWhileD)

lemma spec_given_up_all:
  assumes "distinct (map fst cs)" and "set cs = {(i, k). m i = Some k \<and> Q k}"
  shows "spec_given_up now cs m =
    (\<lambda>i. map_option (\<lambda>k. if Q k then spec_give_up now k else k) (m i))"
proof
  fix i
  show "spec_given_up now cs m i = map_option (\<lambda>k. if Q k then spec_give_up now k else k) (m i)"
  proof (cases "map_of cs i")
    case None
    then have "\<not> (\<exists>k. (i, k) \<in> set cs)" by (force simp: map_of_eq_None_iff)
    with None assms(2) show ?thesis
      by (cases "m i") (auto simp: spec_given_up_def)
  next
    case (Some k)
    then have "(i, k) \<in> set cs" by (rule map_of_SomeD)
    with Some assms(2) show ?thesis by (auto simp: spec_given_up_def)
  qed
qed

lemma spec_claim_list_sound:
  assumes d: "distinct (map fst cs)"
    and cs: "set cs = {(i, k). m i = Some k \<and> spec_runnable now k}"
    and srt: "sorted (map (spec_order \<circ> snd) cs)"
    and ids: "\<And>i k. m i = Some k \<Longrightarrow> j_id k = i"
    and eq: "spec_claim_list p w now lease cs m = (r, m')"
  shows "exec_spec p m (OpClaimNext w now lease) (RJobOpt (Inr r)) m'"
proof (cases "dropWhile (spec_exhausted_item p) cs")
  case Nil
  then have all: "\<forall>c \<in> set cs. spec_exhausted_item p c"
    by (simp add: dropWhile_eq_Nil_conv)
  then have tw: "takeWhile (spec_exhausted_item p) cs = cs" by (simp add: takeWhile_eq_all_conv)
  from eq have "r = None" and "m' = spec_given_up now cs m"
    by (simp_all add: spec_claim_list_def Let_def Nil tw)
  moreover have "\<And>i k. m i = Some k \<Longrightarrow> spec_runnable now k \<Longrightarrow> spec_exhausted p k"
    using all cs by (auto simp: spec_exhausted_item_def)
  ultimately show ?thesis
    using exec_spec.claim_none [of m now p w lease] spec_given_up_all [OF d cs] by simp
next
  case (Cons c rest)
  define pre where "pre = takeWhile (spec_exhausted_item p) cs"
  have split: "cs = pre @ c # rest"
    using Cons takeWhile_dropWhile_id [of "spec_exhausted_item p" cs] by (simp add: pre_def)
  obtain i j where c: "c = (i, j)" by (cases c)
  have nex: "\<not> spec_exhausted p j"
    using Cons c by (auto simp: dropWhile_eq_Cons_conv spec_exhausted_item_def)
  have pre_ex: "spec_exhausted p k" if "(i', k) \<in> set pre" for i' k
    using that set_takeWhileD by (fastforce simp: pre_def spec_exhausted_item_def)
  have mem: "m i = Some j" "spec_runnable now j" using cs split c by auto
  have iid: "j_id j = i" using ids mem by blast
  have le_after: "spec_order j \<le> spec_order k" if "(i', k) \<in> set rest" for i' k
    using srt that by (force simp: split c sorted_append)
  have le_before: "spec_order k \<le> spec_order j" if "(i', k) \<in> set pre" for i' k
    using srt that by (force simp: split c sorted_append)
  from eq Cons c have r: "r = Some (spec_lease w now lease j)"
    and m': "m' = (spec_given_up now pre m)(i \<mapsto> spec_lease w now lease j)"
    by (auto simp add: spec_claim_list_def Let_def pre_def)
  have dpre: "distinct (map fst pre)" using d split by simp
  have pre_upd: "m' i' = Some (spec_give_up now k)" if "(i', k) \<in> set pre" for i' k
  proof -
    have "i' \<noteq> i" using d split c that by force
    then show ?thesis using that dpre by (simp add: m' spec_given_up_def)
  qed
  have member: "(i', k) \<in> set cs" if "m i' = Some k" "spec_runnable now k" for i' k
    using that cs by blast
  have "spec_claimed p now m j (spec_lease w now lease j) m'"
    unfolding spec_claimed_def iid
  proof (intro conjI allI impI, goal_cases)
    case (4 i' k)
    then have "(i', k) \<in> set pre \<union> {(i, j)} \<union> set rest" using member split c by auto
    with 4 pre_ex le_after show ?case by auto
  next
    case (6 i')
    show ?case
    proof (cases "map_of pre i'")
      case None
      with 6 show ?thesis by (simp add: m' spec_given_up_def)
    next
      case (Some k)
      then have ik: "(i', k) \<in> set pre" by (rule map_of_SomeD)
      then have "(i', k) \<in> set cs" by (simp add: split)
      with cs have "m i' = Some k" "spec_runnable now k" by auto
      with ik pre_ex le_before pre_upd show ?thesis by blast
    qed
  next
    case (7 i' k)
    then have "(i', k) \<in> set pre \<union> {(i, j)} \<union> set rest" using member split c by auto
    with 7 nex le_after pre_upd show ?case by fastforce
  qed (use mem nex m' in \<open>simp_all\<close>)
  with r show ?thesis by (simp add: exec_spec.claim_some)
qed

section \<open>Consequences for one operation\<close>

definition job_map_ok :: "job_map \<Rightarrow> bool" where
  "job_map_ok m \<longleftrightarrow>
     (\<forall>i j. m i = Some j \<longrightarrow> j_id j = i) \<and>
     (\<forall>i j i' j'. m i = Some j \<longrightarrow> m i' = Some j' \<longrightarrow>
        j_idempotency_key j = j_idempotency_key j' \<longrightarrow> i = i')"

lemma job_map_ok_id: "job_map_ok m \<Longrightarrow> m i = Some j \<Longrightarrow> j_id j = i"
  and job_map_ok_key: "job_map_ok m \<Longrightarrow> m i = Some j \<Longrightarrow> m i' = Some j' \<Longrightarrow>
    j_idempotency_key j = j_idempotency_key j' \<Longrightarrow> i = i'"
  unfolding job_map_ok_def by blast+

lemma spec_runnable_live: "spec_runnable now j \<Longrightarrow> \<not> job_is_terminal j"
  by (auto simp: spec_runnable_def spec_stale_def job_is_terminal_def)

lemma spec_stale_live: "spec_stale now j \<Longrightarrow> \<not> job_is_terminal j"
  by (auto simp: spec_stale_def job_is_terminal_def)

text \<open>A job that is not runnable is not touched by a claim.\<close>

lemma exec_spec_claim_frame:
  assumes "exec_spec p m (OpClaimNext w now lease) r m'" and "m i = Some j" and "\<not> spec_runnable now j"
  shows "m' i = Some j \<and> (\<forall>j'. r = RJobOpt (Inr (Some j')) \<longrightarrow> job_map_ok m \<longrightarrow> j_id j' \<noteq> i)"
  using assms(1)
proof cases
  case claim_none
  with assms(2,3) show ?thesis by simp
next
  case (claim_some k)
  then have "m (j_id k) = Some k" "spec_runnable now k"
    and fr: "\<And>i. i \<noteq> j_id k \<Longrightarrow> m' i = m i \<or> (\<exists>k. m i = Some k \<and> spec_runnable now k)"
    unfolding spec_claimed_def by blast+
  with assms(2,3) have "i \<noteq> j_id k" by auto
  with fr [of i] assms(2,3) claim_some show ?thesis
    by (auto simp: spec_job_defs)
qed

lemma exec_spec_terminal:
  assumes "exec_spec p m op r m'" and "m i = Some j" and "job_is_terminal j"
  shows "m' i = Some j"
  using assms(1)
proof cases
  case (claim_none now w lease)
  with assms spec_runnable_live show ?thesis by auto
next
  case (claim_some now j' w lease)
  with assms exec_spec_claim_frame [of p m w now lease r m' i j] spec_runnable_live show ?thesis
    by blast
next
  case (recover js now)
  with assms spec_stale_live show ?thesis by auto
qed (use assms in \<open>auto simp: job_is_terminal_def\<close>)

text \<open>What no operation changes about a stored job.\<close>

definition same_job :: "execution_job \<Rightarrow> execution_job \<Rightarrow> bool" where
  "same_job j j' \<longleftrightarrow>
     j_id j' = j_id j \<and> j_idempotency_key j' = j_idempotency_key j \<and>
     j_agent_id j' = j_agent_id j \<and> j_kind j' = j_kind j \<and> j_payload j' = j_payload j \<and>
     j_correlation_id j' = j_correlation_id j \<and> j_session_id j' = j_session_id j \<and>
     j_origin j' = j_origin j \<and> j_created_at j' = j_created_at j \<and>
     j_attempts j \<le> j_attempts j'"

lemma same_job_refl [simp]: "same_job j j"
  by (simp add: same_job_def)

lemma same_job_trans: "same_job a b \<Longrightarrow> same_job b c \<Longrightarrow> same_job a c"
  by (auto simp: same_job_def)

lemma same_job_transitions [simp]:
  "same_job j (spec_give_up now j)" "same_job j (spec_lease w now lease j)"
  "same_job j (spec_renew now lease j)" "same_job j (spec_succeed res now j)"
  "same_job j (spec_fail p err now j)" "same_job j (spec_cancel now j)"
  "same_job j (spec_recover now j)"
  by (simp_all add: same_job_def spec_job_defs)

lemma exec_spec_persist:
  assumes "exec_spec p m op r m'" and "m i = Some j"
  shows "\<exists>j'. m' i = Some j' \<and> same_job j j'"
  using assms(1)
proof cases
  case (claim_some now k w lease)
  then have "m (j_id k) = Some k" "m' (j_id k) = Some (spec_lease w now lease k)"
    "i \<noteq> j_id k \<Longrightarrow> m' i = m i \<or> (\<exists>k. m i = Some k \<and> m' i = Some (spec_give_up now k))"
    unfolding spec_claimed_def by blast+
  with assms(2) show ?thesis by (cases "i = j_id k") auto
qed (use assms(2) in auto)

lemma exec_spec_origin:
  assumes "exec_spec p m op r m'" and "m i = None" and "m' i = Some j"
  shows "op = OpEnqueue j \<and> j_id j = i \<and> \<not> spec_known m (j_idempotency_key j)"
  using assms(1)
proof cases
  case (claim_some now k w lease)
  then have "m (j_id k) = Some k"
    "i \<noteq> j_id k \<Longrightarrow> m' i = m i \<or> (\<exists>k. m i = Some k)"
    unfolding spec_claimed_def by blast+
  with assms(2,3) show ?thesis by (cases "i = j_id k") auto
qed (use assms(2,3) in \<open>auto split: if_splits\<close>)

lemma exec_spec_map_ok:
  assumes "exec_spec p m op r m'" and "job_map_ok m"
  shows "job_map_ok m'"
proof -
  have prov: "(\<exists>j0. m i = Some j0 \<and> same_job j0 j) \<or>
      (m i = None \<and> op = OpEnqueue j \<and> j_id j = i \<and> \<not> spec_known m (j_idempotency_key j))"
    if "m' i = Some j" for i j
    using that exec_spec_persist [OF assms(1)] exec_spec_origin [OF assms(1) _ that]
    by (cases "m i") force+
  show ?thesis
    unfolding job_map_ok_def
  proof (intro conjI allI impI)
    fix i j
    assume "m' i = Some j"
    from prov [OF this] show "j_id j = i"
      using job_map_ok_id [OF assms(2)] by (auto simp: same_job_def)
  next
    fix i j i' j'
    assume h: "m' i = Some j" "m' i' = Some j'" "j_idempotency_key j = j_idempotency_key j'"
    from prov [OF h(1)] prov [OF h(2)] h(3) show "i = i'"
      using job_map_ok_key [OF assms(2)] unfolding same_job_def spec_known_def
      by (elim disjE exE conjE) (metis exec_op.inject(1))+
  qed
qed

text \<open>A running job whose lease is still valid at every clock the operation reads.\<close>

definition op_clock :: "exec_op \<Rightarrow> datetime option" where
  "op_clock op =
     (case op of OpClaimNext w now lease \<Rightarrow> Some now | OpRecoverStale now \<Rightarrow> Some now | _ \<Rightarrow> None)"

text \<open>The operations the holder of a lease (or an operator) addresses to the job itself.\<close>

definition op_target :: "exec_op \<Rightarrow> string option" where
  "op_target op =
     (case op of OpRenewLease i w now lease \<Rightarrow> Some i | OpComplete i res now \<Rightarrow> Some i
      | OpFail i err now \<Rightarrow> Some i | OpCancel i now \<Rightarrow> Some i | _ \<Rightarrow> None)"

definition handed_out :: "exec_op \<Rightarrow> exec_result \<Rightarrow> string \<Rightarrow> nat" where
  "handed_out op r i =
     (case (op, r) of (OpClaimNext w now lease, RJobOpt (Inr (Some j))) \<Rightarrow> if j_id j = i then 1 else 0
      | _ \<Rightarrow> 0)"

fun times_handed_out :: "exec_op list \<Rightarrow> exec_result list \<Rightarrow> string \<Rightarrow> nat" where
  "times_handed_out (op # ops) (r # rs) i = handed_out op r i + times_handed_out ops rs i"
| "times_handed_out _ _ i = 0"

lemma exec_spec_leased:
  assumes "exec_spec p m op r m'" and "job_map_ok m" and "m i = Some j" and "j_state j = RUNNING"
    and "j_lease_expiry j = Some e" and "case op_clock op of None \<Rightarrow> True | Some now \<Rightarrow> now < e"
    and "op_target op \<noteq> Some i"
  shows "m' i = Some j \<and> handed_out op r i = 0"
proof -
  have nr: "\<not> spec_runnable now j \<and> \<not> spec_stale now j" if "now < e" for now
    using that assms(4,5) by (simp add: spec_runnable_def spec_stale_def spec_lease_expired_def)
  show ?thesis
    using assms(1)
  proof cases
    case (claim_none now w lease)
    with assms nr show ?thesis by (simp add: handed_out_def op_clock_def)
  next
    case (claim_some now k w lease)
    then have "now < e" using assms(6) by (simp add: op_clock_def)
    with claim_some exec_spec_claim_frame [of p m w now lease r m' i j] assms nr show ?thesis
      by (auto simp: handed_out_def)
  next
    case (recover js now)
    with assms nr show ?thesis by (simp add: handed_out_def op_clock_def)
  qed (use assms in \<open>auto simp: handed_out_def op_target_def\<close>)
qed

text \<open>The attempts a job has left; every hand-out uses one up.\<close>

definition attempts_left :: "retry_policy \<Rightarrow> job_map \<Rightarrow> string \<Rightarrow> nat" where
  "attempts_left p m i =
     nat (rp_max_attempts p - (case m i of None \<Rightarrow> 0 | Some j \<Rightarrow> j_attempts j))"

lemma exec_spec_budget:
  assumes "exec_spec p m op r m'" and "job_map_ok m" and "op_ok m op"
  shows "handed_out op r i + attempts_left p m' i \<le> attempts_left p m i"
proof (cases "handed_out op r i = 0")
  case True
  show ?thesis
  proof (cases "m i")
    case None
    then have "m' i = None \<or> (\<exists>j. m' i = Some j \<and> 0 \<le> j_attempts j)"
      using exec_spec_origin [OF assms(1) None] assms(3)
      by (cases "m' i") (auto simp: op_ok_def)
    with True None show ?thesis by (auto simp: attempts_left_def)
  next
    case (Some j)
    with exec_spec_persist [OF assms(1)] obtain j' where "m' i = Some j'" "same_job j j'" by blast
    with True Some show ?thesis by (auto simp: attempts_left_def same_job_def)
  qed
next
  case False
  then obtain w now lease j' where op: "op = OpClaimNext w now lease"
    and r: "r = RJobOpt (Inr (Some j'))" and i: "j_id j' = i"
    by (auto simp: handed_out_def split: exec_op.splits exec_result.splits sum.splits
        option.splits if_splits)
  from assms(1) [unfolded op] show ?thesis
  proof cases
    case claim_none
    with r show ?thesis by simp
  next
    case (claim_some k)
    with r have "j' = spec_lease w now lease k" by simp
    with i have "j_id k = i" by (simp add: spec_job_defs)
    with claim_some have "m i = Some k" "\<not> spec_exhausted p k"
      "m' i = Some (spec_lease w now lease k)"
      unfolding spec_claimed_def by auto
    then show ?thesis
      using op r i by (auto simp: handed_out_def attempts_left_def spec_exhausted_def spec_job_defs)
  qed
qed

text \<open>Giving up the first candidate and claiming again is one claim.\<close>

lemma exec_spec_claim_step:
  assumes j: "m i = Some j" "j_id j = i" "spec_runnable now j" "spec_exhausted p j"
    and first: "\<And>i' k. m i' = Some k \<Longrightarrow> spec_runnable now k \<Longrightarrow> spec_order j \<le> spec_order k"
    and step: "exec_spec p (m(i \<mapsto> spec_give_up now j)) (OpClaimNext w now lease) r m'"
  shows "exec_spec p m (OpClaimNext w now lease) r m'"
proof -
  let ?m1 = "m(i \<mapsto> spec_give_up now j)"
  have dead: "\<not> spec_runnable now (spec_give_up now j)"
    using spec_runnable_live [of now "spec_give_up now j"]
    by (auto simp: job_is_terminal_def spec_job_defs)
  show ?thesis
    using step
  proof cases
    case claim_none
    have "spec_exhausted p k" if "m i' = Some k" "spec_runnable now k" for i' k
      using claim_none(3) [of i' k] that j by (cases "i' = i") auto
    then have "exec_spec p m (OpClaimNext w now lease) (RJobOpt (Inr None))
       (\<lambda>i. map_option (\<lambda>k. if spec_runnable now k then spec_give_up now k else k) (m i))"
      by (rule exec_spec.claim_none)
    moreover have "(\<lambda>i. map_option (\<lambda>k. if spec_runnable now k then spec_give_up now k else k) (m i)) = m'"
      using claim_none(2) j dead by (auto simp: fun_eq_iff)
    ultimately show ?thesis using claim_none(1) by simp
  next
    case (claim_some k)
    from claim_some(2) have k: "?m1 (j_id k) = Some k" "spec_runnable now k" "\<not> spec_exhausted p k"
      and min: "\<And>i k'. ?m1 i = Some k' \<Longrightarrow> spec_runnable now k' \<Longrightarrow> \<not> spec_exhausted p k' \<Longrightarrow>
          spec_order k \<le> spec_order k'"
      and leased: "m' (j_id k) = Some (spec_lease w now lease k)"
      and frame: "\<And>i. i \<noteq> j_id k \<Longrightarrow> m' i = ?m1 i \<or>
          (\<exists>k'. ?m1 i = Some k' \<and> spec_runnable now k' \<and> spec_exhausted p k' \<and>
             spec_order k' \<le> spec_order k \<and> m' i = Some (spec_give_up now k'))"
      and before: "\<And>i k'. ?m1 i = Some k' \<Longrightarrow> spec_runnable now k' \<Longrightarrow> spec_exhausted p k' \<Longrightarrow>
          spec_order k' < spec_order k \<Longrightarrow> m' i = Some (spec_give_up now k')"
      unfolding spec_claimed_def by blast+
    have ki: "j_id k \<noteq> i" using k j dead by (auto split: if_splits)
    then have mk: "m (j_id k) = Some k" using k by simp
    have m'i: "m' i = Some (spec_give_up now j)"
      using frame [of i] ki dead by auto
    have "spec_claimed p now m k (spec_lease w now lease k) m'"
      unfolding spec_claimed_def
    proof (intro conjI allI impI, goal_cases)
      case (4 i' k')
      with j min [of i' k'] show ?case by (cases "i' = i") auto
    next
      case (6 i')
      then show ?case
        using frame [of i'] m'i j first [OF mk k(2)] by (cases "i' = i") auto
    next
      case (7 i' k')
      then show ?case
        using before [of i' k'] m'i j by (cases "i' = i") auto
    qed (use mk k leased in simp_all)
    then show ?thesis using claim_some(1) by (simp add: exec_spec.claim_some)
  qed
qed

section \<open>The contract\<close>

fun exec_ops_ok ::
    "('s \<Rightarrow> exec_op \<Rightarrow> exec_result \<times> 's) \<Rightarrow> ('s \<Rightarrow> job_map) \<Rightarrow> 's \<Rightarrow> exec_op list \<Rightarrow> bool" where
  "exec_ops_ok step jobs s [] = True"
| "exec_ops_ok step jobs s (op # ops) =
     (op_ok (jobs s) op \<and> exec_ops_ok step jobs (snd (step s op)) ops)"

locale execution_store =
  fixes step :: "'s \<Rightarrow> exec_op \<Rightarrow> exec_result \<times> 's"
    and policy :: "'s \<Rightarrow> retry_policy"
    and jobs :: "'s \<Rightarrow> job_map"
    and inv :: "'s \<Rightarrow> bool"
  assumes step_spec: "inv s \<Longrightarrow> op_ok (jobs s) op \<Longrightarrow> step s op = (r, s') \<Longrightarrow>
      exec_spec (policy s) (jobs s) op r (jobs s') \<and> inv s' \<and> policy s' = policy s"
    and jobs_ok: "inv s \<Longrightarrow> job_map_ok (jobs s)"
begin

lemma run_induct [consumes 2, case_names Nil Cons]:
  assumes "inv s" and "exec_ops_ok step jobs s ops"
    and "\<And>s. inv s \<Longrightarrow> P s [] [] s"
    and "\<And>s op ops r s1 rs s2. inv s \<Longrightarrow> op_ok (jobs s) op \<Longrightarrow> step s op = (r, s1) \<Longrightarrow> inv s1 \<Longrightarrow>
       exec_spec (policy s) (jobs s) op r (jobs s1) \<Longrightarrow> policy s1 = policy s \<Longrightarrow>
       exec_ops_ok step jobs s1 ops \<Longrightarrow> exec_run step s1 ops = (rs, s2) \<Longrightarrow> P s1 ops rs s2 \<Longrightarrow>
       P s (op # ops) (r # rs) s2"
  shows "P s ops (fst (exec_run step s ops)) (snd (exec_run step s ops))"
  using assms(1,2)
proof (induction ops arbitrary: s)
  case Nil
  then show ?case by (simp add: assms(3))
next
  case (Cons op ops)
  obtain r s1 where st: "step s op = (r, s1)" by fastforce
  obtain rs s2 where ru: "exec_run step s1 ops = (rs, s2)" by fastforce
  from Cons.prems st have ok: "op_ok (jobs s) op" "exec_ops_ok step jobs s1 ops" by auto
  from step_spec [OF Cons.prems(1) ok(1) st] have s1: "exec_spec (policy s) (jobs s) op r (jobs s1)"
    "inv s1" "policy s1 = policy s" by auto
  have "P s1 ops (fst (exec_run step s1 ops)) (snd (exec_run step s1 ops))"
    by (rule Cons.IH [OF s1(2) ok(2)])
  then show ?case
    using assms(4) [OF Cons.prems(1) ok(1) st s1(2,1,3) ok(2) ru] by (simp add: st ru)
qed

lemma run_inv: "inv s \<Longrightarrow> exec_ops_ok step jobs s ops \<Longrightarrow> inv (snd (exec_run step s ops))"
  by (induction s ops rule: run_induct) auto

lemma run_policy: "inv s \<Longrightarrow> exec_ops_ok step jobs s ops \<Longrightarrow> policy (snd (exec_run step s ops)) = policy s"
  by (induction s ops rule: run_induct) auto

lemma run_terminal:
  assumes "inv s" "exec_ops_ok step jobs s ops" "jobs s i = Some j" "job_is_terminal j"
  shows "jobs (snd (exec_run step s ops)) i = Some j"
  using assms by (induction s ops rule: run_induct) (auto dest: exec_spec_terminal)

lemma run_persist:
  assumes "inv s" "exec_ops_ok step jobs s ops" "jobs s i = Some j"
  shows "\<exists>j'. jobs (snd (exec_run step s ops)) i = Some j' \<and> same_job j j'"
  using assms
proof (induction s ops arbitrary: j rule: run_induct)
  case (Nil s)
  then show ?case by auto
next
  case (Cons s op ops r s1 rs s2)
  then show ?case by (meson exec_spec_persist same_job_trans)
qed

lemma run_leased:
  assumes "inv s" "exec_ops_ok step jobs s ops" "jobs s i = Some j" "j_state j = RUNNING"
    "j_lease_expiry j = Some e"
    "\<forall>op \<in> set ops. (case op_clock op of None \<Rightarrow> True | Some now \<Rightarrow> now < e) \<and> op_target op \<noteq> Some i"
  shows "jobs (snd (exec_run step s ops)) i = Some j \<and>
    times_handed_out ops (fst (exec_run step s ops)) i = 0"
  using assms
proof (induction s ops rule: run_induct)
  case (Nil s)
  then show ?case by simp
next
  case (Cons s op ops r s1 rs s2)
  from Cons.prems have "case op_clock op of None \<Rightarrow> True | Some now \<Rightarrow> now < e"
    "op_target op \<noteq> Some i" by auto
  from exec_spec_leased [OF Cons.hyps(5) jobs_ok [OF Cons.hyps(1)] Cons.prems(1,2,3) this]
  have "jobs s1 i = Some j" "handed_out op r i = 0" by auto
  with Cons show ?case by auto
qed

lemma run_budget:
  assumes "inv s" "exec_ops_ok step jobs s ops"
  shows "times_handed_out ops (fst (exec_run step s ops)) i \<le> attempts_left (policy s) (jobs s) i"
  using assms
proof (induction s ops rule: run_induct)
  case (Nil s)
  then show ?case by simp
next
  case (Cons s op ops r s1 rs s2)
  from exec_spec_budget [OF Cons.hyps(5) jobs_ok [OF Cons.hyps(1)] Cons.hyps(2), of i] Cons.IH Cons.hyps(6)
  show ?case by simp
qed

lemma enqueue_again:
  assumes "inv s" "op_ok (jobs s) (OpEnqueue x)" "step s (OpEnqueue x) = (RJob (Inr j), s1)"
    "exec_ops_ok step jobs s1 ops" "j_idempotency_key y = j_idempotency_key x" "0 \<le> j_attempts y"
  shows "\<exists>j' s3. step (snd (exec_run step s1 ops)) (OpEnqueue y) = (RJob (Inr j'), s3) \<and>
    same_job j j' \<and> jobs s3 = jobs (snd (exec_run step s1 ops))"
proof -
  let ?s2 = "snd (exec_run step s1 ops)"
  from step_spec [OF assms(1-3)] have sp: "exec_spec (policy s) (jobs s) (OpEnqueue x) (RJob (Inr j)) (jobs s1)"
    and i1: "inv s1" by auto
  from sp have "\<exists>i. jobs s1 i = Some j \<and> j_idempotency_key j = j_idempotency_key x"
    by (cases rule: exec_spec_enqueueE) auto
  then obtain i where i: "jobs s1 i = Some j" "j_idempotency_key j = j_idempotency_key x" by blast
  from run_persist [OF i1 assms(4) i(1)] obtain j' where j': "jobs ?s2 i = Some j'" "same_job j j'"
    by blast
  have i2: "inv ?s2" by (rule run_inv [OF i1 assms(4)])
  have key: "j_idempotency_key j' = j_idempotency_key y"
    using j'(2) i(2) assms(5) by (simp add: same_job_def)
  then have known: "spec_known (jobs ?s2) (j_idempotency_key y)"
    using j'(1) by (auto simp: spec_known_def)
  obtain r s3 where st: "step ?s2 (OpEnqueue y) = (r, s3)" by fastforce
  from step_spec [OF i2 _ st] known assms(6)
  have "exec_spec (policy ?s2) (jobs ?s2) (OpEnqueue y) r (jobs s3)" by (auto simp: op_ok_def)
  then have "r = RJob (Inr j') \<and> jobs s3 = jobs ?s2"
  proof cases
    case (enqueue_known i' k)
    with job_map_ok_key [OF jobs_ok [OF i2] _ j'(1)] key have "i' = i" by auto
    with enqueue_known j'(1) show ?thesis by simp
  qed (use known in auto)
  with st j'(2) show ?thesis by blast
qed

text \<open>A claim comes back empty exactly when no runnable job has budget left.\<close>

lemma claim_progress:
  assumes "inv s" "whole_us lease" "step s (OpClaimNext w now lease) = (r, s')"
  shows "r = RJobOpt (Inr None) \<longleftrightarrow>
    (\<forall>i j. jobs s i = Some j \<longrightarrow> spec_runnable now j \<longrightarrow> spec_exhausted (policy s) j)"
proof -
  from step_spec [OF assms(1) _ assms(3)] assms(2)
  have "exec_spec (policy s) (jobs s) (OpClaimNext w now lease) r (jobs s')"
    by (simp add: op_ok_def)
  then show ?thesis
    by (cases rule: exec_spec_claimE) (auto simp: spec_claimed_def)
qed

end

end
