(* ===== verification/ExecMemory.thy ===== *)
theory ExecMemory
  imports ExecContract
begin

text \<open>
  \<open>InMemoryExecutionStore\<close> (\<open>backend/agents/execution/memory_store.py\<close>): the two
  dictionaries and every method. Jobs are mutated in place in the source, under the lock;
  here each method returns the store it leaves. \<open>copy()\<close> isolates the caller from the
  store and is the identity on values.
\<close>

section \<open>State\<close>

record mem_store =
  ms_retry :: retry_policy
  ms_jobs :: "(string, execution_job) dict"
  ms_by_key :: "(string, string) dict"

definition mem_init :: "retry_policy option \<Rightarrow> mem_store" where
  "mem_init rp =
     \<lparr>ms_retry = (case rp of None \<Rightarrow> default_retry_policy | Some p \<Rightarrow> p),
      ms_jobs = [], ms_by_key = []\<rparr>"

abbreviation mem_put :: "mem_store \<Rightarrow> string \<Rightarrow> execution_job \<Rightarrow> mem_store" where
  "mem_put s i j \<equiv> s\<lparr>ms_jobs := dict_set (ms_jobs s) i j\<rparr>"

section \<open>Operations\<close>

definition mem_enqueue ::
    "mem_store \<Rightarrow> execution_job \<Rightarrow> (exec_error + execution_job) \<times> mem_store" where
  "mem_enqueue s job =
     (case map_of (ms_by_key s) (j_idempotency_key job) of
        Some existing_id \<Rightarrow>
          (case map_of (ms_jobs s) existing_id of
             Some existing \<Rightarrow> (Inr existing, s)
           | None \<Rightarrow> (Inl (KeyError existing_id), s))
      | None \<Rightarrow>
          (Inr job,
           s\<lparr>ms_jobs := dict_set (ms_jobs s) (j_id job) job,
             ms_by_key := dict_set (ms_by_key s) (j_idempotency_key job) (j_id job)\<rparr>))"

definition mem_lease_expired :: "execution_job \<Rightarrow> datetime \<Rightarrow> bool" where
  "mem_lease_expired job now =
     (case j_lease_expiry job of None \<Rightarrow> False | Some expiry \<Rightarrow> expiry \<le> now)"

definition mem_runnable :: "mem_store \<Rightarrow> datetime \<Rightarrow> (string \<times> execution_job) list" where
  "mem_runnable s now =
     sort_key (\<lambda>(i, j). (j_run_at j, j_created_at j))
       (filter (\<lambda>(i, job).
            (j_state job = PENDING \<and> j_run_at job \<le> now) \<or>
            (j_state job = RUNNING \<and> mem_lease_expired job now)) (ms_jobs s))"

fun mem_claim_loop ::
    "(string \<times> execution_job) list \<Rightarrow> string \<Rightarrow> datetime \<Rightarrow> seconds \<Rightarrow> mem_store \<Rightarrow>
     execution_job option \<times> mem_store" where
  "mem_claim_loop [] worker_id now lease_seconds s = (None, s)"
| "mem_claim_loop ((i, job) # rest) worker_id now lease_seconds s =
     (let job = job\<lparr>j_attempts := j_attempts job + 1,
                    j_started_at := Some (case j_started_at job of None \<Rightarrow> now | Some t \<Rightarrow> t),
                    j_updated_at := now\<rparr>
      in if rp_max_attempts (ms_retry s) < j_attempts job
         then mem_claim_loop rest worker_id now lease_seconds
                (mem_put s i (job\<lparr>j_state := DEAD_LETTER,
                                  j_dead_letter_reason := Some ''max attempts exceeded'',
                                  j_lease_owner := None, j_lease_expiry := None,
                                  j_finished_at := Some now\<rparr>))
         else let job = job\<lparr>j_state := RUNNING, j_lease_owner := Some worker_id,
                            j_lease_expiry := Some (add_seconds now lease_seconds)\<rparr>
              in (Some job, mem_put s i job))"

definition mem_claim_next ::
    "mem_store \<Rightarrow> string \<Rightarrow> datetime \<Rightarrow> seconds \<Rightarrow> execution_job option \<times> mem_store" where
  "mem_claim_next s worker_id now lease_seconds =
     mem_claim_loop (mem_runnable s now) worker_id now lease_seconds s"

definition mem_renew_lease ::
    "mem_store \<Rightarrow> string \<Rightarrow> string \<Rightarrow> datetime \<Rightarrow> seconds \<Rightarrow> bool \<times> mem_store" where
  "mem_renew_lease s job_id worker_id now lease_seconds =
     (case map_of (ms_jobs s) job_id of
        None \<Rightarrow> (False, s)
      | Some job \<Rightarrow>
          if j_state job \<noteq> RUNNING \<or> j_lease_owner job \<noteq> Some worker_id then (False, s)
          else (True, mem_put s job_id
                  (job\<lparr>j_lease_expiry := Some (add_seconds now lease_seconds),
                       j_updated_at := now\<rparr>)))"

definition mem_require :: "mem_store \<Rightarrow> string \<Rightarrow> exec_error + execution_job" where
  "mem_require s job_id =
     (case map_of (ms_jobs s) job_id of None \<Rightarrow> Inl (JobNotFoundError job_id) | Some job \<Rightarrow> Inr job)"

definition mem_complete ::
    "mem_store \<Rightarrow> string \<Rightarrow> json_obj option \<Rightarrow> datetime \<Rightarrow>
     (exec_error + execution_job) \<times> mem_store" where
  "mem_complete s job_id result now =
     (case mem_require s job_id of
        Inl e \<Rightarrow> (Inl e, s)
      | Inr job \<Rightarrow>
          if job_is_terminal job then (Inr job, s)
          else let job = job\<lparr>j_state := SUCCEEDED, j_result := result,
                             j_lease_owner := None, j_lease_expiry := None,
                             j_finished_at := Some now, j_updated_at := now\<rparr>
               in (Inr job, mem_put s job_id job))"

definition mem_fail ::
    "mem_store \<Rightarrow> string \<Rightarrow> string \<Rightarrow> datetime \<Rightarrow> (exec_error + execution_job) \<times> mem_store" where
  "mem_fail s job_id error now =
     (case mem_require s job_id of
        Inl e \<Rightarrow> (Inl e, s)
      | Inr job \<Rightarrow>
          if job_is_terminal job then (Inr job, s)
          else let job = job\<lparr>j_last_error := Some error, j_lease_owner := None,
                             j_lease_expiry := None, j_updated_at := now\<rparr>;
                   job = (if rp_max_attempts (ms_retry s) \<le> j_attempts job
                          then job\<lparr>j_state := DEAD_LETTER,
                                   j_dead_letter_reason :=
                                     Some (''failed after '' @ string_of_int (j_attempts job) @
                                           '' attempt(s)''),
                                   j_finished_at := Some now\<rparr>
                          else job\<lparr>j_state := PENDING,
                                   j_run_at := add_seconds now
                                     (backoff_seconds (ms_retry s) (j_attempts job))\<rparr>)
               in (Inr job, mem_put s job_id job))"

definition mem_cancel :: "mem_store \<Rightarrow> string \<Rightarrow> datetime \<Rightarrow> bool \<times> mem_store" where
  "mem_cancel s job_id now =
     (case map_of (ms_jobs s) job_id of
        None \<Rightarrow> (False, s)
      | Some job \<Rightarrow>
          if job_is_terminal job then (False, s)
          else (True, mem_put s job_id
                  (job\<lparr>j_state := CANCELLED, j_lease_owner := None, j_lease_expiry := None,
                       j_finished_at := Some now, j_updated_at := now\<rparr>)))"

text \<open>One visit of the sweep over \<open>_jobs.values()\<close>.\<close>

definition mem_recover_one :: "datetime \<Rightarrow> execution_job \<Rightarrow> execution_job option" where
  "mem_recover_one now job =
     (if j_state job = RUNNING \<and> mem_lease_expired job now
      then Some (job\<lparr>j_state := PENDING, j_lease_owner := None, j_lease_expiry := None,
                     j_run_at := now, j_updated_at := now\<rparr>)
      else None)"

definition mem_recover_stale :: "mem_store \<Rightarrow> datetime \<Rightarrow> execution_job list \<times> mem_store" where
  "mem_recover_stale s now =
     (List.map_filter (\<lambda>(i, job). mem_recover_one now job) (ms_jobs s),
      s\<lparr>ms_jobs := map (\<lambda>(i, job). (i, case mem_recover_one now job of
                                            None \<Rightarrow> job | Some job' \<Rightarrow> job')) (ms_jobs s)\<rparr>)"

definition mem_get :: "mem_store \<Rightarrow> string \<Rightarrow> execution_job option" where
  "mem_get s job_id = map_of (ms_jobs s) job_id"

definition mem_list_jobs ::
    "mem_store \<Rightarrow> execution_state list option \<Rightarrow> string option \<Rightarrow> execution_kind option \<Rightarrow>
     int option \<Rightarrow> execution_job list" where
  "mem_list_jobs s states agent_id kind limit =
     (let state_set = (case states of None \<Rightarrow> None | Some ss \<Rightarrow> if ss = [] then None else Some (set ss));
          jobs = filter (\<lambda>job.
                   (case state_set of None \<Rightarrow> True | Some ss \<Rightarrow> j_state job \<in> ss) \<and>
                   (case agent_id of None \<Rightarrow> True | Some a \<Rightarrow> j_agent_id job = a) \<and>
                   (case kind of None \<Rightarrow> True | Some k \<Rightarrow> j_kind job = k))
                   (dict_values (ms_jobs s));
          jobs = sort_key (\<lambda>j. - j_created_at j) jobs
      in case limit of None \<Rightarrow> jobs | Some n \<Rightarrow> py_take n jobs)"

text \<open>The store behind the protocol: one operation of \<open>ExecutionStore\<close> at a time.\<close>

fun mem_step :: "mem_store \<Rightarrow> exec_op \<Rightarrow> exec_result \<times> mem_store" where
  "mem_step s (OpEnqueue job) = map_prod RJob id (mem_enqueue s job)"
| "mem_step s (OpClaimNext w now lease) =
     map_prod (RJobOpt \<circ> Inr) id (mem_claim_next s w now lease)"
| "mem_step s (OpRenewLease i w now lease) = map_prod RBool id (mem_renew_lease s i w now lease)"
| "mem_step s (OpComplete i res now) = map_prod RJob id (mem_complete s i res now)"
| "mem_step s (OpFail i err now) = map_prod RJob id (mem_fail s i err now)"
| "mem_step s (OpCancel i now) = map_prod RBool id (mem_cancel s i now)"
| "mem_step s (OpRecoverStale now) = map_prod (RJobs \<circ> Inr) id (mem_recover_stale s now)"
| "mem_step s (OpGet i) = (RJobOpt (Inr (mem_get s i)), s)"
| "mem_step s (OpListJobs states agent kind limit) =
     (RJobs (Inr (mem_list_jobs s states agent kind limit)), s)"

section \<open>The store honours the contract\<close>

abbreviation mem_map :: "mem_store \<Rightarrow> job_map" where
  "mem_map s \<equiv> map_of (ms_jobs s)"

text \<open>
  The two dictionaries agree: every job is filed under its own id, and \<open>_by_key\<close> maps exactly
  the idempotency keys in use to the job that carries them.
\<close>

definition mem_inv :: "mem_store \<Rightarrow> bool" where
  "mem_inv s \<longleftrightarrow>
     distinct (map fst (ms_jobs s)) \<and>
     (\<forall>i j. mem_map s i = Some j \<longrightarrow> j_id j = i) \<and>
     (\<forall>key i. map_of (ms_by_key s) key = Some i \<longleftrightarrow>
        (\<exists>j. mem_map s i = Some j \<and> j_idempotency_key j = key))"

lemma mem_inv_distinct: "mem_inv s \<Longrightarrow> distinct (map fst (ms_jobs s))"
  and mem_inv_id: "mem_inv s \<Longrightarrow> mem_map s i = Some j \<Longrightarrow> j_id j = i"
  and mem_inv_key: "mem_inv s \<Longrightarrow> map_of (ms_by_key s) key = Some i \<longleftrightarrow>
        (\<exists>j. mem_map s i = Some j \<and> j_idempotency_key j = key)"
  by (auto simp: mem_inv_def)

lemma mem_inv_init: "mem_inv (mem_init rp)"
  by (simp add: mem_inv_def mem_init_def)

lemma mem_inv_put:
  assumes "mem_inv s" and "mem_map s i = Some j" and "j_id j' = j_id j"
    and "j_idempotency_key j' = j_idempotency_key j"
  shows "mem_inv (mem_put s i j')"
  using assms unfolding mem_inv_def by (auto simp: fun_upd_apply)

lemma mem_inv_map:
  assumes "mem_inv s" and "\<And>j. j_id (f j) = j_id j"
    and "\<And>j. j_idempotency_key (f j) = j_idempotency_key j"
    and "ms_by_key s' = ms_by_key s" and "ms_jobs s' = map (\<lambda>(i, j). (i, f j)) (ms_jobs s)"
  shows "mem_inv s'"
proof -
  have "mem_map s' = map_option f \<circ> mem_map s"
    unfolding assms(5) by (rule map_of_dict_map_values)
  then have "mem_map s' i = Some j' \<longleftrightarrow> (\<exists>j. mem_map s i = Some j \<and> j' = f j)" for i j'
    by auto
  moreover have "map fst (ms_jobs s') = map fst (ms_jobs s)"
    by (simp add: assms(5) comp_def case_prod_beta)
  ultimately show ?thesis
    using assms(1-4) unfolding mem_inv_def by auto
qed

lemma mem_lease_expired_spec [simp]: "mem_lease_expired j now = spec_lease_expired now j"
  by (simp add: mem_lease_expired_def spec_lease_expired_def)

text \<open>The candidates are the runnable jobs, once each, oldest first.\<close>

lemma mem_runnable_set:
  assumes "mem_inv s"
  shows "set (mem_runnable s now) = {(i, j). mem_map s i = Some j \<and> spec_runnable now j}"
  unfolding mem_runnable_def
  by (auto simp: spec_runnable_def spec_stale_def dict_item [OF mem_inv_distinct [OF assms]])

lemma mem_runnable_distinct:
  assumes "mem_inv s"
  shows "distinct (map fst (mem_runnable s now))"
  using mem_inv_distinct [OF assms] by (simp add: mem_runnable_def distinct_map_filter)

lemma mem_runnable_sorted: "sorted (map (spec_order \<circ> snd) (mem_runnable s now))"
proof -
  have eq: "(spec_order \<circ> snd) = (\<lambda>(i, j). (j_run_at j, j_created_at j))"
    by (auto simp: spec_order_def)
  show ?thesis unfolding mem_runnable_def eq by (rule sorted_sort_key)
qed

text \<open>The loop in closed form.\<close>

definition mem_give_up_all ::
    "datetime \<Rightarrow> (string \<times> execution_job) list \<Rightarrow> mem_store \<Rightarrow> mem_store" where
  "mem_give_up_all now pre s = foldl (\<lambda>s (i, j). mem_put s i (spec_give_up now j)) s pre"

lemma mem_claim_loop_Cons:
  "mem_claim_loop ((i, j) # cs) w now lease s =
     (if spec_exhausted (ms_retry s) j
      then mem_claim_loop cs w now lease (mem_put s i (spec_give_up now j))
      else (Some (spec_lease w now lease j), mem_put s i (spec_lease w now lease j)))"
  by (simp add: Let_def spec_exhausted_def spec_job_defs)

lemma mem_give_up_all_rec:
  "mem_give_up_all now [] s = s"
  "mem_give_up_all now ((i, j) # pre) s = mem_give_up_all now pre (mem_put s i (spec_give_up now j))"
  by (simp_all add: mem_give_up_all_def)

lemma mem_claim_loop_eq:
  "mem_claim_loop cs w now lease s =
     (let s1 = mem_give_up_all now (takeWhile (spec_exhausted_item (ms_retry s)) cs) s
      in case dropWhile (spec_exhausted_item (ms_retry s)) cs of
           [] \<Rightarrow> (None, s1)
         | c # _ \<Rightarrow> (Some (spec_lease w now lease (snd c)),
                     mem_put s1 (fst c) (spec_lease w now lease (snd c))))"
proof (induction cs arbitrary: s)
  case Nil
  then show ?case by (simp add: mem_give_up_all_rec)
next
  case (Cons c cs)
  obtain i j where c: "c = (i, j)" by (cases c)
  show ?case
    by (simp add: c mem_claim_loop_Cons Cons.IH Let_def mem_give_up_all_rec
        spec_exhausted_item_def del: mem_claim_loop.simps split: list.split)
qed

lemma mem_give_up_all_simps [simp]:
  "ms_retry (mem_give_up_all now pre s) = ms_retry s"
  "ms_by_key (mem_give_up_all now pre s) = ms_by_key s"
  unfolding mem_give_up_all_def
  by (induction pre arbitrary: s) (auto split: prod.splits)

lemma mem_give_up_all_map:
  "distinct (map fst pre) \<Longrightarrow> mem_map (mem_give_up_all now pre s) = spec_given_up now pre (mem_map s)"
proof (induction pre arbitrary: s)
  case Nil
  then show ?case by (simp add: mem_give_up_all_def spec_given_up_def)
next
  case (Cons c pre)
  obtain i j where c: "c = (i, j)" by (cases c)
  have "mem_give_up_all now (c # pre) s =
      mem_give_up_all now pre (mem_put s i (spec_give_up now j))"
    by (simp add: mem_give_up_all_def c)
  with Cons have "mem_map (mem_give_up_all now (c # pre) s) =
      spec_given_up now pre ((mem_map s)(i \<mapsto> spec_give_up now j))"
    by simp
  moreover have "map_of pre i = None" using Cons.prems by (simp add: c map_of_None_keys)
  ultimately show ?case by (auto simp: spec_given_up_def c fun_eq_iff split: option.splits)
qed

lemma mem_claim_next_list:
  assumes "mem_inv s" and "mem_claim_next s w now lease = (r, s')"
  shows "spec_claim_list (ms_retry s) w now lease (mem_runnable s now) (mem_map s) = (r, mem_map s')
    \<and> ms_retry s' = ms_retry s \<and> ms_by_key s' = ms_by_key s"
proof -
  define cs where "cs = mem_runnable s now"
  let ?pre = "takeWhile (spec_exhausted_item (ms_retry s)) cs"
  have "distinct (map fst ?pre)"
    using mem_runnable_distinct [OF assms(1)] unfolding cs_def by (rule distinct_map_takeWhile)
  then have "distinct (map fst ?pre)" by simp
  then have m1: "mem_map (mem_give_up_all now ?pre s) = spec_given_up now ?pre (mem_map s)"
    by (rule mem_give_up_all_map)
  from assms(2) have "mem_claim_loop cs w now lease s = (r, s')"
    by (simp add: mem_claim_next_def cs_def)
  then show ?thesis
    unfolding mem_claim_loop_eq spec_claim_list_def cs_def [symmetric] Let_def
    by (auto simp: m1 split: list.splits)
qed

lemma mem_recover_one_spec:
  "mem_recover_one now j = (if spec_stale now j then Some (spec_recover now j) else None)"
  by (simp add: mem_recover_one_def spec_stale_def spec_recover_def)

lemma mem_list_jobs_set:
  assumes "mem_inv s"
  shows "set (dict_values (ms_jobs s)) = ran (mem_map s)"
  using assms by (simp add: ran_distinct mem_inv_distinct)

lemma mem_values_ids: "mem_inv s \<Longrightarrow> map j_id (dict_values (ms_jobs s)) = map fst (ms_jobs s)"
  using mem_inv_id by (force simp: dict_item [OF mem_inv_distinct, symmetric])

lemma mem_values_distinct: "mem_inv s \<Longrightarrow> distinct (map j_id (dict_values (ms_jobs s)))"
  by (subst mem_values_ids) (auto intro: mem_inv_distinct)

lemma mem_enqueue_spec:
  assumes "mem_inv s" and ok: "spec_known (mem_map s) (j_idempotency_key x) \<or> mem_map s (j_id x) = None"
    and eq: "mem_enqueue s x = (r, s')"
  shows "exec_spec (ms_retry s) (mem_map s) (OpEnqueue x) (RJob r) (mem_map s') \<and>
    mem_inv s' \<and> ms_retry s' = ms_retry s"
proof (cases "map_of (ms_by_key s) (j_idempotency_key x)")
  case (Some i)
  then obtain j where "mem_map s i = Some j" "j_idempotency_key j = j_idempotency_key x"
    using mem_inv_key [OF assms(1)] by blast
  with Some eq assms(1) show ?thesis
    by (auto simp: mem_enqueue_def intro: exec_spec.enqueue_known)
next
  case None
  then have unk: "\<not> spec_known (mem_map s) (j_idempotency_key x)"
    using mem_inv_key [OF assms(1)] unfolding spec_known_def by (metis option.distinct(1))
  with ok have new: "mem_map s (j_id x) = None" by blast
  from None eq have r: "r = Inr x" and
    s': "s' = s\<lparr>ms_jobs := dict_set (ms_jobs s) (j_id x) x,
             ms_by_key := dict_set (ms_by_key s) (j_idempotency_key x) (j_id x)\<rparr>"
    by (auto simp: mem_enqueue_def)
  have "mem_inv s'"
    using assms(1) new unk unfolding mem_inv_def s' spec_known_def
    by (auto simp: fun_upd_apply split: if_splits)
  then show ?thesis using unk new by (simp add: r s' exec_spec.enqueue_new)
qed

lemma mem_inv_give_up_all:
  "mem_inv s \<Longrightarrow> distinct (map fst pre) \<Longrightarrow> (\<And>i j. (i, j) \<in> set pre \<Longrightarrow> mem_map s i = Some j) \<Longrightarrow>
   mem_inv (mem_give_up_all now pre s)"
proof (induction pre arbitrary: s)
  case Nil
  then show ?case by (simp add: mem_give_up_all_rec)
next
  case (Cons c pre)
  obtain i j where c: "c = (i, j)" by (cases c)
  have "mem_inv (mem_put s i (spec_give_up now j))"
    using Cons.prems by (intro mem_inv_put [where j = j]) (auto simp: c spec_job_defs)
  moreover have "mem_map (mem_put s i (spec_give_up now j)) i' = Some j'"
    if "(i', j') \<in> set pre" for i' j'
    using that Cons.prems by (auto simp: c rev_image_eqI)
  ultimately show ?case
    using Cons.IH Cons.prems by (simp add: c mem_give_up_all_rec)
qed

lemma mem_claim_next_inv:
  assumes "mem_inv s" and "mem_claim_next s w now lease = (r, s')"
  shows "mem_inv s'"
proof -
  define cs where "cs = mem_runnable s now"
  let ?P = "spec_exhausted_item (ms_retry s)"
  let ?s1 = "mem_give_up_all now (takeWhile ?P cs) s"
  have d: "distinct (map fst (takeWhile ?P cs))"
    using mem_runnable_distinct [OF assms(1)] unfolding cs_def by (rule distinct_map_takeWhile)
  have in_cs: "mem_map s i = Some j" if "(i, j) \<in> set cs" for i j
    using that mem_runnable_set [OF assms(1)] by (auto simp: cs_def)
  have i1: "mem_inv ?s1"
    using assms(1) d in_cs by (intro mem_inv_give_up_all) (auto dest: set_takeWhileD)
  show ?thesis
  proof (cases "dropWhile ?P cs")
    case Nil
    with assms(2) i1 show ?thesis
      by (auto simp: mem_claim_next_def mem_claim_loop_eq cs_def [symmetric] Let_def)
  next
    case (Cons c rest)
    obtain i j where c: "c = (i, j)" by (cases c)
    have "distinct (map fst (takeWhile ?P cs @ c # rest))"
      using mem_runnable_distinct [OF assms(1)] Cons takeWhile_dropWhile_id [of ?P cs]
      by (simp add: cs_def)
    then have "map_of (takeWhile ?P cs) i = None" by (simp add: c map_of_None_keys)
    moreover have "(i, j) \<in> set cs"
      using Cons takeWhile_dropWhile_id [of ?P cs] by (metis c in_set_conv_decomp)
    ultimately have "mem_map ?s1 i = Some j"
      using in_cs by (simp add: mem_give_up_all_map [OF d] spec_given_up_def)
    then have "mem_inv (mem_put ?s1 i (spec_lease w now lease j))"
      using i1 by (intro mem_inv_put [where j = j]) (auto simp: spec_job_defs)
    with assms(2) Cons c show ?thesis
      by (auto simp: mem_claim_next_def mem_claim_loop_eq cs_def [symmetric] Let_def)
  qed
qed

lemma mem_claim_next_spec:
  assumes "mem_inv s" and "mem_claim_next s w now lease = (r, s')"
  shows "exec_spec (ms_retry s) (mem_map s) (OpClaimNext w now lease) (RJobOpt (Inr r)) (mem_map s')
    \<and> mem_inv s' \<and> ms_retry s' = ms_retry s"
proof -
  note l = mem_claim_next_list [OF assms]
  have "exec_spec (ms_retry s) (mem_map s) (OpClaimNext w now lease) (RJobOpt (Inr r)) (mem_map s')"
    by (rule spec_claim_list_sound [OF mem_runnable_distinct [OF assms(1)]
          mem_runnable_set [OF assms(1)] mem_runnable_sorted mem_inv_id [OF assms(1)]])
      (use l in auto)
  with l mem_claim_next_inv [OF assms] show ?thesis by blast
qed

lemma mem_recover_list:
  "List.map_filter (\<lambda>(i, j). mem_recover_one now j) d =
     map (spec_recover now) (filter (spec_stale now) (dict_values d))"
  by (induction d) (auto simp: map_filter_simps mem_recover_one_spec)

lemma mem_recover_stale_spec:
  assumes inv: "mem_inv s" and eq: "mem_recover_stale s now = (js, s')"
  shows "exec_spec (ms_retry s) (mem_map s) (OpRecoverStale now) (RJobs (Inr js)) (mem_map s') \<and>
    mem_inv s' \<and> ms_retry s' = ms_retry s"
proof -
  let ?f = "\<lambda>j. if spec_stale now j then spec_recover now j else j"
  have f: "(case mem_recover_one now j of None \<Rightarrow> j | Some j' \<Rightarrow> j') = ?f j" for j
    by (simp add: mem_recover_one_spec)
  from eq have s': "s' = s\<lparr>ms_jobs := map (\<lambda>(i, j). (i, ?f j)) (ms_jobs s)\<rparr>"
    and js: "js = List.map_filter (\<lambda>(i, j). mem_recover_one now j) (ms_jobs s)"
    by (auto simp: mem_recover_stale_def f)
  have js2: "js = map (spec_recover now) (filter (spec_stale now) (dict_values (ms_jobs s)))"
    unfolding js by (rule mem_recover_list)
  have m': "mem_map s' = (\<lambda>i. map_option ?f (mem_map s i))"
    by (simp add: s' map_of_dict_map_values comp_def)
  have "map j_id js = map j_id (filter (spec_stale now) (dict_values (ms_jobs s)))"
    by (simp add: js2 spec_recover_def)
  then have "distinct (map j_id js)"
    using distinct_map_filter [OF mem_values_distinct [OF inv]] by metis
  moreover have "set js = spec_recover now ` {j. j \<in> ran (mem_map s) \<and> spec_stale now j}"
    using mem_list_jobs_set [OF inv] by (auto simp: js2)
  moreover have "mem_inv s'"
    by (rule mem_inv_map [OF inv, where f = ?f])
      (auto simp: s' m' [symmetric] spec_recover_def case_prod_beta comp_def
        map_of_dict_map_values)
  ultimately show ?thesis
    unfolding m' by (simp add: exec_spec.recover s')
qed

lemma mem_list_jobs_spec:
  assumes inv: "mem_inv s" and ok: "case limit of None \<Rightarrow> True | Some n \<Rightarrow> 0 \<le> n"
  shows "exec_spec (ms_retry s) (mem_map s) (OpListJobs states agent kind limit)
    (RJobs (Inr (mem_list_jobs s states agent kind limit))) (mem_map s)"
proof -
  define js where "js = sort_key (\<lambda>j. - j_created_at j)
    (filter (spec_matches states agent kind) (dict_values (ms_jobs s)))"
  have P: "(\<lambda>job. (case (case states of None \<Rightarrow> None | Some ss \<Rightarrow> if ss = [] then None else Some (set ss)) of
                   None \<Rightarrow> True | Some ss \<Rightarrow> j_state job \<in> ss) \<and>
                 (case agent of None \<Rightarrow> True | Some a \<Rightarrow> j_agent_id job = a) \<and>
                 (case kind of None \<Rightarrow> True | Some k \<Rightarrow> j_kind job = k)) =
      spec_matches states agent kind"
    by (auto simp: fun_eq_iff spec_matches_def split: option.splits)
  have eq: "mem_list_jobs s states agent kind limit =
      (case limit of None \<Rightarrow> js | Some n \<Rightarrow> take (nat n) js)"
    using ok unfolding mem_list_jobs_def Let_def P js_def by (auto split: option.splits)
  have "set js = {j. j \<in> ran (mem_map s) \<and> spec_matches states agent kind j}"
    using mem_list_jobs_set [OF inv] by (auto simp: js_def)
  moreover have "distinct (map j_id js)"
    unfolding js_def distinct_map_sort_key
    by (rule distinct_map_filter [OF mem_values_distinct [OF inv]])
  moreover have "sorted (map (\<lambda>j. - j_created_at j) js)"
    unfolding js_def by (rule sorted_sort_key)
  ultimately show ?thesis unfolding eq by (rule exec_spec.list_jobs)
qed

lemma mem_update_spec:
  assumes "mem_inv s"
  shows "mem_renew_lease s i w now lease = (b, s') \<Longrightarrow>
      exec_spec (ms_retry s) (mem_map s) (OpRenewLease i w now lease) (RBool b) (mem_map s') \<and>
      mem_inv s' \<and> ms_retry s' = ms_retry s"
    and "mem_complete s i res now = (r, s') \<Longrightarrow>
      exec_spec (ms_retry s) (mem_map s) (OpComplete i res now) (RJob r) (mem_map s') \<and>
      mem_inv s' \<and> ms_retry s' = ms_retry s"
    and "mem_fail s i err now = (r, s') \<Longrightarrow>
      exec_spec (ms_retry s) (mem_map s) (OpFail i err now) (RJob r) (mem_map s') \<and>
      mem_inv s' \<and> ms_retry s' = ms_retry s"
    and "mem_cancel s i now = (b, s') \<Longrightarrow>
      exec_spec (ms_retry s) (mem_map s) (OpCancel i now) (RBool b) (mem_map s') \<and>
      mem_inv s' \<and> ms_retry s' = ms_retry s"
proof -
  have put: "mem_inv (mem_put s i j')"
    if "mem_map s i = Some j" "j_id j' = j_id j" "j_idempotency_key j' = j_idempotency_key j" for j j'
    using mem_inv_put [OF assms] that by blast
  show "mem_renew_lease s i w now lease = (b, s') \<Longrightarrow>
      exec_spec (ms_retry s) (mem_map s) (OpRenewLease i w now lease) (RBool b) (mem_map s') \<and>
      mem_inv s' \<and> ms_retry s' = ms_retry s"
    using assms
    by (auto simp: mem_renew_lease_def spec_renew_def [symmetric] split: option.splits if_splits
        intro!: exec_spec.renew_ok exec_spec.renew_refused put) (auto simp: spec_renew_def)
  show "mem_complete s i res now = (r, s') \<Longrightarrow>
      exec_spec (ms_retry s) (mem_map s) (OpComplete i res now) (RJob r) (mem_map s') \<and>
      mem_inv s' \<and> ms_retry s' = ms_retry s"
    using assms exec_spec.complete_live [of "mem_map s" i _ "ms_retry s" res now]
    by (auto simp: mem_complete_def mem_require_def Let_def spec_succeed_def
        split: option.splits if_splits
        intro: exec_spec.complete_unknown exec_spec.complete_terminal put)
  show "mem_fail s i err now = (r, s') \<Longrightarrow>
      exec_spec (ms_retry s) (mem_map s) (OpFail i err now) (RJob r) (mem_map s') \<and>
      mem_inv s' \<and> ms_retry s' = ms_retry s"
    using assms exec_spec.fail_live [of "mem_map s" i _ "ms_retry s" err now]
    by (auto simp: mem_fail_def mem_require_def Let_def spec_fail_def failure_reason_def
        split: option.splits if_splits
        intro: exec_spec.fail_unknown exec_spec.fail_terminal put)
  show "mem_cancel s i now = (b, s') \<Longrightarrow>
      exec_spec (ms_retry s) (mem_map s) (OpCancel i now) (RBool b) (mem_map s') \<and>
      mem_inv s' \<and> ms_retry s' = ms_retry s"
    using assms exec_spec.cancel_live [of "mem_map s" i _ "ms_retry s" now]
    by (auto simp: mem_cancel_def spec_cancel_def split: option.splits if_splits
        intro: exec_spec.cancel_refused put)
qed

lemma mem_step_spec:
  assumes "mem_inv s" and "op_ok (mem_map s) op" and "mem_step s op = (r, s')"
  shows "exec_spec (ms_retry s) (mem_map s) op r (mem_map s') \<and> mem_inv s' \<and>
    ms_retry s' = ms_retry s"
proof (cases op)
  case (OpEnqueue x)
  obtain e s1 where e: "mem_enqueue s x = (e, s1)" by fastforce
  with OpEnqueue assms(3) have "r = RJob e" "s1 = s'" by simp_all
  with OpEnqueue mem_enqueue_spec [OF assms(1) _ e] assms(2) show ?thesis
    by (simp add: op_ok_def)
next
  case (OpClaimNext w now lease)
  obtain c s1 where c: "mem_claim_next s w now lease = (c, s1)" by fastforce
  with OpClaimNext assms(3) have "r = RJobOpt (Inr c)" "s1 = s'" by simp_all
  with OpClaimNext mem_claim_next_spec [OF assms(1) c] show ?thesis by simp
next
  case (OpRecoverStale now)
  obtain js s1 where js: "mem_recover_stale s now = (js, s1)" by fastforce
  with OpRecoverStale assms(3) have "r = RJobs (Inr js)" "s1 = s'" by simp_all
  with OpRecoverStale mem_recover_stale_spec [OF assms(1) js] show ?thesis by simp
next
  case (OpListJobs states agent kind limit)
  with assms show ?thesis
    using mem_list_jobs_spec [OF assms(1)] by (auto simp: op_ok_def)
next
  case (OpGet i)
  with assms show ?thesis by (auto simp: mem_get_def intro: exec_spec.get)
next
  case (OpRenewLease i w now lease)
  obtain b s1 where b: "mem_renew_lease s i w now lease = (b, s1)" by fastforce
  with OpRenewLease assms(3) have "r = RBool b" "s1 = s'" by simp_all
  with OpRenewLease mem_update_spec(1) [OF assms(1) b] show ?thesis by simp
next
  case (OpComplete i res now)
  obtain e s1 where e: "mem_complete s i res now = (e, s1)" by fastforce
  with OpComplete assms(3) have "r = RJob e" "s1 = s'" by simp_all
  with OpComplete mem_update_spec(2) [OF assms(1) e] show ?thesis by simp
next
  case (OpFail i err now)
  obtain e s1 where e: "mem_fail s i err now = (e, s1)" by fastforce
  with OpFail assms(3) have "r = RJob e" "s1 = s'" by simp_all
  with OpFail mem_update_spec(3) [OF assms(1) e] show ?thesis by simp
next
  case (OpCancel i now)
  obtain b s1 where b: "mem_cancel s i now = (b, s1)" by fastforce
  with OpCancel assms(3) have "r = RBool b" "s1 = s'" by simp_all
  with OpCancel mem_update_spec(4) [OF assms(1) b] show ?thesis by simp
qed

lemma mem_map_ok: "mem_inv s \<Longrightarrow> job_map_ok (mem_map s)"
  unfolding job_map_ok_def mem_inv_def by (metis option.inject)

interpretation mem: execution_store mem_step ms_retry mem_map mem_inv
  by unfold_locales (auto intro: mem_map_ok dest: mem_step_spec)

end
