(* ===== verification/PySqlite.thy ===== *)
theory PySqlite
  imports Prelude
begin

text \<open>
  What the SQLite adapters share: instants stored as epoch seconds in a REAL column
  (\<open>_to_epoch\<close>, \<open>_from_epoch\<close>) and the \<open>LIMIT\<close> clause.
\<close>

definition to_epoch :: "datetime \<Rightarrow> rat" where
  "to_epoch dt = of_int dt / 1000000"

definition from_epoch :: "rat \<Rightarrow> datetime" where
  "from_epoch v = round_half_even (v * 1000000)"

text \<open>\<open>LIMIT n\<close>: a negative bound is no bound.\<close>

definition sql_limit :: "int option \<Rightarrow> 'a list \<Rightarrow> 'a list" where
  "sql_limit limit xs =
     (case limit of None \<Rightarrow> xs | Some n \<Rightarrow> if n < 0 then xs else take (nat n) xs)"

lemma from_to_epoch [simp]: "from_epoch (to_epoch t) = t"
  by (simp add: from_epoch_def to_epoch_def)

lemma from_comp_to_epoch [simp]: "from_epoch \<circ> to_epoch = id"
  by (simp add: fun_eq_iff)

lemma to_epoch_le [simp]: "to_epoch a \<le> to_epoch b \<longleftrightarrow> a \<le> b"
  by (simp add: to_epoch_def divide_le_cancel)

lemma to_epoch_less [simp]: "to_epoch a < to_epoch b \<longleftrightarrow> a < b"
  by (simp add: to_epoch_def divide_less_cancel)

lemma to_epoch_eq [simp]: "to_epoch a = to_epoch b \<longleftrightarrow> a = b"
  by (simp add: to_epoch_def)

lemma whole_us_iff: "whole_us s \<longleftrightarrow> s * 1000000 \<in> \<int>"
  unfolding whole_us_def by (metis Ints_cases Ints_of_int floor_of_int)

lemma to_epoch_add_seconds: "whole_us s \<Longrightarrow> to_epoch (add_seconds t s) = to_epoch t + s"
  using whole_us_round [of s] by (simp add: to_epoch_def add_seconds_def add_divide_distrib)

section \<open>A table indexed by its key\<close>

definition index_by :: "('a \<Rightarrow> 'k) \<Rightarrow> 'a list \<Rightarrow> 'k \<Rightarrow> 'a option" where
  "index_by f xs = map_of (map (\<lambda>x. (f x, x)) xs)"

lemma index_by_simps [simp]:
  "index_by f [] = Map.empty"
  "index_by f (x # xs) = (index_by f xs)(f x \<mapsto> x)"
  by (simp_all add: index_by_def)

lemma index_by_id: "index_by f xs i = Some x \<Longrightarrow> x \<in> set xs \<and> f x = i"
  by (induction xs) (auto split: if_splits)

lemma index_by_mem: "distinct (map f xs) \<Longrightarrow> x \<in> set xs \<Longrightarrow> index_by f xs (f x) = Some x"
  by (induction xs) (auto simp: rev_image_eqI)

lemma index_by_None: "index_by f xs i = None \<longleftrightarrow> i \<notin> f ` set xs"
  by (induction xs) auto

lemma index_by_Some_iff:
  "distinct (map f xs) \<Longrightarrow> index_by f xs i = Some x \<longleftrightarrow> x \<in> set xs \<and> f x = i"
  by (auto dest: index_by_id index_by_mem)

lemma index_by_append1: "i \<notin> f ` set xs \<Longrightarrow> f x = i \<Longrightarrow> index_by f (xs @ [x]) = (index_by f xs)(i \<mapsto> x)"
  by (induction xs) (auto simp: fun_upd_twist)

lemma index_by_ran: "distinct (map f xs) \<Longrightarrow> ran (index_by f xs) = set xs"
  by (auto simp: ran_def index_by_Some_iff)

lemma index_by_map:
  "(\<And>x. f (g x) = f x) \<Longrightarrow> index_by f (map g xs) = (\<lambda>i. map_option g (index_by f xs i))"
  by (induction xs) (auto simp: fun_eq_iff)

lemma index_by_update:
  assumes "\<And>x. f (g x) = f x" and "index_by f xs i = Some x" and "distinct (map f xs)"
  shows "index_by f (map (\<lambda>y. if f y = i then g y else y) xs) = (index_by f xs)(i \<mapsto> g x)"
proof -
  have "index_by f (map (\<lambda>y. if f y = i then g y else y) xs) =
      (\<lambda>k. map_option (\<lambda>y. if f y = i then g y else y) (index_by f xs k))"
    by (rule index_by_map) (simp add: assms(1))
  also have "\<dots> = (index_by f xs)(i \<mapsto> g x)"
  proof
    fix k
    show "map_option (\<lambda>y. if f y = i then g y else y) (index_by f xs k) = ((index_by f xs)(i \<mapsto> g x)) k"
      using assms(2) index_by_id [of f xs k] by (cases "index_by f xs k") (auto dest: index_by_id)
  qed
  finally show ?thesis .
qed

lemma find_index_by: "find (\<lambda>r. k r = i) (map row xs) = map_option row (index_by f xs i)"
  if "\<And>x. k (row x) = f x"
  using that by (induction xs) auto

end
