(* ===== verification/ExecSqlite.thy ===== *)
theory ExecSqlite
  imports ExecContract PySqlite
begin

text \<open>
  \<open>SqliteExecutionStore\<close> (\<open>backend/agents/execution/sqlite_store.py\<close>): one table of rows with
  text and floating-point columns, and every method as the SQL it runs. A row's JSON columns
  hold the value their text encodes. What SQL leaves open is the parameter \<open>tie\<close>: the order
  in which rows that agree on all \<open>ORDER BY\<close> columns come, a rank that may depend on the whole
  table.
\<close>

section \<open>State\<close>

record exec_row =
  r_id :: string
  r_agent_id :: string
  r_kind :: string
  r_idempotency_key :: string
  r_payload :: json_obj
  r_state :: string
  r_attempts :: int
  r_run_at :: rat
  r_lease_owner :: "string option"
  r_lease_expiry :: "rat option"
  r_correlation_id :: "string option"
  r_session_id :: "string option"
  r_origin :: "string option"
  r_last_error :: "string option"
  r_dead_letter_reason :: "string option"
  r_result :: "json_obj option"
  r_created_at :: rat
  r_updated_at :: rat
  r_started_at :: "rat option"
  r_finished_at :: "rat option"

record sql_store =
  ss_retry :: retry_policy
  ss_user_version :: int
  ss_rows :: "exec_row list"

type_synonym tie_break = "exec_row list \<Rightarrow> exec_row \<Rightarrow> nat"

definition SCHEMA_VERSION :: int where
  "SCHEMA_VERSION = 1"

text \<open>\<open>_migrate\<close>: \<open>CREATE TABLE IF NOT EXISTS\<close> keeps the rows of an existing table.\<close>

definition sql_migrate :: "sql_store \<Rightarrow> sql_store" where
  "sql_migrate s =
     (if ss_user_version s < SCHEMA_VERSION then s\<lparr>ss_user_version := SCHEMA_VERSION\<rparr> else s)"

text \<open>\<open>__init__\<close> on a database file with the given version and rows (\<open>0\<close> and none when new).\<close>

definition sql_open :: "retry_policy option \<Rightarrow> int \<Rightarrow> exec_row list \<Rightarrow> sql_store" where
  "sql_open rp version rows =
     sql_migrate \<lparr>ss_retry = (case rp of None \<Rightarrow> default_retry_policy | Some p \<Rightarrow> p),
                  ss_user_version = version, ss_rows = rows\<rparr>"

section \<open>Rows and jobs\<close>

definition to_row :: "execution_job \<Rightarrow> exec_row" where
  "to_row job =
     \<lparr>r_id = j_id job, r_agent_id = j_agent_id job, r_kind = kind_value (j_kind job),
      r_idempotency_key = j_idempotency_key job, r_payload = j_payload job,
      r_state = state_value (j_state job), r_attempts = j_attempts job,
      r_run_at = to_epoch (j_run_at job), r_lease_owner = j_lease_owner job,
      r_lease_expiry = map_option to_epoch (j_lease_expiry job),
      r_correlation_id = j_correlation_id job, r_session_id = j_session_id job,
      r_origin = j_origin job, r_last_error = j_last_error job,
      r_dead_letter_reason = j_dead_letter_reason job, r_result = j_result job,
      r_created_at = to_epoch (j_created_at job), r_updated_at = to_epoch (j_updated_at job),
      r_started_at = map_option to_epoch (j_started_at job),
      r_finished_at = map_option to_epoch (j_finished_at job)\<rparr>"

definition row_to_job :: "exec_row \<Rightarrow> exec_error + execution_job" where
  "row_to_job row =
     (case kind_of_value (r_kind row) of
        None \<Rightarrow> Inl (ValueError (r_kind row))
      | Some kind \<Rightarrow>
     (case state_of_value (r_state row) of
        None \<Rightarrow> Inl (ValueError (r_state row))
      | Some state \<Rightarrow>
        Inr \<lparr>j_agent_id = r_agent_id row, j_kind = kind,
             j_idempotency_key = r_idempotency_key row, j_payload = r_payload row,
             j_id = r_id row, j_state = state, j_attempts = r_attempts row,
             j_run_at = from_epoch (r_run_at row), j_lease_owner = r_lease_owner row,
             j_lease_expiry = map_option from_epoch (r_lease_expiry row),
             j_correlation_id = r_correlation_id row, j_session_id = r_session_id row,
             j_origin = r_origin row, j_last_error = r_last_error row,
             j_dead_letter_reason = r_dead_letter_reason row, j_result = r_result row,
             j_created_at = from_epoch (r_created_at row),
             j_updated_at = from_epoch (r_updated_at row),
             j_started_at = map_option from_epoch (r_started_at row),
             j_finished_at = map_option from_epoch (r_finished_at row)\<rparr>))"

fun rows_to_jobs :: "exec_row list \<Rightarrow> exec_error + execution_job list" where
  "rows_to_jobs [] = Inr []"
| "rows_to_jobs (row # rows) =
     py_bind (row_to_job row) (\<lambda>job. py_bind (rows_to_jobs rows) (\<lambda>jobs. Inr (job # jobs)))"

text \<open>\<open>UPDATE execution_jobs SET f WHERE P\<close> and its \<open>rowcount\<close>.\<close>

definition sql_update :: "(exec_row \<Rightarrow> bool) \<Rightarrow> (exec_row \<Rightarrow> exec_row) \<Rightarrow> exec_row list \<Rightarrow> exec_row list"
where
  "sql_update P f rows = map (\<lambda>r. if P r then f r else r) rows"

definition sql_rowcount :: "(exec_row \<Rightarrow> bool) \<Rightarrow> exec_row list \<Rightarrow> nat" where
  "sql_rowcount P rows = length (filter P rows)"

section \<open>Operations\<close>

definition sql_get_by_id :: "exec_row list \<Rightarrow> string \<Rightarrow> exec_error + execution_job option" where
  "sql_get_by_id rows job_id =
     (case find (\<lambda>r. r_id r = job_id) rows of
        None \<Rightarrow> Inr None
      | Some row \<Rightarrow> py_bind (row_to_job row) (\<lambda>job. Inr (Some job)))"

definition sql_get_by_key :: "exec_row list \<Rightarrow> string \<Rightarrow> exec_error + execution_job option" where
  "sql_get_by_key rows key =
     (case find (\<lambda>r. r_idempotency_key r = key) rows of
        None \<Rightarrow> Inr None
      | Some row \<Rightarrow> py_bind (row_to_job row) (\<lambda>job. Inr (Some job)))"

text \<open>
  The \<open>INSERT\<close>: a conflict on \<open>idempotency_key\<close> does nothing, any other uniqueness
  violation (the primary key) raises \<open>IntegrityError\<close>.
\<close>

definition sql_insert :: "exec_row list \<Rightarrow> exec_row \<Rightarrow> exec_error + exec_row list" where
  "sql_insert rows row =
     (if \<exists>r \<in> set rows. r_idempotency_key r = r_idempotency_key row then Inr rows
      else if \<exists>r \<in> set rows. r_id r = r_id row then Inl (IntegrityError (r_id row))
      else Inr (rows @ [row]))"

text \<open>
  The result of \<open>_get_by_id\<close> or \<open>_get_by_key\<close> where the code relies on the row being there
  (\<open>enqueue\<close> asserts it); \<open>AssertionError\<close> marks the missing row.
\<close>

definition sql_existing :: "exec_error + execution_job option \<Rightarrow> exec_error + execution_job" where
  "sql_existing r =
     py_bind r (\<lambda>j. case j of None \<Rightarrow> Inl AssertionError | Some job \<Rightarrow> Inr job)"

definition sql_enqueue ::
    "sql_store \<Rightarrow> execution_job \<Rightarrow> (exec_error + execution_job) \<times> sql_store" where
  "sql_enqueue s job =
     (case sql_insert (ss_rows s) (to_row job) of
        Inl e \<Rightarrow> (Inl e, s)
      | Inr rows \<Rightarrow>
          (sql_existing (sql_get_by_key rows (j_idempotency_key job)), s\<lparr>ss_rows := rows\<rparr>))"

definition sql_runnable :: "rat \<Rightarrow> exec_row \<Rightarrow> bool" where
  "sql_runnable now_ts r =
     ((r_state r = state_value PENDING \<and> r_run_at r \<le> now_ts) \<or>
      (r_state r = state_value RUNNING \<and>
       (case r_lease_expiry r of None \<Rightarrow> False | Some e \<Rightarrow> e \<le> now_ts)))"

definition sql_select_runnable :: "tie_break \<Rightarrow> rat \<Rightarrow> exec_row list \<Rightarrow> exec_row option" where
  "sql_select_runnable tie now_ts rows =
     (case sort_key (\<lambda>r. (r_run_at r, r_created_at r, tie rows r))
             (filter (sql_runnable now_ts) rows) of
        [] \<Rightarrow> None | r # _ \<Rightarrow> Some r)"

definition sql_give_up :: "int \<Rightarrow> rat \<Rightarrow> exec_row \<Rightarrow> exec_row" where
  "sql_give_up attempts now_ts r =
     r\<lparr>r_state := state_value DEAD_LETTER, r_attempts := attempts,
       r_dead_letter_reason := Some ''max attempts exceeded'',
       r_lease_owner := None, r_lease_expiry := None,
       r_started_at := Some (case r_started_at r of None \<Rightarrow> now_ts | Some t \<Rightarrow> t),
       r_finished_at := Some now_ts, r_updated_at := now_ts\<rparr>"

definition sql_lease :: "int \<Rightarrow> string \<Rightarrow> rat \<Rightarrow> seconds \<Rightarrow> exec_row \<Rightarrow> exec_row" where
  "sql_lease attempts worker_id now_ts lease_seconds r =
     r\<lparr>r_state := state_value RUNNING, r_attempts := attempts, r_lease_owner := Some worker_id,
       r_lease_expiry := Some (now_ts + lease_seconds),
       r_started_at := Some (case r_started_at r of None \<Rightarrow> now_ts | Some t \<Rightarrow> t),
       r_updated_at := now_ts\<rparr>"

text \<open>
  The \<open>while True\<close> of \<open>claim_next\<close>. Each turn re-reads the table; giving a row up takes it
  out of the runnable ones, so the loop ends.
\<close>

function sql_claim_loop ::
    "tie_break \<Rightarrow> retry_policy \<Rightarrow> string \<Rightarrow> rat \<Rightarrow> seconds \<Rightarrow> exec_row list \<Rightarrow>
     string option \<times> exec_row list" where
  "sql_claim_loop tie p worker_id now_ts lease_seconds rows =
     (case sql_select_runnable tie now_ts rows of
        None \<Rightarrow> (None, rows)
      | Some row \<Rightarrow>
          let attempts = r_attempts row + 1 in
          if rp_max_attempts p < attempts
          then sql_claim_loop tie p worker_id now_ts lease_seconds
                 (sql_update (\<lambda>r. r_id r = r_id row) (sql_give_up attempts now_ts) rows)
          else (Some (r_id row),
                sql_update (\<lambda>r. r_id r = r_id row)
                  (sql_lease attempts worker_id now_ts lease_seconds) rows))"
  by pat_completeness auto

lemma sql_select_runnable_in:
  assumes "sql_select_runnable tie now_ts rows = Some row"
  shows "row \<in> set rows \<and> sql_runnable now_ts row"
proof -
  let ?s = "sort_key (\<lambda>r. (r_run_at r, r_created_at r, tie rows r)) (filter (sql_runnable now_ts) rows)"
  from assms have "row \<in> set ?s"
    by (cases ?s) (auto simp: sql_select_runnable_def)
  then show ?thesis by simp
qed

lemma sql_give_up_not_runnable [simp]: "\<not> sql_runnable now_ts (sql_give_up n t r)"
  by (simp add: sql_runnable_def sql_give_up_def)

lemma sql_give_up_fewer:
  assumes "row \<in> set rows" and "sql_runnable now_ts row"
  shows "length (filter (sql_runnable now_ts)
      (sql_update (\<lambda>r. r_id r = r_id row) (sql_give_up n t) rows))
    < length (filter (sql_runnable now_ts) rows)"
proof -
  have le: "length (filter (sql_runnable now_ts) (sql_update P (sql_give_up n t) rs))
      \<le> length (filter (sql_runnable now_ts) rs)" for P rs
    by (induction rs) (auto simp: sql_update_def)
  from assms obtain as bs where rows: "rows = as @ row # bs" by (meson split_list)
  show ?thesis
    using le [of "\<lambda>r. r_id r = r_id row" as] le [of "\<lambda>r. r_id r = r_id row" bs] assms(2)
    by (simp add: rows sql_update_def)
qed

termination sql_claim_loop
  by (relation "measure (\<lambda>(tie, p, w, now_ts, l, rows). length (filter (sql_runnable now_ts) rows))")
    (auto intro: sql_give_up_fewer dest: sql_select_runnable_in)

declare sql_claim_loop.simps [simp del]

definition sql_claim_next ::
    "tie_break \<Rightarrow> sql_store \<Rightarrow> string \<Rightarrow> datetime \<Rightarrow> seconds \<Rightarrow>
     (exec_error + execution_job option) \<times> sql_store" where
  "sql_claim_next tie s worker_id now lease_seconds =
     (case sql_claim_loop tie (ss_retry s) worker_id (to_epoch now) lease_seconds (ss_rows s) of
        (None, rows) \<Rightarrow> (Inr None, s\<lparr>ss_rows := rows\<rparr>)
      | (Some i, rows) \<Rightarrow> (sql_get_by_id rows i, s\<lparr>ss_rows := rows\<rparr>))"

definition sql_renew_lease ::
    "sql_store \<Rightarrow> string \<Rightarrow> string \<Rightarrow> datetime \<Rightarrow> seconds \<Rightarrow> bool \<times> sql_store" where
  "sql_renew_lease s job_id worker_id now lease_seconds =
     (let now_ts = to_epoch now;
          P = (\<lambda>r. r_id r = job_id \<and> r_state r = state_value RUNNING \<and>
                   r_lease_owner r = Some worker_id)
      in (0 < sql_rowcount P (ss_rows s),
          s\<lparr>ss_rows := sql_update P (\<lambda>r. r\<lparr>r_lease_expiry := Some (now_ts + lease_seconds),
                                            r_updated_at := now_ts\<rparr>) (ss_rows s)\<rparr>))"

definition sql_complete ::
    "sql_store \<Rightarrow> string \<Rightarrow> json_obj option \<Rightarrow> datetime \<Rightarrow>
     (exec_error + execution_job) \<times> sql_store" where
  "sql_complete s job_id result now =
     (let now_ts = to_epoch now in
      case sql_get_by_id (ss_rows s) job_id of
        Inl e \<Rightarrow> (Inl e, s)
      | Inr None \<Rightarrow> (Inl (JobNotFoundError job_id), s)
      | Inr (Some job) \<Rightarrow>
          if job_is_terminal job then (Inr job, s)
          else let rows = sql_update (\<lambda>r. r_id r = job_id)
                     (\<lambda>r. r\<lparr>r_state := state_value SUCCEEDED, r_result := result,
                            r_lease_owner := None, r_lease_expiry := None,
                            r_finished_at := Some now_ts, r_updated_at := now_ts\<rparr>) (ss_rows s)
               in (sql_existing (sql_get_by_id rows job_id), s\<lparr>ss_rows := rows\<rparr>))"

definition sql_fail ::
    "sql_store \<Rightarrow> string \<Rightarrow> string \<Rightarrow> datetime \<Rightarrow> (exec_error + execution_job) \<times> sql_store" where
  "sql_fail s job_id error now =
     (let now_ts = to_epoch now in
      case sql_get_by_id (ss_rows s) job_id of
        Inl e \<Rightarrow> (Inl e, s)
      | Inr None \<Rightarrow> (Inl (JobNotFoundError job_id), s)
      | Inr (Some job) \<Rightarrow>
          if job_is_terminal job then (Inr job, s)
          else let f = (if rp_max_attempts (ss_retry s) \<le> j_attempts job
                        then (\<lambda>r. r\<lparr>r_state := state_value DEAD_LETTER, r_last_error := Some error,
                                    r_dead_letter_reason :=
                                      Some (''failed after '' @ string_of_int (j_attempts job) @
                                            '' attempt(s)''),
                                    r_lease_owner := None, r_lease_expiry := None,
                                    r_finished_at := Some now_ts, r_updated_at := now_ts\<rparr>)
                        else (let run_at = now_ts + backoff_seconds (ss_retry s) (j_attempts job) in
                              (\<lambda>r. r\<lparr>r_state := state_value PENDING, r_last_error := Some error,
                                    r_run_at := run_at, r_lease_owner := None,
                                    r_lease_expiry := None, r_updated_at := now_ts\<rparr>)));
                   rows = sql_update (\<lambda>r. r_id r = job_id) f (ss_rows s)
               in (sql_existing (sql_get_by_id rows job_id), s\<lparr>ss_rows := rows\<rparr>))"

definition sql_cancel :: "sql_store \<Rightarrow> string \<Rightarrow> datetime \<Rightarrow> bool \<times> sql_store" where
  "sql_cancel s job_id now =
     (let now_ts = to_epoch now;
          P = (\<lambda>r. r_id r = job_id \<and>
                   r_state r \<notin> {state_value SUCCEEDED, state_value DEAD_LETTER, state_value CANCELLED})
      in (0 < sql_rowcount P (ss_rows s),
          s\<lparr>ss_rows := sql_update P
               (\<lambda>r. r\<lparr>r_state := state_value CANCELLED, r_lease_owner := None,
                      r_lease_expiry := None, r_finished_at := Some now_ts,
                      r_updated_at := now_ts\<rparr>) (ss_rows s)\<rparr>))"

text \<open>\<open>recover_stale\<close>: the ids selected (in an order SQL leaves open), one update, re-read.\<close>

definition sql_stale :: "rat \<Rightarrow> exec_row \<Rightarrow> bool" where
  "sql_stale now_ts r =
     (r_state r = state_value RUNNING \<and>
      (case r_lease_expiry r of None \<Rightarrow> False | Some e \<Rightarrow> e \<le> now_ts))"

fun sql_get_all :: "exec_row list \<Rightarrow> string list \<Rightarrow> exec_error + execution_job list" where
  "sql_get_all rows [] = Inr []"
| "sql_get_all rows (i # ids) =
     py_bind (sql_existing (sql_get_by_id rows i))
       (\<lambda>job. py_bind (sql_get_all rows ids) (\<lambda>jobs. Inr (job # jobs)))"

definition sql_recover_stale ::
    "tie_break \<Rightarrow> sql_store \<Rightarrow> datetime \<Rightarrow> (exec_error + execution_job list) \<times> sql_store" where
  "sql_recover_stale tie s now =
     (let now_ts = to_epoch now;
          ids = map r_id (sort_key (tie (ss_rows s)) (filter (sql_stale now_ts) (ss_rows s)))
      in if ids = [] then (Inr [], s)
         else let rows = sql_update (\<lambda>r. r_id r \<in> set ids)
                    (\<lambda>r. r\<lparr>r_state := state_value PENDING, r_lease_owner := None,
                           r_lease_expiry := None, r_run_at := now_ts,
                           r_updated_at := now_ts\<rparr>) (ss_rows s)
              in (sql_get_all rows ids, s\<lparr>ss_rows := rows\<rparr>))"

definition sql_get :: "sql_store \<Rightarrow> string \<Rightarrow> exec_error + execution_job option" where
  "sql_get s job_id = sql_get_by_id (ss_rows s) job_id"

definition sql_list_jobs ::
    "tie_break \<Rightarrow> sql_store \<Rightarrow> execution_state list option \<Rightarrow> string option \<Rightarrow>
     execution_kind option \<Rightarrow> int option \<Rightarrow> exec_error + execution_job list" where
  "sql_list_jobs tie s states agent_id kind limit =
     (let matches = (\<lambda>r.
            (case states of None \<Rightarrow> True
             | Some ss \<Rightarrow> ss = [] \<or> r_state r \<in> set (map state_value ss)) \<and>
            (case agent_id of None \<Rightarrow> True | Some a \<Rightarrow> r_agent_id r = a) \<and>
            (case kind of None \<Rightarrow> True | Some k \<Rightarrow> r_kind r = kind_value k))
      in rows_to_jobs (sql_limit limit
           (sort_key (\<lambda>r. (- r_created_at r, tie (ss_rows s) r)) (filter matches (ss_rows s)))))"

fun sql_step :: "tie_break \<Rightarrow> sql_store \<Rightarrow> exec_op \<Rightarrow> exec_result \<times> sql_store" where
  "sql_step tie s (OpEnqueue job) = map_prod RJob id (sql_enqueue s job)"
| "sql_step tie s (OpClaimNext w now lease) = map_prod RJobOpt id (sql_claim_next tie s w now lease)"
| "sql_step tie s (OpRenewLease i w now lease) = map_prod RBool id (sql_renew_lease s i w now lease)"
| "sql_step tie s (OpComplete i res now) = map_prod RJob id (sql_complete s i res now)"
| "sql_step tie s (OpFail i err now) = map_prod RJob id (sql_fail s i err now)"
| "sql_step tie s (OpCancel i now) = map_prod RBool id (sql_cancel s i now)"
| "sql_step tie s (OpRecoverStale now) = map_prod RJobs id (sql_recover_stale tie s now)"
| "sql_step tie s (OpGet i) = (RJobOpt (sql_get s i), s)"
| "sql_step tie s (OpListJobs states agent kind limit) =
     (RJobs (sql_list_jobs tie s states agent kind limit), s)"

section \<open>Rows are jobs\<close>

lemma row_to_job_to_row [simp]: "row_to_job (to_row j) = Inr j"
  by (simp add: row_to_job_def to_row_def option.map_comp option.map_id)

lemma to_row_inject [simp]: "to_row a = to_row b \<longleftrightarrow> a = b"
  by (metis row_to_job_to_row sum.inject(2))

lemma to_row_simps [simp]:
  "r_id (to_row j) = j_id j" "r_state (to_row j) = state_value (j_state j)"
  "r_kind (to_row j) = kind_value (j_kind j)" "r_agent_id (to_row j) = j_agent_id j"
  "r_idempotency_key (to_row j) = j_idempotency_key j" "r_attempts (to_row j) = j_attempts j"
  "r_run_at (to_row j) = to_epoch (j_run_at j)" "r_created_at (to_row j) = to_epoch (j_created_at j)"
  "r_lease_owner (to_row j) = j_lease_owner j"
  "r_lease_expiry (to_row j) = map_option to_epoch (j_lease_expiry j)"
  by (simp_all add: to_row_def)

lemma rows_to_jobs_map [simp]: "rows_to_jobs (map to_row js) = Inr js"
  by (induction js) simp_all

text \<open>A policy whose delays are whole microseconds: nothing is lost between the two clocks.\<close>

definition policy_us :: "retry_policy \<Rightarrow> bool" where
  "policy_us p \<longleftrightarrow> (\<forall>n. whole_us (backoff_seconds p n))"

lemma policy_usI:
  assumes "rp_base_seconds p * 1000000 \<in> \<int>" and "rp_factor p \<in> \<int>" and "rp_max_seconds p * 1000000 \<in> \<int>"
  shows "policy_us p"
  unfolding policy_us_def
proof
  fix n
  have "rp_base_seconds p * 1000000 * rp_factor p ^ nat (n - 1) \<in> \<int>"
    by (intro Ints_mult Ints_power assms)
  moreover have "rp_base_seconds p * rp_factor p ^ nat (n - 1) * 1000000 =
      rp_base_seconds p * 1000000 * rp_factor p ^ nat (n - 1)"
    by (simp only: ac_simps)
  ultimately have "rp_base_seconds p * rp_factor p ^ nat (n - 1) * 1000000 \<in> \<int>"
    by (simp only:)
  then show "whole_us (backoff_seconds p n)"
    using assms(3) by (auto simp: whole_us_iff backoff_seconds_def min_def)
qed

lemma policy_us_default: "policy_us default_retry_policy"
proof (rule policy_usI)
  have "rp_base_seconds default_retry_policy * 1000000 = of_int 500000"
    by (simp add: default_retry_policy_def)
  then show "rp_base_seconds default_retry_policy * 1000000 \<in> \<int>" by (simp only: Ints_of_int)
qed (simp_all add: default_retry_policy_def)

text \<open>A table that holds the jobs \<open>js\<close>, seen as the contract's map.\<close>

abbreviation jobs_map :: "execution_job list \<Rightarrow> job_map" where
  "jobs_map \<equiv> index_by j_id"

lemmas jobs_map_id = index_by_id [where f = j_id]

lemma find_jobs_id: "find (\<lambda>r. r_id r = i) (map to_row js) = map_option to_row (jobs_map js i)"
  by (induction js) auto

lemma sql_get_by_id_jobs [simp]: "sql_get_by_id (map to_row js) i = Inr (jobs_map js i)"
  by (simp add: sql_get_by_id_def find_jobs_id split: option.split)

lemma sql_existing_simps [simp]:
  "sql_existing (Inr (Some j)) = Inr j"
  by (simp add: sql_existing_def)

lemma sql_update_jobs:
  assumes "\<And>j. P (to_row j) = Q j" and "\<And>j. j \<in> set js \<Longrightarrow> Q j \<Longrightarrow> f (to_row j) = to_row (g j)"
  shows "sql_update P f (map to_row js) = map to_row (map (\<lambda>j. if Q j then g j else j) js)"
  using assms by (auto simp: sql_update_def)

text \<open>Every row update is the contract's job transition.\<close>

lemma row_transitions:
  "sql_give_up (j_attempts j + 1) (to_epoch now) (to_row j) = to_row (spec_give_up now j)"
  "whole_us lease \<Longrightarrow>
     sql_lease (j_attempts j + 1) w (to_epoch now) lease (to_row j) = to_row (spec_lease w now lease j)"
  "whole_us lease \<Longrightarrow>
     (to_row j)\<lparr>r_lease_expiry := Some (to_epoch now + lease), r_updated_at := to_epoch now\<rparr> =
     to_row (spec_renew now lease j)"
  by (auto simp: sql_give_up_def sql_lease_def to_row_def spec_job_defs to_epoch_add_seconds
      split: option.split)

lemma sql_runnable_to_row [simp]: "sql_runnable (to_epoch now) (to_row j) = spec_runnable now j"
  by (auto simp: sql_runnable_def spec_runnable_def spec_stale_def spec_lease_expired_def
      split: option.split)

lemma sql_stale_to_row [simp]: "sql_stale (to_epoch now) (to_row j) = spec_stale now j"
  by (auto simp: sql_stale_def spec_stale_def spec_lease_expired_def split: option.split)

section \<open>The store honours the contract\<close>

definition sql_jobs :: "sql_store \<Rightarrow> execution_job list" where
  "sql_jobs s = map (\<lambda>r. case row_to_job r of Inr j \<Rightarrow> j) (ss_rows s)"

definition sql_map :: "sql_store \<Rightarrow> job_map" where
  "sql_map s = jobs_map (sql_jobs s)"

definition sql_holds :: "sql_store \<Rightarrow> execution_job list \<Rightarrow> bool" where
  "sql_holds s js \<longleftrightarrow>
     ss_rows s = map to_row js \<and> distinct (map j_id js) \<and> distinct (map j_idempotency_key js) \<and>
     policy_us (ss_retry s)"

definition sql_inv :: "sql_store \<Rightarrow> bool" where
  "sql_inv s \<longleftrightarrow> (\<exists>js. sql_holds s js)"

lemma sql_holds_map: "sql_holds s js \<Longrightarrow> sql_map s = jobs_map js"
  by (simp add: sql_holds_def sql_map_def sql_jobs_def comp_def)

lemma sql_holds_inv: "sql_holds s js \<Longrightarrow> sql_inv s"
  by (auto simp: sql_inv_def)

text \<open>The whole table seen through a map that keeps ids and keys.\<close>

lemma sql_holds_update:
  assumes "sql_holds s js" and "\<And>j. j_id (g j) = j_id j"
    and "\<And>j. j_idempotency_key (g j) = j_idempotency_key j"
  shows "sql_holds (s\<lparr>ss_rows := map to_row (map (\<lambda>j. if Q j then g j else j) js)\<rparr>)
    (map (\<lambda>j. if Q j then g j else j) js)"
proof -
  have "map j_id (map (\<lambda>j. if Q j then g j else j) js) = map j_id js"
    and "map j_idempotency_key (map (\<lambda>j. if Q j then g j else j) js) = map j_idempotency_key js"
    using assms(2,3) by (simp_all add: comp_def if_distrib [of j_id] if_distrib [of j_idempotency_key])
  then show ?thesis using assms(1) by (simp add: sql_holds_def del: map_map)
qed

lemma sql_select_runnable_jobs:
  "sql_select_runnable tie (to_epoch now) (map to_row js) = None \<Longrightarrow> j \<in> set js \<Longrightarrow> \<not> spec_runnable now j"
  "sql_select_runnable tie (to_epoch now) (map to_row js) = Some row \<Longrightarrow>
     \<exists>j \<in> set js. row = to_row j \<and> spec_runnable now j \<and>
       (\<forall>k \<in> set js. spec_runnable now k \<longrightarrow> spec_order j \<le> spec_order k)"
proof -
  let ?f = "\<lambda>r. (r_run_at r, r_created_at r, tie (map to_row js) r)"
  let ?c = "filter (sql_runnable (to_epoch now)) (map to_row js)"
  have mem: "to_row k \<in> set ?c" if "k \<in> set js" "spec_runnable now k" for k
    using that by auto
  show "\<not> spec_runnable now j"
    if "sql_select_runnable tie (to_epoch now) (map to_row js) = None" "j \<in> set js"
  proof
    assume "spec_runnable now j"
    with mem that(2) have "to_row j \<in> set (sort_key ?f ?c)" by simp
    with that(1) show False
      by (cases "sort_key ?f ?c") (auto simp: sql_select_runnable_def)
  qed
  show "\<exists>j \<in> set js. row = to_row j \<and> spec_runnable now j \<and>
       (\<forall>k \<in> set js. spec_runnable now k \<longrightarrow> spec_order j \<le> spec_order k)"
    if sel: "sql_select_runnable tie (to_epoch now) (map to_row js) = Some row"
  proof -
    obtain rest where srt: "sort_key ?f ?c = row # rest"
      using sel by (cases "sort_key ?f ?c") (auto simp: sql_select_runnable_def)
    from sql_select_runnable_in [OF sel] obtain j where j: "j \<in> set js" "row = to_row j"
      "spec_runnable now j" by auto
    have "spec_order j \<le> spec_order k" if "k \<in> set js" "spec_runnable now k" for k
      using hd_sort_key_min [OF srt mem [OF that]] j(2)
      by (auto simp: spec_order_def less_eq_prod_def less_le)
    with j show ?thesis by blast
  qed
qed

lemma sql_claim_loop_spec:
  assumes "rows = map to_row js" and "distinct (map j_id js)" and "whole_us lease"
    and "sql_claim_loop tie p w (to_epoch now) lease rows = (r, rows')"
  shows "\<exists>js'. rows' = map to_row js' \<and> map j_id js' = map j_id js \<and>
    map j_idempotency_key js' = map j_idempotency_key js \<and>
    exec_spec p (jobs_map js) (OpClaimNext w now lease)
      (RJobOpt (Inr (case r of None \<Rightarrow> None | Some i \<Rightarrow> jobs_map js' i))) (jobs_map js')"
  using assms
proof (induction tie p w "to_epoch now" lease rows arbitrary: js r rows' rule: sql_claim_loop.induct)
  case (1 tie p w lease rows)
  note loop = "1.prems"(4) [unfolded sql_claim_loop.simps [of tie p w "to_epoch now" lease rows]]
  show ?case
  proof (cases "sql_select_runnable tie (to_epoch now) rows")
    case None
    with loop have "r = None" "rows' = rows" by simp_all
    moreover have none: "\<not> spec_runnable now k" if "jobs_map js i = Some k" for i k
      using sql_select_runnable_jobs(1) None that index_by_id [OF that(1)] "1.prems"(1) by blast
    then have "exec_spec p (jobs_map js) (OpClaimNext w now lease) (RJobOpt (Inr None))
       (\<lambda>i. map_option (\<lambda>k. if spec_runnable now k then spec_give_up now k else k) (jobs_map js i))"
      by (intro exec_spec.claim_none) blast
    moreover have "(\<lambda>i. map_option (\<lambda>k. if spec_runnable now k then spec_give_up now k else k) (jobs_map js i))
        = jobs_map js"
      using none by (auto simp: fun_eq_iff map_option_case split: option.split)
    ultimately show ?thesis using "1.prems"(1) by (intro exI [of _ js]) simp
  next
    case (Some row)
    then obtain j where j: "j \<in> set js" "row = to_row j" "spec_runnable now j"
      and min: "\<And>k. k \<in> set js \<Longrightarrow> spec_runnable now k \<Longrightarrow> spec_order j \<le> spec_order k"
      using sql_select_runnable_jobs(2) "1.prems"(1) by blast
    have mj: "jobs_map js (j_id j) = Some j" using j(1) "1.prems"(2) by (rule index_by_mem [rotated])
    have upd: "sql_update (\<lambda>r. r_id r = j_id j) f rows = map to_row (map (\<lambda>k. if j_id k = j_id j then g k else k) js)"
      if "f (to_row j) = to_row (g j)" for f g
      unfolding "1.prems"(1) using that "1.prems"(2) j(1)
      by (intro sql_update_jobs) (auto simp: inj_on_def distinct_map)
    show ?thesis
    proof (cases "rp_max_attempts p < j_attempts j + 1")
      case True
      define js1 where "js1 = map (\<lambda>k. if j_id k = j_id j then spec_give_up now k else k) js"
      have ids: "map j_id js1 = map j_id js" "map j_idempotency_key js1 = map j_idempotency_key js"
        by (simp_all add: js1_def spec_job_defs)
      have rows1: "sql_update (\<lambda>r. r_id r = r_id row) (sql_give_up (r_attempts row + 1) (to_epoch now)) rows
          = map to_row js1"
        unfolding js1_def
        using upd [of "sql_give_up (j_attempts j + 1) (to_epoch now)" "spec_give_up now"] j(2)
        by (simp add: row_transitions)
      have budget: "rp_max_attempts p < r_attempts row + 1" using True j(2) by simp
      have rest: "sql_claim_loop tie p w (to_epoch now) lease
          (sql_update (\<lambda>r. r_id r = r_id row) (sql_give_up (r_attempts row + 1) (to_epoch now)) rows)
          = (r, rows')"
        using loop Some budget by (simp add: Let_def)
      have "distinct (map j_id js1)" using ids "1.prems"(2) by simp
      from "1.hyps" [OF Some refl budget rows1 this "1.prems"(3) rest]
      obtain js' where js': "rows' = map to_row js'" "map j_id js' = map j_id js"
        "map j_idempotency_key js' = map j_idempotency_key js"
        and sp: "exec_spec p (jobs_map js1) (OpClaimNext w now lease)
          (RJobOpt (Inr (case r of None \<Rightarrow> None | Some i \<Rightarrow> jobs_map js' i))) (jobs_map js')"
        using ids by auto
      have "jobs_map js1 = (jobs_map js)(j_id j \<mapsto> spec_give_up now j)"
        unfolding js1_def
        using mj "1.prems"(2) by (intro index_by_update) (simp_all add: spec_job_defs)
      with sp have sp1: "exec_spec p ((jobs_map js)(j_id j \<mapsto> spec_give_up now j)) (OpClaimNext w now lease)
          (RJobOpt (Inr (case r of None \<Rightarrow> None | Some i \<Rightarrow> jobs_map js' i))) (jobs_map js')"
        by simp
      have ex: "spec_exhausted p j" using True by (simp add: spec_exhausted_def)
      have min': "spec_order j \<le> spec_order k" if "jobs_map js i' = Some k" "spec_runnable now k" for i' k
        using min that jobs_map_id by blast
      have "exec_spec p (jobs_map js) (OpClaimNext w now lease)
          (RJobOpt (Inr (case r of None \<Rightarrow> None | Some i \<Rightarrow> jobs_map js' i))) (jobs_map js')"
        by (rule exec_spec_claim_step [OF mj refl j(3) ex min' sp1])
      with js' show ?thesis by blast
    next
      case False
      let ?js = "map (\<lambda>k. if j_id k = j_id j then spec_lease w now lease k else k) js"
      have rows1: "rows' = map to_row ?js" and r: "r = Some (j_id j)"
        using loop Some False j(2) "1.prems"(3)
          upd [of "sql_lease (j_attempts j + 1) w (to_epoch now) lease" "spec_lease w now lease"]
        by (auto simp: Let_def row_transitions)
      have m': "jobs_map ?js = (jobs_map js)(j_id j \<mapsto> spec_lease w now lease j)"
        using mj "1.prems"(2) by (intro index_by_update) (simp_all add: spec_job_defs)
      have "spec_claimed p now (jobs_map js) j (spec_lease w now lease j) (jobs_map ?js)"
        unfolding spec_claimed_def
      proof (intro conjI allI impI, goal_cases)
        case (4 i k)
        then show ?case using min jobs_map_id by blast
      next
        case (7 i k)
        then show ?case using min jobs_map_id by (metis leD)
      qed (use mj j(3) False m' in \<open>simp_all add: spec_exhausted_def\<close>)
      then have "exec_spec p (jobs_map js) (OpClaimNext w now lease)
          (RJobOpt (Inr (Some (spec_lease w now lease j)))) (jobs_map ?js)"
        by (rule exec_spec.claim_some)
      with rows1 r m' show ?thesis
        by (intro exI [of _ ?js]) (simp add: spec_job_defs)
    qed
  qed
qed

lemma sql_holdsD:
  assumes "sql_holds s js"
  shows "ss_rows s = map to_row js" "distinct (map j_id js)" "distinct (map j_idempotency_key js)"
    "policy_us (ss_retry s)" "sql_map s = jobs_map js"
  using assms sql_holds_map by (auto simp: sql_holds_def)

lemma sql_claim_next_spec:
  assumes h: "sql_holds s js" and us: "whole_us lease"
    and eq: "sql_claim_next tie s w now lease = (r, s')"
  shows "exec_spec (ss_retry s) (sql_map s) (OpClaimNext w now lease) (RJobOpt r) (sql_map s') \<and>
    sql_inv s' \<and> ss_retry s' = ss_retry s"
proof -
  obtain i rows where loop: "sql_claim_loop tie (ss_retry s) w (to_epoch now) lease (ss_rows s) = (i, rows)"
    by fastforce
  from sql_claim_loop_spec [OF sql_holdsD(1,2) [OF h] us loop]
  obtain js' where js': "rows = map to_row js'" "map j_id js' = map j_id js"
      "map j_idempotency_key js' = map j_idempotency_key js"
    and sp: "exec_spec (ss_retry s) (jobs_map js) (OpClaimNext w now lease)
      (RJobOpt (Inr (case i of None \<Rightarrow> None | Some i \<Rightarrow> jobs_map js' i))) (jobs_map js')"
    by blast
  from eq loop have "s' = s\<lparr>ss_rows := rows\<rparr>"
    "r = Inr (case i of None \<Rightarrow> None | Some i \<Rightarrow> jobs_map js' i)"
    by (auto simp: sql_claim_next_def js'(1) split: option.splits)
  moreover from this have "sql_holds s' js'"
    using js' sql_holdsD [OF h] by (simp add: sql_holds_def)
  ultimately show ?thesis
    using sp sql_holdsD [OF h] by (auto simp: sql_holds_map sql_holds_inv)
qed

lemma sql_enqueue_spec:
  assumes h: "sql_holds s js"
    and ok: "spec_known (sql_map s) (j_idempotency_key x) \<or> sql_map s (j_id x) = None"
    and eq: "sql_enqueue s x = (r, s')"
  shows "exec_spec (ss_retry s) (sql_map s) (OpEnqueue x) (RJob r) (sql_map s') \<and>
    sql_inv s' \<and> ss_retry s' = ss_retry s"
proof -
  note rows = sql_holdsD [OF h]
  have known: "spec_known (jobs_map js) key \<longleftrightarrow> (\<exists>j \<in> set js. j_idempotency_key j = key)" for key
    using index_by_Some_iff [OF rows(2)] by (auto simp: spec_known_def)
  have by_key: "sql_get_by_key (map to_row ks) key = Inr (find (\<lambda>j. j_idempotency_key j = key) ks)" for ks key
    by (induction ks) (auto simp: sql_get_by_key_def)
  show ?thesis
  proof (cases "find (\<lambda>j. j_idempotency_key j = j_idempotency_key x) js")
    case (Some j)
    then have j: "j \<in> set js" "j_idempotency_key j = j_idempotency_key x"
      by (auto simp: find_Some_iff)
    with eq Some have "r = Inr j" "s' = s"
      by (auto simp: sql_enqueue_def sql_insert_def rows(1) by_key split: if_splits)
    moreover have "jobs_map js (j_id j) = Some j" using j(1) rows(2) by (simp add: index_by_mem)
    ultimately show ?thesis
      using j(2) rows(5) h by (auto intro: exec_spec.enqueue_known sql_holds_inv)
  next
    case None
    then have fresh: "\<forall>j \<in> set js. j_idempotency_key j \<noteq> j_idempotency_key x"
      by (auto simp: find_None_iff)
    with known rows(5) ok have unk: "\<not> spec_known (sql_map s) (j_idempotency_key x)"
      and new: "sql_map s (j_id x) = None" by auto
    then have nid: "j_id x \<notin> j_id ` set js" using rows(5) by (simp add: index_by_None)
    have find: "find (\<lambda>j. j_idempotency_key j = j_idempotency_key x) (js @ [x]) = Some x"
      using fresh by (induction js) auto
    have ins: "sql_insert (map to_row js) (to_row x) = Inr (map to_row (js @ [x]))"
      using fresh nid by (auto simp: sql_insert_def image_iff)
    from eq have r: "r = Inr x" and s': "s' = s\<lparr>ss_rows := map to_row (js @ [x])\<rparr>"
      by (auto simp: sql_enqueue_def rows(1) ins by_key find simp del: map_append)
    have "sql_holds s' (js @ [x])"
      using rows fresh nid by (auto simp: sql_holds_def s' rev_image_eqI)
    then show ?thesis
      using exec_spec.enqueue_new [OF unk new] rows(5) nid
      by (auto simp: r s' sql_holds_map sql_holds_inv index_by_append1)
  qed
qed

text \<open>A targeted update: one job is replaced by its transition.\<close>

lemma sql_target_update:
  assumes h: "sql_holds s js" and j: "jobs_map js i = Some j"
    and g: "\<And>k. j_id (g k) = j_id k" "\<And>k. j_idempotency_key (g k) = j_idempotency_key k"
    and f: "f (to_row j) = to_row (g j)"
    and s': "s' = s\<lparr>ss_rows := sql_update (\<lambda>r. r_id r = i) f (ss_rows s)\<rparr>"
  shows "sql_map s' = (sql_map s)(i \<mapsto> g j) \<and> sql_inv s' \<and> ss_retry s' = ss_retry s \<and>
    sql_get_by_id (ss_rows s') i = Inr (Some (g j))"
proof -
  note rows = sql_holdsD [OF h]
  let ?js = "map (\<lambda>k. if j_id k = i then g k else k) js"
  have only: "k = j" if "k \<in> set js" "j_id k = i" for k
    using that j index_by_mem [OF rows(2)] by fastforce
  have "sql_update (\<lambda>r. r_id r = i) f (map to_row js) = map to_row ?js"
    using only f by (intro sql_update_jobs) auto
  then have s'2: "s' = s\<lparr>ss_rows := map to_row ?js\<rparr>" by (simp only: s' rows(1))
  have "sql_holds s' ?js" unfolding s'2 by (rule sql_holds_update [OF h g])
  moreover have "jobs_map ?js = (jobs_map js)(i \<mapsto> g j)"
    by (rule index_by_update [OF g(1) j rows(2)])
  ultimately show ?thesis
    using rows(5) sql_holdsD(1,5) [of s' ?js] sql_holds_inv [of s' ?js]
    by (simp add: s'2 del: map_map)
qed

lemma sql_rowcount_jobs: "sql_rowcount P (map to_row js) = length (filter (\<lambda>j. P (to_row j)) js)"
  by (simp add: sql_rowcount_def filter_map comp_def)

lemma sql_update_none: "(\<And>r. r \<in> set rows \<Longrightarrow> \<not> P r) \<Longrightarrow> sql_update P f rows = rows"
  by (auto simp: sql_update_def intro: map_idI)

lemma sql_update_target:
  assumes "sql_holds s js" and "jobs_map js i = Some j" and "P (to_row j)"
    and "\<And>r. P r \<Longrightarrow> r_id r = i"
  shows "sql_update P f (ss_rows s) = sql_update (\<lambda>r. r_id r = i) f (ss_rows s)"
    and "0 < sql_rowcount P (ss_rows s)"
proof -
  note rows = sql_holdsD [OF assms(1)]
  have only: "k = j" if "k \<in> set js" "j_id k = i" for k
    using that assms(2) index_by_mem [OF rows(2)] by fastforce
  have "P (to_row k) \<longleftrightarrow> j_id k = i" if "k \<in> set js" for k
    using only [OF that] assms(3) assms(4) [of "to_row k"] by auto
  then show "sql_update P f (ss_rows s) = sql_update (\<lambda>r. r_id r = i) f (ss_rows s)"
    by (auto simp: sql_update_def rows(1))
  have "j \<in> set js" using index_by_id [OF assms(2)] by blast
  then have "filter (\<lambda>j. P (to_row j)) js \<noteq> []" using assms(3) by (auto simp: filter_empty_conv)
  then show "0 < sql_rowcount P (ss_rows s)" by (simp add: rows(1) sql_rowcount_jobs)
qed

lemma sql_renew_lease_spec:
  assumes h: "sql_holds s js" and us: "whole_us lease" and eq: "sql_renew_lease s i w now lease = (b, s')"
  shows "exec_spec (ss_retry s) (sql_map s) (OpRenewLease i w now lease) (RBool b) (sql_map s') \<and>
    sql_inv s' \<and> ss_retry s' = ss_retry s"
proof -
  note rows = sql_holdsD [OF h]
  define P where "P = (\<lambda>r::exec_row. r_id r = i \<and> r_state r = state_value RUNNING \<and> r_lease_owner r = Some w)"
  define f where "f = (\<lambda>r::exec_row. r\<lparr>r_lease_expiry := Some (to_epoch now + lease), r_updated_at := to_epoch now\<rparr>)"
  from eq have b: "b = (0 < sql_rowcount P (ss_rows s))"
    and s': "s' = s\<lparr>ss_rows := sql_update P f (ss_rows s)\<rparr>"
    by (auto simp: sql_renew_lease_def Let_def P_def f_def)
  show ?thesis
  proof (cases "\<exists>j. jobs_map js i = Some j \<and> j_state j = RUNNING \<and> j_lease_owner j = Some w")
    case True
    then obtain j where j: "jobs_map js i = Some j" "j_state j = RUNNING" "j_lease_owner j = Some w" by blast
    have Pj: "P (to_row j)" using j index_by_id [OF j(1)] by (simp add: P_def)
    have Pi: "P r \<Longrightarrow> r_id r = i" for r by (simp add: P_def)
    note t = sql_update_target [where P = P, OF h j(1) Pj Pi]
    have "f (to_row j) = to_row (spec_renew now lease j)" by (simp add: f_def row_transitions(3) us)
    with sql_target_update [where f = f and g = "spec_renew now lease", OF h j(1) _ _ this refl]
      t(1) [of f] s'
    have "sql_map s' = (sql_map s)(i \<mapsto> spec_renew now lease j)" "sql_inv s'" "ss_retry s' = ss_retry s"
      by (auto simp: P_def spec_renew_def)
    moreover have b: "b" using t(2) b by (auto simp: P_def)
    ultimately show ?thesis using exec_spec.renew_ok [of "sql_map s" i j w] j rows(5) by simp
  next
    case False
    have nP: "\<not> P r" if "r \<in> set (ss_rows s)" for r
      using that False index_by_mem [OF rows(2)] by (auto simp: rows(1) P_def)
    then have "sql_rowcount P (ss_rows s) = 0" by (simp add: sql_rowcount_def)
    moreover have "s' = s" using nP by (simp add: s' sql_update_none)
    ultimately show ?thesis
      using b False h rows(5) by (auto intro: exec_spec.renew_refused sql_holds_inv)
  qed
qed

lemma sql_cancel_spec:
  assumes h: "sql_holds s js" and eq: "sql_cancel s i now = (b, s')"
  shows "exec_spec (ss_retry s) (sql_map s) (OpCancel i now) (RBool b) (sql_map s') \<and>
    sql_inv s' \<and> ss_retry s' = ss_retry s"
proof -
  note rows = sql_holdsD [OF h]
  define P where "P = (\<lambda>r::exec_row. r_id r = i \<and>
    r_state r \<notin> {state_value SUCCEEDED, state_value DEAD_LETTER, state_value CANCELLED})"
  define f where "f = (\<lambda>r::exec_row. r\<lparr>r_state := state_value CANCELLED, r_lease_owner := None,
    r_lease_expiry := None, r_finished_at := Some (to_epoch now), r_updated_at := to_epoch now\<rparr>)"
  from eq have b: "b = (0 < sql_rowcount P (ss_rows s))"
    and s': "s' = s\<lparr>ss_rows := sql_update P f (ss_rows s)\<rparr>"
    by (auto simp: sql_cancel_def Let_def P_def f_def)
  have live: "P (to_row j) \<longleftrightarrow> j_id j = i \<and> \<not> job_is_terminal j" for j
    by (cases "j_state j") (auto simp: P_def job_is_terminal_def)
  show ?thesis
  proof (cases "\<exists>j. jobs_map js i = Some j \<and> \<not> job_is_terminal j")
    case True
    then obtain j where j: "jobs_map js i = Some j" "\<not> job_is_terminal j" by blast
    have Pj: "P (to_row j)" using j index_by_id [OF j(1)] live by blast
    have Pi: "P r \<Longrightarrow> r_id r = i" for r by (simp add: P_def)
    note t = sql_update_target [where P = P, OF h j(1) Pj Pi]
    have "f (to_row j) = to_row (spec_cancel now j)" by (simp add: f_def to_row_def spec_cancel_def)
    with sql_target_update [where f = f and g = "spec_cancel now", OF h j(1) _ _ this refl]
      t(1) [of f] s'
    have "sql_map s' = (sql_map s)(i \<mapsto> spec_cancel now j)" "sql_inv s'" "ss_retry s' = ss_retry s"
      by (auto simp: spec_cancel_def)
    moreover have "b" using t(2) b by simp
    ultimately show ?thesis using exec_spec.cancel_live [of "sql_map s" i j] j rows(5) by simp
  next
    case False
    have nP: "\<not> P r" if "r \<in> set (ss_rows s)" for r
      using that False live index_by_mem [OF rows(2)] by (auto simp: rows(1))
    then have "sql_rowcount P (ss_rows s) = 0" by (simp add: sql_rowcount_def)
    moreover have "s' = s" using nP by (simp add: s' sql_update_none)
    ultimately show ?thesis
      using b False h rows(5) by (auto intro: exec_spec.cancel_refused sql_holds_inv)
  qed
qed

lemma sql_complete_spec:
  assumes h: "sql_holds s js" and eq: "sql_complete s i res now = (r, s')"
  shows "exec_spec (ss_retry s) (sql_map s) (OpComplete i res now) (RJob r) (sql_map s') \<and>
    sql_inv s' \<and> ss_retry s' = ss_retry s"
proof (cases "\<exists>j. jobs_map js i = Some j \<and> \<not> job_is_terminal j")
  case True
  note rows = sql_holdsD [OF h]
  from True obtain j where j: "jobs_map js i = Some j" "\<not> job_is_terminal j" by blast
  define f where "f = (\<lambda>r::exec_row. r\<lparr>r_state := state_value SUCCEEDED, r_result := res,
    r_lease_owner := None, r_lease_expiry := None, r_finished_at := Some (to_epoch now),
    r_updated_at := to_epoch now\<rparr>)"
  have f: "f (to_row j) = to_row (spec_succeed res now j)"
    by (simp add: f_def to_row_def spec_succeed_def)
  from eq j rows(1) have s': "s' = s\<lparr>ss_rows := sql_update (\<lambda>r. r_id r = i) f (ss_rows s)\<rparr>"
    and r: "r = sql_existing (sql_get_by_id (ss_rows s') i)"
    by (auto simp: sql_complete_def Let_def f_def)
  from sql_target_update [where g = "spec_succeed res now", OF h j(1) _ _ f s'] r
  have "sql_map s' = (sql_map s)(i \<mapsto> spec_succeed res now j)" "sql_inv s'" "ss_retry s' = ss_retry s"
    "r = Inr (spec_succeed res now j)" by (auto simp: spec_succeed_def)
  then show ?thesis using exec_spec.complete_live [of "sql_map s" i j] j rows(5) by simp
next
  case False
  note rows = sql_holdsD [OF h]
  from eq False rows(1) have "s' = s" "jobs_map js i = None \<longrightarrow> r = Inl (JobNotFoundError i)"
    "\<forall>j. jobs_map js i = Some j \<longrightarrow> r = Inr j"
    by (auto simp: sql_complete_def Let_def split: option.splits)
  with False h rows(5) show ?thesis
    by (cases "jobs_map js i") (auto intro: exec_spec.complete_unknown exec_spec.complete_terminal sql_holds_inv)
qed

lemma sql_fail_spec:
  assumes h: "sql_holds s js" and eq: "sql_fail s i err now = (r, s')"
  shows "exec_spec (ss_retry s) (sql_map s) (OpFail i err now) (RJob r) (sql_map s') \<and>
    sql_inv s' \<and> ss_retry s' = ss_retry s"
proof (cases "\<exists>j. jobs_map js i = Some j \<and> \<not> job_is_terminal j")
  case True
  note rows = sql_holdsD [OF h]
  from True obtain j where j: "jobs_map js i = Some j" "\<not> job_is_terminal j" by blast
  define f where "f = (if rp_max_attempts (ss_retry s) \<le> j_attempts j
    then (\<lambda>r::exec_row. r\<lparr>r_state := state_value DEAD_LETTER, r_last_error := Some err,
            r_dead_letter_reason := Some (''failed after '' @ string_of_int (j_attempts j) @ '' attempt(s)''),
            r_lease_owner := None, r_lease_expiry := None, r_finished_at := Some (to_epoch now),
            r_updated_at := to_epoch now\<rparr>)
    else (let run_at = to_epoch now + backoff_seconds (ss_retry s) (j_attempts j) in
          (\<lambda>r. r\<lparr>r_state := state_value PENDING, r_last_error := Some err,
            r_run_at := run_at, r_lease_owner := None,
            r_lease_expiry := None, r_updated_at := to_epoch now\<rparr>)))"
  have us: "whole_us (backoff_seconds (ss_retry s) (j_attempts j))"
    using rows(4) by (simp add: policy_us_def)
  have f: "f (to_row j) = to_row (spec_fail (ss_retry s) err now j)"
    by (simp add: f_def to_row_def spec_fail_def failure_reason_def to_epoch_add_seconds [OF us])
  from eq j rows(1) have s': "s' = s\<lparr>ss_rows := sql_update (\<lambda>r. r_id r = i) f (ss_rows s)\<rparr>"
    and r: "r = sql_existing (sql_get_by_id (ss_rows s') i)"
    by (auto simp: sql_fail_def Let_def f_def split: if_splits)
  from sql_target_update [where g = "spec_fail (ss_retry s) err now", OF h j(1) _ _ f s'] r
  have "sql_map s' = (sql_map s)(i \<mapsto> spec_fail (ss_retry s) err now j)" "sql_inv s'"
    "ss_retry s' = ss_retry s" "r = Inr (spec_fail (ss_retry s) err now j)"
    by (auto simp: spec_fail_def)
  then show ?thesis using exec_spec.fail_live [of "sql_map s" i j] j rows(5) by simp
next
  case False
  note rows = sql_holdsD [OF h]
  from eq False rows(1) have "s' = s" "jobs_map js i = None \<longrightarrow> r = Inl (JobNotFoundError i)"
    "\<forall>j. jobs_map js i = Some j \<longrightarrow> r = Inr j"
    by (auto simp: sql_fail_def Let_def split: option.splits)
  with False h rows(5) show ?thesis
    by (cases "jobs_map js i") (auto intro: exec_spec.fail_unknown exec_spec.fail_terminal sql_holds_inv)
qed

lemma filter_to_row: "filter P (map to_row js) = map to_row (filter (\<lambda>j. P (to_row j)) js)"
  by (simp add: filter_map comp_def)

lemma sort_key_to_row: "sort_key f (map to_row js) = map to_row (sort_key (\<lambda>j. f (to_row j)) js)"
  by (rule map_sort_key [symmetric]) simp

lemma sql_get_all_jobs:
  "(\<And>j. j \<in> set ks \<Longrightarrow> jobs_map js (j_id j) = Some (g j)) \<Longrightarrow>
   sql_get_all (map to_row js) (map j_id ks) = Inr (map g ks)"
  by (induction ks) auto

lemma sql_recover_stale_spec:
  assumes h: "sql_holds s js" and eq: "sql_recover_stale tie s now = (r, s')"
  shows "exec_spec (ss_retry s) (sql_map s) (OpRecoverStale now) (RJobs r) (sql_map s') \<and>
    sql_inv s' \<and> ss_retry s' = ss_retry s"
proof -
  note rows = sql_holdsD [OF h]
  define ks where "ks = sort_key (\<lambda>j. tie (ss_rows s) (to_row j)) (filter (spec_stale now) js)"
  let ?g = "\<lambda>k. if spec_stale now k then spec_recover now k else k"
  define js' where "js' = map ?g js"
  have ids: "map r_id (sort_key (tie (ss_rows s)) (filter (sql_stale (to_epoch now)) (ss_rows s))) = map j_id ks"
    by (simp add: rows(1) filter_to_row sort_key_to_row ks_def comp_def)
  have setks: "set ks = {j \<in> set js. spec_stale now j}" by (auto simp: ks_def)
  have dks: "distinct (map j_id ks)"
    unfolding ks_def distinct_map_sort_key by (rule distinct_map_filter [OF rows(2)])
  have m': "jobs_map js' = (\<lambda>i. map_option ?g (jobs_map js i))"
    unfolding js'_def by (rule index_by_map) (simp add: spec_job_defs)
  have stale: "j_id j \<in> j_id ` set ks \<longleftrightarrow> spec_stale now j" if "j \<in> set js" for j
    using that setks rows(2) by (auto simp: distinct_map inj_on_def)
  have upd: "sql_update (\<lambda>r. r_id r \<in> j_id ` set ks)
      (\<lambda>r. r\<lparr>r_state := state_value PENDING, r_lease_owner := None, r_lease_expiry := None,
             r_run_at := to_epoch now, r_updated_at := to_epoch now\<rparr>) (ss_rows s) = map to_row js'"
    unfolding rows(1) js'_def sql_update_def map_map
    by (rule map_cong) (auto simp: stale to_row_def spec_recover_def)
  have res: "sql_get_all (map to_row js') (map j_id ks) = Inr (map (spec_recover now) ks)"
    using setks index_by_mem [OF rows(2)] by (intro sql_get_all_jobs) (auto simp: m')
  have hold: "sql_holds (s\<lparr>ss_rows := map to_row js'\<rparr>) js'"
    unfolding js'_def by (rule sql_holds_update [OF h]) (simp_all add: spec_job_defs)
  have sp: "exec_spec (ss_retry s) (jobs_map js) (OpRecoverStale now)
      (RJobs (Inr (map (spec_recover now) ks))) (jobs_map js')"
    unfolding m'
  proof (rule exec_spec.recover)
    show "set (map (spec_recover now) ks) = spec_recover now ` {j. j \<in> ran (jobs_map js) \<and> spec_stale now j}"
      using setks index_by_ran [OF rows(2)] by auto
    show "distinct (map j_id (map (spec_recover now) ks))"
      using dks by (simp add: spec_recover_def comp_def)
  qed
  have "r = Inr (map (spec_recover now) ks) \<and> s' = s\<lparr>ss_rows := map to_row js'\<rparr>"
  proof (cases "ks = []")
    case True
    then have "js' = js" using setks by (auto simp: js'_def intro: map_idI)
    with True eq ids rows(1) show ?thesis by (simp add: sql_recover_stale_def Let_def)
  next
    case False
    with eq [unfolded sql_recover_stale_def Let_def, unfolded ids, unfolded set_map upd res] show ?thesis by simp
  qed
  with sp hold rows(5) show ?thesis by (auto simp: sql_holds_map sql_holds_inv)
qed

lemma sql_list_jobs_eq:
  assumes "ss_rows s = map to_row js"
  shows "sql_list_jobs tie s states agent kind limit =
    Inr (sql_limit limit (sort_key (\<lambda>j. (- to_epoch (j_created_at j), tie (ss_rows s) (to_row j)))
      (filter (spec_matches states agent kind) js)))"
proof -
  have P: "(case states of None \<Rightarrow> True | Some ss \<Rightarrow> ss = [] \<or> state_value (j_state j) \<in> set (map state_value ss)) \<and>
      (case agent of None \<Rightarrow> True | Some a \<Rightarrow> j_agent_id j = a) \<and>
      (case kind of None \<Rightarrow> True | Some k \<Rightarrow> kind_value (j_kind j) = kind_value k)
      \<longleftrightarrow> spec_matches states agent kind j" for j
    by (auto simp: spec_matches_def split: option.splits)
  have lim: "sql_limit limit (map to_row ks) = map to_row (sql_limit limit ks)" for ks
    by (simp add: sql_limit_def take_map split: option.split)
  show ?thesis
    unfolding sql_list_jobs_def Let_def assms filter_to_row sort_key_to_row to_row_simps P lim
      rows_to_jobs_map ..
qed

lemma sql_list_jobs_spec:
  assumes h: "sql_holds s js" and ok: "case limit of None \<Rightarrow> True | Some n \<Rightarrow> 0 \<le> n"
  shows "exec_spec (ss_retry s) (sql_map s) (OpListJobs states agent kind limit)
    (RJobs (sql_list_jobs tie s states agent kind limit)) (sql_map s)"
proof -
  note rows = sql_holdsD [OF h]
  define ks where "ks = sort_key (\<lambda>j. (- to_epoch (j_created_at j), tie (ss_rows s) (to_row j)))
      (filter (spec_matches states agent kind) js)"
  have "sql_list_jobs tie s states agent kind limit =
      Inr (case limit of None \<Rightarrow> ks | Some n \<Rightarrow> take (nat n) ks)"
    using ok by (simp add: sql_list_jobs_eq [OF rows(1)] ks_def sql_limit_def split: option.splits)
  moreover have "set ks = {j. j \<in> ran (jobs_map js) \<and> spec_matches states agent kind j}"
    using index_by_ran [OF rows(2)] by (auto simp: ks_def)
  moreover have "distinct (map j_id ks)"
    unfolding ks_def distinct_map_sort_key by (rule distinct_map_filter [OF rows(2)])
  moreover have "sorted (map (\<lambda>j. - j_created_at j) ks)"
  proof -
    have "sorted (map (\<lambda>j. (- to_epoch (j_created_at j), tie (ss_rows s) (to_row j))) ks)"
      unfolding ks_def by (rule sorted_sort_key)
    then have "sorted (map (\<lambda>j. - to_epoch (j_created_at j)) ks)" by (rule sorted_map_fst)
    then show ?thesis by (simp add: sorted_map)
  qed
  ultimately show ?thesis using rows(5) by (simp add: exec_spec.list_jobs)
qed

lemma sql_step_spec:
  assumes inv: "sql_inv s" and ok: "op_ok (sql_map s) op" and st: "sql_step tie s op = (r, s')"
  shows "exec_spec (ss_retry s) (sql_map s) op r (sql_map s') \<and> sql_inv s' \<and> ss_retry s' = ss_retry s"
proof -
  from inv obtain js where h: "sql_holds s js" by (auto simp: sql_inv_def)
  show ?thesis
  proof (cases op)
    case (OpEnqueue x)
    obtain e s1 where e: "sql_enqueue s x = (e, s1)" by fastforce
    with OpEnqueue st have "r = RJob e" "s1 = s'" by simp_all
    with OpEnqueue sql_enqueue_spec [OF h _ e] ok show ?thesis by (simp add: op_ok_def)
  next
    case (OpClaimNext w now lease)
    obtain c s1 where c: "sql_claim_next tie s w now lease = (c, s1)" by fastforce
    with OpClaimNext st have "r = RJobOpt c" "s1 = s'" by simp_all
    with OpClaimNext sql_claim_next_spec [OF h _ c] ok show ?thesis by (simp add: op_ok_def)
  next
    case (OpRenewLease i w now lease)
    obtain b s1 where b: "sql_renew_lease s i w now lease = (b, s1)" by fastforce
    with OpRenewLease st have "r = RBool b" "s1 = s'" by simp_all
    with OpRenewLease sql_renew_lease_spec [OF h _ b] ok show ?thesis by (simp add: op_ok_def)
  next
    case (OpComplete i res now)
    obtain e s1 where e: "sql_complete s i res now = (e, s1)" by fastforce
    with OpComplete st have "r = RJob e" "s1 = s'" by simp_all
    with OpComplete sql_complete_spec [OF h e] show ?thesis by simp
  next
    case (OpFail i err now)
    obtain e s1 where e: "sql_fail s i err now = (e, s1)" by fastforce
    with OpFail st have "r = RJob e" "s1 = s'" by simp_all
    with OpFail sql_fail_spec [OF h e] show ?thesis by simp
  next
    case (OpCancel i now)
    obtain b s1 where b: "sql_cancel s i now = (b, s1)" by fastforce
    with OpCancel st have "r = RBool b" "s1 = s'" by simp_all
    with OpCancel sql_cancel_spec [OF h b] show ?thesis by simp
  next
    case (OpRecoverStale now)
    obtain js s1 where js: "sql_recover_stale tie s now = (js, s1)" by fastforce
    with OpRecoverStale st have "r = RJobs js" "s1 = s'" by simp_all
    with OpRecoverStale sql_recover_stale_spec [OF h js] show ?thesis by simp
  next
    case (OpGet i)
    with st inv sql_holdsD [OF h] show ?thesis by (auto simp: sql_get_def intro: exec_spec.get)
  next
    case (OpListJobs states agent kind limit)
    with st inv sql_list_jobs_spec [OF h] ok show ?thesis by (auto simp: op_ok_def)
  qed
qed

lemma sql_map_ok:
  assumes "sql_inv s"
  shows "job_map_ok (sql_map s)"
proof -
  from assms obtain js where h: "sql_holds s js" by (auto simp: sql_inv_def)
  note rows = sql_holdsD [OF h]
  show ?thesis
    using rows(3) unfolding rows(5) job_map_ok_def index_by_Some_iff [OF rows(2)]
    by (auto simp: distinct_map inj_on_def)
qed

interpretation sql: execution_store "sql_step tie" ss_retry sql_map sql_inv for tie
  by unfold_locales (auto intro: sql_map_ok dest: sql_step_spec)

end
