(* ===== verification/ExecEquiv.thy ===== *)
theory ExecEquiv
  imports ExecMemory ExecSqlite
begin

text \<open>
  The two adapters side by side. A table and a dictionary are related when the rows, in
  insertion order, are the dictionary's jobs. For a database that breaks ties by insertion
  order (\<open>rowid_order\<close>) every operation gives the same result on both and keeps them related.
  SQLite promises no such order; \<open>ExecTies\<close> removes it.
\<close>

definition rowid_order :: tie_break where
  "rowid_order rows r = 0"

definition exec_rel :: "mem_store \<Rightarrow> sql_store \<Rightarrow> bool" where
  "exec_rel m s \<longleftrightarrow>
     mem_inv m \<and> ss_retry s = ms_retry m \<and> policy_us (ms_retry m) \<and>
     ss_rows s = map to_row (dict_values (ms_jobs m))"

lemma jobs_map_values: "mem_inv m \<Longrightarrow> jobs_map (dict_values (ms_jobs m)) = mem_map m"
proof -
  assume "mem_inv m"
  then have "map (\<lambda>j. (j_id j, j)) (dict_values (ms_jobs m)) = ms_jobs m"
    by (auto simp: comp_def dict_item [OF mem_inv_distinct] mem_inv_id intro!: map_idI)
  then show ?thesis by (simp add: index_by_def)
qed

lemma exec_rel_holds:
  assumes "exec_rel m s"
  shows "sql_holds s (dict_values (ms_jobs m))"
proof -
  from assms have inv: "mem_inv m" by (simp add: exec_rel_def)
  have ids: "distinct (map j_id (dict_values (ms_jobs m)))" by (rule mem_values_distinct [OF inv])
  have "inj_on j_idempotency_key (set (dict_values (ms_jobs m)))"
    using job_map_ok_key [OF mem_map_ok [OF inv]] index_by_mem [OF ids]
    unfolding jobs_map_values [OF inv] inj_on_def by (metis option.inject)
  moreover have "distinct (dict_values (ms_jobs m))" using ids by (rule distinct_map [THEN iffD1, THEN conjunct1])
  ultimately have "distinct (map j_idempotency_key (dict_values (ms_jobs m)))"
    by (simp only: distinct_map)
  with assms ids show ?thesis by (simp add: exec_rel_def sql_holds_def del: map_map)
qed

lemma exec_relD:
  assumes "exec_rel m s"
  shows "mem_inv m" "ss_retry s = ms_retry m" "ss_rows s = map to_row (dict_values (ms_jobs m))"
    "policy_us (ms_retry m)" "sql_map s = mem_map m"
    "\<And>i. sql_get_by_id (ss_rows s) i = Inr (mem_map m i)"
  using assms jobs_map_values [of m] sql_holdsD(5) [OF exec_rel_holds [OF assms]]
  by (auto simp: exec_rel_def simp del: map_map)

lemma dict_values_put:
  assumes "mem_inv m" and "mem_map m i = Some j"
  shows "dict_values (ms_jobs (mem_put m i j')) =
    map (\<lambda>k. if j_id k = i then j' else k) (dict_values (ms_jobs m))"
proof -
  have "i \<in> set (map fst (ms_jobs m))"
    using assms(2) by (metis map_of_None_keys option.distinct(1))
  then have "ms_jobs (mem_put m i j') = map (\<lambda>(k', v'). if k' = i then (k', j') else (k', v')) (ms_jobs m)"
    using mem_inv_distinct [OF assms(1)] by (simp add: dict_set_present_map)
  then show ?thesis
    using mem_inv_id [OF assms(1)] by (auto simp: dict_item [OF mem_inv_distinct [OF assms(1)]])
qed

text \<open>One job replaced on both sides.\<close>

lemma exec_rel_put:
  assumes rel: "exec_rel m s" and j: "mem_map m i = Some j"
    and g: "j_id j' = j_id j" "j_idempotency_key j' = j_idempotency_key j"
    and f: "f (to_row j) = to_row j'"
    and P: "\<And>k. k \<in> set (dict_values (ms_jobs m)) \<Longrightarrow> P (to_row k) \<longleftrightarrow> j_id k = i"
  shows "exec_rel (mem_put m i j') (s\<lparr>ss_rows := sql_update P f (ss_rows s)\<rparr>)"
proof -
  note D = exec_relD [OF rel]
  have only: "k = j" if "k \<in> set (dict_values (ms_jobs m))" "j_id k = i" for k
    using that j index_by_mem [OF mem_values_distinct [OF D(1)]] jobs_map_values [OF D(1)] by fastforce
  have "sql_update P f (ss_rows s) =
      map to_row (map (\<lambda>k. if j_id k = i then j' else k) (dict_values (ms_jobs m)))"
    unfolding D(3) sql_update_def map_map
    by (rule map_cong) (use only P f in auto)
  then show ?thesis
    using D mem_inv_put [OF D(1) j g] dict_values_put [OF D(1) j, of "j'"]
    by (simp add: exec_rel_def del: map_map)
qed

lemma mem_runnable_give_up:
  assumes "mem_inv m" and "mem_runnable m now = (i, j) # cs"
  shows "mem_runnable (mem_put m i (spec_give_up now j)) now = cs"
proof -
  let ?R = "\<lambda>(i::string, job). spec_runnable now job"
  let ?key = "\<lambda>(i::string, j). (j_run_at j, j_created_at j)"
  have run: "mem_runnable s now = sort_key ?key (filter ?R (ms_jobs s))" for s
    by (simp add: mem_runnable_def spec_runnable_def spec_stale_def)
  have "(i, j) \<in> set (mem_runnable m now)" using assms(2) by simp
  then have ij: "mem_map m i = Some j" using mem_runnable_set [OF assms(1)] by auto
  then have "i \<in> set (map fst (ms_jobs m))" by (metis map_of_None_keys option.distinct(1))
  then have put: "ms_jobs (mem_put m i (spec_give_up now j)) =
      map (\<lambda>(k', v'). if k' = i then (k', spec_give_up now j) else (k', v')) (ms_jobs m)"
    using mem_inv_distinct [OF assms(1)] by (simp add: dict_set_present_map)
  have "\<not> spec_runnable now (spec_give_up now j)"
    using spec_runnable_live [of now "spec_give_up now j"] by (auto simp: job_is_terminal_def spec_job_defs)
  then have "filter ?R (map (\<lambda>(k', v'). if k' = i then (k', spec_give_up now j) else (k', v')) d) =
      filter (\<lambda>c. fst c \<noteq> i) (filter ?R d)" for d
    by (induction d) auto
  then have "mem_runnable (mem_put m i (spec_give_up now j)) now =
      filter (\<lambda>c. fst c \<noteq> i) (mem_runnable m now)"
    unfolding run put by (simp only: sort_key_filter)
  also have "\<dots> = cs"
    using mem_runnable_distinct [OF assms(1), of now] by (auto simp: assms(2) filter_id_conv rev_image_eqI)
  finally show ?thesis .
qed

lemma sql_select_rel:
  assumes "exec_rel m s"
  shows "sql_select_runnable rowid_order (to_epoch now) (ss_rows s) =
    (case mem_runnable m now of [] \<Rightarrow> None | (i, j) # _ \<Rightarrow> Some (to_row j))"
proof -
  note D = exec_relD [OF assms]
  let ?d = "filter (\<lambda>(i, job). spec_runnable now job) (ms_jobs m)"
  have run: "mem_runnable m now = sort_key (\<lambda>(i, j). (j_run_at j, j_created_at j)) ?d"
    by (simp add: mem_runnable_def spec_runnable_def spec_stale_def)
  have "filter (sql_runnable (to_epoch now)) (ss_rows s) = map (to_row \<circ> snd) ?d"
    by (simp add: D(3) filter_map comp_def case_prod_unfold)
  then have "sort_key (\<lambda>r. (r_run_at r, r_created_at r, rowid_order (ss_rows s) r))
      (filter (sql_runnable (to_epoch now)) (ss_rows s)) =
    map (to_row \<circ> snd) (sort_key (\<lambda>c. (to_epoch (j_run_at (snd c)), to_epoch (j_created_at (snd c)), 0::nat)) ?d)"
    by (simp only:) (rule map_sort_key [symmetric], simp add: rowid_order_def)
  also have "sort_key (\<lambda>c. (to_epoch (j_run_at (snd c)), to_epoch (j_created_at (snd c)), 0::nat)) ?d =
      mem_runnable m now"
    unfolding run by (rule sort_key_cong_order) (auto simp: less_eq_prod_def less_le)
  finally show ?thesis by (auto simp: sql_select_runnable_def split: list.split)
qed

lemma sql_claim_loop_rel:
  assumes "exec_rel m s" and "mem_runnable m now = cs" and "whole_us lease"
  shows "\<exists>rows. sql_claim_loop rowid_order (ss_retry s) w (to_epoch now) lease (ss_rows s) =
      (map_option j_id (fst (mem_claim_loop cs w now lease m)), rows) \<and>
    exec_rel (snd (mem_claim_loop cs w now lease m)) (s\<lparr>ss_rows := rows\<rparr>) \<and>
    (\<forall>j. fst (mem_claim_loop cs w now lease m) = Some j \<longrightarrow>
       mem_map (snd (mem_claim_loop cs w now lease m)) (j_id j) = Some j)"
  using assms
proof (induction cs arbitrary: m s)
  case Nil
  then show ?case
    by (simp add: sql_claim_loop.simps [of _ _ _ _ _ "ss_rows s"] sql_select_rel)
next
  case (Cons c cs)
  obtain i j where c: "c = (i, j)" by (cases c)
  note D = exec_relD [OF Cons.prems(1)]
  have "(i, j) \<in> set (mem_runnable m now)" using Cons.prems(2) c by simp
  then have ij: "mem_map m i = Some j" using mem_runnable_set [OF D(1)] by auto
  then have id: "j_id j = i" by (rule mem_inv_id [OF D(1)])
  have sel: "sql_select_runnable rowid_order (to_epoch now) (ss_rows s) = Some (to_row j)"
    using sql_select_rel [OF Cons.prems(1), of now] Cons.prems(2) c by simp
  note loop = sql_claim_loop.simps [of rowid_order "ss_retry s" w "to_epoch now" lease "ss_rows s"]
  show ?case
  proof (cases "spec_exhausted (ms_retry m) j")
    case True
    let ?s = "s\<lparr>ss_rows := sql_update (\<lambda>r. r_id r = i)
      (sql_give_up (j_attempts j + 1) (to_epoch now)) (ss_rows s)\<rparr>"
    have "exec_rel (mem_put m i (spec_give_up now j)) ?s"
      by (rule exec_rel_put [OF Cons.prems(1) ij]) (simp_all add: spec_job_defs [symmetric] row_transitions, simp_all add: spec_job_defs)
    from Cons.IH [OF this mem_runnable_give_up [OF D(1)] Cons.prems(3)] Cons.prems(2) c
    show ?thesis
      using True sel loop id D(2)
      by (simp add: Let_def mem_claim_loop_Cons spec_exhausted_def del: mem_claim_loop.simps)
  next
    case False
    have "exec_rel (mem_put m i (spec_lease w now lease j))
      (s\<lparr>ss_rows := sql_update (\<lambda>r. r_id r = i)
        (sql_lease (j_attempts j + 1) w (to_epoch now) lease) (ss_rows s)\<rparr>)"
      by (rule exec_rel_put [OF Cons.prems(1) ij]) (use Cons.prems(3) in \<open>simp_all add: row_transitions\<close>, simp_all add: spec_job_defs)
    with False sel loop id D(2) c show ?thesis
      by (simp add: Let_def mem_claim_loop_Cons spec_exhausted_def del: mem_claim_loop.simps)
        (simp add: spec_job_defs)
  qed
qed

text \<open>Each operation: same result, related states.\<close>

definition same_step :: "exec_op \<Rightarrow> mem_store \<Rightarrow> sql_store \<Rightarrow> bool" where
  "same_step op m s \<longleftrightarrow>
     fst (sql_step rowid_order s op) = fst (mem_step m op) \<and>
     exec_rel (snd (mem_step m op)) (snd (sql_step rowid_order s op))"

lemma sql_store_rows [simp]: "s\<lparr>ss_rows := ss_rows s\<rparr> = (s::sql_store)"
  by simp

lemma same_enqueue:
  assumes rel: "exec_rel m s" and ok: "op_ok (mem_map m) (OpEnqueue x)"
  shows "same_step (OpEnqueue x) m s"
proof (cases "map_of (ms_by_key m) (j_idempotency_key x)")
  note D = exec_relD [OF rel]
  have by_key: "sql_get_by_key (map to_row ks) key = Inr (find (\<lambda>j. j_idempotency_key j = key) ks)" for ks key
    by (induction ks) (auto simp: sql_get_by_key_def)
  case (Some i)
  then obtain j where j: "mem_map m i = Some j" "j_idempotency_key j = j_idempotency_key x"
    using mem_inv_key [OF D(1)] by blast
  then have jm: "j \<in> set (dict_values (ms_jobs m))" by (force dest: map_of_SomeD)
  have "k = j" if "k \<in> set (dict_values (ms_jobs m))" "j_idempotency_key k = j_idempotency_key x" for k
    using that j jm sql_holdsD(3) [OF exec_rel_holds [OF rel]] unfolding distinct_map inj_on_def
    by metis
  moreover obtain k where k: "find (\<lambda>j. j_idempotency_key j = j_idempotency_key x) (dict_values (ms_jobs m)) = Some k"
    using jm j(2) find_None_iff [of "\<lambda>j. j_idempotency_key j = j_idempotency_key x" "dict_values (ms_jobs m)"]
    by (cases "find (\<lambda>j. j_idempotency_key j = j_idempotency_key x) (dict_values (ms_jobs m))") blast+
  moreover from k have "k \<in> set (dict_values (ms_jobs m))" "j_idempotency_key k = j_idempotency_key x"
    unfolding find_Some_iff by (metis nth_mem)+
  ultimately have "find (\<lambda>j. j_idempotency_key j = j_idempotency_key x) (dict_values (ms_jobs m)) = Some j"
    by simp
  moreover have "sql_insert (ss_rows s) (to_row x) = Inr (ss_rows s)"
    using jm j(2) by (auto simp: sql_insert_def D(3))
  ultimately show ?thesis
    using Some j rel by_key [of "dict_values (ms_jobs m)" "j_idempotency_key x", folded D(3)]
    by (simp add: same_step_def mem_enqueue_def sql_enqueue_def)
next
  note D = exec_relD [OF rel]
  have by_key: "sql_get_by_key (map to_row ks) key = Inr (find (\<lambda>j. j_idempotency_key j = key) ks)" for ks key
    by (induction ks) (auto simp: sql_get_by_key_def)
  let ?js = "dict_values (ms_jobs m)"
  case None
  have fresh: "j_idempotency_key j \<noteq> j_idempotency_key x" if "j \<in> set ?js" for j
  proof -
    have "mem_map m (j_id j) = Some j"
      using index_by_mem [OF mem_values_distinct [OF D(1)] that] jobs_map_values [OF D(1)] by simp
    with None mem_inv_key [OF D(1)] show ?thesis by (metis option.distinct(1))
  qed
  then have "\<not> spec_known (mem_map m) (j_idempotency_key x)"
    using map_of_value unfolding spec_known_def by metis
  with ok have new: "mem_map m (j_id x) = None" by (auto simp: op_ok_def)
  then have absent: "j_id x \<notin> set (map fst (ms_jobs m))" by (rule map_of_None_keys [THEN iffD1])
  have nid: "j_id j \<noteq> j_id x" if "j \<in> set ?js" for j
    using index_by_mem [OF mem_values_distinct [OF D(1)] that] jobs_map_values [OF D(1)] new by auto
  have ins: "sql_insert (ss_rows s) (to_row x) = Inr (map to_row (?js @ [x]))"
    using fresh nid by (auto simp: sql_insert_def D(3))
  have find: "find (\<lambda>j. j_idempotency_key j = j_idempotency_key x) (ks @ [x]) = Some x"
    if "set ks \<subseteq> set ?js" for ks using that fresh by (induction ks) auto
  have m': "snd (mem_enqueue m x) = m\<lparr>ms_jobs := ms_jobs m @ [(j_id x, x)],
      ms_by_key := dict_set (ms_by_key m) (j_idempotency_key x) (j_id x)\<rparr>"
    using None absent by (simp add: mem_enqueue_def dict_set_absent)
  have "mem_inv (snd (mem_enqueue m x))"
    using mem_enqueue_spec [OF D(1), of x "fst (mem_enqueue m x)" "snd (mem_enqueue m x)"] new by simp
  then have "exec_rel (snd (mem_enqueue m x)) (s\<lparr>ss_rows := map to_row (?js @ [x])\<rparr>)"
    using D by (simp add: exec_rel_def m')
  then show ?thesis
    using None find [of ?js]
    by (simp add: same_step_def sql_enqueue_def ins by_key mem_enqueue_def del: map_map map_append)
qed

lemma same_claim:
  assumes rel: "exec_rel m s" and us: "whole_us lease"
  shows "same_step (OpClaimNext w now lease) m s"
proof -
  obtain r m' where mem: "mem_claim_loop (mem_runnable m now) w now lease m = (r, m')" by fastforce
  with sql_claim_loop_rel [OF rel refl us, of w now] obtain rows where
    sql: "sql_claim_loop rowid_order (ss_retry s) w (to_epoch now) lease (ss_rows s) = (map_option j_id r, rows)"
    and rel': "exec_rel m' (s\<lparr>ss_rows := rows\<rparr>)" and got: "\<forall>j. r = Some j \<longrightarrow> mem_map m' (j_id j) = Some j"
    by auto
  show ?thesis
    using exec_relD(6) [OF rel'] got rel'
    by (cases r) (simp_all add: same_step_def mem_claim_next_def mem sql_claim_next_def sql)
qed

lemma same_targets:
  assumes rel: "exec_rel m s"
  shows "same_step (OpComplete i res now) m s" "same_step (OpFail i err now) m s"
    "same_step (OpCancel i now) m s" "whole_us lease \<Longrightarrow> same_step (OpRenewLease i w now lease) m s"
proof -
  note D = exec_relD [OF rel]
  have ids: "P (to_row k) = (j_id k = i)" if "P = (\<lambda>r. r_id r = i)" for P k using that by simp
  have got: "sql_existing (sql_get_by_id rows i) = Inr j'"
    if "exec_rel (mem_put m i j') (s\<lparr>ss_rows := rows\<rparr>)" for rows j'
    using exec_relD(6) [OF that, of i] by simp
  have unique: "k = j" if "mem_map m i = Some j" "k \<in> set (dict_values (ms_jobs m))" "j_id k = i" for j k
    using that index_by_mem [OF mem_values_distinct [OF D(1)]] jobs_map_values [OF D(1)] by fastforce
  have stored: "mem_map m (j_id k) = Some k" if "k \<in> set (dict_values (ms_jobs m))" for k
    using that index_by_mem [OF mem_values_distinct [OF D(1)]] jobs_map_values [OF D(1)] by simp
  show "same_step (OpComplete i res now) m s"
  proof (cases "mem_map m i")
    case None
    with rel D show ?thesis
      by (simp add: same_step_def mem_complete_def mem_require_def sql_complete_def)
  next
    case (Some j)
    let ?f = "\<lambda>r::exec_row. r\<lparr>r_state := state_value SUCCEEDED, r_result := res,
      r_lease_owner := None, r_lease_expiry := None, r_finished_at := Some (to_epoch now),
      r_updated_at := to_epoch now\<rparr>"
    have r: "exec_rel (mem_put m i (spec_succeed res now j))
        (s\<lparr>ss_rows := sql_update (\<lambda>r. r_id r = i) ?f (ss_rows s)\<rparr>)"
      by (rule exec_rel_put [OF rel Some]) (simp_all add: spec_succeed_def to_row_def)
    from Some rel D r got [OF r] show ?thesis
      by (auto simp: same_step_def mem_complete_def mem_require_def sql_complete_def Let_def
          spec_succeed_def [symmetric])
  qed
  show "same_step (OpFail i err now) m s"
  proof (cases "mem_map m i")
    case None
    with rel D show ?thesis
      by (simp add: same_step_def mem_fail_def mem_require_def sql_fail_def)
  next
    case (Some j)
    have us: "whole_us (backoff_seconds (ms_retry m) (j_attempts j))"
      using D(4) by (simp add: policy_us_def)
    have r: "exec_rel (mem_put m i (spec_fail (ms_retry m) err now j))
        (s\<lparr>ss_rows := sql_update (\<lambda>r. r_id r = i) f (ss_rows s)\<rparr>)"
      if "f (to_row j) = to_row (spec_fail (ms_retry m) err now j)" for f
      by (rule exec_rel_put [where f = f, OF rel Some _ _ that]) (simp_all add: spec_fail_def)
    show ?thesis
    proof (cases "rp_max_attempts (ms_retry m) \<le> j_attempts j")
      case True
      let ?f = "\<lambda>r::exec_row. r\<lparr>r_state := state_value DEAD_LETTER, r_last_error := Some err,
            r_dead_letter_reason := Some (''failed after '' @ string_of_int (j_attempts j) @ '' attempt(s)''),
            r_lease_owner := None, r_lease_expiry := None, r_finished_at := Some (to_epoch now),
            r_updated_at := to_epoch now\<rparr>"
      have "?f (to_row j) = to_row (spec_fail (ms_retry m) err now j)"
        using True by (simp add: spec_fail_def to_row_def failure_reason_def)
      note r = r [where f = ?f, OF this]
      from Some rel D r got [OF r] True show ?thesis
        by (auto simp: same_step_def mem_fail_def mem_require_def sql_fail_def Let_def
            spec_fail_def failure_reason_def)
    next
      case False
      let ?f = "\<lambda>r::exec_row. r\<lparr>r_state := state_value PENDING, r_last_error := Some err,
            r_run_at := to_epoch now + backoff_seconds (ms_retry m) (j_attempts j),
            r_lease_owner := None, r_lease_expiry := None, r_updated_at := to_epoch now\<rparr>"
      have "?f (to_row j) = to_row (spec_fail (ms_retry m) err now j)"
        using False by (simp add: spec_fail_def to_row_def to_epoch_add_seconds [OF us])
      note r = r [where f = ?f, OF this]
      from Some rel D r got [OF r] False show ?thesis
        by (auto simp: same_step_def mem_fail_def mem_require_def sql_fail_def Let_def spec_fail_def)
    qed
  qed
  show "same_step (OpCancel i now) m s"
  proof -
    define P where "P = (\<lambda>r::exec_row. r_id r = i \<and>
      r_state r \<notin> {state_value SUCCEEDED, state_value DEAD_LETTER, state_value CANCELLED})"
    let ?f = "\<lambda>r::exec_row. r\<lparr>r_state := state_value CANCELLED, r_lease_owner := None,
      r_lease_expiry := None, r_finished_at := Some (to_epoch now), r_updated_at := to_epoch now\<rparr>"
    have sql: "sql_cancel s i now = (0 < sql_rowcount P (ss_rows s), s\<lparr>ss_rows := sql_update P ?f (ss_rows s)\<rparr>)"
      by (simp add: sql_cancel_def Let_def P_def)
    have live: "P (to_row k) \<longleftrightarrow> j_id k = i \<and> \<not> job_is_terminal k" for k
      by (cases "j_state k") (auto simp: P_def job_is_terminal_def)
    show ?thesis
    proof (cases "\<exists>j. mem_map m i = Some j \<and> \<not> job_is_terminal j")
      case True
      then obtain j where j: "mem_map m i = Some j" "\<not> job_is_terminal j" by blast
      have "j \<in> set (dict_values (ms_jobs m))" using j(1) by (force dest: map_of_SomeD)
      then have "sql_rowcount P (ss_rows s) \<noteq> 0"
        using j live mem_inv_id [OF D(1) j(1)]
        by (auto simp: D(3) sql_rowcount_jobs filter_empty_conv simp del: map_map)
      moreover have "exec_rel (mem_put m i (spec_cancel now j)) (s\<lparr>ss_rows := sql_update P ?f (ss_rows s)\<rparr>)"
        by (rule exec_rel_put [OF rel j(1)])
          (use j live unique [OF j(1)] in \<open>auto simp: spec_cancel_def to_row_def [abs_def]\<close>)
      ultimately show ?thesis
        using j by (simp add: same_step_def sql mem_cancel_def spec_cancel_def)
    next
      case False
      have nP: "\<not> P r" if "r \<in> set (ss_rows s)" for r
        using that False live stored unfolding D(3) set_map [of to_row] by (metis imageE)
      then have "sql_rowcount P (ss_rows s) = 0" by (simp add: sql_rowcount_def)
      with False rel nP show ?thesis
        by (auto simp: same_step_def sql mem_cancel_def sql_update_none split: option.split)
    qed
  qed
  show "same_step (OpRenewLease i w now lease) m s" if us: "whole_us lease"
  proof -
    define P where "P = (\<lambda>r::exec_row. r_id r = i \<and> r_state r = state_value RUNNING \<and> r_lease_owner r = Some w)"
    let ?f = "\<lambda>r::exec_row. r\<lparr>r_lease_expiry := Some (to_epoch now + lease), r_updated_at := to_epoch now\<rparr>"
    have sql: "sql_renew_lease s i w now lease =
        (0 < sql_rowcount P (ss_rows s), s\<lparr>ss_rows := sql_update P ?f (ss_rows s)\<rparr>)"
      by (simp add: sql_renew_lease_def Let_def P_def)
    have live: "P (to_row k) \<longleftrightarrow> j_id k = i \<and> j_state k = RUNNING \<and> j_lease_owner k = Some w" for k
      by (auto simp: P_def)
    show ?thesis
    proof (cases "\<exists>j. mem_map m i = Some j \<and> j_state j = RUNNING \<and> j_lease_owner j = Some w")
      case True
      then obtain j where j: "mem_map m i = Some j" "j_state j = RUNNING" "j_lease_owner j = Some w" by blast
      have "j \<in> set (dict_values (ms_jobs m))" using j(1) by (force dest: map_of_SomeD)
      then have "sql_rowcount P (ss_rows s) \<noteq> 0"
        using j live mem_inv_id [OF D(1) j(1)]
        by (auto simp: D(3) sql_rowcount_jobs filter_empty_conv simp del: map_map)
      moreover have "exec_rel (mem_put m i (spec_renew now lease j)) (s\<lparr>ss_rows := sql_update P ?f (ss_rows s)\<rparr>)"
        by (rule exec_rel_put [OF rel j(1)])
          (use j live unique [OF j(1)] us in \<open>auto simp: spec_renew_def row_transitions\<close>)
      ultimately show ?thesis
        using j by (simp add: same_step_def sql mem_renew_lease_def spec_renew_def)
    next
      case False
      have nP: "\<not> P r" if "r \<in> set (ss_rows s)" for r
        using that False live stored unfolding D(3) set_map [of to_row] by (metis imageE)
      then have "sql_rowcount P (ss_rows s) = 0" by (simp add: sql_rowcount_def)
      with False rel nP show ?thesis
        by (auto simp: same_step_def sql mem_renew_lease_def sql_update_none split: option.split)
    qed
  qed
qed

lemma same_recover:
  assumes rel: "exec_rel m s"
  shows "same_step (OpRecoverStale now) m s"
proof -
  note D = exec_relD [OF rel]
  define js where "js = dict_values (ms_jobs m)"
  define ks where "ks = filter (spec_stale now) js"
  let ?g = "\<lambda>k. if spec_stale now k then spec_recover now k else k"
  obtain r s' where sql: "sql_recover_stale rowid_order s now = (r, s')" by fastforce
  obtain r2 m' where mem: "mem_recover_stale m now = (r2, m')" by fastforce
  have one: "(case mem_recover_one now j of None \<Rightarrow> j | Some j' \<Rightarrow> j') = ?g j" for j
    by (simp add: mem_recover_one_spec)
  have r2: "r2 = map (spec_recover now) ks"
    using mem by (auto simp: mem_recover_stale_def mem_recover_list ks_def js_def)
  have m': "m' = m\<lparr>ms_jobs := map (\<lambda>(i, j). (i, ?g j)) (ms_jobs m)\<rparr>"
    using mem by (auto simp: mem_recover_stale_def one)
  then have vals: "dict_values (ms_jobs m') = map ?g js"
    by (simp add: js_def case_prod_unfold)
  have inv': "mem_inv m'" using mem_recover_stale_spec [OF D(1) mem] by blast
  have ids: "map r_id (sort_key (rowid_order (ss_rows s)) (filter (sql_stale (to_epoch now)) (ss_rows s)))
      = map j_id ks"
  proof -
    have "sort_key (rowid_order (ss_rows s)) rs = rs" for rs
      using sort_key_const [of "0::nat" rs] by (simp add: rowid_order_def [abs_def])
    then have "map r_id (sort_key (rowid_order (ss_rows s)) (filter (sql_stale (to_epoch now)) (ss_rows s)))
        = map r_id (map to_row ks)"
      by (simp add: D(3) filter_to_row ks_def js_def del: map_map)
    then show ?thesis by (simp add: comp_def)
  qed
  have dist: "distinct (map j_id js)" unfolding js_def by (rule mem_values_distinct [OF D(1)])
  have upd: "sql_update (\<lambda>r. r_id r \<in> j_id ` set ks)
      (\<lambda>r. r\<lparr>r_state := state_value PENDING, r_lease_owner := None, r_lease_expiry := None,
             r_run_at := to_epoch now, r_updated_at := to_epoch now\<rparr>) (ss_rows s) = map to_row (map ?g js)"
    unfolding D(3) js_def [symmetric] sql_update_def map_map
    using dist by (intro map_cong) (auto simp: ks_def to_row_def spec_recover_def distinct_map inj_on_def)
  have rel': "exec_rel m' (s\<lparr>ss_rows := map to_row (map ?g js)\<rparr>)"
    using D inv' vals by (simp add: exec_rel_def m' del: map_map)
  have got: "sql_get_all (map to_row (map ?g js)) (map j_id ks) = Inr (map (spec_recover now) ks)"
  proof (rule sql_get_all_jobs)
    fix j
    assume "j \<in> set ks"
    then have "jobs_map js (j_id j) = Some j" "spec_stale now j"
      using index_by_mem [OF dist] by (auto simp: ks_def)
    then show "jobs_map (map ?g js) (j_id j) = Some (spec_recover now j)"
      by (subst index_by_map) (simp_all add: spec_job_defs)
  qed
  have "r = Inr (map (spec_recover now) ks) \<and> exec_rel m' s'"
  proof (cases "ks = []")
    case True
    then have "map ?g js = js" by (auto simp: ks_def filter_empty_conv intro: map_idI)
    then have "s\<lparr>ss_rows := map to_row (map ?g js)\<rparr> = s" using D(3) by (simp add: js_def)
    with True sql [unfolded sql_recover_stale_def Let_def, unfolded ids] rel' show ?thesis by simp
  next
    case False
    with sql [unfolded sql_recover_stale_def Let_def, unfolded ids, unfolded set_map upd got] rel'
    show ?thesis by simp
  qed
  then show ?thesis by (simp add: same_step_def sql mem r2)
qed

lemma same_list:
  assumes rel: "exec_rel m s" and ok: "op_ok (mem_map m) (OpListJobs states agent kind limit)"
  shows "same_step (OpListJobs states agent kind limit) m s"
proof -
  note D = exec_relD [OF rel]
  have P: "(\<lambda>job. (case (case states of None \<Rightarrow> None | Some ss \<Rightarrow> if ss = [] then None else Some (set ss)) of
                   None \<Rightarrow> True | Some ss \<Rightarrow> j_state job \<in> ss) \<and>
                 (case agent of None \<Rightarrow> True | Some a \<Rightarrow> j_agent_id job = a) \<and>
                 (case kind of None \<Rightarrow> True | Some k \<Rightarrow> j_kind job = k)) =
      spec_matches states agent kind"
    by (auto simp: fun_eq_iff spec_matches_def split: option.splits)
  have "sort_key (\<lambda>j. (- to_epoch (j_created_at j), rowid_order (ss_rows s) (to_row j))) js =
      sort_key (\<lambda>j. - j_created_at j) js" for js
    by (rule sort_key_cong_order) (auto simp: less_eq_prod_def less_le rowid_order_def)
  then have "sql_list_jobs rowid_order s states agent kind limit = Inr (mem_list_jobs m states agent kind limit)"
    unfolding sql_list_jobs_eq [OF D(3)] mem_list_jobs_def Let_def P
    using ok by (auto simp: sql_limit_def op_ok_def split: option.splits)
  with rel show ?thesis by (simp add: same_step_def)
qed

lemma exec_same_step:
  assumes "exec_rel m s" and "op_ok (mem_map m) op"
  shows "same_step op m s"
proof (cases op)
  case (OpGet i)
  with assms exec_relD(6) [OF assms(1)] show ?thesis
    by (simp add: same_step_def sql_get_def mem_get_def)
qed (use assms same_enqueue same_claim same_targets same_recover same_list in
    \<open>auto simp: op_ok_def\<close>)

lemma exec_rel_init: "policy_us p \<Longrightarrow> exec_rel (mem_init (Some p)) (sql_open (Some p) 0 [])"
  using mem_inv_init [of "Some p"] by (simp add: exec_rel_def mem_init_def sql_open_def sql_migrate_def SCHEMA_VERSION_def)

end
