(* ===== verification/ExecTies.thy ===== *)
theory ExecTies
  imports ExecEquiv
begin

text \<open>
  The order of ties. SQL leaves open how rows that agree on every \<open>ORDER BY\<close> column come, and
  the indexes of the schema make SQLite's own choice depend on the query. The claim and the job
  list order by the creation time, so as long as no two stored jobs were created at the same
  microsecond neither shows the choice; \<open>recover_stale\<close> has no \<open>ORDER BY\<close> at all, so the order
  of its answer, and nothing else, depends on it.
\<close>

section \<open>The jobs a run adds\<close>

definition enqueued_job :: "exec_op \<Rightarrow> execution_job list" where
  "enqueued_job op = (case op of OpEnqueue x \<Rightarrow> [x] | _ \<Rightarrow> [])"

definition enqueued :: "exec_op list \<Rightarrow> execution_job list" where
  "enqueued ops = concat (map enqueued_job ops)"

lemma enqueued_simps [simp]:
  "enqueued [] = []" "enqueued (op # ops) = enqueued_job op @ enqueued ops"
  by (simp_all add: enqueued_def)

text \<open>Equal answers; what \<open>recover_stale\<close> returns is equal up to the order.\<close>

definition same_answer :: "exec_op \<Rightarrow> exec_result \<Rightarrow> exec_result \<Rightarrow> bool" where
  "same_answer op r r' =
     (r = r' \<or>
      (case op of
         OpRecoverStale now \<Rightarrow>
           (case (r, r') of (RJobs (Inr js), RJobs (Inr js')) \<Rightarrow> mset js = mset js' | _ \<Rightarrow> False)
       | _ \<Rightarrow> False))"

fun same_answers :: "exec_op list \<Rightarrow> exec_result list \<Rightarrow> exec_result list \<Rightarrow> bool" where
  "same_answers [] [] [] = True"
| "same_answers (op # ops) (r # rs) (r' # rs') = (same_answer op r r' \<and> same_answers ops rs rs')"
| "same_answers _ _ _ = False"

section \<open>Distinct creation times\<close>

abbreviation created :: "exec_row list \<Rightarrow> rat list" where
  "created rows \<equiv> map r_created_at rows"

lemma created_update [simp]:
  "(\<And>r. r_created_at (f r) = r_created_at r) \<Longrightarrow> created (sql_update P f rows) = created rows"
  by (simp add: sql_update_def)

lemma created_row_inj:
  "distinct (created rows) \<Longrightarrow> a \<in> set rows \<Longrightarrow> b \<in> set rows \<Longrightarrow> r_created_at a = r_created_at b \<Longrightarrow> a = b"
  by (auto simp: distinct_map inj_on_def)

lemma select_any_tie:
  assumes "distinct (created rows)"
  shows "sql_select_runnable tie t rows = sql_select_runnable tie' t rows"
proof -
  have "sort_key (\<lambda>r. (r_run_at r, r_created_at r, tie rows r)) (filter (sql_runnable t) rows) =
      sort_key (\<lambda>r. (r_run_at r, r_created_at r, tie' rows r)) (filter (sql_runnable t) rows)"
    by (rule sort_key_cong_order)
      (auto simp: less_eq_prod_def less_le dest: created_row_inj [OF assms])
  then show ?thesis by (simp add: sql_select_runnable_def)
qed

lemma claim_loop_any_tie:
  "distinct (created rows) \<Longrightarrow>
   sql_claim_loop tie p w t lease rows = sql_claim_loop tie' p w t lease rows \<and>
   created (snd (sql_claim_loop tie p w t lease rows)) = created rows"
proof (induction tie p w t lease rows rule: sql_claim_loop.induct)
  case (1 tie p w t lease rows)
  note loop = sql_claim_loop.simps [of _ p w t lease rows]
  note sel = select_any_tie [OF "1.prems", of tie' t tie]
  show ?case
  proof (cases "sql_select_runnable tie t rows")
    case None
    then show ?thesis by (simp add: loop sel)
  next
    case (Some row)
    show ?thesis
    proof (cases "rp_max_attempts p < r_attempts row + 1")
      case True
      let ?rows = "sql_update (\<lambda>r. r_id r = r_id row) (sql_give_up (r_attempts row + 1) t) rows"
      have kept: "created ?rows = created rows" by (simp add: sql_give_up_def)
      note IH = "1.IH" [OF Some refl True, unfolded kept, OF "1.prems"]
      with Some True show ?thesis
        by (simp add: loop sel Let_def IH [THEN conjunct1, symmetric] IH [THEN conjunct2])
    next
      case False
      with Some show ?thesis by (simp add: loop sel Let_def sql_lease_def)
    qed
  qed
qed

lemma list_any_tie:
  assumes "distinct (created (ss_rows s))"
  shows "sql_list_jobs tie s states agent kind limit = sql_list_jobs tie' s states agent kind limit"
proof -
  have "sort_key (\<lambda>r. (- r_created_at r, tie (ss_rows s) r)) (filter P (ss_rows s)) =
      sort_key (\<lambda>r. (- r_created_at r, tie' (ss_rows s) r)) (filter P (ss_rows s))" for P
    by (rule sort_key_cong_order)
      (auto simp: less_eq_prod_def less_le dest: created_row_inj [OF assms])
  then show ?thesis by (simp add: sql_list_jobs_def)
qed

text \<open>Reading the same rows in another order.\<close>

lemma get_all_mset:
  assumes "sql_get_all rows ids = Inr js" and "mset ids' = mset ids"
  shows "\<exists>js'. sql_get_all rows ids' = Inr js' \<and> mset js' = mset js"
proof -
  define g where "g = (\<lambda>i. case sql_existing (sql_get_by_id rows i) of Inr j \<Rightarrow> j)"
  have all: "\<forall>k \<in> set ks. \<exists>j. sql_existing (sql_get_by_id rows k) = Inr j \<Longrightarrow>
      sql_get_all rows ks = Inr (map g ks)" for ks
    by (induction ks) (auto simp: g_def)
  have some: "sql_get_all rows ks = Inr xs \<Longrightarrow>
      xs = map g ks \<and> (\<forall>k \<in> set ks. \<exists>j. sql_existing (sql_get_by_id rows k) = Inr j)" for ks xs
    by (induction ks arbitrary: xs) (auto simp: g_def py_bind_def split: sum.splits)
  from some [OF assms(1)] have js: "js = map g ids"
    and "\<forall>k \<in> set ids'. \<exists>j. sql_existing (sql_get_by_id rows k) = Inr j"
    using mset_eq_setD [OF assms(2)] by auto
  then have "sql_get_all rows ids' = Inr (map g ids')" by (simp add: all)
  moreover have "mset (map g ids') = mset js" using assms(2) by (simp add: js)
  ultimately show ?thesis by blast
qed

lemma recover_any_tie:
  assumes "sql_recover_stale tie' s now = (Inr js, s')"
  shows "\<exists>js'. sql_recover_stale tie s now = (Inr js', s') \<and> mset js' = mset js"
proof -
  define ids where "ids = (\<lambda>tie::tie_break. map r_id (sort_key (tie (ss_rows s))
    (filter (sql_stale (to_epoch now)) (ss_rows s))))"
  define rows where "rows = sql_update (\<lambda>r. r_id r \<in> set (ids tie'))
    (\<lambda>r. r\<lparr>r_state := state_value PENDING, r_lease_owner := None, r_lease_expiry := None,
           r_run_at := to_epoch now, r_updated_at := to_epoch now\<rparr>) (ss_rows s)"
  have sel: "map r_id (sort_key (t (ss_rows s)) (filter (sql_stale (to_epoch now)) (ss_rows s))) = ids t"
    for t by (simp add: ids_def)
  have same: "mset (ids tie) = mset (ids tie')" by (simp add: ids_def)
  then have sets: "set (ids tie) = set (ids tie')" by (rule mset_eq_setD)
  have run: "sql_recover_stale tie'' s now =
      (if ids tie'' = [] then (Inr [], s) else (sql_get_all rows (ids tie''), s\<lparr>ss_rows := rows\<rparr>))"
    if "set (ids tie'') = set (ids tie')" for tie''
    unfolding sql_recover_stale_def Let_def sel that rows_def ..
  show ?thesis
  proof (cases "ids tie' = []")
    case True
    with same have "ids tie = []" by simp
    with True assms run [OF sets] run [OF refl] show ?thesis by simp
  next
    case False
    with same have "ids tie \<noteq> []" by auto
    with False assms run [OF sets] run [OF refl] get_all_mset [OF _ same, of rows js] show ?thesis
      by auto
  qed
qed

section \<open>Any order of ties\<close>

lemma created_step:
  assumes "distinct (created (ss_rows s))"
  shows "created (ss_rows (snd (sql_step tie s op))) = created (ss_rows s) \<or>
    created (ss_rows (snd (sql_step tie s op))) =
      created (ss_rows s) @ map (to_epoch \<circ> j_created_at) (enqueued_job op)"
proof (cases op)
  case (OpEnqueue x)
  then show ?thesis
    by (auto simp: sql_enqueue_def sql_insert_def enqueued_job_def split: sum.splits)
next
  case (OpClaimNext w now lease)
  obtain i rows where "sql_claim_loop tie (ss_retry s) w (to_epoch now) lease (ss_rows s) = (i, rows)"
    by fastforce
  with OpClaimNext claim_loop_any_tie [OF assms, of tie "ss_retry s" w "to_epoch now" lease] show ?thesis
    by (auto simp: sql_claim_next_def split: option.splits)
qed (auto simp: sql_renew_lease_def sql_complete_def sql_fail_def sql_cancel_def
    sql_recover_stale_def Let_def split: sum.splits option.splits)

lemma step_any_tie:
  assumes rel: "exec_rel m s" and ok: "op_ok (mem_map m) op" and created: "distinct (created (ss_rows s))"
  shows "same_answer op (fst (sql_step tie s op)) (fst (mem_step m op)) \<and>
    snd (sql_step tie s op) = snd (sql_step rowid_order s op)"
proof -
  have same: "fst (sql_step rowid_order s op) = fst (mem_step m op)"
    using exec_same_step [OF rel ok] by (simp add: same_step_def)
  show ?thesis
  proof (cases op)
    case (OpClaimNext w now lease)
    have "sql_claim_loop tie p w t lease (ss_rows s) = sql_claim_loop rowid_order p w t lease (ss_rows s)"
      for p t using claim_loop_any_tie [OF created] by blast
    with OpClaimNext same show ?thesis by (simp add: same_answer_def sql_claim_next_def)
  next
    case (OpRecoverStale now)
    obtain js m' where mem: "mem_recover_stale m now = (js, m')" by fastforce
    obtain r s' where "sql_recover_stale rowid_order s now = (r, s')" by fastforce
    moreover from this same OpRecoverStale mem have "r = Inr js" by simp
    ultimately show ?thesis
      using recover_any_tie [of rowid_order s now js s' tie] OpRecoverStale mem
      by (auto simp: same_answer_def)
  next
    case (OpListJobs states agent kind limit)
    with same list_any_tie [OF created, of tie states agent kind limit rowid_order] show ?thesis
      by (simp add: same_answer_def)
  qed (use same in \<open>simp_all add: same_answer_def\<close>)
qed

lemma run_any_tie:
  assumes "exec_rel m s" and "exec_ops_ok mem_step mem_map m ops"
    and "distinct (created (ss_rows s) @ map (to_epoch \<circ> j_created_at) (enqueued ops))"
  shows "same_answers ops (fst (exec_run (sql_step tie) s ops)) (fst (exec_run mem_step m ops)) \<and>
    exec_rel (snd (exec_run mem_step m ops)) (snd (exec_run (sql_step tie) s ops))"
  using assms
proof (induction ops arbitrary: m s)
  case Nil
  then show ?case by simp
next
  case (Cons op ops)
  obtain r m' where m: "mem_step m op = (r, m')" by fastforce
  obtain r2 s' where s: "sql_step tie s op = (r2, s')" by fastforce
  have ok: "op_ok (mem_map m) op" and dist: "distinct (created (ss_rows s))"
    using Cons.prems by auto
  have "exec_rel m' s'" "same_answer op r2 r"
    using step_any_tie [OF Cons.prems(1) ok dist, of tie] exec_same_step [OF Cons.prems(1) ok] m s
    by (auto simp: same_step_def)
  moreover have "distinct (created (ss_rows s') @ map (to_epoch \<circ> j_created_at) (enqueued ops))"
  proof -
    have "distinct (D @ B)" if "distinct (C @ A @ B)" "D = C \<or> D = C @ A" for A B C D :: "rat list"
      using that by auto
    then show ?thesis
      using created_step [OF dist, of tie op] Cons.prems(3) s by (simp only: enqueued_simps map_append snd_conv)
  qed
  ultimately show ?case using Cons.IH [of m' s'] Cons.prems m s by (auto split: prod.splits)
qed

end
