(* ===== verification/ExecProps.thy ===== *)
theory ExecProps
  imports ExecTies
begin

text \<open>
  What the execution stores guarantee over whole runs of the protocol, from an empty store.
  Both adapters satisfy the contract of \<open>ExecContract\<close>; the theorems here read its
  consequences back in the terms of each adapter's own operations.
\<close>

lemma exec_run_append:
  "exec_run step s (ops @ ops') =
     (let (rs, s') = exec_run step s ops; (rs', s'') = exec_run step s' ops' in (rs @ rs', s''))"
  by (induction ops arbitrary: s) (auto simp: Let_def split: prod.splits)

lemma exec_run_append_state:
  "snd (exec_run step s (ops @ ops')) = snd (exec_run step (snd (exec_run step s ops)) ops')"
  by (simp add: exec_run_append split: prod.splits)

lemma exec_ops_ok_append:
  "exec_ops_ok step jobs s (ops @ ops') \<longleftrightarrow>
     exec_ops_ok step jobs s ops \<and> exec_ops_ok step jobs (snd (exec_run step s ops)) ops'"
  by (induction ops arbitrary: s) (auto split: prod.splits)

lemma sql_inv_init: "policy_us p \<Longrightarrow> sql_inv (sql_open (Some p) v [])"
  by (auto simp: sql_inv_def sql_holds_def sql_open_def sql_migrate_def intro!: exI [of _ "[]"])

lemma sql_open_retry [simp]: "ss_retry (sql_open (Some p) v rows) = p"
  by (simp add: sql_open_def sql_migrate_def)

lemma sql_open_map [simp]: "sql_map (sql_open rp v []) = Map.empty"
  by (simp add: sql_map_def sql_jobs_def sql_open_def sql_migrate_def)

lemma mem_init_simps [simp]: "ms_retry (mem_init (Some p)) = p" "ms_jobs (mem_init rp) = []"
  by (simp_all add: mem_init_def)

lemma sql_get_map: "sql_inv s \<Longrightarrow> sql_get s i = Inr (sql_map s i)"
  by (auto simp: sql_inv_def sql_get_def sql_holds_def sql_holds_map)

abbreviation mem_after :: "retry_policy \<Rightarrow> exec_op list \<Rightarrow> mem_store" where
  "mem_after p ops \<equiv> snd (exec_run mem_step (mem_init (Some p)) ops)"

abbreviation sql_after :: "tie_break \<Rightarrow> retry_policy \<Rightarrow> exec_op list \<Rightarrow> sql_store" where
  "sql_after tie p ops \<equiv> snd (exec_run (sql_step tie) (sql_open (Some p) 0 []) ops)"

abbreviation mem_ops_ok :: "retry_policy \<Rightarrow> exec_op list \<Rightarrow> bool" where
  "mem_ops_ok p ops \<equiv> exec_ops_ok mem_step mem_map (mem_init (Some p)) ops"

abbreviation sql_ops_ok :: "tie_break \<Rightarrow> retry_policy \<Rightarrow> exec_op list \<Rightarrow> bool" where
  "sql_ops_ok tie p ops \<equiv> exec_ops_ok (sql_step tie) sql_map (sql_open (Some p) 0 []) ops"

lemma sql_after_inv: "policy_us p \<Longrightarrow> sql_ops_ok tie p ops \<Longrightarrow> sql_inv (sql_after tie p ops)"
  by (rule sql.run_inv [OF sql_inv_init])

lemma mem_after_inv: "mem_ops_ok p ops \<Longrightarrow> mem_inv (mem_after p ops)"
  by (rule mem.run_inv [OF mem_inv_init])

section \<open>Concrete runs\<close>

definition demo_job :: "string \<Rightarrow> string \<Rightarrow> datetime \<Rightarrow> execution_job" where
  "demo_job i key clock = new_execution_job i clock ''agent'' EVENT key []"

definition demo_ops :: "exec_op list" where
  "demo_ops =
     [OpEnqueue (demo_job ''a'' ''ka'' 0), OpEnqueue (demo_job ''b'' ''kb'' 5),
      OpClaimNext ''w'' 10 30, OpComplete ''a'' None 20]"

text \<open>A database that returns ties last inserted first.\<close>

definition reverse_order :: tie_break where
  "reverse_order rows r = length (takeWhile (\<lambda>r'. r_id r' \<noteq> r_id r) (rev rows))"

lemma whole_us_numeral [simp]: "whole_us (numeral n)"
  by (simp add: whole_us_def)

text \<open>What evaluates a run of either adapter.\<close>

lemma op_ok_simps [simp]:
  "m (j_id x) = None \<Longrightarrow> 0 \<le> j_attempts x \<Longrightarrow> op_ok m (OpEnqueue x)"
  "op_ok m (OpClaimNext w now lease) \<longleftrightarrow> whole_us lease"
  "op_ok m (OpRenewLease i w now lease) \<longleftrightarrow> whole_us lease"
  "op_ok m (OpComplete i res now)" "op_ok m (OpFail i err now)" "op_ok m (OpCancel i now)"
  "op_ok m (OpRecoverStale now)" "op_ok m (OpGet i)"
  "op_ok m (OpListJobs states agent kind (Some n)) \<longleftrightarrow> 0 \<le> n"
  "op_ok m (OpListJobs states agent kind None)"
  by (simp_all add: op_ok_def)

lemmas job_eval = demo_job_def new_execution_job_def job_is_terminal_def default_retry_policy_def
  backoff_seconds_def add_seconds_def round_half_even_def

lemmas mem_eval = job_eval Let_def mem_init_def mem_enqueue_def mem_claim_next_def mem_runnable_def
  mem_renew_lease_def mem_require_def mem_complete_def mem_fail_def mem_cancel_def
  mem_recover_stale_def mem_recover_one_def mem_get_def spec_lease_expired_def

lemmas sql_eval = job_eval sql_claim_loop.simps Let_def SCHEMA_VERSION_def rowid_order_def sql_get_by_id_def sql_get_by_key_def sql_insert_def
  to_row_def row_to_job_def kind_of_value_def state_of_value_def sql_runnable_def sql_stale_def
  sql_select_runnable_def sql_give_up_def sql_lease_def sql_update_def sql_rowcount_def
  to_epoch_def from_epoch_def index_by_def sql_existing_def sql_open_def sql_migrate_def sql_enqueue_def sql_claim_next_def
  sql_renew_lease_def sql_complete_def sql_fail_def sql_cancel_def sql_recover_stale_def sql_get_def
  sql_map_def sql_jobs_def

section \<open>Properties\<close>

text \<open>C1: From empty stores, SQLite, however it orders ties, and the in-memory store give the
  same answers to a sequence of operations and end with the same jobs; only the order of what
  \<open>recover_stale\<close> returns may differ. The condition is on what is asked: a new job has an id no
  stored job has and no negative attempts, no two enqueued jobs have the same creation time,
  leases and retry delays are whole microseconds, and list limits are not negative.\<close>

theorem exec_adapters_agree:
  assumes "policy_us p" and "mem_ops_ok p ops" and "distinct (map j_created_at (enqueued ops))"
  shows "same_answers ops (fst (exec_run (sql_step tie) (sql_open (Some p) 0 []) ops))
      (fst (exec_run mem_step (mem_init (Some p)) ops)) \<and>
    sql_map (sql_after tie p ops) = mem_map (mem_after p ops)"
proof -
  have "distinct (map to_epoch (map j_created_at (enqueued ops)))"
    using assms(3) by (simp add: distinct_map inj_on_def del: map_map)
  then show ?thesis
    using run_any_tie [OF exec_rel_init [OF assms(1)] assms(2), of tie] exec_relD(5)
    by (simp add: sql_open_def sql_migrate_def)
qed

theorem exec_adapters_agree_witness:
  "same_answers (demo_ops @ [OpListJobs None None None (Some 1), OpRecoverStale 50])
      (fst (exec_run (sql_step reverse_order) (sql_open (Some default_retry_policy) 0 [])
        (demo_ops @ [OpListJobs None None None (Some 1), OpRecoverStale 50])))
      (fst (exec_run mem_step (mem_init (Some default_retry_policy))
        (demo_ops @ [OpListJobs None None None (Some 1), OpRecoverStale 50]))) \<and>
    sql_map (sql_after reverse_order default_retry_policy
        (demo_ops @ [OpListJobs None None None (Some 1), OpRecoverStale 50])) =
      mem_map (mem_after default_retry_policy
        (demo_ops @ [OpListJobs None None None (Some 1), OpRecoverStale 50]))"
  by (rule exec_adapters_agree [OF policy_us_default])
    (simp_all add: demo_ops_def mem_eval enqueued_job_def)

text \<open>C3: Every operation of the in-memory store, in every state a run reaches, gives a result
  and a new job map that the abstract contract allows.\<close>

theorem mem_store_refines:
  assumes "mem_ops_ok p (ops @ [op])" and "mem_step (mem_after p ops) op = (r, s')"
  shows "exec_spec p (mem_map (mem_after p ops)) op r (mem_map s')"
proof -
  from assms(1) have ok: "mem_ops_ok p ops" "op_ok (mem_map (mem_after p ops)) op"
    by (simp_all add: exec_ops_ok_append)
  have "ms_retry (mem_after p ops) = p"
    using mem.run_policy [OF mem_inv_init ok(1)] by simp
  with mem.step_spec [OF mem_after_inv [OF ok(1)] ok(2) assms(2)] show ?thesis by simp
qed

theorem mem_store_refines_witness:
  "exec_spec default_retry_policy (mem_map (mem_after default_retry_policy demo_ops)) (OpGet ''a'')
     (fst (mem_step (mem_after default_retry_policy demo_ops) (OpGet ''a'')))
     (mem_map (snd (mem_step (mem_after default_retry_policy demo_ops) (OpGet ''a''))))"
  by (rule mem_store_refines) (simp_all add: demo_ops_def mem_eval)

text \<open>C2: Every operation of the SQLite store, in every state a run reaches and however the
  database orders ties, gives a result and a new job map that the abstract contract allows.\<close>

theorem sql_store_refines:
  assumes "policy_us p" and "sql_ops_ok tie p (ops @ [op])"
    and "sql_step tie (sql_after tie p ops) op = (r, s')"
  shows "exec_spec p (sql_map (sql_after tie p ops)) op r (sql_map s')"
proof -
  from assms(2) have ok: "sql_ops_ok tie p ops" "op_ok (sql_map (sql_after tie p ops)) op"
    by (simp_all add: exec_ops_ok_append)
  have "ss_retry (sql_after tie p ops) = p"
    using sql.run_policy [OF sql_inv_init [OF assms(1)] ok(1)] by simp
  with sql.step_spec [OF sql_after_inv [OF assms(1) ok(1)] ok(2) assms(3)] show ?thesis by simp
qed

theorem sql_store_refines_witness:
  "exec_spec default_retry_policy
     (sql_map (sql_after rowid_order default_retry_policy demo_ops)) (OpGet ''a'')
     (fst (sql_step rowid_order (sql_after rowid_order default_retry_policy demo_ops) (OpGet ''a'')))
     (sql_map (snd (sql_step rowid_order (sql_after rowid_order default_retry_policy demo_ops) (OpGet ''a''))))"
  by (rule sql_store_refines [OF policy_us_default]) (simp_all add: demo_ops_def sql_eval)

text \<open>C4: Once a job in the SQLite store has succeeded, been dead-lettered or been cancelled, no
  later operation changes it.\<close>

theorem sql_terminal_sticky:
  assumes "policy_us p" and "sql_ops_ok tie p (ops @ later)"
    and "sql_get (sql_after tie p ops) i = Inr (Some j)" and "job_is_terminal j"
  shows "sql_get (sql_after tie p (ops @ later)) i = Inr (Some j)"
proof -
  from assms(2) have ok: "sql_ops_ok tie p ops"
    "exec_ops_ok (sql_step tie) sql_map (sql_after tie p ops) later"
    by (simp_all add: exec_ops_ok_append)
  note inv = sql_after_inv [OF assms(1) ok(1)]
  from assms(3) have "sql_map (sql_after tie p ops) i = Some j" by (simp add: sql_get_map [OF inv])
  from sql.run_terminal [OF inv ok(2) this assms(4)]
  show ?thesis
    by (simp add: exec_run_append_state sql_get_map [OF sql.run_inv [OF inv ok(2)]])
qed

theorem sql_terminal_sticky_witness:
  "\<exists>j. job_is_terminal j \<and>
     sql_get (sql_after rowid_order default_retry_policy (demo_ops @ [OpFail ''a'' ''late'' 25])) ''a'' =
       Inr (Some j)"
proof -
  let ?p = default_retry_policy
  have "\<exists>j. sql_get (sql_after rowid_order ?p demo_ops) ''a'' = Inr (Some j) \<and> job_is_terminal j"
    by (simp add: demo_ops_def sql_eval)
  moreover have "sql_ops_ok rowid_order ?p (demo_ops @ [OpFail ''a'' ''late'' 25])"
    by (simp add: demo_ops_def sql_eval)
  ultimately show ?thesis using sql_terminal_sticky [OF policy_us_default] by blast
qed

text \<open>C5: In any run from an empty SQLite store, a job is handed to workers at most
  \<open>max_attempts\<close> times.\<close>

theorem sql_attempts_bounded:
  assumes "policy_us p" and "sql_ops_ok tie p ops"
  shows "times_handed_out ops
      (fst (exec_run (sql_step tie) (sql_open (Some p) 0 []) ops)) i \<le> nat (rp_max_attempts p)"
  using sql.run_budget [OF sql_inv_init [OF assms(1)] assms(2), of i]
  by (simp add: attempts_left_def)

theorem sql_attempts_bounded_witness:
  "times_handed_out demo_ops (fst (exec_run (sql_step rowid_order)
     (sql_open (Some default_retry_policy) 0 []) demo_ops)) ''a'' \<le> 3"
  using sql_attempts_bounded [OF policy_us_default, of rowid_order demo_ops "''a''"]
  by (simp add: demo_ops_def sql_eval)

text \<open>While a job's lease is valid at every clock the later operations read and nobody
  addresses the job itself, no claim hands it to another worker and recovery leaves it alone.\<close>

theorem sql_lease_excludes:
  assumes "policy_us p" and "sql_ops_ok tie p (ops @ later)"
    and "sql_get (sql_after tie p ops) i = Inr (Some j)"
    and "j_state j = RUNNING" and "j_lease_expiry j = Some e"
    and "\<forall>op \<in> set later. (case op_clock op of None \<Rightarrow> True | Some now \<Rightarrow> now < e) \<and> op_target op \<noteq> Some i"
  shows "sql_get (sql_after tie p (ops @ later)) i = Inr (Some j) \<and>
    times_handed_out later (fst (exec_run (sql_step tie) (sql_after tie p ops) later)) i = 0"
proof -
  from assms(2) have ok: "sql_ops_ok tie p ops"
    "exec_ops_ok (sql_step tie) sql_map (sql_after tie p ops) later"
    by (simp_all add: exec_ops_ok_append)
  note inv = sql_after_inv [OF assms(1) ok(1)]
  from assms(3) have "sql_map (sql_after tie p ops) i = Some j" by (simp add: sql_get_map [OF inv])
  from sql.run_leased [OF inv ok(2) this assms(4-6)]
  show ?thesis
    by (simp add: exec_run_append_state sql_get_map [OF sql.run_inv [OF inv ok(2)]])
qed

theorem sql_lease_excludes_witness:
  "times_handed_out [OpRecoverStale 15, OpClaimNext ''w2'' 20 30]
     (fst (exec_run (sql_step rowid_order)
       (sql_after rowid_order default_retry_policy (take 3 demo_ops))
       [OpRecoverStale 15, OpClaimNext ''w2'' 20 30])) ''a'' = 0"
proof -
  let ?p = default_retry_policy and ?later = "[OpRecoverStale 15, OpClaimNext ''w2'' 20 30]"
  have "\<exists>j. sql_get (sql_after rowid_order ?p (take 3 demo_ops)) ''a'' = Inr (Some j) \<and>
      j_state j = RUNNING \<and> j_lease_expiry j = Some 30000010"
    by (simp add: demo_ops_def sql_eval)
  then obtain j where j: "sql_get (sql_after rowid_order ?p (take 3 demo_ops)) ''a'' = Inr (Some j)"
    "j_state j = RUNNING" "j_lease_expiry j = Some 30000010" by blast
  have ok: "sql_ops_ok rowid_order ?p (take 3 demo_ops @ ?later)"
    by (simp add: demo_ops_def sql_eval)
  show ?thesis
    using sql_lease_excludes [OF policy_us_default ok j] by (simp add: op_clock_def op_target_def)
qed

text \<open>Enqueueing is idempotent: a second enqueue with the same key, whatever happened in
  between, adds nothing and returns the job the first one stored.\<close>

theorem sql_enqueue_idempotent:
  assumes "policy_us p" and "sql_ops_ok tie p (ops @ OpEnqueue x # later)"
    and "fst (sql_step tie (sql_after tie p ops) (OpEnqueue x)) = RJob (Inr j)"
    and "j_idempotency_key y = j_idempotency_key x" and "0 \<le> j_attempts y"
  shows "\<exists>j' s. sql_step tie (sql_after tie p (ops @ OpEnqueue x # later)) (OpEnqueue y) =
      (RJob (Inr j'), s) \<and> same_job j j' \<and>
      sql_map s = sql_map (sql_after tie p (ops @ OpEnqueue x # later))"
proof -
  obtain s1 where s1: "sql_step tie (sql_after tie p ops) (OpEnqueue x) = (RJob (Inr j), s1)"
    using assms(3) by (metis prod.collapse)
  from assms(2) s1 have ok: "sql_ops_ok tie p ops" "op_ok (sql_map (sql_after tie p ops)) (OpEnqueue x)"
    "exec_ops_ok (sql_step tie) sql_map s1 later"
    by (auto simp: exec_ops_ok_append simp del: sql_step.simps)
  from sql.enqueue_again [OF sql_after_inv [OF assms(1) ok(1)] ok(2) s1 ok(3) assms(4,5)] s1
  show ?thesis by (simp add: exec_run_append_state split_beta del: sql_step.simps)
qed

theorem sql_enqueue_idempotent_witness:
  "\<exists>j'. fst (sql_step rowid_order (sql_after rowid_order default_retry_policy demo_ops)
      (OpEnqueue (demo_job ''c'' ''ka'' 40))) = RJob (Inr j') \<and> j_id j' = ''a''"
proof -
  let ?x = "demo_job ''a'' ''ka'' 0" and ?p = default_retry_policy
  let ?later = "[OpEnqueue (demo_job ''b'' ''kb'' 5), OpClaimNext ''w'' 10 30, OpComplete ''a'' None 20]"
  have ok: "sql_ops_ok rowid_order ?p ([] @ OpEnqueue ?x # ?later)"
    by (simp add: sql_eval)
  have "fst (sql_step rowid_order (sql_after rowid_order ?p []) (OpEnqueue ?x)) = RJob (Inr ?x)"
    by (simp add: sql_eval)
  from sql_enqueue_idempotent [OF policy_us_default ok this, of "demo_job ''c'' ''ka'' 40"]
  obtain j' s where "sql_step rowid_order (sql_after rowid_order ?p demo_ops)
      (OpEnqueue (demo_job ''c'' ''ka'' 40)) = (RJob (Inr j'), s)" "same_job ?x j'"
    by (auto simp: demo_ops_def demo_job_def new_execution_job_def simp del: sql_step.simps)
  then show ?thesis
    by (auto simp: same_job_def demo_job_def new_execution_job_def simp del: sql_step.simps)
qed

text \<open>C6: No job is lost: a claim returns nothing exactly when every runnable job has spent its
  attempts.\<close>

theorem sql_claim_progress:
  assumes "policy_us p" and "sql_ops_ok tie p ops" and "whole_us lease"
  shows "fst (sql_claim_next tie (sql_after tie p ops) w now lease) = Inr None \<longleftrightarrow>
    (\<forall>i j. sql_map (sql_after tie p ops) i = Some j \<longrightarrow> spec_runnable now j \<longrightarrow> spec_exhausted p j)"
proof -
  obtain r s' where st: "sql_claim_next tie (sql_after tie p ops) w now lease = (r, s')" by fastforce
  then have step: "sql_step tie (sql_after tie p ops) (OpClaimNext w now lease) = (RJobOpt r, s')" by simp
  have "ss_retry (sql_after tie p ops) = p"
    using sql.run_policy [OF sql_inv_init [OF assms(1)] assms(2)] by simp
  with sql.claim_progress [OF sql_after_inv [OF assms(1,2)] assms(3) step] st show ?thesis by simp
qed

theorem sql_claim_progress_witness:
  "fst (sql_claim_next rowid_order (sql_after rowid_order default_retry_policy demo_ops) ''w'' 30 60) \<noteq> Inr None"
proof -
  have ok: "sql_ops_ok rowid_order default_retry_policy demo_ops" by (simp add: demo_ops_def sql_eval)
  have "\<exists>j. sql_map (sql_after rowid_order default_retry_policy demo_ops) ''b'' = Some j \<and>
      spec_runnable 30 j \<and> \<not> spec_exhausted default_retry_policy j"
    by (simp add: demo_ops_def sql_eval spec_runnable_def spec_exhausted_def)
  with sql_claim_progress [OF policy_us_default ok, of 60 "''w''" 30] show ?thesis by auto
qed

text \<open>The delay before a retry is never negative, never above the policy's cap and never
  shorter than the delay before it.\<close>

theorem backoff_bounded_monotone:
  assumes "retry_policy_post_init p = Inr q"
  shows "0 \<le> backoff_seconds q n \<and> backoff_seconds q n \<le> rp_max_seconds q \<and>
    backoff_seconds q n \<le> backoff_seconds q (n + 1)"
  using assms backoff_seconds_bounds [OF assms] backoff_seconds_mono [OF assms, of n "n + 1"]
  by (auto simp: retry_policy_post_init_ok)

theorem backoff_bounded_monotone_witness:
  "backoff_seconds default_retry_policy 2 = 1 \<and>
     backoff_seconds default_retry_policy 2 \<le> backoff_seconds default_retry_policy 3"
  using backoff_bounded_monotone [of default_retry_policy default_retry_policy 2]
  by (simp add: retry_policy_post_init_def default_retry_policy_def backoff_seconds_def)

text \<open>A job survives its row: what \<open>_row_to_job\<close> reads back from the row written for a job
  is that job.\<close>

theorem job_row_roundtrip: "row_to_job (to_row j) = Inr j"
  by (simp add: row_to_job_def to_row_def option.map_comp option.map_id)

end
