(* ===== verification/PyTime.thy ===== *)
theory PyTime
  imports PyJson
begin

text \<open>
  Instants as text. \<open>isoformat\<close> renders a UTC datetime the way Python's
  \<open>datetime.isoformat\<close> does (fraction of a second only when it is not zero), and \<open>iso_z\<close> is
  the source's \<open>isoformat().replace("+00:00", "Z")\<close>. The calendar is the proleptic Gregorian
  one, computed from the day number in eras of 400 years.
\<close>

definition zero_pad :: "nat \<Rightarrow> nat \<Rightarrow> string" where
  "zero_pad w n = (let s = string_of_nat n in replicate (w - length s) (CHR ''0'') @ s)"

text \<open>
  CPython's \<open>_ord2ymd\<close> and \<open>_ymd2ord\<close>: day 1 is 0001-01-01, and 1970-01-01 is day 719163.
\<close>

definition days_before_month :: "int \<Rightarrow> int" where
  "days_before_month m = [0, 31, 59, 90, 120, 151, 181, 212, 243, 273, 304, 334] ! nat (m - 1)"

definition days_in_month :: "int \<Rightarrow> int" where
  "days_in_month m = [31, 28, 31, 30, 31, 30, 31, 31, 30, 31, 30, 31] ! nat (m - 1)"

definition is_leap :: "int \<Rightarrow> bool" where
  "is_leap y = (y mod 4 = 0 \<and> (y mod 100 \<noteq> 0 \<or> y mod 400 = 0))"

definition ord2md :: "bool \<Rightarrow> int \<Rightarrow> int \<times> int" where
  "ord2md leap n =
     (let month = (n + 50) div 32;
          preceding = days_before_month month + (if 2 < month \<and> leap then 1 else 0)
      in if n < preceding
         then let month = month - 1;
                  preceding = preceding - (days_in_month month + (if month = 2 \<and> leap then 1 else 0))
              in (month, n - preceding + 1)
         else (month, n - preceding + 1))"

definition ord2ymd :: "int \<Rightarrow> int \<times> int \<times> int" where
  "ord2ymd ordinal =
     (let n = ordinal - 1;
          n400 = n div 146097; n = n mod 146097;
          n100 = n div 36524; n = n mod 36524;
          n4 = n div 1461; n = n mod 1461;
          n1 = n div 365; n = n mod 365;
          year = n400 * 400 + 1 + n100 * 100 + n4 * 4 + n1
      in if n1 = 4 \<or> n100 = 4 then (year - 1, 12, 31)
         else (year, ord2md (n1 = 3 \<and> (n4 \<noteq> 24 \<or> n100 = 3)) n))"

definition ymd2ord :: "int \<times> int \<times> int \<Rightarrow> int" where
  "ymd2ord ymd =
     (case ymd of (y, m, d) \<Rightarrow>
       (y - 1) * 365 + (y - 1) div 4 - (y - 1) div 100 + (y - 1) div 400 +
       days_before_month m + (if 2 < m \<and> is_leap y then 1 else 0) + d)"

definition valid_date :: "int \<Rightarrow> int \<Rightarrow> int \<Rightarrow> bool" where
  "valid_date y m d =
     (1 \<le> y \<and> 1 \<le> m \<and> m \<le> 12 \<and> 1 \<le> d \<and>
      d \<le> days_in_month m + (if m = 2 \<and> is_leap y then 1 else 0))"

text \<open>Year, month and day of a day counted from 1970-01-01.\<close>

definition civil_of_days :: "int \<Rightarrow> int \<times> int \<times> int" where
  "civil_of_days days = ord2ymd (days + 719163)"

definition us_per_day :: int where
  "us_per_day = 86400000000"

definition isoformat :: "datetime \<Rightarrow> string" where
  "isoformat t =
     (let (y, m, d) = civil_of_days (t div us_per_day);
          us = t mod us_per_day;
          secs = us div 1000000;
          frac = us mod 1000000
      in zero_pad 4 (nat y) @ ''-'' @ zero_pad 2 (nat m) @ ''-'' @ zero_pad 2 (nat d) @ ''T'' @
         zero_pad 2 (nat (secs div 3600)) @ '':'' @ zero_pad 2 (nat (secs div 60 mod 60)) @ '':'' @
         zero_pad 2 (nat (secs mod 60)) @
         (if frac = 0 then [] else ''.'' @ zero_pad 6 (nat frac)) @ ''+00:00'')"

text \<open>\<open>s.replace("+00:00", "Z")\<close>.\<close>

fun replace_offset :: "string \<Rightarrow> string" where
  "replace_offset [] = []"
| "replace_offset (c # cs) =
     (if take 6 (c # cs) = ''+00:00'' then ''Z'' @ replace_offset (drop 6 (c # cs))
      else c # replace_offset cs)"

definition iso_z :: "datetime \<Rightarrow> string" where
  "iso_z t = replace_offset (isoformat t)"

definition opt_time :: "datetime option \<Rightarrow> json" where
  "opt_time t = (case t of None \<Rightarrow> JNull | Some x \<Rightarrow> JStr (iso_z x))"

section \<open>The calendar is one to one\<close>

lemma month_cases:
  fixes m :: int
  assumes "1 \<le> m" and "m \<le> 12"
  shows "m = 1 \<or> m = 2 \<or> m = 3 \<or> m = 4 \<or> m = 5 \<or> m = 6 \<or> m = 7 \<or> m = 8 \<or> m = 9 \<or>
    m = 10 \<or> m = 11 \<or> m = 12"
  using assms by presburger

lemma days_before_month_simps [simp]:
  "days_before_month 1 = 0" "days_before_month 2 = 31" "days_before_month 3 = 59"
  "days_before_month 4 = 90" "days_before_month 5 = 120" "days_before_month 6 = 151"
  "days_before_month 7 = 181" "days_before_month 8 = 212" "days_before_month 9 = 243"
  "days_before_month 10 = 273" "days_before_month 11 = 304" "days_before_month 12 = 334"
  by (simp_all add: days_before_month_def)

lemma days_in_month_simps [simp]:
  "days_in_month 1 = 31" "days_in_month 2 = 28" "days_in_month 3 = 31" "days_in_month 4 = 30"
  "days_in_month 5 = 31" "days_in_month 6 = 30" "days_in_month 7 = 31" "days_in_month 8 = 31"
  "days_in_month 9 = 30" "days_in_month 10 = 31" "days_in_month 11 = 30" "days_in_month 12 = 31"
  by (simp_all add: days_in_month_def)

text \<open>The day of the year comes back from month and day.\<close>

lemma month_back:
  assumes "2 \<le> k" and "k \<le> 12"
  shows "days_before_month k + (if 2 < k \<and> leap then 1 else 0) -
      (days_in_month (k - 1) + (if k - 1 = 2 \<and> leap then 1 else 0)) =
    days_before_month (k - 1) + (if 2 < k - 1 \<and> leap then 1 else 0)"
proof -
  have "1 \<le> k" using assms by simp
  from month_cases [OF this assms(2)] assms(1) show ?thesis by (elim disjE) simp_all
qed

lemma ord2md_inverse:
  assumes "0 \<le> n" and "n < 365" and "ord2md leap n = (m, d)"
  shows "days_before_month m + (if 2 < m \<and> leap then 1 else 0) + d = n + 1"
proof -
  define k where "k = (n + 50) div 32"
  define pre where "pre = days_before_month k + (if 2 < k \<and> leap then 1 else 0)"
  have bounds: "32 * k \<le> n + 50" "n + 50 < 32 * k + 32" unfolding k_def by linarith+
  have k: "1 \<le> k" "k \<le> 12" using bounds assms(1,2) by linarith+
  have md: "(m, d) = (if n < pre
      then (k - 1, n - (pre - (days_in_month (k - 1) + (if k - 1 = 2 \<and> leap then 1 else 0))) + 1)
      else (k, n - pre + 1))"
    unfolding assms(3) [symmetric] ord2md_def Let_def k_def pre_def by (rule refl)
  show ?thesis
  proof (cases "n < pre")
    case True
    then have "k \<noteq> 1" using assms(1) by (auto simp: pre_def)
    then have "2 \<le> k" using k(1) by simp
    from month_back [OF this k(2), of leap] md True show ?thesis by (simp add: pre_def)
  next
    case False
    with md show ?thesis by (simp add: pre_def)
  qed
qed

lemma year_parts:
  fixes a b c e :: int
  assumes "0 \<le> b" "b \<le> 3" "0 \<le> c" "c \<le> 24" "0 \<le> e" "e \<le> 3"
  shows "(400 * a + 100 * b + 4 * c + e) div 4 = 100 * a + 25 * b + c"
    "(400 * a + 100 * b + 4 * c + e) div 100 = 4 * a + b"
    "(400 * a + 100 * b + 4 * c + e) div 400 = a"
    "is_leap (400 * a + 100 * b + 4 * c + e + 1) \<longleftrightarrow> e = 3 \<and> (c \<noteq> 24 \<or> b = 3)"
proof -
  show "(400 * a + 100 * b + 4 * c + e) div 4 = 100 * a + 25 * b + c" using assms by linarith
  show "(400 * a + 100 * b + 4 * c + e) div 100 = 4 * a + b" using assms by linarith
  show "(400 * a + 100 * b + 4 * c + e) div 400 = a" using assms by linarith
  let ?y = "400 * a + 100 * b + 4 * c + e + 1"
  have "?y = (e + 1) + (100 * a + 25 * b + c) * 4" by simp
  then have m4: "?y mod 4 = (e + 1) mod 4" by (simp only: mod_mult_self1)
  have "?y = (4 * c + e + 1) + (4 * a + b) * 100" by simp
  then have m100: "?y mod 100 = (4 * c + e + 1) mod 100" by (simp only: mod_mult_self1)
  have "?y = (100 * b + 4 * c + e + 1) + a * 400" by simp
  then have m400: "?y mod 400 = (100 * b + 4 * c + e + 1) mod 400" by (simp only: mod_mult_self1)
  have 4: "(e + 1) mod 4 = 0 \<longleftrightarrow> e = 3" using assms by presburger
  have top: "v mod k = 0 \<longleftrightarrow> v = k" if "1 \<le> v" "v \<le> k" for v k :: int
    using that by (cases "v = k") (auto simp: mod_pos_pos_trivial)
  have 100: "(4 * c + e + 1) mod 100 = 0 \<longleftrightarrow> c = 24 \<and> e = 3"
    using assms by (subst top) linarith+
  have 400: "(100 * b + 4 * c + e + 1) mod 400 = 0 \<longleftrightarrow> b = 3 \<and> c = 24 \<and> e = 3"
    using assms by (subst top) linarith+
  show "is_leap (400 * a + 100 * b + 4 * c + e + 1) \<longleftrightarrow> e = 3 \<and> (c \<noteq> 24 \<or> b = 3)"
    unfolding is_leap_def m4 m100 m400 4 100 400 by blast
qed

lemma ymd2ord_parts:
  fixes a b c e :: int
  assumes "0 \<le> b" "b \<le> 3" "0 \<le> c" "c \<le> 24" "0 \<le> e" "e \<le> 3"
  shows "ymd2ord (400 * a + 100 * b + 4 * c + e + 1, m, d) =
    (400 * a + 100 * b + 4 * c + e) * 365 + (100 * a + 25 * b + c) - (4 * a + b) + a +
    (days_before_month m + (if 2 < m \<and> (e = 3 \<and> (c \<noteq> 24 \<or> b = 3)) then 1 else 0) + d)"
  using year_parts [OF assms, of a] by (simp add: ymd2ord_def)

lemma ymd2ord_ord2ymd: "ymd2ord (ord2ymd ordinal) = ordinal"
proof -
  define a r1 where "a = (ordinal - 1) div 146097" and "r1 = (ordinal - 1) mod 146097"
  define b r2 where "b = r1 div 36524" and "r2 = r1 mod 36524"
  define c r3 where "c = r2 div 1461" and "r3 = r2 mod 1461"
  define e n where "e = r3 div 365" and "n = r3 mod 365"
  have r1: "0 \<le> r1" "r1 < 146097" and o: "ordinal - 1 = 146097 * a + r1"
    by (simp_all add: a_def r1_def)
  have r2: "0 \<le> r2" "r2 < 36524" and o2: "r1 = 36524 * b + r2" by (simp_all add: b_def r2_def)
  have r3: "0 \<le> r3" "r3 < 1461" and o3: "r2 = 1461 * c + r3" by (simp_all add: c_def r3_def)
  have n: "0 \<le> n" "n < 365" and o4: "r3 = 365 * e + n" by (simp_all add: e_def n_def)
  have b: "0 \<le> b" "b \<le> 4" using r1 r2 o2 by linarith+
  have c: "0 \<le> c" "c \<le> 24" using r2 r3 o3 by linarith+
  have e: "0 \<le> e" "e \<le> 4" using r3 n o4 by linarith+
  let ?leap = "e = 3 \<and> (c \<noteq> 24 \<or> b = 3)"
  have ord: "ord2ymd ordinal = (let year = a * 400 + 1 + b * 100 + c * 4 + e in
      if e = 4 \<or> b = 4 then (year - 1, 12, 31) else (year, ord2md ?leap n))"
    unfolding ord2ymd_def Let_def a_def r1_def b_def r2_def c_def r3_def e_def n_def by (rule refl)
  show ?thesis
  proof (cases "e = 4 \<or> b = 4")
    case False
    with b e have lim: "b \<le> 3" "e \<le> 3" by linarith+
    obtain m d where md: "ord2md ?leap n = (m, d)" by fastforce
    have "a * 400 + 1 + b * 100 + c * 4 + e = 400 * a + 100 * b + 4 * c + e + 1" by simp
    then have "ord2ymd ordinal = (400 * a + 100 * b + 4 * c + e + 1, m, d)"
      unfolding ord md Let_def using False by presburger
    then have "ymd2ord (ord2ymd ordinal) =
        (400 * a + 100 * b + 4 * c + e) * 365 + (100 * a + 25 * b + c) - (4 * a + b) + a +
        (days_before_month m + (if 2 < m \<and> ?leap then 1 else 0) + d)"
      by (simp only: ymd2ord_parts [OF b(1) lim(1) c e(1) lim(2)])
    also have "\<dots> = ordinal"
      unfolding ord2md_inverse [OF n md] using o o2 o3 o4 by simp
    finally show ?thesis .
  next
    case True
    show ?thesis
    proof (cases "b = 4")
      case True
      with r1 r2 o2 have z: "r2 = 0" "c = 0" "r3 = 0" "e = 0" "n = 0"
        by (auto simp: c_def r3_def e_def n_def)
      have "ord2ymd ordinal = (400 * a + 100 * 3 + 4 * 24 + 3 + 1, 12, 31)"
        using True z by (simp add: ord Let_def)
      with ymd2ord_parts [of 3 24 3 a 12 31] o o2 True z show ?thesis by simp
    next
      case False
      with \<open>e = 4 \<or> b = 4\<close> have e4: "e = 4" by simp
      with r3 o4 n have z: "n = 0" by linarith
      from False b have b3: "b \<le> 3" by linarith
      have "b = 3 \<or> c \<noteq> 24"
      proof (rule ccontr)
        assume "\<not> ?thesis"
        then have "c = 24" by simp
        with o3 o4 e4 z r2 show False by simp
      qed
      moreover have "ord2ymd ordinal = (400 * a + 100 * b + 4 * c + 3 + 1, 12, 31)"
        using e4 by (simp add: ord Let_def)
      ultimately show ?thesis
        using ymd2ord_parts [OF b(1) b3 c, of 3 a 12 31] o o2 o3 o4 e4 z by auto
    qed
  qed
qed

lemma civil_of_days_inject [simp]: "civil_of_days a = civil_of_days b \<longleftrightarrow> a = b"
  unfolding civil_of_days_def by (metis ymd2ord_ord2ymd add_right_cancel)

lemma iso_z_examples:
  "iso_z 0 = ''1970-01-01T00:00:00Z''" "iso_z 1709210096000250 = ''2024-02-29T12:34:56.000250Z''"
  by code_simp+

end
