(* ===== verification/GovModels.thy ===== *)
theory GovModels
  imports PyTime
begin

text \<open>
  Agent governance: autonomy levels, proposal statuses and the proposal record
  (\<open>backend/agents/governance/models.py\<close>). Status constructors carry the prefix \<open>P_\<close>, the
  record's fields the prefix \<open>p_\<close>.
\<close>

datatype autonomy_level = OBSERVE | ASSIST | PROPOSE | ACT_AFTER_APPROVAL

fun autonomy_value :: "autonomy_level \<Rightarrow> string" where
  "autonomy_value OBSERVE = ''observe''"
| "autonomy_value ASSIST = ''assist''"
| "autonomy_value PROPOSE = ''propose''"
| "autonomy_value ACT_AFTER_APPROVAL = ''act_after_approval''"

text \<open>\<open>AutonomyLevel(v)\<close>; \<open>None\<close> is the \<open>ValueError\<close>.\<close>

definition autonomy_of_value :: "string \<Rightarrow> autonomy_level option" where
  "autonomy_of_value v =
     (if v = ''observe'' then Some OBSERVE
      else if v = ''assist'' then Some ASSIST
      else if v = ''propose'' then Some PROPOSE
      else if v = ''act_after_approval'' then Some ACT_AFTER_APPROVAL
      else None)"

definition is_read_only :: "autonomy_level \<Rightarrow> bool" where
  "is_read_only a = (a = OBSERVE \<or> a = ASSIST)"

definition applies_on_approval :: "autonomy_level \<Rightarrow> bool" where
  "applies_on_approval a = (a = ACT_AFTER_APPROVAL)"

definition DEFAULT_AUTONOMY :: autonomy_level where
  "DEFAULT_AUTONOMY = ACT_AFTER_APPROVAL"

definition coerce_autonomy :: "string option \<Rightarrow> autonomy_level" where
  "coerce_autonomy v =
     (if \<not> str_truthy v then DEFAULT_AUTONOMY
      else case autonomy_of_value (the v) of None \<Rightarrow> DEFAULT_AUTONOMY | Some a \<Rightarrow> a)"

datatype proposal_status = P_PENDING | P_APPROVED | P_REJECTED | P_APPLIED | P_APPLY_FAILED

fun proposal_status_value :: "proposal_status \<Rightarrow> string" where
  "proposal_status_value P_PENDING = ''pending''"
| "proposal_status_value P_APPROVED = ''approved''"
| "proposal_status_value P_REJECTED = ''rejected''"
| "proposal_status_value P_APPLIED = ''applied''"
| "proposal_status_value P_APPLY_FAILED = ''apply_failed''"

definition proposal_status_of_value :: "string \<Rightarrow> proposal_status option" where
  "proposal_status_of_value v =
     (if v = ''pending'' then Some P_PENDING
      else if v = ''approved'' then Some P_APPROVED
      else if v = ''rejected'' then Some P_REJECTED
      else if v = ''applied'' then Some P_APPLIED
      else if v = ''apply_failed'' then Some P_APPLY_FAILED
      else None)"

definition is_decided :: "proposal_status \<Rightarrow> bool" where
  "is_decided st = (st \<noteq> P_PENDING)"

lemma autonomy_of_value_inverse [simp]: "autonomy_of_value (autonomy_value a) = Some a"
  by (cases a) (simp_all add: autonomy_of_value_def)

lemma proposal_status_of_value_inverse [simp]:
  "proposal_status_of_value (proposal_status_value st) = Some st"
  by (cases st) (simp_all add: proposal_status_of_value_def)

lemma proposal_status_value_inject [simp]:
  "proposal_status_value a = proposal_status_value b \<longleftrightarrow> a = b"
  by (metis proposal_status_of_value_inverse option.inject)

lemma proposal_status_value_pending [simp]:
  "proposal_status_value st = ''pending'' \<longleftrightarrow> st = P_PENDING"
  by (cases st) simp_all

record proposal =
  p_agent_id :: string
  p_tool :: string
  p_input_args :: json_obj
  p_autonomy_level :: autonomy_level
  p_agent_name :: "string option"
  p_id :: string
  p_status :: proposal_status
  p_run_id :: "string option"
  p_correlation_id :: "string option"
  p_decided_by :: "string option"
  p_apply_result :: "json_obj option"
  p_apply_error :: "string option"
  p_created_at :: datetime
  p_updated_at :: datetime
  p_decided_at :: "datetime option"

text \<open>
  The constructor with its defaults. The fresh id (\<open>prop-\<close> and a UUID) and the clock are
  arguments.
\<close>

definition new_proposal ::
    "string \<Rightarrow> datetime \<Rightarrow> string \<Rightarrow> string \<Rightarrow> json_obj \<Rightarrow> autonomy_level \<Rightarrow> string option \<Rightarrow>
     string option \<Rightarrow> string option \<Rightarrow> proposal" where
  "new_proposal fresh_id clock agent_id tool args level agent_name run_id correlation_id =
     \<lparr>p_agent_id = agent_id, p_tool = tool, p_input_args = args, p_autonomy_level = level,
      p_agent_name = agent_name, p_id = fresh_id, p_status = P_PENDING, p_run_id = run_id,
      p_correlation_id = correlation_id, p_decided_by = None, p_apply_result = None,
      p_apply_error = None, p_created_at = clock, p_updated_at = clock, p_decided_at = None\<rparr>"

definition proposal_to_dict :: "proposal \<Rightarrow> json_obj" where
  "proposal_to_dict p =
     [(''id'', JStr (p_id p)),
      (''agent_id'', JStr (p_agent_id p)),
      (''agent_name'', opt_str (p_agent_name p)),
      (''tool'', JStr (p_tool p)),
      (''input_args'', JObj (p_input_args p)),
      (''autonomy_level'', JStr (autonomy_value (p_autonomy_level p))),
      (''status'', JStr (proposal_status_value (p_status p))),
      (''run_id'', opt_str (p_run_id p)),
      (''correlation_id'', opt_str (p_correlation_id p)),
      (''decided_by'', opt_str (p_decided_by p)),
      (''apply_result'', opt_obj (p_apply_result p)),
      (''apply_error'', opt_str (p_apply_error p)),
      (''created_at'', JStr (iso_z (p_created_at p))),
      (''updated_at'', JStr (iso_z (p_updated_at p))),
      (''decided_at'', opt_time (p_decided_at p))]"

end
