(* ===== verification/GovStore.thy ===== *)
theory GovStore
  imports GovModels PySqlite
begin

text \<open>
  The proposal store (\<open>backend/agents/governance/store.py\<close>): its protocol as a record of
  operations, the contract \<open>proposal_store\<close> as a locale, and both adapters,
  \<open>InMemoryProposalStore\<close> and \<open>SqliteProposalStore\<close>, with the contract discharged for each.
\<close>

section \<open>The protocol\<close>

datatype gov_error = GovValueError string | GovIntegrityError string | GovAttributeError

text \<open>
  One field per method. A method raises (\<open>Inl\<close>) or returns; \<open>None\<close> is Python's \<open>None\<close>.
  \<open>decide\<close> takes the resolved clock (\<open>decided_at or utcnow()\<close>).
\<close>

record 's proposal_ops =
  po_create :: "'s \<Rightarrow> proposal \<Rightarrow> (gov_error + proposal option) \<times> 's"
  po_get :: "'s \<Rightarrow> string \<Rightarrow> gov_error + proposal option"
  po_save :: "'s \<Rightarrow> proposal \<Rightarrow> (gov_error + proposal option) \<times> 's"
  po_decide :: "'s \<Rightarrow> string \<Rightarrow> proposal_status \<Rightarrow> string option \<Rightarrow> datetime \<Rightarrow>
     (gov_error + proposal option) \<times> 's"
  po_list :: "'s \<Rightarrow> string option \<Rightarrow> proposal_status list option \<Rightarrow> int option \<Rightarrow>
     gov_error + proposal list"

section \<open>In memory\<close>

type_synonym mem_proposals = "(string, proposal) dict"

definition mem_pcreate :: "mem_proposals \<Rightarrow> proposal \<Rightarrow> (gov_error + proposal option) \<times> mem_proposals"
where
  "mem_pcreate items p = (Inr (Some p), dict_set items (p_id p) p)"

definition mem_pget :: "mem_proposals \<Rightarrow> string \<Rightarrow> gov_error + proposal option" where
  "mem_pget items proposal_id = Inr (map_of items proposal_id)"

definition mem_psave :: "mem_proposals \<Rightarrow> proposal \<Rightarrow> (gov_error + proposal option) \<times> mem_proposals"
where
  "mem_psave items p = (Inr (Some p), dict_set items (p_id p) p)"

definition mem_pdecide ::
    "mem_proposals \<Rightarrow> string \<Rightarrow> proposal_status \<Rightarrow> string option \<Rightarrow> datetime \<Rightarrow>
     (gov_error + proposal option) \<times> mem_proposals" where
  "mem_pdecide items proposal_id to_status decided_by when =
     (case map_of items proposal_id of
        None \<Rightarrow> (Inr None, items)
      | Some item \<Rightarrow>
          if p_status item \<noteq> P_PENDING then (Inr None, items)
          else let item = item\<lparr>p_status := to_status, p_decided_by := decided_by,
                               p_decided_at := Some when, p_updated_at := when\<rparr>
               in (Inr (Some item), dict_set items proposal_id item))"

definition mem_plist ::
    "mem_proposals \<Rightarrow> string option \<Rightarrow> proposal_status list option \<Rightarrow> int option \<Rightarrow>
     gov_error + proposal list" where
  "mem_plist items agent_id statuses limit =
     (let status_set = (case statuses of None \<Rightarrow> None
                        | Some ss \<Rightarrow> if ss = [] then None else Some (set ss));
          found = filter (\<lambda>p.
              (case agent_id of None \<Rightarrow> True | Some a \<Rightarrow> p_agent_id p = a) \<and>
              (case status_set of None \<Rightarrow> True | Some ss \<Rightarrow> p_status p \<in> ss)) (dict_values items);
          found = sort_key (\<lambda>p. - p_created_at p) found
      in Inr (case limit of None \<Rightarrow> found | Some n \<Rightarrow> py_take n found))"

definition mem_proposal_ops :: "mem_proposals proposal_ops" where
  "mem_proposal_ops =
     \<lparr>po_create = mem_pcreate, po_get = mem_pget, po_save = mem_psave,
      po_decide = mem_pdecide, po_list = mem_plist\<rparr>"

section \<open>SQLite\<close>

record proposal_row =
  pr_id :: string
  pr_agent_id :: string
  pr_agent_name :: "string option"
  pr_tool :: string
  pr_input_args :: json_obj
  pr_autonomy_level :: string
  pr_status :: string
  pr_run_id :: "string option"
  pr_correlation_id :: "string option"
  pr_decided_by :: "string option"
  pr_apply_result :: "json_obj option"
  pr_apply_error :: "string option"
  pr_created_at :: rat
  pr_updated_at :: rat
  pr_decided_at :: "rat option"

record proposal_db =
  pdb_user_version :: int
  pdb_rows :: "proposal_row list"

definition P_SCHEMA_VERSION :: int where
  "P_SCHEMA_VERSION = 1"

definition sql_pmigrate :: "proposal_db \<Rightarrow> proposal_db" where
  "sql_pmigrate s =
     (if pdb_user_version s < P_SCHEMA_VERSION then s\<lparr>pdb_user_version := P_SCHEMA_VERSION\<rparr> else s)"

definition sql_popen :: "int \<Rightarrow> proposal_row list \<Rightarrow> proposal_db" where
  "sql_popen version rows = sql_pmigrate \<lparr>pdb_user_version = version, pdb_rows = rows\<rparr>"

definition p_to_row :: "proposal \<Rightarrow> proposal_row" where
  "p_to_row p =
     \<lparr>pr_id = p_id p, pr_agent_id = p_agent_id p, pr_agent_name = p_agent_name p,
      pr_tool = p_tool p, pr_input_args = p_input_args p,
      pr_autonomy_level = autonomy_value (p_autonomy_level p),
      pr_status = proposal_status_value (p_status p), pr_run_id = p_run_id p,
      pr_correlation_id = p_correlation_id p, pr_decided_by = p_decided_by p,
      pr_apply_result = p_apply_result p, pr_apply_error = p_apply_error p,
      pr_created_at = to_epoch (p_created_at p), pr_updated_at = to_epoch (p_updated_at p),
      pr_decided_at = map_option to_epoch (p_decided_at p)\<rparr>"

definition row_to_proposal :: "proposal_row \<Rightarrow> gov_error + proposal" where
  "row_to_proposal row =
     (case autonomy_of_value (pr_autonomy_level row) of
        None \<Rightarrow> Inl (GovValueError (pr_autonomy_level row))
      | Some level \<Rightarrow>
     (case proposal_status_of_value (pr_status row) of
        None \<Rightarrow> Inl (GovValueError (pr_status row))
      | Some status \<Rightarrow>
        Inr \<lparr>p_agent_id = pr_agent_id row, p_tool = pr_tool row,
             p_input_args = pr_input_args row, p_autonomy_level = level,
             p_agent_name = pr_agent_name row, p_id = pr_id row, p_status = status,
             p_run_id = pr_run_id row, p_correlation_id = pr_correlation_id row,
             p_decided_by = pr_decided_by row, p_apply_result = pr_apply_result row,
             p_apply_error = pr_apply_error row, p_created_at = from_epoch (pr_created_at row),
             p_updated_at = from_epoch (pr_updated_at row),
             p_decided_at = map_option from_epoch (pr_decided_at row)\<rparr>))"

definition sql_pget_locked :: "proposal_row list \<Rightarrow> string \<Rightarrow> gov_error + proposal option" where
  "sql_pget_locked rows proposal_id =
     (case find (\<lambda>r. pr_id r = proposal_id) rows of
        None \<Rightarrow> Inr None
      | Some row \<Rightarrow> py_bind (row_to_proposal row) (\<lambda>p. Inr (Some p)))"

definition sql_pget :: "proposal_db \<Rightarrow> string \<Rightarrow> gov_error + proposal option" where
  "sql_pget s proposal_id = sql_pget_locked (pdb_rows s) proposal_id"

definition sql_pcreate :: "proposal_db \<Rightarrow> proposal \<Rightarrow> (gov_error + proposal option) \<times> proposal_db"
where
  "sql_pcreate s p =
     (if \<exists>r \<in> set (pdb_rows s). pr_id r = p_id p then (Inl (GovIntegrityError (p_id p)), s)
      else let rows = pdb_rows s @ [p_to_row p]
           in (sql_pget_locked rows (p_id p), s\<lparr>pdb_rows := rows\<rparr>))"

definition sql_psave :: "proposal_db \<Rightarrow> proposal \<Rightarrow> (gov_error + proposal option) \<times> proposal_db"
where
  "sql_psave s p =
     (let rows = map (\<lambda>r. if pr_id r = p_id p
             then r\<lparr>pr_agent_name := p_agent_name p, pr_tool := p_tool p,
                    pr_input_args := p_input_args p,
                    pr_autonomy_level := autonomy_value (p_autonomy_level p),
                    pr_status := proposal_status_value (p_status p), pr_run_id := p_run_id p,
                    pr_correlation_id := p_correlation_id p, pr_decided_by := p_decided_by p,
                    pr_apply_result := p_apply_result p, pr_apply_error := p_apply_error p,
                    pr_updated_at := to_epoch (p_updated_at p),
                    pr_decided_at := map_option to_epoch (p_decided_at p)\<rparr>
             else r) (pdb_rows s)
      in (sql_pget_locked rows (p_id p), s\<lparr>pdb_rows := rows\<rparr>))"

definition sql_pdecide ::
    "proposal_db \<Rightarrow> string \<Rightarrow> proposal_status \<Rightarrow> string option \<Rightarrow> datetime \<Rightarrow>
     (gov_error + proposal option) \<times> proposal_db" where
  "sql_pdecide s proposal_id to_status decided_by decided_at =
     (let when = to_epoch decided_at;
          P = (\<lambda>r. pr_id r = proposal_id \<and> pr_status r = proposal_status_value P_PENDING);
          rows = map (\<lambda>r. if P r
             then r\<lparr>pr_status := proposal_status_value to_status, pr_decided_by := decided_by,
                    pr_decided_at := Some when, pr_updated_at := when\<rparr>
             else r) (pdb_rows s);
          rowcount = length (filter P (pdb_rows s))
      in if rowcount \<noteq> 1 then (Inr None, s\<lparr>pdb_rows := rows\<rparr>)
         else (sql_pget_locked rows proposal_id, s\<lparr>pdb_rows := rows\<rparr>))"

fun rows_to_proposals :: "proposal_row list \<Rightarrow> gov_error + proposal list" where
  "rows_to_proposals [] = Inr []"
| "rows_to_proposals (row # rows) =
     py_bind (row_to_proposal row) (\<lambda>p. py_bind (rows_to_proposals rows) (\<lambda>ps. Inr (p # ps)))"

text \<open>\<open>ORDER BY created_at DESC\<close> leaves the order of equal rows open: \<open>tie\<close> is that order.\<close>

definition sql_plist ::
    "(proposal_row list \<Rightarrow> proposal_row \<Rightarrow> nat) \<Rightarrow> proposal_db \<Rightarrow> string option \<Rightarrow>
     proposal_status list option \<Rightarrow> int option \<Rightarrow> gov_error + proposal list" where
  "sql_plist tie s agent_id statuses limit =
     (let matches = (\<lambda>r.
            (case agent_id of None \<Rightarrow> True | Some a \<Rightarrow> pr_agent_id r = a) \<and>
            (case statuses of None \<Rightarrow> True
             | Some ss \<Rightarrow> ss = [] \<or> pr_status r \<in> set (map proposal_status_value ss)))
      in rows_to_proposals (sql_limit limit
           (sort_key (\<lambda>r. (- pr_created_at r, tie (pdb_rows s) r)) (filter matches (pdb_rows s)))))"

definition sql_proposal_ops ::
    "(proposal_row list \<Rightarrow> proposal_row \<Rightarrow> nat) \<Rightarrow> proposal_db proposal_ops" where
  "sql_proposal_ops tie =
     \<lparr>po_create = sql_pcreate, po_get = sql_pget, po_save = sql_psave,
      po_decide = sql_pdecide, po_list = sql_plist tie\<rparr>"

section \<open>The contract\<close>

type_synonym proposal_map = "string \<Rightarrow> proposal option"

text \<open>The pending proposal of an id, and the decision recorded on it.\<close>

definition pending_proposal :: "proposal_map \<Rightarrow> string \<Rightarrow> proposal option" where
  "pending_proposal m i =
     (case m i of None \<Rightarrow> None | Some p \<Rightarrow> if p_status p = P_PENDING then Some p else None)"

definition decided_proposal ::
    "proposal_status \<Rightarrow> string option \<Rightarrow> datetime \<Rightarrow> proposal \<Rightarrow> proposal" where
  "decided_proposal st by_whom when p =
     p\<lparr>p_status := st, p_decided_by := by_whom, p_decided_at := Some when, p_updated_at := when\<rparr>"

definition proposal_matches :: "string option \<Rightarrow> proposal_status list option \<Rightarrow> proposal \<Rightarrow> bool" where
  "proposal_matches agent statuses p =
     ((case agent of None \<Rightarrow> True | Some a \<Rightarrow> p_agent_id p = a) \<and>
      (case statuses of None \<Rightarrow> True | Some ss \<Rightarrow> ss = [] \<or> p_status p \<in> set ss))"

lemma decided_proposal_simps [simp]:
  "p_id (decided_proposal st w t p) = p_id p" "p_status (decided_proposal st w t p) = st"
  "p_created_at (decided_proposal st w t p) = p_created_at p"
  "p_agent_id (decided_proposal st w t p) = p_agent_id p"
  "p_tool (decided_proposal st w t p) = p_tool p"
  "p_input_args (decided_proposal st w t p) = p_input_args p"
  "p_autonomy_level (decided_proposal st w t p) = p_autonomy_level p"
  by (simp_all add: decided_proposal_def)

lemma pending_proposal_Some [simp]:
  "pending_proposal m i = Some p \<longleftrightarrow> m i = Some p \<and> p_status p = P_PENDING"
  by (auto simp: pending_proposal_def split: option.splits)

locale proposal_store =
  fixes ops :: "'s proposal_ops"
    and proposals :: "'s \<Rightarrow> proposal_map"
    and inv :: "'s \<Rightarrow> bool"
  assumes ids: "inv s \<Longrightarrow> proposals s i = Some p \<Longrightarrow> p_id p = i"
    and create_ok: "inv s \<Longrightarrow> proposals s (p_id p) = None \<Longrightarrow> po_create ops s p = (r, s') \<Longrightarrow>
      r = Inr (Some p) \<and> inv s' \<and> proposals s' = (proposals s)(p_id p \<mapsto> p)"
    and get_ok: "inv s \<Longrightarrow> po_get ops s i = Inr (proposals s i)"
    and save_ok: "inv s \<Longrightarrow> proposals s (p_id p) = Some q \<Longrightarrow> p_created_at p = p_created_at q \<Longrightarrow>
      p_agent_id p = p_agent_id q \<Longrightarrow> po_save ops s p = (r, s') \<Longrightarrow>
      r = Inr (Some p) \<and> inv s' \<and> proposals s' = (proposals s)(p_id p \<mapsto> p)"
    and decide_ok: "inv s \<Longrightarrow> po_decide ops s i st w now = (r, s') \<Longrightarrow>
      inv s' \<and>
      (case pending_proposal (proposals s) i of
         None \<Rightarrow> r = Inr None \<and> proposals s' = proposals s
       | Some p \<Rightarrow> r = Inr (Some (decided_proposal st w now p)) \<and>
           proposals s' = (proposals s)(i \<mapsto> decided_proposal st w now p))"
    and list_ok: "inv s \<Longrightarrow> (case limit of None \<Rightarrow> True | Some n \<Rightarrow> 0 \<le> n) \<Longrightarrow>
      \<exists>ps. set ps = {p. p \<in> ran (proposals s) \<and> proposal_matches agent statuses p} \<and>
        distinct (map p_id ps) \<and> sorted (map (\<lambda>p. - p_created_at p) ps) \<and>
        po_list ops s agent statuses limit =
          Inr (case limit of None \<Rightarrow> ps | Some n \<Rightarrow> take (nat n) ps)"

section \<open>The in-memory store honours it\<close>

definition mem_pinv :: "mem_proposals \<Rightarrow> bool" where
  "mem_pinv items \<longleftrightarrow> distinct (map fst items) \<and> (\<forall>i p. map_of items i = Some p \<longrightarrow> p_id p = i)"

lemma mem_pinv_set: "mem_pinv items \<Longrightarrow> mem_pinv (dict_set items (p_id p) p)"
  by (auto simp: mem_pinv_def)

lemma mem_plist_ok:
  assumes inv: "mem_pinv items" and n: "case limit of None \<Rightarrow> True | Some n \<Rightarrow> 0 \<le> n"
  shows "\<exists>ps. set ps = {p. p \<in> ran (map_of items) \<and> proposal_matches agent statuses p} \<and>
    distinct (map p_id ps) \<and> sorted (map (\<lambda>p. - p_created_at p) ps) \<and>
    mem_plist items agent statuses limit = Inr (case limit of None \<Rightarrow> ps | Some n \<Rightarrow> take (nat n) ps)"
proof -
  let ?ps = "sort_key (\<lambda>p. - p_created_at p)
    (filter (proposal_matches agent statuses) (dict_values items))"
  have keys: "distinct (map fst items)" using inv by (simp add: mem_pinv_def)
  have "p_id (snd x) = fst x" if "x \<in> set items" for x
    using that inv dict_item [OF keys, of "fst x" "snd x"] by (simp add: mem_pinv_def)
  then have ids: "map p_id (dict_values items) = map fst items" by simp
  have ran: "set (dict_values items) = ran (map_of items)"
    by (simp add: ran_distinct [OF keys])
  have P: "(\<lambda>p. (case agent of None \<Rightarrow> True | Some a \<Rightarrow> p_agent_id p = a) \<and>
        (case (case statuses of None \<Rightarrow> None | Some ss \<Rightarrow> if ss = [] then None else Some (set ss)) of
           None \<Rightarrow> True | Some ss \<Rightarrow> p_status p \<in> ss)) = proposal_matches agent statuses"
    by (auto simp: fun_eq_iff proposal_matches_def split: option.splits)
  have "set ?ps = {p. p \<in> ran (map_of items) \<and> proposal_matches agent statuses p}"
    using ran by auto
  moreover have "distinct (map p_id ?ps)"
    unfolding distinct_map_sort_key by (rule distinct_map_filter) (simp only: ids keys)
  moreover have "sorted (map (\<lambda>p. - p_created_at p) ?ps)" by (rule sorted_sort_key)
  moreover have "mem_plist items agent statuses limit =
      Inr (case limit of None \<Rightarrow> ?ps | Some n \<Rightarrow> take (nat n) ?ps)"
    using n unfolding mem_plist_def Let_def P by (auto split: option.splits)
  ultimately show ?thesis by blast
qed

lemma mem_pdecide_ok:
  assumes "mem_pinv items" and "mem_pdecide items i st w now = (r, items')"
  shows "mem_pinv items' \<and>
    (case pending_proposal (map_of items) i of
       None \<Rightarrow> r = Inr None \<and> map_of items' = map_of items
     | Some p \<Rightarrow> r = Inr (Some (decided_proposal st w now p)) \<and>
         map_of items' = (map_of items)(i \<mapsto> decided_proposal st w now p))"
proof (cases "pending_proposal (map_of items) i")
  case None
  with assms show ?thesis
    by (cases "map_of items i") (auto simp: mem_pdecide_def pending_proposal_def split: if_splits)
next
  case (Some p)
  then have p: "map_of items i = Some p" "p_status p = P_PENDING" by auto
  moreover have "p_id p = i" using assms(1) p(1) by (auto simp: mem_pinv_def)
  moreover from p assms(2) have "r = Inr (Some (decided_proposal st w now p))"
    "items' = dict_set items i (decided_proposal st w now p)"
    by (auto simp: mem_pdecide_def decided_proposal_def Let_def)
  ultimately show ?thesis
    using mem_pinv_set [OF assms(1), of "decided_proposal st w now p"]
    by (simp add: pending_proposal_def)
qed

interpretation mem_gov: proposal_store mem_proposal_ops map_of mem_pinv
proof (unfold_locales, goal_cases)
  case (1 s i p)
  then show ?case by (simp add: mem_pinv_def)
next
  case (2 s p r s')
  then show ?case using mem_pinv_set [of s p] by (auto simp: mem_proposal_ops_def mem_pcreate_def)
next
  case (3 s i)
  then show ?case by (simp add: mem_proposal_ops_def mem_pget_def)
next
  case (4 s p q r s')
  then show ?case using mem_pinv_set [of s p] by (auto simp: mem_proposal_ops_def mem_psave_def)
next
  case (5 s i st w now r s')
  then show ?case using mem_pdecide_ok [of s i st w now r s'] by (simp add: mem_proposal_ops_def)
next
  case (6 s limit agent statuses)
  then show ?case using mem_plist_ok [of s limit agent statuses] by (simp add: mem_proposal_ops_def)
qed

section \<open>The SQLite store honours it\<close>

abbreviation pmap :: "proposal list \<Rightarrow> proposal_map" where
  "pmap \<equiv> index_by p_id"

definition sql_pholds :: "proposal_db \<Rightarrow> proposal list \<Rightarrow> bool" where
  "sql_pholds s ps \<longleftrightarrow> pdb_rows s = map p_to_row ps \<and> distinct (map p_id ps)"

definition sql_pinv :: "proposal_db \<Rightarrow> bool" where
  "sql_pinv s \<longleftrightarrow> (\<exists>ps. sql_pholds s ps)"

definition sql_pmap :: "proposal_db \<Rightarrow> proposal_map" where
  "sql_pmap s = pmap (map (\<lambda>r. case row_to_proposal r of Inr p \<Rightarrow> p) (pdb_rows s))"

lemma row_to_proposal_to_row [simp]: "row_to_proposal (p_to_row p) = Inr p"
  by (simp add: row_to_proposal_def p_to_row_def option.map_comp option.map_id)

lemma p_to_row_simps [simp]:
  "pr_id (p_to_row p) = p_id p" "pr_status (p_to_row p) = proposal_status_value (p_status p)"
  "pr_agent_id (p_to_row p) = p_agent_id p" "pr_created_at (p_to_row p) = to_epoch (p_created_at p)"
  by (simp_all add: p_to_row_def)

lemma rows_to_proposals_map [simp]: "rows_to_proposals (map p_to_row ps) = Inr ps"
  by (induction ps) simp_all

lemma sql_pholds_map: "sql_pholds s ps \<Longrightarrow> sql_pmap s = pmap ps"
  by (simp add: sql_pholds_def sql_pmap_def comp_def)

lemma sql_pget_locked_map [simp]: "sql_pget_locked (map p_to_row ps) i = Inr (pmap ps i)"
  by (cases "pmap ps i") (simp_all add: sql_pget_locked_def find_index_by [where f = p_id])

text \<open>An update of the row with one id, seen through the proposals.\<close>

lemma sql_pholds_update:
  assumes h: "sql_pholds s ps" and p: "pmap ps i = Some p" and g: "\<And>x. p_id (g x) = p_id x"
    and rows: "\<And>x. x \<in> set ps \<Longrightarrow> f (p_to_row x) = p_to_row (if p_id x = i then g x else x)"
    and s': "s' = s\<lparr>pdb_rows := map f (pdb_rows s)\<rparr>"
  shows "sql_pinv s' \<and> sql_pmap s' = (sql_pmap s)(i \<mapsto> g p) \<and>
    sql_pget_locked (pdb_rows s') i = Inr (Some (g p))"
proof -
  let ?ps = "map (\<lambda>x. if p_id x = i then g x else x) ps"
  have d: "distinct (map p_id ps)" and r: "pdb_rows s = map p_to_row ps"
    using h by (simp_all add: sql_pholds_def)
  have rows': "map f (pdb_rows s) = map p_to_row ?ps" using rows by (auto simp: r)
  have "map p_id ?ps = map p_id ps" using g by simp
  then have h': "sql_pholds s' ?ps"
    unfolding sql_pholds_def using d rows' by (simp add: s' del: map_map)
  have "sql_pmap s' = (pmap ps)(i \<mapsto> g p)"
    by (simp only: sql_pholds_map [OF h'] index_by_update [OF g p d])
  moreover have "sql_pget_locked (pdb_rows s') i = Inr (Some (g p))"
    using index_by_update [OF g p d] by (simp add: s' rows' del: map_map)
  ultimately show ?thesis
    using h' by (auto simp: sql_pinv_def sql_pholds_map [OF h])
qed

lemma sql_pholdsD:
  assumes "sql_pholds s ps"
  shows "pdb_rows s = map p_to_row ps" "distinct (map p_id ps)" "sql_pmap s = pmap ps" "sql_pinv s"
  using assms sql_pholds_map [OF assms] by (auto simp: sql_pholds_def sql_pinv_def)

lemma sql_pcreate_ok:
  assumes inv: "sql_pinv s" and new: "sql_pmap s (p_id p) = None" and eq: "sql_pcreate s p = (r, s')"
  shows "r = Inr (Some p) \<and> sql_pinv s' \<and> sql_pmap s' = (sql_pmap s)(p_id p \<mapsto> p)"
proof -
  from inv obtain ps where h: "sql_pholds s ps" by (auto simp: sql_pinv_def)
  note D = sql_pholdsD [OF h]
  have np: "p_id p \<notin> p_id ` set ps" using new by (simp add: D(3) index_by_None)
  then have "\<not> (\<exists>r \<in> set (pdb_rows s). pr_id r = p_id p)" by (auto simp: D(1) image_iff)
  then have r: "r = sql_pget_locked (map p_to_row (ps @ [p])) (p_id p)"
    and s': "s' = s\<lparr>pdb_rows := map p_to_row (ps @ [p])\<rparr>"
    using eq by (auto simp: sql_pcreate_def D(1) Let_def)
  have "sql_pholds s' (ps @ [p])" using D(2) np by (simp add: s' sql_pholds_def)
  from sql_pholdsD(3,4) [OF this] r show ?thesis
    by (simp add: D(3) index_by_append1 [OF np] del: map_append)
qed

lemma sql_psave_ok:
  assumes inv: "sql_pinv s" and old: "sql_pmap s (p_id p) = Some q"
    and same: "p_created_at p = p_created_at q" "p_agent_id p = p_agent_id q"
    and eq: "sql_psave s p = (r, s')"
  shows "r = Inr (Some p) \<and> sql_pinv s' \<and> sql_pmap s' = (sql_pmap s)(p_id p \<mapsto> p)"
proof -
  from inv obtain ps where h: "sql_pholds s ps" by (auto simp: sql_pinv_def)
  note D = sql_pholdsD [OF h]
  let ?g = "\<lambda>x. if p_id x = p_id p \<and> x = q then p else x"
  have q: "pmap ps (p_id p) = Some q" using old by (simp add: D(3))
  have uniq: "x = q" if "x \<in> set ps" "p_id x = p_id p" for x
    using that q index_by_mem [OF D(2) that(1)] by simp
  have qid: "p_id q = p_id p" using index_by_id [OF q] by simp
  define f where "f = (\<lambda>r::proposal_row. if pr_id r = p_id p
             then r\<lparr>pr_agent_name := p_agent_name p, pr_tool := p_tool p,
                    pr_input_args := p_input_args p,
                    pr_autonomy_level := autonomy_value (p_autonomy_level p),
                    pr_status := proposal_status_value (p_status p), pr_run_id := p_run_id p,
                    pr_correlation_id := p_correlation_id p, pr_decided_by := p_decided_by p,
                    pr_apply_result := p_apply_result p, pr_apply_error := p_apply_error p,
                    pr_updated_at := to_epoch (p_updated_at p),
                    pr_decided_at := map_option to_epoch (p_decided_at p)\<rparr>
             else r)"
  have s': "s' = s\<lparr>pdb_rows := map f (pdb_rows s)\<rparr>"
    and r: "r = sql_pget_locked (pdb_rows s') (p_id p)"
    using eq by (auto simp: sql_psave_def f_def Let_def)
  have "f (p_to_row x) = p_to_row (if p_id x = p_id p then ?g x else x)" if "x \<in> set ps" for x
    using uniq [OF that] same by (auto simp: f_def p_to_row_def)
  from sql_pholds_update [where g = ?g and f = f, OF h q _ this s'] r qid show ?thesis by simp
qed

lemma sql_pdecide_ok:
  assumes inv: "sql_pinv s" and eq: "sql_pdecide s i st w now = (r, s')"
  shows "sql_pinv s' \<and>
    (case pending_proposal (sql_pmap s) i of
       None \<Rightarrow> r = Inr None \<and> sql_pmap s' = sql_pmap s
     | Some p \<Rightarrow> r = Inr (Some (decided_proposal st w now p)) \<and>
         sql_pmap s' = (sql_pmap s)(i \<mapsto> decided_proposal st w now p))"
proof -
  from inv obtain ps where h: "sql_pholds s ps" by (auto simp: sql_pinv_def)
  note D = sql_pholdsD [OF h]
  define P where "P = (\<lambda>r::proposal_row. pr_id r = i \<and> pr_status r = proposal_status_value P_PENDING)"
  define f where "f = (\<lambda>r::proposal_row. if P r
     then r\<lparr>pr_status := proposal_status_value st, pr_decided_by := w,
            pr_decided_at := Some (to_epoch now), pr_updated_at := to_epoch now\<rparr> else r)"
  have eq': "(r, s') = (if length (filter P (pdb_rows s)) \<noteq> 1
      then (Inr None, s\<lparr>pdb_rows := map f (pdb_rows s)\<rparr>)
      else (sql_pget_locked (map f (pdb_rows s)) i, s\<lparr>pdb_rows := map f (pdb_rows s)\<rparr>))"
    unfolding eq [symmetric] sql_pdecide_def f_def P_def Let_def by (rule refl)
  show ?thesis
  proof (cases "pending_proposal (sql_pmap s) i")
    case None
    have nP: "\<not> P r" if "r \<in> set (pdb_rows s)" for r
    proof
      assume "P r"
      with that obtain p where "p \<in> set ps" "p_id p = i" "p_status p = P_PENDING"
        by (auto simp: D(1) P_def)
      with index_by_mem [OF D(2)] None show False
        by (auto simp: D(3) pending_proposal_def)
    qed
    then have "filter P (pdb_rows s) = []" by (simp add: filter_empty_conv)
    moreover have "map f (pdb_rows s) = pdb_rows s" using nP by (auto simp: f_def intro: map_idI)
    ultimately show ?thesis using eq' None inv by simp
  next
    case (Some p)
    then have p: "pmap ps i = Some p" "p_status p = P_PENDING" by (simp_all add: D(3))
    then have pin: "p \<in> set ps" "p_id p = i" using index_by_id by fastforce+
    have uniq: "x = p" if "x \<in> set ps" "p_id x = i" for x
      using that p index_by_mem [OF D(2) that(1)] by simp
    have "distinct ps" using D(2) by (rule distinct_map [THEN iffD1, THEN conjunct1])
    moreover have "filter P (pdb_rows s) = map p_to_row (filter (\<lambda>x. x = p) ps)"
    proof -
      have "(P \<circ> p_to_row) x = (x = p)" if "x \<in> set ps" for x
      proof (cases "x = p")
        case True
        then show ?thesis using pin(2) p(2) by (simp add: P_def)
      next
        case False
        with uniq [OF that] have "p_id x \<noteq> i" by blast
        with False show ?thesis by (simp add: P_def)
      qed
      then show ?thesis unfolding D(1) filter_map by (simp cong: filter_cong)
    qed
    ultimately have "length (filter P (pdb_rows s)) = 1"
      using pin(1) by (simp add: filter_eq_single)
    then have r: "r = sql_pget_locked (map f (pdb_rows s)) i"
      and s': "s' = s\<lparr>pdb_rows := map f (pdb_rows s)\<rparr>"
      using eq' by simp_all
    have "f (p_to_row x) = p_to_row (if p_id x = i then decided_proposal st w now x else x)"
      if "x \<in> set ps" for x
      using uniq [OF that] p by (auto simp: f_def P_def p_to_row_def decided_proposal_def)
    from sql_pholds_update [where g = "decided_proposal st w now" and f = f, OF h p(1) _ this s']
    have "sql_pinv s' \<and> sql_pmap s' = (sql_pmap s)(i \<mapsto> decided_proposal st w now p) \<and>
        r = Inr (Some (decided_proposal st w now p))"
      by (simp add: r s')
    then show ?thesis unfolding Some by simp
  qed
qed

lemma sql_plist_ok:
  assumes inv: "sql_pinv s" and n: "case limit of None \<Rightarrow> True | Some n \<Rightarrow> 0 \<le> n"
  shows "\<exists>ps. set ps = {p. p \<in> ran (sql_pmap s) \<and> proposal_matches agent statuses p} \<and>
    distinct (map p_id ps) \<and> sorted (map (\<lambda>p. - p_created_at p) ps) \<and>
    sql_plist tie s agent statuses limit = Inr (case limit of None \<Rightarrow> ps | Some n \<Rightarrow> take (nat n) ps)"
proof -
  from inv obtain js where h: "sql_pholds s js" by (auto simp: sql_pinv_def)
  note D = sql_pholdsD [OF h]
  define ps where "ps = sort_key (\<lambda>p. (- pr_created_at (p_to_row p), tie (pdb_rows s) (p_to_row p)))
    (filter (proposal_matches agent statuses) js)"
  have P: "(case agent of None \<Rightarrow> True | Some a \<Rightarrow> pr_agent_id (p_to_row p) = a) \<and>
        (case statuses of None \<Rightarrow> True
         | Some ss \<Rightarrow> ss = [] \<or> pr_status (p_to_row p) \<in> set (map proposal_status_value ss))
      \<longleftrightarrow> proposal_matches agent statuses p" for p
    by (auto simp: proposal_matches_def split: option.splits)
  have "sql_plist tie s agent statuses limit = Inr (case limit of None \<Rightarrow> ps | Some n \<Rightarrow> take (nat n) ps)"
    using n unfolding sql_plist_def Let_def
    by (simp add: D(1) filter_map comp_def P map_sort_key [symmetric] sql_limit_def ps_def
        take_map split: option.splits)
  moreover have "set ps = {p. p \<in> ran (sql_pmap s) \<and> proposal_matches agent statuses p}"
    using index_by_ran [OF D(2)] by (auto simp: ps_def D(3))
  moreover have "distinct (map p_id ps)"
    unfolding ps_def distinct_map_sort_key by (rule distinct_map_filter [OF D(2)])
  moreover have "sorted (map (\<lambda>p. - p_created_at p) ps)"
  proof -
    have "sorted (map (\<lambda>p. (- pr_created_at (p_to_row p), tie (pdb_rows s) (p_to_row p))) ps)"
      unfolding ps_def by (rule sorted_sort_key)
    then have "sorted (map (\<lambda>p. - pr_created_at (p_to_row p)) ps)" by (rule sorted_map_fst)
    then show ?thesis by (simp add: sorted_map sorted_wrt_map [symmetric])
  qed
  ultimately show ?thesis by blast
qed

interpretation sql_gov: proposal_store "sql_proposal_ops tie" sql_pmap sql_pinv for tie
proof (unfold_locales, goal_cases)
  case (1 s i p)
  then show ?case by (auto simp: sql_pinv_def sql_pholds_map dest: index_by_id)
next
  case (2 s p r s')
  then show ?case using sql_pcreate_ok [of s p r s'] by (simp add: sql_proposal_ops_def)
next
  case (3 s i)
  then show ?case
    by (auto simp: sql_proposal_ops_def sql_pget_def sql_pinv_def sql_pholds_map sql_pholds_def)
next
  case (4 s p q r s')
  then show ?case using sql_psave_ok [of s p q r s'] by (simp add: sql_proposal_ops_def)
next
  case (5 s i st w now r s')
  then show ?case using sql_pdecide_ok [of s i st w now r s'] by (simp add: sql_proposal_ops_def)
next
  case (6 s limit agent statuses)
  then show ?case using sql_plist_ok [of s limit agent statuses tie] by (simp add: sql_proposal_ops_def)
qed

end
