(* ===== verification/GovGate.thy ===== *)
theory GovGate
  imports GovStore
begin

text \<open>
  The autonomy gate (\<open>backend/agents/governance/gate.py\<close>): which tool calls of an agent run,
  which become proposals and which are refused, and the filter over the tool definitions an
  agent is shown. The MCP loader is the argument \<open>mcp_lookup\<close>, its \<open>get_tool\<close>; the raw
  executor is a function of the outside world \<open>'w\<close> that raises (\<open>Inl\<close>) or returns a JSON
  value.
\<close>

text \<open>
  \<open>None\<close>: the loader has no \<open>get_tool\<close>. \<open>Some g\<close>: \<open>g name\<close> is the tool, or none; a tool is
  its \<open>original_name\<close>, if it has one.
\<close>

type_synonym mcp_lookup = "(string \<Rightarrow> string option option) option"

type_synonym 'w tool_executor = "string \<Rightarrow> json_obj \<Rightarrow> 'w \<Rightarrow> (string + json) \<times> 'w"

definition MUTATING_ORIGINAL_TOOLS :: "string list" where
  "MUTATING_ORIGINAL_TOOLS =
     [''add_nodes'', ''update_node'', ''delete_nodes'', ''delete_edges'', ''write_file'']"

definition is_mutating_tool :: "mcp_lookup \<Rightarrow> string option \<Rightarrow> bool" where
  "is_mutating_tool mcp_loader namespaced_name =
     (case mcp_loader of
        None \<Rightarrow> False
      | Some getter \<Rightarrow>
          (case Option.bind namespaced_name getter of
             None \<Rightarrow> False
           | Some original_name \<Rightarrow>
               (case original_name of
                  None \<Rightarrow> False | Some n \<Rightarrow> n \<in> set MUTATING_ORIGINAL_TOOLS)))"

text \<open>
  A tool definition handed to the LLM: its \<open>name\<close> (\<open>definition.get("name")\<close>, \<open>None\<close> when
  absent) and the rest.
\<close>

record tool_definition =
  td_name :: "string option"
  td_rest :: json_obj

text \<open>\<open>set(tool_allowlist) if tool_allowlist else None\<close>.\<close>

definition allow_set :: "string list option \<Rightarrow> string set option" where
  "allow_set tool_allowlist =
     (case tool_allowlist of None \<Rightarrow> None | Some ts \<Rightarrow> if ts = [] then None else Some (set ts))"

definition filter_tool_definitions ::
    "tool_definition list \<Rightarrow> autonomy_level \<Rightarrow> string list option \<Rightarrow> mcp_lookup \<Rightarrow>
     tool_definition list" where
  "filter_tool_definitions tool_definitions level tool_allowlist mcp_loader =
     (let allow = allow_set tool_allowlist;
          read_only = is_read_only level
      in filter (\<lambda>d.
           \<not> (case allow of None \<Rightarrow> False
               | Some a \<Rightarrow> (case td_name d of None \<Rightarrow> True | Some n \<Rightarrow> n \<notin> a)) \<and>
           \<not> (read_only \<and> is_mutating_tool mcp_loader (td_name d))) tool_definitions)"

record autonomy_gate =
  g_level :: autonomy_level
  g_allowlist :: "string set option"
  g_mcp_loader :: mcp_lookup
  g_agent_id :: string
  g_agent_name :: "string option"
  g_run_id :: "string option"
  g_correlation_id :: "string option"

definition new_gate ::
    "autonomy_level \<Rightarrow> string list option \<Rightarrow> mcp_lookup \<Rightarrow> string \<Rightarrow> string option \<Rightarrow>
     string option \<Rightarrow> string option \<Rightarrow> autonomy_gate" where
  "new_gate level tool_allowlist loader agent_id agent_name run_id correlation_id =
     \<lparr>g_level = level, g_allowlist = allow_set tool_allowlist, g_mcp_loader = loader,
      g_agent_id = agent_id, g_agent_name = agent_name, g_run_id = run_id,
      g_correlation_id = correlation_id\<rparr>"

definition allowlist_error :: "string \<Rightarrow> json" where
  "allowlist_error name =
     JObj [(''error'', JStr (''Tool '' @ [CHR 39] @ name @ [CHR 39] @
        '' is not in this agent'' @ [CHR 39] @ ''s allowlist and was blocked.''))]"

definition read_only_error :: "autonomy_level \<Rightarrow> string \<Rightarrow> json" where
  "read_only_error level name =
     JObj [(''error'', JStr (''Agent autonomy level '' @ [CHR 39] @ autonomy_value level @ [CHR 39] @
        '' is read-only; mutating tool '' @ [CHR 39] @ name @ [CHR 39] @ '' was blocked.''))]"

definition record_error :: "string \<Rightarrow> json" where
  "record_error name =
     JObj [(''error'', JStr (''Mutating tool '' @ [CHR 39] @ name @ [CHR 39] @
        '' could not be recorded for approval and was not executed.''))]"

definition proposed_result :: "string \<Rightarrow> json" where
  "proposed_result i =
     JObj [(''status'', JStr ''proposed''), (''proposal_id'', JStr i),
        (''message'', JStr ''Action recorded as a proposal awaiting human approval; it was not executed.'')]"

text \<open>
  \<open>_record_proposal\<close>. Whatever the store raises is caught; a store that returns no proposal
  fails on \<open>proposal.id\<close> and is caught as well.
\<close>

definition record_proposal ::
    "'s proposal_ops \<Rightarrow> autonomy_gate \<Rightarrow> string \<Rightarrow> json_obj \<Rightarrow> string \<Rightarrow> datetime \<Rightarrow> 's \<Rightarrow> json \<times> 's"
where
  "record_proposal ops gate namespaced_name input_args fresh_id clock s =
     (case po_create ops s
             (new_proposal fresh_id clock (g_agent_id gate) namespaced_name input_args
                (g_level gate) (g_agent_name gate) (g_run_id gate) (g_correlation_id gate)) of
        (Inr (Some p), s') \<Rightarrow> (proposed_result (p_id p), s')
      | (_, s') \<Rightarrow> (record_error namespaced_name, s'))"

text \<open>The function \<open>governed\<close> that \<open>wrap\<close> returns.\<close>

definition governed ::
    "'s proposal_ops \<Rightarrow> autonomy_gate \<Rightarrow> 'w tool_executor \<Rightarrow> string \<Rightarrow> json_obj \<Rightarrow> string \<Rightarrow> datetime \<Rightarrow>
     's \<Rightarrow> 'w \<Rightarrow> (string + json) \<times> 's \<times> 'w" where
  "governed ops gate raw_executor namespaced_name input_args fresh_id clock s w =
     (if (case g_allowlist gate of None \<Rightarrow> False | Some a \<Rightarrow> namespaced_name \<notin> a)
      then (Inr (allowlist_error namespaced_name), s, w)
      else if is_mutating_tool (g_mcp_loader gate) (Some namespaced_name)
      then (if is_read_only (g_level gate)
            then (Inr (read_only_error (g_level gate) namespaced_name), s, w)
            else (case record_proposal ops gate namespaced_name input_args fresh_id clock s of
                    (r, s') \<Rightarrow> (Inr r, s', w)))
      else (case raw_executor namespaced_name input_args w of (r, w') \<Rightarrow> (r, s, w')))"

section \<open>What the gate lets through\<close>

text \<open>The static refusals of \<open>wrap\<close>.\<close>

definition gate_refuses :: "autonomy_gate \<Rightarrow> string option \<Rightarrow> bool" where
  "gate_refuses gate name =
     ((case g_allowlist gate of None \<Rightarrow> False
       | Some a \<Rightarrow> (case name of None \<Rightarrow> True | Some n \<Rightarrow> n \<notin> a)) \<or>
      (is_read_only (g_level gate) \<and> is_mutating_tool (g_mcp_loader gate) name))"

lemma filter_is_gate:
  "filter_tool_definitions ds level allow loader =
     filter (\<lambda>d. \<not> gate_refuses (new_gate level allow loader a n r c) (td_name d)) ds"
  by (simp add: filter_tool_definitions_def gate_refuses_def new_gate_def Let_def)

lemma governed_refused:
  assumes "gate_refuses gate (Some name)"
  shows "\<exists>msg. governed ops gate raw name args i t s w = (Inr (JObj [(''error'', JStr msg)]), s, w)"
  using assms
  by (auto simp: gate_refuses_def governed_def allowlist_error_def read_only_error_def
      split: option.splits)

lemma governed_mutating_world:
  assumes "is_mutating_tool (g_mcp_loader gate) (Some name)"
  shows "snd (snd (governed ops gate raw name args i t s w)) = w"
  using assms by (auto simp: governed_def split: prod.splits)

lemma governed_read_runs:
  assumes "\<not> gate_refuses gate (Some name)" and "\<not> is_mutating_tool (g_mcp_loader gate) (Some name)"
  shows "governed ops gate raw name args i t s w =
    (case raw name args w of (r, w') \<Rightarrow> (r, s, w'))"
  using assms by (auto simp: governed_def gate_refuses_def split: option.splits)

lemma governed_proposes:
  assumes "\<not> gate_refuses gate (Some name)" and "is_mutating_tool (g_mcp_loader gate) (Some name)"
  shows "governed ops gate raw name args i t s w =
    (case record_proposal ops gate name args i t s of (r, s') \<Rightarrow> (Inr r, s', w))"
  using assms by (auto simp: governed_def gate_refuses_def split: option.splits)

context proposal_store
begin

text \<open>On a store that honours its contract, a kept mutating call is recorded, and only recorded.\<close>

lemma governed_records:
  assumes "inv s" and "proposals s i = None"
    and "\<not> gate_refuses gate (Some name)" and "is_mutating_tool (g_mcp_loader gate) (Some name)"
  shows "\<exists>s'. governed ops gate raw name args i t s w = (Inr (proposed_result i), s', w) \<and> inv s' \<and>
    proposals s' = (proposals s)(i \<mapsto> new_proposal i t (g_agent_id gate) name args (g_level gate)
      (g_agent_name gate) (g_run_id gate) (g_correlation_id gate))"
proof -
  let ?p = "new_proposal i t (g_agent_id gate) name args (g_level gate)
      (g_agent_name gate) (g_run_id gate) (g_correlation_id gate)"
  have i: "p_id ?p = i" by (simp add: new_proposal_def)
  obtain r s' where c: "po_create ops s ?p = (r, s')" by fastforce
  with create_ok [of s ?p r s'] assms(1,2) i
  have "r = Inr (Some ?p)" "inv s'" "proposals s' = (proposals s)(i \<mapsto> ?p)" by simp_all
  with c i show ?thesis
    by (simp add: governed_proposes [OF assms(3,4)] record_proposal_def)
qed

end

end
