(* ===== verification/GovManager.thy ===== *)
theory GovManager
  imports GovGate
begin

text \<open>
  The governance manager (\<open>backend/agents/governance/manager.py\<close>): decisions on proposals and
  the application of approved actions. \<open>gov_approve\<close> and \<open>gov_reject\<close> are the methods as one
  call runs them; \<open>gov_pc_step\<close> is the same call one store operation at a time, and
  \<open>gov_sys\<close> lets any number of such calls, in threads or processes sharing the store, and
  agents recording new proposals, interleave. \<open>str_of\<close> is Python's \<open>str\<close> on the values an
  executor returns; an exception is its text.
\<close>

section \<open>The methods\<close>

type_synonym 'w executor_factory = "(string \<Rightarrow> string + 'w tool_executor) option"

definition small_result :: "(json \<Rightarrow> string) \<Rightarrow> json \<Rightarrow> json_obj option" where
  "small_result str_of result =
     (case result of
        JNull \<Rightarrow> None
      | JObj d \<Rightarrow> Some d
      | _ \<Rightarrow> Some [(''result'', JStr (take 500 (str_of result)))])"

text \<open>\<open>isinstance(result, dict) and result.get("error")\<close>: the error, when it is truthy.\<close>

definition result_error :: "json \<Rightarrow> json option" where
  "result_error result =
     (case result of
        JObj d \<Rightarrow> if truthy (obj_get d ''error'') then Some (obj_get d ''error'') else None
      | _ \<Rightarrow> None)"

definition gov_apply ::
    "'w executor_factory \<Rightarrow> (json \<Rightarrow> string) \<Rightarrow> proposal \<Rightarrow> 'w \<Rightarrow> proposal \<times> 'w" where
  "gov_apply factory str_of p w =
     (case factory of
        None \<Rightarrow> (p\<lparr>p_status := P_APPLY_FAILED,
                   p_apply_error := Some ''No executor configured to apply the approved action.''\<rparr>, w)
      | Some new_executor \<Rightarrow>
     (case new_executor (p_agent_id p) of
        Inl exc \<Rightarrow> (p\<lparr>p_status := P_APPLY_FAILED, p_apply_error := Some exc\<rparr>, w)
      | Inr executor \<Rightarrow>
     (case executor (p_tool p) (p_input_args p) w of
        (Inl exc, w') \<Rightarrow> (p\<lparr>p_status := P_APPLY_FAILED, p_apply_error := Some exc\<rparr>, w')
      | (Inr result, w') \<Rightarrow>
          (case result_error result of
             Some err \<Rightarrow> (p\<lparr>p_status := P_APPLY_FAILED, p_apply_error := Some (str_of err)\<rparr>, w')
           | None \<Rightarrow> (p\<lparr>p_status := P_APPLIED, p_apply_result := small_result str_of result\<rparr>, w')))))"

definition opt_to_dict :: "proposal option \<Rightarrow> json_obj option" where
  "opt_to_dict p = map_option proposal_to_dict p"

text \<open>\<open>now\<close> is the clock \<open>decide\<close> reads, \<open>later\<close> the one read after the action was applied.\<close>

definition gov_reject ::
    "'s proposal_ops \<Rightarrow> string \<Rightarrow> string option \<Rightarrow> datetime \<Rightarrow> 's \<Rightarrow>
     (gov_error + json_obj option) \<times> 's" where
  "gov_reject ops proposal_id decided_by now s =
     (case po_get ops s proposal_id of
        Inl e \<Rightarrow> (Inl e, s)
      | Inr None \<Rightarrow> (Inr None, s)
      | Inr (Some existing) \<Rightarrow>
     (case po_decide ops s proposal_id P_REJECTED decided_by now of
        (Inl e, s') \<Rightarrow> (Inl e, s')
      | (Inr None, s') \<Rightarrow> (py_bind (po_get ops s' proposal_id) (\<lambda>c. Inr (opt_to_dict c)), s')
      | (Inr (Some claimed), s') \<Rightarrow> (Inr (Some (proposal_to_dict claimed)), s')))"

definition gov_approve ::
    "'s proposal_ops \<Rightarrow> 'w executor_factory \<Rightarrow> (json \<Rightarrow> string) \<Rightarrow> string \<Rightarrow> string option \<Rightarrow>
     datetime \<Rightarrow> datetime \<Rightarrow> 's \<Rightarrow> 'w \<Rightarrow> (gov_error + json_obj option) \<times> 's \<times> 'w" where
  "gov_approve ops factory str_of proposal_id decided_by now later s w =
     (case po_get ops s proposal_id of
        Inl e \<Rightarrow> (Inl e, s, w)
      | Inr None \<Rightarrow> (Inr None, s, w)
      | Inr (Some existing) \<Rightarrow>
     (case po_decide ops s proposal_id P_APPROVED decided_by now of
        (Inl e, s') \<Rightarrow> (Inl e, s', w)
      | (Inr None, s') \<Rightarrow> (py_bind (po_get ops s' proposal_id) (\<lambda>c. Inr (opt_to_dict c)), s', w)
      | (Inr (Some claimed), s') \<Rightarrow>
          if applies_on_approval (p_autonomy_level claimed)
          then (case gov_apply factory str_of claimed w of
                  (applied, w') \<Rightarrow>
                (case po_save ops s' (applied\<lparr>p_updated_at := later\<rparr>) of
                   (Inl e, s'') \<Rightarrow> (Inl e, s'', w')
                 | (Inr None, s'') \<Rightarrow> (Inl GovAttributeError, s'', w')
                 | (Inr (Some saved), s'') \<Rightarrow> (Inr (Some (proposal_to_dict saved)), s'', w')))
          else (Inr (Some (proposal_to_dict claimed)), s', w)))"

definition gov_get_proposal :: "'s proposal_ops \<Rightarrow> string \<Rightarrow> 's \<Rightarrow> gov_error + json_obj option" where
  "gov_get_proposal ops proposal_id s =
     py_bind (po_get ops s proposal_id) (\<lambda>p. Inr (opt_to_dict p))"

definition gov_list_proposals ::
    "'s proposal_ops \<Rightarrow> string option \<Rightarrow> string option \<Rightarrow> int option \<Rightarrow> 's \<Rightarrow> gov_error + json_obj list"
where
  "gov_list_proposals ops agent_id status limit s =
     (case status of
        None \<Rightarrow> py_bind (po_list ops s agent_id None limit) (\<lambda>ps. Inr (map proposal_to_dict ps))
      | Some v \<Rightarrow>
          (case proposal_status_of_value v of
             None \<Rightarrow> Inr []
           | Some st \<Rightarrow>
               py_bind (po_list ops s agent_id (Some [st]) limit)
                 (\<lambda>ps. Inr (map proposal_to_dict ps))))"

section \<open>One store operation at a time\<close>

datatype gov_call = CallApprove string "string option" | CallReject string "string option"

fun call_id :: "gov_call \<Rightarrow> string" where
  "call_id (CallApprove i w) = i"
| "call_id (CallReject i w) = i"

fun call_by :: "gov_call \<Rightarrow> string option" where
  "call_by (CallApprove i w) = w"
| "call_by (CallReject i w) = w"

fun call_status :: "gov_call \<Rightarrow> proposal_status" where
  "call_status (CallApprove i w) = P_APPROVED"
| "call_status (CallReject i w) = P_REJECTED"

datatype gov_pc =
    PcStart gov_call
  | PcFound gov_call
  | PcReread string
  | PcClaimed proposal
  | PcApplied proposal
  | PcDone "gov_error + json_obj option"

fun gov_pc_step ::
    "'s proposal_ops \<Rightarrow> 'w executor_factory \<Rightarrow> (json \<Rightarrow> string) \<Rightarrow> datetime \<Rightarrow> gov_pc \<Rightarrow> 's \<Rightarrow> 'w \<Rightarrow>
     gov_pc \<times> 's \<times> 'w" where
  "gov_pc_step ops factory str_of now (PcStart c) s w =
     (case po_get ops s (call_id c) of
        Inl e \<Rightarrow> (PcDone (Inl e), s, w)
      | Inr None \<Rightarrow> (PcDone (Inr None), s, w)
      | Inr (Some existing) \<Rightarrow> (PcFound c, s, w))"
| "gov_pc_step ops factory str_of now (PcFound c) s w =
     (case po_decide ops s (call_id c) (call_status c) (call_by c) now of
        (Inl e, s') \<Rightarrow> (PcDone (Inl e), s', w)
      | (Inr None, s') \<Rightarrow> (PcReread (call_id c), s', w)
      | (Inr (Some claimed), s') \<Rightarrow>
          if call_status c = P_APPROVED \<and> applies_on_approval (p_autonomy_level claimed)
          then (PcClaimed claimed, s', w)
          else (PcDone (Inr (Some (proposal_to_dict claimed))), s', w))"
| "gov_pc_step ops factory str_of now (PcReread i) s w =
     (PcDone (py_bind (po_get ops s i) (\<lambda>c. Inr (opt_to_dict c))), s, w)"
| "gov_pc_step ops factory str_of now (PcClaimed p) s w =
     (case gov_apply factory str_of p w of (q, w') \<Rightarrow> (PcApplied (q\<lparr>p_updated_at := now\<rparr>), s, w'))"
| "gov_pc_step ops factory str_of now (PcApplied p) s w =
     (case po_save ops s p of
        (Inl e, s') \<Rightarrow> (PcDone (Inl e), s', w)
      | (Inr None, s') \<Rightarrow> (PcDone (Inl GovAttributeError), s', w)
      | (Inr (Some saved), s') \<Rightarrow> (PcDone (Inr (Some (proposal_to_dict saved))), s', w))"
| "gov_pc_step ops factory str_of now (PcDone r) s w = (PcDone r, s, w)"

text \<open>A call run alone: the clock reads \<open>now\<close> until the action is claimed, \<open>later\<close> after.\<close>

fun gov_pc_run ::
    "nat \<Rightarrow> 's proposal_ops \<Rightarrow> 'w executor_factory \<Rightarrow> (json \<Rightarrow> string) \<Rightarrow> datetime \<Rightarrow> datetime \<Rightarrow>
     gov_pc \<Rightarrow> 's \<Rightarrow> 'w \<Rightarrow> gov_pc \<times> 's \<times> 'w" where
  "gov_pc_run 0 ops factory str_of now later pc s w = (pc, s, w)"
| "gov_pc_run (Suc n) ops factory str_of now later pc s w =
     (case gov_pc_step ops factory str_of (case pc of PcClaimed p \<Rightarrow> later | _ \<Rightarrow> now) pc s w of
        (pc', s', w') \<Rightarrow> gov_pc_run n ops factory str_of now later pc' s' w')"

lemma gov_approve_steps:
  "gov_pc_run 4 ops factory str_of now later (PcStart (CallApprove i who)) s w =
     (case gov_approve ops factory str_of i who now later s w of (r, s', w') \<Rightarrow> (PcDone r, s', w'))"
  by (simp add: eval_nat_numeral gov_approve_def split: prod.split sum.split option.split)

lemma gov_reject_steps:
  "gov_pc_run 4 ops factory str_of now later (PcStart (CallReject i who)) s w =
     (case gov_reject ops i who now s of (r, s') \<Rightarrow> (PcDone r, s', w))"
  by (simp add: eval_nat_numeral gov_reject_def split: prod.split sum.split option.split)

section \<open>Concurrent calls\<close>

text \<open>
  A configuration: the calls under way, the store, the world, and the ids of the proposals
  whose action was applied so far, in order. A step runs one store operation (or the
  executor) of one call, or records a new pending proposal of an agent.
\<close>

type_synonym ('s, 'w) gov_config = "gov_pc list \<times> 's \<times> 'w \<times> string list"

definition applied_now :: "gov_pc \<Rightarrow> string list" where
  "applied_now pc = (case pc of PcClaimed p \<Rightarrow> [p_id p] | _ \<Rightarrow> [])"

inductive gov_sys ::
    "'s proposal_ops \<Rightarrow> 'w executor_factory \<Rightarrow> (json \<Rightarrow> string) \<Rightarrow> ('s, 'w) gov_config \<Rightarrow>
     ('s, 'w) gov_config \<Rightarrow> bool" for ops factory str_of where
  call_step:
    "k < length pcs \<Longrightarrow> gov_pc_step ops factory str_of now (pcs ! k) s w = (pc', s', w') \<Longrightarrow>
     gov_sys ops factory str_of (pcs, s, w, hist) (pcs[k := pc'], s', w', hist @ applied_now (pcs ! k))"
| new_call: "gov_sys ops factory str_of (pcs, s, w, hist) (pcs @ [PcStart c], s, w, hist)"
| propose: "po_get ops s (p_id p) = Inr None \<Longrightarrow> p_status p = P_PENDING \<Longrightarrow>
     po_create ops s p = (r, s') \<Longrightarrow> gov_sys ops factory str_of (pcs, s, w, hist) (pcs, s', w, hist)"

inductive gov_reach ::
    "'s proposal_ops \<Rightarrow> 'w executor_factory \<Rightarrow> (json \<Rightarrow> string) \<Rightarrow> ('s, 'w) gov_config \<Rightarrow>
     ('s, 'w) gov_config \<Rightarrow> bool" for ops factory str_of c0 where
  start: "gov_reach ops factory str_of c0 c0"
| step: "gov_reach ops factory str_of c0 c \<Longrightarrow> gov_sys ops factory str_of c c' \<Longrightarrow>
     gov_reach ops factory str_of c0 c'"

inductive_cases gov_sysE: "gov_sys ops factory str_of (pcs, s, w, hist) c'"

text \<open>The calls that own a claimed action, and what a call may assume of the proposal it holds.\<close>

definition claims :: "string \<Rightarrow> gov_pc \<Rightarrow> bool" where
  "claims i pc = (case pc of PcClaimed p \<Rightarrow> p_id p = i | _ \<Rightarrow> False)"

definition was_approved :: "proposal \<Rightarrow> bool" where
  "was_approved p = (p_status p \<noteq> P_PENDING \<and> p_status p \<noteq> P_REJECTED)"

definition owed :: "proposal_map \<Rightarrow> string \<Rightarrow> nat" where
  "owed m i = (case m i of None \<Rightarrow> 0 | Some p \<Rightarrow> if was_approved p then 1 else 0)"

definition held_ok :: "proposal_map \<Rightarrow> proposal \<Rightarrow> bool" where
  "held_ok m p \<longleftrightarrow> was_approved p \<and>
     (\<exists>q. m (p_id p) = Some q \<and> was_approved q \<and>
        p_created_at q = p_created_at p \<and> p_agent_id q = p_agent_id p)"

definition pc_ok :: "proposal_map \<Rightarrow> gov_pc \<Rightarrow> bool" where
  "pc_ok m pc = (case pc of PcClaimed p \<Rightarrow> held_ok m p | PcApplied p \<Rightarrow> held_ok m p | _ \<Rightarrow> True)"

definition gov_inv :: "proposal_map \<Rightarrow> gov_pc list \<Rightarrow> string list \<Rightarrow> bool" where
  "gov_inv m pcs hist \<longleftrightarrow>
     (\<forall>pc \<in> set pcs. pc_ok m pc) \<and>
     (\<forall>i. count_list hist i + length (filter (claims i) pcs) \<le> owed m i)"

lemma gov_apply_keeps:
  assumes "gov_apply factory str_of p w = (q, w')"
  shows "p_id q = p_id p" "p_created_at q = p_created_at p" "p_agent_id q = p_agent_id p"
    "p_status q \<in> {P_APPLIED, P_APPLY_FAILED}"
  using assms by (auto simp: gov_apply_def split: option.splits sum.splits prod.splits)

lemma length_filter_update:
  "k < length xs \<Longrightarrow>
   length (filter P (xs[k := y])) + (if P (xs ! k) then 1 else 0) =
   length (filter P xs) + (if P y then 1 else 0)"
proof (induction xs arbitrary: k)
  case (Cons x xs)
  show ?case
  proof (cases k)
    case (Suc j)
    with Cons.prems Cons.IH [of j] show ?thesis by auto
  qed auto
qed simp

lemma gov_inv_change:
  assumes inv: "gov_inv m pcs hist" and k: "k < length pcs" and ok: "pc_ok m' pc'"
    and others: "\<And>pc. pc \<in> set pcs \<Longrightarrow> pc_ok m pc \<Longrightarrow> pc_ok m' pc"
    and count: "\<And>i. count_list new i + (if claims i pc' then 1 else 0) + owed m i
      \<le> (if claims i (pcs ! k) then 1 else 0) + owed m' i"
  shows "gov_inv m' (pcs[k := pc']) (hist @ new)"
  unfolding gov_inv_def
proof (intro conjI allI ballI)
  fix pc
  assume "pc \<in> set (pcs[k := pc'])"
  then have "pc = pc' \<or> pc \<in> set pcs" using set_update_subset_insert [of pcs k pc'] by auto
  then show "pc_ok m' pc" using ok others inv by (auto simp: gov_inv_def)
next
  fix i
  from inv have "count_list hist i + length (filter (claims i) pcs) \<le> owed m i"
    by (simp add: gov_inv_def)
  with count [of i] length_filter_update [OF k, of "claims i" pc']
  show "count_list (hist @ new) i + length (filter (claims i) (pcs[k := pc'])) \<le> owed m' i"
    by (simp add: count_list_append)
qed

lemma gov_inv_idle:
  assumes "gov_inv m pcs hist" and "k < length pcs" and "pc_ok m pc'" and "\<And>i. \<not> claims i pc'"
  shows "gov_inv m (pcs[k := pc']) hist"
  using gov_inv_change [OF assms(1-3), of "[]"] assms(4) by simp

text \<open>Deciding a pending proposal, or replacing a decided one, keeps what other calls hold.\<close>

lemma pc_ok_update:
  assumes "pc_ok m pc" and "m i = Some q" and "was_approved q \<Longrightarrow> was_approved q'"
    and "p_created_at q' = p_created_at q" and "p_agent_id q' = p_agent_id q"
  shows "pc_ok (m(i \<mapsto> q')) pc"
proof -
  have "held_ok m p \<Longrightarrow> held_ok (m(i \<mapsto> q')) p" for p
    using assms(2-5) by (auto simp: held_ok_def)
  with assms(1) show ?thesis by (cases pc) (simp_all add: pc_ok_def)
qed

lemma pc_ok_new:
  assumes "pc_ok m pc" and "m i = None"
  shows "pc_ok (m(i \<mapsto> q)) pc"
  using assms by (auto simp: pc_ok_def held_ok_def split: gov_pc.splits)

lemma call_status_decided [simp]: "call_status c \<noteq> P_PENDING"
  by (cases c) simp_all

context proposal_store
begin

lemma pc_step_inv:
  assumes "inv s" and g: "gov_inv (proposals s) pcs hist" and k: "k < length pcs"
    and st: "gov_pc_step ops factory str_of now (pcs ! k) s w = (pc', s', w')"
  shows "inv s' \<and> gov_inv (proposals s') (pcs[k := pc']) (hist @ applied_now (pcs ! k))"
proof -
  have pk: "pc_ok (proposals s) (pcs ! k)" using g k by (simp add: gov_inv_def)
  note change = gov_inv_change [OF g k]
  show ?thesis
  proof (cases "pcs ! k")
    case (PcStart c)
    have "s' = s \<and> (pc' = PcFound c \<or> (\<exists>r. pc' = PcDone r))"
      using st by (auto simp: PcStart split: sum.splits option.splits)
    with assms(1) show ?thesis
      by (auto intro!: gov_inv_idle [OF g k] simp: PcStart applied_now_def pc_ok_def claims_def)
  next
    case (PcFound c)
    obtain r s1 where d: "po_decide ops s (call_id c) (call_status c) (call_by c) now = (r, s1)"
      by fastforce
    note dec = decide_ok [OF assms(1) d]
    show ?thesis
    proof (cases "pending_proposal (proposals s) (call_id c)")
      case None
      with dec d st have "pc' = PcReread (call_id c)" "s' = s1" "proposals s1 = proposals s" "inv s1"
        by (auto simp: PcFound)
      then show ?thesis
        by (auto intro!: gov_inv_idle k g simp: PcFound applied_now_def pc_ok_def claims_def)
    next
      case (Some p)
      let ?q = "decided_proposal (call_status c) (call_by c) now p"
      from Some have p: "proposals s (call_id c) = Some p" "p_status p = P_PENDING" by auto
      have pid: "p_id p = call_id c" by (rule ids [OF assms(1) p(1)])
      from dec Some have r: "r = Inr (Some ?q)" "inv s1"
        "proposals s1 = (proposals s)(call_id c \<mapsto> ?q)" by (auto simp del: pending_proposal_Some)
      from r d st have pc': "pc' = PcClaimed ?q \<and> call_status c = P_APPROVED \<or> (\<exists>r. pc' = PcDone r)"
        and s': "s' = s1"
        by (auto simp: PcFound split: if_splits)
      have "gov_inv (proposals s') (pcs[k := pc']) (hist @ [])"
      proof (rule change)
        show "pc_ok (proposals s') pc'"
          using pc' by (auto simp: s' r(3) pc_ok_def held_ok_def pid was_approved_def)
        show "pc_ok (proposals s') pc" if "pc_ok (proposals s) pc" for pc
          unfolding s' r(3) by (rule pc_ok_update [OF that p(1)]) (use p in \<open>simp_all add: was_approved_def\<close>)
        show "count_list [] i + (if claims i pc' then 1 else 0) + owed (proposals s) i
          \<le> (if claims i (pcs ! k) then 1 else 0) + owed (proposals s') i" for i
          using pc' p pid by (auto simp: s' r(3) owed_def claims_def was_approved_def)
      qed
      with r(2) s' show ?thesis by (simp add: PcFound applied_now_def)
    qed
  next
    case (PcReread i)
    with st have "s' = s" "\<exists>r. pc' = PcDone r" by auto
    with assms(1) show ?thesis
      by (auto intro!: gov_inv_idle [OF g k] simp: PcReread applied_now_def pc_ok_def claims_def)
  next
    case (PcClaimed p)
    obtain q w1 where a: "gov_apply factory str_of p w = (q, w1)" by fastforce
    with st have pc': "pc' = PcApplied (q\<lparr>p_updated_at := now\<rparr>)" and s': "s' = s"
      by (auto simp: PcClaimed)
    have "held_ok (proposals s) p" using pk by (simp add: PcClaimed pc_ok_def)
    with gov_apply_keeps [OF a] have "held_ok (proposals s) (q\<lparr>p_updated_at := now\<rparr>)"
      by (auto simp: held_ok_def was_approved_def)
    then have "gov_inv (proposals s) (pcs[k := pc']) (hist @ [p_id p])"
      by (intro change) (auto simp: pc' pc_ok_def claims_def PcClaimed)
    with assms(1) show ?thesis by (simp add: s' PcClaimed applied_now_def)
  next
    case (PcApplied p)
    have h: "held_ok (proposals s) p" using pk by (simp add: PcApplied pc_ok_def)
    then obtain q where q: "proposals s (p_id p) = Some q" "was_approved q"
      "p_created_at p = p_created_at q" "p_agent_id p = p_agent_id q"
      by (auto simp: held_ok_def)
    obtain r s1 where sv: "po_save ops s p = (r, s1)" by fastforce
    from save_ok [OF assms(1) q(1,3,4) sv] have r: "r = Inr (Some p)" "inv s1"
      "proposals s1 = (proposals s)(p_id p \<mapsto> p)" by auto
    with sv st have pc': "\<exists>r. pc' = PcDone r" and s': "s' = s1" by (auto simp: PcApplied)
    have "gov_inv (proposals s') (pcs[k := pc']) (hist @ [])"
    proof (rule change)
      show "pc_ok (proposals s') pc'" using pc' by (auto simp: pc_ok_def)
      show "pc_ok (proposals s') pc" if "pc_ok (proposals s) pc" for pc
        unfolding s' r(3) by (rule pc_ok_update [OF that q(1)]) (use h q in \<open>auto simp: held_ok_def\<close>)
      show "count_list [] i + (if claims i pc' then 1 else 0) + owed (proposals s) i
        \<le> (if claims i (pcs ! k) then 1 else 0) + owed (proposals s') i" for i
        using pc' q h by (auto simp: s' r(3) owed_def claims_def held_ok_def)
    qed
    with r(2) s' show ?thesis by (simp add: PcApplied applied_now_def)
  next
    case (PcDone r)
    with st have "s' = s" "pc' = PcDone r" by auto
    with assms(1) show ?thesis
      by (auto intro!: gov_inv_idle [OF g k] simp: PcDone applied_now_def pc_ok_def claims_def)
  qed
qed

lemma sys_inv:
  assumes "gov_sys ops factory str_of (pcs, s, w, hist) (pcs', s', w', hist')"
    and "inv s" and g: "gov_inv (proposals s) pcs hist"
  shows "inv s' \<and> gov_inv (proposals s') pcs' hist'"
  using assms(1)
proof (rule gov_sysE, goal_cases)
  case (1 k now pc' s1 w1)
  with pc_step_inv [OF assms(2) g, of k factory str_of now w pc' s1 w1] show ?case by simp
next
  case (2 c)
  with assms(2) g show ?case
    by (auto simp: gov_inv_def pc_ok_def claims_def)
next
  case (3 p r s1)
  have new: "proposals s (p_id p) = None" using 3 get_ok [OF assms(2), of "p_id p"] by simp
  from create_ok [OF assms(2) new 3(4)] have "inv s1" "proposals s1 = (proposals s)(p_id p \<mapsto> p)"
    by auto
  moreover have "owed ((proposals s)(p_id p \<mapsto> p)) i = owed (proposals s) i" for i
    using new 3(3) by (simp add: owed_def was_approved_def)
  ultimately show ?case
    using 3 g by (auto simp: gov_inv_def intro: pc_ok_new new)
qed

lemma reach_inv:
  assumes "gov_reach ops factory str_of (pcs0, s0, w0, []) (pcs, s, w, hist)" and "inv s0"
    and "\<forall>pc \<in> set pcs0. \<exists>c. pc = PcStart c"
  shows "inv s \<and> gov_inv (proposals s) pcs hist"
  using assms(1)
proof (induction "(pcs, s, w, hist)" arbitrary: pcs s w hist rule: gov_reach.induct)
  case start
  have "filter (claims i) pcs0 = []" for i
    using assms(3) by (auto simp: filter_empty_conv claims_def)
  moreover have "pc_ok m pc" if "pc \<in> set pcs0" for m pc using assms(3) that by (auto simp: pc_ok_def)
  ultimately show ?case using start assms(2) by (auto simp: gov_inv_def)
next
  case (step c)
  obtain pcs1 s1 w1 hist1 where c: "c = (pcs1, s1, w1, hist1)" by (cases c)
  with step have "inv s1 \<and> gov_inv (proposals s1) pcs1 hist1" by blast
  with sys_inv [of factory str_of pcs1 s1 w1 hist1 pcs s w hist] step(3) c show ?case by simp
qed

lemma applied_owed:
  assumes "gov_reach ops factory str_of ([], s0, w0, []) (pcs, s, w, hist)" and "inv s0"
  shows "count_list hist i \<le> owed (proposals s) i"
  using reach_inv [OF assms(1,2)] by (auto simp: gov_inv_def intro: add_leD1)

lemma approve_pending:
  assumes "inv s" and "proposals s i = Some p" and "p_status p = P_PENDING"
    and "applies_on_approval (p_autonomy_level p)"
    and "gov_apply factory str_of (decided_proposal P_APPROVED who now p) w = (q, w')"
  shows "\<exists>s'. gov_approve ops factory str_of i who now later s w =
      (Inr (Some (proposal_to_dict (q\<lparr>p_updated_at := later\<rparr>))), s', w') \<and> inv s' \<and>
    proposals s' = (proposals s)(i \<mapsto> q\<lparr>p_updated_at := later\<rparr>)"
proof -
  let ?p = "decided_proposal P_APPROVED who now p" and ?q = "q\<lparr>p_updated_at := later\<rparr>"
  obtain r1 s1 where d: "po_decide ops s i P_APPROVED who now = (r1, s1)" by fastforce
  have "pending_proposal (proposals s) i = Some p" using assms(2,3) by simp
  with decide_ok [OF assms(1) d] have s1: "r1 = Inr (Some ?p)" "inv s1"
    "proposals s1 = (proposals s)(i \<mapsto> ?p)" by (auto simp del: pending_proposal_Some)
  note keep = gov_apply_keeps [OF assms(5)]
  have qi: "p_id ?q = i" using keep(1) ids [OF assms(1,2)] by simp
  obtain r2 s2 where v: "po_save ops s1 ?q = (r2, s2)" by fastforce
  have "proposals s1 (p_id ?q) = Some ?p" using s1(3) by (simp only: qi fun_upd_same)
  from save_ok [OF s1(2) this _ _ v] have "r2 = Inr (Some ?q)" "inv s2"
    "proposals s2 = (proposals s1)(i \<mapsto> ?q)"
    using keep(2,3) qi by simp_all
  with v d s1 assms(2,4,5) get_ok [OF assms(1), of i] show ?thesis
    by (simp add: gov_approve_def)
qed

lemma approve_acknowledged:
  assumes "inv s" and "proposals s i = Some p" and "p_status p = P_PENDING"
    and "\<not> applies_on_approval (p_autonomy_level p)"
  shows "\<exists>s'. gov_approve ops factory str_of i who now later s w =
      (Inr (Some (proposal_to_dict (decided_proposal P_APPROVED who now p))), s', w) \<and> inv s' \<and>
    proposals s' = (proposals s)(i \<mapsto> decided_proposal P_APPROVED who now p)"
proof -
  obtain r1 s1 where d: "po_decide ops s i P_APPROVED who now = (r1, s1)" by fastforce
  have "pending_proposal (proposals s) i = Some p" using assms(2,3) by simp
  with decide_ok [OF assms(1) d] d assms(2,4) get_ok [OF assms(1), of i] show ?thesis
    by (auto simp: gov_approve_def simp del: pending_proposal_Some)
qed

lemma decision_sticky:
  assumes "inv s" and "proposals s i = Some p" and "is_decided (p_status p)"
  shows "\<exists>s'. gov_approve ops factory str_of i who now later s w =
      (Inr (Some (proposal_to_dict p)), s', w) \<and> inv s' \<and> proposals s' = proposals s"
    and "\<exists>s'. gov_reject ops i who now s = (Inr (Some (proposal_to_dict p)), s') \<and> inv s' \<and>
      proposals s' = proposals s"
proof -
  have none: "pending_proposal (proposals s) i = None"
    using assms(2,3) by (simp add: pending_proposal_def is_decided_def)
  obtain r1 s1 where d: "po_decide ops s i P_APPROVED who now = (r1, s1)" by fastforce
  from decide_ok [OF assms(1) d] none have "r1 = Inr None" "inv s1" "proposals s1 = proposals s"
    by auto
  with d assms get_ok [of s i] get_ok [of s1 i]
  show "\<exists>s'. gov_approve ops factory str_of i who now later s w =
      (Inr (Some (proposal_to_dict p)), s', w) \<and> inv s' \<and> proposals s' = proposals s"
    by (simp add: gov_approve_def opt_to_dict_def)
  obtain r2 s2 where d: "po_decide ops s i P_REJECTED who now = (r2, s2)" by fastforce
  from decide_ok [OF assms(1) d] none have "r2 = Inr None" "inv s2" "proposals s2 = proposals s"
    by auto
  with d assms get_ok [of s i] get_ok [of s2 i]
  show "\<exists>s'. gov_reject ops i who now s = (Inr (Some (proposal_to_dict p)), s') \<and> inv s' \<and>
      proposals s' = proposals s"
    by (simp add: gov_reject_def opt_to_dict_def)
qed

end

end
