(* ===== verification/GovProps.thy ===== *)
theory GovProps
  imports GovManager
begin

text \<open>
  What governance guarantees: an approved action is applied at most once and a rejected one
  never, decisions are sticky, and the gate neither runs a mutating tool nor hides one it
  would let through. The store is the SQLite one; the in-memory store satisfies the same
  contract (\<open>mem_gov\<close>).
\<close>

abbreviation sql_ops :: "proposal_db proposal_ops" where
  "sql_ops \<equiv> sql_proposal_ops (\<lambda>rows r. 0)"

definition demo_proposal :: proposal where
  "demo_proposal = new_proposal ''p'' 0 ''agent'' ''graph_add_nodes'' [] ACT_AFTER_APPROVAL None None None"

text \<open>An executor that counts its calls in the world.\<close>

definition counting_factory :: "nat executor_factory" where
  "counting_factory = Some (\<lambda>agent. Inr (\<lambda>tool args w. (Inr JNull, Suc w)))"

definition demo_db :: proposal_db where
  "demo_db = snd (sql_pcreate (sql_popen 0 []) demo_proposal)"

lemma demo_db_inv: "sql_pinv demo_db"
  by (auto simp: demo_db_def sql_pcreate_def sql_popen_def sql_pmigrate_def P_SCHEMA_VERSION_def
      sql_pinv_def sql_pholds_def Let_def intro!: exI [of _ "[demo_proposal]"])

lemma sql_popen_inv: "sql_pinv (sql_popen v [])"
  by (auto simp: sql_popen_def sql_pmigrate_def sql_pinv_def sql_pholds_def intro!: exI [of _ "[]"])

lemma demo_db_map: "sql_pmap demo_db ''p'' = Some demo_proposal"
  by (simp add: demo_db_def sql_pcreate_def sql_popen_def sql_pmigrate_def sql_pmap_def
      P_SCHEMA_VERSION_def Let_def demo_proposal_def new_proposal_def)

lemmas gov_eval = demo_db_def demo_proposal_def new_proposal_def sql_pcreate_def sql_popen_def
  sql_pmigrate_def P_SCHEMA_VERSION_def sql_pget_def sql_pget_locked_def sql_pdecide_def sql_psave_def
  sql_proposal_ops_def p_to_row_def row_to_proposal_def autonomy_of_value_def
  proposal_status_of_value_def gov_apply_def applies_on_approval_def applied_now_def Let_def
  counting_factory_def to_epoch_def from_epoch_def round_half_even_def result_error_def small_result_def

text \<open>C7: However many approve and reject calls, in any number of threads or processes sharing
  the SQLite file, interleave with each other and with agents recording proposals, the action
  of a proposal is applied at most once, and only if the proposal was approved: never while it
  is pending or after it was rejected.\<close>

theorem approved_action_applied_once:
  assumes "gov_reach (sql_proposal_ops tie) factory str_of ([], sql_popen v [], w0, []) (pcs, s, w, hist)"
  shows "count_list hist i \<le> 1 \<and>
    (i \<in> set hist \<longrightarrow> (\<exists>p. po_get (sql_proposal_ops tie) s i = Inr (Some p) \<and> was_approved p))"
proof -
  have "count_list hist i \<le> owed (sql_pmap s) i"
    by (rule sql_gov.applied_owed [OF assms sql_popen_inv])
  moreover have "sql_pinv s"
    using sql_gov.reach_inv [OF assms sql_popen_inv] by simp
  ultimately show ?thesis
    using count_list_0_iff [of hist i] sql_gov.get_ok [of s tie i]
    by (auto simp: owed_def split: option.splits if_splits)
qed

theorem approved_action_applied_once_witness:
  "\<exists>pcs s p. gov_reach sql_ops counting_factory (\<lambda>v. []) ([], sql_popen 0 [], 0, []) (pcs, s, 1, [''p'']) \<and>
     length pcs = 2 \<and> po_get sql_ops s ''p'' = Inr (Some p) \<and> was_approved p"
proof -
  let ?reach = "gov_reach sql_ops counting_factory (\<lambda>v. []) ([], sql_popen 0 [], 0, [])"
  let ?c = "CallApprove ''p'' None" and ?q = "decided_proposal P_APPROVED None 1 demo_proposal"
  let ?db = "snd (sql_pdecide demo_db ''p'' P_APPROVED None 1)"
  have "?reach ([], sql_popen 0 [], 0, [])" by (rule gov_reach.start)
  moreover have "gov_sys sql_ops counting_factory (\<lambda>v. []) ([], sql_popen 0 [], 0, []) ([], demo_db, 0, [])"
    by (rule gov_sys.propose [where p = demo_proposal and r = "Inr (Some demo_proposal)"])
      (simp_all add: gov_eval)
  ultimately have "?reach ([], demo_db, 0, [])" by (rule gov_reach.step)
  from gov_reach.step [OF this gov_sys.new_call [where c = ?c]]
  have "?reach ([PcStart ?c], demo_db, 0, [])" by simp
  from gov_reach.step [OF this gov_sys.new_call [where c = ?c]]
  have "?reach ([PcStart ?c, PcStart ?c], demo_db, 0, [])" by simp
  from gov_reach.step [OF this gov_sys.call_step [where k = 0 and now = 1 and
        pc' = "PcFound ?c" and s' = demo_db and w' = 0]]
  have "?reach ([PcFound ?c, PcStart ?c], demo_db, 0, [])" by (simp add: gov_eval)
  from gov_reach.step [OF this gov_sys.call_step [where k = 1 and now = 1 and
        pc' = "PcFound ?c" and s' = demo_db and w' = 0]]
  have "?reach ([PcFound ?c, PcFound ?c], demo_db, 0, [])" by (simp add: gov_eval)
  from gov_reach.step [OF this gov_sys.call_step [where k = 0 and now = 1 and
        pc' = "PcClaimed ?q" and s' = ?db and w' = 0]]
  have "?reach ([PcClaimed ?q, PcFound ?c], ?db, 0, [])"
    by (simp add: gov_eval decided_proposal_def)
  from gov_reach.step [OF this gov_sys.call_step [where k = 1 and now = 1 and
        pc' = "PcReread ''p''" and s' = ?db and w' = 0]]
  have "?reach ([PcClaimed ?q, PcReread ''p''], ?db, 0, [])"
    by (simp add: gov_eval)
  from gov_reach.step [OF this gov_sys.call_step [where k = 0 and now = 2 and
        pc' = "PcApplied (?q\<lparr>p_status := P_APPLIED, p_updated_at := 2\<rparr>)" and s' = ?db and w' = 1]]
  have "?reach ([PcApplied (?q\<lparr>p_status := P_APPLIED, p_updated_at := 2\<rparr>), PcReread ''p''], ?db, 1, [''p''])"
    by (simp add: gov_eval decided_proposal_def)
  with approved_action_applied_once [OF this, of "''p''"] show ?thesis by fastforce
qed

text \<open>\<open>approve\<close> and \<open>reject\<close> as methods are the small steps the interleaving model runs: a
  call alone reaches \<open>PcDone\<close> within four store operations, with the method's result, store and
  world.\<close>

theorem decisions_are_their_steps:
  "gov_pc_run 4 ops factory str_of now later (PcStart (CallApprove i who)) s w =
     (case gov_approve ops factory str_of i who now later s w of (r, s', w') \<Rightarrow> (PcDone r, s', w')) \<and>
   gov_pc_run 4 ops factory str_of now later (PcStart (CallReject i who)) s w =
     (case gov_reject ops i who now s of (r, s') \<Rightarrow> (PcDone r, s', w))"
  by (rule conjI [OF gov_approve_steps gov_reject_steps])

text \<open>Approving a pending \<open>act_after_approval\<close> proposal runs the captured tool with the
  captured arguments exactly as \<open>_apply\<close> says, stores the outcome with the decision and its
  author, and returns what it stored.\<close>

theorem approve_applies:
  assumes "sql_pinv s" and "po_get (sql_proposal_ops tie) s i = Inr (Some p)" and "p_status p = P_PENDING"
    and "applies_on_approval (p_autonomy_level p)"
    and "gov_apply factory str_of (decided_proposal P_APPROVED who now p) w = (q, w')"
  shows "\<exists>s'. gov_approve (sql_proposal_ops tie) factory str_of i who now later s w =
      (Inr (Some (proposal_to_dict (q\<lparr>p_updated_at := later\<rparr>))), s', w') \<and>
    (\<forall>k. po_get (sql_proposal_ops tie) s' k =
       (if k = i then Inr (Some (q\<lparr>p_updated_at := later\<rparr>)) else po_get (sql_proposal_ops tie) s k)) \<and>
    p_status q \<in> {P_APPLIED, P_APPLY_FAILED}"
proof -
  have p: "sql_pmap s i = Some p" using assms(2) by (simp add: sql_gov.get_ok [OF assms(1)])
  from sql_gov.approve_pending [OF assms(1) p assms(3-5), of tie later] obtain s' where
    a: "gov_approve (sql_proposal_ops tie) factory str_of i who now later s w =
      (Inr (Some (proposal_to_dict (q\<lparr>p_updated_at := later\<rparr>))), s', w')" "sql_pinv s'"
    "sql_pmap s' = (sql_pmap s)(i \<mapsto> q\<lparr>p_updated_at := later\<rparr>)" by blast
  with gov_apply_keeps(4) [OF assms(5)] show ?thesis
    by (auto simp: sql_gov.get_ok [OF a(2)] sql_gov.get_ok [OF assms(1)])
qed

theorem approve_applies_witness:
  "\<exists>s' q. gov_approve sql_ops counting_factory (\<lambda>v. []) ''p'' None 1 2 demo_db 0 =
      (Inr (Some (proposal_to_dict q)), s', 1) \<and> p_status q = P_APPLIED"
proof -
  have a: "gov_apply counting_factory (\<lambda>v. []) (decided_proposal P_APPROVED None 1 demo_proposal) 0 =
      ((decided_proposal P_APPROVED None 1 demo_proposal)\<lparr>p_status := P_APPLIED\<rparr>, 1)"
    by (simp add: gov_eval decided_proposal_def)
  have "po_get sql_ops demo_db ''p'' = Inr (Some demo_proposal)"
    by (simp add: sql_gov.get_ok [OF demo_db_inv] demo_db_map)
  from approve_applies [OF demo_db_inv this _ _ a, of 2]
  obtain s' where "gov_approve sql_ops counting_factory (\<lambda>v. []) ''p'' None 1 2 demo_db 0 =
      (Inr (Some (proposal_to_dict ((decided_proposal P_APPROVED None 1 demo_proposal)
         \<lparr>p_status := P_APPLIED, p_updated_at := 2\<rparr>))), s', 1)"
    by (auto simp: demo_proposal_def new_proposal_def applies_on_approval_def)
  then show ?thesis by force
qed

text \<open>Decisions are sticky: approving or rejecting a proposal that was already decided changes
  no stored proposal, does not touch the outside world and returns the stored proposal.\<close>

theorem decisions_sticky:
  assumes "sql_pinv s" and "po_get (sql_proposal_ops tie) s i = Inr (Some p)" and "is_decided (p_status p)"
  shows "(\<exists>s'. gov_approve (sql_proposal_ops tie) factory str_of i who now later s w =
        (Inr (Some (proposal_to_dict p)), s', w) \<and>
        po_get (sql_proposal_ops tie) s' = po_get (sql_proposal_ops tie) s) \<and>
    (\<exists>s'. gov_reject (sql_proposal_ops tie) i who now s = (Inr (Some (proposal_to_dict p)), s') \<and>
        po_get (sql_proposal_ops tie) s' = po_get (sql_proposal_ops tie) s)"
proof -
  have p: "sql_pmap s i = Some p" using assms(2) by (simp add: sql_gov.get_ok [OF assms(1)])
  have same: "po_get (sql_proposal_ops tie) s' = po_get (sql_proposal_ops tie) s"
    if "sql_pinv s'" "sql_pmap s' = sql_pmap s" for s'
    using that by (auto simp: fun_eq_iff sql_gov.get_ok [OF assms(1)] sql_gov.get_ok)
  from sql_gov.decision_sticky [OF assms(1) p assms(3), of tie] same show ?thesis by meson
qed

theorem decisions_sticky_witness:
  "\<exists>s'. gov_approve sql_ops counting_factory (\<lambda>v. []) ''p'' None 3 4
      (snd (sql_pdecide demo_db ''p'' P_REJECTED None 1)) 0 =
    (Inr (Some (proposal_to_dict (decided_proposal P_REJECTED None 1 demo_proposal))), s', 0)"
proof -
  let ?s = "snd (sql_pdecide demo_db ''p'' P_REJECTED None 1)"
  have inv: "sql_pinv ?s"
    using sql_pdecide_ok [OF demo_db_inv, of "''p''" P_REJECTED None 1] by (metis prod.collapse)
  have p: "po_get sql_ops ?s ''p'' = Inr (Some (decided_proposal P_REJECTED None 1 demo_proposal))"
    by (simp add: gov_eval decided_proposal_def)
  have "is_decided (p_status (decided_proposal P_REJECTED None 1 demo_proposal))"
    by (simp add: is_decided_def)
  from decisions_sticky [OF inv p this, where factory = counting_factory and w = 0 and
      str_of = "\<lambda>v. []" and who = None and now = 3 and later = 4]
  show ?thesis by auto
qed

text \<open>The filter over tool definitions is in lock-step with the gate: it drops exactly the
  tools whose calls the gate refuses, whatever the arguments; a dropped tool's call returns an
  error and changes neither the store nor the world.\<close>

theorem filter_lockstep:
  "filter_tool_definitions ds level allow loader =
     filter (\<lambda>d. \<not> gate_refuses (new_gate level allow loader a n r c) (td_name d)) ds \<and>
   (\<forall>d \<in> set ds. \<forall>name. td_name d = Some name \<longrightarrow>
      d \<notin> set (filter_tool_definitions ds level allow loader) \<longrightarrow>
      (\<exists>msg. governed ops (new_gate level allow loader a n r c) raw name args i t s w =
         (Inr (JObj [(''error'', JStr msg)]), s, w)))"
proof (intro conjI ballI allI impI)
  show f: "filter_tool_definitions ds level allow loader =
     filter (\<lambda>d. \<not> gate_refuses (new_gate level allow loader a n r c) (td_name d)) ds"
    by (rule filter_is_gate)
  fix d name
  assume "d \<in> set ds" "td_name d = Some name"
    "d \<notin> set (filter_tool_definitions ds level allow loader)"
  then have "gate_refuses (new_gate level allow loader a n r c) (Some name)" by (simp add: f)
  then show "\<exists>msg. governed ops (new_gate level allow loader a n r c) raw name args i t s w =
         (Inr (JObj [(''error'', JStr msg)]), s, w)"
    by (rule governed_refused)
qed

theorem filter_lockstep_witness:
  "\<exists>msg. governed sql_ops (new_gate OBSERVE None (Some (\<lambda>n. Some (Some ''add_nodes''))) ''a'' None None None)
     (\<lambda>t x w. (Inr JNull, Suc w)) ''graph_add_nodes'' [] ''p'' 0 demo_db 0 =
     (Inr (JObj [(''error'', JStr msg)]), demo_db, 0)"
proof -
  let ?d = "\<lparr>td_name = Some ''graph_add_nodes'', td_rest = []\<rparr>"
  have "?d \<notin> set (filter_tool_definitions [?d] OBSERVE None (Some (\<lambda>n. Some (Some ''add_nodes''))))"
    by (simp add: filter_tool_definitions_def allow_set_def is_read_only_def is_mutating_tool_def
        MUTATING_ORIGINAL_TOOLS_def)
  then show ?thesis
    by (intro filter_lockstep [where ds = "[?d]", THEN conjunct2, rule_format]) simp_all
qed

text \<open>C8: The gate fails closed: no call of a mutating tool reaches the raw executor, at any
  autonomy level and whatever the store does.\<close>

theorem gate_never_runs_mutating:
  assumes "is_mutating_tool (g_mcp_loader gate) (Some name)"
  shows "snd (snd (governed ops gate raw name args i t s w)) = w \<and>
    governed ops gate raw name args i t s w = governed ops gate raw' name args i t s w"
  using governed_mutating_world [OF assms] assms by (auto simp: governed_def)

theorem gate_never_runs_mutating_witness:
  "snd (snd (governed sql_ops (new_gate ACT_AFTER_APPROVAL None (Some (\<lambda>n. Some (Some ''write_file'')))
     ''a'' None None None) (\<lambda>t x w. (Inr JNull, Suc w)) ''fs_write'' [] ''p'' 0 demo_db 0)) = 0"
  by (rule gate_never_runs_mutating [THEN conjunct1])
    (simp add: new_gate_def is_mutating_tool_def MUTATING_ORIGINAL_TOOLS_def)

text \<open>A mutating call the gate does not refuse is recorded as a pending proposal carrying the
  tool, its arguments and the run it belongs to; the caller gets the proposal's id.\<close>

theorem gate_records_proposal:
  assumes "sql_pinv s" and "po_get (sql_proposal_ops tie) s i = Inr None"
    and "\<not> gate_refuses gate (Some name)" and "is_mutating_tool (g_mcp_loader gate) (Some name)"
  shows "\<exists>s'. governed (sql_proposal_ops tie) gate raw name args i t s w = (Inr (proposed_result i), s', w) \<and>
    po_get (sql_proposal_ops tie) s' i =
      Inr (Some (new_proposal i t (g_agent_id gate) name args (g_level gate) (g_agent_name gate)
        (g_run_id gate) (g_correlation_id gate))) \<and>
    (\<forall>k. k \<noteq> i \<longrightarrow> po_get (sql_proposal_ops tie) s' k = po_get (sql_proposal_ops tie) s k)"
proof -
  have new: "sql_pmap s i = None" using assms(2) by (simp add: sql_gov.get_ok [OF assms(1)])
  from sql_gov.governed_records [OF assms(1) new assms(3,4), of tie raw args t w]
  show ?thesis by (auto simp: sql_gov.get_ok [OF assms(1)] sql_gov.get_ok)
qed

theorem gate_records_proposal_witness:
  "\<exists>s'. governed sql_ops (new_gate PROPOSE None (Some (\<lambda>n. Some (Some ''add_nodes''))) ''a'' None None None)
     (\<lambda>t x w. (Inr JNull, Suc w)) ''graph_add_nodes'' [] ''p'' 0 (sql_popen 0 []) 0 =
     (Inr (proposed_result ''p''), s', 0)"
proof -
  let ?g = "new_gate PROPOSE None (Some (\<lambda>n. Some (Some ''add_nodes''))) ''a'' None None None"
  have a: "po_get sql_ops (sql_popen 0 []) ''p'' = Inr None" by (simp add: gov_eval)
  have b: "\<not> gate_refuses ?g (Some ''graph_add_nodes'')"
    and c: "is_mutating_tool (g_mcp_loader ?g) (Some ''graph_add_nodes'')"
    by (simp_all add: new_gate_def gate_refuses_def allow_set_def is_read_only_def
        is_mutating_tool_def MUTATING_ORIGINAL_TOOLS_def)
  from gate_records_proposal [OF sql_popen_inv a b c, where args = "[]" and t = 0 and w = "0::nat" and
      raw = "\<lambda>t x w. (Inr JNull, Suc w)"]
  show ?thesis by auto
qed

end
