(* ===== verification/RunHistory.thy ===== *)
theory RunHistory
  imports ExecProps PyTime
begin

text \<open>
  Durable run history (\<open>backend/agents/run_history.py\<close>): the recorder writes each agent run
  as a job of an execution store, whichever adapter that is (\<open>step\<close>, the adapter's operations
  as in \<open>ExecContract\<close>), and reads runs back as API dictionaries. \<open>None\<close> as a store makes
  every method a no-op. \<open>str_of\<close> is Python's \<open>str\<close> on JSON values that are not strings. The
  origin fields of an event are strings or absent, as the dispatcher writes them.
\<close>

section \<open>Status vocabulary\<close>

definition STATUS :: "(execution_state, string) dict" where
  "STATUS =
     [(PENDING, ''queued''), (RUNNING, ''running''), (SUCCEEDED, ''succeeded''),
      (DEAD_LETTER, ''failed''), (CANCELLED, ''cancelled'')]"

definition STATUS_TO_STATE :: "(string, execution_state) dict" where
  "STATUS_TO_STATE = map (\<lambda>(state, status). (status, state)) STATUS"

definition run_status :: "execution_state \<Rightarrow> string" where
  "run_status st = (case map_of STATUS st of Some v \<Rightarrow> v | None \<Rightarrow> state_value st)"

lemma run_status_simps [simp]:
  "run_status PENDING = ''queued''" "run_status RUNNING = ''running''"
  "run_status SUCCEEDED = ''succeeded''" "run_status DEAD_LETTER = ''failed''"
  "run_status CANCELLED = ''cancelled''"
  by (simp_all add: run_status_def STATUS_def)

lemma status_to_state_inverse: "map_of STATUS_TO_STATE (run_status st) = Some st"
  by (cases st) (simp_all add: STATUS_TO_STATE_def STATUS_def)

section \<open>The view of a run\<close>

text \<open>\<open>d.get(k) or {}\<close>: \<open>Inl\<close> when the value is truthy and not a dictionary, on which the
  following \<open>.get\<close> raises.\<close>

definition get_or_empty :: "json_obj \<Rightarrow> string \<Rightarrow> exec_error + json_obj" where
  "get_or_empty d k =
     (if \<not> truthy (obj_get d k) then Inr []
      else case obj_get d k of JObj e \<Rightarrow> Inr e | _ \<Rightarrow> Inl AttributeError)"

definition agent_run_to_dict :: "execution_job \<Rightarrow> exec_error + json_obj" where
  "agent_run_to_dict job =
     (let payload = j_payload job in
      py_bind (get_or_empty payload ''event'') (\<lambda>event.
        Inr [(''id'', JStr (j_id job)),
             (''agent_id'', JStr (j_agent_id job)),
             (''agent_name'', obj_get payload ''agent_name''),
             (''trigger'', JStr (kind_value (j_kind job))),
             (''event_type'', obj_get event ''event_type''),
             (''status'', JStr (run_status (j_state job))),
             (''attempts'', JInt (j_attempts job)),
             (''correlation_id'', opt_str (j_correlation_id job)),
             (''session_id'', opt_str (j_session_id job)),
             (''origin'', opt_str (j_origin job)),
             (''error'', opt_str (str_or (j_last_error job) (j_dead_letter_reason job))),
             (''result'', opt_obj (j_result job)),
             (''created_at'', JStr (iso_z (j_created_at job))),
             (''started_at'', opt_time (j_started_at job)),
             (''finished_at'', opt_time (j_finished_at job))]))"

section \<open>The recorder\<close>

definition json_opt_str :: "json \<Rightarrow> string option" where
  "json_opt_str v = (case v of JStr s \<Rightarrow> Some s | _ \<Rightarrow> None)"

text \<open>
  The job \<open>record_start\<close> builds. \<open>fresh_evt\<close> and \<open>fresh_job\<close> are the UUIDs it may draw;
  \<open>clock\<close> is the time, used for every timestamp \<open>now\<close> does not set.
\<close>

definition run_job ::
    "(json \<Rightarrow> string) \<Rightarrow> string \<Rightarrow> string \<Rightarrow> datetime \<Rightarrow> string \<Rightarrow> string \<Rightarrow> json_obj \<Rightarrow>
     datetime option \<Rightarrow> exec_error + execution_job" where
  "run_job str_of fresh_evt fresh_job clock agent_id agent_name event_payload now =
     (let event_id = (if truthy (obj_get event_payload ''event_id'')
                      then (case obj_get event_payload ''event_id'' of JStr v \<Rightarrow> v | v \<Rightarrow> str_of v)
                      else ''evt-'' @ fresh_evt);
          kind = (if obj_get event_payload ''event_type'' = JStr ''scheduled_trigger''
                  then SCHEDULED else EVENT)
      in py_bind (get_or_empty event_payload ''origin'') (\<lambda>origin.
           let job = (new_execution_job (''job-'' @ fresh_job) clock agent_id kind
                        (''run:'' @ agent_id @ '':'' @ event_id)
                        [(''agent_name'', JStr agent_name), (''event'', JObj event_payload)])
                     \<lparr>j_state := RUNNING, j_attempts := 1, j_lease_owner := Some agent_id,
                      j_correlation_id := json_opt_str (obj_get origin ''event_correlation_id''),
                      j_session_id := json_opt_str (obj_get origin ''event_session_id''),
                      j_origin := json_opt_str (obj_get origin ''event_origin'')\<rparr>;
               job = (case now of None \<Rightarrow> job
                      | Some t \<Rightarrow> job\<lparr>j_run_at := t, j_created_at := t, j_updated_at := t\<rparr>)
           in Inr (job\<lparr>j_started_at := Some (j_run_at job)\<rparr>)))"

definition record_start ::
    "('s \<Rightarrow> exec_op \<Rightarrow> exec_result \<times> 's) \<Rightarrow> (json \<Rightarrow> string) \<Rightarrow> string \<Rightarrow> string \<Rightarrow> datetime \<Rightarrow>
     's option \<Rightarrow> string \<Rightarrow> string \<Rightarrow> json_obj \<Rightarrow> datetime option \<Rightarrow> string option \<times> 's option" where
  "record_start step str_of fresh_evt fresh_job clock store agent_id agent_name event_payload now =
     (case store of
        None \<Rightarrow> (None, None)
      | Some s \<Rightarrow>
     (case run_job str_of fresh_evt fresh_job clock agent_id agent_name event_payload now of
        Inl exc \<Rightarrow> (None, Some s)
      | Inr job \<Rightarrow>
     (case step s (OpEnqueue job) of
        (RJob (Inr stored), s') \<Rightarrow> (Some (j_id stored), Some s')
      | (_, s') \<Rightarrow> (None, Some s'))))"

definition record_success ::
    "('s \<Rightarrow> exec_op \<Rightarrow> exec_result \<times> 's) \<Rightarrow> 's option \<Rightarrow> string option \<Rightarrow> json_obj option \<Rightarrow>
     datetime \<Rightarrow> 's option" where
  "record_success step store run_id result now =
     (case (store, run_id) of
        (Some s, Some i) \<Rightarrow> Some (snd (step s (OpComplete i result now)))
      | _ \<Rightarrow> store)"

definition record_failure ::
    "('s \<Rightarrow> exec_op \<Rightarrow> exec_result \<times> 's) \<Rightarrow> 's option \<Rightarrow> string option \<Rightarrow> string \<Rightarrow> datetime \<Rightarrow>
     's option" where
  "record_failure step store run_id error now =
     (case (store, run_id) of
        (Some s, Some i) \<Rightarrow> Some (snd (step s (OpFail i error now)))
      | _ \<Rightarrow> store)"

fun runs_to_dicts :: "execution_job list \<Rightarrow> exec_error + json_obj list" where
  "runs_to_dicts [] = Inr []"
| "runs_to_dicts (j # js) =
     py_bind (agent_run_to_dict j) (\<lambda>d. py_bind (runs_to_dicts js) (\<lambda>ds. Inr (d # ds)))"

definition list_runs ::
    "('s \<Rightarrow> exec_op \<Rightarrow> exec_result \<times> 's) \<Rightarrow> 's option \<Rightarrow> string option \<Rightarrow> execution_kind option \<Rightarrow>
     execution_state list option \<Rightarrow> int option \<Rightarrow> exec_error + json_obj list" where
  "list_runs step store agent_id kind states limit =
     (case store of
        None \<Rightarrow> Inr []
      | Some s \<Rightarrow>
     (case fst (step s (OpListJobs states agent_id kind limit)) of
        RJobs (Inr jobs) \<Rightarrow> runs_to_dicts jobs
      | RJobs (Inl e) \<Rightarrow> Inl e
      | _ \<Rightarrow> Inl AttributeError))"

definition get_run ::
    "('s \<Rightarrow> exec_op \<Rightarrow> exec_result \<times> 's) \<Rightarrow> 's option \<Rightarrow> string \<Rightarrow> exec_error + json_obj option" where
  "get_run step store run_id =
     (case store of
        None \<Rightarrow> Inr None
      | Some s \<Rightarrow>
     (case fst (step s (OpGet run_id)) of
        RJobOpt (Inr None) \<Rightarrow> Inr None
      | RJobOpt (Inr (Some job)) \<Rightarrow> py_bind (agent_run_to_dict job) (\<lambda>d. Inr (Some d))
      | RJobOpt (Inl e) \<Rightarrow> Inl e
      | _ \<Rightarrow> Inl AttributeError))"

section \<open>Runs in a store that honours its contract\<close>

lemma run_job_fields:
  assumes "run_job str_of fe fj clock a n ev now = Inr job"
  shows "j_id job = ''job-'' @ fj" "j_state job = RUNNING" "j_attempts job = 1"
    "j_payload job = [(''agent_name'', JStr n), (''event'', JObj ev)]" "j_agent_id job = a"
proof -
  obtain e where e: "get_or_empty ev ''origin'' = Inr e"
    using assms by (cases "get_or_empty ev ''origin''") (simp_all add: run_job_def)
  have "j_id job = ''job-'' @ fj \<and> j_state job = RUNNING \<and> j_attempts job = 1 \<and>
    j_payload job = [(''agent_name'', JStr n), (''event'', JObj ev)] \<and> j_agent_id job = a"
    using assms unfolding run_job_def Let_def e py_bind_simps
    by (cases now) (drule sum.inject(2) [THEN iffD1], simp add: new_execution_job_def, erule subst, simp)+
  then show "j_id job = ''job-'' @ fj" "j_state job = RUNNING" "j_attempts job = 1"
    "j_payload job = [(''agent_name'', JStr n), (''event'', JObj ev)]" "j_agent_id job = a"
    by simp_all
qed

text \<open>A run's dictionary can always be read: its event is the dictionary it was recorded with.\<close>

lemma agent_run_to_dict_total:
  assumes "j_payload job = [(''agent_name'', JStr n), (''event'', JObj ev)]"
  shows "\<exists>d. agent_run_to_dict job = Inr d \<and> obj_get d ''id'' = JStr (j_id job) \<and>
    obj_get d ''status'' = JStr (run_status (j_state job)) \<and>
    obj_get d ''error'' = opt_str (str_or (j_last_error job) (j_dead_letter_reason job))"
proof -
  obtain e where "get_or_empty (j_payload job) ''event'' = Inr e"
    by (cases "ev = []") (simp_all add: assms get_or_empty_def obj_get_def)
  then show ?thesis by (simp add: agent_run_to_dict_def Let_def obj_get_def)
qed

context execution_store
begin

lemma get_run_job:
  assumes "inv s" and "jobs s i = Some job"
  shows "get_run step (Some s) i = py_bind (agent_run_to_dict job) (\<lambda>d. Inr (Some d))"
proof -
  obtain r s' where g: "step s (OpGet i) = (r, s')" by fastforce
  have "exec_spec (policy s) (jobs s) (OpGet i) r (jobs s')"
    using step_spec [OF assms(1) _ g] by (simp add: op_ok_def)
  then have "r = RJobOpt (Inr (Some job))" using assms(2) by cases auto
  with g show ?thesis by (simp add: get_run_def)
qed

lemma record_start_new:
  assumes "inv s" and job: "run_job str_of fe fj clock a n ev now = Inr job"
    and new: "jobs s (j_id job) = None" "\<not> spec_known (jobs s) (j_idempotency_key job)"
  shows "\<exists>s'. record_start step str_of fe fj clock (Some s) a n ev now = (Some (j_id job), Some s') \<and>
    inv s' \<and> policy s' = policy s \<and> jobs s' = (jobs s)(j_id job \<mapsto> job)"
proof -
  obtain r s' where e: "step s (OpEnqueue job) = (r, s')" by fastforce
  have "op_ok (jobs s) (OpEnqueue job)" using new run_job_fields(3) [OF job] by simp
  from step_spec [OF assms(1) this e] have sp: "exec_spec (policy s) (jobs s) (OpEnqueue job) r (jobs s')"
    and "inv s'" "policy s' = policy s" by auto
  moreover from sp new have "r = RJob (Inr job) \<and> jobs s' = (jobs s)(j_id job \<mapsto> job)"
    by cases (auto simp: spec_known_def)
  ultimately show ?thesis using e job by (simp add: record_start_def)
qed

lemma record_finish:
  assumes "inv s" and j: "jobs s i = Some job" and run: "j_state job = RUNNING" "j_attempts job = 1"
  shows "\<exists>s'. record_success step (Some s) (Some i) result t = Some s' \<and> inv s' \<and>
      jobs s' i = Some (spec_succeed result t job)"
    and "rp_max_attempts (policy s) = 1 \<Longrightarrow>
      \<exists>s'. record_failure step (Some s) (Some i) err t = Some s' \<and> inv s' \<and>
      jobs s' i = Some (spec_fail (policy s) err t job) \<and> j_state (spec_fail (policy s) err t job) = DEAD_LETTER"
proof -
  have live: "\<not> job_is_terminal job" using run by (simp add: job_is_terminal_def)
  obtain r s' where c: "step s (OpComplete i result t) = (r, s')" by fastforce
  from step_spec [OF assms(1) _ c] have "exec_spec (policy s) (jobs s) (OpComplete i result t) r (jobs s')"
    "inv s'" by auto
  then have "jobs s' i = Some (spec_succeed result t job)" using j live by cases auto
  with c \<open>inv s'\<close> show "\<exists>s'. record_success step (Some s) (Some i) result t = Some s' \<and> inv s' \<and>
      jobs s' i = Some (spec_succeed result t job)"
    by (simp add: record_success_def)
  assume p: "rp_max_attempts (policy s) = 1"
  obtain r2 s2 where f: "step s (OpFail i err t) = (r2, s2)" by fastforce
  from step_spec [OF assms(1) _ f] have "exec_spec (policy s) (jobs s) (OpFail i err t) r2 (jobs s2)"
    "inv s2" by auto
  then have "jobs s2 i = Some (spec_fail (policy s) err t job)" using j live by cases auto
  with f \<open>inv s2\<close> p run show "\<exists>s'. record_failure step (Some s) (Some i) err t = Some s' \<and> inv s' \<and>
      jobs s' i = Some (spec_fail (policy s) err t job) \<and> j_state (spec_fail (policy s) err t job) = DEAD_LETTER"
    by (simp add: record_failure_def spec_fail_def)
qed

end

section \<open>Properties\<close>

text \<open>A run recorded in the SQLite history reads back as running; after \<open>record_success\<close> as
  succeeded, after \<open>record_failure\<close> (the history store allows one attempt) as failed with the
  error text. It never fails to be read.\<close>

theorem run_lifecycle:
  assumes "sql_inv s" and "rp_max_attempts (ss_retry s) = 1"
    and "run_job str_of fe fj clock a n ev now = Inr job"
    and "sql_map s (j_id job) = None" and "\<not> spec_known (sql_map s) (j_idempotency_key job)"
  shows "\<exists>s' d d1 d2.
    record_start (sql_step tie) str_of fe fj clock (Some s) a n ev now = (Some (j_id job), Some s') \<and>
    get_run (sql_step tie) (Some s') (j_id job) = Inr (Some d) \<and>
    obj_get d ''status'' = JStr ''running'' \<and>
    get_run (sql_step tie) (record_success (sql_step tie) (Some s') (Some (j_id job)) result t) (j_id job) =
      Inr (Some d1) \<and> obj_get d1 ''status'' = JStr ''succeeded'' \<and>
    get_run (sql_step tie) (record_failure (sql_step tie) (Some s') (Some (j_id job)) err t) (j_id job) =
      Inr (Some d2) \<and> obj_get d2 ''status'' = JStr ''failed'' \<and>
    (err \<noteq> [] \<longrightarrow> obj_get d2 ''error'' = JStr err)"
proof -
  note fields = run_job_fields [OF assms(3)]
  from sql.record_start_new [OF assms(1,3-5), of tie] obtain s' where
    st: "record_start (sql_step tie) str_of fe fj clock (Some s) a n ev now = (Some (j_id job), Some s')"
    and s': "sql_inv s'" "ss_retry s' = ss_retry s" "sql_map s' (j_id job) = Some job" by auto
  from sql.record_finish(1) [OF s'(1,3) fields(2,3), of tie result t] obtain s1 where
    s1: "record_success (sql_step tie) (Some s') (Some (j_id job)) result t = Some s1" "sql_inv s1"
    "sql_map s1 (j_id job) = Some (spec_succeed result t job)" by blast
  from sql.record_finish(2) [OF s'(1,3) fields(2,3), of tie err t] assms(2) s'(2) obtain s2 where
    s2: "record_failure (sql_step tie) (Some s') (Some (j_id job)) err t = Some s2" "sql_inv s2"
    "sql_map s2 (j_id job) = Some (spec_fail (ss_retry s') err t job)"
    and dead: "j_state (spec_fail (ss_retry s') err t job) = DEAD_LETTER" by auto
  have le: "j_last_error (spec_fail (ss_retry s') err t job) = Some err" by (simp add: spec_fail_def)
  have p: "j_payload (spec_succeed result t job) = j_payload job"
    "j_payload (spec_fail (ss_retry s') err t job) = j_payload job"
    by (simp_all add: spec_job_defs)
  from agent_run_to_dict_total [OF fields(4)] obtain d where
    d: "agent_run_to_dict job = Inr d" "obj_get d ''status'' = JStr ''running''"
    using fields(2) by auto
  from agent_run_to_dict_total [OF p(1) [unfolded fields(4)]] obtain d1 where
    d1: "agent_run_to_dict (spec_succeed result t job) = Inr d1" "obj_get d1 ''status'' = JStr ''succeeded''"
    by (auto simp: spec_succeed_def)
  from agent_run_to_dict_total [OF p(2) [unfolded fields(4)]] obtain d2 where
    d2: "agent_run_to_dict (spec_fail (ss_retry s') err t job) = Inr d2"
    "obj_get d2 ''status'' = JStr ''failed''" "err \<noteq> [] \<longrightarrow> obj_get d2 ''error'' = JStr err"
    using dead le by (auto simp: str_or_def str_truthy_def opt_str_def)
  show ?thesis
    using st sql.get_run_job [OF s'(1,3), of tie] sql.get_run_job [OF s1(2,3), of tie]
      sql.get_run_job [OF s2(2,3), of tie] s1(1) s2(1) d d1 d2 by simp
qed

theorem run_lifecycle_witness:
  "\<exists>s' d2. record_start (sql_step rowid_order) (\<lambda>v. []) ''1'' ''2'' 7
      (Some (sql_open (Some (default_retry_policy\<lparr>rp_max_attempts := 1\<rparr>)) 0 [])) ''ag'' ''Agent''
      [(''event_id'', JStr ''e1'')] None = (Some ''job-2'', Some s') \<and>
    get_run (sql_step rowid_order)
      (record_failure (sql_step rowid_order) (Some s') (Some ''job-2'') ''boom'' 9) ''job-2'' = Inr (Some d2) \<and>
    obj_get d2 ''status'' = JStr ''failed''"
proof -
  let ?p = "default_retry_policy\<lparr>rp_max_attempts := 1\<rparr>"
  have "backoff_seconds ?p n = backoff_seconds default_retry_policy n" for n
    by (simp add: backoff_seconds_def)
  then have us: "policy_us ?p" using policy_us_default unfolding policy_us_def by simp
  obtain job where job: "run_job (\<lambda>v. []) ''1'' ''2'' 7 ''ag'' ''Agent'' [(''event_id'', JStr ''e1'')] None = Inr job"
    "j_id job = ''job-2''"
    by (auto simp: run_job_def obj_get_def get_or_empty_def Let_def new_execution_job_def)
  from run_lifecycle [OF sql_inv_init [OF us] _ job(1), of 0 rowid_order None 9 "''boom''"]
  show ?thesis by (auto simp: job(2) spec_known_def simp del: sql_step.simps)
qed

end
