(* ===== verification/Scheduler.thy ===== *)
theory Scheduler
  imports PyTime PyStr
begin

text \<open>
  Time-based triggers: the schedule of an agent (\<open>AgentSchedule\<close> in
  \<open>backend/agents/config.py\<close>) and the scheduler that fires agents
  (\<open>backend/agents/scheduler.py\<close>). The time zone database is the argument \<open>zone\<close>: for a key
  it gives the offset of local time at each instant, or the exception \<open>ZoneInfo(key)\<close> raises.
\<close>

datatype zone_lookup = ZoneOk "datetime \<Rightarrow> int" | ZoneNotFound | ZoneInvalidKey

type_synonym zone_db = "string \<Rightarrow> zone_lookup"

section \<open>Schedules\<close>

record agent_schedule =
  as_day_of_week :: int
  as_hour :: int
  as_minute :: int
  as_timezone :: string

definition WEEKDAY_NAMES :: "(string, int) dict" where
  "WEEKDAY_NAMES =
     [(''monday'', 0), (''tuesday'', 1), (''wednesday'', 2), (''thursday'', 3), (''friday'', 4),
      (''saturday'', 5), (''sunday'', 6)]"

definition WEEKDAY_DISPLAY :: "string list" where
  "WEEKDAY_DISPLAY =
     [''Monday'', ''Tuesday'', ''Wednesday'', ''Thursday'', ''Friday'', ''Saturday'', ''Sunday'']"

definition schedule_day :: "json \<Rightarrow> int option" where
  "schedule_day raw_day =
     (case raw_day of
        JStr s \<Rightarrow> map_of WEEKDAY_NAMES (lower s)
      | JInt n \<Rightarrow> Some n
      | JBool b \<Rightarrow> Some (if b then 1 else 0)
      | _ \<Rightarrow> None)"

definition schedule_time :: "json_obj \<Rightarrow> (int \<times> int) option" where
  "schedule_time data =
     (case obj_get data ''time'' of
        JStr (c # cs) \<Rightarrow>
          (let parts = split_on (CHR '':'') (c # cs)
           in Option.bind (py_int (parts ! 0)) (\<lambda>hour.
              Option.bind (if 1 < length parts then py_int (parts ! 1) else Some 0) (\<lambda>minute.
              Some (hour, minute))))
      | _ \<Rightarrow>
          Option.bind (json_int (get_default data ''hour'' (JInt 0))) (\<lambda>hour.
          Option.bind (json_int (get_default data ''minute'' (JInt 0))) (\<lambda>minute.
          Some (hour, minute))))"

text \<open>
  \<open>AgentSchedule.from_dict\<close>: \<open>Inr None\<close> is "no schedule", \<open>Inl\<close> the \<open>ValueError\<close> of a
  malformed time zone key, which the code does not catch.
\<close>

definition schedule_from_dict ::
    "zone_db \<Rightarrow> (json \<Rightarrow> string) \<Rightarrow> json_obj \<Rightarrow> string + agent_schedule option" where
  "schedule_from_dict zone str_of data =
     (if data = [] then Inr None
      else case schedule_day (obj_get data ''day_of_week'') of
        None \<Rightarrow> Inr None
      | Some day \<Rightarrow>
          if \<not> (0 \<le> day \<and> day \<le> 6) then Inr None
          else (case schedule_time data of
             None \<Rightarrow> Inr None
           | Some (hour, minute) \<Rightarrow>
               if \<not> (0 \<le> hour \<and> hour \<le> 23 \<and> 0 \<le> minute \<and> minute \<le> 59) then Inr None
               else let tz = (case get_default data ''timezone'' (JStr ''UTC'') of
                                JStr s \<Rightarrow> s | v \<Rightarrow> str_of v)
                    in (case zone tz of
                          ZoneNotFound \<Rightarrow> Inr None
                        | ZoneInvalidKey \<Rightarrow> Inl tz
                        | ZoneOk offset \<Rightarrow>
                            Inr (Some \<lparr>as_day_of_week = day, as_hour = hour, as_minute = minute,
                                       as_timezone = tz\<rparr>))))"

definition day_name :: "agent_schedule \<Rightarrow> string" where
  "day_name s = WEEKDAY_DISPLAY ! nat (as_day_of_week s)"

definition to_cron :: "agent_schedule \<Rightarrow> string" where
  "to_cron s =
     (let cron_dow = (as_day_of_week s + 1) mod 7
      in string_of_int (as_minute s) @ '' '' @ string_of_int (as_hour s) @ '' * * '' @
         string_of_int cron_dow)"

definition schedule_to_dict :: "agent_schedule \<Rightarrow> json_obj" where
  "schedule_to_dict s =
     [(''day_of_week'', JInt (as_day_of_week s)), (''day_name'', JStr (day_name s)),
      (''hour'', JInt (as_hour s)), (''minute'', JInt (as_minute s)),
      (''timezone'', JStr (as_timezone s)), (''cron'', JStr (to_cron s))]"

section \<open>The scheduler\<close>

type_synonym minute_key = "int \<times> int \<times> int \<times> int \<times> int"

record sched_config =
  sg_name :: string
  sg_schedule :: "agent_schedule option"

text \<open>Workers are references \<open>'wk\<close>; what is put on their queues is returned by each check.\<close>

record 'wk scheduler =
  sc_entries :: "(string, sched_config \<times> 'wk) dict"
  sc_last_fired :: "(string, minute_key) dict"
  sc_running :: bool

definition sched_init :: "'wk scheduler" where
  "sched_init = \<lparr>sc_entries = [], sc_last_fired = [], sc_running = False\<rparr>"

definition sched_register :: "'wk scheduler \<Rightarrow> string \<Rightarrow> sched_config \<Rightarrow> 'wk \<Rightarrow> 'wk scheduler" where
  "sched_register s agent_id config worker =
     (case sg_schedule config of
        None \<Rightarrow> s
      | Some _ \<Rightarrow> s\<lparr>sc_entries := dict_set (sc_entries s) agent_id (config, worker)\<rparr>)"

definition sched_unregister :: "'wk scheduler \<Rightarrow> string \<Rightarrow> 'wk scheduler" where
  "sched_unregister s agent_id =
     s\<lparr>sc_entries := dict_del (sc_entries s) agent_id,
       sc_last_fired := dict_del (sc_last_fired s) agent_id\<rparr>"

text \<open>Wall clock of an instant under an offset: weekday (0 is Monday) and minute key.\<close>

definition local_time :: "(datetime \<Rightarrow> int) \<Rightarrow> datetime \<Rightarrow> int" where
  "local_time offset t = t + offset t"

definition local_day :: "int \<Rightarrow> int" where
  "local_day l = l div us_per_day"

definition weekday :: "int \<Rightarrow> int" where
  "weekday l = (local_day l + 3) mod 7"

definition hour_of :: "int \<Rightarrow> int" where
  "hour_of l = l mod us_per_day div 3600000000"

definition minute_of :: "int \<Rightarrow> int" where
  "minute_of l = l mod us_per_day div 60000000 mod 60"

definition minute_key_of :: "int \<Rightarrow> minute_key" where
  "minute_key_of l =
     (case civil_of_days (local_day l) of (y, m, d) \<Rightarrow> (y, m, d, hour_of l, minute_of l))"

definition schedule_due :: "agent_schedule \<Rightarrow> int \<Rightarrow> bool" where
  "schedule_due sch l =
     (weekday l = as_day_of_week sch \<and> hour_of l = as_hour sch \<and> minute_of l = as_minute sch)"

definition build_payload :: "string \<Rightarrow> sched_config \<Rightarrow> datetime \<Rightarrow> json_obj" where
  "build_payload uuid config fired_at =
     [(''event_id'', JStr (''sched-'' @ uuid)),
      (''event_type'', JStr ''scheduled_trigger''),
      (''occurred_at'', JStr (iso_z fired_at)),
      (''origin'', JObj [(''event_origin'', JStr ''scheduler''), (''event_session_id'', JNull),
                         (''event_correlation_id'', JNull)]),
      (''schedule'', JObj (case sg_schedule config of None \<Rightarrow> [] | Some sch \<Rightarrow> schedule_to_dict sch)),
      (''entity'', JNull),
      (''subscription'', JNull)]"

text \<open>
  One turn of the loop in \<open>_check_and_fire\<close>: the payload put on the worker's queue, if any.
  An exception (an invalid zone key) ends the whole check.
\<close>

definition sched_visit ::
    "zone_db \<Rightarrow> datetime \<Rightarrow> string \<Rightarrow> string \<Rightarrow> sched_config \<Rightarrow> (string, minute_key) dict \<Rightarrow>
     string + (minute_key \<times> json_obj) option \<times> (string, minute_key) dict" where
  "sched_visit zone now uuid agent_id config last_fired =
     (case sg_schedule config of
        None \<Rightarrow> Inr (None, last_fired)
      | Some schedule \<Rightarrow>
     (case (case zone (as_timezone schedule) of ZoneNotFound \<Rightarrow> zone ''UTC'' | z \<Rightarrow> z) of
        ZoneOk offset \<Rightarrow>
          (let l = local_time offset now in
           if \<not> schedule_due schedule l then Inr (None, last_fired)
           else if map_of last_fired agent_id = Some (minute_key_of l) then Inr (None, last_fired)
           else Inr (Some (minute_key_of l, build_payload uuid config now),
                     dict_set last_fired agent_id (minute_key_of l)))
      | _ \<Rightarrow> Inl (as_timezone schedule)))"

text \<open>
  \<open>_check_and_fire\<close> over the snapshot of the entries: \<open>clock\<close> and \<open>uuid\<close> are what each agent's
  turn reads. The payloads put on worker queues come in order, with the agent and the minute.
\<close>

fun sched_loop ::
    "zone_db \<Rightarrow> (string \<Rightarrow> datetime) \<Rightarrow> (string \<Rightarrow> string) \<Rightarrow> (string \<times> sched_config \<times> 'wk) list \<Rightarrow>
     (string, minute_key) dict \<Rightarrow>
     (string \<times> 'wk \<times> minute_key \<times> json_obj) list \<times> (string, minute_key) dict \<times> string option" where
  "sched_loop zone clock uuid [] last_fired = ([], last_fired, None)"
| "sched_loop zone clock uuid ((agent_id, config, worker) # rest) last_fired =
     (case sched_visit zone (clock agent_id) (uuid agent_id) agent_id config last_fired of
        Inl exc \<Rightarrow> ([], last_fired, Some exc)
      | Inr (fire, last_fired') \<Rightarrow>
          (case sched_loop zone clock uuid rest last_fired' of
             (fires, last_fired'', exc) \<Rightarrow>
               ((case fire of None \<Rightarrow> [] | Some (key, payload) \<Rightarrow> [(agent_id, worker, key, payload)]) @ fires,
                last_fired'', exc)))"

definition check_and_fire ::
    "zone_db \<Rightarrow> (string \<Rightarrow> datetime) \<Rightarrow> (string \<Rightarrow> string) \<Rightarrow> 'wk scheduler \<Rightarrow>
     (string \<times> 'wk \<times> minute_key \<times> json_obj) list \<times> 'wk scheduler \<times> string option" where
  "check_and_fire zone clock uuid s =
     (case sched_loop zone clock uuid (sc_entries s) (sc_last_fired s) of
        (fires, last_fired, exc) \<Rightarrow> (fires, s\<lparr>sc_last_fired := last_fired\<rparr>, exc))"

definition sched_start :: "'wk scheduler \<Rightarrow> 'wk scheduler" where
  "sched_start s = (if sc_running s then s else s\<lparr>sc_running := True\<rparr>)"

definition sched_stop :: "'wk scheduler \<Rightarrow> 'wk scheduler" where
  "sched_stop s = s\<lparr>sc_running := False\<rparr>"

text \<open>The background thread: one check per wake-up while it runs; an exception is logged.\<close>

fun sched_run ::
    "zone_db \<Rightarrow> (nat \<Rightarrow> string \<Rightarrow> string) \<Rightarrow> (string \<Rightarrow> datetime) list \<Rightarrow> 'wk scheduler \<Rightarrow>
     (string \<times> 'wk \<times> minute_key \<times> json_obj) list \<times> 'wk scheduler" where
  "sched_run zone uuid [] s = ([], s)"
| "sched_run zone uuid (clock # clocks) s =
     (if \<not> sc_running s then ([], s)
      else case check_and_fire zone clock (uuid (length clocks)) s of
        (fires, s', exc) \<Rightarrow>
          (case sched_run zone uuid clocks s' of (fires', s'') \<Rightarrow> (fires @ fires', s'')))"

section \<open>One agent at a time\<close>

definition resolve_zone :: "zone_db \<Rightarrow> string \<Rightarrow> zone_lookup" where
  "resolve_zone zone tz = (case zone tz of ZoneNotFound \<Rightarrow> zone ''UTC'' | z \<Rightarrow> z)"

definition zones_ok :: "zone_db \<Rightarrow> (string \<times> sched_config \<times> 'wk) list \<Rightarrow> bool" where
  "zones_ok zone es \<longleftrightarrow>
     (\<forall>(i, c, w) \<in> set es. case sg_schedule c of None \<Rightarrow> True
        | Some sch \<Rightarrow> (case resolve_zone zone (as_timezone sch) of ZoneOk off \<Rightarrow> True | _ \<Rightarrow> False))"

definition fires_of :: "string \<Rightarrow> (string \<times> 'wk \<times> minute_key \<times> json_obj) list \<Rightarrow> minute_key list" where
  "fires_of a fires = map (\<lambda>(i, w, k, p). k) (filter (\<lambda>(i, w, k, p). i = a) fires)"

lemma fires_of_simps [simp]:
  "fires_of a [] = []"
  "fires_of a ((i, w, k, p) # fires) = (if i = a then k # fires_of a fires else fires_of a fires)"
  "fires_of a (fs @ fs') = fires_of a fs @ fires_of a fs'"
  by (simp_all add: fires_of_def)

text \<open>What a check does for one agent with a schedule and an offset.\<close>

definition agent_key :: "(datetime \<Rightarrow> int) \<Rightarrow> datetime \<Rightarrow> minute_key" where
  "agent_key off t = minute_key_of (local_time off t)"

definition agent_due :: "agent_schedule \<Rightarrow> (datetime \<Rightarrow> int) \<Rightarrow> datetime \<Rightarrow> bool" where
  "agent_due sch off t = schedule_due sch (local_time off t)"

definition agent_step ::
    "agent_schedule \<Rightarrow> (datetime \<Rightarrow> int) \<Rightarrow> datetime \<Rightarrow> minute_key option \<Rightarrow>
     minute_key list \<times> minute_key option" where
  "agent_step sch off t prev =
     (if agent_due sch off t \<and> prev \<noteq> Some (agent_key off t)
      then ([agent_key off t], Some (agent_key off t)) else ([], prev))"

fun agent_run ::
    "agent_schedule \<Rightarrow> (datetime \<Rightarrow> int) \<Rightarrow> datetime list \<Rightarrow> minute_key option \<Rightarrow> minute_key list" where
  "agent_run sch off [] prev = []"
| "agent_run sch off (t # ts) prev =
     (case agent_step sch off t prev of (ks, prev') \<Rightarrow> ks @ agent_run sch off ts prev')"

definition visit_ok ::
    "zone_db \<Rightarrow> datetime \<Rightarrow> sched_config \<Rightarrow> minute_key option \<Rightarrow> minute_key list \<Rightarrow>
     minute_key option \<Rightarrow> bool" where
  "visit_ok zone t c prev ks prev' =
     (case sg_schedule c of
        None \<Rightarrow> ks = [] \<and> prev' = prev
      | Some sch \<Rightarrow> (case resolve_zone zone (as_timezone sch) of
          ZoneOk off \<Rightarrow> (ks, prev') = agent_step sch off t prev | _ \<Rightarrow> False))"

lemma sched_visit_ok:
  assumes "zones_ok zone [(i, c, w)]"
  shows "\<exists>fire lf'. sched_visit zone t u i c lf = Inr (fire, lf') \<and>
    visit_ok zone t c (map_of lf i) (case fire of None \<Rightarrow> [] | Some (k, p) \<Rightarrow> [k]) (map_of lf' i) \<and>
    (\<forall>a. a \<noteq> i \<longrightarrow> map_of lf' a = map_of lf a)"
proof (cases "sg_schedule c")
  case None
  then show ?thesis by (simp add: sched_visit_def visit_ok_def)
next
  case (Some sch)
  with assms obtain off where z: "resolve_zone zone (as_timezone sch) = ZoneOk off"
    by (auto simp: zones_ok_def split: zone_lookup.splits)
  let ?k = "minute_key_of (local_time off t)"
  show ?thesis
  proof (cases "schedule_due sch (local_time off t) \<and> map_of lf i \<noteq> Some ?k")
    case True
    then have "sched_visit zone t u i c lf = Inr (Some (?k, build_payload u c t), dict_set lf i ?k)"
      using Some z by (simp add: sched_visit_def resolve_zone_def Let_def)
    moreover have "visit_ok zone t c (map_of lf i) [?k] (Some ?k)"
      using Some z True by (simp add: visit_ok_def agent_step_def agent_due_def agent_key_def)
    ultimately show ?thesis by (intro exI conjI) (assumption, simp_all)
  next
    case False
    then have "sched_visit zone t u i c lf = Inr (None, lf)"
      using Some z by (auto simp: sched_visit_def resolve_zone_def Let_def)
    moreover have "visit_ok zone t c (map_of lf i) [] (map_of lf i)"
      using Some z False by (auto simp: visit_ok_def agent_step_def agent_due_def agent_key_def)
    ultimately show ?thesis by (intro exI conjI) (assumption, simp_all)
  qed
qed

lemma sched_loop_other:
  assumes "sched_loop zone clock uuid es lf = (fires, lf', exc)" and "a \<notin> fst ` set es"
  shows "fires_of a fires = [] \<and> map_of lf' a = map_of lf a"
  using assms
proof (induction es arbitrary: lf fires lf' exc)
  case (Cons e es)
  obtain i c w where e: "e = (i, c, w)" by (cases e)
  show ?case
  proof (cases "sched_visit zone (clock i) (uuid i) i c lf")
    case (Inl x)
    with Cons.prems e show ?thesis by auto
  next
    case (Inr r)
    obtain fire lf1 where r: "r = (fire, lf1)" by (cases r)
    obtain fs lf2 ex where l: "sched_loop zone clock uuid es lf1 = (fs, lf2, ex)" by (cases "sched_loop zone clock uuid es lf1")
    have "map_of lf1 a = map_of lf a"
      using Inr r Cons.prems(2) e
      by (auto simp: sched_visit_def Let_def split: option.splits zone_lookup.splits if_splits)
    with Cons.IH [OF l] Cons.prems e Inr r l show ?thesis by (auto split: option.splits)
  qed
qed simp

lemma sched_loop_agent:
  assumes "sched_loop zone clock uuid es lf = (fires, lf', exc)" and "zones_ok zone es"
    and "distinct (map fst es)"
  shows "exc = None \<and> (\<forall>(i, c, w) \<in> set es.
    visit_ok zone (clock i) c (map_of lf i) (fires_of i fires) (map_of lf' i))"
  using assms
proof (induction es arbitrary: lf fires lf' exc)
  case (Cons e es)
  obtain i c w where e: "e = (i, c, w)" by (cases e)
  have z: "zones_ok zone [(i, c, w)]" "zones_ok zone es"
    using Cons.prems(2) by (auto simp: zones_ok_def e)
  from sched_visit_ok [OF z(1)] obtain fire lf1 where
    v: "sched_visit zone (clock i) (uuid i) i c lf = Inr (fire, lf1)"
    and ok: "visit_ok zone (clock i) c (map_of lf i) (case fire of None \<Rightarrow> [] | Some (k, p) \<Rightarrow> [k]) (map_of lf1 i)"
    and frame: "\<And>a. a \<noteq> i \<Longrightarrow> map_of lf1 a = map_of lf a" by blast
  obtain fs lf2 ex where l: "sched_loop zone clock uuid es lf1 = (fs, lf2, ex)"
    by (cases "sched_loop zone clock uuid es lf1")
  from Cons.prems(1) e v l have out: "lf' = lf2" "exc = ex"
    and fires: "fires = (case fire of None \<Rightarrow> [] | Some (k, p) \<Rightarrow> [(i, w, k, p)]) @ fs"
    by auto
  have ni: "i \<notin> fst ` set es" using Cons.prems(3) e by force
  note other = sched_loop_other [OF l ni]
  from Cons.IH [OF l z(2)] Cons.prems(3) e have ex: "ex = None"
    and rest: "\<forall>(i, c, w) \<in> set es. visit_ok zone (clock i) c (map_of lf1 i) (fires_of i fs) (map_of lf2 i)"
    by auto
  have "fires_of i fires = (case fire of None \<Rightarrow> [] | Some (k, p) \<Rightarrow> [k])"
    using other by (auto simp: fires split: option.splits)
  with ok other have first: "visit_ok zone (clock i) c (map_of lf i) (fires_of i fires) (map_of lf' i)"
    by (simp add: out)
  have "visit_ok zone (clock a) d (map_of lf a) (fires_of a fires) (map_of lf' a)"
    if "(a, d, v) \<in> set es" for a d v
  proof -
    have "a \<noteq> i" using that ni by force
    moreover from this have "fires_of a fires = fires_of a fs"
      by (auto simp: fires split: option.splits)
    ultimately show ?thesis using rest that frame by (fastforce simp: out)
  qed
  with first ex out show ?case by (auto simp: e)
qed simp

lemma check_and_fire_frame:
  "check_and_fire zone clock uuid s = (fires, s', exc) \<Longrightarrow>
   sc_entries s' = sc_entries s \<and> sc_running s' = sc_running s"
  by (auto simp: check_and_fire_def split: prod.splits)

text \<open>A whole run, seen by one agent.\<close>

lemma sched_run_agent:
  assumes "sc_running s" and "zones_ok zone (sc_entries s)" and "distinct (map fst (sc_entries s))"
    and "map_of (sc_entries s) a = Some (c, w)" and "sg_schedule c = Some sch"
    and "resolve_zone zone (as_timezone sch) = ZoneOk off"
  shows "fires_of a (fst (sched_run zone uuid clocks s)) =
    agent_run sch off (map (\<lambda>clock. clock a) clocks) (map_of (sc_last_fired s) a)"
  using assms(1-4)
proof (induction clocks arbitrary: s)
  case (Cons clock clocks)
  obtain fires s1 exc where ch: "check_and_fire zone clock (uuid (length clocks)) s = (fires, s1, exc)"
    by (cases "check_and_fire zone clock (uuid (length clocks)) s")
  obtain lf where lp: "sched_loop zone clock (uuid (length clocks)) (sc_entries s) (sc_last_fired s) = (fires, lf, exc)"
    and s1: "s1 = s\<lparr>sc_last_fired := lf\<rparr>"
    using ch by (auto simp: check_and_fire_def split: prod.splits)
  have "(a, c, w) \<in> set (sc_entries s)" using Cons.prems(4) by (rule map_of_SomeD)
  with sched_loop_agent [OF lp Cons.prems(2,3)]
  have "visit_ok zone (clock a) c (map_of (sc_last_fired s) a) (fires_of a fires) (map_of lf a)"
    by fastforce
  then have st: "agent_step sch off (clock a) (map_of (sc_last_fired s) a) = (fires_of a fires, map_of lf a)"
    by (simp add: visit_ok_def assms(5,6))
  obtain fs s2 where ru: "sched_run zone uuid clocks s1 = (fs, s2)" by fastforce
  from Cons.IH [of s1] Cons.prems have "fires_of a fs = agent_run sch off (map (\<lambda>clock. clock a) clocks) (map_of lf a)"
    by (simp add: s1 [symmetric] ru) (simp add: s1)
  with Cons.prems(1) ch ru st show ?case by simp
qed simp

section \<open>Exactly once per scheduled minute\<close>

lemma local_day_bounds: "us_per_day * local_day l \<le> l" "l < us_per_day * local_day l + us_per_day"
  by (simp_all add: local_day_def us_per_day_def)

lemma same_weekday:
  fixes d e :: int
  shows "(d + 3) mod 7 = (e + 3) mod 7 \<Longrightarrow> e - d > -3 \<Longrightarrow> d \<le> e"
  by presburger

lemma agent_due_day:
  assumes due: "agent_due sch off t" "agent_due sch off u" and le: "t \<le> u"
    and off: "\<bar>off t\<bar> < us_per_day" "\<bar>off u\<bar> < us_per_day"
  shows "local_day (local_time off t) \<le> local_day (local_time off u)"
proof -
  let ?d = "local_day (local_time off t)" and ?e = "local_day (local_time off u)"
  have week: "(?d + 3) mod 7 = (?e + 3) mod 7"
    using due by (simp add: agent_due_def schedule_due_def weekday_def)
  have "?e - ?d > -3"
    using local_day_bounds [of "local_time off t"] local_day_bounds [of "local_time off u"] le off
    unfolding local_time_def us_per_day_def by linarith
  with week show ?thesis by (rule same_weekday)
qed

lemma agent_key_day:
  assumes "agent_due sch off t" "agent_due sch off u"
  shows "agent_key off t = agent_key off u \<longleftrightarrow> local_day (local_time off t) = local_day (local_time off u)"
  using assms
  by (auto simp: agent_key_def minute_key_of_def agent_due_def schedule_due_def split: prod.splits)
    (metis civil_of_days_inject)+

lemma agent_run_once:
  assumes "sorted ts" and "\<forall>t. \<bar>off t\<bar> < us_per_day"
    and "case prev of None \<Rightarrow> True
      | Some k \<Rightarrow> \<exists>u. agent_due sch off u \<and> k = agent_key off u \<and> (\<forall>t \<in> set ts. u \<le> t)"
  shows "distinct (agent_run sch off ts prev) \<and>
    set (agent_run sch off ts prev) =
      agent_key off ` {t \<in> set ts. agent_due sch off t} - set_option prev"
  using assms(1,3)
proof (induction ts arbitrary: prev)
  case (Cons t ts)
  have le: "\<forall>x \<in> set ts. t \<le> x" and srt: "sorted ts" using Cons.prems(1) by auto
  show ?case
  proof (cases "agent_due sch off t \<and> prev \<noteq> Some (agent_key off t)")
    case True
    have IH: "distinct (agent_run sch off ts (Some (agent_key off t)))"
      "set (agent_run sch off ts (Some (agent_key off t))) =
         agent_key off ` {t \<in> set ts. agent_due sch off t} - {agent_key off t}"
      using Cons.IH [OF srt, of "Some (agent_key off t)"] True le by auto
    let ?A = "agent_key off ` {x \<in> set (t # ts). agent_due sch off x}"
    have fresh: "k \<notin> ?A" if prevk: "prev = Some k" for k
    proof
      assume "k \<in> agent_key off ` {x \<in> set (t # ts). agent_due sch off x}"
      then obtain x where x: "x \<in> set (t # ts)" "agent_due sch off x" "k = agent_key off x" by blast
      from Cons.prems(2) prevk obtain u where u: "agent_due sch off u" "k = agent_key off u" "u \<le> t" by auto
      have "t \<le> x" using x(1) le by auto
      have "local_day (local_time off u) = local_day (local_time off x)"
        using agent_key_day [OF u(1) x(2)] u(2) x(3) by simp
      moreover have "local_day (local_time off u) \<le> local_day (local_time off t)"
        "local_day (local_time off t) \<le> local_day (local_time off x)"
        using agent_due_day u x True \<open>t \<le> x\<close> assms(2) by blast+
      ultimately have "local_day (local_time off u) = local_day (local_time off t)" by simp
      with agent_key_day [OF u(1)] True u(2) prevk show False by auto
    qed
    have "?A - set_option prev = ?A"
    proof (cases prev)
      case (Some k)
      with fresh [OF Some] show ?thesis by (simp only: option.set) blast
    qed simp
    moreover have "?A = insert (agent_key off t) (agent_key off ` {x \<in> set ts. agent_due sch off x})"
      using True by auto
    ultimately show ?thesis using IH True by (auto simp: agent_step_def)
  next
    case False
    have "case prev of None \<Rightarrow> True
      | Some k \<Rightarrow> \<exists>u. agent_due sch off u \<and> k = agent_key off u \<and> (\<forall>t \<in> set ts. u \<le> t)"
      using Cons.prems(2) by (auto split: option.splits)
    with Cons.IH [OF srt this] False show ?thesis by (auto simp: agent_step_def)
  qed
qed simp

section \<open>Properties\<close>

definition schedule_valid :: "zone_db \<Rightarrow> agent_schedule \<Rightarrow> bool" where
  "schedule_valid zone s \<longleftrightarrow>
     0 \<le> as_day_of_week s \<and> as_day_of_week s \<le> 6 \<and> 0 \<le> as_hour s \<and> as_hour s \<le> 23 \<and>
     0 \<le> as_minute s \<and> as_minute s \<le> 59 \<and> (\<exists>off. zone (as_timezone s) = ZoneOk off)"

text \<open>C9: While the scheduler runs, an agent that has not fired yet fires exactly once for each
  local calendar minute of its schedule in which a check falls, and at no other time, also
  across changes of the zone's offset; the order of the agents and what the others do does not
  matter.\<close>

theorem scheduled_exactly_once:
  assumes "sc_running s" and "zones_ok zone (sc_entries s)" and "distinct (map fst (sc_entries s))"
    and "map_of (sc_entries s) a = Some (c, w)" and "sg_schedule c = Some sch"
    and "resolve_zone zone (as_timezone sch) = ZoneOk off" and "\<forall>t. \<bar>off t\<bar> < us_per_day"
    and "sorted (map (\<lambda>clock. clock a) clocks)" and "map_of (sc_last_fired s) a = None"
  shows "distinct (fires_of a (fst (sched_run zone uuid clocks s))) \<and>
    set (fires_of a (fst (sched_run zone uuid clocks s))) =
      (\<lambda>clock. minute_key_of (local_time off (clock a))) `
        {clock \<in> set clocks. schedule_due sch (local_time off (clock a))}"
proof -
  let ?ts = "map (\<lambda>clock. clock a) clocks"
  have "distinct (agent_run sch off ?ts None) \<and>
    set (agent_run sch off ?ts None) = agent_key off ` {t \<in> set ?ts. agent_due sch off t} - set_option None"
    by (rule agent_run_once [OF assms(8,7)]) simp
  then show ?thesis
    unfolding sched_run_agent [OF assms(1-6)] assms(9)
    by (auto simp: agent_key_def agent_due_def)
qed

definition demo_scheduler :: "unit scheduler" where
  "demo_scheduler =
     sched_start (sched_register sched_init ''a''
       \<lparr>sg_name = ''A'', sg_schedule = Some \<lparr>as_day_of_week = 3, as_hour = 0, as_minute = 1, as_timezone = ''UTC''\<rparr>\<rparr> ())"

theorem scheduled_exactly_once_witness:
  "set (fires_of ''a'' (fst (sched_run (\<lambda>key. ZoneOk (\<lambda>t. 0)) (\<lambda>n i. ''u'')
     [\<lambda>i. 30000000, \<lambda>i. 60000000, \<lambda>i. 90000000, \<lambda>i. 120000000] demo_scheduler))) = {(1970, 1, 1, 0, 1)} \<and>
   distinct (fires_of ''a'' (fst (sched_run (\<lambda>key. ZoneOk (\<lambda>t. 0)) (\<lambda>n i. ''u'')
     [\<lambda>i. 30000000, \<lambda>i. 60000000, \<lambda>i. 90000000, \<lambda>i. 120000000] demo_scheduler)))"
proof -
  let ?sch = "\<lparr>as_day_of_week = 3, as_hour = 0, as_minute = 1, as_timezone = ''UTC''\<rparr>"
  let ?c = "\<lparr>sg_name = ''A'', sg_schedule = Some ?sch\<rparr>"
  let ?clocks = "[\<lambda>i. 30000000, \<lambda>i. 60000000, \<lambda>i. 90000000, \<lambda>i. 120000000] :: (string \<Rightarrow> int) list"
  have s: "sc_entries demo_scheduler = [(''a'', ?c, ())]" "sc_running demo_scheduler"
    "sc_last_fired demo_scheduler = []"
    by (simp_all add: demo_scheduler_def sched_register_def sched_init_def sched_start_def)
  have ok: "zones_ok (\<lambda>key. ZoneOk (\<lambda>t. 0)) (sc_entries demo_scheduler)"
    by (simp add: s zones_ok_def resolve_zone_def)
  have key: "minute_key_of 60000000 = (1970, 1, 1, 0, 1)" "minute_key_of 90000000 = (1970, 1, 1, 0, 1)"
    by code_simp+
  have due: "\<not> schedule_due ?sch 30000000" "schedule_due ?sch 60000000" "schedule_due ?sch 90000000"
    "\<not> schedule_due ?sch 120000000"
    by code_simp+
  have loc: "local_time (\<lambda>t. 0) t = t" for t by (simp add: local_time_def)
  have "{clock \<in> set ?clocks. schedule_due ?sch (local_time (\<lambda>t. 0) (clock ''a''))} =
      {\<lambda>i. 60000000, \<lambda>i. 90000000}"
    unfolding loc using due by auto
  then have img: "(\<lambda>clock. minute_key_of (local_time (\<lambda>t. 0) (clock ''a''))) `
      {clock \<in> set ?clocks. schedule_due ?sch (local_time (\<lambda>t. 0) (clock ''a''))} = {(1970, 1, 1, 0, 1)}"
    by (simp only: image_insert image_empty loc key insert_absorb2)
  have "distinct (map fst (sc_entries demo_scheduler))" "map_of (sc_entries demo_scheduler) ''a'' = Some (?c, ())"
    "sg_schedule ?c = Some ?sch" "resolve_zone (\<lambda>key. ZoneOk (\<lambda>t. 0)) (as_timezone ?sch) = ZoneOk (\<lambda>t. 0)"
    "\<forall>t::datetime. \<bar>(\<lambda>t. 0) t\<bar> < us_per_day" "sorted (map (\<lambda>clock. clock ''a'') ?clocks)"
    "map_of (sc_last_fired demo_scheduler) ''a'' = None"
    by (simp_all add: s resolve_zone_def us_per_day_def)
  from scheduled_exactly_once [OF s(2) ok this, of "\<lambda>n i. ''u''", unfolded img]
  show ?thesis by (simp only: simp_thms)
qed

text \<open>A schedule that \<open>from_dict\<close> accepts has its day, hour and minute in range and a known
  time zone; written by \<open>to_dict\<close> it is read back unchanged.\<close>

theorem schedule_roundtrip:
  "(schedule_from_dict zone str_of data = Inr (Some sch) \<longrightarrow> schedule_valid zone sch) \<and>
   (schedule_valid zone sch \<longrightarrow>
     schedule_from_dict zone str_of (schedule_to_dict sch) = Inr (Some sch))"
proof (intro conjI impI)
  assume e: "schedule_from_dict zone str_of data = Inr (Some sch)"
  define tz where "tz = (case get_default data ''timezone'' (JStr ''UTC'') of JStr s \<Rightarrow> s | v \<Rightarrow> str_of v)"
  note e = e [unfolded schedule_from_dict_def Let_def tz_def [symmetric]]
  obtain day where day: "schedule_day (obj_get data ''day_of_week'') = Some day" "0 \<le> day" "day \<le> 6"
    using e by (cases "schedule_day (obj_get data ''day_of_week'')") (simp_all split: if_splits)
  note e = e [unfolded day(1) option.case]
  obtain hour minute where time: "schedule_time data = Some (hour, minute)" "0 \<le> hour" "hour \<le> 23"
    "0 \<le> minute" "minute \<le> 59"
    using e day by (cases "schedule_time data") (simp_all split: if_splits prod.splits)
  obtain off where "zone tz = ZoneOk off"
    using e day time by (cases "zone tz") (simp_all split: if_splits)
  with e day time show "schedule_valid zone sch" by (auto simp: schedule_valid_def split: if_splits)
next
  assume "schedule_valid zone sch"
  then obtain off where v: "zone (as_timezone sch) = ZoneOk off" "0 \<le> as_day_of_week sch"
    "as_day_of_week sch \<le> 6" "0 \<le> as_hour sch" "as_hour sch \<le> 23" "0 \<le> as_minute sch" "as_minute sch \<le> 59"
    by (auto simp: schedule_valid_def)
  let ?d = "schedule_to_dict sch"
  have fields: "obj_get ?d ''day_of_week'' = JInt (as_day_of_week sch)" "obj_get ?d ''time'' = JNull"
    "get_default ?d ''hour'' (JInt 0) = JInt (as_hour sch)"
    "get_default ?d ''minute'' (JInt 0) = JInt (as_minute sch)"
    "get_default ?d ''timezone'' (JStr ''UTC'') = JStr (as_timezone sch)" "?d \<noteq> []"
    by (simp_all add: schedule_to_dict_def obj_get_def get_default_def)
  have "schedule_time ?d = Some (as_hour sch, as_minute sch)"
    by (simp add: schedule_time_def fields json_int_def)
  with v fields show "schedule_from_dict zone str_of ?d = Inr (Some sch)"
    by (simp add: schedule_from_dict_def schedule_day_def)
qed

theorem schedule_roundtrip_witness:
  "schedule_from_dict (\<lambda>key. ZoneOk (\<lambda>t. 0)) (\<lambda>v. [])
     (schedule_to_dict \<lparr>as_day_of_week = 3, as_hour = 0, as_minute = 1, as_timezone = ''UTC''\<rparr>) =
   Inr (Some \<lparr>as_day_of_week = 3, as_hour = 0, as_minute = 1, as_timezone = ''UTC''\<rparr>)"
  by (rule schedule_roundtrip [THEN conjunct2, rule_format]) (simp add: schedule_valid_def)

end
