(* ===== verification/SessionIds.thy ===== *)
theory SessionIds
  imports PyStr
begin

text \<open>
  The format of session ids: \<open>SESSION_ID_RE\<close> of \<open>backend/core/session_registry.py\<close>, which
  \<open>backend/core/session_store.py\<close> repeats.
\<close>

definition digits :: "nat \<Rightarrow> string \<Rightarrow> string option" where
  "digits n s = (if n \<le> length s \<and> (\<forall>c \<in> set (take n s). is_digit c) then Some (drop n s) else None)"

definition dash :: "string \<Rightarrow> string option" where
  "dash s = (case s of [] \<Rightarrow> None | c # cs \<Rightarrow> if c = CHR ''-'' then Some cs else None)"

text \<open>\<open>$\<close> matches at the end of the string and before a newline that ends it.\<close>

definition at_end :: "string \<Rightarrow> bool" where
  "at_end s = (s = [] \<or> s = [CHR 10])"

text \<open>\<open>SESSION_ID_RE.match\<close>: four digits, dash, four digits, and optionally two more groups.\<close>

definition two_groups :: "string \<Rightarrow> string option" where
  "two_groups s = Option.bind (Option.bind (digits 4 s) dash) (digits 4)"

definition is_valid_session_id :: "string \<Rightarrow> bool" where
  "is_valid_session_id s =
     (case two_groups s of
        None \<Rightarrow> False
      | Some r \<Rightarrow>
          (case Option.bind (dash r) two_groups of Some r2 \<Rightarrow> at_end r2 | None \<Rightarrow> False) \<or> at_end r)"

end
