(* ===== verification/SessionRegistry.thy ===== *)
theory SessionRegistry
  imports SessionIds
begin

text \<open>
  The push channel of visualization sessions (\<open>backend/core/session_registry.py\<close>): session
  entries, bounded command queues, trigger tokens and eviction. Queues are objects the
  source shares by reference (a consumer may wait on the queue of an entry that was evicted
  since), so entries hold queue references into a heap of queues. \<open>call_soon\<close> puts a callback
  on the loop's list; it runs later. Times are readings of the monotonic clock in seconds.
\<close>

section \<open>State\<close>

definition SESSION_TTL :: rat where
  "SESSION_TTL = 3600"

definition MAX_QUEUE_SIZE :: nat where
  "MAX_QUEUE_SIZE = 1000"

record session_entry =
  se_queue :: nat
  se_created_at :: rat
  se_last_seen :: rat
  se_trigger_token :: "string option"

record session_registry =
  rg_sessions :: "(string, session_entry) dict"
  rg_loop_set :: bool
  rg_queues :: "nat \<Rightarrow> json_obj list"
  rg_next :: nat
  rg_callbacks :: "(nat \<times> json_obj) list"

definition registry_init :: session_registry where
  "registry_init =
     \<lparr>rg_sessions = [], rg_loop_set = False, rg_queues = (\<lambda>q. []), rg_next = 0, rg_callbacks = []\<rparr>"

section \<open>Operations\<close>

definition set_event_loop :: "session_registry \<Rightarrow> session_registry" where
  "set_event_loop s = s\<lparr>rg_loop_set := True\<rparr>"

definition reg_get_or_create :: "session_registry \<Rightarrow> string \<Rightarrow> rat \<Rightarrow> nat \<times> session_registry" where
  "reg_get_or_create s session_id now =
     (case map_of (rg_sessions s) session_id of
        Some entry \<Rightarrow> (se_queue entry, s)
      | None \<Rightarrow>
          let q = rg_next s;
              entry = \<lparr>se_queue = q, se_created_at = now, se_last_seen = now, se_trigger_token = None\<rparr>
          in (q, s\<lparr>rg_sessions := dict_set (rg_sessions s) session_id entry,
                   rg_queues := (rg_queues s)(q := []), rg_next := q + 1\<rparr>))"

definition enqueue_drop_oldest :: "json_obj list \<Rightarrow> json_obj \<Rightarrow> json_obj list" where
  "enqueue_drop_oldest queue command =
     (if length queue < MAX_QUEUE_SIZE then queue @ [command]
      else let queue = (case queue of [] \<Rightarrow> [] | c # rest \<Rightarrow> rest)
           in if length queue < MAX_QUEUE_SIZE then queue @ [command] else queue)"

definition reg_touch :: "session_registry \<Rightarrow> string \<Rightarrow> rat \<Rightarrow> session_registry" where
  "reg_touch s session_id now =
     (case map_of (rg_sessions s) session_id of
        None \<Rightarrow> s
      | Some entry \<Rightarrow>
          s\<lparr>rg_sessions := dict_set (rg_sessions s) session_id (entry\<lparr>se_last_seen := now\<rparr>)\<rparr>)"

definition session_exists :: "session_registry \<Rightarrow> string \<Rightarrow> bool" where
  "session_exists s session_id = (map_of (rg_sessions s) session_id \<noteq> None)"

text \<open>\<open>token\<close> is the fresh secret \<open>secrets.token_urlsafe\<close> draws.\<close>

definition mint_trigger_token ::
    "session_registry \<Rightarrow> string \<Rightarrow> string \<Rightarrow> rat \<Rightarrow> string \<times> session_registry" where
  "mint_trigger_token s session_id token now =
     (let s1 = snd (reg_get_or_create s session_id now)
      in case map_of (rg_sessions s1) session_id of
           None \<Rightarrow> (token, s1)
         | Some entry \<Rightarrow>
             (token,
              reg_touch (s1\<lparr>rg_sessions := dict_set (rg_sessions s1) session_id
                              (entry\<lparr>se_trigger_token := Some token\<rparr>)\<rparr>) session_id now))"

datatype registry_error = TypeError string

definition ascii :: "string \<Rightarrow> bool" where
  "ascii s = (\<forall>c \<in> set s. code c < 128)"

text \<open>\<open>secrets.compare_digest\<close> of two strings: it raises on a string that is not ASCII.\<close>

definition compare_digest :: "string \<Rightarrow> string \<Rightarrow> registry_error + bool" where
  "compare_digest a b =
     (if ascii a \<and> ascii b then Inr (a = b)
      else Inl (TypeError ''comparing strings with non-ASCII characters is not supported''))"

definition verify_trigger_token ::
    "session_registry \<Rightarrow> string \<Rightarrow> string option \<Rightarrow> registry_error + bool" where
  "verify_trigger_token s session_id token =
     (case token of
        None \<Rightarrow> Inr False
      | Some t \<Rightarrow>
          if t = [] then Inr False
          else (case map_of (rg_sessions s) session_id of
            None \<Rightarrow> Inr False
          | Some entry \<Rightarrow>
              (case se_trigger_token entry of
                 None \<Rightarrow> Inr False
               | Some stored \<Rightarrow> if stored = [] then Inr False else compare_digest stored t)))"

text \<open>
  \<open>push_command_sync\<close>: \<open>in_loop\<close> says whether \<open>get_running_loop\<close> succeeds, \<open>loop_running\<close> whether
  the stored loop is running.
\<close>

definition push_command_sync ::
    "session_registry \<Rightarrow> string \<Rightarrow> json_obj \<Rightarrow> bool \<Rightarrow> bool \<Rightarrow> rat \<Rightarrow> bool \<times> session_registry" where
  "push_command_sync s session_id command in_loop loop_running now =
     (case map_of (rg_sessions s) session_id of
        None \<Rightarrow> (False, s)
      | Some entry \<Rightarrow>
          if in_loop \<or> (rg_loop_set s \<and> loop_running)
          then (True, reg_touch (s\<lparr>rg_callbacks := rg_callbacks s @ [(se_queue entry, command)]\<rparr>)
                        session_id now)
          else (False, s))"

text \<open>The loop runs the callback that was scheduled first.\<close>

definition run_callback :: "session_registry \<Rightarrow> session_registry" where
  "run_callback s =
     (case rg_callbacks s of
        [] \<Rightarrow> s
      | (q, command) # rest \<Rightarrow>
          s\<lparr>rg_callbacks := rest,
            rg_queues := (rg_queues s)(q := enqueue_drop_oldest (rg_queues s q) command)\<rparr>)"

definition push_command ::
    "session_registry \<Rightarrow> string \<Rightarrow> json_obj \<Rightarrow> rat \<Rightarrow> bool \<times> session_registry" where
  "push_command s session_id command now =
     (case map_of (rg_sessions s) session_id of
        None \<Rightarrow> (False, s)
      | Some entry \<Rightarrow>
          (True, reg_touch (s\<lparr>rg_queues := (rg_queues s)(se_queue entry :=
                    enqueue_drop_oldest (rg_queues s (se_queue entry)) command)\<rparr>) session_id now))"

text \<open>
  \<open>stream\<close>: each turn anchors to the current entry's queue, then yields the queue's next
  command, or a ping when the wait times out; other operations may run in between.
\<close>

definition stream_anchor :: "session_registry \<Rightarrow> string \<Rightarrow> rat \<Rightarrow> nat \<times> session_registry" where
  "stream_anchor s session_id now = reg_get_or_create s session_id now"

definition ping :: json_obj where
  "ping = [(''type'', JStr ''ping'')]"

definition stream_yield ::
    "session_registry \<Rightarrow> string \<Rightarrow> nat \<Rightarrow> rat \<Rightarrow> json_obj \<times> session_registry" where
  "stream_yield s session_id q now =
     (case rg_queues s q of
        command # rest \<Rightarrow> (command, reg_touch (s\<lparr>rg_queues := (rg_queues s)(q := rest)\<rparr>) session_id now)
      | [] \<Rightarrow> (ping, reg_touch s session_id now))"

definition cleanup_stale :: "session_registry \<Rightarrow> rat \<Rightarrow> nat \<times> session_registry" where
  "cleanup_stale s now =
     (let cutoff = now - SESSION_TTL;
          stale = map fst (filter (\<lambda>(sid, entry). se_last_seen entry < cutoff) (rg_sessions s))
      in (length stale, s\<lparr>rg_sessions := foldl dict_del (rg_sessions s) stale\<rparr>))"

definition session_count :: "session_registry \<Rightarrow> nat" where
  "session_count s = length (rg_sessions s)"

section \<open>Runs\<close>

datatype reg_op =
    RGetOrCreate string
  | RMint string string
  | RPushSync string json_obj bool bool
  | RCallback
  | RPush string json_obj
  | RAnchor string
  | RYield string nat
  | RCleanup

fun reg_step :: "session_registry \<Rightarrow> rat \<times> reg_op \<Rightarrow> session_registry" where
  "reg_step s (now, RGetOrCreate i) = snd (reg_get_or_create s i now)"
| "reg_step s (now, RMint i token) = snd (mint_trigger_token s i token now)"
| "reg_step s (now, RPushSync i c in_loop running) = snd (push_command_sync s i c in_loop running now)"
| "reg_step s (now, RCallback) = run_callback s"
| "reg_step s (now, RPush i c) = snd (push_command s i c now)"
| "reg_step s (now, RAnchor i) = snd (stream_anchor s i now)"
| "reg_step s (now, RYield i q) = snd (stream_yield s i q now)"
| "reg_step s (now, RCleanup) = snd (cleanup_stale s now)"

definition reg_run :: "session_registry \<Rightarrow> (rat \<times> reg_op) list \<Rightarrow> session_registry" where
  "reg_run s ops = foldl reg_step s ops"

lemma reg_run_simps [simp]:
  "reg_run s [] = s" "reg_run s (op # ops) = reg_run (reg_step s op) ops"
  "reg_run s (ops @ ops') = reg_run (reg_run s ops) ops'"
  by (simp_all add: reg_run_def)

section \<open>Bounded queues\<close>

lemma enqueue_drop_oldest_bound:
  "length q \<le> MAX_QUEUE_SIZE \<Longrightarrow> length (enqueue_drop_oldest q c) \<le> MAX_QUEUE_SIZE"
  by (auto simp: enqueue_drop_oldest_def MAX_QUEUE_SIZE_def Let_def split: list.splits)

lemma enqueue_drop_oldest_eq:
  assumes "length q \<le> MAX_QUEUE_SIZE"
  shows "enqueue_drop_oldest q c = drop (length (q @ [c]) - MAX_QUEUE_SIZE) (q @ [c])"
proof (cases "length q < MAX_QUEUE_SIZE")
  case True
  then show ?thesis by (simp add: enqueue_drop_oldest_def)
next
  case False
  with assms have l: "length q = MAX_QUEUE_SIZE" by simp
  then obtain x rest where q: "q = x # rest" by (cases q) (auto simp: MAX_QUEUE_SIZE_def)
  with l show ?thesis by (simp add: enqueue_drop_oldest_def Let_def)
qed

lemma enqueue_all:
  "length q \<le> MAX_QUEUE_SIZE \<Longrightarrow>
   foldl enqueue_drop_oldest q cs = drop (length (q @ cs) - MAX_QUEUE_SIZE) (q @ cs)"
proof (induction cs arbitrary: q)
  case (Cons c cs)
  let ?q = "enqueue_drop_oldest q c" and ?n = "length (q @ [c]) - MAX_QUEUE_SIZE"
  have q: "?q = drop ?n (q @ [c])" by (rule enqueue_drop_oldest_eq [OF Cons.prems])
  have "foldl enqueue_drop_oldest ?q cs = drop (length (?q @ cs) - MAX_QUEUE_SIZE) (?q @ cs)"
    by (rule Cons.IH [OF enqueue_drop_oldest_bound [OF Cons.prems]])
  also have "?q @ cs = drop ?n (q @ c # cs)" by (simp add: q MAX_QUEUE_SIZE_def)
  finally have "foldl enqueue_drop_oldest ?q cs =
      drop (length (q @ c # cs) - ?n - MAX_QUEUE_SIZE + ?n) (q @ c # cs)"
    by (simp only: length_drop drop_drop)
  moreover have "length (q @ c # cs) - ?n - MAX_QUEUE_SIZE + ?n = length (q @ c # cs) - MAX_QUEUE_SIZE"
    using Cons.prems by simp
  ultimately show ?case by simp
qed simp

definition queues_bounded :: "session_registry \<Rightarrow> bool" where
  "queues_bounded s \<longleftrightarrow> (\<forall>q. length (rg_queues s q) \<le> MAX_QUEUE_SIZE)"

lemma reg_touch_simps [simp]:
  "rg_queues (reg_touch s i now) = rg_queues s" "rg_next (reg_touch s i now) = rg_next s"
  "rg_callbacks (reg_touch s i now) = rg_callbacks s"
  by (simp_all add: reg_touch_def split: option.split)

lemma queue_tail_bound: "queues_bounded s \<Longrightarrow> rg_queues s q = c # rest \<Longrightarrow> length rest \<le> MAX_QUEUE_SIZE"
  by (metis Suc_leD length_Cons queues_bounded_def)

lemma reg_step_bounded: "queues_bounded s \<Longrightarrow> queues_bounded (reg_step s act)"
  using queue_tail_bound [of s]
  by (cases "(s, act)" rule: reg_step.cases)
    (auto simp: queues_bounded_def reg_get_or_create_def mint_trigger_token_def Let_def
      push_command_sync_def run_callback_def push_command_def stream_anchor_def stream_yield_def
      cleanup_stale_def split: option.split list.split intro: enqueue_drop_oldest_bound)

lemma reg_run_bounded: "queues_bounded s \<Longrightarrow> queues_bounded (reg_run s ops)"
  by (induction ops arbitrary: s) (auto intro: reg_step_bounded)

section \<open>Tokens\<close>

definition token_of :: "session_registry \<Rightarrow> string \<Rightarrow> string option" where
  "token_of s i = Option.bind (map_of (rg_sessions s) i) se_trigger_token"

lemma token_of_touch [simp]: "token_of (reg_touch s i now) j = token_of s j"
  by (auto simp: token_of_def reg_touch_def split: option.split)

lemma token_of_create [simp]: "token_of (snd (reg_get_or_create s i now)) j = token_of s j"
  by (auto simp: token_of_def reg_get_or_create_def Let_def split: option.split)

lemma token_of_update [simp]:
  "token_of (s\<lparr>rg_queues := qs\<rparr>) j = token_of s j" "token_of (s\<lparr>rg_callbacks := cs\<rparr>) j = token_of s j"
  "token_of (s\<lparr>rg_callbacks := cs, rg_queues := qs\<rparr>) j = token_of s j"
  by (simp_all add: token_of_def)

lemma reg_create_exists: "\<exists>e. map_of (rg_sessions (snd (reg_get_or_create s i now))) i = Some e"
  by (auto simp: reg_get_or_create_def Let_def split: option.split)

lemma token_of_mint: "token_of (snd (mint_trigger_token s i token now)) j = (if j = i then Some token else token_of s j)"
proof -
  obtain e where e: "map_of (rg_sessions (snd (reg_get_or_create s i now))) i = Some e"
    using reg_create_exists by blast
  show ?thesis
    using token_of_create [of s i now j, unfolded token_of_def]
    by (auto simp: mint_trigger_token_def Let_def e) (auto simp: token_of_def)
qed

lemma dict_del_all: "map_of (foldl dict_del d ks) k = (if k \<in> set ks then None else map_of d k)"
  by (induction ks arbitrary: d) auto

lemma token_of_cleanup:
  "token_of (snd (cleanup_stale s now)) i = token_of s i \<or> token_of (snd (cleanup_stale s now)) i = None"
  by (simp add: token_of_def cleanup_stale_def Let_def dict_del_all)

lemma cleanup_sessions:
  assumes "distinct (map fst (rg_sessions s))"
  shows "map_of (rg_sessions (snd (cleanup_stale s now))) i =
    (case map_of (rg_sessions s) i of
       None \<Rightarrow> None | Some e \<Rightarrow> if se_last_seen e < now - SESSION_TTL then None else Some e)"
  using dict_item [OF assms, of i]
  by (auto simp: cleanup_stale_def Let_def dict_del_all image_iff split: option.splits)

text \<open>Only a mint of the session itself gives it a token.\<close>

lemma reg_step_token:
  assumes "\<forall>t. snd act \<noteq> RMint i t"
  shows "token_of (reg_step s act) i = token_of s i \<or>
    snd act = RCleanup \<and> token_of (reg_step s act) i = None"
  using assms
  by (cases "(s, act)" rule: reg_step.cases)
    (use token_of_cleanup [of s _ i] in \<open>auto simp: token_of_mint push_command_sync_def
      run_callback_def push_command_def stream_anchor_def stream_yield_def split: option.split list.split\<close>)

lemma reg_run_token:
  "\<forall>act \<in> set ops. \<forall>t. snd act \<noteq> RMint i t \<Longrightarrow>
   (token_of (reg_run s ops) i = token_of s i \<or> token_of (reg_run s ops) i = None) \<and>
   (RCleanup \<notin> snd ` set ops \<longrightarrow> token_of (reg_run s ops) i = token_of s i)"
proof (induction ops arbitrary: s)
  case (Cons act ops)
  from reg_step_token [of act i s] Cons.prems
  have "token_of (reg_step s act) i = token_of s i \<or>
    snd act = RCleanup \<and> token_of (reg_step s act) i = None" by auto
  with Cons.IH [of "reg_step s act"] Cons.prems show ?case by auto
qed simp

lemma verify_token:
  assumes "ascii t" and "t \<noteq> []" and "\<And>x. token_of s i = Some x \<Longrightarrow> ascii x \<and> x \<noteq> []"
  shows "verify_trigger_token s i (Some t) = Inr (token_of s i = Some t)"
  using assms
  by (auto simp: verify_trigger_token_def token_of_def compare_digest_def split: option.splits)

lemma dash_Some: "dash s = Some r \<longleftrightarrow> s = ''-'' @ r"
  by (cases s) (auto simp: dash_def)

definition four :: "string \<Rightarrow> bool" where
  "four g \<longleftrightarrow> length g = 4 \<and> (\<forall>c \<in> set g. is_digit c)"

lemma digits_Some: "digits 4 s = Some r \<longleftrightarrow> (\<exists>g. four g \<and> s = g @ r)"
proof
  assume "digits 4 s = Some r"
  then have "four (take 4 s) \<and> s = take 4 s @ r"
    by (auto simp: digits_def four_def split: if_splits)
  then show "\<exists>g. four g \<and> s = g @ r" by blast
qed (auto simp: digits_def four_def)

lemma two_groups_Some: "two_groups s = Some r \<longleftrightarrow> (\<exists>a b. four a \<and> four b \<and> s = a @ ''-'' @ b @ r)"
  by (auto simp: two_groups_def bind_eq_Some_conv dash_Some digits_Some)

section \<open>Properties\<close>

text \<open>The accepted session ids are exactly four digits, a dash and four digits, with two more
  such groups or none, and, as \<open>$\<close> has it, with or without a newline at the end.\<close>

theorem valid_session_ids:
  "is_valid_session_id s \<longleftrightarrow>
     (\<exists>a b e. four a \<and> four b \<and> (e = [] \<or> e = [CHR 10]) \<and>
        (s = a @ ''-'' @ b @ e \<or> (\<exists>c d. four c \<and> four d \<and> s = a @ ''-'' @ b @ ''-'' @ c @ ''-'' @ d @ e)))"
proof -
  have nd: "four g \<Longrightarrow> g @ r \<noteq> CHR ''-'' # q" for g r q
    by (cases g) (auto simp: four_def is_digit_def code_def)
  have uniq: "four a \<Longrightarrow> four b \<Longrightarrow> four a' \<Longrightarrow> four b' \<Longrightarrow>
      a @ ''-'' @ b @ r = a' @ ''-'' @ b' @ r' \<Longrightarrow> r = r'" for a b a' b' r r'
    by (auto simp: four_def append_eq_append_conv)
  have "is_valid_session_id s \<longleftrightarrow> (\<exists>r. two_groups s = Some r \<and>
      ((\<exists>r1 r2. dash r = Some r1 \<and> two_groups r1 = Some r2 \<and> at_end r2) \<or> at_end r))"
    by (auto simp: is_valid_session_id_def bind_eq_Some_conv split: option.splits)
  also have "\<dots> \<longleftrightarrow> (\<exists>a b e. four a \<and> four b \<and> (e = [] \<or> e = [CHR 10]) \<and>
        (s = a @ ''-'' @ b @ e \<or> (\<exists>c d. four c \<and> four d \<and> s = a @ ''-'' @ b @ ''-'' @ c @ ''-'' @ d @ e)))"
    unfolding two_groups_Some dash_Some at_end_def by (rule iffI; elim exE conjE disjE; simp; blast)
  finally show ?thesis .
qed

text \<open>No queue ever holds more than 1000 commands, and pushing commands to a session keeps
  exactly the newest ones, in order.\<close>

theorem pushes_keep_newest:
  assumes "map_of (rg_sessions (reg_run registry_init ops)) i = Some e"
  shows "length (rg_queues (reg_run registry_init ops) q) \<le> 1000 \<and>
    rg_queues (reg_run registry_init (ops @ map (\<lambda>c. (t, RPush i c)) cs)) (se_queue e) =
      (let all = rg_queues (reg_run registry_init ops) (se_queue e) @ cs
       in drop (length all - 1000) all)"
proof -
  define s where "s = reg_run registry_init ops"
  have b: "queues_bounded s"
    unfolding s_def by (rule reg_run_bounded) (simp add: queues_bounded_def registry_init_def)
  have "\<exists>e'. map_of (rg_sessions s) i = Some e' \<and> se_queue e' = se_queue e \<Longrightarrow>
      rg_queues (reg_run s (map (\<lambda>c. (t, RPush i c)) cs)) (se_queue e) =
      foldl enqueue_drop_oldest (rg_queues s (se_queue e)) cs" for s
    by (induction cs arbitrary: s) (auto simp: push_command_def reg_touch_def)
  from this [of s] assms have "rg_queues (reg_run s (map (\<lambda>c. (t, RPush i c)) cs)) (se_queue e) =
      foldl enqueue_drop_oldest (rg_queues s (se_queue e)) cs"
    by (simp add: s_def)
  moreover have "length (rg_queues s q) \<le> 1000" for q
    using b by (simp add: queues_bounded_def MAX_QUEUE_SIZE_def)
  ultimately show ?thesis
    using enqueue_all [of "rg_queues s (se_queue e)" cs]
    by (simp add: s_def [symmetric] MAX_QUEUE_SIZE_def Let_def)
qed

theorem pushes_keep_newest_witness:
  "rg_queues (reg_run registry_init ([(0, RGetOrCreate ''s'')] @
      map (\<lambda>c. (1, RPush ''s'' c)) [[(''n'', JInt 1)], [(''n'', JInt 2)]])) 0 =
    [[(''n'', JInt 1)], [(''n'', JInt 2)]]"
  using pushes_keep_newest [of "[(0, RGetOrCreate ''s'')]" "''s''"
      "\<lparr>se_queue = 0, se_created_at = 0, se_last_seen = 0, se_trigger_token = None\<rparr>" 0 1
      "[[(''n'', JInt 1)], [(''n'', JInt 2)]]"]
  by (simp add: reg_get_or_create_def registry_init_def Let_def del: reg_run_simps(3))

text \<open>A minted token, and no other, opens its session until the session's token is minted
  again; evicting the session revokes it for good.\<close>

theorem token_lifecycle:
  assumes "ascii t" and "t \<noteq> []" and "ascii u" and "u \<noteq> []"
    and "\<forall>act \<in> set ops. \<forall>t. snd act \<noteq> RMint i t"
  shows "verify_trigger_token (reg_run (snd (mint_trigger_token s i t now)) ops) i (Some u) \<in> {Inr (u = t), Inr False} \<and>
    (RCleanup \<notin> snd ` set ops \<longrightarrow>
      verify_trigger_token (reg_run (snd (mint_trigger_token s i t now)) ops) i (Some u) = Inr (u = t))"
proof -
  let ?s = "reg_run (snd (mint_trigger_token s i t now)) ops"
  from reg_run_token [OF assms(5), of "snd (mint_trigger_token s i t now)"] have tok: "token_of ?s i = Some t \<or> token_of ?s i = None"
    "RCleanup \<notin> snd ` set ops \<Longrightarrow> token_of ?s i = Some t"
    by (simp_all add: token_of_mint)
  have "verify_trigger_token ?s i (Some u) = Inr (token_of ?s i = Some u)"
    by (rule verify_token [OF assms(3,4)]) (use tok(1) assms(1,2) in auto)
  with tok show ?thesis by auto
qed

theorem token_lifecycle_witness:
  "verify_trigger_token (reg_run (snd (mint_trigger_token registry_init ''s'' ''tok'' 0))
     [(1, RMint ''other'' ''x''), (2, RPush ''s'' [])]) ''s'' (Some ''tok'') = Inr True"
  using token_lifecycle [of "''tok''" "''tok''" "[(1, RMint ''other'' ''x''), (2, RPush ''s'' [])]" "''s''"
      registry_init 0]
  by (simp add: ascii_def code_def del: reg_step.simps reg_run_simps)

text \<open>Verifying a token with a character outside ASCII against a session that has a token
  raises \<open>TypeError\<close> instead of answering \<open>False\<close>.\<close>

theorem non_ascii_token_raises:
  assumes "token_of s i = Some t" and "t \<noteq> []" and "\<not> ascii u"
  shows "\<exists>e. verify_trigger_token s i (Some u) = Inl e"
  using assms
  by (cases "map_of (rg_sessions s) i")
    (auto simp: verify_trigger_token_def token_of_def compare_digest_def ascii_def)

theorem non_ascii_token_raises_witness:
  "\<exists>e. verify_trigger_token (snd (mint_trigger_token registry_init ''s'' ''tok'' 0)) ''s'' (Some [CHR 233]) = Inl e"
  by (rule non_ascii_token_raises [where t = "''tok''"]) (simp_all add: token_of_mint ascii_def code_def)

text \<open>\<open>cleanup_stale\<close> evicts exactly the sessions not seen for more than an hour, keeps the
  others as they are, and returns how many it evicted.\<close>

theorem cleanup_exact:
  assumes "distinct (map fst (rg_sessions s))"
  shows "map_of (rg_sessions (snd (cleanup_stale s now))) i =
      (case map_of (rg_sessions s) i of
         None \<Rightarrow> None | Some e \<Rightarrow> if se_last_seen e < now - 3600 then None else Some e) \<and>
    fst (cleanup_stale s now) =
      card {i. \<exists>e. map_of (rg_sessions s) i = Some e \<and> se_last_seen e < now - 3600}"
proof -
  let ?stale = "map fst (filter (\<lambda>(i, e). se_last_seen e < now - 3600) (rg_sessions s))"
  have "distinct ?stale" using assms by (rule distinct_map_filter)
  then have "length ?stale = card (set ?stale)" by (simp only: distinct_card)
  also have "set ?stale = {i. \<exists>e. map_of (rg_sessions s) i = Some e \<and> se_last_seen e < now - 3600}"
    by (auto simp: dict_item [OF assms] image_iff)
  finally show ?thesis
    using cleanup_sessions [OF assms, of now i, unfolded SESSION_TTL_def]
    by (simp add: SESSION_TTL_def cleanup_stale_def Let_def)
qed

theorem cleanup_exact_witness:
  "map_of (rg_sessions (snd (cleanup_stale (reg_run registry_init
      [(0, RGetOrCreate ''old''), (4000, RGetOrCreate ''new'')]) 5000))) ''old'' = None"
  using cleanup_exact [of "reg_run registry_init [(0, RGetOrCreate ''old''), (4000, RGetOrCreate ''new'')]" 5000 "''old''"]
  by (simp add: reg_get_or_create_def registry_init_def Let_def)

end
