(* ===== verification/Holds.thy ===== *)
theory Holds
  imports PyJson
begin

text \<open>
  Selection claims and edit leases (\<open>ClaimMap\<close> and \<open>LeaseMap\<close> in
  \<open>backend/core/session_hub.py\<close>): for each session, who holds which element until when. The
  two classes differ in one operation, \<open>claim\<close> takes an element over and \<open>acquire\<close> refuses
  one that another client holds. What they share is the contract \<open>hold_map\<close>; leases satisfy
  its extension \<open>exclusive_hold_map\<close>.
\<close>

section \<open>State and shared operations\<close>

record hold =
  h_client_id :: string
  h_expires_at :: rat

type_synonym session_holds = "(string, hold) dict"
type_synonym holds = "(string, session_holds) dict"

definition CLAIM_TTL :: rat where
  "CLAIM_TTL = 30"

definition LEASE_TTL :: rat where
  "LEASE_TTL = 30"

text \<open>\<open>m.get(session_id, {})\<close>.\<close>

definition holds_get :: "holds \<Rightarrow> string \<Rightarrow> session_holds" where
  "holds_get m session_id = (case map_of m session_id of None \<Rightarrow> [] | Some d \<Rightarrow> d)"

text \<open>The inner dictionary is changed in place; an empty one is dropped where the code pops it.\<close>

definition holds_put :: "holds \<Rightarrow> string \<Rightarrow> session_holds \<Rightarrow> holds" where
  "holds_put m session_id d =
     (if d = [] then dict_del m session_id else dict_set m session_id d)"

definition holds_prune :: "holds \<Rightarrow> string \<Rightarrow> rat \<Rightarrow> holds" where
  "holds_prune m session_id now =
     (case map_of m session_id of
        None \<Rightarrow> m
      | Some d \<Rightarrow>
          if d = [] then m
          else let expired = map fst (filter (\<lambda>(eid, c). h_expires_at c \<le> now) d)
               in holds_put m session_id (foldl dict_del d expired))"

fun release_loop ::
    "string \<Rightarrow> string list \<Rightarrow> session_holds \<Rightarrow> string list \<times> session_holds" where
  "release_loop client_id [] d = ([], d)"
| "release_loop client_id (eid # eids) d =
     (case map_of d eid of
        None \<Rightarrow> release_loop client_id eids d
      | Some held \<Rightarrow>
          if h_client_id held = client_id
          then (case release_loop client_id eids (dict_del d eid) of (rs, d') \<Rightarrow> (eid # rs, d'))
          else release_loop client_id eids d)"

definition holds_release ::
    "holds \<Rightarrow> string \<Rightarrow> string \<Rightarrow> string list \<Rightarrow> rat \<Rightarrow> string list \<times> holds" where
  "holds_release m session_id client_id element_ids now =
     (let m = holds_prune m session_id now
      in case release_loop client_id element_ids (holds_get m session_id) of
           (released, d) \<Rightarrow> (released, holds_put m session_id d))"

definition holds_release_all :: "holds \<Rightarrow> string \<Rightarrow> string \<Rightarrow> string list \<times> holds" where
  "holds_release_all m session_id client_id =
     (let d = holds_get m session_id;
          released = map fst (filter (\<lambda>(eid, c). h_client_id c = client_id) d)
      in (released, holds_put m session_id (foldl dict_del d released)))"

definition holds_snapshot :: "holds \<Rightarrow> string \<Rightarrow> rat \<Rightarrow> (string, string) dict \<times> holds" where
  "holds_snapshot m session_id now =
     (let m = holds_prune m session_id now
      in (map (\<lambda>(eid, c). (eid, h_client_id c)) (holds_get m session_id), m))"

section \<open>Claims and leases\<close>

text \<open>\<open>now\<close> is the time \<open>_prune\<close> reads, \<open>later\<close> the one the expiry is computed from.\<close>

definition claim ::
    "rat \<Rightarrow> holds \<Rightarrow> string \<Rightarrow> string \<Rightarrow> string list \<Rightarrow> rat \<Rightarrow> rat \<Rightarrow> string list \<times> holds" where
  "claim ttl m session_id client_id element_ids now later =
     (let m = holds_prune m session_id now;
          h = \<lparr>h_client_id = client_id, h_expires_at = later + ttl\<rparr>;
          d = foldl (\<lambda>d eid. dict_set d eid h) (holds_get m session_id) element_ids
      in (element_ids, dict_set m session_id d))"

fun acquire_loop ::
    "string \<Rightarrow> rat \<Rightarrow> string list \<Rightarrow> session_holds \<Rightarrow> string list \<Rightarrow> (string, string) dict \<Rightarrow>
     string list \<times> (string, string) dict \<times> session_holds" where
  "acquire_loop client_id expires_at [] d granted denied = (granted, denied, d)"
| "acquire_loop client_id expires_at (eid # eids) d granted denied =
     (case map_of d eid of
        Some held \<Rightarrow>
          if h_client_id held \<noteq> client_id
          then acquire_loop client_id expires_at eids d granted (dict_set denied eid (h_client_id held))
          else acquire_loop client_id expires_at eids
                 (dict_set d eid \<lparr>h_client_id = client_id, h_expires_at = expires_at\<rparr>)
                 (granted @ [eid]) denied
      | None \<Rightarrow>
          acquire_loop client_id expires_at eids
            (dict_set d eid \<lparr>h_client_id = client_id, h_expires_at = expires_at\<rparr>)
            (granted @ [eid]) denied)"

definition acquire ::
    "rat \<Rightarrow> holds \<Rightarrow> string \<Rightarrow> string \<Rightarrow> string list \<Rightarrow> rat \<Rightarrow> rat \<Rightarrow>
     (string list \<times> (string, string) dict) \<times> holds" where
  "acquire ttl m session_id client_id element_ids now later =
     (let m = holds_prune m session_id now
      in case acquire_loop client_id (later + ttl) element_ids (holds_get m session_id) [] [] of
           (granted, denied, d) \<Rightarrow> ((granted, denied), holds_put m session_id d))"

section \<open>Who holds what\<close>

definition holder :: "holds \<Rightarrow> string \<Rightarrow> string \<Rightarrow> hold option" where
  "holder m i e = map_of (holds_get m i) e"

text \<open>All inner dictionaries have distinct keys.\<close>

definition holds_inv :: "holds \<Rightarrow> bool" where
  "holds_inv m \<longleftrightarrow> (\<forall>i. distinct (map fst (holds_get m i)))"

lemma holds_get_put [simp]: "holds_get (holds_put m i d) j = (if j = i then d else holds_get m j)"
  by (simp add: holds_get_def holds_put_def)

lemma holds_get_set [simp]: "holds_get (dict_set m i d) j = (if j = i then d else holds_get m j)"
  by (simp add: holds_get_def)

lemma holds_get_prune:
  "holds_get (holds_prune m i now) j =
     (if j = i then foldl dict_del (holds_get m i) (map fst (filter (\<lambda>(e, c). h_expires_at c \<le> now) (holds_get m i)))
      else holds_get m j)"
  by (auto simp: holds_prune_def Let_def holds_get_def [of m i] split: option.split)

lemma holds_inv_prune: "holds_inv m \<Longrightarrow> holds_inv (holds_prune m i now)"
  by (simp add: holds_inv_def holds_get_prune distinct_foldl_del)

lemma holder_prune:
  assumes "holds_inv m"
  shows "holder (holds_prune m i now) j e =
    (case holder m j e of None \<Rightarrow> None
     | Some h \<Rightarrow> if j = i \<and> h_expires_at h \<le> now then None else Some h)"
proof (cases "j = i")
  case True
  have d: "distinct (map fst (holds_get m i))" using assms by (simp add: holds_inv_def)
  have "holder (holds_prune m i now) i e = (case holder m i e of None \<Rightarrow> None
     | Some h \<Rightarrow> if h_expires_at h \<le> now then None else Some h)"
    unfolding holder_def holds_get_prune simp_thms if_True foldl_dict_del filter_key_iff [OF d]
    by (cases "map_of (holds_get m i) e") simp_all
  with True show ?thesis by (simp split: option.split)
next
  case False
  then show ?thesis by (simp add: holder_def holds_get_prune split: option.split)
qed

text \<open>Another client has the element.\<close>

definition held_other :: "string \<Rightarrow> session_holds \<Rightarrow> string \<Rightarrow> bool" where
  "held_other c d e = (case map_of d e of None \<Rightarrow> False | Some h \<Rightarrow> h_client_id h \<noteq> c)"

lemma held_other_set [simp]:
  "held_other c (dict_set d k \<lparr>h_client_id = c, h_expires_at = x\<rparr>) e = (e \<noteq> k \<and> held_other c d e)"
  by (simp add: held_other_def)

text \<open>What a release by \<open>c\<close> of the elements satisfying \<open>P\<close> leaves of a hold.\<close>

definition after_release :: "bool \<Rightarrow> string \<Rightarrow> hold option \<Rightarrow> hold option" where
  "after_release p c h =
     (case h of None \<Rightarrow> None | Some h \<Rightarrow> if p \<and> h_client_id h = c then None else Some h)"

lemma after_release_simps [simp]:
  "after_release p c None = None"
  "after_release p c (Some h) = (if p \<and> h_client_id h = c then None else Some h)"
  by (simp_all add: after_release_def)

lemma release_loop_holds:
  "map_of (snd (release_loop c es d)) e = after_release (e \<in> set es) c (map_of d e)"
proof (induction es arbitrary: d)
  case Nil
  show ?case by (cases "map_of d e") simp_all
next
  case (Cons k es)
  show ?case
    by (cases "map_of d k"; cases "map_of d e"; cases "k = e")
      (simp_all add: Cons.IH split_beta)
qed

lemma release_loop_distinct:
  "distinct (map fst d) \<Longrightarrow> distinct (map fst (snd (release_loop c es d)))"
proof (induction es arbitrary: d)
  case (Cons k es)
  then show ?case by (cases "map_of d k") (simp_all add: split_beta)
qed simp

lemma release_loop_released:
  "set (fst (release_loop c es d)) = {e \<in> set es. \<exists>h. map_of d e = Some h \<and> h_client_id h = c}"
proof (induction es arbitrary: d)
  case (Cons k es)
  show ?case
  proof (cases "map_of d k")
    case (Some h)
    show ?thesis
    proof (cases "h_client_id h = c")
      case True
      then show ?thesis using Some by (auto simp: Cons.IH split_beta)
    qed (use Some in \<open>auto simp: Cons.IH\<close>)
  qed (auto simp: Cons.IH)
qed simp

lemma acquire_loop_step:
  "acquire_loop c x (e # es) d g n =
     (if held_other c d e then acquire_loop c x es d g (dict_set n e (h_client_id (the (map_of d e))))
      else acquire_loop c x es (dict_set d e \<lparr>h_client_id = c, h_expires_at = x\<rparr>) (g @ [e]) n)"
  by (auto simp: held_other_def split: option.split)

lemma acquire_loop_holds:
  "snd (snd (acquire_loop c x es d g n)) =
     foldl (\<lambda>d e. dict_set d e \<lparr>h_client_id = c, h_expires_at = x\<rparr>) d (filter (\<lambda>e. \<not> held_other c d e) es)"
proof (induction es arbitrary: d g n)
  case (Cons e es)
  show ?case
  proof (cases "held_other c d e")
    case False
    have "filter (\<lambda>k. \<not> held_other c (dict_set d e \<lparr>h_client_id = c, h_expires_at = x\<rparr>) k) es =
        filter (\<lambda>k. \<not> held_other c d k) es"
      using False by (auto intro: filter_cong)
    with False Cons.IH show ?thesis by (simp add: acquire_loop_step del: acquire_loop.simps)
  qed (simp add: acquire_loop_step Cons.IH del: acquire_loop.simps)
qed simp

lemma acquire_loop_granted:
  "fst (acquire_loop c x es d g n) = g @ filter (\<lambda>e. \<not> held_other c d e) es"
proof (induction es arbitrary: d g n)
  case (Cons e es)
  show ?case
  proof (cases "held_other c d e")
    case False
    have "filter (\<lambda>k. \<not> held_other c (dict_set d e \<lparr>h_client_id = c, h_expires_at = x\<rparr>) k) es =
        filter (\<lambda>k. \<not> held_other c d k) es"
      using False by (auto intro: filter_cong)
    with False Cons.IH show ?thesis by (simp add: acquire_loop_step del: acquire_loop.simps)
  qed (simp add: acquire_loop_step Cons.IH del: acquire_loop.simps)
qed simp

lemma acquire_loop_denied:
  "map_of (fst (snd (acquire_loop c x es d g n))) k =
     (if k \<in> set es \<and> held_other c d k then Some (h_client_id (the (map_of d k))) else map_of n k)"
proof (induction es arbitrary: d g n)
  case (Cons e es)
  show ?case
  proof (cases "held_other c d e")
    case True
    with Cons.IH show ?thesis by (simp add: acquire_loop_step del: acquire_loop.simps)
  next
    case False
    have "map_of (fst (snd (acquire_loop c x (e # es) d g n))) k =
        (if k \<in> set es \<and> k \<noteq> e \<and> held_other c d k
         then Some (h_client_id (the (map_of (dict_set d e \<lparr>h_client_id = c, h_expires_at = x\<rparr>) k)))
         else map_of n k)"
      unfolding acquire_loop_step if_not_P [OF False] Cons.IH held_other_set by (rule refl)
    also have "\<dots> = (if k \<in> set (e # es) \<and> held_other c d k
         then Some (h_client_id (the (map_of d k))) else map_of n k)"
      using False by (cases "k = e") auto
    finally show ?thesis .
  qed
qed simp

section \<open>What each operation does to the holders\<close>

lemma holder_release:
  "holder (snd (holds_release m s c es now)) j e =
     (if j = s then after_release (e \<in> set es) c (holder (holds_prune m s now) s e) else holder m j e)"
  by (simp add: holds_release_def Let_def split_beta holder_def release_loop_holds holds_get_prune)

lemma holds_inv_release: "holds_inv m \<Longrightarrow> holds_inv (snd (holds_release m s c es now))"
  using holds_inv_prune [of m s now]
  by (simp add: holds_inv_def holds_release_def Let_def split_beta release_loop_distinct)

lemma holder_release_all:
  assumes "holds_inv m"
  shows "holder (snd (holds_release_all m s c)) j e = after_release (j = s) c (holder m j e)"
proof (cases "j = s")
  case True
  have d: "distinct (map fst (holds_get m s))" using assms by (simp add: holds_inv_def)
  have "holder (snd (holds_release_all m s c)) s e = after_release True c (holder m s e)"
    unfolding holder_def holds_release_all_def Let_def snd_conv holds_get_put simp_thms if_True
      foldl_dict_del filter_key_iff [OF d]
    by (cases "map_of (holds_get m s) e") simp_all
  with True show ?thesis by simp
next
  case False
  then show ?thesis
    by (cases "holder m j e") (simp_all add: holder_def holds_release_all_def Let_def)
qed

lemma holds_inv_release_all: "holds_inv m \<Longrightarrow> holds_inv (snd (holds_release_all m s c))"
  by (simp add: holds_inv_def holds_release_all_def Let_def distinct_foldl_del)

lemma release_all_released:
  assumes "holds_inv m"
  shows "e \<in> set (fst (holds_release_all m s c)) \<longleftrightarrow>
    (\<exists>h. holder m s e = Some h \<and> h_client_id h = c)"
proof -
  have d: "distinct (map fst (holds_get m s))" using assms by (simp add: holds_inv_def)
  show ?thesis
    unfolding holds_release_all_def Let_def fst_conv filter_key_iff [OF d] holder_def by (rule refl)
qed

lemma map_of_snapshot:
  "map_of (fst (holds_snapshot m s now)) e =
     map_option h_client_id (holder (holds_prune m s now) s e)"
  by (simp add: holds_snapshot_def Let_def holder_def map_of_map)

lemma holds_snapshot_state: "snd (holds_snapshot m s now) = holds_prune m s now"
  by (simp add: holds_snapshot_def Let_def)

section \<open>The contract of both maps\<close>

text \<open>
  A client's request for elements, with the time to live \<open>ttl\<close>: it touches no other session, no
  element it does not name, gives a free element to the client, and otherwise leaves the live
  holder or replaces it by the client.
\<close>

locale hold_map =
  fixes taken :: "holds \<Rightarrow> string \<Rightarrow> string \<Rightarrow> string list \<Rightarrow> rat \<Rightarrow> rat \<Rightarrow> holds"
    and ttl :: rat
  assumes taken_inv: "holds_inv m \<Longrightarrow> holds_inv (taken m s c es now later)"
    and taken_frame: "j \<noteq> s \<Longrightarrow> holder (taken m s c es now later) j e = holder m j e"
    and taken_other:
      "e \<notin> set es \<Longrightarrow> holder (taken m s c es now later) s e = holder (holds_prune m s now) s e"
    and taken_free:
      "e \<in> set es \<Longrightarrow> \<not> held_other c (holds_get (holds_prune m s now) s) e \<Longrightarrow>
       holder (taken m s c es now later) s e = Some \<lparr>h_client_id = c, h_expires_at = later + ttl\<rparr>"
    and taken_held:
      "e \<in> set es \<Longrightarrow> held_other c (holds_get (holds_prune m s now) s) e \<Longrightarrow>
       holder (taken m s c es now later) s e = holder (holds_prune m s now) s e \<or>
       holder (taken m s c es now later) s e = Some \<lparr>h_client_id = c, h_expires_at = later + ttl\<rparr>"

text \<open>The exclusive map never replaces a live holder.\<close>

locale exclusive_hold_map = hold_map +
  assumes taken_refused:
    "held_other c (holds_get (holds_prune m s now) s) e \<Longrightarrow>
     holder (taken m s c es now later) s e = holder (holds_prune m s now) s e"

section \<open>Runs\<close>

datatype hold_op =
    Take string string "string list" rat rat
  | Release string string "string list" rat
  | ReleaseAll string string
  | Snapshot string rat

text \<open>The operation happens between \<open>t0\<close> and before \<open>t1\<close>.\<close>

fun hold_op_within :: "rat \<Rightarrow> rat \<Rightarrow> hold_op \<Rightarrow> bool" where
  "hold_op_within t0 t1 (Take s c es now later) = (now < t1 \<and> t0 \<le> later)"
| "hold_op_within t0 t1 (Release s c es now) = (now < t1)"
| "hold_op_within t0 t1 (ReleaseAll s c) = True"
| "hold_op_within t0 t1 (Snapshot s now) = (now < t1)"

text \<open>The client gives the element up.\<close>

fun gives_up :: "string \<Rightarrow> string \<Rightarrow> string \<Rightarrow> hold_op \<Rightarrow> bool" where
  "gives_up s c e (Release s' c' es now) = (s' = s \<and> c' = c \<and> e \<in> set es)"
| "gives_up s c e (ReleaseAll s' c') = (s' = s \<and> c' = c)"
| "gives_up s c e _ = False"

text \<open>The client asks for the element, for a time after \<open>t\<close>.\<close>

fun asks_for :: "rat \<Rightarrow> string \<Rightarrow> string \<Rightarrow> string \<Rightarrow> rat \<Rightarrow> hold_op \<Rightarrow> bool" where
  "asks_for ttl s c e t (Take s' c' es now later) =
     (s' = s \<and> c' = c \<and> e \<in> set es \<and> t < later + ttl)"
| "asks_for ttl s c e t _ = False"

fun hold_step ::
    "(holds \<Rightarrow> string \<Rightarrow> string \<Rightarrow> string list \<Rightarrow> rat \<Rightarrow> rat \<Rightarrow> holds) \<Rightarrow> holds \<Rightarrow> hold_op \<Rightarrow> holds" where
  "hold_step taken m (Take s c es now later) = taken m s c es now later"
| "hold_step taken m (Release s c es now) = snd (holds_release m s c es now)"
| "hold_step taken m (ReleaseAll s c) = snd (holds_release_all m s c)"
| "hold_step taken m (Snapshot s now) = snd (holds_snapshot m s now)"

definition hold_run ::
    "(holds \<Rightarrow> string \<Rightarrow> string \<Rightarrow> string list \<Rightarrow> rat \<Rightarrow> rat \<Rightarrow> holds) \<Rightarrow> hold_op list \<Rightarrow> holds \<Rightarrow> holds" where
  "hold_run taken ops m = foldl (hold_step taken) m ops"

lemma hold_run_simps [simp]:
  "hold_run taken [] m = m"
  "hold_run taken (op # ops) m = hold_run taken ops (hold_step taken m op)"
  by (simp_all add: hold_run_def)

lemma held_other_holder:
  "held_other c (holds_get m s) e =
     (case holder m s e of None \<Rightarrow> False | Some h \<Rightarrow> h_client_id h \<noteq> c)"
  by (simp add: held_other_def holder_def)

lemma prune_keeps:
  "holds_inv m \<Longrightarrow> holder m s e = Some h \<Longrightarrow> now < h_expires_at h \<Longrightarrow>
   holder (holds_prune m i now) s e = Some h"
  by (simp add: holder_prune)

lemma prune_origin: "holds_inv m \<Longrightarrow> holder (holds_prune m i now) s e = Some h \<Longrightarrow> holder m s e = Some h"
  by (auto simp: holder_prune split: option.splits if_splits)

lemma after_release_origin: "after_release p c h = Some h' \<Longrightarrow> h = Some h'"
  by (auto simp: after_release_def split: option.splits if_splits)

context hold_map begin

lemma step_inv: "holds_inv m \<Longrightarrow> holds_inv (hold_step taken m op)"
  by (cases op) (simp_all add: taken_inv holds_inv_release holds_inv_release_all
      holds_snapshot_state holds_inv_prune)

lemma run_inv: "holds_inv m \<Longrightarrow> holds_inv (hold_run taken ops m)"
  by (induction ops arbitrary: m) (simp_all add: step_inv)

lemma take_origin:
  assumes "holds_inv m" and "holder (taken m s c es now later) j e = Some h"
  shows "holder m j e = Some h \<or>
    j = s \<and> e \<in> set es \<and> h = \<lparr>h_client_id = c, h_expires_at = later + ttl\<rparr>"
proof (cases "j = s \<and> e \<in> set es")
  case True
  then consider
      "holder (taken m s c es now later) s e = Some \<lparr>h_client_id = c, h_expires_at = later + ttl\<rparr>"
    | "holder (taken m s c es now later) s e = holder (holds_prune m s now) s e"
    using taken_free [of e es c m s now later] taken_held [of e es c m s now later] by blast
  then show ?thesis
    using True assms prune_origin [OF assms(1)] by cases auto
next
  case False
  then show ?thesis
    using assms taken_frame taken_other prune_origin [OF assms(1)] by (cases "j = s") auto
qed

lemma step_origin:
  assumes "holds_inv m" and "holder (hold_step taken m op) s e = Some h" and "t < h_expires_at h"
  shows "holder m s e = Some h \<or> asks_for ttl s (h_client_id h) e t op"
  using assms
proof (cases op)
  case (Take s' c es now later)
  then show ?thesis using assms take_origin [of m s' c es now later s e h] by auto
next
  case (Release s' c es now)
  then show ?thesis using assms prune_origin [OF assms(1)]
    by (auto simp: holder_release split: if_splits dest: after_release_origin)
next
  case (ReleaseAll s' c)
  then show ?thesis using assms by (auto simp: holder_release_all dest: after_release_origin)
next
  case (Snapshot s' now)
  then show ?thesis using assms prune_origin [OF assms(1)] by (auto simp: holds_snapshot_state)
qed

lemma run_origin:
  assumes "holds_inv m" and "holder (hold_run taken ops m) s e = Some h" and "t < h_expires_at h"
  shows "holder m s e = Some h \<or> (\<exists>op \<in> set ops. asks_for ttl s (h_client_id h) e t op)"
  using assms
proof (induction ops arbitrary: m)
  case (Cons op ops)
  then show ?case
    using Cons.IH [of "hold_step taken m op"] step_inv [of m op] step_origin [of m op s e h t] by auto
qed simp

lemma snapshot_origin:
  assumes "map_of (fst (holds_snapshot (hold_run taken ops []) s t)) e = Some c"
  shows "\<exists>op \<in> set ops. asks_for ttl s c e t op"
proof -
  let ?m = "hold_run taken ops []"
  have inv: "holds_inv []" by (simp add: holds_inv_def holds_get_def)
  from assms obtain h where h: "holder (holds_prune ?m s t) s e = Some h" "h_client_id h = c"
    by (auto simp: map_of_snapshot)
  then have "t < h_expires_at h" "holder ?m s e = Some h"
    using prune_origin [OF run_inv [OF inv] h(1)]
    by (auto simp: holder_prune [OF run_inv [OF inv]] split: if_splits)
  then show ?thesis
    using run_origin [OF inv, of ops s e h t] h(2) by (simp add: holder_def holds_get_def)
qed

end

context exclusive_hold_map begin

lemma step_keeps:
  assumes "holds_inv m" and "holder m s e = Some h" and "h_client_id h = c" and "t1 \<le> h_expires_at h"
    and "hold_op_within t0 t1 op" and "t1 \<le> t0 + ttl" and "\<not> gives_up s c e op"
  shows "\<exists>h'. holder (hold_step taken m op) s e = Some h' \<and> h_client_id h' = c \<and> t1 \<le> h_expires_at h'"
proof (cases op)
  case (Take s' c' es now later)
  show ?thesis
  proof (cases "s' = s")
    case True
    have live: "holder (holds_prune m s now) s e = Some h"
      using assms Take by (intro prune_keeps) auto
    show ?thesis
    proof (cases "c' = c \<and> e \<in> set es")
      case mine: True
      then have "holder (taken m s c es now later) s e =
          Some \<lparr>h_client_id = c, h_expires_at = later + ttl\<rparr>"
        using live assms(3) by (intro taken_free) (simp_all add: held_other_holder)
      then show ?thesis using mine True Take assms(5,6) by simp
    next
      case False
      then have "holder (taken m s c' es now later) s e = Some h"
        using live taken_other [of e es m s c' now later] taken_refused [of c' m s now e es later] assms(3)
        by (cases "e \<in> set es") (auto simp: held_other_holder)
      then show ?thesis using True Take assms(3,4) by simp
    qed
  qed (use Take assms taken_frame in auto)
next
  case (Release s' c' es now)
  have "holder (holds_prune m s now) s e = Some h"
    using assms Release by (intro prune_keeps) auto
  then show ?thesis using Release assms by (auto simp: holder_release)
next
  case (ReleaseAll s' c')
  then show ?thesis using assms by (auto simp: holder_release_all)
next
  case (Snapshot s' now)
  then have "holder (holds_prune m s' now) s e = Some h"
    using assms by (intro prune_keeps) auto
  then show ?thesis using Snapshot assms by (simp add: holds_snapshot_state)
qed

lemma run_keeps:
  assumes "holds_inv m" and "holder m s e = Some h" and "h_client_id h = c" and "t1 \<le> h_expires_at h"
    and "\<forall>op \<in> set ops. hold_op_within t0 t1 op \<and> \<not> gives_up s c e op" and "t1 \<le> t0 + ttl"
  shows "\<exists>h'. holder (hold_run taken ops m) s e = Some h' \<and> h_client_id h' = c \<and> t1 \<le> h_expires_at h'"
  using assms
proof (induction ops arbitrary: m h)
  case (Cons op ops)
  obtain h' where "holder (hold_step taken m op) s e = Some h'" "h_client_id h' = c" "t1 \<le> h_expires_at h'"
    using step_keeps [OF Cons.prems(1-4), of t0 op] Cons.prems(5,6) by auto
  then show ?case
    using Cons.IH [OF step_inv [OF Cons.prems(1)]] Cons.prems(5,6) by simp
qed simp

end

section \<open>Claims and leases satisfy it\<close>

abbreviation claim_holds ::
    "holds \<Rightarrow> string \<Rightarrow> string \<Rightarrow> string list \<Rightarrow> rat \<Rightarrow> rat \<Rightarrow> holds" where
  "claim_holds m s c es now later \<equiv> snd (claim CLAIM_TTL m s c es now later)"

abbreviation lease_holds ::
    "holds \<Rightarrow> string \<Rightarrow> string \<Rightarrow> string list \<Rightarrow> rat \<Rightarrow> rat \<Rightarrow> holds" where
  "lease_holds m s c es now later \<equiv> snd (acquire LEASE_TTL m s c es now later)"

lemma holder_claim:
  "holder (snd (claim ttl m s c es now later)) j e =
     (if j = s then if e \<in> set es then Some \<lparr>h_client_id = c, h_expires_at = later + ttl\<rparr>
                    else holder (holds_prune m s now) s e
      else holder m j e)"
  by (simp add: claim_def Let_def holder_def map_of_foldl_set distinct_foldl_set holds_get_prune)

lemma holds_inv_claim: "holds_inv m \<Longrightarrow> holds_inv (snd (claim ttl m s c es now later))"
  using holds_inv_prune [of m s now]
  by (simp add: holds_inv_def claim_def Let_def map_of_foldl_set distinct_foldl_set)

lemma holder_acquire:
  "holder (snd (acquire ttl m s c es now later)) j e =
     (if j = s then
        if e \<in> set es \<and> \<not> held_other c (holds_get (holds_prune m s now) s) e
        then Some \<lparr>h_client_id = c, h_expires_at = later + ttl\<rparr>
        else holder (holds_prune m s now) s e
      else holder m j e)"
  by (simp add: acquire_def Let_def split_beta holder_def acquire_loop_holds map_of_foldl_set distinct_foldl_set holds_get_prune)

lemma holds_inv_acquire: "holds_inv m \<Longrightarrow> holds_inv (snd (acquire ttl m s c es now later))"
  using holds_inv_prune [of m s now]
  by (simp add: holds_inv_def acquire_def Let_def split_beta acquire_loop_holds map_of_foldl_set distinct_foldl_set)

lemma acquire_granted:
  "fst (fst (acquire ttl m s c es now later)) =
     filter (\<lambda>e. \<not> held_other c (holds_get (holds_prune m s now) s) e) es"
  by (simp add: acquire_def Let_def split_beta acquire_loop_granted)

lemma acquire_denied:
  "map_of (snd (fst (acquire ttl m s c es now later))) e =
     (if e \<in> set es \<and> held_other c (holds_get (holds_prune m s now) s) e
      then map_option h_client_id (holder (holds_prune m s now) s e) else None)"
  by (auto simp: acquire_def Let_def split_beta acquire_loop_denied holder_def held_other_def
      split: option.splits)

interpretation claims: hold_map claim_holds CLAIM_TTL
  by unfold_locales (simp_all add: holds_inv_claim holder_claim)

interpretation leases: exclusive_hold_map lease_holds LEASE_TTL
  by unfold_locales (simp_all add: holds_inv_acquire holder_acquire)

lemma holds_inv_empty [simp]: "holds_inv []"
  by (simp add: holds_inv_def holds_get_def)

section \<open>Properties\<close>

text \<open>C10: an edit lease is exclusive. Take any history of the lease map, then let a client be
  granted an element; as long as the client does not release it, and until the time to live
  counted from the grant is over, whatever operations of whatever clients follow, the lease
  still is the client's and every other client's request for the element is denied, naming the
  holder, and takes nothing.\<close>

theorem lease_exclusive:
  assumes "m' = snd (acquire LEASE_TTL (hold_run lease_holds before []) s c es now later)"
    and "e \<in> set (fst (fst (acquire LEASE_TTL (hold_run lease_holds before []) s c es now later)))"
    and "\<forall>op \<in> set ops. hold_op_within later (later + LEASE_TTL) op \<and> \<not> gives_up s c e op"
    and "t < later + LEASE_TTL"
  shows "map_of (fst (holds_snapshot (hold_run lease_holds ops m') s t)) e = Some c \<and>
    (\<forall>c' es' later'. c' \<noteq> c \<longrightarrow>
      (case acquire LEASE_TTL (hold_run lease_holds ops m') s c' es' t later' of
         ((granted, denied), m'') \<Rightarrow>
           e \<notin> set granted \<and> (e \<in> set es' \<longrightarrow> map_of denied e = Some c) \<and>
           holder m'' s e = holder (hold_run lease_holds ops m') s e))"
proof -
  let ?m = "hold_run lease_holds ops m'"
  have inv0: "holds_inv m'" using assms(1) by (simp add: holds_inv_acquire leases.run_inv)
  then have inv: "holds_inv ?m" by (rule leases.run_inv)
  have "holder m' s e = Some \<lparr>h_client_id = c, h_expires_at = later + LEASE_TTL\<rparr>"
    using assms(2) unfolding assms(1) acquire_granted holder_acquire by simp
  from leases.run_keeps [OF inv0 this _ _ assms(3)]
  obtain h where h: "holder ?m s e = Some h" "h_client_id h = c" "later + LEASE_TTL \<le> h_expires_at h"
    by auto
  then have live: "holder (holds_prune ?m s t) s e = Some h"
    using assms(4) by (intro prune_keeps [OF inv]) auto
  then have other: "held_other c' (holds_get (holds_prune ?m s t) s) e" if "c' \<noteq> c" for c'
    using h(2) that by (simp add: held_other_holder)
  show ?thesis
    using live h other
    by (auto simp: map_of_snapshot split_beta acquire_granted acquire_denied holder_acquire)
qed

text \<open>Nobody holds what they did not ask for. In a snapshot taken at time \<open>t\<close> after any history of
  the claim map, or of the lease map, a client is shown with an element only if a request of
  that very client for that element in that session is in the history, recent enough not to have
  expired at \<open>t\<close>.\<close>

theorem holder_asked:
  "(map_of (fst (holds_snapshot (hold_run claim_holds ops []) s t)) e = Some c \<longrightarrow>
      (\<exists>op \<in> set ops. asks_for CLAIM_TTL s c e t op)) \<and>
   (map_of (fst (holds_snapshot (hold_run lease_holds ops []) s t)) e = Some c \<longrightarrow>
      (\<exists>op \<in> set ops. asks_for LEASE_TTL s c e t op))"
  by (intro conjI impI) (rule claims.snapshot_origin, assumption, rule leases.snapshot_origin)

text \<open>The last selector wins and disconnecting leaves nothing behind. After any history of the
  claim map, a claim gives every element it names to its client, whoever held it, and leaves
  the other live claims of the session; when a client then disconnects (\<open>release_all\<close>), the
  result lists exactly the elements it held, and a later snapshot shows the other clients' live
  claims and none of this client's.\<close>

theorem claim_and_disconnect:
  assumes "m = hold_run claim_holds ops []"
    and "m' = snd (claim CLAIM_TTL m s c es now later)"
    and "(released, m'') = holds_release_all m' s c'"
    and "t < later + CLAIM_TTL"
  shows "(e \<in> set es \<longrightarrow> map_of (fst (holds_snapshot m' s t)) e = Some c) \<and>
    (e \<notin> set es \<and> now \<le> t \<longrightarrow>
       map_of (fst (holds_snapshot m' s t)) e = map_of (fst (holds_snapshot m s t)) e) \<and>
    (e \<in> set released \<longleftrightarrow> (\<exists>h. holder m' s e = Some h \<and> h_client_id h = c')) \<and>
    map_of (fst (holds_snapshot m'' s t)) e =
      (if map_of (fst (holds_snapshot m' s t)) e = Some c' then None
       else map_of (fst (holds_snapshot m' s t)) e)"
proof -
  have inv: "holds_inv m" using assms(1) by (simp add: claims.run_inv)
  then have inv': "holds_inv m'" using assms(2) by (simp add: holds_inv_claim)
  have m'': "m'' = snd (holds_release_all m' s c')" "released = fst (holds_release_all m' s c')"
    using assms(3) by (metis fst_conv snd_conv)+
  then have inv'': "holds_inv m''" using inv' by (simp add: holds_inv_release_all)
  have hc: "holder m' s e = (if e \<in> set es then Some \<lparr>h_client_id = c, h_expires_at = later + CLAIM_TTL\<rparr>
      else holder (holds_prune m s now) s e)"
    unfolding assms(2) holder_claim by simp
  have old: "now \<le> t \<Longrightarrow> e \<notin> set es \<Longrightarrow>
      holder (holds_prune m' s t) s e = holder (holds_prune m s t) s e"
    by (cases "holder m s e") (simp_all add: holder_prune [OF inv'] holder_prune [OF inv] hc)
  have hr: "holder m'' s e = after_release True c' (holder m' s e)"
    unfolding m''(1) holder_release_all [OF inv'] by simp
  have "holder (holds_prune m'' s t) s e = after_release True c' (holder (holds_prune m' s t) s e)"
    by (cases "holder m' s e")
      (simp_all add: holder_prune [OF inv''] holder_prune [OF inv'] hr)
  moreover have "e \<in> set es \<Longrightarrow> holder (holds_prune m' s t) s e =
      Some \<lparr>h_client_id = c, h_expires_at = later + CLAIM_TTL\<rparr>"
    using assms(4) by (simp add: holder_prune [OF inv'] hc)
  ultimately show ?thesis
    using old release_all_released [OF inv', of e s c'] m''(2)
    by (cases "holder (holds_prune m' s t) s e"; cases "e \<in> set es") (simp_all add: map_of_snapshot)
qed

section \<open>Witnesses\<close>

lemmas hold_eval = holds_inv_def holds_get_def holds_put_def holds_prune_def holds_release_def
  holds_release_all_def holds_snapshot_def claim_def acquire_def holder_def LEASE_TTL_def CLAIM_TTL_def Let_def

lemma lease_exclusive_witness:
  "map_of (fst (holds_snapshot
     (hold_run lease_holds [Release ''s'' ''bob'' [''e1''] 2, ReleaseAll ''s'' ''bob'', Snapshot ''s'' 20]
       (snd (acquire LEASE_TTL (hold_run lease_holds [Take ''s'' ''bob'' [''e2''] 0 0] [])
          ''s'' ''ann'' [''e1'', ''e2''] 1 1))) ''s'' 30)) ''e1'' = Some ''ann''"
  using lease_exclusive [where s = "''s''" and c = "''ann''" and e = "''e1''" and before = "[Take ''s'' ''bob'' [''e2''] 0 0]"
      and es = "[''e1'', ''e2'']" and now = 1 and later = 1 and t = 30
      and ops = "[Release ''s'' ''bob'' [''e1''] 2, ReleaseAll ''s'' ''bob'', Snapshot ''s'' 20]",
      OF refl, THEN conjunct1]
  by (simp add: hold_eval)

lemma holder_asked_witness:
  "map_of (fst (holds_snapshot (hold_run lease_holds [Take ''s'' ''ann'' [''e1''] 0 0] []) ''s'' 20)) ''e1'' =
     Some ''ann'' \<and> (\<exists>op \<in> set [Take ''s'' ''ann'' [''e1''] 0 0]. asks_for LEASE_TTL ''s'' ''ann'' ''e1'' 20 op)"
  using holder_asked [where ops = "[Take ''s'' ''ann'' [''e1''] 0 0]" and s = "''s''" and t = 20 and e = "''e1''"
      and c = "''ann''", THEN conjunct2]
  by (simp add: hold_eval)

lemma claim_and_disconnect_witness:
  "map_of (fst (holds_snapshot (snd (holds_release_all
      (snd (claim CLAIM_TTL (hold_run claim_holds [Take ''s'' ''bob'' [''e1'', ''e2''] 0 0] [])
        ''s'' ''ann'' [''e1''] 5 5)) ''s'' ''bob'')) ''s'' 10)) ''e1'' = Some ''ann''"
  using claim_and_disconnect [where ops = "[Take ''s'' ''bob'' [''e1'', ''e2''] 0 0]" and s = "''s''"
      and c = "''ann''" and es = "[''e1'']" and now = 5 and later = 5 and t = 10 and e = "''e1''" and c' = "''bob''",
      OF refl refl prod.collapse, THEN conjunct2, THEN conjunct2, THEN conjunct2]
  by (simp add: hold_eval)

end
