(* ===== verification/Presence.thy ===== *)
theory Presence
  imports PyJson
begin

text \<open>
  The roster of connected clients (\<open>PresenceRegistry\<close> in \<open>backend/core/session_hub.py\<close>):
  per session the members with their colours, the colour cursor, and how many connections each
  client has open.
\<close>

section \<open>State and operations\<close>

definition PRESENCE_COLORS :: "string list" where
  "PRESENCE_COLORS =
     [''#e6194b'', ''#3cb44b'', ''#4363d8'', ''#f58231'', ''#911eb4'', ''#46f0f0'', ''#f032e6'',
      ''#bcf60c'', ''#fabebe'', ''#008080'']"

record member =
  pm_client_id :: string
  pm_display_name :: string
  pm_color :: string

record presence =
  pr_rosters :: "(string, (string, member) dict) dict"
  pr_color_cursor :: "(string, nat) dict"
  pr_conn_counts :: "(string, (string, nat) dict) dict"

definition presence_init :: presence where
  "presence_init = \<lparr>pr_rosters = [], pr_color_cursor = [], pr_conn_counts = []\<rparr>"

definition roster_of :: "presence \<Rightarrow> string \<Rightarrow> (string, member) dict" where
  "roster_of s session_id = (case map_of (pr_rosters s) session_id of None \<Rightarrow> [] | Some r \<Rightarrow> r)"

definition counts_of :: "presence \<Rightarrow> string \<Rightarrow> (string, nat) dict" where
  "counts_of s session_id = (case map_of (pr_conn_counts s) session_id of None \<Rightarrow> [] | Some c \<Rightarrow> c)"

text \<open>The search of \<open>_assign_color\<close>: the colour and the cursor it leaves.\<close>

fun color_search :: "nat \<Rightarrow> nat \<Rightarrow> string set \<Rightarrow> string \<times> nat" where
  "color_search 0 cursor used =
     (let idx = cursor mod length PRESENCE_COLORS in (PRESENCE_COLORS ! idx, idx + 1))"
| "color_search (Suc n) cursor used =
     (let idx = cursor mod length PRESENCE_COLORS; color = PRESENCE_COLORS ! idx
      in if color \<notin> used then (color, idx + 1) else color_search n (idx + 1) used)"

definition assign_color ::
    "(string, nat) dict \<Rightarrow> string \<Rightarrow> (string, member) dict \<Rightarrow> string \<times> (string, nat) dict" where
  "assign_color cursors session_id roster =
     (let used = pm_color ` set (dict_values roster);
          cursor = (case map_of cursors session_id of None \<Rightarrow> 0 | Some n \<Rightarrow> n)
      in case color_search (length PRESENCE_COLORS) cursor used of
           (color, cursor') \<Rightarrow> (color, dict_set cursors session_id cursor'))"

definition presence_join ::
    "presence \<Rightarrow> string \<Rightarrow> string \<Rightarrow> string option \<Rightarrow> member \<times> presence" where
  "presence_join s session_id client_id display_name =
     (let roster = roster_of s session_id;
          counts = counts_of s session_id;
          count = (case map_of counts client_id of None \<Rightarrow> 0 | Some n \<Rightarrow> n)
      in case (case map_of roster client_id of
                 Some existing \<Rightarrow> (pm_color existing, pr_color_cursor s)
               | None \<Rightarrow> assign_color (pr_color_cursor s) session_id roster) of
           (color, cursors) \<Rightarrow>
             (let member = \<lparr>pm_client_id = client_id,
                pm_display_name = (case display_name of
                    Some (c # cs) \<Rightarrow> c # cs
                  | _ \<Rightarrow> ''Guest-'' @ string_of_nat (length roster + 1)),
                pm_color = color\<rparr>
              in (member,
                  \<lparr>pr_rosters = dict_set (pr_rosters s) session_id (dict_set roster client_id member),
                   pr_color_cursor = cursors,
                   pr_conn_counts = dict_set (pr_conn_counts s) session_id
                     (dict_set counts client_id (count + 1))\<rparr>)))"

definition presence_leave :: "presence \<Rightarrow> string \<Rightarrow> string \<Rightarrow> member option \<times> presence" where
  "presence_leave s session_id client_id =
     (let counts = counts_of s session_id;
          count = (case map_of counts client_id of None \<Rightarrow> 0 | Some n \<Rightarrow> n)
      in if 1 < count
         then (None, s\<lparr>pr_conn_counts := dict_set (pr_conn_counts s) session_id
                 (dict_set counts client_id (count - 1))\<rparr>)
         else
           let counts = dict_del counts client_id;
               s = s\<lparr>pr_conn_counts := (if counts = [] then dict_del (pr_conn_counts s) session_id
                      else dict_set (pr_conn_counts s) session_id counts)\<rparr>;
               roster = roster_of s session_id
           in if roster = [] then (None, s)
              else let roster' = dict_del roster client_id
                   in (map_of roster client_id,
                       if roster' = []
                       then s\<lparr>pr_rosters := dict_del (pr_rosters s) session_id,
                              pr_color_cursor := dict_del (pr_color_cursor s) session_id\<rparr>
                       else s\<lparr>pr_rosters := dict_set (pr_rosters s) session_id roster'\<rparr>))"

definition presence_roster :: "presence \<Rightarrow> string \<Rightarrow> member list" where
  "presence_roster s session_id = dict_values (roster_of s session_id)"

definition presence_count :: "presence \<Rightarrow> string \<Rightarrow> nat" where
  "presence_count s session_id = length (roster_of s session_id)"

section \<open>Runs and open connections\<close>

datatype presence_op = Join string string "string option" | Leave string string

fun presence_step :: "presence \<Rightarrow> presence_op \<Rightarrow> presence" where
  "presence_step s (Join i c n) = snd (presence_join s i c n)"
| "presence_step s (Leave i c) = snd (presence_leave s i c)"

definition presence_run :: "presence_op list \<Rightarrow> presence" where
  "presence_run ops = foldl presence_step presence_init ops"

lemma presence_run_simps [simp]:
  "presence_run [] = presence_init"
  "presence_run (ops @ [op]) = presence_step (presence_run ops) op"
  by (simp_all add: presence_run_def)

text \<open>How many connections of a client a history leaves open.\<close>

fun open_step :: "string \<Rightarrow> string \<Rightarrow> nat \<Rightarrow> presence_op \<Rightarrow> nat" where
  "open_step i c n (Join i' c' _) = (if i' = i \<and> c' = c then n + 1 else n)"
| "open_step i c n (Leave i' c') = (if i' = i \<and> c' = c then n - 1 else n)"

definition open_connections :: "presence_op list \<Rightarrow> string \<Rightarrow> string \<Rightarrow> nat" where
  "open_connections ops i c = foldl (open_step i c) 0 ops"

definition conn :: "presence \<Rightarrow> string \<Rightarrow> string \<Rightarrow> nat" where
  "conn s i c = (case map_of (counts_of s i) c of None \<Rightarrow> 0 | Some n \<Rightarrow> n)"

definition presence_inv :: "presence \<Rightarrow> bool" where
  "presence_inv s \<longleftrightarrow> (\<forall>i. distinct (map fst (roster_of s i)) \<and>
     (\<forall>c. map_of (roster_of s i) c = None \<longleftrightarrow> conn s i c = 0))"

lemma roster_join:
  "roster_of (snd (presence_join s i c n)) j =
     (if j = i then dict_set (roster_of s i) c (fst (presence_join s i c n)) else roster_of s j)"
proof -
  have "pr_rosters (snd (presence_join s i c n)) =
      dict_set (pr_rosters s) i (dict_set (roster_of s i) c (fst (presence_join s i c n)))"
    unfolding presence_join_def Let_def split_beta fst_conv snd_conv presence.select_convs by (rule refl)
  then show ?thesis by (simp add: roster_of_def [of _ j])
qed

lemma conn_join:
  "conn (snd (presence_join s i c n)) j d = (if j = i \<and> d = c then conn s i c + 1 else conn s j d)"
proof -
  have "pr_conn_counts (snd (presence_join s i c n)) =
      dict_set (pr_conn_counts s) i (dict_set (counts_of s i) c (conn s i c + 1))"
    unfolding presence_join_def Let_def split_beta fst_conv snd_conv presence.select_convs conn_def by (rule refl)
  then show ?thesis by (auto simp: conn_def [of _ j] counts_of_def)
qed

lemma roster_of_counts [simp]: "roster_of (s\<lparr>pr_conn_counts := x\<rparr>) i = roster_of s i"
  by (simp add: roster_of_def)

lemma leave_sibling:
  assumes "1 < conn s i c"
  shows "presence_leave s i c = (None, s\<lparr>pr_conn_counts := dict_set (pr_conn_counts s) i
    (dict_set (counts_of s i) c (conn s i c - 1))\<rparr>)"
  using assms unfolding presence_leave_def Let_def conn_def by simp

lemma leave_last:
  assumes "\<not> 1 < conn s i c"
  shows "fst (presence_leave s i c) = map_of (roster_of s i) c"
    and "pr_conn_counts (snd (presence_leave s i c)) =
      (if dict_del (counts_of s i) c = [] then dict_del (pr_conn_counts s) i
       else dict_set (pr_conn_counts s) i (dict_del (counts_of s i) c))"
    and "pr_rosters (snd (presence_leave s i c)) =
      (if roster_of s i = [] then pr_rosters s
       else if dict_del (roster_of s i) c = [] then dict_del (pr_rosters s) i
       else dict_set (pr_rosters s) i (dict_del (roster_of s i) c))"
  using assms unfolding presence_leave_def Let_def conn_def
  by (simp_all only: if_False roster_of_counts split: if_split) simp_all

lemma roster_leave:
  "roster_of (snd (presence_leave s i c)) j =
     (if j = i \<and> conn s i c \<le> 1 then dict_del (roster_of s i) c else roster_of s j)"
proof (cases "1 < conn s i c")
  case True
  then show ?thesis by (simp add: leave_sibling)
next
  case False
  then show ?thesis
    by (cases "roster_of s i = []") (auto simp: roster_of_def leave_last(3))
qed

lemma conn_leave:
  "conn (snd (presence_leave s i c)) j d = (if j = i \<and> d = c then conn s i c - 1 else conn s j d)"
proof (cases "1 < conn s i c")
  case True
  then show ?thesis by (auto simp: leave_sibling conn_def counts_of_def)
next
  case False
  have "counts_of (snd (presence_leave s i c)) j =
      (if j = i then dict_del (counts_of s i) c else counts_of s j)"
    by (simp add: counts_of_def [of "snd _"] leave_last(2) [OF False] counts_of_def [of s j])
  with False show ?thesis by (simp add: conn_def [of _ j] conn_def [of s i])
qed

lemma leave_result:
  "fst (presence_leave s i c) = (if conn s i c \<le> 1 then map_of (roster_of s i) c else None)"
  by (cases "1 < conn s i c") (simp_all add: leave_sibling leave_last(1))

lemma presence_inv_step: "presence_inv s \<Longrightarrow> presence_inv (presence_step s op)"
  by (cases op) (auto simp: presence_inv_def roster_join conn_join roster_leave conn_leave)

lemma presence_inv_run: "presence_inv (presence_run ops)"
proof (induction ops rule: rev_induct)
  case Nil
  show ?case
    by (simp add: presence_inv_def presence_init_def roster_of_def conn_def counts_of_def)
next
  case (snoc op ops)
  then show ?case by (simp add: presence_inv_step)
qed

lemma conn_run: "conn (presence_run ops) i c = open_connections ops i c"
proof (induction ops rule: rev_induct)
  case Nil
  show ?case by (simp add: presence_init_def conn_def counts_of_def open_connections_def)
next
  case (snoc op ops)
  then show ?case
    by (cases op) (simp_all add: conn_join conn_leave open_connections_def)
qed

section \<open>Colours\<close>

lemma colors_distinct: "distinct PRESENCE_COLORS"
  by code_simp

lemma length_colors [simp]: "length PRESENCE_COLORS = 10"
  by (simp add: PRESENCE_COLORS_def)

lemma color_search_free:
  assumes "k < n" and "PRESENCE_COLORS ! ((cursor + k) mod 10) \<notin> used"
  shows "fst (color_search n cursor used) \<notin> used"
  using assms
proof (induction n arbitrary: cursor k)
  case (Suc n)
  show ?case
  proof (cases "PRESENCE_COLORS ! (cursor mod 10) \<notin> used")
    case False
    with Suc.prems have "k \<noteq> 0" by (cases k) auto
    then obtain k' where k: "k = Suc k'" by (cases k) auto
    have "(cursor mod 10 + 1 + k') mod 10 = (cursor + k) mod 10"
      using mod_add_left_eq [of cursor 10 "1 + k'"] by (simp add: k)
    with Suc.IH [of k' "cursor mod 10 + 1"] Suc.prems k have
      "fst (color_search n (cursor mod 10 + 1) used) \<notin> used" by simp
    then show ?thesis using False by (simp add: Let_def)
  qed (simp add: Let_def)
qed simp

lemma color_search_color: "fst (color_search n cursor used) \<in> set PRESENCE_COLORS"
  by (induction n arbitrary: cursor) (simp_all add: Let_def nth_mem)

text \<open>With fewer than ten members some colour is free, and the search finds one.\<close>

lemma join_color_free:
  assumes "map_of (roster_of s i) c = None" and "length (roster_of s i) < 10"
  shows "pm_color (fst (presence_join s i c n)) \<notin> pm_color ` set (dict_values (roster_of s i))"
proof -
  let ?used = "pm_color ` set (dict_values (roster_of s i))"
  define cur where "cur = (case map_of (pr_color_cursor s) i of None \<Rightarrow> 0 | Some n \<Rightarrow> n)"
  have "card ?used < card (set PRESENCE_COLORS)"
  proof -
    have "card ?used \<le> length (roster_of s i)"
      by (metis card_length length_map list.set_map)
    then show ?thesis using assms(2) by (simp add: distinct_card [OF colors_distinct])
  qed
  then obtain x where x: "x \<in> set PRESENCE_COLORS" "x \<notin> ?used"
    by (metis card_mono finite_imageI finite_set leD subsetI)
  then obtain m where m: "m < 10" "PRESENCE_COLORS ! m = x"
    by (metis in_set_conv_nth length_colors)
  obtain q r where qr: "cur = 10 * q + r" "r < 10"
    by (metis mod_less_divisor mult_div_mod_eq zero_less_numeral)
  then have "cur + (m + 10 - cur mod 10) = m + 10 * (q + 1)" by simp
  then have "(cur + (m + 10 - cur mod 10)) mod 10 = m mod 10"
    by (metis mod_mult_self2)
  then have "(cur + (m + 10 - cur mod 10) mod 10) mod 10 = m"
    using m(1) by (simp add: mod_add_right_eq)
  then have "fst (color_search 10 cur ?used) \<notin> ?used"
    using m(2) x(2) by (intro color_search_free [of "(m + 10 - cur mod 10) mod 10"]) auto
  moreover have "pm_color (fst (presence_join s i c n)) = fst (color_search 10 cur ?used)"
    unfolding presence_join_def Let_def split_beta fst_conv snd_conv member.select_convs assms(1)
      option.case assign_color_def length_colors cur_def by (rule refl)
  ultimately show ?thesis by simp
qed

lemma join_color_kept:
  "map_of (roster_of s i) c = Some m \<Longrightarrow> pm_color (fst (presence_join s i c n)) = pm_color m"
  unfolding presence_join_def Let_def split_beta fst_conv snd_conv member.select_convs by simp

definition colors_ok :: "presence \<Rightarrow> string \<Rightarrow> bool" where
  "colors_ok s i \<longleftrightarrow> (\<forall>c d m m'. map_of (roster_of s i) c = Some m \<and> map_of (roster_of s i) d = Some m' \<and>
     pm_color m = pm_color m' \<longrightarrow> c = d)"

lemma colors_ok_join:
  assumes "colors_ok s i" and "length (roster_of (snd (presence_join s i c n)) i) \<le> 10"
  shows "colors_ok (snd (presence_join s i c n)) i"
proof (cases "map_of (roster_of s i) c")
  case (Some m)
  then show ?thesis
    using assms(1) join_color_kept [OF Some, of n]
    unfolding colors_ok_def roster_join by (auto split: if_splits)
next
  case None
  then have "c \<notin> set (map fst (roster_of s i))" by (simp add: map_of_None_keys)
  from dict_set_absent [OF this] have "length (roster_of s i) < 10"
    using assms(2) by (simp add: roster_join)
  note free = join_color_free [OF None this, of n]
  have "pm_color m \<noteq> pm_color (fst (presence_join s i c n))"
    if "map_of (roster_of s i) d = Some m" for d m
    using free map_of_value [OF that] by (metis imageI)
  then show ?thesis
    using assms(1) unfolding colors_ok_def roster_join by (auto split: if_splits) metis+
qed

lemma colors_ok_step:
  assumes "colors_ok s i" and "length (roster_of (presence_step s op) i) \<le> 10"
  shows "colors_ok (presence_step s op) i"
proof (cases op)
  case (Join j c n)
  show ?thesis
  proof (cases "j = i")
    case True
    then show ?thesis using Join assms colors_ok_join [of s i c n] by simp
  next
    case False
    then have "roster_of (presence_step s op) i = roster_of s i" using Join by (simp add: roster_join)
    then show ?thesis using assms(1) unfolding colors_ok_def by simp
  qed
next
  case (Leave j c)
  then show ?thesis using assms(1) by (auto simp: colors_ok_def roster_leave split: if_splits)
qed

section \<open>Properties\<close>

text \<open>Presence is reference counted. After any history of joins and leaves, a client is on the
  roster of a session exactly when the history leaves a connection of it open, the stored count
  is the number of those connections, and a leave returns the member (so that the departure is
  announced) exactly when it closes the last one.\<close>

theorem presence_refcount:
  "conn (presence_run ops) i c = open_connections ops i c \<and>
   (c \<in> set (dict_keys (roster_of (presence_run ops) i)) \<longleftrightarrow> 0 < open_connections ops i c) \<and>
   (fst (presence_leave (presence_run ops) i c) \<noteq> None \<longleftrightarrow> open_connections ops i c = 1)"
proof -
  have k: "map_of (roster_of (presence_run ops) i) c = None \<longleftrightarrow> open_connections ops i c = 0"
    using presence_inv_run [of ops] by (simp add: presence_inv_def conn_run)
  have "c \<in> set (dict_keys (roster_of (presence_run ops) i)) \<longleftrightarrow> 0 < open_connections ops i c"
    using k map_of_None_keys [of "roster_of (presence_run ops) i" c] by auto
  moreover have "fst (presence_leave (presence_run ops) i c) \<noteq> None \<longleftrightarrow> open_connections ops i c = 1"
    using k by (cases "map_of (roster_of (presence_run ops) i) c") (auto simp: leave_result conn_run)
  ultimately show ?thesis by (simp add: conn_run)
qed

text \<open>Members are told apart by colour. In a session whose roster has never had more than ten
  members, no two members have the same colour; and in any session a member keeps its colour for
  as long as it stays on the roster, whatever happens in between.\<close>

theorem presence_colors:
  assumes "\<forall>k \<le> length ops. presence_count (presence_run (take k ops)) i \<le> 10"
  shows "distinct (map pm_color (presence_roster (presence_run ops) i)) \<and>
    (\<forall>op c m m'. map_of (roster_of (presence_run ops) i) c = Some m \<and>
        map_of (roster_of (presence_step (presence_run ops) op) i) c = Some m' \<longrightarrow>
        pm_color m' = pm_color m)"
proof
  have ok: "colors_ok (presence_run ops) i"
    using assms
  proof (induction ops rule: rev_induct)
    case Nil
    show ?case by (simp add: colors_ok_def presence_init_def roster_of_def)
  next
    case (snoc op ops)
    have "\<forall>k \<le> length ops. presence_count (presence_run (take k ops)) i \<le> 10"
    proof (intro allI impI)
      fix k assume "k \<le> length ops"
      then show "presence_count (presence_run (take k ops)) i \<le> 10"
        using snoc.prems [rule_format, of k] by simp
    qed
    moreover have "length (roster_of (presence_step (presence_run ops) op) i) \<le> 10"
      using snoc.prems [rule_format, of "Suc (length ops)"] by (simp add: presence_count_def)
    ultimately show ?case using colors_ok_step snoc.IH by simp
  qed
  let ?r = "roster_of (presence_run ops) i"
  have d: "distinct (map fst ?r)" using presence_inv_run [of ops] by (simp add: presence_inv_def)
  have "inj_on (pm_color \<circ> snd) (set ?r)"
  proof (rule inj_onI)
    fix x y assume xy: "x \<in> set ?r" "y \<in> set ?r" "(pm_color \<circ> snd) x = (pm_color \<circ> snd) y"
    then have "map_of ?r (fst x) = Some (snd x)" "map_of ?r (fst y) = Some (snd y)"
      using d by simp_all
    then show "x = y" using ok xy(3) unfolding colors_ok_def by (metis comp_apply option.sel prod_eqI)
  qed
  then show "distinct (map pm_color (presence_roster (presence_run ops) i))"
    using d distinct_map [of fst ?r] by (simp add: presence_roster_def distinct_map)
next
  show "\<forall>op c m m'. map_of (roster_of (presence_run ops) i) c = Some m \<and>
      map_of (roster_of (presence_step (presence_run ops) op) i) c = Some m' \<longrightarrow> pm_color m' = pm_color m"
  proof (intro allI impI)
    fix op c m m'
    assume h: "map_of (roster_of (presence_run ops) i) c = Some m \<and>
      map_of (roster_of (presence_step (presence_run ops) op) i) c = Some m'"
    show "pm_color m' = pm_color m"
    proof (cases op)
      case (Join j d n)
      then show ?thesis
        using h join_color_kept [of "presence_run ops" i c m n] by (auto simp: roster_join split: if_splits)
    next
      case (Leave j d)
      then show ?thesis using h by (auto simp: roster_leave split: if_splits)
    qed
  qed
qed

section \<open>Witness\<close>

lemma presence_colors_witness:
  "distinct (map pm_color (presence_roster (presence_run
     [Join ''s'' ''ann'' None, Join ''s'' ''bob'' (Some ''Bob''), Leave ''s'' ''ann'', Join ''s'' ''cyd'' None]) ''s''))"
proof (rule presence_colors [THEN conjunct1])
  let ?ops = "[Join ''s'' ''ann'' None, Join ''s'' ''bob'' (Some ''Bob''), Leave ''s'' ''ann'', Join ''s'' ''cyd'' None]"
  have "\<forall>k \<in> set [0, 1, 2, 3, 4]. presence_count (presence_run (take k
      [Join ''s'' ''ann'' None, Join ''s'' ''bob'' (Some ''Bob''), Leave ''s'' ''ann'', Join ''s'' ''cyd'' None])) ''s'' \<le> 10"
    by code_simp
  moreover have "k \<le> length ?ops \<Longrightarrow> k \<in> set [0, 1, 2, 3, 4]" for k by simp linarith
  ultimately show "\<forall>k \<le> length ?ops. presence_count (presence_run (take k ?ops)) ''s'' \<le> 10" by blast
qed

end
