(* ===== verification/EventBus.thy ===== *)
theory EventBus
  imports PyJson
begin

text \<open>
  The in-process event bus (\<open>InProcessEventBus\<close> and \<open>Subscription\<close> in
  \<open>backend/core/session_hub.py\<close>). Subscriptions are objects with identity: \<open>bs_objects\<close> is
  the store of them, addressed by their id (the counter never repeats one), and the registry
  holds addresses. An event loop is a number; what another loop was asked to run
  (\<open>call_soon_threadsafe\<close>) waits in \<open>bs_callbacks\<close> until that loop turns.
\<close>

section \<open>State\<close>

definition DEFAULT_SUBSCRIBER_QUEUE_MAX :: int where
  "DEFAULT_SUBSCRIBER_QUEUE_MAX = 1000"

record subscription =
  sb_session_id :: string
  sb_sub_id :: nat
  sb_loop :: "nat option"
  sb_queue :: "json_obj list"
  sb_needs_resync :: bool

record bus =
  bs_queue_max :: int
  bs_subscribers :: "(string, (nat, nat) dict) dict"
  bs_ids :: nat
  bs_objects :: "nat \<Rightarrow> subscription"
  bs_callbacks :: "(nat \<times> nat \<times> json_obj) list"

definition new_subscription :: "string \<Rightarrow> nat \<Rightarrow> nat option \<Rightarrow> subscription" where
  "new_subscription session_id sub_id loop =
     \<lparr>sb_session_id = session_id, sb_sub_id = sub_id, sb_loop = loop, sb_queue = [],
      sb_needs_resync = False\<rparr>"

definition bus_init :: "int \<Rightarrow> bus" where
  "bus_init queue_max =
     \<lparr>bs_queue_max = queue_max, bs_subscribers = [], bs_ids = 0,
      bs_objects = (\<lambda>_. new_subscription [] 0 None), bs_callbacks = []\<rparr>"

definition subs_of :: "bus \<Rightarrow> string \<Rightarrow> (nat, nat) dict" where
  "subs_of b session_id =
     (case map_of (bs_subscribers b) session_id of None \<Rightarrow> [] | Some d \<Rightarrow> d)"

section \<open>Operations\<close>

definition bus_subscribe :: "bus \<Rightarrow> string \<Rightarrow> nat option \<Rightarrow> nat \<times> bus" where
  "bus_subscribe b session_id running_loop =
     (let i = bs_ids b
      in (i, b\<lparr>bs_ids := i + 1,
               bs_objects := (bs_objects b)(i := new_subscription session_id i running_loop),
               bs_subscribers := dict_set (bs_subscribers b) session_id
                 (dict_set (subs_of b session_id) i i)\<rparr>))"

definition bus_unsubscribe :: "bus \<Rightarrow> nat \<Rightarrow> bus" where
  "bus_unsubscribe b sub =
     (let s = sb_session_id (bs_objects b sub)
      in case map_of (bs_subscribers b) s of
           None \<Rightarrow> b
         | Some subs \<Rightarrow>
             let subs = dict_del subs (sb_sub_id (bs_objects b sub))
             in b\<lparr>bs_subscribers := (if subs = [] then dict_del (bs_subscribers b) s
                                     else dict_set (bs_subscribers b) s subs)\<rparr>)"

definition subscriber_count :: "bus \<Rightarrow> string \<Rightarrow> nat" where
  "subscriber_count b session_id = length (subs_of b session_id)"

text \<open>\<open>asyncio.Queue.put_nowait\<close>: \<open>None\<close> is \<open>QueueFull\<close>; a bound of at most zero is no bound.\<close>

definition put_nowait :: "int \<Rightarrow> json_obj list \<Rightarrow> json_obj \<Rightarrow> json_obj list option" where
  "put_nowait maxsize q event =
     (if 0 < maxsize \<and> maxsize \<le> int (length q) then None else Some (q @ [event]))"

text \<open>\<open>_drain\<close> takes until the queue is empty.\<close>

fun drain :: "json_obj list \<Rightarrow> json_obj list" where
  "drain [] = []"
| "drain (e # q) = drain q"

definition resync :: json_obj where
  "resync = [(''type'', JStr ''resync'')]"

definition publish_to_subscriber :: "int \<Rightarrow> subscription \<Rightarrow> json_obj \<Rightarrow> subscription" where
  "publish_to_subscriber maxsize sub event =
     (case put_nowait maxsize (sb_queue sub) event of
        Some q \<Rightarrow> sub\<lparr>sb_queue := q\<rparr>
      | None \<Rightarrow>
          let q = drain (sb_queue sub)
          in sub\<lparr>sb_needs_resync := True,
                 sb_queue := (case put_nowait maxsize q resync of Some q' \<Rightarrow> q' | None \<Rightarrow> q)\<rparr>)"

text \<open>
  \<open>publish\<close> over the snapshot of the subscribers. \<open>is_closed\<close> are the loops \<open>is_closed\<close> reports,
  \<open>dying\<close> those on which \<open>call_soon_threadsafe\<close> raises.
\<close>

definition publish_one ::
    "nat option \<Rightarrow> (nat \<Rightarrow> bool) \<Rightarrow> (nat \<Rightarrow> bool) \<Rightarrow> json_obj \<Rightarrow> bus \<Rightarrow> nat \<Rightarrow> bus" where
  "publish_one current_loop is_closed dying event b sub =
     (let loop = sb_loop (bs_objects b sub)
      in case loop of
           None \<Rightarrow> b\<lparr>bs_objects := (bs_objects b)(sub :=
                     publish_to_subscriber (bs_queue_max b) (bs_objects b sub) event)\<rparr>
         | Some l \<Rightarrow>
             if loop = current_loop
             then b\<lparr>bs_objects := (bs_objects b)(sub :=
                     publish_to_subscriber (bs_queue_max b) (bs_objects b sub) event)\<rparr>
             else if is_closed l then bus_unsubscribe b sub
             else if dying l then bus_unsubscribe b sub
             else b\<lparr>bs_callbacks := bs_callbacks b @ [(l, sub, event)]\<rparr>)"

definition bus_publish ::
    "bus \<Rightarrow> string \<Rightarrow> json_obj \<Rightarrow> nat option \<Rightarrow> (nat \<Rightarrow> bool) \<Rightarrow> (nat \<Rightarrow> bool) \<Rightarrow> bus" where
  "bus_publish b session_id event current_loop is_closed dying =
     foldl (publish_one current_loop is_closed dying event) b (dict_values (subs_of b session_id))"

text \<open>A loop runs the callback it was given first.\<close>

fun take_callback ::
    "nat \<Rightarrow> (nat \<times> nat \<times> json_obj) list \<Rightarrow> ((nat \<times> json_obj) option \<times> (nat \<times> nat \<times> json_obj) list)" where
  "take_callback l [] = (None, [])"
| "take_callback l ((l', sub, event) # cs) =
     (if l' = l then (Some (sub, event), cs)
      else case take_callback l cs of (r, cs') \<Rightarrow> (r, (l', sub, event) # cs'))"

definition loop_turn :: "bus \<Rightarrow> nat \<Rightarrow> bus" where
  "loop_turn b l =
     (case take_callback l (bs_callbacks b) of
        (None, cs) \<Rightarrow> b
      | (Some (sub, event), cs) \<Rightarrow>
          b\<lparr>bs_callbacks := cs,
            bs_objects := (bs_objects b)(sub :=
              publish_to_subscriber (bs_queue_max b) (bs_objects b sub) event)\<rparr>)"

text \<open>\<open>Subscription.get\<close> when something is there.\<close>

definition bus_get :: "bus \<Rightarrow> nat \<Rightarrow> json_obj option \<times> bus" where
  "bus_get b sub =
     (case sb_queue (bs_objects b sub) of
        [] \<Rightarrow> (None, b)
      | e # q \<Rightarrow> (Some e, b\<lparr>bs_objects := (bs_objects b)(sub := (bs_objects b sub)\<lparr>sb_queue := q\<rparr>)\<rparr>))"

section \<open>Runs and what a subscriber sees of them\<close>

datatype bus_op =
    Subscribe string "nat option"
  | Unsubscribe nat
  | Publish string json_obj "nat option" "nat \<Rightarrow> bool" "nat \<Rightarrow> bool"
  | LoopTurn nat
  | Get nat

fun bus_step :: "bus \<Rightarrow> bus_op \<Rightarrow> bus" where
  "bus_step b (Subscribe s l) = snd (bus_subscribe b s l)"
| "bus_step b (Unsubscribe i) = bus_unsubscribe b i"
| "bus_step b (Publish s e cur is_closed dying) = bus_publish b s e cur is_closed dying"
| "bus_step b (LoopTurn l) = loop_turn b l"
| "bus_step b (Get i) = snd (bus_get b i)"

definition bus_run :: "bus \<Rightarrow> bus_op list \<Rightarrow> bus" where
  "bus_run b ops = foldl bus_step b ops"

lemma bus_run_simps [simp]:
  "bus_run b [] = b" "bus_run b (op # ops) = bus_run (bus_step b op) ops"
  "bus_run b (ops @ ops') = bus_run (bus_run b ops) ops'"
  by (simp_all add: bus_run_def)

text \<open>The events an operation hands to the subscriber, asks its loop to hand over, and takes.\<close>

fun handed :: "nat \<Rightarrow> bus \<Rightarrow> bus_op \<Rightarrow> json_obj list" where
  "handed i b (Publish s e cur is_closed dying) =
     (if i \<in> set (dict_values (subs_of b s)) \<and>
         (sb_loop (bs_objects b i) = None \<or> sb_loop (bs_objects b i) = cur) then [e] else [])"
| "handed i b (LoopTurn l) =
     (case fst (take_callback l (bs_callbacks b)) of
        Some (sub, e) \<Rightarrow> if sub = i then [e] else [] | None \<Rightarrow> [])"
| "handed i b _ = []"

fun taken_by :: "nat \<Rightarrow> bus \<Rightarrow> bus_op \<Rightarrow> json_obj list" where
  "taken_by i b (Get j) = (if j = i then (case fst (bus_get b i) of Some e \<Rightarrow> [e] | None \<Rightarrow> []) else [])"
| "taken_by i b _ = []"

fun published_to :: "nat \<Rightarrow> bus \<Rightarrow> bus_op \<Rightarrow> json_obj list" where
  "published_to i b (Publish s e cur is_closed dying) =
     (if i \<in> set (dict_values (subs_of b s)) then [e] else [])"
| "published_to i b _ = []"

fun gather :: "(bus \<Rightarrow> bus_op \<Rightarrow> json_obj list) \<Rightarrow> bus \<Rightarrow> bus_op list \<Rightarrow> json_obj list" where
  "gather f b [] = []"
| "gather f b (op # ops) = f b op @ gather f (bus_step b op) ops"

lemma gather_append: "gather f b (ops @ ops') = gather f b ops @ gather f (bus_run b ops) ops'"
  by (induction ops arbitrary: b) simp_all

section \<open>Effect on one subscriber\<close>

definition bus_inv :: "bus \<Rightarrow> bool" where
  "bus_inv b \<longleftrightarrow> (\<forall>s. distinct (map fst (subs_of b s)) \<and>
     (\<forall>(k, i) \<in> set (subs_of b s). k = i \<and> i < bs_ids b \<and> sb_session_id (bs_objects b i) = s \<and>
        sb_sub_id (bs_objects b i) = i))"

lemma subs_of_set [simp]: "subs_of (b\<lparr>bs_subscribers := dict_set m s d\<rparr>) s' =
    (if s' = s then d else subs_of (b\<lparr>bs_subscribers := m\<rparr>) s')"
  by (simp add: subs_of_def)

lemma subs_of_frame [simp]:
  "subs_of (b\<lparr>bs_objects := x\<rparr>) s = subs_of b s"
  "subs_of (b\<lparr>bs_callbacks := y\<rparr>) s = subs_of b s"
  "subs_of (b\<lparr>bs_ids := z\<rparr>) s = subs_of b s"
  by (simp_all add: subs_of_def)

lemma subs_of_same [simp]: "subs_of (b\<lparr>bs_subscribers := bs_subscribers b\<rparr>) s = subs_of b s"
  by simp

lemma unsubscribe_frame [simp]:
  "bs_objects (bus_unsubscribe b j) = bs_objects b" "bs_ids (bus_unsubscribe b j) = bs_ids b"
  "bs_queue_max (bus_unsubscribe b j) = bs_queue_max b" "bs_callbacks (bus_unsubscribe b j) = bs_callbacks b"
  by (simp_all add: bus_unsubscribe_def Let_def split: option.split)

lemma subs_of_unsubscribe:
  "subs_of (bus_unsubscribe b j) s =
     (if s = sb_session_id (bs_objects b j) then dict_del (subs_of b s) (sb_sub_id (bs_objects b j))
      else subs_of b s)"
  by (auto simp: bus_unsubscribe_def Let_def subs_of_def split: option.splits)

lemma publish_to_subscriber_keys [simp]:
  "sb_session_id (publish_to_subscriber n x e) = sb_session_id x"
  "sb_sub_id (publish_to_subscriber n x e) = sb_sub_id x"
  "sb_loop (publish_to_subscriber n x e) = sb_loop x"
  by (simp_all add: publish_to_subscriber_def Let_def split: option.split)

lemma drain_empty [simp]: "drain q = []"
  by (induction q) simp_all

lemma publish_to_subscriber_cases:
  "sb_queue (publish_to_subscriber n x e) = sb_queue x @ [e] \<and>
     sb_needs_resync (publish_to_subscriber n x e) = sb_needs_resync x \<or>
   sb_queue (publish_to_subscriber n x e) = [resync] \<and> sb_needs_resync (publish_to_subscriber n x e)"
  by (auto simp: publish_to_subscriber_def put_nowait_def)

lemma publish_to_subscriber_bound:
  "0 < n \<Longrightarrow> int (length (sb_queue x)) \<le> n \<Longrightarrow> int (length (sb_queue (publish_to_subscriber n x e))) \<le> n"
  by (auto simp: publish_to_subscriber_def put_nowait_def)

text \<open>\<open>publish_one\<close> for a subscriber: what it does to that one and that it leaves the others.\<close>

definition direct :: "nat option \<Rightarrow> subscription \<Rightarrow> bool" where
  "direct cur x \<longleftrightarrow> sb_loop x = None \<or> sb_loop x = cur"

definition pending_for :: "nat \<Rightarrow> (nat \<times> nat \<times> json_obj) list \<Rightarrow> json_obj list" where
  "pending_for i cs = map (\<lambda>(l, j, e). e) (filter (\<lambda>(l, j, e). j = i) cs)"

lemma pending_for_simps [simp]:
  "pending_for i [] = []"
  "pending_for i ((l, j, e) # cs) = (if j = i then e # pending_for i cs else pending_for i cs)"
  "pending_for i (cs @ cs') = pending_for i cs @ pending_for i cs'"
  by (simp_all add: pending_for_def)

lemma publish_one_object:
  "bs_objects (publish_one cur cl dy e b j) i =
     (if i = j \<and> direct cur (bs_objects b j) then publish_to_subscriber (bs_queue_max b) (bs_objects b j) e
      else bs_objects b i)"
  by (auto simp: publish_one_def direct_def Let_def split: option.split)

lemma publish_one_frame [simp]:
  "bs_queue_max (publish_one cur cl dy e b j) = bs_queue_max b"
  "bs_ids (publish_one cur cl dy e b j) = bs_ids b"
  by (auto simp: publish_one_def Let_def split: option.split)

lemma publish_one_loop [simp]:
  "sb_loop (bs_objects (publish_one cur cl dy e b j) i) = sb_loop (bs_objects b i)"
  by (simp add: publish_one_object)

lemma publish_one_pending:
  "pending_for i (bs_callbacks (publish_one cur cl dy e b j)) =
     pending_for i (bs_callbacks b) @
     (if i = j \<and> \<not> direct cur (bs_objects b j) \<and> \<not> cl (the (sb_loop (bs_objects b j))) \<and>
         \<not> dy (the (sb_loop (bs_objects b j))) then [e] else [])"
  by (auto simp: publish_one_def direct_def Let_def split: option.split)

lemma publish_fold_object:
  "distinct js \<Longrightarrow> bs_objects (foldl (publish_one cur cl dy e) b js) i =
     (if i \<in> set js \<and> direct cur (bs_objects b i) then publish_to_subscriber (bs_queue_max b) (bs_objects b i) e
      else bs_objects b i)"
proof (induction js arbitrary: b)
  case (Cons j js)
  then show ?case
    by (cases "i = j") (auto simp: publish_one_object direct_def)
qed simp

lemma publish_fold_pending:
  "distinct js \<Longrightarrow> pending_for i (bs_callbacks (foldl (publish_one cur cl dy e) b js)) =
     pending_for i (bs_callbacks b) @
     (if i \<in> set js \<and> \<not> direct cur (bs_objects b i) \<and> \<not> cl (the (sb_loop (bs_objects b i))) \<and>
         \<not> dy (the (sb_loop (bs_objects b i))) then [e] else [])"
proof (induction js arbitrary: b)
  case (Cons j js)
  then show ?case
    by (cases "i = j") (auto simp: publish_one_pending direct_def)
qed simp

lemma publish_fold_frame [simp]:
  "bs_queue_max (foldl (publish_one cur cl dy e) b js) = bs_queue_max b"
  "bs_ids (foldl (publish_one cur cl dy e) b js) = bs_ids b"
  by (induction js arbitrary: b) simp_all

section \<open>The registry invariant\<close>

lemma bus_inv_objects:
  assumes "bus_inv b" and "\<And>i. sb_session_id (x i) = sb_session_id (bs_objects b i) \<and> sb_sub_id (x i) = sb_sub_id (bs_objects b i)"
  shows "bus_inv (b\<lparr>bs_objects := x\<rparr>)"
  using assms by (simp add: bus_inv_def)

text \<open>Entry by entry.\<close>

definition entry_ok :: "bus \<Rightarrow> string \<Rightarrow> nat \<times> nat \<Rightarrow> bool" where
  "entry_ok b s p \<longleftrightarrow> fst p = snd p \<and> snd p < bs_ids b \<and>
     sb_session_id (bs_objects b (snd p)) = s \<and> sb_sub_id (bs_objects b (snd p)) = snd p"

lemma bus_inv_alt:
  "bus_inv b \<longleftrightarrow> (\<forall>s. distinct (map fst (subs_of b s)) \<and> (\<forall>p \<in> set (subs_of b s). entry_ok b s p))"
  by (simp add: bus_inv_def entry_ok_def split_beta)

lemma set_dict_del: "set (dict_del d k) \<subseteq> set d"
  by (auto simp: AList.delete_eq)

lemma bus_inv_unsubscribe:
  assumes "bus_inv b"
  shows "bus_inv (bus_unsubscribe b j)"
  unfolding bus_inv_alt
proof (intro allI conjI ballI)
  fix s
  have inv: "distinct (map fst (subs_of b s))" "\<forall>p \<in> set (subs_of b s). entry_ok b s p"
    using assms by (simp_all add: bus_inv_alt)
  show "distinct (map fst (subs_of (bus_unsubscribe b j) s))"
    using distinct_dict_del [OF inv(1)] inv(1) by (auto simp: subs_of_unsubscribe)
  fix p assume "p \<in> set (subs_of (bus_unsubscribe b j) s)"
  then have "p \<in> set (subs_of b s)"
    using set_dict_del [of _ "subs_of b s"] by (auto simp: subs_of_unsubscribe split: if_splits)
  with inv(2) show "entry_ok (bus_unsubscribe b j) s p" by (simp add: entry_ok_def)
qed

lemma bus_inv_subscribe:
  assumes "bus_inv b"
  shows "bus_inv (snd (bus_subscribe b s l))"
  unfolding bus_inv_alt
proof (intro allI conjI ballI)
  fix s'
  have inv: "distinct (map fst (subs_of b s'))" "\<forall>p \<in> set (subs_of b s'). entry_ok b s' p" for s'
    using assms by (simp_all add: bus_inv_alt)
  have fresh: "bs_ids b \<notin> set (map fst (subs_of b s'))" for s'
    using inv(2) [of s'] by (auto simp: entry_ok_def)
  have new: "subs_of (snd (bus_subscribe b s l)) s' =
      (if s' = s then subs_of b s @ [(bs_ids b, bs_ids b)] else subs_of b s')"
    by (simp add: bus_subscribe_def Let_def subs_of_def [of "_\<lparr>bs_subscribers := _\<rparr>"]
        dict_set_absent [OF fresh] subs_of_def [of b s'])
  show "distinct (map fst (subs_of (snd (bus_subscribe b s l)) s'))"
    using inv(1) [of s'] fresh [of s'] by (auto simp: new)
  fix p assume "p \<in> set (subs_of (snd (bus_subscribe b s l)) s')"
  then consider "p \<in> set (subs_of b s')" | "s' = s" "p = (bs_ids b, bs_ids b)"
    by (auto simp: new split: if_splits)
  then show "entry_ok (snd (bus_subscribe b s l)) s' p"
    using inv(2) [of s'] by cases (auto simp: entry_ok_def bus_subscribe_def Let_def new_subscription_def)
qed

lemma bus_inv_publish_one: "bus_inv b \<Longrightarrow> bus_inv (publish_one cur cl dy e b j)"
  by (auto simp: publish_one_def Let_def bus_inv_unsubscribe intro: bus_inv_objects split: option.split)
    (simp add: bus_inv_def)

lemma bus_inv_publish_fold: "bus_inv b \<Longrightarrow> bus_inv (foldl (publish_one cur cl dy e) b js)"
  by (induction js arbitrary: b) (simp_all add: bus_inv_publish_one)

lemma bus_inv_publish: "bus_inv b \<Longrightarrow> bus_inv (bus_publish b s e cur cl dy)"
  by (simp add: bus_publish_def bus_inv_publish_fold)

lemma bus_inv_step: "bus_inv b \<Longrightarrow> bus_inv (bus_step b op)"
proof (cases op)
  case (LoopTurn l)
  assume "bus_inv b"
  then show ?thesis
    using LoopTurn bus_inv_objects [of "b\<lparr>bs_callbacks := _\<rparr>"]
    by (auto simp: loop_turn_def bus_inv_def split: prod.split option.split)
next
  case (Get j)
  assume "bus_inv b"
  then show ?thesis using Get by (auto simp: bus_get_def bus_inv_def split: list.split)
qed (simp_all add: bus_inv_subscribe bus_inv_unsubscribe bus_inv_publish)

lemma bus_inv_init [simp]: "bus_inv (bus_init n)"
  by (simp add: bus_inv_def bus_init_def subs_of_def)

lemma bus_inv_run: "bus_inv b \<Longrightarrow> bus_inv (bus_run b ops)"
  by (induction ops arbitrary: b) (simp_all add: bus_inv_step)

lemma subs_values_distinct: "bus_inv b \<Longrightarrow> distinct (dict_values (subs_of b s))"
proof -
  assume inv: "bus_inv b"
  then have "dict_values (subs_of b s) = map fst (subs_of b s)"
    unfolding bus_inv_def by (intro map_cong [OF refl]) fastforce
  moreover have "distinct (map fst (subs_of b s))" using inv by (simp add: bus_inv_def)
  ultimately show ?thesis by (simp only:)
qed

section \<open>No silent loss\<close>

text \<open>
  What has come out of the queue and what is in it (\<open>r\<close>), against what was handed over (\<open>l\<close>):
  all of it, or, after the last resync marker, exactly the latest events.
\<close>

definition stream_ok :: "bool \<Rightarrow> json_obj list \<Rightarrow> json_obj list \<Rightarrow> bool" where
  "stream_ok resynced r l \<longleftrightarrow>
     (if resynced then \<exists>r1 s l1. r = r1 @ resync # s \<and> l = l1 @ s else r = l)"

lemma stream_ok_put:
  assumes "stream_ok (sb_needs_resync x) (got @ sb_queue x) l"
  shows "stream_ok (sb_needs_resync (publish_to_subscriber n x e))
    (got @ sb_queue (publish_to_subscriber n x e)) (l @ [e])"
proof -
  consider "sb_queue (publish_to_subscriber n x e) = sb_queue x @ [e]"
      "sb_needs_resync (publish_to_subscriber n x e) = sb_needs_resync x"
    | "sb_queue (publish_to_subscriber n x e) = [resync]" "sb_needs_resync (publish_to_subscriber n x e)"
    using publish_to_subscriber_cases by blast
  then show ?thesis
  proof cases
    case 1
    then show ?thesis
      using assms unfolding stream_ok_def by (auto split: if_splits) (metis append.assoc append_Cons)
  next
    case 2
    have "got @ [resync] = got @ resync # [] \<and> l @ [e] = (l @ [e]) @ []" by simp
    with 2 show ?thesis unfolding stream_ok_def by (simp only: if_True) blast
  qed
qed

lemma step_stream:
  assumes "bus_inv b" and "i < bs_ids b"
    and "stream_ok (sb_needs_resync (bs_objects b i)) (got @ sb_queue (bs_objects b i)) l"
  shows "stream_ok (sb_needs_resync (bs_objects (bus_step b op) i))
      ((got @ taken_by i b op) @ sb_queue (bs_objects (bus_step b op) i)) (l @ handed i b op)"
proof (cases op)
  case (Publish s e cur cl dy)
  then show ?thesis
    using assms(3) stream_ok_put [OF assms(3)]
    by (cases "direct cur (bs_objects b i)")
      (auto simp: bus_publish_def publish_fold_object [OF subs_values_distinct [OF assms(1)]] direct_def)
next
  case (LoopTurn k)
  show ?thesis
  proof (cases "fst (take_callback k (bs_callbacks b))")
    case None
    then show ?thesis using LoopTurn assms(3) by (simp add: loop_turn_def split_beta)
  next
    case (Some c)
    then show ?thesis
      using LoopTurn assms(3) stream_ok_put [OF assms(3)]
      by (cases c) (simp add: loop_turn_def split_beta)
  qed
next
  case (Get j)
  then show ?thesis
    using assms(3) by (cases "sb_queue (bs_objects b j)") (auto simp: bus_get_def)
qed (use assms(2,3) in \<open>simp_all add: bus_subscribe_def Let_def\<close>)

lemma step_ids: "bs_ids b \<le> bs_ids (bus_step b op)"
  by (cases op) (auto simp: bus_subscribe_def Let_def bus_publish_def loop_turn_def bus_get_def
      split: prod.split option.split list.split)

lemma run_stream:
  assumes "bus_inv b" and "i < bs_ids b"
    and "stream_ok (sb_needs_resync (bs_objects b i)) (got @ sb_queue (bs_objects b i)) l"
  shows "stream_ok (sb_needs_resync (bs_objects (bus_run b ops) i))
      ((got @ gather (taken_by i) b ops) @ sb_queue (bs_objects (bus_run b ops) i)) (l @ gather (handed i) b ops)"
  using assms
proof (induction ops arbitrary: b got l)
  case (Cons op ops)
  have "i < bs_ids (bus_step b op)" using step_ids [of b op] Cons.prems(2) by simp
  from Cons.IH [OF bus_inv_step [OF Cons.prems(1)] this step_stream [OF Cons.prems]] show ?case
    by simp
qed simp

text \<open>What the loop of a subscriber is still to run for it.\<close>

lemma take_callback_pending:
  "mset (pending_for i cs) = mset (pending_for i (snd (take_callback k cs))) +
     (case fst (take_callback k cs) of
        Some (j, e) \<Rightarrow> if j = i then {#e#} else {#} | None \<Rightarrow> {#})"
proof (induction cs)
  case (Cons c cs)
  obtain l j e where c: "c = (l, j, e)" by (cases c)
  show ?case
  proof (cases "l = k")
    case False
    with Cons.IH show ?thesis unfolding c by (simp add: split_beta)
  qed (simp add: c)
qed simp

definition alive :: "bus_op \<Rightarrow> bool" where
  "alive op = (case op of Publish s e cur cl dy \<Rightarrow> (\<forall>l. \<not> cl l \<and> \<not> dy l) | _ \<Rightarrow> True)"

lemma step_pending:
  assumes "bus_inv b" and "alive op"
  shows "mset (pending_for i (bs_callbacks b)) + mset (published_to i b op) =
    mset (handed i b op) + mset (pending_for i (bs_callbacks (bus_step b op)))"
proof (cases op)
  case (Publish s e cur cl dy)
  then show ?thesis
    using assms(2)
    by (auto simp: bus_publish_def publish_fold_pending [OF subs_values_distinct [OF assms(1)]] direct_def alive_def)
next
  case (LoopTurn k)
  show ?thesis
  proof (cases "fst (take_callback k (bs_callbacks b))")
    case None
    then show ?thesis using LoopTurn by (simp add: loop_turn_def split_beta)
  next
    case (Some c)
    then show ?thesis
      using LoopTurn take_callback_pending [of i "bs_callbacks b" k]
      by (cases c) (simp add: loop_turn_def split_beta)
  qed
qed (auto simp: bus_subscribe_def Let_def bus_get_def split: list.split)

lemma chain_eq: "A + P = H + B \<Longrightarrow> B + P' = H' + C \<Longrightarrow> A + (P + P') = H + H' + (C :: 'a multiset)"
  by (metis add.assoc)

lemma run_pending:
  assumes "bus_inv b" and "\<forall>op \<in> set ops. alive op"
  shows "mset (pending_for i (bs_callbacks b)) + mset (gather (published_to i) b ops) =
    mset (gather (handed i) b ops) + mset (pending_for i (bs_callbacks (bus_run b ops)))"
  using assms
proof (induction ops arbitrary: b)
  case (Cons op ops)
  have "alive op" using Cons.prems(2) by simp
  note step = step_pending [OF Cons.prems(1) this, of i]
  note rest = Cons.IH [OF bus_inv_step [OF Cons.prems(1)], of op]
  from chain_eq [OF step rest] Cons.prems(2) show ?case by simp
qed simp

text \<open>Callbacks are for subscriptions that exist.\<close>

definition pending_inv :: "bus \<Rightarrow> bool" where
  "pending_inv b \<longleftrightarrow> (\<forall>i. bs_ids b \<le> i \<longrightarrow> pending_for i (bs_callbacks b) = [])"

lemma pending_inv_step:
  assumes "pending_inv b" and "bus_inv b"
  shows "pending_inv (bus_step b op)"
  unfolding pending_inv_def
proof (intro allI impI)
  fix i assume i: "bs_ids (bus_step b op) \<le> i"
  then have "bs_ids b \<le> i" using step_ids [of b op] by simp
  then have old: "pending_for i (bs_callbacks b) = []" using assms(1) by (simp add: pending_inv_def)
  show "pending_for i (bs_callbacks (bus_step b op)) = []"
  proof (cases op)
    case (Publish s e cur cl dy)
    have "i \<notin> set (dict_values (subs_of b s))"
      using assms(2) \<open>bs_ids b \<le> i\<close> by (fastforce simp: bus_inv_def)
    then show ?thesis
      using Publish old
      by (simp add: bus_publish_def publish_fold_pending [OF subs_values_distinct [OF assms(2)]])
  next
    case (LoopTurn k)
    show ?thesis
    proof (cases "fst (take_callback k (bs_callbacks b))")
      case (Some c)
      then show ?thesis
        using LoopTurn old take_callback_pending [of i "bs_callbacks b" k]
        by (cases c) (simp add: loop_turn_def split_beta)
    qed (use LoopTurn old in \<open>simp add: loop_turn_def split_beta\<close>)
  qed (use old in \<open>auto simp: bus_subscribe_def Let_def bus_get_def split: list.split\<close>)
qed

lemma pending_inv_run: "pending_inv b \<Longrightarrow> bus_inv b \<Longrightarrow> pending_inv (bus_run b ops)"
  by (induction ops arbitrary: b) (simp_all add: pending_inv_step bus_inv_step)

text \<open>Queues keep their bound.\<close>

definition queues_in_bound :: "bus \<Rightarrow> bool" where
  "queues_in_bound b \<longleftrightarrow> (\<forall>i. 0 < bs_queue_max b \<longrightarrow> int (length (sb_queue (bs_objects b i))) \<le> bs_queue_max b)"

lemma queues_in_bound_step:
  assumes "queues_in_bound b" and "bus_inv b"
  shows "queues_in_bound (bus_step b op)"
proof (cases op)
  case (Publish s e cur cl dy)
  then show ?thesis
    using assms(1) publish_to_subscriber_bound
    by (simp add: queues_in_bound_def bus_publish_def publish_fold_object [OF subs_values_distinct [OF assms(2)]])
next
  case (LoopTurn k)
  then show ?thesis
    using assms(1) publish_to_subscriber_bound
    by (auto simp: queues_in_bound_def loop_turn_def split: prod.split option.split)
next
  case (Get j)
  show ?thesis
  proof (cases "sb_queue (bs_objects b j)")
    case (Cons e q)
    have "0 < bs_queue_max b \<longrightarrow> int (length (sb_queue (bs_objects b j))) \<le> bs_queue_max b"
      using assms(1) unfolding queues_in_bound_def by blast
    then have "0 < bs_queue_max b \<longrightarrow> int (length q) \<le> bs_queue_max b" using Cons by auto
    then show ?thesis using Get Cons assms(1) by (simp add: queues_in_bound_def bus_get_def)
  qed (use Get assms(1) in \<open>simp add: bus_get_def\<close>)
qed (use assms(1) in \<open>simp_all add: queues_in_bound_def bus_subscribe_def Let_def new_subscription_def\<close>)

lemma queues_in_bound_run:
  assumes "queues_in_bound b" and "bus_inv b"
  shows "queues_in_bound (bus_run b ops)"
  using assms by (induction ops arbitrary: b) (simp_all add: queues_in_bound_step bus_inv_step)

section \<open>Properties\<close>

text \<open>C11: a subscriber never loses an event silently. Whatever is published, subscribed and
  unsubscribed afterwards, by whichever loops, what a subscription has delivered and still holds
  is everything that was handed to it, in the order of the handing over, or, once it was told to
  resync, ends with the resync marker followed by exactly the most recent events. Its queue stays
  within the bound. If no loop dies, the events handed over and those its loop is still to run are
  together exactly the events published to it. (An event published on the subscriber's own loop, or
  to a subscriber without one, is handed over at once, one published elsewhere when the subscriber's
  loop runs the callback, so the order is not always that of publication: \<open>bus_out_of_order\<close>.)\<close>

theorem bus_no_silent_loss:
  assumes "b = bus_run (bus_init n) before" and "(i, b1) = bus_subscribe b s l" and "b2 = bus_run b1 ops"
  shows "stream_ok (sb_needs_resync (bs_objects b2 i))
      (gather (taken_by i) b1 ops @ sb_queue (bs_objects b2 i)) (gather (handed i) b1 ops) \<and>
    (0 < bs_queue_max b2 \<longrightarrow> int (length (sb_queue (bs_objects b2 i))) \<le> bs_queue_max b2) \<and>
    ((\<forall>op \<in> set ops. alive op) \<longrightarrow>
      mset (gather (handed i) b1 ops) + mset (pending_for i (bs_callbacks b2)) =
      mset (gather (published_to i) b1 ops))"
proof -
  have inv: "bus_inv b" using assms(1) by (simp add: bus_inv_run)
  have b1: "b1 = bus_step b (Subscribe s l)" "i = bs_ids b"
    using assms(2) by (simp_all add: bus_subscribe_def Let_def)
  have inv1: "bus_inv b1" unfolding b1(1) by (rule bus_inv_step [OF inv])
  have obj: "bs_objects b1 i = new_subscription s i l" "i < bs_ids b1"
    using b1 by (simp_all add: bus_subscribe_def Let_def)
  have "queues_in_bound (bus_init n)"
    by (auto simp: queues_in_bound_def bus_init_def new_subscription_def)
  then have "queues_in_bound b" using assms(1) by (simp add: queues_in_bound_run)
  then have "queues_in_bound b2"
    unfolding assms(3) using queues_in_bound_step [OF _ inv] inv1 b1(1) by (metis queues_in_bound_run)
  moreover have "stream_ok (sb_needs_resync (bs_objects b2 i))
      (gather (taken_by i) b1 ops @ sb_queue (bs_objects b2 i)) (gather (handed i) b1 ops)"
    using run_stream [OF inv1 obj(2), of "[]" "[]" ops] assms(3)
    by (simp add: obj(1) new_subscription_def stream_ok_def)
  moreover have "pending_inv b"
    unfolding assms(1)
    by (rule pending_inv_run [OF _ bus_inv_init]) (simp add: pending_inv_def bus_init_def)
  then have "pending_for i (bs_callbacks b) = []" using b1(2) by (simp add: pending_inv_def)
  moreover have "bs_callbacks b1 = bs_callbacks b" using b1(1) by (simp add: bus_subscribe_def Let_def)
  ultimately show ?thesis
    using run_pending [OF inv1, of ops i] assms(3) by (simp add: queues_in_bound_def)
qed

section \<open>Witness\<close>

definition demo_event :: "int \<Rightarrow> json_obj" where
  "demo_event n = [(''n'', JInt n)]"

definition demo_publish :: "int \<Rightarrow> bus_op" where
  "demo_publish n = Publish ''s'' (demo_event n) None (\<lambda>_. False) (\<lambda>_. False)"

lemma bus_no_silent_loss_witness:
  "\<exists>b2. b2 = bus_run (snd (bus_subscribe (bus_init 2) ''s'' None))
      [demo_publish 1, Get 0, demo_publish 2, demo_publish 3, demo_publish 4, demo_publish 5] \<and>
    stream_ok (sb_needs_resync (bs_objects b2 0)) (demo_event 1 # sb_queue (bs_objects b2 0))
      (map demo_event [1, 2, 3, 4, 5])"
proof -
  let ?ops = "[demo_publish 1, Get 0, demo_publish 2, demo_publish 3, demo_publish 4, demo_publish 5]"
  let ?b1 = "snd (bus_subscribe (bus_init 2) ''s'' None)"
  have "(0, ?b1) = bus_subscribe (bus_init 2) ''s'' None"
    by (simp add: bus_subscribe_def bus_init_def)
  note loss = bus_no_silent_loss [where n = 2 and before = "[]" and i = 0 and s = "''s''" and l = None
      and ops = ?ops and b = "bus_init 2", OF _ this refl, THEN conjunct1]
  have "gather (taken_by 0) ?b1 ?ops = [demo_event 1]" "gather (handed 0) ?b1 ?ops = map demo_event [1, 2, 3, 4, 5]"
    by (simp_all add: demo_publish_def demo_event_def bus_subscribe_def bus_init_def bus_publish_def publish_one_def
        publish_to_subscriber_def put_nowait_def new_subscription_def subs_of_def Let_def bus_get_def)
  with loss show ?thesis by (simp only: bus_run_simps simp_thms append_Cons append_Nil)
qed

text \<open>Event 1 published from loop 1, then event 2 from the subscriber's own loop 0: 2 comes first.\<close>

lemma bus_out_of_order:
  "sb_queue (bs_objects (bus_run (bus_init 9)
      [Subscribe ''s'' (Some 0), Publish ''s'' (demo_event 1) (Some 1) (\<lambda>_. False) (\<lambda>_. False),
       Publish ''s'' (demo_event 2) (Some 0) (\<lambda>_. False) (\<lambda>_. False), LoopTurn 0]) 0) =
     [demo_event 2, demo_event 1]"
  by code_simp

end
