(* ===== verification/TokenBucket.thy ===== *)
theory TokenBucket
  imports Prelude
begin

text \<open>
  The per-client token bucket (\<open>_TokenBucket\<close> in \<open>backend/core/session_manager.py\<close>) that
  bounds how fast a client may send ops, and how fast a source may look sessions up.
\<close>

section \<open>The bucket\<close>

definition BUCKET_IDLE_TTL :: rat where
  "BUCKET_IDLE_TTL = 3600"

definition BUCKET_SWEEP_INTERVAL :: rat where
  "BUCKET_SWEEP_INTERVAL = 300"

record bucket =
  tb_capacity :: rat
  tb_refill :: rat
  tb_tokens :: "(string, rat) dict"
  tb_last :: "(string, rat) dict"
  tb_idle_ttl :: rat
  tb_sweep_interval :: rat
  tb_last_sweep :: rat

definition new_bucket :: "rat \<Rightarrow> rat \<Rightarrow> bucket" where
  "new_bucket capacity refill =
     \<lparr>tb_capacity = capacity, tb_refill = refill, tb_tokens = [], tb_last = [],
      tb_idle_ttl = BUCKET_IDLE_TTL, tb_sweep_interval = BUCKET_SWEEP_INTERVAL, tb_last_sweep = 0\<rparr>"

definition bucket_evict :: "bucket \<Rightarrow> rat \<Rightarrow> bucket" where
  "bucket_evict b now =
     (let cutoff = now - tb_idle_ttl b;
          stale = map fst (filter (\<lambda>(k, t). t < cutoff) (tb_last b))
      in b\<lparr>tb_tokens := foldl dict_del (tb_tokens b) stale,
           tb_last := foldl dict_del (tb_last b) stale,
           tb_last_sweep := now\<rparr>)"

definition bucket_consume :: "bucket \<Rightarrow> string \<Rightarrow> rat \<Rightarrow> rat \<Rightarrow> bool \<times> bucket" where
  "bucket_consume b client_id amount now =
     (let b = (if tb_sweep_interval b \<le> now - tb_last_sweep b then bucket_evict b now else b);
          tokens = (case map_of (tb_tokens b) client_id of None \<Rightarrow> tb_capacity b | Some t \<Rightarrow> t);
          last = (case map_of (tb_last b) client_id of None \<Rightarrow> now | Some t \<Rightarrow> t);
          tokens = min (tb_capacity b) (tokens + (now - last) * tb_refill b);
          b = b\<lparr>tb_last := dict_set (tb_last b) client_id now\<rparr>
      in if tokens < amount then (False, b\<lparr>tb_tokens := dict_set (tb_tokens b) client_id tokens\<rparr>)
         else (True, b\<lparr>tb_tokens := dict_set (tb_tokens b) client_id (tokens - amount)\<rparr>))"

section \<open>Runs\<close>

type_synonym request = "string \<times> rat \<times> rat"

fun bucket_run :: "bucket \<Rightarrow> request list \<Rightarrow> bucket" where
  "bucket_run b [] = b"
| "bucket_run b ((c, amount, now) # rs) = bucket_run (snd (bucket_consume b c amount now)) rs"

text \<open>What a client is granted over a run.\<close>

fun tb_granted :: "string \<Rightarrow> bucket \<Rightarrow> request list \<Rightarrow> rat" where
  "tb_granted c b [] = 0"
| "tb_granted c b ((c', amount, now) # rs) =
     (if c' = c \<and> fst (bucket_consume b c' amount now) then amount else 0) +
     tb_granted c (snd (bucket_consume b c' amount now)) rs"

text \<open>Requests for non-negative amounts at the times a monotonic clock gives.\<close>

fun clocked :: "rat \<Rightarrow> request list \<Rightarrow> bool" where
  "clocked t [] = True"
| "clocked t ((c, amount, now) # rs) = (t \<le> now \<and> 0 \<le> amount \<and> clocked now rs)"

fun run_end :: "rat \<Rightarrow> request list \<Rightarrow> rat" where
  "run_end t [] = t"
| "run_end t ((c, amount, now) # rs) = run_end now rs"

section \<open>The level of a client's bucket\<close>

definition level :: "bucket \<Rightarrow> string \<Rightarrow> rat \<Rightarrow> rat" where
  "level b c t =
     (case map_of (tb_last b) c of
        None \<Rightarrow> tb_capacity b
      | Some l \<Rightarrow> min (tb_capacity b)
          ((case map_of (tb_tokens b) c of None \<Rightarrow> tb_capacity b | Some x \<Rightarrow> x) + (t - l) * tb_refill b))"

definition bucket_inv :: "bucket \<Rightarrow> rat \<Rightarrow> bool" where
  "bucket_inv b t \<longleftrightarrow> 0 \<le> tb_capacity b \<and> 0 \<le> tb_refill b \<and>
     tb_capacity b \<le> tb_refill b * tb_idle_ttl b \<and>
     distinct (map fst (tb_last b)) \<and>
     (\<forall>c l. map_of (tb_last b) c = Some l \<longrightarrow> l \<le> t) \<and>
     (\<forall>c. map_of (tb_last b) c = None \<longleftrightarrow> map_of (tb_tokens b) c = None) \<and>
     (\<forall>c x. map_of (tb_tokens b) c = Some x \<longrightarrow> 0 \<le> x \<and> x \<le> tb_capacity b)"

lemma bucket_dom:
  assumes "bucket_inv b t"
  shows "map_of (tb_last b) c = None \<longleftrightarrow> map_of (tb_tokens b) c = None"
  using assms unfolding bucket_inv_def by blast

lemma bucket_tokens:
  assumes "bucket_inv b t" and "map_of (tb_last b) c = Some l"
  obtains x where "map_of (tb_tokens b) c = Some x" "0 \<le> x" "x \<le> tb_capacity b"
  using bucket_dom [OF assms(1), of c] assms unfolding bucket_inv_def by (metis option.exhaust option.distinct(1))

lemma evict_lookup:
  assumes "distinct (map fst (tb_last b))"
  shows "map_of (tb_last (bucket_evict b t)) c =
      (if \<exists>l. map_of (tb_last b) c = Some l \<and> l < t - tb_idle_ttl b then None else map_of (tb_last b) c)"
    and "map_of (tb_tokens (bucket_evict b t)) c =
      (if \<exists>l. map_of (tb_last b) c = Some l \<and> l < t - tb_idle_ttl b then None else map_of (tb_tokens b) c)"
proof -
  let ?stale = "map fst (filter (\<lambda>(k, l). l < t - tb_idle_ttl b) (tb_last b))"
  have "tb_last (bucket_evict b t) = foldl dict_del (tb_last b) ?stale"
    and "tb_tokens (bucket_evict b t) = foldl dict_del (tb_tokens b) ?stale"
    by (simp_all add: bucket_evict_def Let_def)
  then show "map_of (tb_last (bucket_evict b t)) c =
      (if \<exists>l. map_of (tb_last b) c = Some l \<and> l < t - tb_idle_ttl b then None else map_of (tb_last b) c)"
    and "map_of (tb_tokens (bucket_evict b t)) c =
      (if \<exists>l. map_of (tb_last b) c = Some l \<and> l < t - tb_idle_ttl b then None else map_of (tb_tokens b) c)"
    by (simp_all only: foldl_dict_del filter_key_iff [OF assms])
qed

text \<open>An evicted client had a full bucket: eviction changes no level.\<close>

lemma evict_level:
  assumes "bucket_inv b t"
  shows "bucket_inv (bucket_evict b t) t" and "level (bucket_evict b t) c t = level b c t"
proof -
  have d: "distinct (map fst (tb_last b))" using assms by (simp add: bucket_inv_def)
  have cfg: "tb_capacity (bucket_evict b t) = tb_capacity b" "tb_refill (bucket_evict b t) = tb_refill b"
    "tb_idle_ttl (bucket_evict b t) = tb_idle_ttl b"
    by (simp_all add: bucket_evict_def Let_def)
  show "bucket_inv (bucket_evict b t) t"
    using assms unfolding bucket_inv_def cfg evict_lookup [OF d]
    by (auto simp: bucket_evict_def Let_def distinct_foldl_del split: if_splits)
  show "level (bucket_evict b t) c t = level b c t"
  proof (cases "\<exists>l. map_of (tb_last b) c = Some l \<and> l < t - tb_idle_ttl b")
    case False
    show ?thesis unfolding level_def cfg evict_lookup [OF d] if_not_P [OF False] by (rule refl)
  next
    case True
    then obtain l where l: "map_of (tb_last b) c = Some l" "tb_idle_ttl b < t - l" by auto
    obtain x where x: "map_of (tb_tokens b) c = Some x" "0 \<le> x"
      by (rule bucket_tokens [OF assms l(1)])
    have "tb_capacity b \<le> (t - l) * tb_refill b"
    proof -
      have "tb_refill b * tb_idle_ttl b \<le> tb_refill b * (t - l)"
        using assms l(2) by (intro mult_left_mono) (auto simp: bucket_inv_def)
      then show ?thesis using assms by (simp add: bucket_inv_def mult.commute)
    qed
    then have "level b c t = tb_capacity b" using l(1) x by (simp add: level_def)
    moreover have "level (bucket_evict b t) c t = tb_capacity b"
      using True unfolding level_def cfg evict_lookup [OF d] by simp
    ultimately show ?thesis by simp
  qed
qed

text \<open>The level rises by the refill of the time that passes.\<close>

lemma level_later:
  assumes "bucket_inv b t" and "t \<le> t'"
  shows "bucket_inv b t'" and "level b c t' \<le> level b c t + tb_refill b * (t' - t)"
proof -
  show "bucket_inv b t'" using assms unfolding bucket_inv_def by (meson order_trans)
  have "0 \<le> tb_refill b * (t' - t)" using assms by (simp add: bucket_inv_def)
  then show "level b c t' \<le> level b c t + tb_refill b * (t' - t)"
    by (cases "map_of (tb_last b) c") (simp_all add: level_def algebra_simps min_def)
qed

lemma consume_frame:
  "tb_capacity (snd (bucket_consume b c amount now)) = tb_capacity b"
  "tb_refill (snd (bucket_consume b c amount now)) = tb_refill b"
  "tb_idle_ttl (snd (bucket_consume b c amount now)) = tb_idle_ttl b"
  by (simp_all add: bucket_consume_def bucket_evict_def Let_def)

text \<open>A request takes what it is granted from its own level, and leaves the other levels.\<close>

lemma consume_level:
  assumes inv: "bucket_inv b now" and amount: "0 \<le> amount"
  shows "bucket_inv (snd (bucket_consume b c amount now)) now"
    and "level (snd (bucket_consume b c amount now)) d now =
      level b d now - (if d = c \<and> fst (bucket_consume b c amount now) then amount else 0)"
proof -
  define b1 where "b1 = (if tb_sweep_interval b \<le> now - tb_last_sweep b then bucket_evict b now else b)"
  have b1: "bucket_inv b1 now" "level b1 d now = level b d now" for d
    using evict_level [OF inv] inv by (simp_all add: b1_def)
  define x where "x = level b1 c now"
  have x: "0 \<le> x" "x \<le> tb_capacity b1"
    using b1(1) by (auto simp: x_def level_def bucket_inv_def split: option.split)
  note dom = bucket_dom [OF b1(1), of c]
  have xeq: "min (tb_capacity b1) ((case map_of (tb_tokens b1) c of None \<Rightarrow> tb_capacity b1 | Some t \<Rightarrow> t) +
      (now - (case map_of (tb_last b1) c of None \<Rightarrow> now | Some t \<Rightarrow> t)) * tb_refill b1) = x"
    using dom by (cases "map_of (tb_last b1) c"; cases "map_of (tb_tokens b1) c")
      (simp_all add: x_def level_def)
  have r: "bucket_consume b c amount now =
      (\<not> x < amount, b1\<lparr>tb_last := dict_set (tb_last b1) c now,
         tb_tokens := dict_set (tb_tokens b1) c (if x < amount then x else x - amount)\<rparr>)"
    unfolding bucket_consume_def Let_def b1_def [symmetric] bucket.simps xeq by simp
  show "bucket_inv (snd (bucket_consume b c amount now)) now"
    unfolding r using b1(1) x amount by (simp add: bucket_inv_def)
  show "level (snd (bucket_consume b c amount now)) d now =
      level b d now - (if d = c \<and> fst (bucket_consume b c amount now) then amount else 0)"
  proof (cases "d = c")
    case True
    then show ?thesis unfolding r b1(2) [symmetric] using x amount x_def [symmetric]
      by (simp add: level_def [of "_\<lparr>tb_last := _, tb_tokens := _\<rparr>"])
  next
    case False
    then show ?thesis unfolding r b1(2) [symmetric] by (simp add: level_def split: option.split)
  qed
qed

section \<open>The bound on what a client is granted\<close>

lemma run_frame:
  "tb_capacity (bucket_run b rs) = tb_capacity b" "tb_refill (bucket_run b rs) = tb_refill b"
  by (induction rs arbitrary: b) (auto simp: consume_frame)

lemma granted_level:
  assumes "bucket_inv b t" and "clocked t rs"
  shows "bucket_inv (bucket_run b rs) (run_end t rs) \<and>
    tb_granted c b rs + level (bucket_run b rs) c (run_end t rs)
      \<le> level b c t + tb_refill b * (run_end t rs - t)"
  using assms
proof (induction rs arbitrary: b t)
  case (Cons r rs)
  obtain c' amount now where r: "r = (c', amount, now)" by (cases r)
  have t: "t \<le> now" "0 \<le> amount" and rs: "clocked now rs" using Cons.prems(2) by (simp_all add: r)
  note step = consume_level [OF level_later(1) [OF Cons.prems(1) t(1)] t(2), of c']
  show ?case
    using Cons.IH [OF step(1) rs] level_later(2) [OF Cons.prems(1) t(1), of c] step(2) [of c]
    by (auto simp: r consume_frame algebra_simps split: if_splits)
qed simp

lemma new_bucket_inv:
  assumes "0 \<le> capacity" and "0 \<le> refill" and "capacity \<le> refill * BUCKET_IDLE_TTL"
  shows "bucket_inv (new_bucket capacity refill) t" and "level (new_bucket capacity refill) c t = capacity"
  using assms by (simp_all add: bucket_inv_def level_def new_bucket_def)

lemma level_nonneg:
  assumes "bucket_inv b t"
  shows "0 \<le> level b c t"
  using assms by (auto simp: level_def bucket_inv_def split: option.split)

text \<open>The rate limit. Whatever the clients send, over a run of requests on a monotonic clock
  a client is granted at most the capacity of its bucket and the refill of the time that passes,
  evictions of idle keys included, as long as the idle time is enough to fill a bucket (a shorter
  one would hand a fresh bucket to a client that only waited for the sweep).\<close>

theorem rate_limit:
  assumes "0 \<le> capacity" and "0 \<le> refill" and "capacity \<le> refill * BUCKET_IDLE_TTL"
    and "clocked t rs"
  shows "tb_granted c (new_bucket capacity refill) rs \<le> capacity + refill * (run_end t rs - t)"
proof -
  note new = new_bucket_inv [OF assms(1-3)]
  note run = granted_level [OF new(1) assms(4)]
  have "0 \<le> level (bucket_run (new_bucket capacity refill) rs) c (run_end t rs)"
    by (rule level_nonneg [OF conjunct1 [OF run]])
  then show ?thesis using run [of c] new(2) [of c t] by (simp add: new_bucket_def)
qed

lemma rate_limit_witness:
  "tb_granted ''a'' (new_bucket 2 1) [(''a'', 2, 10), (''a'', 2, 11), (''b'', 1, 11), (''a'', 2, 12)] = 4 \<and>
   tb_granted ''a'' (new_bucket 2 1) [(''a'', 2, 10), (''a'', 2, 11), (''b'', 1, 11), (''a'', 2, 12)] \<le> 2 + 1 * (12 - 10)"
proof
  let ?rs = "[(''a'', 2, 10), (''a'', 2, 11), (''b'', 1, 11), (''a'', 2, 12)] :: request list"
  show "tb_granted ''a'' (new_bucket 2 1) ?rs = 4"
    by (simp add: new_bucket_def bucket_consume_def bucket_evict_def Let_def BUCKET_SWEEP_INTERVAL_def
        BUCKET_IDLE_TTL_def)
  show "tb_granted ''a'' (new_bucket 2 1) ?rs \<le> 2 + 1 * (12 - 10)"
    using rate_limit [of 2 1 10 ?rs "''a''"] by (simp add: BUCKET_IDLE_TTL_def)
qed

text \<open>The other direction: a client that stays within its level is never refused.\<close>

lemma consume_granted:
  assumes "bucket_inv b now"
  shows "fst (bucket_consume b c amount now) \<longleftrightarrow> amount \<le> level b c now"
proof (cases "tb_sweep_interval b \<le> now - tb_last_sweep b")
  case True
  have inv: "bucket_inv (bucket_evict b now) now" by (rule evict_level(1) [OF assms])
  note dom = bucket_dom [OF inv, of c]
  show ?thesis
    using True dom unfolding evict_level(2) [OF assms, symmetric]
    by (cases "map_of (tb_last (bucket_evict b now)) c"; cases "map_of (tb_tokens (bucket_evict b now)) c")
      (auto simp: bucket_consume_def Let_def level_def)
next
  case False
  note dom = bucket_dom [OF assms, of c]
  show ?thesis
    using False dom by (cases "map_of (tb_last b) c"; cases "map_of (tb_tokens b) c")
      (auto simp: bucket_consume_def Let_def level_def)
qed

end
