(* ===== verification/SessionState.thy ===== *)
theory SessionState
  imports PyStr PyTime
begin

text \<open>
  The document of a shared session (\<open>backend/core/session_store.py\<close>) and the validation of
  what clients send. Annotations are Python dictionaries that the code changes in place while
  the op ring of the session refers to the same objects, so they live in a heap: the session
  state holds their addresses. Everything else the code replaces rather than changes, and is a
  value here.
\<close>

section \<open>Constants\<close>

definition ANNOTATION_TYPES :: "string list" where
  "ANNOTATION_TYPES =
     [''group'', ''note'', ''text'', ''label'', ''line'', ''shape'', ''icon'', ''vote_dot'', ''image'', ''freehand'']"

definition LEGACY_ANNOTATION_ALIASES :: "(string, string) dict" where
  "LEGACY_ANNOTATION_ALIASES = [(''arrow'', ''line'')]"

definition INITIAL_ANNOTATION_VERSION :: int where
  "INITIAL_ANNOTATION_VERSION = 1"

definition ANNOTATION_META_FIELDS :: "string list" where
  "ANNOTATION_META_FIELDS =
     [''id'', ''type'', ''kind'', ''version'', ''field_versions'', ''created_by'', ''updated_at'']"

definition STATE_OPS :: "string list" where
  "STATE_OPS =
     [''nodes_added'', ''nodes_removed'', ''node_moved'', ''nodes_hidden'', ''nodes_shown'',
      ''edges_added'', ''edges_removed'', ''edges_updated'', ''edges_hidden'', ''edges_shown'',
      ''nodes_dimmed'', ''nodes_undimmed'', ''edges_dimmed'', ''edges_undimmed'', ''edge_intensity_set'',
      ''annotation_created'', ''annotation_updated'', ''annotation_deleted'',
      ''group_membership_changed'', ''session_renamed'', ''layout_applied'']"

definition UNDOABLE_OPS :: "string list" where
  "UNDOABLE_OPS =
     [''annotation_created'', ''annotation_updated'', ''annotation_deleted'', ''node_moved'',
      ''layout_applied'', ''nodes_hidden'', ''nodes_shown'', ''nodes_dimmed'', ''nodes_undimmed'',
      ''edges_dimmed'', ''edges_undimmed'', ''edge_intensity_set'']"

definition DELETED_IDS_MAX :: nat where
  "DELETED_IDS_MAX = 200"

section \<open>The session\<close>

record canvas =
  cv_node_refs :: "string list"
  cv_positions :: json_obj
  cv_hidden_node_ids :: "string list"
  cv_hidden_edge_ids :: "string list"
  cv_dimmed_node_ids :: "string list"
  cv_dimmed_edge_ids :: "string list"
  cv_edge_intensity :: json
  cv_annotation_schema_version :: json
  cv_annotations :: "nat list"

definition empty_state :: canvas where
  "empty_state =
     \<lparr>cv_node_refs = [], cv_positions = [], cv_hidden_node_ids = [], cv_hidden_edge_ids = [],
      cv_dimmed_node_ids = [], cv_dimmed_edge_ids = [], cv_edge_intensity = JFloat 1,
      cv_annotation_schema_version = JInt 1, cv_annotations = []\<rparr>"

record activity =
  ar_id :: string
  ar_op :: string
  ar_actor :: string
  ar_session_id :: string
  ar_seq :: int
  ar_correlation_id :: json
  ar_occurred_at :: string
  ar_affected :: json_obj
  ar_before :: json
  ar_after :: json
  ar_inverse_op :: "json_obj option"
  ar_undone :: bool
  ar_undone_at :: json

record session =
  se_id :: string
  se_name :: "string option"
  se_created_at :: string
  se_updated_at :: string
  se_seq :: int
  se_state :: canvas
  se_activity_log :: "activity list"
  se_deleted_annotation_ids :: "string list"

definition new_session :: "string \<Rightarrow> string option \<Rightarrow> string \<Rightarrow> session" where
  "new_session i name now =
     \<lparr>se_id = i, se_name = name, se_created_at = now, se_updated_at = now, se_seq = 0,
      se_state = empty_state, se_activity_log = [], se_deleted_annotation_ids = []\<rparr>"

text \<open>
  An applied op as the ring keeps it: the members of the dictionary, and for the ops whose
  \<open>annotation\<close> member is the live annotation object, its address.
\<close>

record applied_op =
  ap_fields :: json_obj
  ap_annotation :: "nat option"

type_synonym heap = "nat \<Rightarrow> json_obj"

text \<open>A session with its ring and the heap of its annotation objects (\<open>lv_next\<close> is unused).\<close>

record live =
  lv_session :: session
  lv_ring :: "applied_op list"
  lv_heap :: heap
  lv_next :: nat

abbreviation lv_canvas :: "live \<Rightarrow> canvas" where
  "lv_canvas lv \<equiv> se_state (lv_session lv)"

definition set_canvas :: "live \<Rightarrow> canvas \<Rightarrow> live" where
  "set_canvas lv c = lv\<lparr>lv_session := (lv_session lv)\<lparr>se_state := c\<rparr>\<rparr>"

definition heap_set :: "live \<Rightarrow> nat \<Rightarrow> json_obj \<Rightarrow> live" where
  "heap_set lv a d = lv\<lparr>lv_heap := (lv_heap lv)(a := d)\<rparr>"

text \<open>What a reader of an applied op sees.\<close>

definition applied_view :: "heap \<Rightarrow> applied_op \<Rightarrow> json_obj" where
  "applied_view h ap =
     (case ap_annotation ap of
        None \<Rightarrow> ap_fields ap
      | Some a \<Rightarrow> dict_set (ap_fields ap) ''annotation'' (JObj (h a)))"

lemma live_simps [simp]:
  "lv_session (set_canvas lv c) = (lv_session lv)\<lparr>se_state := c\<rparr>"
  "lv_ring (set_canvas lv c) = lv_ring lv" "lv_heap (set_canvas lv c) = lv_heap lv"
  "lv_next (set_canvas lv c) = lv_next lv"
  "lv_session (heap_set lv a d) = lv_session lv" "lv_ring (heap_set lv a d) = lv_ring lv"
  "lv_heap (heap_set lv a d) = (lv_heap lv)(a := d)" "lv_next (heap_set lv a d) = lv_next lv"
  by (simp_all add: set_canvas_def heap_set_def)

section \<open>Validation\<close>

text \<open>
  \<open>AnnotationFieldConflict\<close> carries the id, the conflicting fields with their versions, and the
  server's annotation. \<open>PyError\<close> is an exception the code does not raise itself (\<open>TypeError\<close> of
  an unhashable value, \<open>ValueError\<close> of \<open>int\<close>).
\<close>

datatype op_error =
    OpError
  | AnnotationFieldConflict string "(string, json) dict" json_obj
  | PyError

fun str_list :: "json list \<Rightarrow> string list option" where
  "str_list [] = Some []"
| "str_list (JStr s # vs) = map_option ((#) s) (str_list vs)"
| "str_list (v # vs) = None"

definition require_id_list :: "json_obj \<Rightarrow> string \<Rightarrow> op_error + string list" where
  "require_id_list op key =
     (case obj_get op key of
        JArr vs \<Rightarrow> (case str_list vs of Some ids \<Rightarrow> Inr ids | None \<Rightarrow> Inl OpError)
      | _ \<Rightarrow> Inl OpError)"

definition point :: "rat \<Rightarrow> rat \<Rightarrow> json" where
  "point x y = JObj [(''x'', JFloat x), (''y'', JFloat y)]"

definition validate_position :: "json \<Rightarrow> op_error + json" where
  "validate_position v =
     (case v of
        JObj d \<Rightarrow>
          (case (json_num (obj_get d ''x''), json_num (obj_get d ''y'')) of
             (Some x, Some y) \<Rightarrow> Inr (point x y)
           | _ \<Rightarrow> Inl OpError)
      | _ \<Rightarrow> Inl OpError)"

definition validate_intensity :: "json \<Rightarrow> op_error + json" where
  "validate_intensity v =
     (case v of
        JBool b \<Rightarrow> Inl OpError
      | _ \<Rightarrow> (case json_num v of
                Some x \<Rightarrow> Inr (JFloat (max 0 (min 1 x)))
              | None \<Rightarrow> Inl OpError))"

text \<open>\<open>a.get("type") or a.get("kind")\<close>.\<close>

definition raw_type :: "json_obj \<Rightarrow> json" where
  "raw_type a = (if truthy (obj_get a ''type'') then obj_get a ''type'' else obj_get a ''kind'')"

text \<open>The lookup in the alias dictionary raises on an unhashable type.\<close>

definition canonical_type :: "json \<Rightarrow> op_error + string" where
  "canonical_type raw =
     (if \<not> hashable raw then Inl PyError
      else case raw of
        JStr t \<Rightarrow>
          (let t' = (case map_of LEGACY_ANNOTATION_ALIASES t of Some u \<Rightarrow> u | None \<Rightarrow> t)
           in if t' \<in> set ANNOTATION_TYPES then Inr t' else Inl OpError)
      | _ \<Rightarrow> Inl OpError)"

definition validate_annotation :: "json \<Rightarrow> bool \<Rightarrow> op_error + json_obj" where
  "validate_annotation v require_id =
     (case v of
        JObj d \<Rightarrow>
          py_bind (canonical_type (raw_type d)) (\<lambda>t.
            let a = dict_set (dict_set d ''type'' (JStr t)) ''kind'' (JStr t)
            in if require_id \<and> (case obj_get a ''id'' of JStr _ \<Rightarrow> False | _ \<Rightarrow> True) then Inl OpError
               else if ''position'' \<in> set (dict_keys a) \<and> obj_get a ''position'' \<noteq> JNull
               then py_bind (validate_position (obj_get a ''position'')) (\<lambda>_. Inr a)
               else Inr a)
      | _ \<Rightarrow> Inl OpError)"

section \<open>Image content (\<open>backend/core/session_annotations.py\<close>)\<close>

definition EMBEDDED_IMAGE_URL_PREFIX :: string where
  "EMBEDDED_IMAGE_URL_PREFIX = ''data:image/webp;base64,''"

definition is_embedded_image_url :: "json \<Rightarrow> bool" where
  "is_embedded_image_url url =
     (case url of
        JStr s \<Rightarrow> take (length EMBEDDED_IMAGE_URL_PREFIX) s = EMBEDDED_IMAGE_URL_PREFIX
      | _ \<Rightarrow> False)"

definition resolve_annotation_type_alias :: "json \<Rightarrow> string option" where
  "resolve_annotation_type_alias raw =
     (case raw of
        JStr t \<Rightarrow> Some (case map_of LEGACY_ANNOTATION_ALIASES t of Some u \<Rightarrow> u | None \<Rightarrow> t)
      | _ \<Rightarrow> None)"

definition annotation_type_of :: "json_obj \<Rightarrow> string option" where
  "annotation_type_of a = resolve_annotation_type_alias (raw_type a)"

datatype image_error = PayloadNotObject | NotEmbedded

definition image_annotation_error :: "json_obj \<Rightarrow> json_obj option \<Rightarrow> image_error option" where
  "image_annotation_error a existing =
     (if annotation_type_of a \<noteq> Some ''image'' then None
      else case obj_get a ''image'' of
        JNull \<Rightarrow> None
      | JObj img \<Rightarrow>
          (let url = obj_get img ''url''
           in if url = JNull then None
              else if is_embedded_image_url url then None
              else case existing of
                Some e \<Rightarrow>
                  (case obj_get e ''image'' of
                     JObj stored \<Rightarrow> if json_eq (obj_get stored ''url'') url then None else Some NotEmbedded
                   | _ \<Rightarrow> Some NotEmbedded)
              | None \<Rightarrow> Some NotEmbedded)
      | _ \<Rightarrow> Some PayloadNotObject)"

section \<open>Id lists\<close>

definition union_ids :: "string list \<Rightarrow> string list \<Rightarrow> string list" where
  "union_ids existing incoming =
     foldl (\<lambda>result item. if item \<in> set result then result else result @ [item]) existing incoming"

definition remove_all_ids :: "string list \<Rightarrow> string list \<Rightarrow> string list" where
  "remove_all_ids existing removals = filter (\<lambda>i. i \<notin> set removals) existing"

lemma set_union_ids [simp]: "set (union_ids xs ys) = set xs \<union> set ys"
  by (induction ys arbitrary: xs) (auto simp: union_ids_def)

lemma distinct_union_ids [simp]: "distinct (union_ids xs ys) = distinct xs"
  by (induction ys arbitrary: xs) (auto simp: union_ids_def)

lemma set_remove_all_ids [simp]: "set (remove_all_ids xs ys) = set xs - set ys"
  by (auto simp: remove_all_ids_def)

lemma distinct_remove_all_ids [simp]: "distinct xs \<Longrightarrow> distinct (remove_all_ids xs ys)"
  by (simp add: remove_all_ids_def)

lemma union_ids_append: "union_ids xs ys = xs @ union_ids [] (filter (\<lambda>y. y \<notin> set xs) ys)"
proof -
  have *: "foldl (\<lambda>result item. if item \<in> set result then result else result @ [item]) (xs @ zs) ys =
      xs @ foldl (\<lambda>result item. if item \<in> set result then result else result @ [item]) zs
        (filter (\<lambda>y. y \<notin> set xs) ys)" for zs
    by (induction ys arbitrary: zs) auto
  show ?thesis using * [of "[]"] by (simp add: union_ids_def)
qed

end
