(* ===== verification/SessionOps.thy ===== *)
theory SessionOps
  imports SessionState
begin

text \<open>
  \<open>SessionStore.apply_state_op\<close> (\<open>backend/core/session_store.py\<close>): one definition per branch
  of the method, the dispatch, and the commit at its end (sequence number, ring, activity
  record). A branch returns what it decided together with the state it leaves; the state it
  leaves when it raises is the one the exception finds.
\<close>

section \<open>Outcomes\<close>

text \<open>\<open>activity_kwargs\<close>: what the activity log will record.\<close>

record activity_args =
  aa_affected :: json_obj
  aa_before :: json
  aa_after :: json
  aa_inverse_op :: json_obj

text \<open>
  A branch raises, drops the op (\<open>return None\<close>), or has changed the state and yields the
  members of \<open>applied\<close>, the address of its annotation object and the activity to record.
\<close>

datatype outcome =
    Raise op_error
  | Dropped
  | Changed json_obj "nat option" "activity_args option"

definition jids :: "string list \<Rightarrow> json" where
  "jids ids = JArr (map JStr ids)"

text \<open>\<open>sorted({i for i in requested if P(i)})\<close>.\<close>

definition sorted_ids :: "string list \<Rightarrow> string list" where
  "sorted_ids ids = sort (remdups ids)"

definition set_activity ::
    "string \<Rightarrow> string list \<Rightarrow> json \<Rightarrow> json \<Rightarrow> string \<Rightarrow> string \<Rightarrow> activity_args option" where
  "set_activity kind ids before after undo_op key =
     (if ids = [] then None
      else Some \<lparr>aa_affected = [(''kind'', JStr kind), (''ids'', jids ids)],
                 aa_before = before, aa_after = after,
                 aa_inverse_op = [(''op'', JStr undo_op), (key, jids ids)]\<rparr>)"

text \<open>The ids a hide or dim adds to a set, and the ones a show or undim takes out of it.\<close>

definition newly_added :: "string list \<Rightarrow> string list \<Rightarrow> string list" where
  "newly_added requested current = sorted_ids (filter (\<lambda>i. i \<notin> set current) requested)"

definition newly_removed :: "string list \<Rightarrow> string list \<Rightarrow> string list" where
  "newly_removed requested current = sorted_ids (filter (\<lambda>i. i \<in> set current) requested)"

section \<open>Branches on nodes\<close>

definition op_nodes_added :: "live \<Rightarrow> json_obj \<Rightarrow> outcome \<times> live" where
  "op_nodes_added lv op =
     (case require_id_list op ''node_ids'' of
        Inl e \<Rightarrow> (Raise e, lv)
      | Inr ids \<Rightarrow>
          (Changed op None None,
           set_canvas lv ((lv_canvas lv)\<lparr>cv_node_refs := union_ids (cv_node_refs (lv_canvas lv)) ids\<rparr>)))"

text \<open>
  \<open>[m for m in members if m not in drop]\<close>: an unhashable member raises.
\<close>

definition drop_members :: "string list \<Rightarrow> json list \<Rightarrow> op_error + json list" where
  "drop_members removals members =
     (if list_all hashable members
      then Inr (filter (\<lambda>m. case m of JStr s \<Rightarrow> s \<notin> set removals | _ \<Rightarrow> True) members)
      else Inl PyError)"

fun drop_from_groups :: "string list \<Rightarrow> nat list \<Rightarrow> live \<Rightarrow> op_error option \<times> live" where
  "drop_from_groups removals [] lv = (None, lv)"
| "drop_from_groups removals (a # as) lv =
     (case obj_get (lv_heap lv a) ''member_node_ids'' of
        JArr members \<Rightarrow>
          (case drop_members removals members of
             Inl e \<Rightarrow> (Some e, lv)
           | Inr members' \<Rightarrow>
               drop_from_groups removals as
                 (heap_set lv a (dict_set (lv_heap lv a) ''member_node_ids'' (JArr members'))))
      | _ \<Rightarrow> drop_from_groups removals as lv)"

definition without_nodes :: "string list \<Rightarrow> canvas \<Rightarrow> canvas" where
  "without_nodes removals c =
     c\<lparr>cv_node_refs := remove_all_ids (cv_node_refs c) removals,
       cv_positions := filter (\<lambda>(k, v). k \<notin> set removals) (cv_positions c),
       cv_hidden_node_ids := remove_all_ids (cv_hidden_node_ids c) removals,
       cv_dimmed_node_ids := remove_all_ids (cv_dimmed_node_ids c) removals\<rparr>"

definition op_nodes_removed :: "live \<Rightarrow> json_obj \<Rightarrow> outcome \<times> live" where
  "op_nodes_removed lv op =
     (case require_id_list op ''node_ids'' of
        Inl e \<Rightarrow> (Raise e, lv)
      | Inr removals \<Rightarrow>
          (case drop_from_groups removals (cv_annotations (lv_canvas lv))
                  (set_canvas lv (without_nodes removals (lv_canvas lv))) of
             (Some e, lv) \<Rightarrow> (Raise e, lv)
           | (None, lv) \<Rightarrow> (Changed op None None, lv)))"

definition origin :: json where
  "origin = point 0 0"

text \<open>\<open>before or {"x": 0.0, "y": 0.0}\<close>.\<close>

definition or_origin :: "json \<Rightarrow> json" where
  "or_origin v = (if truthy v then v else origin)"

definition op_node_moved :: "live \<Rightarrow> json_obj \<Rightarrow> outcome \<times> live" where
  "op_node_moved lv op =
     (case obj_get op ''node_id'' of
        JStr node_id \<Rightarrow>
          (case validate_position (obj_get op ''position'') of
             Inl e \<Rightarrow> (Raise e, lv)
           | Inr position \<Rightarrow>
               (let c = lv_canvas lv;
                    before = obj_get (cv_positions c) node_id
                in (Changed (dict_set op ''position'' position) None
                      (Some \<lparr>aa_affected = [(''kind'', JStr ''node_position''), (''id'', JStr node_id)],
                             aa_before = before, aa_after = position,
                             aa_inverse_op = [(''op'', JStr ''node_moved''), (''node_id'', JStr node_id),
                               (''position'', or_origin before)]\<rparr>),
                    set_canvas lv (c\<lparr>cv_positions := dict_set (cv_positions c) node_id position\<rparr>))))
      | _ \<Rightarrow> (Raise OpError, lv))"

definition op_nodes_hidden :: "live \<Rightarrow> json_obj \<Rightarrow> outcome \<times> live" where
  "op_nodes_hidden lv op =
     (case require_id_list op ''node_ids'' of
        Inl e \<Rightarrow> (Raise e, lv)
      | Inr ids \<Rightarrow>
          (let c = lv_canvas lv; new = newly_added ids (cv_hidden_node_ids c)
           in (Changed op None (set_activity ''node_visibility'' new (JArr []) (jids new) ''nodes_shown'' ''node_ids''),
               set_canvas lv (c\<lparr>cv_hidden_node_ids := union_ids (cv_hidden_node_ids c) ids\<rparr>))))"

definition op_nodes_shown :: "live \<Rightarrow> json_obj \<Rightarrow> outcome \<times> live" where
  "op_nodes_shown lv op =
     (case require_id_list op ''node_ids'' of
        Inl e \<Rightarrow> (Raise e, lv)
      | Inr ids \<Rightarrow>
          (let c = lv_canvas lv; new = newly_removed ids (cv_hidden_node_ids c)
           in (Changed op None (set_activity ''node_visibility'' new (jids new) (JArr []) ''nodes_hidden'' ''node_ids''),
               set_canvas lv (c\<lparr>cv_hidden_node_ids := remove_all_ids (cv_hidden_node_ids c) ids\<rparr>))))"

definition op_nodes_dimmed :: "live \<Rightarrow> json_obj \<Rightarrow> outcome \<times> live" where
  "op_nodes_dimmed lv op =
     (case require_id_list op ''node_ids'' of
        Inl e \<Rightarrow> (Raise e, lv)
      | Inr ids \<Rightarrow>
          (let c = lv_canvas lv; new = newly_added ids (cv_dimmed_node_ids c)
           in (Changed op None (set_activity ''node_dim'' new (JArr []) (jids new) ''nodes_undimmed'' ''node_ids''),
               set_canvas lv (c\<lparr>cv_dimmed_node_ids := union_ids (cv_dimmed_node_ids c) ids\<rparr>))))"

definition op_nodes_undimmed :: "live \<Rightarrow> json_obj \<Rightarrow> outcome \<times> live" where
  "op_nodes_undimmed lv op =
     (case require_id_list op ''node_ids'' of
        Inl e \<Rightarrow> (Raise e, lv)
      | Inr ids \<Rightarrow>
          (let c = lv_canvas lv; new = newly_removed ids (cv_dimmed_node_ids c)
           in (Changed op None (set_activity ''node_dim'' new (jids new) (JArr []) ''nodes_dimmed'' ''node_ids''),
               set_canvas lv (c\<lparr>cv_dimmed_node_ids := remove_all_ids (cv_dimmed_node_ids c) ids\<rparr>))))"

section \<open>Branches on edges\<close>

text \<open>Edges live in the graph: these three ops only pass their payload on.\<close>

definition valid_edges :: "json \<Rightarrow> bool" where
  "valid_edges v =
     (case v of
        JArr es \<Rightarrow> list_all (\<lambda>e. case e of JObj d \<Rightarrow> (case obj_get d ''id'' of JStr _ \<Rightarrow> True | _ \<Rightarrow> False)
                                   | _ \<Rightarrow> False) es
      | _ \<Rightarrow> False)"

definition op_edges_payload :: "live \<Rightarrow> json_obj \<Rightarrow> outcome \<times> live" where
  "op_edges_payload lv op =
     (if valid_edges (obj_get op ''edges'')
      then (Changed (dict_set op ''edges'' (obj_get op ''edges'')) None None, lv)
      else (Raise OpError, lv))"

definition op_edges_removed :: "live \<Rightarrow> json_obj \<Rightarrow> outcome \<times> live" where
  "op_edges_removed lv op =
     (case require_id_list op ''edge_ids'' of
        Inl e \<Rightarrow> (Raise e, lv)
      | Inr ids \<Rightarrow> (Changed (dict_set op ''edge_ids'' (jids ids)) None None, lv))"

definition op_edges_hidden :: "live \<Rightarrow> json_obj \<Rightarrow> outcome \<times> live" where
  "op_edges_hidden lv op =
     (case require_id_list op ''edge_ids'' of
        Inl e \<Rightarrow> (Raise e, lv)
      | Inr ids \<Rightarrow>
          (Changed op None None,
           set_canvas lv ((lv_canvas lv)\<lparr>cv_hidden_edge_ids := union_ids (cv_hidden_edge_ids (lv_canvas lv)) ids\<rparr>)))"

definition op_edges_shown :: "live \<Rightarrow> json_obj \<Rightarrow> outcome \<times> live" where
  "op_edges_shown lv op =
     (case require_id_list op ''edge_ids'' of
        Inl e \<Rightarrow> (Raise e, lv)
      | Inr ids \<Rightarrow>
          (Changed op None None,
           set_canvas lv ((lv_canvas lv)\<lparr>cv_hidden_edge_ids := remove_all_ids (cv_hidden_edge_ids (lv_canvas lv)) ids\<rparr>)))"

definition op_edges_dimmed :: "live \<Rightarrow> json_obj \<Rightarrow> outcome \<times> live" where
  "op_edges_dimmed lv op =
     (case require_id_list op ''edge_ids'' of
        Inl e \<Rightarrow> (Raise e, lv)
      | Inr ids \<Rightarrow>
          (let c = lv_canvas lv; new = newly_added ids (cv_dimmed_edge_ids c)
           in (Changed op None (set_activity ''edge_dim'' new (JArr []) (jids new) ''edges_undimmed'' ''edge_ids''),
               set_canvas lv (c\<lparr>cv_dimmed_edge_ids := union_ids (cv_dimmed_edge_ids c) ids\<rparr>))))"

definition op_edges_undimmed :: "live \<Rightarrow> json_obj \<Rightarrow> outcome \<times> live" where
  "op_edges_undimmed lv op =
     (case require_id_list op ''edge_ids'' of
        Inl e \<Rightarrow> (Raise e, lv)
      | Inr ids \<Rightarrow>
          (let c = lv_canvas lv; new = newly_removed ids (cv_dimmed_edge_ids c)
           in (Changed op None (set_activity ''edge_dim'' new (jids new) (JArr []) ''edges_dimmed'' ''edge_ids''),
               set_canvas lv (c\<lparr>cv_dimmed_edge_ids := remove_all_ids (cv_dimmed_edge_ids c) ids\<rparr>))))"

definition op_edge_intensity_set :: "live \<Rightarrow> json_obj \<Rightarrow> outcome \<times> live" where
  "op_edge_intensity_set lv op =
     (case validate_intensity (obj_get op ''value'') of
        Inl e \<Rightarrow> (Raise e, lv)
      | Inr v \<Rightarrow>
          (let c = lv_canvas lv; before = cv_edge_intensity c
           in (Changed (dict_set op ''value'' v) None
                 (if json_eq v before then None
                  else Some \<lparr>aa_affected = [(''kind'', JStr ''edge_intensity'')], aa_before = before, aa_after = v,
                             aa_inverse_op = [(''op'', JStr ''edge_intensity_set''), (''value'', before)]\<rparr>),
               set_canvas lv (c\<lparr>cv_edge_intensity := v\<rparr>))))"

section \<open>Branches on annotations\<close>

text \<open>
  What a call reads from the clock and from \<open>secrets\<close>: the times it stamps on the annotation,
  the session and the activity record, the current instant, and the ids it may draw.
\<close>

record op_env =
  ev_annotation_time :: string
  ev_session_time :: string
  ev_record_time :: string
  ev_now :: datetime
  ev_annotation_id :: string
  ev_activity_id :: string

definition find_annotation :: "live \<Rightarrow> string \<Rightarrow> nat option" where
  "find_annotation lv i =
     find (\<lambda>a. obj_get (lv_heap lv a) ''id'' = JStr i) (cv_annotations (lv_canvas lv))"

definition changed_fields :: "json_obj \<Rightarrow> json_obj \<Rightarrow> string list" where
  "changed_fields incoming target =
     filter (\<lambda>k. k \<notin> set ANNOTATION_META_FIELDS \<and> \<not> json_eq (obj_get incoming k) (obj_get target k))
       (dict_keys incoming)"

text \<open>\<open>int(prior.get("version") or 1) + 1\<close>; \<open>None\<close> when \<open>int\<close> raises.\<close>

definition next_version :: "json_obj \<Rightarrow> int option" where
  "next_version prior =
     (let v = obj_get prior ''version''
      in if truthy v then map_option (\<lambda>n. n + 1) (json_int v) else Some (INITIAL_ANNOTATION_VERSION + 1))"

text \<open>\<open>dict(a.get("field_versions") or {})\<close>; \<open>None\<close> when \<open>dict\<close> raises.\<close>

definition field_versions_of :: "json_obj \<Rightarrow> json_obj option" where
  "field_versions_of a =
     (let v = obj_get a ''field_versions''
      in if \<not> truthy v then Some [] else case v of JObj d \<Rightarrow> Some d | _ \<Rightarrow> None)"

text \<open>
  The in-place merge that an upsert and an update share: \<open>update\<close>, the new version, the field
  versions of the changed fields, the time.
\<close>

definition merged ::
    "json_obj \<Rightarrow> json_obj \<Rightarrow> json_obj \<Rightarrow> string list \<Rightarrow> int \<Rightarrow> string \<Rightarrow> json_obj" where
  "merged old incoming fv changed version now =
     dict_set
       (dict_set
         (dict_set (dict_update old incoming) ''version'' (JInt version))
         ''field_versions'' (JObj (foldl (\<lambda>fv f. dict_set fv f (JInt version)) fv changed)))
       ''updated_at'' (JStr now)"

definition merge_annotation ::
    "live \<Rightarrow> nat \<Rightarrow> json_obj \<Rightarrow> json_obj \<Rightarrow> string list \<Rightarrow> string \<Rightarrow> op_error option \<times> live" where
  "merge_annotation lv a incoming fv changed now =
     (let old = lv_heap lv a
      in case next_version old of
           None \<Rightarrow> (Some PyError, heap_set lv a (dict_update old incoming))
         | Some v \<Rightarrow> (None, heap_set lv a (merged old incoming fv changed v now)))"

definition annotation_activity ::
    "string \<Rightarrow> json \<Rightarrow> json \<Rightarrow> json \<Rightarrow> json_obj \<Rightarrow> activity_args" where
  "annotation_activity i field_names before after undo_op =
     \<lparr>aa_affected = [(''kind'', JStr ''annotation''), (''id'', JStr i), (''fields'', field_names)],
      aa_before = before, aa_after = after, aa_inverse_op = undo_op\<rparr>"

definition key_list :: "json_obj \<Rightarrow> json" where
  "key_list d = jids (sort (dict_keys d))"

text \<open>The upsert of an annotation that is there already.\<close>

definition upsert_existing ::
    "op_env \<Rightarrow> live \<Rightarrow> json_obj \<Rightarrow> json_obj \<Rightarrow> string \<Rightarrow> nat \<Rightarrow> outcome \<times> live" where
  "upsert_existing env lv op annotation i a =
     (let prior = lv_heap lv a
      in if \<not> json_eq (obj_get prior ''type'') (obj_get annotation ''type'') then (Raise OpError, lv)
         else case field_versions_of prior of
           None \<Rightarrow> (Raise PyError, lv)
         | Some fv \<Rightarrow>
             (case merge_annotation lv a annotation fv (changed_fields annotation prior)
                     (ev_annotation_time env) of
                (Some e, lv) \<Rightarrow> (Raise e, lv)
              | (None, lv) \<Rightarrow>
                  (Changed op (Some a)
                     (Some (annotation_activity i (key_list annotation) (JObj prior) (JObj (lv_heap lv a))
                       [(''op'', JStr ''annotation_updated''), (''annotation'', JObj prior)])),
                   lv)))"

text \<open>A new annotation object.\<close>

definition with_id :: "op_env \<Rightarrow> json_obj \<Rightarrow> json_obj" where
  "with_id env d =
     (case obj_get d ''id'' of JStr _ \<Rightarrow> d | _ \<Rightarrow> dict_set d ''id'' (JStr (ev_annotation_id env)))"

definition dict_setdefault :: "json_obj \<Rightarrow> string \<Rightarrow> json \<Rightarrow> json_obj" where
  "dict_setdefault d k v = (case map_of d k of Some _ \<Rightarrow> d | None \<Rightarrow> dict_set d k v)"

definition new_annotation :: "op_env \<Rightarrow> json_obj \<Rightarrow> json_obj \<Rightarrow> json_obj" where
  "new_annotation env op annotation =
     (let d = dict_setdefault (with_id env annotation) ''created_by'' (obj_get op ''client_id'');
          d = dict_set d ''updated_at'' (JStr (ev_annotation_time env));
          d = dict_set d ''version'' (JInt INITIAL_ANNOTATION_VERSION)
      in dict_set d ''field_versions'' (JObj []))"

definition annotation_id :: "json_obj \<Rightarrow> string" where
  "annotation_id d = (case obj_get d ''id'' of JStr i \<Rightarrow> i | _ \<Rightarrow> [])"

definition insert_annotation :: "nat \<Rightarrow> op_env \<Rightarrow> live \<Rightarrow> json_obj \<Rightarrow> json_obj \<Rightarrow> outcome \<times> live" where
  "insert_annotation max_annotations env lv op annotation =
     (if max_annotations \<le> length (cv_annotations (lv_canvas lv)) then (Raise OpError, lv)
      else
        let d = new_annotation env op annotation;
            a = lv_next lv;
            c = lv_canvas lv;
            lv = set_canvas (heap_set lv a d) (c\<lparr>cv_annotations := cv_annotations c @ [a]\<rparr>);
            i = annotation_id d
        in (Changed op (Some a)
              (Some (annotation_activity i JNull JNull (JObj d)
                [(''op'', JStr ''annotation_deleted''), (''annotation_id'', JStr i)])),
            lv\<lparr>lv_next := a + 1\<rparr>))"

definition op_annotation_created :: "nat \<Rightarrow> op_env \<Rightarrow> bool \<Rightarrow> live \<Rightarrow> json_obj \<Rightarrow> outcome \<times> live" where
  "op_annotation_created max_annotations env trusted_replay lv op =
     (case validate_annotation (obj_get op ''annotation'') False of
        Inl e \<Rightarrow> (Raise e, lv)
      | Inr annotation \<Rightarrow>
          (let incoming_id = (case obj_get annotation ''id'' of JStr i \<Rightarrow> Some i | _ \<Rightarrow> None)
           in if (case incoming_id of None \<Rightarrow> False
                  | Some i \<Rightarrow> i \<in> set (se_deleted_annotation_ids (lv_session lv)))
              then (Dropped, lv)
              else
                let existing = Option.bind incoming_id (find_annotation lv)
                in if \<not> trusted_replay \<and>
                      image_annotation_error annotation (map_option (lv_heap lv) existing) \<noteq> None
                   then (Raise OpError, lv)
                   else case existing of
                     Some a \<Rightarrow> upsert_existing env lv op annotation (the incoming_id) a
                   | None \<Rightarrow> insert_annotation max_annotations env lv op annotation))"

text \<open>The changed fields whose stored version is newer than the base version.\<close>

definition field_conflicts ::
    "json_obj \<Rightarrow> string list \<Rightarrow> int \<Rightarrow> op_error + (string, json) dict" where
  "field_conflicts fv changed base =
     (let version = (\<lambda>f. get_default fv f (JInt INITIAL_ANNOTATION_VERSION))
      in if list_all (\<lambda>f. json_num (version f) \<noteq> None) changed
         then Inr (map (\<lambda>f. (f, version f)) (filter (\<lambda>f. of_int base < the (json_num (version f))) changed))
         else Inl PyError)"

definition base_version_check ::
    "bool \<Rightarrow> json_obj \<Rightarrow> json_obj \<Rightarrow> json_obj \<Rightarrow> string list \<Rightarrow> op_error option" where
  "base_version_check trusted_replay op target fv changed =
     (if trusted_replay \<or> obj_get op ''base_version'' = JNull then None
      else case obj_get op ''base_version'' of
        JInt base \<Rightarrow>
          (case field_conflicts fv changed base of
             Inl e \<Rightarrow> Some e
           | Inr [] \<Rightarrow> None
           | Inr conflicts \<Rightarrow> Some (AnnotationFieldConflict (annotation_id target) conflicts target))
      | _ \<Rightarrow> Some OpError)"

definition op_annotation_updated :: "op_env \<Rightarrow> bool \<Rightarrow> live \<Rightarrow> json_obj \<Rightarrow> outcome \<times> live" where
  "op_annotation_updated env trusted_replay lv op =
     (case validate_annotation (obj_get op ''annotation'') True of
        Inl e \<Rightarrow> (Raise e, lv)
      | Inr incoming \<Rightarrow>
          (case find_annotation lv (annotation_id incoming) of
             None \<Rightarrow> (Dropped, lv)
           | Some a \<Rightarrow>
               (let target = lv_heap lv a
                in if \<not> json_eq (obj_get target ''type'') (obj_get incoming ''type'') then (Raise OpError, lv)
                   else if \<not> trusted_replay \<and> image_annotation_error incoming (Some target) \<noteq> None
                   then (Raise OpError, lv)
                   else case field_versions_of target of
                     None \<Rightarrow> (Raise PyError, lv)
                   | Some fv \<Rightarrow>
                       (let changed = changed_fields incoming target
                        in case base_version_check trusted_replay op target fv changed of
                             Some e \<Rightarrow> (Raise e, lv)
                           | None \<Rightarrow>
                               (case merge_annotation lv a incoming fv changed (ev_annotation_time env) of
                                  (Some e, lv) \<Rightarrow> (Raise e, lv)
                                | (None, lv) \<Rightarrow>
                                    (Changed op (Some a)
                                       (Some (annotation_activity (annotation_id target) (key_list incoming)
                                         (JObj target) (JObj (lv_heap lv a))
                                         [(''op'', JStr ''annotation_updated''), (''annotation'', JObj target)])),
                                     lv))))))"

definition bounded_append :: "nat \<Rightarrow> 'a list \<Rightarrow> 'a \<Rightarrow> 'a list" where
  "bounded_append n xs x = drop (length xs + 1 - n) (xs @ [x])"

definition op_annotation_deleted :: "live \<Rightarrow> json_obj \<Rightarrow> outcome \<times> live" where
  "op_annotation_deleted lv op =
     (case (if truthy (obj_get op ''annotation_id'') then obj_get op ''annotation_id'' else obj_get op ''id'') of
        JStr i \<Rightarrow>
          (let removed = find_annotation lv i;
               c = lv_canvas lv;
               lv' = set_canvas lv (c\<lparr>cv_annotations :=
                 filter (\<lambda>a. obj_get (lv_heap lv a) ''id'' \<noteq> JStr i) (cv_annotations c)\<rparr>);
               s = lv_session lv'
           in (Changed (dict_set op ''annotation_id'' (JStr i)) None
                 (map_option (\<lambda>a. annotation_activity i JNull (JObj (lv_heap lv a)) JNull
                    [(''op'', JStr ''annotation_created''), (''annotation'', JObj (lv_heap lv a))]) removed),
               lv'\<lparr>lv_session := s\<lparr>se_deleted_annotation_ids :=
                 bounded_append DELETED_IDS_MAX (se_deleted_annotation_ids s) i\<rparr>\<rparr>))
      | _ \<Rightarrow> (Raise OpError, lv))"

definition op_group_membership_changed :: "op_env \<Rightarrow> live \<Rightarrow> json_obj \<Rightarrow> outcome \<times> live" where
  "op_group_membership_changed env lv op =
     (case obj_get op ''group_id'' of
        JStr group_id \<Rightarrow>
          (case require_id_list op ''member_node_ids'' of
             Inl e \<Rightarrow> (Raise e, lv)
           | Inr members \<Rightarrow>
               (case find (\<lambda>a. obj_get (lv_heap lv a) ''id'' = JStr group_id \<and>
                            raw_type (lv_heap lv a) = JStr ''group'') (cv_annotations (lv_canvas lv)) of
                  None \<Rightarrow> (Raise OpError, lv)
                | Some a \<Rightarrow>
                    (Changed op None None,
                     heap_set lv a (dict_set (dict_set (lv_heap lv a) ''member_node_ids'' (jids members))
                       ''updated_at'' (JStr (ev_annotation_time env))))))
      | _ \<Rightarrow> (Raise OpError, lv))"

section \<open>The other branches\<close>

definition op_session_renamed :: "live \<Rightarrow> json_obj \<Rightarrow> outcome \<times> live" where
  "op_session_renamed lv op =
     (case obj_get op ''name'' of
        JNull \<Rightarrow> (Changed op None None, lv\<lparr>lv_session := (lv_session lv)\<lparr>se_name := None\<rparr>\<rparr>)
      | JStr name \<Rightarrow> (Changed op None None, lv\<lparr>lv_session := (lv_session lv)\<lparr>se_name := Some name\<rparr>\<rparr>)
      | _ \<Rightarrow> (Raise OpError, lv))"

fun normalise_positions :: "json_obj \<Rightarrow> op_error + json_obj" where
  "normalise_positions [] = Inr []"
| "normalise_positions ((nid, pos) # rest) =
     py_bind (validate_position pos) (\<lambda>p. py_bind (normalise_positions rest) (\<lambda>ps. Inr ((nid, p) # ps)))"

definition op_layout_applied :: "live \<Rightarrow> json_obj \<Rightarrow> outcome \<times> live" where
  "op_layout_applied lv op =
     (case obj_get op ''positions'' of
        JObj positions \<Rightarrow>
          (case normalise_positions positions of
             Inl e \<Rightarrow> (Raise e, lv)
           | Inr normalised \<Rightarrow>
               (let c = lv_canvas lv;
                    before = map (\<lambda>(nid, p). (nid, obj_get (cv_positions c) nid)) normalised
                in (Changed (dict_set op ''positions'' (JObj normalised)) None
                      (Some \<lparr>aa_affected = [(''kind'', JStr ''layout''), (''node_ids'', key_list normalised)],
                             aa_before = JObj before, aa_after = JObj normalised,
                             aa_inverse_op = [(''op'', JStr ''layout_applied''),
                               (''positions'', JObj (map (\<lambda>(nid, b). (nid, or_origin b)) before))]\<rparr>),
                    set_canvas lv (c\<lparr>cv_positions := dict_update (cv_positions c) normalised\<rparr>))))
      | _ \<Rightarrow> (Raise OpError, lv))"

section \<open>Dispatch and commit\<close>

record store_config =
  sto_max_annotations :: nat
  sto_ring_size :: nat
  sto_max_activity_records :: int
  sto_activity_max_age_days :: rat

definition default_config :: store_config where
  "default_config =
     \<lparr>sto_max_annotations = 2000, sto_ring_size = 500, sto_max_activity_records = 500,
      sto_activity_max_age_days = 7\<rparr>"

definition state_op_branch ::
    "store_config \<Rightarrow> op_env \<Rightarrow> bool \<Rightarrow> live \<Rightarrow> json_obj \<Rightarrow> string \<Rightarrow> outcome \<times> live" where
  "state_op_branch cfg env trusted_replay lv op t =
     (if t = ''nodes_added'' then op_nodes_added lv op
      else if t = ''nodes_removed'' then op_nodes_removed lv op
      else if t = ''node_moved'' then op_node_moved lv op
      else if t = ''nodes_hidden'' then op_nodes_hidden lv op
      else if t = ''nodes_shown'' then op_nodes_shown lv op
      else if t = ''edges_added'' then op_edges_payload lv op
      else if t = ''edges_removed'' then op_edges_removed lv op
      else if t = ''edges_updated'' then op_edges_payload lv op
      else if t = ''edges_hidden'' then op_edges_hidden lv op
      else if t = ''edges_shown'' then op_edges_shown lv op
      else if t = ''nodes_dimmed'' then op_nodes_dimmed lv op
      else if t = ''nodes_undimmed'' then op_nodes_undimmed lv op
      else if t = ''edges_dimmed'' then op_edges_dimmed lv op
      else if t = ''edges_undimmed'' then op_edges_undimmed lv op
      else if t = ''edge_intensity_set'' then op_edge_intensity_set lv op
      else if t = ''annotation_created'' then op_annotation_created (sto_max_annotations cfg) env trusted_replay lv op
      else if t = ''annotation_updated'' then op_annotation_updated env trusted_replay lv op
      else if t = ''annotation_deleted'' then op_annotation_deleted lv op
      else if t = ''group_membership_changed'' then op_group_membership_changed env lv op
      else if t = ''session_renamed'' then op_session_renamed lv op
      else op_layout_applied lv op)"

definition build_activity_record ::
    "op_env \<Rightarrow> string \<Rightarrow> string \<Rightarrow> string \<Rightarrow> int \<Rightarrow> json \<Rightarrow> activity_args \<Rightarrow> activity" where
  "build_activity_record env op_type actor session_id seq correlation_id aa =
     \<lparr>ar_id = ev_activity_id env, ar_op = op_type, ar_actor = actor, ar_session_id = session_id,
      ar_seq = seq, ar_correlation_id = correlation_id, ar_occurred_at = ev_record_time env,
      ar_affected = aa_affected aa, ar_before = aa_before aa, ar_after = aa_after aa,
      ar_inverse_op = Some (aa_inverse_op aa), ar_undone = False, ar_undone_at = JNull\<rparr>"

text \<open>
  \<open>strptime(raw, "%Y-%m-%dT%H:%M:%SZ")\<close>: four digits of year, one or two of each other field,
  letters in either case; \<open>None\<close> is the \<open>ValueError\<close>.
\<close>

definition digit_value :: "char \<Rightarrow> int" where
  "digit_value c = int (code c) - 48"

definition two_digits :: "char \<Rightarrow> string \<Rightarrow> (int \<times> string) option" where
  "two_digits sep s =
     (case s of
        a # b # c # rest \<Rightarrow>
          if is_digit a \<and> is_digit b \<and> lower_char c = sep then Some (digit_value a * 10 + digit_value b, rest)
          else if is_digit a \<and> lower_char b = sep then Some (digit_value a, c # rest)
          else None
      | [a, b] \<Rightarrow> if is_digit a \<and> lower_char b = sep then Some (digit_value a, []) else None
      | _ \<Rightarrow> None)"

definition four_digits :: "string \<Rightarrow> (int \<times> string) option" where
  "four_digits s =
     (case s of
        a # b # c # d # e # rest \<Rightarrow>
          if is_digit a \<and> is_digit b \<and> is_digit c \<and> is_digit d \<and> e = CHR ''-''
          then Some (digit_value a * 1000 + digit_value b * 100 + digit_value c * 10 + digit_value d, rest)
          else None
      | _ \<Rightarrow> None)"

definition parse_now_iso :: "string \<Rightarrow> datetime option" where
  "parse_now_iso s =
     Option.bind (four_digits s) (\<lambda>(y, s).
     Option.bind (two_digits (CHR ''-'') s) (\<lambda>(mo, s).
     Option.bind (two_digits (CHR ''t'') s) (\<lambda>(d, s).
     Option.bind (two_digits (CHR '':'') s) (\<lambda>(h, s).
     Option.bind (two_digits (CHR '':'') s) (\<lambda>(mi, s).
     Option.bind (two_digits (CHR ''z'') s) (\<lambda>(sec, s).
       if s = [] \<and> valid_date y mo d \<and> h \<le> 23 \<and> mi \<le> 59 \<and> sec \<le> 59
       then Some ((((ymd2ord (y, mo, d) - 719163) * 24 + h) * 3600 + mi * 60 + sec) * 1000000)
       else None))))))"

definition within_age :: "activity \<Rightarrow> datetime \<Rightarrow> bool" where
  "within_age r cutoff =
     (case parse_now_iso (ar_occurred_at r) of None \<Rightarrow> True | Some ts \<Rightarrow> cutoff \<le> ts)"

definition prune_activity_log :: "activity list \<Rightarrow> int \<Rightarrow> rat \<Rightarrow> datetime \<Rightarrow> activity list" where
  "prune_activity_log records max_records max_age_days now =
     (let kept = (if 0 < max_age_days
                  then filter (\<lambda>r. within_age r (now - round_half_even (max_age_days * 86400000000))) records
                  else records)
      in if 0 < max_records \<and> max_records < int (length kept)
         then drop (length kept - nat max_records) kept else kept)"

text \<open>The end of \<open>apply_state_op\<close>, for an op that changed the state.\<close>

definition commit_op ::
    "store_config \<Rightarrow> op_env \<Rightarrow> bool \<Rightarrow> string \<Rightarrow> json_obj \<Rightarrow> json_obj \<Rightarrow> nat option \<Rightarrow> activity_args option \<Rightarrow>
     live \<Rightarrow> applied_op \<times> live" where
  "commit_op cfg env record_activity op_type op applied ann aa lv =
     (let s = lv_session lv;
          seq = se_seq s + 1;
          fields = dict_set (dict_set applied ''op'' (JStr op_type)) ''seq'' (JInt seq);
          actor = obj_get fields ''client_id'';
          ap = \<lparr>ap_fields = dict_del fields ''client_id'', ap_annotation = ann\<rparr>;
          log = (case (aa, actor) of
              (Some aa, JStr (c # cs)) \<Rightarrow>
                if record_activity \<and> op_type \<in> set UNDOABLE_OPS
                then prune_activity_log
                  (se_activity_log s @ [build_activity_record env op_type (c # cs) (se_id s) seq
                     (obj_get op ''correlation_id'') aa])
                  (sto_max_activity_records cfg) (sto_activity_max_age_days cfg) (ev_now env)
                else se_activity_log s
            | _ \<Rightarrow> se_activity_log s)
      in (ap, lv\<lparr>lv_session := s\<lparr>se_seq := seq, se_updated_at := ev_session_time env, se_activity_log := log\<rparr>,
               lv_ring := bounded_append (sto_ring_size cfg) (lv_ring lv) ap\<rparr>))"

text \<open>
  \<open>apply_state_op\<close>: the exception, \<open>None\<close> or the applied op, and the state it leaves.
\<close>

definition apply_state_op ::
    "store_config \<Rightarrow> op_env \<Rightarrow> bool \<Rightarrow> bool \<Rightarrow> live \<Rightarrow> json_obj \<Rightarrow> (op_error + applied_op option) \<times> live" where
  "apply_state_op cfg env record_activity trusted_replay lv op =
     (case obj_get op ''op'' of
        JStr t \<Rightarrow>
          if t \<notin> set STATE_OPS then (Inl OpError, lv)
          else (case state_op_branch cfg env trusted_replay lv op t of
             (Raise e, lv) \<Rightarrow> (Inl e, lv)
           | (Dropped, lv) \<Rightarrow> (Inr None, lv)
           | (Changed applied ann aa, lv) \<Rightarrow>
               (case commit_op cfg env record_activity t op applied ann aa lv of
                  (ap, lv) \<Rightarrow> (Inr (Some ap), lv)))
      | v \<Rightarrow> (Inl (if hashable v then OpError else PyError), lv))"

end
