(* ===== verification/SessionInv.thy ===== *)
theory SessionInv
  imports SessionOps
begin

text \<open>
  What every state op keeps of a session: the annotation objects stay valid and their versions
  only grow, the id lists stay sets, the ring stays the unbroken end of the op sequence, and the
  retention bounds hold.
\<close>

named_theorems op_defs

lemmas [op_defs] = op_nodes_added_def op_node_moved_def op_nodes_hidden_def op_nodes_shown_def
  op_nodes_dimmed_def op_nodes_undimmed_def op_edges_payload_def op_edges_removed_def
  op_edges_hidden_def op_edges_shown_def op_edges_dimmed_def op_edges_undimmed_def
  op_edge_intensity_set_def op_session_renamed_def op_layout_applied_def

section \<open>JSON as Python builds it\<close>

text \<open>No dictionary repeats a key.\<close>

fun py_json :: "json \<Rightarrow> bool" where
  "py_json (JArr vs) = list_all py_json vs"
| "py_json (JObj d) = (distinct (map fst d) \<and> list_all (\<lambda>(k, v). py_json v) d)"
| "py_json _ = True"

lemma py_json_get: "py_json (JObj d) \<Longrightarrow> py_json (obj_get d k)"
  by (auto simp: obj_get_def list_all_iff dest: map_of_SomeD split: option.split)

section \<open>Annotations\<close>

definition ver :: "json_obj \<Rightarrow> int" where
  "ver d = (case obj_get d ''version'' of JInt n \<Rightarrow> n | _ \<Rightarrow> 1)"

definition fver :: "json_obj \<Rightarrow> string \<Rightarrow> int" where
  "fver d f =
     (case obj_get d ''field_versions'' of
        JObj fv \<Rightarrow> (case map_of fv f of Some (JInt n) \<Rightarrow> n | _ \<Rightarrow> 1)
      | _ \<Rightarrow> 1)"

definition ann_valid :: "json_obj \<Rightarrow> bool" where
  "ann_valid d \<longleftrightarrow> distinct (map fst d) \<and>
     (\<exists>i. obj_get d ''id'' = JStr i) \<and>
     (\<exists>t \<in> set ANNOTATION_TYPES. obj_get d ''type'' = JStr t \<and> obj_get d ''kind'' = JStr t) \<and>
     (\<exists>v fv. obj_get d ''version'' = JInt v \<and> 1 \<le> v \<and> obj_get d ''field_versions'' = JObj fv \<and>
        (\<forall>f w. map_of fv f = Some w \<longrightarrow> (\<exists>n. w = JInt n \<and> 1 \<le> n \<and> n \<le> v)))"

definition ann_grows :: "json_obj \<Rightarrow> json_obj \<Rightarrow> bool" where
  "ann_grows old new \<longleftrightarrow> obj_get new ''id'' = obj_get old ''id'' \<and>
     obj_get new ''type'' = obj_get old ''type'' \<and> ver old \<le> ver new \<and> (\<forall>f. fver old f \<le> fver new f)"

lemma ann_grows_refl [simp]: "ann_grows d d"
  by (simp add: ann_grows_def)

lemma ann_grows_trans: "ann_grows a b \<Longrightarrow> ann_grows b c \<Longrightarrow> ann_grows a c"
  by (auto simp: ann_grows_def intro: order_trans)

text \<open>Setting a member that is not bookkeeping.\<close>

definition bookkeeping :: "string list" where
  "bookkeeping = [''id'', ''type'', ''kind'', ''version'', ''field_versions'']"

lemma ann_set_member:
  assumes "k \<notin> set bookkeeping"
  shows "ann_valid d \<Longrightarrow> ann_valid (dict_set d k v)" and "ann_grows d (dict_set d k v)"
  using assms by (auto simp: ann_valid_def ann_grows_def ver_def fver_def bookkeeping_def)

section \<open>Effect on annotations\<close>

definition ann_ids :: "live \<Rightarrow> string list" where
  "ann_ids lv = map (\<lambda>a. annotation_id (lv_heap lv a)) (cv_annotations (lv_canvas lv))"

definition ann_inv :: "live \<Rightarrow> bool" where
  "ann_inv lv \<longleftrightarrow> distinct (cv_annotations (lv_canvas lv)) \<and> distinct (ann_ids lv) \<and>
     (\<forall>a \<in> set (cv_annotations (lv_canvas lv)). a < lv_next lv \<and> ann_valid (lv_heap lv a))"

definition ann_effect :: "live \<Rightarrow> live \<Rightarrow> bool" where
  "ann_effect lv lv' \<longleftrightarrow>
     (\<forall>a \<in> set (cv_annotations (lv_canvas lv)).
        ann_valid (lv_heap lv' a) \<and> ann_grows (lv_heap lv a) (lv_heap lv' a)) \<and>
     (\<forall>a. a \<notin> set (cv_annotations (lv_canvas lv)) \<and> a < lv_next lv \<longrightarrow> lv_heap lv' a = lv_heap lv a) \<and>
     lv_next lv \<le> lv_next lv' \<and>
     ((\<exists>P. cv_annotations (lv_canvas lv') = filter P (cv_annotations (lv_canvas lv))) \<or>
      cv_annotations (lv_canvas lv') = cv_annotations (lv_canvas lv) @ [lv_next lv] \<and>
      lv_next lv' = lv_next lv + 1 \<and> ann_valid (lv_heap lv' (lv_next lv)) \<and>
      annotation_id (lv_heap lv' (lv_next lv)) \<notin> set (ann_ids lv))"

lemma ann_grows_id: "ann_grows d d' \<Longrightarrow> annotation_id d' = annotation_id d"
  by (simp add: ann_grows_def annotation_id_def)

lemma distinct_map_filter': "distinct (map f xs) \<Longrightarrow> distinct (map f (filter P xs))"
  by (induction xs) auto

lemma ann_effect_inv:
  assumes "ann_inv lv" and "ann_effect lv lv'"
  shows "ann_inv lv'"
proof -
  let ?as = "cv_annotations (lv_canvas lv)"
  have old: "ann_valid (lv_heap lv' a)" "annotation_id (lv_heap lv' a) = annotation_id (lv_heap lv a)"
    if "a \<in> set ?as" for a
    using assms(2) that ann_grows_id unfolding ann_effect_def by blast+
  then have ids: "map (\<lambda>a. annotation_id (lv_heap lv' a)) ?as = ann_ids lv" by (simp add: ann_ids_def)
  from assms(2) consider P where "cv_annotations (lv_canvas lv') = filter P ?as"
    | "cv_annotations (lv_canvas lv') = ?as @ [lv_next lv]" "lv_next lv' = lv_next lv + 1"
      "ann_valid (lv_heap lv' (lv_next lv))" "annotation_id (lv_heap lv' (lv_next lv)) \<notin> set (ann_ids lv)"
    unfolding ann_effect_def by blast
  then show ?thesis
  proof cases
    case 1
    have "lv_next lv \<le> lv_next lv'" using assms(2) by (simp add: ann_effect_def)
    moreover have "distinct (map (\<lambda>a. annotation_id (lv_heap lv' a)) (filter P ?as))"
      using assms(1) ids by (intro distinct_map_filter') (simp add: ann_inv_def)
    ultimately show ?thesis
      using assms(1) old(1) unfolding ann_inv_def ann_ids_def 1 by fastforce
  next
    case 2
    have "lv_next lv \<notin> set ?as" using assms(1) by (auto simp: ann_inv_def)
    moreover have "ann_ids lv' = ann_ids lv @ [annotation_id (lv_heap lv' (lv_next lv))]"
      using ids 2(1) by (simp add: ann_ids_def)
    ultimately show ?thesis
      using assms(1) old(1) 2 unfolding ann_inv_def by fastforce
  qed
qed

lemma filter_same [simp, intro]: "\<exists>P. xs = filter P xs"
  by (rule exI [of _ "\<lambda>_. True"]) simp

lemma ann_effect_same:
  assumes "ann_inv lv" and "lv_heap lv' = lv_heap lv" and "lv_next lv' = lv_next lv"
    and "cv_annotations (lv_canvas lv') = cv_annotations (lv_canvas lv)"
  shows "ann_effect lv lv'"
  using assms unfolding ann_effect_def ann_inv_def by auto

lemma ann_effect_update:
  assumes "ann_inv lv" and "a \<in> set (cv_annotations (lv_canvas lv))"
    and "ann_valid d" and "ann_grows (lv_heap lv a) d"
  shows "ann_effect lv (heap_set lv a d)"
  using assms unfolding ann_effect_def ann_inv_def by auto

lemma ann_effect_trans_update:
  assumes e1: "ann_effect lv lv'" and same: "cv_annotations (lv_canvas lv') = cv_annotations (lv_canvas lv)"
    and e2: "ann_effect lv' lv''"
    and same': "cv_annotations (lv_canvas lv'') = cv_annotations (lv_canvas lv')"
  shows "ann_effect lv lv''"
  unfolding ann_effect_def
proof (intro conjI ballI allI impI)
  fix a assume a: "a \<in> set (cv_annotations (lv_canvas lv))"
  with e1 e2 same show "ann_valid (lv_heap lv'' a)" by (simp add: ann_effect_def)
  have "ann_grows (lv_heap lv a) (lv_heap lv' a)" "ann_grows (lv_heap lv' a) (lv_heap lv'' a)"
    using a e1 e2 same by (simp_all add: ann_effect_def)
  then show "ann_grows (lv_heap lv a) (lv_heap lv'' a)" by (rule ann_grows_trans)
next
  fix a assume "a \<notin> set (cv_annotations (lv_canvas lv)) \<and> a < lv_next lv"
  then show "lv_heap lv'' a = lv_heap lv a" using e1 e2 same by (simp add: ann_effect_def)
next
  show "lv_next lv \<le> lv_next lv''" using e1 e2 by (simp add: ann_effect_def)
next
  show "(\<exists>P. cv_annotations (lv_canvas lv'') = filter P (cv_annotations (lv_canvas lv))) \<or>
    cv_annotations (lv_canvas lv'') = cv_annotations (lv_canvas lv) @ [lv_next lv] \<and>
    lv_next lv'' = lv_next lv + 1 \<and> ann_valid (lv_heap lv'' (lv_next lv)) \<and>
    annotation_id (lv_heap lv'' (lv_next lv)) \<notin> set (ann_ids lv)"
    using same same' by simp
qed

lemma alive_before:
  assumes "ann_effect lv lv'" and "a \<in> set (cv_annotations (lv_canvas lv'))" and "a < lv_next lv"
  shows "a \<in> set (cv_annotations (lv_canvas lv))"
  using assms unfolding ann_effect_def by auto

section \<open>The annotation branches\<close>

lemma drop_from_groups_effect:
  "ann_inv lv \<Longrightarrow> set as \<subseteq> set (cv_annotations (lv_canvas lv)) \<Longrightarrow>
   ann_effect lv (snd (drop_from_groups rs as lv)) \<and>
   lv_session (snd (drop_from_groups rs as lv)) = lv_session lv \<and>
   lv_ring (snd (drop_from_groups rs as lv)) = lv_ring lv"
proof (induction rs as lv rule: drop_from_groups.induct)
  case (1 rs lv)
  then show ?case by (simp add: ann_effect_same)
next
  case (2 rs a as lv)
  show ?case
  proof (cases "\<exists>ms ms'. obj_get (lv_heap lv a) ''member_node_ids'' = JArr ms \<and> drop_members rs ms = Inr ms'")
    case True
    then obtain ms ms' where m: "obj_get (lv_heap lv a) ''member_node_ids'' = JArr ms" "drop_members rs ms = Inr ms'"
      by blast
    let ?d = "dict_set (lv_heap lv a) ''member_node_ids'' (JArr ms')"
    have a: "a \<in> set (cv_annotations (lv_canvas lv))" "ann_valid (lv_heap lv a)"
      using "2.prems" by (auto simp: ann_inv_def)
    have eff: "ann_effect lv (heap_set lv a ?d)"
      using a by (intro ann_effect_update "2.prems"(1) ann_set_member) (auto simp: bookkeeping_def)
    have "ann_effect (heap_set lv a ?d) (snd (drop_from_groups rs as (heap_set lv a ?d))) \<and>
        lv_session (snd (drop_from_groups rs as (heap_set lv a ?d))) = lv_session lv \<and>
        lv_ring (snd (drop_from_groups rs as (heap_set lv a ?d))) = lv_ring lv"
      using "2.IH"(6) [OF m] ann_effect_inv [OF "2.prems"(1) eff] "2.prems"(2) by simp
    then show ?thesis
      using ann_effect_trans_update [OF eff] by (simp add: m)
  next
    case False
    show ?thesis
    proof (cases "obj_get (lv_heap lv a) ''member_node_ids''")
      case (JArr ms)
      with False obtain e where "drop_members rs ms = Inl e" by (cases "drop_members rs ms") auto
      with JArr show ?thesis using "2.prems"(1) by (simp add: ann_effect_same)
    qed (use "2.IH" "2.prems" in auto)
  qed
qed

lemma find_annotation_some:
  assumes "find_annotation lv i = Some a"
  shows "a \<in> set (cv_annotations (lv_canvas lv))" "obj_get (lv_heap lv a) ''id'' = JStr i"
  using assms by (auto simp: find_annotation_def find_Some_iff)

lemma find_annotation_none:
  assumes "ann_inv lv" and "find_annotation lv i = None"
  shows "i \<notin> set (ann_ids lv)"
proof
  assume "i \<in> set (ann_ids lv)"
  then obtain a where a: "a \<in> set (cv_annotations (lv_canvas lv))" "i = annotation_id (lv_heap lv a)"
    by (auto simp: ann_ids_def)
  with assms(1) have "obj_get (lv_heap lv a) ''id'' = JStr i"
    by (auto simp: ann_inv_def ann_valid_def annotation_id_def)
  with a assms(2) show False by (auto simp: find_annotation_def find_None_iff)
qed

lemma find_annotation_alive:
  assumes "ann_inv lv" and "a \<in> set (cv_annotations (lv_canvas lv))"
  shows "find_annotation lv (annotation_id (lv_heap lv a)) = Some a"
proof -
  have id: "obj_get (lv_heap lv b) ''id'' = JStr (annotation_id (lv_heap lv b))"
    if "b \<in> set (cv_annotations (lv_canvas lv))" for b
    using assms(1) that by (auto simp: ann_inv_def ann_valid_def annotation_id_def)
  obtain b where b: "find_annotation lv (annotation_id (lv_heap lv a)) = Some b"
    using id [OF assms(2)] assms(2)
    by (cases "find_annotation lv (annotation_id (lv_heap lv a))") (auto simp: find_annotation_def find_None_iff)
  note f = find_annotation_some [OF b]
  have "annotation_id (lv_heap lv b) = annotation_id (lv_heap lv a)" using f(2) by (simp add: annotation_id_def)
  moreover have "inj_on (\<lambda>a. annotation_id (lv_heap lv a)) (set (cv_annotations (lv_canvas lv)))"
    using assms(1) by (simp add: ann_inv_def ann_ids_def distinct_map)
  ultimately show ?thesis using b f(1) assms(2) by (auto dest: inj_onD)
qed

text \<open>What validation guarantees.\<close>

lemma validate_annotation_ok:
  assumes "validate_annotation v req = Inr d" and "py_json v"
  shows "distinct (map fst d)"
    and "\<exists>t \<in> set ANNOTATION_TYPES. obj_get d ''type'' = JStr t \<and> obj_get d ''kind'' = JStr t"
    and "req \<Longrightarrow> \<exists>i. obj_get d ''id'' = JStr i"
proof -
  obtain d0 where d0: "v = JObj d0" using assms(1) by (auto simp: validate_annotation_def split: json.splits)
  obtain t where t: "canonical_type (raw_type d0) = Inr t"
    using assms(1) unfolding d0 validate_annotation_def by (auto simp: py_bind_Inr_iff)
  have d: "d = dict_set (dict_set d0 ''type'' (JStr t)) ''kind'' (JStr t)"
    using assms(1) unfolding d0 validate_annotation_def
    by (auto simp: t Let_def py_bind_Inr_iff split: if_splits)
  show "distinct (map fst d)" using assms(2) by (simp add: d d0)
  have "t \<in> set ANNOTATION_TYPES"
    using t unfolding canonical_type_def Let_def by (auto split: if_splits json.splits)
  then show "\<exists>t \<in> set ANNOTATION_TYPES. obj_get d ''type'' = JStr t \<and> obj_get d ''kind'' = JStr t"
    by (auto simp: d)
  show "req \<Longrightarrow> \<exists>i. obj_get d ''id'' = JStr i"
    using assms(1) unfolding d0 validate_annotation_def
    by (simp add: t Let_def d split: if_splits json.splits)
qed

lemma obj_get_update:
  "distinct (map fst e) \<Longrightarrow>
   obj_get (dict_update d e) k = (case map_of e k of Some v \<Rightarrow> v | None \<Rightarrow> obj_get d k)"
  by (simp add: obj_get_def map_of_dict_update map_add_def split: option.split)

lemma next_version_valid: "ann_valid d \<Longrightarrow> next_version d = Some (ver d + 1)"
  by (auto simp: ann_valid_def next_version_def ver_def json_int_def Let_def)

lemma field_versions_valid:
  assumes "ann_valid d"
  shows "\<exists>fv. field_versions_of d = Some fv \<and>
    (\<forall>f. fver d f = (case map_of fv f of Some (JInt n) \<Rightarrow> n | _ \<Rightarrow> 1)) \<and>
    (\<forall>f w. map_of fv f = Some w \<longrightarrow> (\<exists>n. w = JInt n \<and> 1 \<le> n \<and> n \<le> ver d))"
proof -
  from assms obtain v fv where "obj_get d ''version'' = JInt v" "obj_get d ''field_versions'' = JObj fv"
    "\<forall>f w. map_of fv f = Some w \<longrightarrow> (\<exists>n. w = JInt n \<and> 1 \<le> n \<and> n \<le> v)"
    unfolding ann_valid_def by blast
  then show ?thesis
    by (intro exI [of _ fv]) (auto simp: field_versions_of_def fver_def ver_def Let_def)
qed

lemma ver_pos: "ann_valid d \<Longrightarrow> 1 \<le> ver d"
  by (auto simp: ann_valid_def ver_def)

lemma fver_le_ver:
  assumes "ann_valid d"
  shows "fver d f \<le> ver d"
proof -
  obtain fv where "field_versions_of d = Some fv"
    and fv: "\<forall>f. fver d f = (case map_of fv f of Some (JInt n) \<Rightarrow> n | _ \<Rightarrow> 1)"
    "\<forall>f w. map_of fv f = Some w \<longrightarrow> (\<exists>n. w = JInt n \<and> 1 \<le> n \<and> n \<le> ver d)"
    using field_versions_valid [OF assms] by blast
  show ?thesis
  proof (cases "map_of fv f")
    case None
    then show ?thesis using ver_pos [OF assms] fv(1) by simp
  next
    case (Some w)
    with fv(2) obtain n where "w = JInt n" "n \<le> ver d" by blast
    with Some show ?thesis using fv(1) by simp
  qed
qed

text \<open>The merge, on a valid annotation and a valid patch of it.\<close>

lemma merged_get:
  "obj_get (merged old incoming fv changed v now) k =
     (if k = ''updated_at'' then JStr now
      else if k = ''field_versions'' then JObj (foldl (\<lambda>fv f. dict_set fv f (JInt v)) fv changed)
      else if k = ''version'' then JInt v
      else obj_get (dict_update old incoming) k)"
  by (simp add: merged_def)

lemma merged_ver [simp]: "ver (merged old incoming fv changed v now) = v"
  by (simp add: ver_def merged_get)

lemma merged_fver:
  "fver (merged old incoming fv changed v now) f =
     (if f \<in> set changed then v else (case map_of fv f of Some (JInt n) \<Rightarrow> n | _ \<Rightarrow> 1))"
  by (simp add: fver_def merged_get map_of_foldl_set)

lemma merged_valid:
  assumes old: "ann_valid old" and d: "distinct (map fst incoming)"
    and t: "obj_get incoming ''type'' = JStr t" "obj_get incoming ''kind'' = JStr t"
    and same: "obj_get old ''type'' = JStr t"
    and i: "obj_get incoming ''id'' = obj_get old ''id''"
    and fv: "field_versions_of old = Some fv"
  shows "ann_valid (merged old incoming fv changed (ver old + 1) now)"
    and "ann_grows old (merged old incoming fv changed (ver old + 1) now)"
proof -
  let ?m = "merged old incoming fv changed (ver old + 1) now"
  obtain fv' where fv': "field_versions_of old = Some fv'"
    "\<forall>f. fver old f = (case map_of fv' f of Some (JInt n) \<Rightarrow> n | _ \<Rightarrow> 1)"
    "\<forall>f w. map_of fv' f = Some w \<longrightarrow> (\<exists>n. w = JInt n \<and> 1 \<le> n \<and> n \<le> ver old)"
    using field_versions_valid [OF old] by blast
  with fv have fv_eq: "fv' = fv" by simp
  note fvs = fv'(2,3) [unfolded fv_eq]
  have v: "1 \<le> ver old" using old by (auto simp: ann_valid_def ver_def)
  have got: "obj_get (dict_update old incoming) k = obj_get incoming k" if "obj_get incoming k = JStr x" for k x
    using that by (simp add: obj_get_update [OF d]) (simp add: obj_get_def split: option.splits)
  obtain j where j: "obj_get old ''id'' = JStr j" using old by (auto simp: ann_valid_def)
  have ids: "obj_get ?m ''id'' = JStr j" "obj_get ?m ''type'' = JStr t" "obj_get ?m ''kind'' = JStr t"
    using got [of "''id''"] got [of "''type''"] got [of "''kind''"] t i j by (simp_all add: merged_get)
  have tt: "t \<in> set ANNOTATION_TYPES" using old same by (auto simp: ann_valid_def)
  have distinct: "distinct (map fst ?m)"
    using old by (simp add: merged_def ann_valid_def)
  have fvm: "\<exists>n. w = JInt n \<and> 1 \<le> n \<and> n \<le> ver old + 1"
    if "map_of (foldl (\<lambda>fv f. dict_set fv f (JInt (ver old + 1))) fv changed) f = Some w" for f w
    using that fvs(2) v by (fastforce simp: map_of_foldl_set split: if_splits)
  show "ann_valid ?m"
    unfolding ann_valid_def using distinct ids tt v fvm
    by (intro conjI) (auto simp: merged_get)
  show "ann_grows old ?m"
    unfolding ann_grows_def
  proof (intro conjI allI)
    fix f
    show "fver old f \<le> fver ?m f"
      using fver_le_ver [OF old, of f] fvs(1) by (simp add: merged_fver)
  qed (use ids j same in simp_all)
qed

lemma upsert_existing_effect:
  assumes inv: "ann_inv lv" and a: "find_annotation lv i = Some a"
    and val: "validate_annotation v False = Inr annotation" "py_json v"
    and i: "obj_get annotation ''id'' = JStr i"
    and r: "upsert_existing env lv op annotation i a = (out, lv')"
  shows "ann_effect lv lv' \<and> cv_annotations (lv_canvas lv') = cv_annotations (lv_canvas lv) \<and>
    lv_session lv' = lv_session lv \<and> lv_ring lv' = lv_ring lv"
proof -
  note f = find_annotation_some [OF a]
  have old: "ann_valid (lv_heap lv a)" using inv f(1) by (auto simp: ann_inv_def)
  obtain t where t: "obj_get annotation ''type'' = JStr t" "obj_get annotation ''kind'' = JStr t"
    using validate_annotation_ok(2) [OF val] by blast
  obtain fv where fv: "field_versions_of (lv_heap lv a) = Some fv"
    using field_versions_valid [OF old] by blast
  show ?thesis
  proof (cases "json_eq (obj_get (lv_heap lv a) ''type'') (obj_get annotation ''type'')")
    case False
    then show ?thesis using r inv by (auto simp: upsert_existing_def Let_def ann_effect_same)
  next
    case True
    with t old have same: "obj_get (lv_heap lv a) ''type'' = JStr t" by (auto simp: ann_valid_def)
    note m = merged_valid [OF old validate_annotation_ok(1) [OF val] t same _ fv]
    have "lv' = heap_set lv a (merged (lv_heap lv a) annotation fv (changed_fields annotation (lv_heap lv a))
        (ver (lv_heap lv a) + 1) (ev_annotation_time env))"
      using r True by (simp add: upsert_existing_def Let_def fv merge_annotation_def next_version_valid [OF old])
    then show ?thesis
      using ann_effect_update [OF inv f(1)] m i f(2) by simp
  qed
qed

lemma obj_get_with_id:
  "obj_get (with_id env d) k =
     (if k = ''id'' then JStr (case obj_get d ''id'' of JStr i \<Rightarrow> i | _ \<Rightarrow> ev_annotation_id env)
      else obj_get d k)"
  by (cases "obj_get d ''id''") (simp_all add: with_id_def)

lemma obj_get_setdefault: "k \<noteq> k' \<Longrightarrow> obj_get (dict_setdefault d k' v) k = obj_get d k"
  by (simp add: dict_setdefault_def split: option.split)

lemma distinct_new_annotation:
  "distinct (map fst d) \<Longrightarrow> distinct (map fst (new_annotation env op d))"
  by (cases "obj_get d ''id''"; cases "map_of (with_id env d) ''created_by''")
    (simp_all add: new_annotation_def with_id_def dict_setdefault_def Let_def)

lemma obj_get_new:
  "obj_get (new_annotation env op d) k =
     (if k = ''field_versions'' then JObj [] else if k = ''version'' then JInt 1
      else if k = ''updated_at'' then JStr (ev_annotation_time env)
      else obj_get (dict_setdefault (with_id env d) ''created_by'' (obj_get op ''client_id'')) k)"
  by (simp add: new_annotation_def Let_def INITIAL_ANNOTATION_VERSION_def)

lemma new_annotation_valid:
  assumes val: "validate_annotation v False = Inr annotation" "py_json v"
  shows "ann_valid (new_annotation env op annotation)"
    and "annotation_id (new_annotation env op annotation) =
      (case obj_get annotation ''id'' of JStr i \<Rightarrow> i | _ \<Rightarrow> ev_annotation_id env)"
proof -
  obtain t where t: "t \<in> set ANNOTATION_TYPES" "obj_get annotation ''type'' = JStr t"
      "obj_get annotation ''kind'' = JStr t"
    using validate_annotation_ok(2) [OF val] by blast
  have id: "obj_get (new_annotation env op annotation) ''id'' =
      JStr (case obj_get annotation ''id'' of JStr i \<Rightarrow> i | _ \<Rightarrow> ev_annotation_id env)"
    by (simp add: obj_get_new obj_get_setdefault obj_get_with_id)
  then show "annotation_id (new_annotation env op annotation) =
      (case obj_get annotation ''id'' of JStr i \<Rightarrow> i | _ \<Rightarrow> ev_annotation_id env)"
    by (simp add: annotation_id_def)
  have tk: "obj_get (new_annotation env op annotation) ''type'' = JStr t"
      "obj_get (new_annotation env op annotation) ''kind'' = JStr t"
    by (simp_all add: obj_get_new obj_get_setdefault obj_get_with_id t)
  show "ann_valid (new_annotation env op annotation)"
    unfolding ann_valid_def
    using id tk t(1) distinct_new_annotation [OF validate_annotation_ok(1) [OF val]]
    by (intro conjI) (auto simp: obj_get_new [of _ _ _ "''version''"] obj_get_new [of _ _ _ "''field_versions''"])
qed

definition fresh_id :: "live \<Rightarrow> op_env \<Rightarrow> bool" where
  "fresh_id lv env \<longleftrightarrow> ev_annotation_id env \<notin> set (ann_ids lv)"

section \<open>The canvas\<close>

definition is_point :: "json \<Rightarrow> bool" where
  "is_point v \<longleftrightarrow> (\<exists>x y. v = point x y)"

definition canvas_ok :: "nat \<Rightarrow> canvas \<Rightarrow> bool" where
  "canvas_ok n c \<longleftrightarrow>
     distinct (cv_node_refs c) \<and> distinct (cv_hidden_node_ids c) \<and> distinct (cv_hidden_edge_ids c) \<and>
     distinct (cv_dimmed_node_ids c) \<and> distinct (cv_dimmed_edge_ids c) \<and>
     (\<exists>x. cv_edge_intensity c = JFloat x \<and> 0 \<le> x \<and> x \<le> 1) \<and>
     distinct (map fst (cv_positions c)) \<and> (\<forall>k v. map_of (cv_positions c) k = Some v \<longrightarrow> is_point v) \<and>
     length (cv_annotations c) \<le> n"

text \<open>What a branch leaves alone, and what it keeps.\<close>

definition branch_ok :: "nat \<Rightarrow> live \<Rightarrow> live \<Rightarrow> bool" where
  "branch_ok n lv lv' \<longleftrightarrow> ann_effect lv lv' \<and> lv_ring lv' = lv_ring lv \<and>
     se_id (lv_session lv') = se_id (lv_session lv) \<and> se_seq (lv_session lv') = se_seq (lv_session lv) \<and>
     se_activity_log (lv_session lv') = se_activity_log (lv_session lv) \<and>
     (canvas_ok n (lv_canvas lv) \<longrightarrow> canvas_ok n (lv_canvas lv')) \<and>
     (length (se_deleted_annotation_ids (lv_session lv)) \<le> DELETED_IDS_MAX \<longrightarrow>
      length (se_deleted_annotation_ids (lv_session lv')) \<le> DELETED_IDS_MAX)"

lemma branch_ok_refl: "ann_inv lv \<Longrightarrow> branch_ok n lv lv"
  by (simp add: branch_ok_def ann_effect_same)

lemma branch_ok_canvas:
  assumes "ann_inv lv" and "canvas_ok n (lv_canvas lv) \<Longrightarrow> canvas_ok n c"
    and "cv_annotations c = cv_annotations (lv_canvas lv)"
  shows "branch_ok n lv (set_canvas lv c)"
  using assms by (auto simp: branch_ok_def intro: ann_effect_same)

lemma insert_annotation_ok:
  assumes inv: "ann_inv lv"
    and val: "validate_annotation v False = Inr annotation" "py_json v"
    and new: "annotation_id (new_annotation env op annotation) \<notin> set (ann_ids lv)"
    and r: "insert_annotation n env lv op annotation = (out, lv')"
  shows "branch_ok n lv lv'"
proof (cases "n \<le> length (cv_annotations (lv_canvas lv))")
  case True
  then show ?thesis using r inv by (auto simp: insert_annotation_def branch_ok_refl)
next
  case False
  let ?d = "new_annotation env op annotation"
  have lv': "lv' = (set_canvas (heap_set lv (lv_next lv) ?d)
      ((lv_canvas lv)\<lparr>cv_annotations := cv_annotations (lv_canvas lv) @ [lv_next lv]\<rparr>))\<lparr>lv_next := lv_next lv + 1\<rparr>"
    using r False by (simp add: insert_annotation_def Let_def)
  have "ann_effect lv lv'"
    using inv new new_annotation_valid(1) [OF val] unfolding ann_effect_def lv' ann_inv_def by auto
  then show ?thesis using False by (simp add: lv' branch_ok_def canvas_ok_def)
qed

lemma validate_position_point: "validate_position v = Inr p \<Longrightarrow> is_point p"
  by (auto simp: validate_position_def is_point_def split: json.splits option.splits)

lemma validate_intensity_range: "validate_intensity v = Inr w \<Longrightarrow> \<exists>x. w = JFloat x \<and> 0 \<le> x \<and> x \<le> 1"
  by (auto simp: validate_intensity_def split: json.splits option.splits)

lemma normalise_positions_ok:
  "normalise_positions ps = Inr qs \<Longrightarrow> map fst qs = map fst ps \<and> (\<forall>(k, v) \<in> set qs. is_point v)"
  by (induction ps arbitrary: qs) (fastforce simp: py_bind_Inr_iff dest: validate_position_point)+

lemma ids_branches_ok:
  assumes inv: "ann_inv lv"
  shows "op_nodes_added lv op = (out, lv') \<Longrightarrow> branch_ok n lv lv'"
    and "op_nodes_hidden lv op = (out, lv') \<Longrightarrow> branch_ok n lv lv'"
    and "op_nodes_shown lv op = (out, lv') \<Longrightarrow> branch_ok n lv lv'"
    and "op_nodes_dimmed lv op = (out, lv') \<Longrightarrow> branch_ok n lv lv'"
    and "op_nodes_undimmed lv op = (out, lv') \<Longrightarrow> branch_ok n lv lv'"
    and "op_edges_hidden lv op = (out, lv') \<Longrightarrow> branch_ok n lv lv'"
    and "op_edges_shown lv op = (out, lv') \<Longrightarrow> branch_ok n lv lv'"
    and "op_edges_dimmed lv op = (out, lv') \<Longrightarrow> branch_ok n lv lv'"
    and "op_edges_undimmed lv op = (out, lv') \<Longrightarrow> branch_ok n lv lv'"
    and "op_edges_payload lv op = (out, lv') \<Longrightarrow> branch_ok n lv lv'"
    and "op_edges_removed lv op = (out, lv') \<Longrightarrow> branch_ok n lv lv'"
  using inv by (auto simp: op_defs Let_def canvas_ok_def intro!: branch_ok_refl branch_ok_canvas
      split: sum.splits if_splits)

lemma value_branches_ok:
  assumes inv: "ann_inv lv"
  shows "op_edge_intensity_set lv op = (out, lv') \<Longrightarrow> branch_ok n lv lv'"
    and "op_node_moved lv op = (out, lv') \<Longrightarrow> branch_ok n lv lv'"
  using inv by (auto simp: op_defs Let_def canvas_ok_def intro!: branch_ok_refl branch_ok_canvas
      dest: validate_intensity_range validate_position_point split: sum.splits json.splits if_splits)

lemma op_session_renamed_ok:
  assumes inv: "ann_inv lv" and "op_session_renamed lv op = (out, lv')"
  shows "branch_ok n lv lv'"
  using assms by (auto simp: op_defs branch_ok_def intro: ann_effect_same split: json.splits)

lemma op_layout_applied_ok:
  assumes inv: "ann_inv lv" and r: "op_layout_applied lv op = (out, lv')" and op: "py_json (JObj op)"
  shows "branch_ok n lv lv'"
proof (cases "\<exists>ps qs. obj_get op ''positions'' = JObj ps \<and> normalise_positions ps = Inr qs")
  case True
  then obtain ps qs where q: "obj_get op ''positions'' = JObj ps" "normalise_positions ps = Inr qs" by blast
  have "distinct (map fst ps)" using py_json_get [OF op, of "''positions''"] by (simp add: q(1))
  then have d: "distinct (map fst qs)" "\<And>k v. map_of qs k = Some v \<Longrightarrow> is_point v"
    using normalise_positions_ok [OF q(2)] by (auto dest: map_of_SomeD)
  have "lv' = set_canvas lv ((lv_canvas lv)\<lparr>cv_positions := dict_update (cv_positions (lv_canvas lv)) qs\<rparr>)"
    using r by (simp add: op_layout_applied_def q Let_def)
  moreover have "branch_ok n lv (set_canvas lv ((lv_canvas lv)\<lparr>cv_positions := dict_update (cv_positions (lv_canvas lv)) qs\<rparr>))"
    by (rule branch_ok_canvas [OF inv])
      (use d in \<open>auto simp: canvas_ok_def map_of_dict_update map_add_def split: option.splits\<close>)
  ultimately show ?thesis by simp
next
  case False
  then have "lv' = lv"
    using r by (cases "obj_get op ''positions''") (auto simp: op_layout_applied_def split: sum.splits)
  then show ?thesis by (simp add: branch_ok_refl [OF inv])
qed

lemma ann_effect_from_same:
  assumes "ann_effect lv lv'" and "ann_inv lv0" and "lv_heap lv = lv_heap lv0" and "lv_next lv = lv_next lv0"
    and "cv_annotations (lv_canvas lv) = cv_annotations (lv_canvas lv0)"
  shows "ann_effect lv0 lv'"
  using assms by (simp add: ann_effect_def ann_ids_def)

lemma map_of_filter_keys: "map_of (filter (\<lambda>(k, v). P k) d) k = (if P k then map_of d k else None)"
  by (induction d) auto

lemma distinct_filter_keys: "distinct (map fst d) \<Longrightarrow> distinct (map fst (filter (\<lambda>(k, v). P k) d))"
  by (induction d) auto

lemma without_nodes_annotations [simp]: "cv_annotations (without_nodes rs c) = cv_annotations c"
  by (simp add: without_nodes_def)

lemma canvas_ok_without_nodes: "canvas_ok n c \<Longrightarrow> canvas_ok n (without_nodes rs c)"
  by (simp add: canvas_ok_def without_nodes_def map_of_filter_keys distinct_filter_keys)

lemma op_nodes_removed_state:
  assumes "require_id_list op ''node_ids'' = Inr rs"
  shows "snd (op_nodes_removed lv op) = snd (drop_from_groups rs (cv_annotations (lv_canvas lv))
    (set_canvas lv (without_nodes rs (lv_canvas lv))))"
  unfolding op_nodes_removed_def assms sum.case
  by (simp add: split_beta split: option.split)

lemma op_nodes_removed_ok:
  assumes inv: "ann_inv lv" and r: "op_nodes_removed lv op = (out, lv')"
  shows "branch_ok n lv lv'"
proof (cases "require_id_list op ''node_ids''")
  case (Inl e)
  then show ?thesis using r inv by (auto simp: op_nodes_removed_def branch_ok_refl)
next
  case (Inr rs)
  let ?lv1 = "set_canvas lv (without_nodes rs (lv_canvas lv))"
  have inv1: "ann_inv ?lv1" using inv by (simp add: ann_inv_def ann_ids_def)
  have lv': "lv' = snd (drop_from_groups rs (cv_annotations (lv_canvas lv)) ?lv1)"
    using op_nodes_removed_state [OF Inr, of lv] unfolding r by simp
  have sub: "set (cv_annotations (lv_canvas lv)) \<subseteq> set (cv_annotations (lv_canvas ?lv1))" by simp
  note d = drop_from_groups_effect [OF inv1 sub, of rs, folded lv']
  have "ann_effect lv lv'" by (rule ann_effect_from_same [of ?lv1]) (use d inv in simp_all)
  then show ?thesis using d by (simp add: branch_ok_def canvas_ok_without_nodes)
qed

text \<open>A create changes nothing, or merges into the annotation with its id, or inserts a new one.\<close>

lemma op_annotation_created_cases:
  assumes "op_annotation_created n env tr lv op = (out, lv')"
  shows "(lv' = lv \<and> (\<forall>f a k. out \<noteq> Changed f a k)) \<or>
    (\<exists>ann. validate_annotation (obj_get op ''annotation'') False = Inr ann \<and>
       (\<forall>i. obj_get ann ''id'' = JStr i \<longrightarrow> i \<notin> set (se_deleted_annotation_ids (lv_session lv))) \<and>
       ((\<exists>i a. obj_get ann ''id'' = JStr i \<and> find_annotation lv i = Some a \<and>
           upsert_existing env lv op ann i a = (out, lv')) \<or>
        ((\<forall>i. obj_get ann ''id'' = JStr i \<longrightarrow> find_annotation lv i = None) \<and>
         insert_annotation n env lv op ann = (out, lv'))))"
proof (cases "validate_annotation (obj_get op ''annotation'') False")
  case (Inl e)
  then show ?thesis using assms by (auto simp: op_annotation_created_def)
next
  case (Inr ann)
  show ?thesis
  proof (cases "\<exists>i. obj_get ann ''id'' = JStr i")
    case True
    then obtain i where i: "obj_get ann ''id'' = JStr i" by blast
    show ?thesis
      using assms by (cases "find_annotation lv i")
        (auto simp: op_annotation_created_def Inr i Let_def split: if_splits)
  next
    case False
    have iid: "(case obj_get ann ''id'' of JStr i \<Rightarrow> Some i | _ \<Rightarrow> None) = None"
      using False by (simp split: json.split)
    show ?thesis
      using assms False unfolding op_annotation_created_def Inr sum.case Let_def iid
      by (auto simp: Inr split: if_splits)
  qed
qed

lemma op_annotation_created_ok:
  assumes inv: "ann_inv lv" and r: "op_annotation_created n env tr lv op = (out, lv')"
    and op: "py_json (JObj op)" and fresh: "fresh_id lv env"
  shows "branch_ok n lv lv'"
  using op_annotation_created_cases [OF r]
proof (elim disjE exE conjE)
  assume "lv' = lv"
  then show ?thesis by (simp add: branch_ok_refl [OF inv])
next
  fix ann i a
  assume val: "validate_annotation (obj_get op ''annotation'') False = Inr ann"
    and i: "obj_get ann ''id'' = JStr i" and a: "find_annotation lv i = Some a"
    and u: "upsert_existing env lv op ann i a = (out, lv')"
  from upsert_existing_effect [OF inv a val py_json_get [OF op] i u] show ?thesis by (simp add: branch_ok_def)
next
  fix ann
  assume val: "validate_annotation (obj_get op ''annotation'') False = Inr ann"
    and none: "\<forall>i. obj_get ann ''id'' = JStr i \<longrightarrow> find_annotation lv i = None"
    and ins: "insert_annotation n env lv op ann = (out, lv')"
  note pj = py_json_get [OF op, of "''annotation''"]
  have "annotation_id (new_annotation env op ann) \<notin> set (ann_ids lv)"
    using fresh none find_annotation_none [OF inv] unfolding new_annotation_valid(2) [OF val pj]
    by (auto simp: fresh_id_def split: json.split)
  from insert_annotation_ok [OF inv val pj this ins] show ?thesis .
qed

lemma annotation_id_of: "obj_get d ''id'' = JStr i \<Longrightarrow> annotation_id d = i"
  by (simp add: annotation_id_def)

text \<open>An update either changes nothing or merges the patch into the annotation it names.\<close>

lemma op_annotation_updated_cases:
  assumes inv: "ann_inv lv" and r: "op_annotation_updated env tr lv op = (out, lv')"
    and op: "py_json (JObj op)"
  shows "(lv' = lv \<and> (\<forall>f a k. out \<noteq> Changed f a k)) \<or>
    (\<exists>incoming a fv. validate_annotation (obj_get op ''annotation'') True = Inr incoming \<and>
       find_annotation lv (annotation_id incoming) = Some a \<and>
       json_eq (obj_get (lv_heap lv a) ''type'') (obj_get incoming ''type'') \<and>
       field_versions_of (lv_heap lv a) = Some fv \<and>
       base_version_check tr op (lv_heap lv a) fv (changed_fields incoming (lv_heap lv a)) = None \<and>
       lv' = heap_set lv a (merged (lv_heap lv a) incoming fv (changed_fields incoming (lv_heap lv a))
         (ver (lv_heap lv a) + 1) (ev_annotation_time env)) \<and>
       out = Changed op (Some a) (Some (annotation_activity (annotation_id (lv_heap lv a)) (key_list incoming)
         (JObj (lv_heap lv a)) (JObj (lv_heap lv' a))
         [(''op'', JStr ''annotation_updated''), (''annotation'', JObj (lv_heap lv a))])))"
proof (cases "validate_annotation (obj_get op ''annotation'') True")
  case (Inl e)
  then show ?thesis using r by (auto simp: op_annotation_updated_def)
next
  case (Inr incoming)
  show ?thesis
  proof (cases "find_annotation lv (annotation_id incoming)")
    case None
    then show ?thesis using r Inr by (auto simp: op_annotation_updated_def)
  next
    case (Some a)
    have old: "ann_valid (lv_heap lv a)"
      using inv find_annotation_some [OF Some] by (auto simp: ann_inv_def)
    obtain fv where fv: "field_versions_of (lv_heap lv a) = Some fv"
      using field_versions_valid [OF old] by blast
    show ?thesis
      using r unfolding op_annotation_updated_def Inr sum.case Some option.case Let_def fv
        merge_annotation_def next_version_valid [OF old]
      by (auto simp: Inr Some fv split: if_splits option.splits)
  qed
qed

lemma op_annotation_updated_ok:
  assumes inv: "ann_inv lv" and r: "op_annotation_updated env tr lv op = (out, lv')"
    and op: "py_json (JObj op)"
  shows "branch_ok n lv lv'"
  using op_annotation_updated_cases [OF assms]
proof (elim disjE exE conjE)
  assume "lv' = lv"
  then show ?thesis by (simp add: branch_ok_refl [OF inv])
next
  fix incoming a fv
  assume val: "validate_annotation (obj_get op ''annotation'') True = Inr incoming"
    and a: "find_annotation lv (annotation_id incoming) = Some a"
    and ty: "json_eq (obj_get (lv_heap lv a) ''type'') (obj_get incoming ''type'')"
    and fv: "field_versions_of (lv_heap lv a) = Some fv"
    and lv': "lv' = heap_set lv a (merged (lv_heap lv a) incoming fv (changed_fields incoming (lv_heap lv a))
         (ver (lv_heap lv a) + 1) (ev_annotation_time env))"
  note f = find_annotation_some [OF a]
  note ok = validate_annotation_ok [OF val py_json_get [OF op]]
  have old: "ann_valid (lv_heap lv a)" using inv f(1) by (auto simp: ann_inv_def)
  obtain t where t: "obj_get incoming ''type'' = JStr t" "obj_get incoming ''kind'' = JStr t" using ok(2) by blast
  have same: "obj_get (lv_heap lv a) ''type'' = JStr t" using ty t old by (auto simp: ann_valid_def)
  obtain i where "obj_get incoming ''id'' = JStr i" using ok(3) by blast
  then have i: "obj_get incoming ''id'' = obj_get (lv_heap lv a) ''id''" using f(2) by (simp add: annotation_id_def)
  from ann_effect_update [OF inv f(1) merged_valid [OF old ok(1) t same i fv]]
  show ?thesis unfolding lv' by (simp add: branch_ok_def)
qed

lemma op_annotation_deleted_ok:
  assumes inv: "ann_inv lv" and r: "op_annotation_deleted lv op = (out, lv')"
  shows "branch_ok n lv lv'"
proof (cases "if truthy (obj_get op ''annotation_id'') then obj_get op ''annotation_id'' else obj_get op ''id''")
  case (JStr i)
  have "lv' = (set_canvas lv ((lv_canvas lv)\<lparr>cv_annotations :=
      filter (\<lambda>a. obj_get (lv_heap lv a) ''id'' \<noteq> JStr i) (cv_annotations (lv_canvas lv))\<rparr>))
      \<lparr>lv_session := (lv_session lv)\<lparr>se_state := (lv_canvas lv)\<lparr>cv_annotations :=
        filter (\<lambda>a. obj_get (lv_heap lv a) ''id'' \<noteq> JStr i) (cv_annotations (lv_canvas lv))\<rparr>,
        se_deleted_annotation_ids := bounded_append DELETED_IDS_MAX (se_deleted_annotation_ids (lv_session lv)) i\<rparr>\<rparr>"
    using r by (simp add: op_annotation_deleted_def JStr Let_def)
  moreover have "length (bounded_append DELETED_IDS_MAX xs i) \<le> DELETED_IDS_MAX" for xs :: "string list"
    by (simp add: bounded_append_def)
  moreover have "length (filter P xs) \<le> k" if "length xs \<le> k" for P k and xs :: "nat list"
    using that by (meson length_filter_le order_trans)
  ultimately show ?thesis
    using inv by (auto simp: branch_ok_def ann_effect_def ann_inv_def canvas_ok_def)
qed (use r inv in \<open>auto simp: op_annotation_deleted_def branch_ok_refl\<close>)

lemma op_group_membership_changed_ok:
  assumes inv: "ann_inv lv" and r: "op_group_membership_changed env lv op = (out, lv')"
  shows "branch_ok n lv lv'"
proof (cases "lv' = lv")
  case True
  then show ?thesis by (simp add: branch_ok_refl [OF inv])
next
  case False
  then obtain g a ms where f: "find (\<lambda>a. obj_get (lv_heap lv a) ''id'' = JStr g \<and>
        raw_type (lv_heap lv a) = JStr ''group'') (cv_annotations (lv_canvas lv)) = Some a"
    and lv': "lv' = heap_set lv a (dict_set (dict_set (lv_heap lv a) ''member_node_ids'' (jids ms))
       ''updated_at'' (JStr (ev_annotation_time env)))"
    using r by (auto simp: op_group_membership_changed_def split: json.splits sum.splits option.splits)
  from f have a: "a \<in> set (cv_annotations (lv_canvas lv))" by (auto simp: find_Some_iff)
  have "ann_valid (lv_heap lv a)" using inv a by (auto simp: ann_inv_def)
  then have "ann_valid (dict_set (dict_set (lv_heap lv a) ''member_node_ids'' (jids ms)) ''updated_at'' (JStr (ev_annotation_time env)))"
    "ann_grows (lv_heap lv a) (dict_set (dict_set (lv_heap lv a) ''member_node_ids'' (jids ms)) ''updated_at'' (JStr (ev_annotation_time env)))"
    by (auto intro!: ann_set_member ann_grows_trans [OF ann_set_member(2) ann_set_member(2)] simp: bookkeeping_def)
  from ann_effect_update [OF inv a this] show ?thesis unfolding lv' by (simp add: branch_ok_def)
qed

lemma state_op_branch_ok:
  assumes "ann_inv lv" and "py_json (JObj op)" and "fresh_id lv env"
    and "state_op_branch cfg env tr lv op t = (out, lv')"
  shows "branch_ok (sto_max_annotations cfg) lv lv'"
  using assms(4) unfolding state_op_branch_def
  by (auto split: if_splits intro: ids_branches_ok [OF assms(1)] value_branches_ok [OF assms(1)]
      op_session_renamed_ok [OF assms(1)] op_layout_applied_ok [OF assms(1) _ assms(2)]
      op_nodes_removed_ok [OF assms(1)] op_annotation_created_ok [OF assms(1) _ assms(2,3)]
      op_annotation_updated_ok [OF assms(1) _ assms(2)] op_annotation_deleted_ok [OF assms(1)]
      op_group_membership_changed_ok [OF assms(1)])

section \<open>The ring and the log\<close>

definition ap_seq :: "applied_op \<Rightarrow> int" where
  "ap_seq ap = (case obj_get (ap_fields ap) ''seq'' of JInt n \<Rightarrow> n | _ \<Rightarrow> 0)"

definition ring_inv :: "nat \<Rightarrow> live \<Rightarrow> bool" where
  "ring_inv n lv \<longleftrightarrow> length (lv_ring lv) \<le> n \<and>
     map ap_seq (lv_ring lv) = [se_seq (lv_session lv) - int (length (lv_ring lv)) + 1..se_seq (lv_session lv)]"

definition log_inv :: "int \<Rightarrow> live \<Rightarrow> bool" where
  "log_inv n lv \<longleftrightarrow> (0 < n \<longrightarrow> int (length (se_activity_log (lv_session lv))) \<le> n)"

definition live_inv :: "store_config \<Rightarrow> live \<Rightarrow> bool" where
  "live_inv cfg lv \<longleftrightarrow> ann_inv lv \<and> canvas_ok (sto_max_annotations cfg) (lv_canvas lv) \<and>
     ring_inv (sto_ring_size cfg) lv \<and> log_inv (sto_max_activity_records cfg) lv \<and>
     length (se_deleted_annotation_ids (lv_session lv)) \<le> DELETED_IDS_MAX"

lemma drop_upto: "drop k [a..b] = [a + int k..b]"
proof (induction k arbitrary: a)
  case (Suc k)
  show ?case
  proof (cases "a \<le> b")
    case True
    then have "[a..b] = a # [a + 1..b]" by (rule upto_rec1)
    then show ?thesis using Suc [of "a + 1"] by (simp add: algebra_simps)
  qed simp
qed simp

lemma prune_length:
  "0 < n \<Longrightarrow> int (length (prune_activity_log rs n d now)) \<le> n"
  by (simp add: prune_activity_log_def Let_def)

lemma commit_fields:
  assumes "commit_op cfg env rec t op applied ann aa lv = (ap, lv')"
  shows "ap_seq ap = se_seq (lv_session lv) + 1"
    and "lv_heap lv' = lv_heap lv" and "lv_next lv' = lv_next lv" and "lv_canvas lv' = lv_canvas lv"
    and "se_seq (lv_session lv') = se_seq (lv_session lv) + 1"
    and "se_id (lv_session lv') = se_id (lv_session lv)"
    and "se_name (lv_session lv') = se_name (lv_session lv)"
    and "se_deleted_annotation_ids (lv_session lv') = se_deleted_annotation_ids (lv_session lv)"
    and "lv_ring lv' = bounded_append (sto_ring_size cfg) (lv_ring lv) ap"
    and "ap_annotation ap = ann"
  using assms by (auto simp: commit_op_def Let_def ap_seq_def)

lemma commit_log:
  assumes "commit_op cfg env rec t op applied ann aa lv = (ap, lv')"
  shows "log_inv (sto_max_activity_records cfg) lv \<Longrightarrow> log_inv (sto_max_activity_records cfg) lv'"
  using assms prune_length
  by (auto simp: commit_op_def Let_def log_inv_def split: option.splits json.splits list.splits if_splits)

lemma ring_append:
  assumes "ring_inv n lv" and "ap_seq ap = se_seq (lv_session lv) + 1"
    and "lv_ring lv' = bounded_append n (lv_ring lv) ap" and "se_seq (lv_session lv') = se_seq (lv_session lv) + 1"
  shows "ring_inv n lv'"
proof -
  let ?r = "lv_ring lv" and ?s = "se_seq (lv_session lv)"
  have "map ap_seq (?r @ [ap]) = [?s - int (length ?r) + 1..?s + 1]"
    using assms(1,2) by (simp add: ring_inv_def upto_rec2)
  then have m: "map ap_seq (lv_ring lv') = [?s - int (length ?r) + 1 + int (length ?r + 1 - n)..?s + 1]"
    unfolding assms(3) bounded_append_def drop_map [symmetric] drop_upto [symmetric] by (rule arg_cong)
  have "length ?r \<le> n" using assms(1) by (simp add: ring_inv_def)
  moreover have "length (lv_ring lv') = length ?r + 1 - (length ?r + 1 - n)"
    unfolding assms(3) bounded_append_def length_drop by simp
  ultimately have le: "length (lv_ring lv') \<le> n"
    and first: "?s - int (length ?r) + 1 + int (length ?r + 1 - n) = ?s + 1 - int (length (lv_ring lv')) + 1"
    by simp_all
  show ?thesis unfolding ring_inv_def assms(4) using le m [unfolded first] by (rule conjI)
qed

lemma ann_inv_cong:
  "lv_heap lv' = lv_heap lv \<Longrightarrow> lv_next lv' = lv_next lv \<Longrightarrow> lv_canvas lv' = lv_canvas lv \<Longrightarrow>
   ann_inv lv' = ann_inv lv"
  by (simp add: ann_inv_def ann_ids_def)

text \<open>The cases of \<open>apply_state_op\<close>.\<close>

lemma apply_state_op_cases:
  assumes "apply_state_op cfg env rec tr lv op = (r, lv')"
  shows "(\<exists>e. r = Inl e \<and> lv' = lv) \<or>
    (\<exists>t out lv1. obj_get op ''op'' = JStr t \<and> t \<in> set STATE_OPS \<and>
       state_op_branch cfg env tr lv op t = (out, lv1) \<and>
       ((\<exists>e. out = Raise e \<and> r = Inl e \<and> lv' = lv1) \<or> (out = Dropped \<and> r = Inr None \<and> lv' = lv1) \<or>
        (\<exists>f a k ap. out = Changed f a k \<and> commit_op cfg env rec t op f a k lv1 = (ap, lv') \<and> r = Inr (Some ap))))"
proof (cases "\<exists>t. obj_get op ''op'' = JStr t \<and> t \<in> set STATE_OPS")
  case True
  then obtain t where t: "obj_get op ''op'' = JStr t" "t \<in> set STATE_OPS" by blast
  obtain out lv1 where b: "state_op_branch cfg env tr lv op t = (out, lv1)" by fastforce
  show ?thesis
  proof (cases out)
    case (Changed f a k)
    obtain ap lv2 where "commit_op cfg env rec t op f a k lv1 = (ap, lv2)" by fastforce
    then show ?thesis using assms t b Changed by (auto simp: apply_state_op_def)
  qed (use assms t b in \<open>auto simp: apply_state_op_def\<close>)
next
  case False
  then show ?thesis using assms by (auto simp: apply_state_op_def split: json.splits if_splits)
qed

lemma apply_state_op_effect:
  assumes "ann_inv lv" and "py_json (JObj op)" and "fresh_id lv env"
    and r: "apply_state_op cfg env rec tr lv op = (r, lv')"
  shows "ann_effect lv lv'"
  using apply_state_op_cases [OF r]
proof (elim disjE exE conjE)
  fix e assume "lv' = lv"
  then show ?thesis using branch_ok_refl [OF assms(1)] by (simp add: branch_ok_def)
next
  fix t out lv1 f a k ap
  assume b: "state_op_branch cfg env tr lv op t = (out, lv1)"
    and c: "commit_op cfg env rec t op f a k lv1 = (ap, lv')"
  have "ann_effect lv lv1" using state_op_branch_ok [OF assms(1-3) b] by (simp add: branch_ok_def)
  then show ?thesis using commit_fields [OF c] by (simp add: ann_effect_def)
qed (use state_op_branch_ok [OF assms(1-3)] in \<open>auto simp: branch_ok_def\<close>)

lemma live_inv_branch:
  "live_inv cfg lv \<Longrightarrow> branch_ok (sto_max_annotations cfg) lv lv' \<Longrightarrow> live_inv cfg lv'"
  by (simp add: live_inv_def branch_ok_def ring_inv_def log_inv_def) (metis ann_effect_inv)

lemma live_inv_commit:
  assumes "live_inv cfg lv" and c: "commit_op cfg env rec t op f a k lv = (ap, lv')"
  shows "live_inv cfg lv'"
  using assms(1) commit_fields [OF c] commit_log [OF c]
    ring_append [of "sto_ring_size cfg" lv ap lv'] ann_inv_cong [of lv' lv]
  by (simp add: live_inv_def)

lemma live_inv_apply:
  assumes "live_inv cfg lv" and "py_json (JObj op)" and "fresh_id lv env"
    and r: "apply_state_op cfg env rec tr lv op = (r, lv')"
  shows "live_inv cfg lv'"
proof -
  have inv: "ann_inv lv" using assms(1) by (simp add: live_inv_def)
  from apply_state_op_cases [OF r] show ?thesis
  proof (elim disjE exE conjE)
    fix t out lv1 f a k ap
    assume b: "state_op_branch cfg env tr lv op t = (out, lv1)"
      and c: "commit_op cfg env rec t op f a k lv1 = (ap, lv')"
    from live_inv_branch [OF assms(1) state_op_branch_ok [OF inv assms(2,3) b]] c
    show ?thesis by (rule live_inv_commit)
  qed (use assms(1) live_inv_branch [OF assms(1) state_op_branch_ok [OF inv assms(2,3)]] in auto)
qed

end
