(* ===== verification/SessionRuns.thy ===== *)
theory SessionRuns
  imports SessionInv
begin

text \<open>
  Runs of state ops on a session: the catch-up of a client (\<open>ops_since\<close> of
  \<open>backend/core/session_store.py\<close>), and the lemmas on what a run keeps, what it appends to
  the ring and what it never takes back.
\<close>

section \<open>Catch-up\<close>

definition ops_since :: "live \<Rightarrow> int \<Rightarrow> applied_op list option" where
  "ops_since lv since_seq =
     (if se_seq (lv_session lv) \<le> since_seq then Some []
      else case lv_ring lv of
        [] \<Rightarrow> None
      | oldest # _ \<Rightarrow>
          if since_seq + 1 < ap_seq oldest then None
          else Some (filter (\<lambda>ap. since_seq < ap_seq ap) (lv_ring lv)))"

section \<open>Runs of ops\<close>

type_synonym op_step = "op_env \<times> bool \<times> bool \<times> json_obj"

definition new_live :: "string \<Rightarrow> string option \<Rightarrow> string \<Rightarrow> live" where
  "new_live i name now =
     \<lparr>lv_session = new_session i name now, lv_ring = [], lv_heap = (\<lambda>_. []), lv_next = 0\<rparr>"

fun run_ops :: "store_config \<Rightarrow> live \<Rightarrow> op_step list \<Rightarrow> live" where
  "run_ops cfg lv [] = lv"
| "run_ops cfg lv ((env, rec, tr, op) # ss) = run_ops cfg (snd (apply_state_op cfg env rec tr lv op)) ss"

text \<open>The applied ops of a run, as the broadcast carries them.\<close>

fun applied_of :: "op_error + applied_op option \<Rightarrow> applied_op list" where
  "applied_of (Inr (Some ap)) = [ap]"
| "applied_of r = []"

fun run_applied :: "store_config \<Rightarrow> live \<Rightarrow> op_step list \<Rightarrow> applied_op list" where
  "run_applied cfg lv [] = []"
| "run_applied cfg lv ((env, rec, tr, op) # ss) =
     (case apply_state_op cfg env rec tr lv op of (r, lv') \<Rightarrow> applied_of r @ run_applied cfg lv' ss)"

text \<open>
  Ops as JSON decodes them, and annotation ids from \<open>secrets\<close> that are not in use.
\<close>

fun ok_steps :: "store_config \<Rightarrow> live \<Rightarrow> op_step list \<Rightarrow> bool" where
  "ok_steps cfg lv [] = True"
| "ok_steps cfg lv ((env, rec, tr, op) # ss) =
     (py_json (JObj op) \<and> fresh_id lv env \<and> ok_steps cfg (snd (apply_state_op cfg env rec tr lv op)) ss)"

lemma new_live_inv: "live_inv cfg (new_live i name now)"
  by (simp add: live_inv_def new_live_def new_session_def empty_state_def ann_inv_def ann_ids_def
      canvas_ok_def ring_inv_def log_inv_def)

lemma live_inv_run:
  assumes "live_inv cfg lv" and "ok_steps cfg lv ss"
  shows "live_inv cfg (run_ops cfg lv ss)"
  using assms
proof (induction ss arbitrary: lv)
  case (Cons s ss)
  obtain env rec tr op where s: "s = (env, rec, tr, op)" by (cases s)
  have "live_inv cfg (snd (apply_state_op cfg env rec tr lv op))"
    by (rule live_inv_apply [OF Cons.prems(1) _ _ surjective_pairing]) (use Cons.prems(2) in \<open>simp_all add: s\<close>)
  then show ?case using Cons by (simp add: s)
qed simp

section \<open>Refused ops\<close>

lemma merge_annotation_valid:
  assumes "ann_valid (lv_heap lv a)"
  shows "fst (merge_annotation lv a incoming fv changed now) = None"
  using next_version_valid [OF assms] by (simp add: merge_annotation_def Let_def)

lemma upsert_existing_raise:
  assumes "ann_valid (lv_heap lv a)" and "upsert_existing env lv op annotation i a = (out, lv')"
    and "\<forall>f b k. out \<noteq> Changed f b k"
  shows "lv' = lv"
  using assms(2,3) merge_annotation_valid [OF assms(1)]
  by (auto simp: upsert_existing_def Let_def split: if_splits option.splits prod.splits)
     (metis fst_conv option.distinct(1))

lemma drop_from_groups_raise:
  "drop_from_groups rs as lv = (Some e, lv') \<Longrightarrow> e = PyError"
  by (induction rs as lv rule: drop_from_groups.induct)
    (auto simp: drop_members_def split: json.splits if_splits)

text \<open>A branch that does not change the document, a \<open>TypeError\<close> of the group clean-up aside.\<close>

lemma branch_unchanged:
  assumes inv: "ann_inv lv" and op: "py_json (JObj op)"
    and r: "state_op_branch cfg env tr lv op t = (out, lv')"
    and out: "\<forall>f a k. out \<noteq> Changed f a k" "out \<noteq> Raise PyError"
  shows "lv' = lv"
proof -
  have created: "lv' = lv" if c: "op_annotation_created n env tr lv op = (out, lv')" for n
  proof -
    have "ann_valid (lv_heap lv a)" if "find_annotation lv i = Some a" for i a
      using inv find_annotation_some(1) [OF that] by (simp add: ann_inv_def)
    moreover have "lv' = lv" if "insert_annotation n env lv op ann = (out, lv')" for ann
      using that out by (auto simp: insert_annotation_def Let_def split: if_splits)
    ultimately show ?thesis
      using op_annotation_created_cases [OF c] upsert_existing_raise [OF _ _ out(1)] by blast
  qed
  have updated: "lv' = lv" if "op_annotation_updated env tr lv op = (out, lv')"
    using op_annotation_updated_cases [OF inv that op] out by auto
  have removed: "lv' = lv" if "op_nodes_removed lv op = (out, lv')"
    using that out drop_from_groups_raise
    by (auto simp: op_nodes_removed_def split: sum.splits prod.splits option.splits)
  show ?thesis
    using r out created updated removed unfolding state_op_branch_def
    by (auto simp: op_defs op_annotation_deleted_def op_group_membership_changed_def Let_def
        split: if_splits sum.splits json.splits option.splits)
qed

section \<open>Catch-up is exact\<close>

lemma apply_applied:
  assumes "apply_state_op cfg env rec tr lv op = (r, lv')" and "live_inv cfg lv" and "py_json (JObj op)"
    and "fresh_id lv env"
  shows "(applied_of r = [] \<and> lv_ring lv' = lv_ring lv \<and> se_seq (lv_session lv') = se_seq (lv_session lv)) \<or>
    (\<exists>ap. applied_of r = [ap] \<and> ap_seq ap = se_seq (lv_session lv) + 1 \<and>
       lv_ring lv' = bounded_append (sto_ring_size cfg) (lv_ring lv) ap \<and>
       se_seq (lv_session lv') = se_seq (lv_session lv) + 1)"
proof -
  have inv: "ann_inv lv" using assms(2) by (simp add: live_inv_def)
  note ok = state_op_branch_ok [OF inv assms(3,4), where cfg = cfg]
  from apply_state_op_cases [OF assms(1)] show ?thesis
  proof (elim disjE exE conjE)
    fix t out lv1 f a k ap
    assume "state_op_branch cfg env tr lv op t = (out, lv1)" "commit_op cfg env rec t op f a k lv1 = (ap, lv')"
      "r = Inr (Some ap)"
    then show ?thesis using ok [of tr t out lv1] commit_fields [of cfg env rec t op f a k lv1 ap lv']
      by (auto simp: branch_ok_def)
  qed (use ok in \<open>auto simp: branch_ok_def\<close>)
qed

definition lastn :: "nat \<Rightarrow> 'a list \<Rightarrow> 'a list" where
  "lastn n xs = drop (length xs - n) xs"

lemma lastn_short [simp]: "length xs \<le> n \<Longrightarrow> lastn n xs = xs"
  by (simp add: lastn_def)

lemma bounded_append_lastn: "bounded_append n xs x = lastn n (xs @ [x])"
  by (simp add: bounded_append_def lastn_def)

lemma lastn_lastn: "lastn n (lastn n xs @ ys) = lastn n (xs @ ys)"
proof (cases "length xs \<le> n")
  case False
  then have l: "length (drop (length xs - n) xs) = n" by simp
  have "lastn n (lastn n xs @ ys) = drop (length ys) (drop (length xs - n) xs @ ys)"
    using l by (simp add: lastn_def)
  also have "drop (length xs - n) xs @ ys = drop (length xs - n) (xs @ ys)" by simp
  also have "drop (length ys) (drop (length xs - n) (xs @ ys)) = lastn n (xs @ ys)"
    using False by (simp add: lastn_def del: drop_append) (simp add: add.commute)
  finally show ?thesis .
qed simp

text \<open>A run appends its applied ops to the sequence the ring is the end of.\<close>

lemma run_ring:
  assumes "live_inv cfg lv" and "ok_steps cfg lv ss"
  shows "lv_ring (run_ops cfg lv ss) = lastn (sto_ring_size cfg) (lv_ring lv @ run_applied cfg lv ss) \<and>
    se_seq (lv_session (run_ops cfg lv ss)) = se_seq (lv_session lv) + int (length (run_applied cfg lv ss)) \<and>
    map ap_seq (run_applied cfg lv ss) =
      [se_seq (lv_session lv) + 1..se_seq (lv_session lv) + int (length (run_applied cfg lv ss))]"
  using assms
proof (induction ss arbitrary: lv)
  case Nil
  then show ?case by (simp add: live_inv_def ring_inv_def)
next
  case (Cons s ss)
  obtain env rec tr op where s: "s = (env, rec, tr, op)" by (cases s)
  obtain r lv1 where r: "apply_state_op cfg env rec tr lv op = (r, lv1)" by fastforce
  have ok: "py_json (JObj op)" "fresh_id lv env" "ok_steps cfg lv1 ss"
    using Cons.prems(2) by (simp_all add: s r)
  note IH = Cons.IH [OF live_inv_apply [OF Cons.prems(1) ok(1,2) r] ok(3)]
  from apply_applied [OF r Cons.prems(1) ok(1,2)] show ?case
  proof (elim disjE exE conjE)
    assume "applied_of r = []" "lv_ring lv1 = lv_ring lv" "se_seq (lv_session lv1) = se_seq (lv_session lv)"
    then show ?thesis using IH by (simp add: s r)
  next
    fix ap
    assume ap: "applied_of r = [ap]" "ap_seq ap = se_seq (lv_session lv) + 1"
      "lv_ring lv1 = bounded_append (sto_ring_size cfg) (lv_ring lv) ap"
      "se_seq (lv_session lv1) = se_seq (lv_session lv) + 1"
    let ?n = "length (run_applied cfg lv1 ss)" and ?q = "se_seq (lv_session lv)"
    have up: "[?q + 1..?q + 1 + int ?n] = (?q + 1) # [?q + 1 + 1..?q + 1 + int ?n]"
      by (rule upto_rec1) simp
    have "map ap_seq (run_applied cfg lv1 ss) = [?q + 1 + 1..?q + 1 + int ?n]"
      using IH by (simp add: ap(4))
    then show ?thesis
      using IH up by (simp add: s r ap bounded_append_lastn lastn_lastn add.assoc [symmetric])
  qed
qed

section \<open>Field versions\<close>

text \<open>An annotation object that is there at both ends of a run was there throughout, and only grew.\<close>

lemma run_next: "live_inv cfg lv \<Longrightarrow> ok_steps cfg lv ss \<Longrightarrow> lv_next lv \<le> lv_next (run_ops cfg lv ss)"
proof (induction ss arbitrary: lv)
  case (Cons s ss)
  obtain env rec tr op where s: "s = (env, rec, tr, op)" by (cases s)
  obtain r lv1 where r: "apply_state_op cfg env rec tr lv op = (r, lv1)" by fastforce
  have ok: "py_json (JObj op)" "fresh_id lv env" "ok_steps cfg lv1 ss"
    using Cons.prems(2) by (simp_all add: s r)
  have inv: "ann_inv lv" using Cons.prems(1) by (simp add: live_inv_def)
  have "lv_next lv \<le> lv_next lv1"
    using apply_state_op_effect [OF inv ok(1,2) r] by (simp add: ann_effect_def)
  then show ?case
    using Cons.IH [OF live_inv_apply [OF Cons.prems(1) ok(1,2) r] ok(3)] by (simp add: s r)
qed simp

lemma run_grows:
  assumes "live_inv cfg lv" and "ok_steps cfg lv ss"
    and "a \<in> set (cv_annotations (lv_canvas (run_ops cfg lv ss)))" and "a < lv_next lv"
  shows "a \<in> set (cv_annotations (lv_canvas lv)) \<and> ann_grows (lv_heap lv a) (lv_heap (run_ops cfg lv ss) a)"
  using assms
proof (induction ss arbitrary: lv)
  case (Cons s ss)
  obtain env rec tr op where s: "s = (env, rec, tr, op)" by (cases s)
  obtain r lv1 where r: "apply_state_op cfg env rec tr lv op = (r, lv1)" by fastforce
  have ok: "py_json (JObj op)" "fresh_id lv env" "ok_steps cfg lv1 ss"
    using Cons.prems(2) by (simp_all add: s r)
  have inv: "ann_inv lv" using Cons.prems(1) by (simp add: live_inv_def)
  note eff = apply_state_op_effect [OF inv ok(1,2) r]
  have "a < lv_next lv1" using eff Cons.prems(4) by (simp add: ann_effect_def)
  then have IH: "a \<in> set (cv_annotations (lv_canvas lv1))" "ann_grows (lv_heap lv1 a) (lv_heap (run_ops cfg lv1 ss) a)"
    using Cons.IH [OF live_inv_apply [OF Cons.prems(1) ok(1,2) r] ok(3)] Cons.prems(3) by (simp_all add: s r)
  have alive: "a \<in> set (cv_annotations (lv_canvas lv))" by (rule alive_before [OF eff IH(1) Cons.prems(4)])
  then have "ann_grows (lv_heap lv a) (lv_heap lv1 a)" using eff by (simp add: ann_effect_def)
  then show ?case using alive ann_grows_trans [OF _ IH(2)] by (simp add: s r)
qed simp

lemma apply_updated:
  assumes "obj_get op ''op'' = JStr ''annotation_updated''"
    and "op_annotation_updated env tr lv op = (out, lv1)"
  shows "apply_state_op cfg env rec tr lv op =
    (case out of Raise e \<Rightarrow> (Inl e, lv1) | Dropped \<Rightarrow> (Inr None, lv1)
     | Changed f a k \<Rightarrow> (case commit_op cfg env rec ''annotation_updated'' op f a k lv1 of (ap, lv) \<Rightarrow> (Inr (Some ap), lv)))"
  using assms by (simp add: apply_state_op_def state_op_branch_def STATE_OPS_def split: outcome.split)

text \<open>An accepted update raises the field versions of what it changes above every version read before.\<close>

lemma update_raises_version:
  assumes inv: "ann_inv lv" and op: "py_json (JObj op)" "obj_get op ''op'' = JStr ''annotation_updated''"
    and r: "apply_state_op cfg env rec tr lv op = (Inr (Some ap), lv1)"
    and val: "validate_annotation (obj_get op ''annotation'') True = Inr patch"
    and a: "find_annotation lv (annotation_id patch) = Some a"
    and f: "f \<in> set (changed_fields patch (lv_heap lv a))"
  shows "fver (lv_heap lv1 a) f = ver (lv_heap lv a) + 1" and "lv_next lv1 = lv_next lv"
proof -
  obtain out lv2 where u: "op_annotation_updated env tr lv op = (out, lv2)" by fastforce
  obtain g b k where out: "out = Changed g b k"
    using r unfolding apply_updated [OF op(2) u] by (cases out) auto
  have c: "\<exists>ap. commit_op cfg env rec ''annotation_updated'' op g b k lv2 = (ap, lv1)"
    using r unfolding apply_updated [OF op(2) u] out by (auto split: prod.splits)
  have lv2: "lv2 = heap_set lv a (merged (lv_heap lv a) patch fv (changed_fields patch (lv_heap lv a))
         (ver (lv_heap lv a) + 1) (ev_annotation_time env))"
    if "field_versions_of (lv_heap lv a) = Some fv" for fv
    using op_annotation_updated_cases [OF inv u op(1)] out val a that by auto
  have "ann_valid (lv_heap lv a)" using inv find_annotation_some(1) [OF a] by (simp add: ann_inv_def)
  then obtain fv where fv: "field_versions_of (lv_heap lv a) = Some fv" using field_versions_valid by blast
  from c obtain ap2 where c2: "commit_op cfg env rec ''annotation_updated'' op g b k lv2 = (ap2, lv1)" by blast
  have "lv_heap lv1 = lv_heap lv2" "lv_next lv1 = lv_next lv2" by (rule commit_fields [OF c2])+
  then show "fver (lv_heap lv1 a) f = ver (lv_heap lv a) + 1" and "lv_next lv1 = lv_next lv"
    using f unfolding lv2 [OF fv] by (simp_all add: merged_fver)
qed

lemma field_conflicts_some:
  assumes "ann_valid d" and fv: "field_versions_of d = Some fv"
    and "f \<in> set changed" and "base < fver d f"
  shows "\<exists>c cs. field_conflicts fv changed base = Inr (c # cs) \<and> f \<in> fst ` set (c # cs)"
proof -
  have fver: "fver d g = (case map_of fv g of Some (JInt n) \<Rightarrow> n | _ \<Rightarrow> 1)"
    and ints: "map_of fv g = Some w \<Longrightarrow> \<exists>n. w = JInt n" for g w
    using field_versions_valid [OF assms(1)] fv by (simp, fastforce simp: field_versions_valid [OF assms(1)])
  have num: "json_num (get_default fv g (JInt INITIAL_ANNOTATION_VERSION)) = Some (of_int (fver d g))" for g
    using ints [of g] by (cases "map_of fv g") (auto simp: get_default_def INITIAL_ANNOTATION_VERSION_def fver)
  let ?cs = "map (\<lambda>g. (g, get_default fv g (JInt INITIAL_ANNOTATION_VERSION)))
      (filter (\<lambda>g. of_int base < the (json_num (get_default fv g (JInt INITIAL_ANNOTATION_VERSION)))) changed)"
  have "field_conflicts fv changed base = Inr ?cs" by (simp add: field_conflicts_def Let_def num list_all_iff)
  moreover have "f \<in> fst ` set ?cs" using assms(3,4) by (force simp: num)
  ultimately show ?thesis by (cases ?cs) auto
qed

section \<open>Deleted annotations\<close>

text \<open>The ids a session remembers, newest first, and the place of one of them.\<close>

definition remembered :: "nat \<Rightarrow> string \<Rightarrow> live \<Rightarrow> bool" where
  "remembered m i lv \<longleftrightarrow> i \<in> set (lastn (m + 1) (se_deleted_annotation_ids (lv_session lv)))"

definition is_delete :: "json_obj \<Rightarrow> bool" where
  "is_delete op \<longleftrightarrow> obj_get op ''op'' = JStr ''annotation_deleted''"

lemma lastn_append: "set (lastn m xs) \<subseteq> set (lastn (m + length ys) (xs @ ys))"
  by (simp add: lastn_def)

lemma set_lastn_mono: "m \<le> n \<Longrightarrow> set (lastn m xs) \<subseteq> set (lastn n xs)"
  by (simp add: lastn_def set_drop_subset_set_drop)

lemma lastn_of_lastn: "m \<le> n \<Longrightarrow> lastn m (lastn n xs) = lastn m xs"
  by (cases "length xs \<le> n") (auto simp: lastn_def)

lemma remembered_append:
  assumes "i \<in> set (lastn (m + 1) xs)" and "m + 2 \<le> n"
  shows "i \<in> set (lastn (m + 2) (bounded_append n xs y))"
  using assms lastn_append [of "m + 1" xs "[y]"] by (auto simp: bounded_append_lastn lastn_of_lastn)

lemma upsert_existing_frame:
  assumes "upsert_existing env lv op annotation i a = (out, lv')"
  shows "lv_session lv' = lv_session lv" and "lv_next lv' = lv_next lv"
  using assms by (auto simp: upsert_existing_def merge_annotation_def Let_def
      split: if_splits option.splits prod.splits)

text \<open>Only a deletion changes the remembered ids; a create of a remembered id is dropped.\<close>

lemma drop_from_groups_frame:
  "lv_session (snd (drop_from_groups rs as lv)) = lv_session lv \<and>
   lv_next (snd (drop_from_groups rs as lv)) = lv_next lv"
  by (induction rs as lv rule: drop_from_groups.induct) (auto split: json.splits sum.splits)

definition same_frame :: "live \<Rightarrow> live \<Rightarrow> bool" where
  "same_frame lv lv' \<longleftrightarrow> lv_next lv' = lv_next lv \<and>
     se_deleted_annotation_ids (lv_session lv') = se_deleted_annotation_ids (lv_session lv)"

lemma value_frames:
  "op_nodes_added lv op = (out, lv') \<Longrightarrow> same_frame lv lv'"
  "op_node_moved lv op = (out, lv') \<Longrightarrow> same_frame lv lv'"
  "op_nodes_hidden lv op = (out, lv') \<Longrightarrow> same_frame lv lv'"
  "op_nodes_shown lv op = (out, lv') \<Longrightarrow> same_frame lv lv'"
  "op_nodes_dimmed lv op = (out, lv') \<Longrightarrow> same_frame lv lv'"
  "op_nodes_undimmed lv op = (out, lv') \<Longrightarrow> same_frame lv lv'"
  "op_edges_payload lv op = (out, lv') \<Longrightarrow> same_frame lv lv'"
  "op_edges_removed lv op = (out, lv') \<Longrightarrow> same_frame lv lv'"
  "op_edges_hidden lv op = (out, lv') \<Longrightarrow> same_frame lv lv'"
  "op_edges_shown lv op = (out, lv') \<Longrightarrow> same_frame lv lv'"
  "op_edges_dimmed lv op = (out, lv') \<Longrightarrow> same_frame lv lv'"
  "op_edges_undimmed lv op = (out, lv') \<Longrightarrow> same_frame lv lv'"
  "op_edge_intensity_set lv op = (out, lv') \<Longrightarrow> same_frame lv lv'"
  "op_session_renamed lv op = (out, lv') \<Longrightarrow> same_frame lv lv'"
  "op_layout_applied lv op = (out, lv') \<Longrightarrow> same_frame lv lv'"
  "op_group_membership_changed env lv op = (out, lv') \<Longrightarrow> same_frame lv lv'"
  by (auto simp: op_defs op_group_membership_changed_def Let_def same_frame_def
      split: sum.splits if_splits json.splits option.splits)

lemma op_nodes_removed_frame:
  assumes "op_nodes_removed lv op = (out, lv')"
  shows "same_frame lv lv'"
proof (cases "require_id_list op ''node_ids''")
  case (Inr rs)
  then show ?thesis
    using op_nodes_removed_state [OF Inr, of lv] assms drop_from_groups_frame by (simp add: same_frame_def)
qed (use assms in \<open>auto simp: op_nodes_removed_def same_frame_def\<close>)

lemma op_annotation_updated_frame:
  assumes "op_annotation_updated env tr lv op = (out, lv')" and "ann_inv lv" and "py_json (JObj op)"
  shows "same_frame lv lv'"
  using op_annotation_updated_cases [OF assms(2,1,3)] by (auto simp: same_frame_def)

lemma op_annotation_deleted_frame:
  assumes "op_annotation_deleted lv op = (out, lv')"
  shows "lv_next lv' = lv_next lv" and "\<exists>i. se_deleted_annotation_ids (lv_session lv') =
      bounded_append DELETED_IDS_MAX (se_deleted_annotation_ids (lv_session lv)) i \<or> same_frame lv lv'"
  using assms by (auto simp: op_annotation_deleted_def Let_def same_frame_def split: json.splits if_splits)

lemma branch_frame:
  assumes r: "state_op_branch cfg env tr lv op t = (out, lv')" and inv: "ann_inv lv" and op: "py_json (JObj op)"
    and t: "t \<noteq> ''annotation_created''" "t \<noteq> ''annotation_deleted''"
  shows "same_frame lv lv'"
  using r t unfolding state_op_branch_def
  by (auto split: if_splits intro: value_frames op_nodes_removed_frame op_annotation_updated_frame [OF _ inv op])

lemma insert_annotation_ids:
  assumes "insert_annotation n env lv op ann = (out, lv')"
  shows "se_deleted_annotation_ids (lv_session lv') = se_deleted_annotation_ids (lv_session lv)"
    and "lv_next lv' = lv_next lv + 1 \<Longrightarrow> lv_heap lv' (lv_next lv) = new_annotation env op ann"
  using assms by (auto simp: insert_annotation_def Let_def split: if_splits)

lemma effect_ids:
  assumes "ann_effect lv lv'"
  shows "set (ann_ids lv') \<subseteq> set (ann_ids lv) \<or>
    lv_next lv' = lv_next lv + 1 \<and>
    set (ann_ids lv') \<subseteq> insert (annotation_id (lv_heap lv' (lv_next lv))) (set (ann_ids lv))"
proof -
  have "annotation_id (lv_heap lv' a) = annotation_id (lv_heap lv a)"
    if "a \<in> set (cv_annotations (lv_canvas lv))" for a
    using assms that ann_grows_id unfolding ann_effect_def by blast
  then show ?thesis using assms unfolding ann_effect_def ann_ids_def by auto
qed

lemma deleted_step:
  assumes inv: "ann_inv lv" and op: "py_json (JObj op)" and fresh: "fresh_id lv env"
    and r: "apply_state_op cfg env rec tr lv op = (r, lv')"
    and mem: "remembered m i lv" and m: "m + 2 \<le> DELETED_IDS_MAX"
    and gone: "i \<notin> set (ann_ids lv)" and new: "ev_annotation_id env \<noteq> i"
  shows "i \<notin> set (ann_ids lv')" and "remembered (if is_delete op then m + 1 else m) i lv'"
proof -
  have del: "i \<in> set (se_deleted_annotation_ids (lv_session lv))"
    using mem set_drop_subset by (fastforce simp: remembered_def lastn_def)
  have keep: "remembered (if b then m + 1 else m) i lv'"
    if "se_deleted_annotation_ids (lv_session lv') = se_deleted_annotation_ids (lv_session lv)" for b lv'
    using mem that set_lastn_mono [of "m + 1" "m + 2" "se_deleted_annotation_ids (lv_session lv)"]
    by (auto simp: remembered_def)
  have branch: "i \<notin> set (ann_ids lv1) \<and> remembered (if is_delete op then m + 1 else m) i lv1"
    if t: "obj_get op ''op'' = JStr t" and b: "state_op_branch cfg env tr lv op t = (out, lv1)" for t out lv1
  proof -
    have eff: "ann_effect lv lv1" using state_op_branch_ok [OF inv op fresh b] by (simp add: branch_ok_def)
    have same: ?thesis if "same_frame lv lv1"
      using effect_ids [OF eff] gone keep that by (auto simp: same_frame_def)
    consider "t = ''annotation_created''" | "t = ''annotation_deleted''"
      | "t \<noteq> ''annotation_created''" "t \<noteq> ''annotation_deleted''" by blast
    then show ?thesis
    proof cases
      case 1
      then have "op_annotation_created (sto_max_annotations cfg) env tr lv op = (out, lv1)"
        using b by (simp add: state_op_branch_def)
      from op_annotation_created_cases [OF this] show ?thesis
      proof (elim disjE exE conjE)
        assume "lv1 = lv"
        then show ?thesis by (intro same) (simp add: same_frame_def)
      next
        fix ann j a
        assume "upsert_existing env lv op ann j a = (out, lv1)"
        from upsert_existing_frame [OF this] show ?thesis by (intro same) (simp add: same_frame_def)
      next
        fix ann
        assume val: "validate_annotation (obj_get op ''annotation'') False = Inr ann"
          and nd: "\<forall>j. obj_get ann ''id'' = JStr j \<longrightarrow> j \<notin> set (se_deleted_annotation_ids (lv_session lv))"
          and ins: "insert_annotation (sto_max_annotations cfg) env lv op ann = (out, lv1)"
        have ni: "annotation_id (new_annotation env op ann) \<noteq> i"
          using nd del new unfolding new_annotation_valid(2) [OF val py_json_get [OF op]]
          by (auto split: json.split)
        note ids = insert_annotation_ids [OF ins]
        have "i \<notin> set (ann_ids lv1)" using effect_ids [OF eff] gone ids(2) ni by auto
        moreover have "remembered (if is_delete op then m + 1 else m) i lv1" by (rule keep) (simp add: ids(1))
        ultimately show ?thesis by blast
      qed
    next
      case 2
      then have d: "op_annotation_deleted lv op = (out, lv1)" using b by (simp add: state_op_branch_def)
      have del_op: "is_delete op" using t 2 by (simp add: is_delete_def)
      have "i \<notin> set (ann_ids lv1)"
        using effect_ids [OF eff] gone op_annotation_deleted_frame(1) [OF d] by auto
      moreover have "remembered (m + 1) i lv1"
      proof -
        from op_annotation_deleted_frame(2) [OF d] consider j where
            "se_deleted_annotation_ids (lv_session lv1) =
             bounded_append DELETED_IDS_MAX (se_deleted_annotation_ids (lv_session lv)) j"
          | "same_frame lv lv1" by blast
        then show ?thesis
        proof cases
          case 1
          show ?thesis
            using remembered_append [OF mem [unfolded remembered_def] m] by (simp add: remembered_def 1)
        next
          case 2
          then show ?thesis using keep [of lv1 True] by (simp add: same_frame_def)
        qed
      qed
      ultimately show ?thesis using del_op by simp
    next
      case 3
      show ?thesis by (rule same [OF branch_frame [OF b inv op 3]])
    qed
  qed
  have "i \<notin> set (ann_ids lv') \<and> remembered (if is_delete op then m + 1 else m) i lv'"
    using apply_state_op_cases [OF r]
  proof (elim disjE exE conjE)
    assume "lv' = lv"
    then show ?thesis using gone keep by simp
  next
    fix t out lv1 f a k ap
    assume t: "obj_get op ''op'' = JStr t" and b: "state_op_branch cfg env tr lv op t = (out, lv1)"
      and c: "commit_op cfg env rec t op f a k lv1 = (ap, lv')"
    show ?thesis using branch [OF t b] commit_fields [OF c] by (simp add: ann_ids_def remembered_def)
  qed (use branch in auto)
  then show "i \<notin> set (ann_ids lv')" and "remembered (if is_delete op then m + 1 else m) i lv'" by auto
qed

fun new_ids_not :: "string \<Rightarrow> op_step list \<Rightarrow> bool" where
  "new_ids_not i [] = True"
| "new_ids_not i ((env, rec, tr, op) # ss) = (ev_annotation_id env \<noteq> i \<and> new_ids_not i ss)"

fun deletions :: "op_step list \<Rightarrow> nat" where
  "deletions [] = 0"
| "deletions ((env, rec, tr, op) # ss) = (if is_delete op then 1 else 0) + deletions ss"

lemma deleted_run:
  assumes "live_inv cfg lv" and "ok_steps cfg lv ss" and "new_ids_not i ss"
    and "remembered m i lv" and "m + deletions ss + 2 \<le> DELETED_IDS_MAX" and "i \<notin> set (ann_ids lv)"
  shows "i \<notin> set (ann_ids (run_ops cfg lv ss))"
  using assms
proof (induction ss arbitrary: lv m)
  case (Cons s ss)
  obtain env rec tr op where s: "s = (env, rec, tr, op)" by (cases s)
  obtain r lv1 where r: "apply_state_op cfg env rec tr lv op = (r, lv1)" by fastforce
  have ok: "py_json (JObj op)" "fresh_id lv env" "ok_steps cfg lv1 ss"
    using Cons.prems(2) by (simp_all add: s r)
  have inv: "ann_inv lv" using Cons.prems(1) by (simp add: live_inv_def)
  have bound: "m + 2 \<le> DELETED_IDS_MAX" using Cons.prems(5) by simp
  have new: "ev_annotation_id env \<noteq> i" "new_ids_not i ss" using Cons.prems(3) by (simp_all add: s)
  note step = deleted_step [OF inv ok(1,2) r Cons.prems(4) bound Cons.prems(6) new(1)]
  have rest: "(if is_delete op then m + 1 else m) + deletions ss + 2 \<le> DELETED_IDS_MAX"
    using Cons.prems(5) by (simp add: s split: if_splits)
  show ?case
    using Cons.IH [OF live_inv_apply [OF Cons.prems(1) ok(1,2) r] ok(3) new(2) step(2) rest step(1)]
    by (simp add: s r)
qed simp

end
