(* ===== verification/SessionDemo.thy ===== *)
theory SessionDemo
  imports SessionRuns
begin

text \<open>
  A small session on which the properties of the session components are witnessed: one note
  created by \<open>ann\<close>, and ops of \<open>bob\<close> that update, delete and hide.
\<close>

definition demo_store :: store_config where
  "demo_store =
     \<lparr>sto_max_annotations = 4, sto_ring_size = 3, sto_max_activity_records = 4, sto_activity_max_age_days = 30\<rparr>"

definition demo_env :: op_env where
  "demo_env = \<lparr>ev_annotation_time = ''2026-01-05T10:00:00Z'', ev_session_time = ''2026-01-05T10:00:00Z'',
     ev_record_time = ''2026-01-05T10:00:00Z'', ev_now = 0, ev_annotation_id = ''fresh'', ev_activity_id = ''act''\<rparr>"

definition demo_create :: json_obj where
  "demo_create = [(''op'', JStr ''annotation_created''), (''client_id'', JStr ''ann''),
     (''annotation'', JObj [(''id'', JStr ''a''), (''type'', JStr ''note''), (''text'', JStr ''old'')])]"

definition demo_update :: "string \<Rightarrow> json \<Rightarrow> json_obj" where
  "demo_update text base = [(''op'', JStr ''annotation_updated''), (''client_id'', JStr ''bob''),
     (''annotation'', JObj [(''id'', JStr ''a''), (''type'', JStr ''note''), (''text'', JStr text)]),
     (''base_version'', base)]"

definition demo_delete :: json_obj where
  "demo_delete = [(''op'', JStr ''annotation_deleted''), (''client_id'', JStr ''bob''), (''annotation_id'', JStr ''a'')]"

definition demo_hide :: json_obj where
  "demo_hide = [(''op'', JStr ''nodes_hidden''), (''client_id'', JStr ''bob''), (''node_ids'', JArr [JStr ''n''])]"

definition demo_live :: live where
  "demo_live = run_ops demo_store (new_live ''0001-0002'' None ''now'') [(demo_env, True, False, demo_create)]"

lemma demo_ok:
  "ok_steps demo_store (new_live ''0001-0002'' None ''now'') [(demo_env, True, False, demo_create)]"
  by code_simp

lemma demo_live_inv: "live_inv demo_store demo_live"
  unfolding demo_live_def by (rule live_inv_run [OF new_live_inv demo_ok])

end
