(* ===== verification/SessionProps.thy ===== *)
theory SessionProps
  imports SessionDemo
begin

text \<open>
  What the state ops of a session guarantee over any run of them: the invariant, that a refused
  op changes nothing, that a stale write and a late create are refused, and that the catch-up of
  a client is exact.
\<close>

section \<open>Properties\<close>

text \<open>C12: the document invariant. Whatever ops clients send to a session, from its creation on
  (well-formed, malformed, repeated, refused), the annotations keep distinct ids, valid types and
  versions that bound their field versions, the id lists stay duplicate-free, positions stay
  points, the intensity stays in the unit interval, the annotation cap, the activity cap and the
  bound on remembered deletions hold, and the ring is an unbroken end of the numbered op
  sequence.\<close>

theorem session_invariant:
  assumes "ok_steps cfg (new_live i name now) ss"
  shows "live_inv cfg (run_ops cfg (new_live i name now) ss)"
  by (rule live_inv_run [OF new_live_inv assms])

text \<open>C13: a refused op has no effect. An op that is malformed, unknown, over a cap or in conflict,
  and an op that is dropped because its annotation is gone, leaves the document, the sequence
  number, the activity log and the ring exactly as they were. (The one exception that is not a
  refusal, the \<open>TypeError\<close> of an unhashable group member, is raised in the middle of a removal.)\<close>

theorem refused_op_no_effect:
  assumes "live_inv cfg lv" and "py_json (JObj op)"
    and "apply_state_op cfg env rec tr lv op = (r, lv')"
    and "r = Inl OpError \<or> (\<exists>i cs d. r = Inl (AnnotationFieldConflict i cs d)) \<or> r = Inr None"
  shows "lv' = lv"
proof -
  have inv: "ann_inv lv" using assms(1) by (simp add: live_inv_def)
  from apply_state_op_cases [OF assms(3)] show ?thesis
  proof (elim disjE exE conjE)
    fix t out lv1 f a k ap
    assume "out = Changed f a k" "r = Inr (Some ap)"
    then show ?thesis using assms(4) by auto
  next
    fix t out lv1 e
    assume b: "state_op_branch cfg env tr lv op t = (out, lv1)" and o: "out = Raise e" "r = Inl e" "lv' = lv1"
    then show ?thesis using branch_unchanged [OF inv assms(2) b] assms(4) by auto
  next
    fix t out lv1
    assume b: "state_op_branch cfg env tr lv op t = (out, lv1)" and "out = Dropped" "lv' = lv1"
    then show ?thesis using branch_unchanged [OF inv assms(2) b] by auto
  qed simp
qed

text \<open>C14: catch-up is exact. A client that has seen a session up to some sequence number and asks
  for what it missed gets precisely the ops applied since, in order and each once, when the ring
  still holds them all, and otherwise the answer that makes it load a snapshot; it is never handed
  a gap.\<close>

theorem catch_up_exact:
  assumes "live_inv cfg lv" and "ok_steps cfg lv ss"
  shows "ops_since (run_ops cfg lv ss) (se_seq (lv_session lv)) =
    (if length (run_applied cfg lv ss) \<le> sto_ring_size cfg then Some (run_applied cfg lv ss) else None)"
proof -
  note run = run_ring [OF assms]
  note q = conjunct1 [OF conjunct2 [OF run]]
  let ?new = "run_applied cfg lv ss" and ?n = "sto_ring_size cfg" and ?q = "se_seq (lv_session lv)"
  let ?ring = "lv_ring (run_ops cfg lv ss)"
  have new: "filter (\<lambda>ap. ?q < ap_seq ap) xs = xs" if "set xs \<subseteq> set ?new" for xs
  proof -
    have "?q < ap_seq ap" if "ap \<in> set ?new" for ap
    proof -
      have "ap_seq ap \<in> set (map ap_seq ?new)" using that by simp
      then show ?thesis using run by simp
    qed
    then show ?thesis using \<open>set xs \<subseteq> set ?new\<close> by (simp add: filter_id_conv subset_iff)
  qed
  have old: "ap_seq ap \<le> ?q" if "ap \<in> set (lv_ring lv)" for ap
  proof -
    have "ap_seq ap \<in> set (map ap_seq (lv_ring lv))" using that by simp
    moreover have "map ap_seq (lv_ring lv) = [?q - int (length (lv_ring lv)) + 1..?q]"
      using assms(1) by (simp add: live_inv_def ring_inv_def)
    ultimately show ?thesis by (simp only: set_upto) simp
  qed
  have final: "map ap_seq ?ring = [?q + int (length ?new) - int (length ?ring) + 1..?q + int (length ?new)]"
    using live_inv_run [OF assms] run by (simp add: live_inv_def ring_inv_def)
  have len: "length ?ring = min ?n (length (lv_ring lv) + length ?new)"
    using run by (auto simp: lastn_def)
  show ?thesis
  proof (cases "?new = []")
    case True
    then show ?thesis using q by (simp add: ops_since_def)
  next
    case False
    then have pos: "0 < length ?new" by simp
    show ?thesis
    proof (cases ?ring)
      case Nil
      then have "\<not> length ?new \<le> ?n" using len pos by (simp add: min_def split: if_splits)
      then show ?thesis using q pos Nil by (simp add: ops_since_def)
    next
      case (Cons oldest rest)
      have "[?q + int (length ?new) - int (length ?ring) + 1..?q + int (length ?new)] =
          (?q + int (length ?new) - int (length ?ring) + 1) #
          [?q + int (length ?new) - int (length ?ring) + 1 + 1..?q + int (length ?new)]"
        using Cons by (intro upto_rec1) simp
      then have hd: "ap_seq oldest = ?q + int (length ?new) - int (length ?ring) + 1"
        using final Cons by simp
      show ?thesis
      proof (cases "length ?new \<le> ?n")
        case True
        have "?ring = lastn (?n - length ?new) (lv_ring lv) @ ?new"
          using run True by (simp add: lastn_def)
        moreover have "set (lastn (?n - length ?new) (lv_ring lv)) \<subseteq> set (lv_ring lv)"
          by (simp add: lastn_def set_drop_subset)
        ultimately have "filter (\<lambda>ap. ?q < ap_seq ap) ?ring = ?new"
          using old new [OF order_refl] by (fastforce simp: filter_empty_conv not_less)
        moreover have "ap_seq oldest \<le> ?q + 1" using hd len True by simp
        ultimately show ?thesis using q pos True Cons by (simp add: ops_since_def)
      next
        case False
        then have "?q + 1 < ap_seq oldest" using hd len by simp
        then show ?thesis using q pos False Cons by (simp add: ops_since_def)
      qed
    qed
  qed
qed

text \<open>C15: no lost update. A client reads an annotation at some version; another update then changes
  a field of it; whatever else happens to the session in between, an update by the first client
  that changes the same field and names the version it read is refused and changes nothing, and
  when the patch is otherwise acceptable the refusal names the field and carries the server's
  annotation.\<close>

theorem stale_update_refused:
  assumes inv: "live_inv cfg lv" and base: "base \<le> ver (lv_heap lv a)"
    and op1: "py_json (JObj op1)" "obj_get op1 ''op'' = JStr ''annotation_updated''"
      "validate_annotation (obj_get op1 ''annotation'') True = Inr patch1"
      "find_annotation lv (annotation_id patch1) = Some a"
      "f \<in> set (changed_fields patch1 (lv_heap lv a))" "fresh_id lv env1"
    and acc: "apply_state_op cfg env1 rec1 tr1 lv op1 = (Inr (Some ap), lv1)"
    and ss: "ok_steps cfg lv1 ss" and lv2: "lv2 = run_ops cfg lv1 ss"
    and op2: "py_json (JObj op2)" "obj_get op2 ''op'' = JStr ''annotation_updated''"
      "validate_annotation (obj_get op2 ''annotation'') True = Inr patch2"
      "find_annotation lv2 (annotation_id patch2) = Some a"
      "f \<in> set (changed_fields patch2 (lv_heap lv2 a))"
      "obj_get op2 ''base_version'' = JInt base"
  shows "\<exists>e. apply_state_op cfg env2 rec2 False lv2 op2 = (Inl e, lv2) \<and>
    (json_eq (obj_get (lv_heap lv2 a) ''type'') (obj_get patch2 ''type'') \<and>
       image_annotation_error patch2 (Some (lv_heap lv2 a)) = None \<longrightarrow>
     (\<exists>cs. e = AnnotationFieldConflict (annotation_id patch2) cs (lv_heap lv2 a) \<and> f \<in> fst ` set cs))"
proof -
  have ai: "ann_inv lv" using inv by (simp add: live_inv_def)
  note raised = update_raises_version [OF ai op1(1,2) acc op1(3,4,5)]
  have inv1: "live_inv cfg lv1" by (rule live_inv_apply [OF inv op1(1) op1(6) acc])
  have inv2: "live_inv cfg lv2" unfolding lv2 by (rule live_inv_run [OF inv1 ss])
  have alive: "a \<in> set (cv_annotations (lv_canvas lv2))" by (rule find_annotation_some(1) [OF op2(4)])
  have "a < lv_next lv" using ai find_annotation_some(1) [OF op1(4)] by (simp add: ann_inv_def)
  then have "ann_grows (lv_heap lv1 a) (lv_heap lv2 a)"
    using run_grows [OF inv1 ss] alive raised(2) lv2 by simp
  then have "fver (lv_heap lv1 a) f \<le> fver (lv_heap lv2 a) f" by (simp add: ann_grows_def)
  then have lt: "base < fver (lv_heap lv2 a) f" using base raised(1) by linarith
  have val2: "ann_valid (lv_heap lv2 a)" using inv2 alive by (simp add: live_inv_def ann_inv_def)
  obtain fv where fv: "field_versions_of (lv_heap lv2 a) = Some fv" using field_versions_valid [OF val2] by blast
  obtain c cs where cs: "field_conflicts fv (changed_fields patch2 (lv_heap lv2 a)) base = Inr (c # cs)"
      "f \<in> fst ` set (c # cs)"
    using field_conflicts_some [OF val2 fv op2(5) lt] by blast
  have id: "annotation_id (lv_heap lv2 a) = annotation_id patch2"
    using find_annotation_some(2) [OF op2(4)] by (simp add: annotation_id_def)
  let ?e = "if \<not> json_eq (obj_get (lv_heap lv2 a) ''type'') (obj_get patch2 ''type'') then OpError
     else if image_annotation_error patch2 (Some (lv_heap lv2 a)) \<noteq> None then OpError
     else AnnotationFieldConflict (annotation_id patch2) (c # cs) (lv_heap lv2 a)"
  have "op_annotation_updated env2 False lv2 op2 = (Raise ?e, lv2)"
    by (simp add: op_annotation_updated_def op2(3,4,6) Let_def fv base_version_check_def cs(1) id)
  then have "apply_state_op cfg env2 rec2 False lv2 op2 = (Inl ?e, lv2)"
    by (simp add: apply_updated [OF op2(2)])
  then show ?thesis using cs(2) by auto
qed

text \<open>C16: a deleted annotation stays deleted. Once a delete of an annotation id is applied, no later
  op of the session brings an annotation with that id back, in particular not the retried or
  delayed create of another client, as long as fewer than 199 further deletions follow (the store
  remembers the last 200) and \<open>secrets\<close> does not draw that very id.\<close>

theorem deleted_stays_deleted:
  assumes inv: "live_inv cfg lv" and op: "py_json (JObj op)" "obj_get op ''op'' = JStr ''annotation_deleted''"
      "obj_get op ''annotation_id'' = JStr i" "i \<noteq> []" "fresh_id lv env"
    and r: "apply_state_op cfg env rec tr lv op = (r, lv1)"
    and ss: "ok_steps cfg lv1 ss" "new_ids_not i ss" "deletions ss < 199"
  shows "i \<notin> set (ann_ids (run_ops cfg lv1 ss))"
proof -
  have ai: "ann_inv lv" using inv by (simp add: live_inv_def)
  obtain f k lv2 where d: "op_annotation_deleted lv op = (Changed f None k, lv2)"
    using op by (auto simp: op_annotation_deleted_def Let_def)
  obtain ap lv3 where c: "commit_op cfg env rec ''annotation_deleted'' op f None k lv2 = (ap, lv3)" by fastforce
  have "lv3 = lv1" using r d c by (simp add: apply_state_op_def state_op_branch_def op(2) STATE_OPS_def)
  note fields = commit_fields [OF c, unfolded this]
  have anns: "cv_annotations (lv_canvas lv2) =
      filter (\<lambda>a. obj_get (lv_heap lv a) ''id'' \<noteq> JStr i) (cv_annotations (lv_canvas lv))"
    and heap: "lv_heap lv2 = lv_heap lv"
    and del: "se_deleted_annotation_ids (lv_session lv2) =
      bounded_append DELETED_IDS_MAX (se_deleted_annotation_ids (lv_session lv)) i"
    using d op by (auto simp: op_annotation_deleted_def Let_def)
  have "i \<notin> set (ann_ids lv1)"
  proof
    assume "i \<in> set (ann_ids lv1)"
    then obtain a where a: "a \<in> set (cv_annotations (lv_canvas lv))" "annotation_id (lv_heap lv a) = i"
        "obj_get (lv_heap lv a) ''id'' \<noteq> JStr i"
      by (auto simp: ann_ids_def fields anns heap)
    with ai show False by (auto simp: ann_inv_def ann_valid_def annotation_id_def)
  qed
  moreover have "remembered 0 i lv1"
    by (simp add: remembered_def fields del bounded_append_lastn lastn_of_lastn DELETED_IDS_MAX_def)
      (simp add: lastn_def)
  ultimately show ?thesis
    using deleted_run [OF live_inv_apply [OF inv op(1) op(5) r] ss(1,2), of 0] ss(3)
    by (simp add: DELETED_IDS_MAX_def)
qed

section \<open>Witnesses\<close>

lemma session_invariant_witness:
  "live_inv demo_store (run_ops demo_store (new_live ''0001'' None ''now'')
     [(demo_env, True, False, demo_create), (demo_env, True, False, demo_update ''new'' JNull),
      (demo_env, True, False, demo_delete)])"
  by (rule session_invariant) code_simp

lemma refused_op_no_effect_witness:
  "snd (apply_state_op demo_store demo_env True False demo_live (demo_update ''new'' (JStr ''one''))) = demo_live"
proof -
  have "fst (apply_state_op demo_store demo_env True False demo_live (demo_update ''new'' (JStr ''one''))) = Inl OpError"
    by code_simp
  moreover have "py_json (JObj (demo_update ''new'' (JStr ''one'')))" by code_simp
  ultimately show ?thesis
    by (intro refused_op_no_effect [OF demo_live_inv _ surjective_pairing]) simp_all
qed

lemma catch_up_exact_witness:
  "map ap_seq (the (ops_since (run_ops demo_store demo_live
     [(demo_env, True, False, demo_hide), (demo_env, True, False, demo_delete)]) 1)) = [2, 3]"
proof -
  let ?ss = "[(demo_env, True, False, demo_hide), (demo_env, True, False, demo_delete)]"
  have eval: "let lv = demo_live; new = run_applied demo_store lv ?ss
      in ok_steps demo_store lv ?ss \<and> se_seq (lv_session lv) = 1 \<and>
         length new \<le> sto_ring_size demo_store \<and> map ap_seq new = [2, 3]"
    by code_simp
  note eval = eval [unfolded Let_def]
  from catch_up_exact [OF demo_live_inv conjunct1 [OF eval]]
  have "ops_since (run_ops demo_store demo_live ?ss) (se_seq (lv_session demo_live)) =
      (if length (run_applied demo_store demo_live ?ss) \<le> sto_ring_size demo_store
       then Some (run_applied demo_store demo_live ?ss) else None)" .
  then show ?thesis using eval by simp
qed

definition demo_patch :: "string \<Rightarrow> json_obj" where
  "demo_patch text = [(''id'', JStr ''a''), (''type'', JStr ''note''), (''text'', JStr text), (''kind'', JStr ''note'')]"

lemma stale_update_refused_witness:
  "\<exists>cs. fst (apply_state_op demo_store demo_env True False
      (run_ops demo_store
        (snd (apply_state_op demo_store demo_env True False demo_live (demo_update ''new'' JNull)))
        [(demo_env, True, False, demo_hide)])
      (demo_update ''mine'' (JInt 1))) =
    Inl (AnnotationFieldConflict ''a'' cs (lv_heap (run_ops demo_store
        (snd (apply_state_op demo_store demo_env True False demo_live (demo_update ''new'' JNull)))
        [(demo_env, True, False, demo_hide)]) 0)) \<and> ''text'' \<in> fst ` set cs"
proof -
  let ?r1 = "apply_state_op demo_store demo_env True False demo_live (demo_update ''new'' JNull)"
  let ?ss = "[(demo_env, True, False, demo_hide)]"
  let ?lv2 = "run_ops demo_store (snd ?r1) ?ss"
  have eval: "let lv0 = demo_live;
        r1 = apply_state_op demo_store demo_env True False lv0 (demo_update ''new'' JNull);
        lv2 = run_ops demo_store (snd r1) ?ss
      in 1 \<le> ver (lv_heap lv0 0) \<and> find_annotation lv0 (annotation_id (demo_patch ''new'')) = Some 0 \<and>
         ''text'' \<in> set (changed_fields (demo_patch ''new'') (lv_heap lv0 0)) \<and> fresh_id lv0 demo_env \<and>
         (case fst r1 of Inr (Some _) \<Rightarrow> True | _ \<Rightarrow> False) \<and> ok_steps demo_store (snd r1) ?ss \<and>
         find_annotation lv2 (annotation_id (demo_patch ''mine'')) = Some 0 \<and>
         ''text'' \<in> set (changed_fields (demo_patch ''mine'') (lv_heap lv2 0)) \<and>
         json_eq (obj_get (lv_heap lv2 0) ''type'') (obj_get (demo_patch ''mine'') ''type'') \<and>
         image_annotation_error (demo_patch ''mine'') (Some (lv_heap lv2 0)) = None"
    by code_simp
  note eval = eval [unfolded Let_def]
  obtain ap where "fst ?r1 = Inr (Some ap)" using eval by (auto split: sum.splits option.splits)
  then have acc: "?r1 = (Inr (Some ap), snd ?r1)" by (metis prod.collapse)
  have op1: "py_json (JObj (demo_update ''new'' JNull))"
      "obj_get (demo_update ''new'' JNull) ''op'' = JStr ''annotation_updated''"
      "validate_annotation (obj_get (demo_update ''new'' JNull) ''annotation'') True = Inr (demo_patch ''new'')"
    by code_simp+
  have op2: "py_json (JObj (demo_update ''mine'' (JInt 1)))"
      "obj_get (demo_update ''mine'' (JInt 1)) ''op'' = JStr ''annotation_updated''"
      "validate_annotation (obj_get (demo_update ''mine'' (JInt 1)) ''annotation'') True = Inr (demo_patch ''mine'')"
      "obj_get (demo_update ''mine'' (JInt 1)) ''base_version'' = JInt 1"
    by code_simp+
  have id: "annotation_id (demo_patch ''mine'') = ''a''" by code_simp
  note e = eval [THEN conjunct1]
  have "\<exists>e. apply_state_op demo_store demo_env True False ?lv2 (demo_update ''mine'' (JInt 1)) = (Inl e, ?lv2) \<and>
    (json_eq (obj_get (lv_heap ?lv2 0) ''type'') (obj_get (demo_patch ''mine'') ''type'') \<and>
       image_annotation_error (demo_patch ''mine'') (Some (lv_heap ?lv2 0)) = None \<longrightarrow>
     (\<exists>cs. e = AnnotationFieldConflict (annotation_id (demo_patch ''mine'')) cs (lv_heap ?lv2 0) \<and> ''text'' \<in> fst ` set cs))"
    by (rule stale_update_refused [OF demo_live_inv _ op1 _ _ _ acc _ refl op2(1-3) _ _ op2(4)])
      (use eval in blast)+
  then show ?thesis using eval unfolding id by (auto dest: arg_cong [where f = fst])
qed

lemma deleted_stays_deleted_witness:
  "ann_ids demo_live = [''a''] \<and>
   ''a'' \<notin> set (ann_ids (run_ops demo_store
     (snd (apply_state_op demo_store demo_env True False demo_live demo_delete))
     [(demo_env, True, False, demo_create)]))"
proof
  show "ann_ids demo_live = [''a'']" by code_simp
  show "''a'' \<notin> set (ann_ids (run_ops demo_store
     (snd (apply_state_op demo_store demo_env True False demo_live demo_delete))
     [(demo_env, True, False, demo_create)]))"
    by (rule deleted_stays_deleted [OF demo_live_inv _ _ _ _ _ surjective_pairing]) code_simp+
qed

end
