(* ===== verification/SessionLog.thy ===== *)
theory SessionLog
  imports SessionInv
begin

text \<open>
  The activity log as it is read (\<open>backend/core/session_activity.py\<close> and the reading methods of
  \<open>SessionStore\<close>), and the document form of a session: \<open>Session.to_dict\<close>, \<open>meta\<close> and
  \<open>from_dict\<close> (\<open>backend/core/session_store.py\<close>).
\<close>

section \<open>Reading the log\<close>

definition list_activity :: "live \<Rightarrow> string option \<Rightarrow> int \<Rightarrow> activity list" where
  "list_activity lv actor limit =
     (let records = (case actor of
            None \<Rightarrow> se_activity_log (lv_session lv)
          | Some a \<Rightarrow> filter (\<lambda>r. ar_actor r = a) (se_activity_log (lv_session lv)))
      in take (nat (max 0 limit)) (rev records))"

definition undoable :: "string \<Rightarrow> activity \<Rightarrow> bool" where
  "undoable actor r =
     (ar_actor r = actor \<and> \<not> ar_undone r \<and>
      (case ar_inverse_op r of None \<Rightarrow> False | Some op \<Rightarrow> op \<noteq> []))"

text \<open>The place of the record the reversed scan stops at.\<close>

definition find_latest_undoable :: "activity list \<Rightarrow> string \<Rightarrow> nat option" where
  "find_latest_undoable records actor =
     find (\<lambda>k. undoable actor (records ! k)) (rev [0..<length records])"

section \<open>Undo conflicts\<close>

definition affected_ids :: "json_obj \<Rightarrow> string \<Rightarrow> string list" where
  "affected_ids affected key =
     (case obj_get affected key of
        JArr vs \<Rightarrow> (case str_list vs of Some ids \<Rightarrow> ids | None \<Rightarrow> [])
      | _ \<Rightarrow> [])"

definition present_ids :: "json_obj \<Rightarrow> string list \<Rightarrow> json" where
  "present_ids affected current = jids (sort (filter (\<lambda>i. i \<in> set current) (affected_ids affected ''ids'')))"

definition current_snapshot_for :: "live \<Rightarrow> activity \<Rightarrow> json" where
  "current_snapshot_for lv r =
     (let affected = ar_affected r; kind = obj_get affected ''kind''; c = lv_canvas lv
      in if kind = JStr ''annotation''
         then (case find (\<lambda>a. json_eq (obj_get (lv_heap lv a) ''id'') (obj_get affected ''id'')) (cv_annotations c) of
                 Some a \<Rightarrow> JObj (lv_heap lv a)
               | None \<Rightarrow> JNull)
         else if kind = JStr ''node_position''
         then (case obj_get affected ''id'' of JStr i \<Rightarrow> obj_get (cv_positions c) i | _ \<Rightarrow> JNull)
         else if kind = JStr ''node_visibility'' then present_ids affected (cv_hidden_node_ids c)
         else if kind = JStr ''node_dim'' then present_ids affected (cv_dimmed_node_ids c)
         else if kind = JStr ''edge_dim'' then present_ids affected (cv_dimmed_edge_ids c)
         else if kind = JStr ''edge_intensity'' then cv_edge_intensity c
         else if kind = JStr ''layout''
         then JObj (map (\<lambda>n. (n, obj_get (cv_positions c) n)) (affected_ids affected ''node_ids''))
         else JNull)"

definition undo_conflict :: "live \<Rightarrow> activity \<Rightarrow> bool" where
  "undo_conflict lv r = (\<not> json_eq (current_snapshot_for lv r) (ar_after r))"

section \<open>The document\<close>

definition activity_to_dict :: "activity \<Rightarrow> json_obj" where
  "activity_to_dict r =
     [(''id'', JStr (ar_id r)), (''op'', JStr (ar_op r)), (''actor'', JStr (ar_actor r)),
      (''session_id'', JStr (ar_session_id r)), (''seq'', JInt (ar_seq r)),
      (''correlation_id'', ar_correlation_id r), (''occurred_at'', JStr (ar_occurred_at r)),
      (''affected'', JObj (ar_affected r)), (''before'', ar_before r), (''after'', ar_after r),
      (''inverse_op'', opt_obj (ar_inverse_op r)), (''undone'', JBool (ar_undone r)),
      (''undone_at'', ar_undone_at r)]"

definition canvas_to_dict :: "heap \<Rightarrow> canvas \<Rightarrow> json_obj" where
  "canvas_to_dict h c =
     [(''node_refs'', jids (cv_node_refs c)), (''positions'', JObj (cv_positions c)),
      (''hidden_node_ids'', jids (cv_hidden_node_ids c)), (''hidden_edge_ids'', jids (cv_hidden_edge_ids c)),
      (''dimmed_node_ids'', jids (cv_dimmed_node_ids c)), (''dimmed_edge_ids'', jids (cv_dimmed_edge_ids c)),
      (''edge_intensity'', cv_edge_intensity c),
      (''annotation_schema_version'', cv_annotation_schema_version c),
      (''annotations'', JArr (map (\<lambda>a. JObj (h a)) (cv_annotations c)))]"

definition session_meta :: "session \<Rightarrow> json_obj" where
  "session_meta s =
     [(''id'', JStr (se_id s)), (''name'', opt_str (se_name s)), (''created_at'', JStr (se_created_at s)),
      (''updated_at'', JStr (se_updated_at s)), (''seq'', JInt (se_seq s))]"

definition session_to_dict :: "live \<Rightarrow> json_obj" where
  "session_to_dict lv =
     (let s = lv_session lv
      in session_meta s @
         [(''state'', JObj (canvas_to_dict (lv_heap lv) (se_state s))),
          (''activity_log'', JArr (map (\<lambda>r. JObj (activity_to_dict r)) (se_activity_log s)))])"

text \<open>
  \<open>from_dict\<close>. Python takes the values as they are; a document whose values do not have the types
  the store writes has no reading here (\<open>None\<close>), and neither has one without an id (\<open>KeyError\<close>).
\<close>

definition get_str :: "json_obj \<Rightarrow> string \<Rightarrow> string option" where
  "get_str d k = (case obj_get d k of JStr s \<Rightarrow> Some s | _ \<Rightarrow> None)"

definition get_ids :: "json_obj \<Rightarrow> string \<Rightarrow> string list option" where
  "get_ids d k = (case get_default d k (JArr []) of JArr vs \<Rightarrow> str_list vs | _ \<Rightarrow> None)"

fun objects :: "json list \<Rightarrow> json_obj list option" where
  "objects [] = Some []"
| "objects (JObj d # vs) = map_option ((#) d) (objects vs)"
| "objects (v # vs) = None"

definition activity_from_dict :: "json_obj \<Rightarrow> activity option" where
  "activity_from_dict d =
     (case (get_str d ''id'', get_str d ''op'', get_str d ''actor'', get_str d ''session_id'', obj_get d ''seq'',
            get_str d ''occurred_at'', obj_get d ''affected'', obj_get d ''inverse_op'', obj_get d ''undone'') of
        (Some i, Some op, Some actor, Some sid, JInt seq, Some occurred, JObj affected, JObj undo_op, JBool undone) \<Rightarrow>
          Some \<lparr>ar_id = i, ar_op = op, ar_actor = actor, ar_session_id = sid, ar_seq = seq,
            ar_correlation_id = obj_get d ''correlation_id'', ar_occurred_at = occurred, ar_affected = affected,
            ar_before = obj_get d ''before'', ar_after = obj_get d ''after'', ar_inverse_op = Some undo_op,
            ar_undone = undone, ar_undone_at = obj_get d ''undone_at''\<rparr>
      | _ \<Rightarrow> None)"

fun all_some :: "'a option list \<Rightarrow> 'a list option" where
  "all_some [] = Some []"
| "all_some (x # xs) = (case x of None \<Rightarrow> None | Some y \<Rightarrow> map_option ((#) y) (all_some xs))"

definition log_from_list :: "json \<Rightarrow> activity list option" where
  "log_from_list v =
     (case v of
        JArr vs \<Rightarrow> Option.bind (objects vs) (\<lambda>ds. all_some (map activity_from_dict ds))
      | _ \<Rightarrow> Some [])"

definition canvas_from_dict :: "json_obj \<Rightarrow> (canvas \<times> json_obj list) option" where
  "canvas_from_dict d =
     (case (get_ids d ''node_refs'', get_default d ''positions'' (JObj []), get_ids d ''hidden_node_ids'',
            get_ids d ''hidden_edge_ids'', get_ids d ''dimmed_node_ids'', get_ids d ''dimmed_edge_ids'',
            get_default d ''annotations'' (JArr [])) of
        (Some refs, JObj positions, Some hn, Some he, Some dn, Some de, JArr anns) \<Rightarrow>
          map_option (\<lambda>ds.
            (\<lparr>cv_node_refs = refs, cv_positions = positions, cv_hidden_node_ids = hn, cv_hidden_edge_ids = he,
              cv_dimmed_node_ids = dn, cv_dimmed_edge_ids = de,
              cv_edge_intensity = get_default d ''edge_intensity'' (JFloat 1),
              cv_annotation_schema_version = get_default d ''annotation_schema_version'' (JInt 1),
              cv_annotations = [0..<length ds]\<rparr>, ds)) (objects anns)
      | _ \<Rightarrow> None)"

text \<open>\<open>data.get(k) or default\<close> for the times and the sequence number.\<close>

definition str_or_now :: "json_obj \<Rightarrow> string \<Rightarrow> string \<Rightarrow> string option" where
  "str_or_now d k now = (if truthy (obj_get d k) then get_str d k else Some now)"

definition seq_or_zero :: "json_obj \<Rightarrow> int option" where
  "seq_or_zero d = (let v = obj_get d ''seq'' in if truthy v then json_int v else Some 0)"

definition name_of :: "json_obj \<Rightarrow> string option option" where
  "name_of d = (case obj_get d ''name'' of JNull \<Rightarrow> Some None | JStr s \<Rightarrow> Some (Some s) | _ \<Rightarrow> None)"

definition state_of :: "json_obj \<Rightarrow> json_obj option" where
  "state_of d =
     (let v = obj_get d ''state'' in if truthy v then (case v of JObj st \<Rightarrow> Some st | _ \<Rightarrow> None) else Some [])"

definition session_from_dict :: "string \<Rightarrow> json_obj \<Rightarrow> live option" where
  "session_from_dict now d =
     (case (get_str d ''id'', name_of d, str_or_now d ''created_at'' now, str_or_now d ''updated_at'' now,
            seq_or_zero d, Option.bind (state_of d) canvas_from_dict, log_from_list (obj_get d ''activity_log'')) of
        (Some i, Some name, Some created, Some updated, Some seq, Some (c, ds), Some lg) \<Rightarrow>
          Some \<lparr>lv_session = \<lparr>se_id = i, se_name = name, se_created_at = created, se_updated_at = updated,
                  se_seq = seq, se_state = c, se_activity_log = lg, se_deleted_annotation_ids = []\<rparr>,
                lv_ring = [], lv_heap = (\<lambda>a. if a < length ds then ds ! a else []), lv_next = length ds\<rparr>
      | _ \<Rightarrow> None)"

end
