(* ===== verification/SessionStore.thy ===== *)
theory SessionStore
  imports SessionIds SessionLog
begin

text \<open>
  The registry of sessions over its persistence seam (\<open>SessionStore\<close>,
  \<open>SessionPersistenceBackend\<close> and \<open>InMemorySessionPersistenceBackend\<close> in
  \<open>backend/core/session_store.py\<close>). A backend is a record of operations over a state; the law
  of the seam is the locale \<open>session_backend\<close>.
\<close>

section \<open>The persistence seam\<close>

text \<open>\<open>save\<close> tells whether it returned or raised.\<close>

record 'b backend_ops =
  bo_load :: "'b \<Rightarrow> string \<Rightarrow> json_obj option"
  bo_save :: "'b \<Rightarrow> json_obj \<Rightarrow> bool \<times> 'b"
  bo_delete :: "'b \<Rightarrow> string \<Rightarrow> 'b"
  bo_list_meta :: "'b \<Rightarrow> json_obj list"

text \<open>\<open>sort(key=\<lambda>m: m.get("updated_at") or "", reverse=True)\<close>: newest first, ties in order.\<close>

definition updated_key :: "json_obj \<Rightarrow> string" where
  "updated_key m = (case obj_get m ''updated_at'' of JStr s \<Rightarrow> s | _ \<Rightarrow> [])"

definition sort_by_updated :: "json_obj list \<Rightarrow> json_obj list" where
  "sort_by_updated ms = rev (sort_key updated_key (rev ms))"

definition doc_id :: "json_obj \<Rightarrow> string option" where
  "doc_id d = get_str d ''id''"

type_synonym mem_backend = "(string, json_obj) dict"

text \<open>\<open>json.loads(json.dumps(x))\<close> is a copy of a JSON value.\<close>

definition mem_load :: "mem_backend \<Rightarrow> string \<Rightarrow> json_obj option" where
  "mem_load b session_id = map_of b session_id"

definition mem_save :: "mem_backend \<Rightarrow> json_obj \<Rightarrow> bool \<times> mem_backend" where
  "mem_save b doc =
     (case doc_id doc of Some i \<Rightarrow> (True, dict_set b i doc) | None \<Rightarrow> (False, b))"

definition mem_delete :: "mem_backend \<Rightarrow> string \<Rightarrow> mem_backend" where
  "mem_delete b session_id = dict_del b session_id"

definition doc_meta :: "string \<Rightarrow> json_obj \<Rightarrow> json_obj" where
  "doc_meta now d = (case session_from_dict now d of Some lv \<Rightarrow> session_meta (lv_session lv) | None \<Rightarrow> [])"

definition mem_list_meta :: "string \<Rightarrow> mem_backend \<Rightarrow> json_obj list" where
  "mem_list_meta now b = sort_by_updated (map (doc_meta now) (dict_values b))"

definition mem_backend_ops :: "string \<Rightarrow> mem_backend backend_ops" where
  "mem_backend_ops now =
     \<lparr>bo_load = mem_load, bo_save = mem_save, bo_delete = mem_delete, bo_list_meta = mem_list_meta now\<rparr>"

section \<open>The store\<close>

record 'b store =
  sx_sessions :: "(string, live) dict"
  sx_backend :: 'b
  sx_meta_cache :: "json_obj list option"

definition store_init :: "'b \<Rightarrow> 'b store" where
  "store_init b = \<lparr>sx_sessions = [], sx_backend = b, sx_meta_cache = None\<rparr>"

text \<open>A session object changed in place.\<close>

definition store_put :: "'b store \<Rightarrow> string \<Rightarrow> live \<Rightarrow> 'b store" where
  "store_put st i lv = st\<lparr>sx_sessions := dict_set (sx_sessions st) i lv\<rparr>"

definition backend_save :: "'b backend_ops \<Rightarrow> 'b store \<Rightarrow> json_obj \<Rightarrow> bool \<times> 'b store" where
  "backend_save ops st doc =
     (case bo_save ops (sx_backend st) doc of
        (True, b) \<Rightarrow> (True, st\<lparr>sx_backend := b, sx_meta_cache := None\<rparr>)
      | (False, b) \<Rightarrow> (False, st\<lparr>sx_backend := b\<rparr>))"

text \<open>\<open>f"{n:04d}"\<close> and the id drawn from four of them.\<close>

definition pad4 :: "nat \<Rightarrow> string" where
  "pad4 n = (let s = string_of_nat n in replicate (4 - length s) (CHR ''0'') @ s)"

definition candidate_id :: "(nat \<Rightarrow> nat) \<Rightarrow> nat \<Rightarrow> string" where
  "candidate_id draw k =
     pad4 (draw (4 * k)) @ ''-'' @ pad4 (draw (4 * k + 1)) @ ''-'' @ pad4 (draw (4 * k + 2)) @ ''-'' @
     pad4 (draw (4 * k + 3))"

definition new_id :: "'b backend_ops \<Rightarrow> (nat \<Rightarrow> nat) \<Rightarrow> 'b store \<Rightarrow> string option" where
  "new_id ops draw st =
     map_option (candidate_id draw)
       (find (\<lambda>k. candidate_id draw k \<notin> set (dict_keys (sx_sessions st)) \<and>
                  bo_load ops (sx_backend st) (candidate_id draw k) = None) [0..<100])"

datatype store_error = NoFreeId | InvalidId | SaveFailed

text \<open>A new session object; its deletions, ring and heap are empty.\<close>

definition empty_live :: "session \<Rightarrow> live" where
  "empty_live s = \<lparr>lv_session = s, lv_ring = [], lv_heap = (\<lambda>_. []), lv_next = 0\<rparr>"

definition store_create ::
    "'b backend_ops \<Rightarrow> (nat \<Rightarrow> nat) \<Rightarrow> string \<Rightarrow> string option \<Rightarrow> 'b store \<Rightarrow> (store_error + live) \<times> 'b store" where
  "store_create ops draw now name st =
     (case new_id ops draw st of
        None \<Rightarrow> (Inl NoFreeId, st)
      | Some i \<Rightarrow>
          (let lv = empty_live (new_session i name now)
           in case backend_save ops (store_put st i lv) (session_to_dict lv) of
                (ok, st) \<Rightarrow> (if ok then Inr lv else Inl SaveFailed, st)))"

definition store_get :: "'b backend_ops \<Rightarrow> string \<Rightarrow> string \<Rightarrow> 'b store \<Rightarrow> live option \<times> 'b store" where
  "store_get ops now session_id st =
     (if \<not> is_valid_session_id session_id then (None, st)
      else case map_of (sx_sessions st) session_id of
        Some lv \<Rightarrow> (Some lv, st)
      | None \<Rightarrow>
          (case bo_load ops (sx_backend st) session_id of
             None \<Rightarrow> (None, st)
           | Some raw \<Rightarrow>
               (case session_from_dict now raw of
                  None \<Rightarrow> (None, st)
                | Some lv \<Rightarrow> (Some lv, store_put st session_id lv))))"

definition store_get_or_create ::
    "'b backend_ops \<Rightarrow> string \<Rightarrow> string \<Rightarrow> 'b store \<Rightarrow> (store_error + live \<times> bool) \<times> 'b store" where
  "store_get_or_create ops now session_id st =
     (if \<not> is_valid_session_id session_id then (Inl InvalidId, st)
      else case store_get ops now session_id st of
        (Some lv, st) \<Rightarrow> (Inr (lv, False), st)
      | (None, st) \<Rightarrow>
          (let lv = empty_live (new_session session_id None now)
           in case backend_save ops (store_put st session_id lv) (session_to_dict lv) of
                (ok, st) \<Rightarrow> (if ok then Inr (lv, True) else Inl SaveFailed, st)))"

definition store_exists :: "'b backend_ops \<Rightarrow> string \<Rightarrow> string \<Rightarrow> 'b store \<Rightarrow> bool \<times> 'b store" where
  "store_exists ops now session_id st =
     (case store_get ops now session_id st of (r, st) \<Rightarrow> (r \<noteq> None, st))"

definition ensure_meta_cache :: "'b backend_ops \<Rightarrow> 'b store \<Rightarrow> json_obj list \<times> 'b store" where
  "ensure_meta_cache ops st =
     (case sx_meta_cache st of
        Some ms \<Rightarrow> (ms, st)
      | None \<Rightarrow> (let ms = bo_list_meta ops (sx_backend st) in (ms, st\<lparr>sx_meta_cache := Some ms\<rparr>)))"

definition meta_id :: "json_obj \<Rightarrow> string" where
  "meta_id m = (case obj_get m ''id'' of JStr i \<Rightarrow> i | _ \<Rightarrow> [])"

definition store_list_meta :: "'b backend_ops \<Rightarrow> 'b store \<Rightarrow> json_obj list \<times> 'b store" where
  "store_list_meta ops st =
     (case ensure_meta_cache ops st of
        (ms, st) \<Rightarrow>
          (let metas = foldl (\<lambda>d m. dict_set d (meta_id m) m) [] ms;
               metas = foldl (\<lambda>d lv. dict_set d (se_id (lv_session lv)) (session_meta (lv_session lv)))
                 metas (dict_values (sx_sessions st))
           in (sort_by_updated (dict_values metas), st)))"

definition store_rename ::
    "'b backend_ops \<Rightarrow> string \<Rightarrow> string \<Rightarrow> string option \<Rightarrow> 'b store \<Rightarrow> (store_error + live option) \<times> 'b store" where
  "store_rename ops now session_id name st =
     (case store_get ops now session_id st of
        (None, st) \<Rightarrow> (Inr None, st)
      | (Some lv, st) \<Rightarrow>
          (let lv = lv\<lparr>lv_session := (lv_session lv)\<lparr>se_name := name, se_updated_at := now\<rparr>\<rparr>
           in case backend_save ops (store_put st session_id lv) (session_to_dict lv) of
                (ok, st) \<Rightarrow> (if ok then Inr (Some lv) else Inl SaveFailed, st)))"

definition store_delete :: "'b backend_ops \<Rightarrow> string \<Rightarrow> 'b store \<Rightarrow> bool \<times> 'b store" where
  "store_delete ops session_id st =
     (session_id \<in> set (dict_keys (sx_sessions st)) \<or> bo_load ops (sx_backend st) session_id \<noteq> None,
      st\<lparr>sx_sessions := dict_del (sx_sessions st) session_id,
         sx_backend := bo_delete ops (sx_backend st) session_id, sx_meta_cache := None\<rparr>)"

definition store_persist :: "'b backend_ops \<Rightarrow> live \<Rightarrow> 'b store \<Rightarrow> bool \<times> 'b store" where
  "store_persist ops lv st = backend_save ops st (session_to_dict lv)"

definition session_total :: "'b backend_ops \<Rightarrow> 'b store \<Rightarrow> nat \<times> 'b store" where
  "session_total ops st =
     (case ensure_meta_cache ops st of
        (ms, st) \<Rightarrow> (length (remdups (map meta_id ms @ dict_keys (sx_sessions st))), st))"

section \<open>What the seam promises\<close>

text \<open>
  A backend is a map of documents: a save that returns stores the document under its id, one
  that raises changes nothing (the file backend writes aside and renames), a delete forgets.
\<close>

locale session_backend =
  fixes ops :: "'b backend_ops" and inv :: "'b \<Rightarrow> bool" and readable :: "json_obj \<Rightarrow> bool"
  assumes save_inv: "inv b \<Longrightarrow> readable d \<Longrightarrow> bo_save ops b d = (ok, b') \<Longrightarrow> inv b'"
    and save_ok: "inv b \<Longrightarrow> bo_save ops b d = (True, b') \<Longrightarrow> doc_id d = Some i \<Longrightarrow>
      bo_load ops b' j = (if j = i then Some d else bo_load ops b j)"
    and save_failed: "inv b \<Longrightarrow> bo_save ops b d = (False, b') \<Longrightarrow> bo_load ops b' j = bo_load ops b j"
    and delete_ok: "inv b \<Longrightarrow>
      inv (bo_delete ops b i) \<and> bo_load ops (bo_delete ops b i) j = (if j = i then None else bo_load ops b j)"
    and load_readable: "inv b \<Longrightarrow> bo_load ops b i = Some d \<Longrightarrow> readable d \<and> doc_id d = Some i"
    and metas: "inv b \<Longrightarrow> meta_id ` set (bo_list_meta ops b) = {i. bo_load ops b i \<noteq> None}"
begin

definition persisted :: "'b \<Rightarrow> string set" where
  "persisted b = {i. bo_load ops b i \<noteq> None}"

definition store_inv :: "'b store \<Rightarrow> bool" where
  "store_inv st \<longleftrightarrow> inv (sx_backend st) \<and>
     (\<forall>ms. sx_meta_cache st = Some ms \<longrightarrow> meta_id ` set ms = persisted (sx_backend st)) \<and>
     distinct (dict_keys (sx_sessions st))"

text \<open>The sessions that exist, in memory or persisted.\<close>

definition known :: "'b store \<Rightarrow> string set" where
  "known st = {i. map_of (sx_sessions st) i \<noteq> None} \<union> persisted (sx_backend st)"

lemma backend_save_facts:
  assumes "store_inv st" and "backend_save ops st d = (ok, st')" and "doc_id d = Some i" and "readable d"
  shows "store_inv st'" and "sx_sessions st' = sx_sessions st"
    and "bo_load ops (sx_backend st') j = (if ok \<and> j = i then Some d else bo_load ops (sx_backend st) j)"
    and "persisted (sx_backend st') = (if ok then insert i (persisted (sx_backend st)) else persisted (sx_backend st))"
proof -
  obtain ok' b where b: "bo_save ops (sx_backend st) d = (ok', b)" by fastforce
  have inv: "inv (sx_backend st)" using assms(1) by (simp add: store_inv_def)
  note s = save_inv [OF inv assms(4) b]
  have st': "ok' = ok" "sx_backend st' = b" "sx_sessions st' = sx_sessions st"
    "sx_meta_cache st' = (if ok then None else sx_meta_cache st)"
    using assms(2) by (auto simp: backend_save_def b split: bool.splits)
  show load: "bo_load ops (sx_backend st') j = (if ok \<and> j = i then Some d else bo_load ops (sx_backend st) j)" for j
    using b save_ok [OF inv _ assms(3)] save_failed [OF inv] by (cases ok) (simp_all add: st')
  show "sx_sessions st' = sx_sessions st" by (rule st'(3))
  show per: "persisted (sx_backend st') = (if ok then insert i (persisted (sx_backend st)) else persisted (sx_backend st))"
    unfolding persisted_def load by auto
  show "store_inv st'" using assms(1) s per by (simp add: store_inv_def st')
qed

lemma cache_facts:
  assumes inv: "store_inv st" and r: "ensure_meta_cache ops st = (ms, st')"
  shows "store_inv st'" and "known st' = known st" and "sx_sessions st' = sx_sessions st"
    and "sx_backend st' = sx_backend st" and "meta_id ` set ms = persisted (sx_backend st)"
proof -
  have ms: "meta_id ` set ms = persisted (sx_backend st) \<and> (st' = st \<or> st' = st\<lparr>sx_meta_cache := Some ms\<rparr>)"
  proof (cases "sx_meta_cache st")
    case None
    then have "ms = bo_list_meta ops (sx_backend st)" "st' = st\<lparr>sx_meta_cache := Some ms\<rparr>"
      using r by (auto simp: ensure_meta_cache_def Let_def)
    moreover have "inv (sx_backend st)" using inv by (simp add: store_inv_def)
    ultimately show ?thesis using metas by (simp add: persisted_def)
  next
    case (Some xs)
    then have "ms = xs" "st' = st" using r by (auto simp: ensure_meta_cache_def)
    then show ?thesis using inv Some by (simp add: store_inv_def)
  qed
  then have frame: "sx_sessions st' = sx_sessions st" "sx_backend st' = sx_backend st" by auto
  show "meta_id ` set ms = persisted (sx_backend st)"
    and "sx_sessions st' = sx_sessions st" and "sx_backend st' = sx_backend st" using ms frame by blast+
  show "known st' = known st" by (simp add: known_def frame)
  show "store_inv st'" using inv ms unfolding store_inv_def frame by (elim conjE disjE) simp_all
qed

lemma total_known:
  assumes "store_inv st" and "session_total ops st = (n, st')"
  shows "n = card (known st)" and "store_inv st'" and "known st' = known st"
proof -
  obtain ms st1 where c: "ensure_meta_cache ops st = (ms, st1)" by fastforce
  have r: "n = length (remdups (map meta_id ms @ dict_keys (sx_sessions st1)))" "st' = st1"
    using assms(2) by (auto simp: session_total_def c)
  have "set (dict_keys (sx_sessions st)) = {i. map_of (sx_sessions st) i \<noteq> None}"
    by (auto simp: map_of_eq_None_iff)
  then have "set (map meta_id ms @ dict_keys (sx_sessions st1)) = known st"
    using cache_facts [OF assms(1) c] by (simp add: known_def Un_commute)
  then show "n = card (known st)" using r(1) by (simp only: length_remdups_card_conv)
  show "store_inv st'" "known st' = known st" using cache_facts [OF assms(1) c] r(2) by simp_all
qed

lemma get_facts:
  assumes inv: "store_inv st" and r: "store_get ops now i st = (lv, st')"
  shows "store_inv st'" and "known st' = known st" and "sx_backend st' = sx_backend st"
    and "sx_meta_cache st' = sx_meta_cache st"
proof -
  consider "st' = st" | lv where "i \<in> persisted (sx_backend st)" "st' = store_put st i lv"
    using r by (fastforce simp: store_get_def persisted_def split: if_splits option.splits)
  then have "store_inv st' \<and> known st' = known st \<and> sx_backend st' = sx_backend st \<and>
      sx_meta_cache st' = sx_meta_cache st"
  proof cases
    case 2
    then have "known st' = known st" by (auto simp: known_def store_put_def)
    then show ?thesis using inv 2 by (simp add: store_inv_def store_put_def)
  qed (simp add: inv)
  then show "store_inv st'" "known st' = known st" "sx_backend st' = sx_backend st"
    "sx_meta_cache st' = sx_meta_cache st" by blast+
qed

text \<open>Adding a session object and saving it.\<close>

lemma register_facts:
  assumes inv: "store_inv st" and d: "doc_id (session_to_dict lv) = Some i" "readable (session_to_dict lv)"
    and r: "backend_save ops (store_put st i lv) (session_to_dict lv) = (ok, st')"
  shows "store_inv st'" and "known st' = insert i (known st)"
proof -
  have inv': "store_inv (store_put st i lv)" using inv by (simp add: store_inv_def store_put_def)
  note s = backend_save_facts [OF inv' r d]
  show "store_inv st'" by (rule s(1))
  have "sx_backend (store_put st i lv) = sx_backend st" by (simp add: store_put_def)
  then show "known st' = insert i (known st)"
    unfolding known_def s(2,4) by (auto simp: store_put_def)
qed

end

section \<open>The in-memory backend honours it\<close>

definition doc_readable :: "string \<Rightarrow> json_obj \<Rightarrow> bool" where
  "doc_readable now d \<longleftrightarrow> session_from_dict now d \<noteq> None"

definition mem_inv :: "string \<Rightarrow> mem_backend \<Rightarrow> bool" where
  "mem_inv now b \<longleftrightarrow> distinct (map fst b) \<and> (\<forall>i d. map_of b i = Some d \<longrightarrow> doc_readable now d \<and> doc_id d = Some i)"

lemma from_dict_id: "session_from_dict now d = Some lv \<Longrightarrow> doc_id d = Some (se_id (lv_session lv))"
  by (auto simp: session_from_dict_def doc_id_def split: option.splits prod.splits)

lemma meta_id_doc_meta: "doc_readable now d \<Longrightarrow> doc_id d = Some i \<Longrightarrow> meta_id (doc_meta now d) = i"
  using from_dict_id [of now d]
  by (auto simp: doc_readable_def doc_meta_def meta_id_def session_meta_def obj_get_def)

interpretation mem_store: session_backend "mem_backend_ops now" "mem_inv now" "doc_readable now" for now
proof
  fix b b' :: mem_backend and d ok i j
  assume inv: "mem_inv now b"
  {
    assume "bo_save (mem_backend_ops now) b d = (ok, b')" and "doc_readable now d"
    then show "mem_inv now b'"
      using inv by (auto simp: mem_backend_ops_def mem_save_def mem_inv_def split: option.splits if_splits)
  }
  show "bo_save (mem_backend_ops now) b d = (True, b') \<Longrightarrow> doc_id d = Some i \<Longrightarrow>
      bo_load (mem_backend_ops now) b' j = (if j = i then Some d else bo_load (mem_backend_ops now) b j)"
    by (auto simp: mem_backend_ops_def mem_save_def mem_load_def split: option.splits)
  show "bo_save (mem_backend_ops now) b d = (False, b') \<Longrightarrow>
      bo_load (mem_backend_ops now) b' j = bo_load (mem_backend_ops now) b j"
    by (auto simp: mem_backend_ops_def mem_save_def split: option.splits)
  show "mem_inv now (bo_delete (mem_backend_ops now) b i) \<and>
      bo_load (mem_backend_ops now) (bo_delete (mem_backend_ops now) b i) j =
        (if j = i then None else bo_load (mem_backend_ops now) b j)"
    using inv by (auto simp: mem_backend_ops_def mem_delete_def mem_load_def mem_inv_def)
  show "bo_load (mem_backend_ops now) b i = Some d \<Longrightarrow> doc_readable now d \<and> doc_id d = Some i"
    using inv by (auto simp: mem_backend_ops_def mem_load_def mem_inv_def)
  show "meta_id ` set (bo_list_meta (mem_backend_ops now) b) = {i. bo_load (mem_backend_ops now) b i \<noteq> None}"
  proof -
    have d: "distinct (map fst b)" using inv by (simp add: mem_inv_def)
    have id: "meta_id (doc_meta now d) = i" if "(i, d) \<in> set b" for i d
    proof -
      have "map_of b i = Some d" using that d by simp
      then show ?thesis using inv by (auto simp: mem_inv_def intro: meta_id_doc_meta)
    qed
    have "meta_id ` set (bo_list_meta (mem_backend_ops now) b) = (\<lambda>(i, d). meta_id (doc_meta now d)) ` set b"
      by (force simp: mem_backend_ops_def mem_list_meta_def sort_by_updated_def)
    also have "\<dots> = fst ` set b" using id by (force simp: image_iff)
    also have "\<dots> = {i. map_of b i \<noteq> None}" by (auto simp: map_of_eq_None_iff)
    finally show ?thesis by (simp add: mem_backend_ops_def mem_load_def)
  qed
qed

section \<open>Documents survive a restart\<close>

lemma str_list_strs [simp]: "str_list (map JStr xs) = Some xs"
  by (induction xs) simp_all

lemma objects_objs [simp]: "objects (map (\<lambda>x. JObj (f x)) xs) = Some (map f xs)"
  by (induction xs) simp_all

lemma all_some_map: "(\<forall>x \<in> set xs. f x = Some (g x)) \<Longrightarrow> all_some (map f xs) = Some (map g xs)"
  by (induction xs) simp_all

lemma activity_roundtrip:
  "ar_inverse_op r \<noteq> None \<Longrightarrow> activity_from_dict (activity_to_dict r) = Some r"
  by (cases "ar_inverse_op r")
    (auto simp: activity_from_dict_def activity_to_dict_def obj_get_def get_str_def opt_obj_def)

definition reloaded :: "live \<Rightarrow> live" where
  "reloaded lv =
     (let c = lv_canvas lv; ds = map (lv_heap lv) (cv_annotations c)
      in \<lparr>lv_session = (lv_session lv)\<lparr>se_state := c\<lparr>cv_annotations := [0..<length ds]\<rparr>,
            se_deleted_annotation_ids := []\<rparr>,
          lv_ring = [], lv_heap = (\<lambda>a. if a < length ds then ds ! a else []), lv_next = length ds\<rparr>)"

text \<open>What every session has: times, and a log of records with an inverse.\<close>

definition stamped :: "session \<Rightarrow> bool" where
  "stamped s \<longleftrightarrow> se_created_at s \<noteq> [] \<and> se_updated_at s \<noteq> [] \<and>
     (\<forall>r \<in> set (se_activity_log s). ar_inverse_op r \<noteq> None)"

lemma canvas_roundtrip:
  "canvas_from_dict (canvas_to_dict h c) =
     Some (c\<lparr>cv_annotations := [0..<length (cv_annotations c)]\<rparr>, map h (cv_annotations c))"
  by (simp add: canvas_from_dict_def canvas_to_dict_def get_ids_def get_default_def jids_def)

lemma session_roundtrip:
  assumes "stamped (lv_session lv)"
  shows "session_from_dict now (session_to_dict lv) = Some (reloaded lv)"
proof -
  let ?s = "lv_session lv" and ?d = "session_to_dict lv"
  have log: "log_from_list (obj_get ?d ''activity_log'') = Some (se_activity_log ?s)"
    using assms all_some_map [of "se_activity_log ?s" "activity_from_dict \<circ> activity_to_dict" "\<lambda>r. r"]
    by (simp add: session_to_dict_def session_meta_def Let_def obj_get_def log_from_list_def stamped_def
        activity_roundtrip comp_def)
  have state: "Option.bind (state_of ?d) canvas_from_dict =
      Some ((lv_canvas lv)\<lparr>cv_annotations := [0..<length (cv_annotations (lv_canvas lv))]\<rparr>,
        map (lv_heap lv) (cv_annotations (lv_canvas lv)))"
    by (simp add: session_to_dict_def session_meta_def Let_def obj_get_def state_of_def canvas_roundtrip)
      (simp add: canvas_to_dict_def)
  have rest: "get_str ?d ''id'' = Some (se_id ?s)" "name_of ?d = Some (se_name ?s)"
    "str_or_now ?d ''created_at'' now = Some (se_created_at ?s)"
    "str_or_now ?d ''updated_at'' now = Some (se_updated_at ?s)" "seq_or_zero ?d = Some (se_seq ?s)"
    using assms by (simp_all add: session_to_dict_def session_meta_def Let_def obj_get_def get_str_def name_of_def
        opt_str_def str_or_now_def seq_or_zero_def stamped_def json_int_def split: option.split)
  show ?thesis
    unfolding session_from_dict_def log state rest by (simp add: reloaded_def Let_def)
qed

lemma map_heap_upt: "map (\<lambda>a. if a < length ds then ds ! a else e) [0..<length ds] = ds"
  by (rule nth_equalityI) simp_all

lemma reloaded_dict: "session_to_dict (reloaded lv) = session_to_dict lv"
proof -
  have "map (\<lambda>a. JObj (lv_heap (reloaded lv) a)) [0..<length (cv_annotations (lv_canvas lv))] =
      map JObj (map (lv_heap lv) (cv_annotations (lv_canvas lv)))"
    by (rule nth_equalityI) (simp_all add: reloaded_def Let_def)
  then show ?thesis
    by (simp add: session_to_dict_def session_meta_def canvas_to_dict_def Let_def)
      (simp add: reloaded_def Let_def comp_def)
qed

lemma reloaded_inv:
  assumes "live_inv cfg lv"
  shows "live_inv cfg (reloaded lv)"
proof -
  let ?as = "cv_annotations (lv_canvas lv)"
  have "ann_ids (reloaded lv) = ann_ids lv"
    by (rule nth_equalityI) (simp_all add: ann_ids_def reloaded_def Let_def)
  moreover have "ann_valid (lv_heap (reloaded lv) a)" if "a < length ?as" for a
    using assms that by (auto simp: reloaded_def Let_def live_inv_def ann_inv_def)
  ultimately have "ann_inv (reloaded lv)"
    using assms by (simp add: ann_inv_def live_inv_def) (simp add: reloaded_def Let_def)
  then show ?thesis
    using assms by (simp add: live_inv_def canvas_ok_def ring_inv_def log_inv_def)
      (simp add: reloaded_def Let_def)
qed

text \<open>C19: a restart recovers what was persisted. A session written by \<open>persist\<close> and read by a
  fresh store over the same backend is the same document, annotations, layout, log and sequence
  number included, and satisfies the document invariant again; only what is not part of the
  document (the op ring, the memory of recent deletions) starts empty.\<close>

theorem restart_recovers:
  assumes "live_inv cfg lv" and "stamped (lv_session lv)" and "is_valid_session_id (se_id (lv_session lv))"
    and "mem_inv now (sx_backend st)"
  shows "\<exists>st' lv'. store_persist (mem_backend_ops now) lv st = (True, st') \<and>
    fst (store_get (mem_backend_ops now) now' (se_id (lv_session lv)) (store_init (sx_backend st'))) = Some lv' \<and>
    session_to_dict lv' = session_to_dict lv \<and> live_inv cfg lv' \<and> lv_ring lv' = []"
proof -
  have "doc_id (session_to_dict lv) = Some (se_id (lv_session lv))"
    by (simp add: doc_id_def get_str_def session_to_dict_def session_meta_def Let_def obj_get_def)
  then have "store_persist (mem_backend_ops now) lv st = (True, st\<lparr>sx_backend :=
      dict_set (sx_backend st) (se_id (lv_session lv)) (session_to_dict lv), sx_meta_cache := None\<rparr>)"
    by (simp add: store_persist_def backend_save_def mem_backend_ops_def mem_save_def)
  moreover have "fst (store_get (mem_backend_ops now) now' (se_id (lv_session lv))
      (store_init (dict_set (sx_backend st) (se_id (lv_session lv)) (session_to_dict lv)))) = Some (reloaded lv)"
    using assms(3) session_roundtrip [OF assms(2)]
    by (simp add: store_get_def store_init_def mem_backend_ops_def mem_load_def)
  moreover have "lv_ring (reloaded lv) = []" by (simp add: reloaded_def Let_def)
  ultimately show ?thesis using reloaded_dict reloaded_inv [OF assms(1)] by fastforce
qed

lemma restart_recovers_witness:
  "\<exists>st' lv'. store_persist (mem_backend_ops ''now'') (empty_live (new_session ''0001-0002'' None ''now'')) (store_init []) = (True, st') \<and>
    fst (store_get (mem_backend_ops ''now'') ''then'' ''0001-0002'' (store_init (sx_backend st'))) = Some lv' \<and>
    se_seq (lv_session lv') = 0"
proof -
  let ?lv = "empty_live (new_session ''0001-0002'' None ''now'')"
  have inv: "live_inv default_config ?lv"
    by (simp add: live_inv_def empty_live_def new_session_def empty_state_def ann_inv_def ann_ids_def
        canvas_ok_def ring_inv_def log_inv_def)
  have st: "stamped (lv_session ?lv)" by (simp add: stamped_def empty_live_def new_session_def)
  have v: "is_valid_session_id (se_id (lv_session ?lv))" by code_simp
  have b: "mem_inv ''now'' (sx_backend (store_init []))" by (simp add: mem_inv_def store_init_def)
  obtain st' lv' where "store_persist (mem_backend_ops ''now'') ?lv (store_init []) = (True, st')"
      "fst (store_get (mem_backend_ops ''now'') ''then'' (se_id (lv_session ?lv)) (store_init (sx_backend st'))) = Some lv'"
      "session_to_dict lv' = session_to_dict ?lv"
    using restart_recovers [OF inv st v b, of "''then''"] by blast
  moreover have "se_id (lv_session ?lv) = ''0001-0002''" by (simp add: empty_live_def new_session_def)
  moreover have "se_seq (lv_session lv') = 0"
    using \<open>session_to_dict lv' = session_to_dict ?lv\<close>
    by (simp add: session_to_dict_def session_meta_def Let_def empty_live_def new_session_def)
  ultimately show ?thesis by auto
qed

end
