(* ===== verification/SessionManager.thy ===== *)
theory SessionManager
  imports SessionRuns SessionStore EventBus Holds Presence TokenBucket
begin

text \<open>
  The facade over the session store, the bus, presence, claims and leases
  (\<open>SessionManager\<close> in \<open>backend/core/session_manager.py\<close>): image budgets, the batch path
  \<open>apply_ops\<close> with its rollback, the synchronous write methods, undo, connections.

  A call reads its environment from a \<open>call_env\<close>: the monotonic clock at its checks and at its
  commit, the clock and \<open>secrets\<close> of each state op it applies, the event loop it runs on. The
  length of a float's \<open>repr\<close> is a parameter of the document sizes.
\<close>

section \<open>Sizes\<close>

text \<open>\<open>len(json.dumps(v))\<close>: ASCII output, \<open>, \<close> and \<open>: \<close> as separators.\<close>

definition dumps_char :: "char \<Rightarrow> nat" where
  "dumps_char c =
     (if c = CHR 34 \<or> c = CHR 92 then 2
      else if 32 \<le> code c \<and> code c \<le> 126 then 1
      else if code c \<in> {8, 9, 10, 12, 13} then 2
      else 6)"

definition dumps_str :: "string \<Rightarrow> nat" where
  "dumps_str s = sum_list (map dumps_char s) + 2"

text \<open>The elements, the separators between them and the brackets.\<close>

definition dumps_seq :: "nat list \<Rightarrow> nat" where
  "dumps_seq ns = sum_list ns + 2 * (length ns - 1) + 2"

fun dumps_len :: "(rat \<Rightarrow> nat) \<Rightarrow> json \<Rightarrow> nat" where
  "dumps_len float_len JNull = 4"
| "dumps_len float_len (JBool b) = (if b then 4 else 5)"
| "dumps_len float_len (JInt n) = length (string_of_int n)"
| "dumps_len float_len (JFloat r) = float_len r"
| "dumps_len float_len (JStr s) = dumps_str s"
| "dumps_len float_len (JArr vs) = dumps_seq (map (dumps_len float_len) vs)"
| "dumps_len float_len (JObj d) = dumps_seq (map (\<lambda>(k, v). dumps_str k + 2 + dumps_len float_len v) d)"

text \<open>\<open>data_url_byte_length\<close> (\<open>backend/core/image_ingest.py\<close>): what follows the first \<open>;base64,\<close>.\<close>

fun after_marker :: "string \<Rightarrow> string \<Rightarrow> string option" where
  "after_marker marker [] = (if marker = [] then Some [] else None)"
| "after_marker marker (c # cs) =
     (if take (length marker) (c # cs) = marker then Some (drop (length marker) (c # cs))
      else after_marker marker cs)"

definition data_url_byte_length :: "json \<Rightarrow> nat" where
  "data_url_byte_length url =
     (case url of
        JStr s \<Rightarrow> (case after_marker '';base64,'' s of Some encoded \<Rightarrow> (length encoded * 3) div 4 | None \<Rightarrow> 0)
      | _ \<Rightarrow> 0)"

definition image_annotation_bytes :: "json_obj \<Rightarrow> nat" where
  "image_annotation_bytes a =
     (if obj_get a ''type'' \<noteq> JStr ''image'' then 0
      else case obj_get a ''image'' of JObj img \<Rightarrow> data_url_byte_length (obj_get img ''url'') | _ \<Rightarrow> 0)"

definition session_image_bytes :: "live \<Rightarrow> string option \<Rightarrow> nat" where
  "session_image_bytes lv exclude_id =
     sum_list (map (\<lambda>a. image_annotation_bytes (lv_heap lv a))
       (filter (\<lambda>a. case exclude_id of None \<Rightarrow> True | Some i \<Rightarrow> obj_get (lv_heap lv a) ''id'' \<noteq> JStr i)
         (cv_annotations (lv_canvas lv))))"

definition annotation_embedded_image_bytes :: "json \<Rightarrow> nat" where
  "annotation_embedded_image_bytes annotation =
     (case annotation of
        JObj a \<Rightarrow>
          if annotation_type_of a \<noteq> Some ''image'' then 0
          else (case obj_get a ''image'' of
                  JObj img \<Rightarrow>
                    if is_embedded_image_url (obj_get img ''url'')
                    then data_url_byte_length (obj_get img ''url'') else 0
                | _ \<Rightarrow> 0)
      | _ \<Rightarrow> 0)"

definition op_embedded_image_bytes :: "json_obj \<Rightarrow> nat" where
  "op_embedded_image_bytes op =
     (if obj_get op ''op'' \<noteq> JStr ''annotation_created'' \<and> obj_get op ''op'' \<noteq> JStr ''annotation_updated''
      then 0 else annotation_embedded_image_bytes (obj_get op ''annotation''))"

section \<open>Errors, configuration, state\<close>

datatype session_error =
    SessionNotFound
  | RateLimited
  | OpBatchTooLarge
  | ImageBudgetExceeded
  | SessionLimitReached
  | AnnotationNotFound string
  | AnnotationRecentlyDeleted json
  | NoUndoableAction string
  | UndoConflict string
  | LayoutBusy
  | RevisionConflict int int
  | LeaseConflict string string
  | OpFailed op_error
  | StoreFailed store_error

record 'b manager_config =
  mc_store :: store_config
  mc_backend :: "'b backend_ops"
  mc_max_ops :: nat
  mc_max_sessions :: nat
  mc_max_op_batch_bytes :: nat
  mc_max_optimized_image_bytes :: nat
  mc_max_session_image_bytes :: nat
  mc_max_document_bytes :: nat
  mc_float_len :: "rat \<Rightarrow> nat"

text \<open>\<open>mg_locked\<close>: the sessions whose lock a batch holds.\<close>

record 'b manager =
  mg_store :: "'b store"
  mg_bus :: bus
  mg_presence :: presence
  mg_claims :: holds
  mg_leases :: holds
  mg_bucket :: bucket
  mg_lookup_bucket :: bucket
  mg_image_bucket :: bucket
  mg_locked :: "string list"

definition manager_init :: "'b store \<Rightarrow> 'b manager" where
  "manager_init st =
     \<lparr>mg_store = st, mg_bus = bus_init DEFAULT_SUBSCRIBER_QUEUE_MAX, mg_presence = presence_init,
      mg_claims = [], mg_leases = [], mg_bucket = new_bucket 200 100, mg_lookup_bucket = new_bucket 60 2,
      mg_image_bucket = new_bucket 200 100, mg_locked = []\<rparr>"

record call_env =
  ce_now :: rat
  ce_commit :: rat
  ce_wall :: string
  ce_op :: "nat \<Rightarrow> op_env"
  ce_draw :: "nat \<Rightarrow> nat"
  ce_loop :: "nat option"
  ce_closed :: "nat \<Rightarrow> bool"
  ce_dying :: "nat \<Rightarrow> bool"

section \<open>Shared steps\<close>

definition mg_publish :: "call_env \<Rightarrow> string \<Rightarrow> json_obj \<Rightarrow> 'b manager \<Rightarrow> 'b manager" where
  "mg_publish env session_id event m =
     m\<lparr>mg_bus := bus_publish (mg_bus m) session_id event (ce_loop env) (ce_closed env) (ce_dying env)\<rparr>"

definition op_event :: "string \<Rightarrow> json_obj \<Rightarrow> json_obj" where
  "op_event client_id result =
     [(''type'', JStr ''op''), (''client_id'', JStr client_id), (''op'', JObj result),
      (''seq'', obj_get result ''seq'')]"

definition mg_get :: "'b manager_config \<Rightarrow> call_env \<Rightarrow> string \<Rightarrow> 'b manager \<Rightarrow> live option \<times> 'b manager" where
  "mg_get cfg env session_id m =
     (case store_get (mc_backend cfg) (ce_wall env) session_id (mg_store m) of
        (r, st) \<Rightarrow> (r, m\<lparr>mg_store := st\<rparr>))"

definition mg_put :: "string \<Rightarrow> live \<Rightarrow> 'b manager \<Rightarrow> 'b manager" where
  "mg_put session_id lv m = m\<lparr>mg_store := store_put (mg_store m) session_id lv\<rparr>"

definition mg_persist :: "'b manager_config \<Rightarrow> live \<Rightarrow> 'b manager \<Rightarrow> bool \<times> 'b manager" where
  "mg_persist cfg lv m =
     (case store_persist (mc_backend cfg) lv (mg_store m) of (ok, st) \<Rightarrow> (ok, m\<lparr>mg_store := st\<rparr>))"

definition mg_consume :: "call_env \<Rightarrow> string \<Rightarrow> nat \<Rightarrow> 'b manager \<Rightarrow> bool \<times> 'b manager" where
  "mg_consume env client_id amount m =
     (case bucket_consume (mg_bucket m) client_id (of_nat amount) (ce_now env) of
        (ok, b) \<Rightarrow> (ok, m\<lparr>mg_bucket := b\<rparr>))"

definition mg_leases_now :: "rat \<Rightarrow> string \<Rightarrow> 'b manager \<Rightarrow> (string, string) dict \<times> 'b manager" where
  "mg_leases_now now session_id m =
     (case holds_snapshot (mg_leases m) session_id now of (d, h) \<Rightarrow> (d, m\<lparr>mg_leases := h\<rparr>))"

text \<open>
  The rollback of a failed write: \<open>saved\<close> is the session before it. The state put back is a deep
  copy, so its annotations are new objects; the ring gets its old entries back, which refer to
  the old objects; the memory of deletions is not part of what is saved.
\<close>

definition copy_annotations :: "live \<Rightarrow> live \<Rightarrow> live" where
  "copy_annotations saved lv =
     (let as = cv_annotations (lv_canvas saved);
          n = lv_next lv
      in lv\<lparr>lv_session := (lv_session lv)\<lparr>se_state := (lv_canvas saved)\<lparr>cv_annotations := [n..<n + length as]\<rparr>\<rparr>,
            lv_heap := (\<lambda>a. if n \<le> a \<and> a < n + length as then lv_heap saved (as ! (a - n)) else lv_heap lv a),
            lv_next := n + length as\<rparr>)"

definition rollback :: "live \<Rightarrow> live \<Rightarrow> live" where
  "rollback saved lv =
     (let lv = copy_annotations saved lv; s = lv_session saved
      in lv\<lparr>lv_session := (lv_session lv)\<lparr>se_seq := se_seq s, se_name := se_name s,
              se_updated_at := se_updated_at s, se_activity_log := se_activity_log s\<rparr>,
            lv_ring := lv_ring saved\<rparr>)"

section \<open>Sessions\<close>

definition check_lookup_rate :: "call_env \<Rightarrow> string \<Rightarrow> 'b manager \<Rightarrow> session_error option \<times> 'b manager" where
  "check_lookup_rate env client_key m =
     (case bucket_consume (mg_lookup_bucket m) client_key 1 (ce_now env) of
        (ok, b) \<Rightarrow> (if ok then None else Some RateLimited, m\<lparr>mg_lookup_bucket := b\<rparr>))"

definition mg_session_total :: "'b manager_config \<Rightarrow> 'b manager \<Rightarrow> nat \<times> 'b manager" where
  "mg_session_total cfg m =
     (case session_total (mc_backend cfg) (mg_store m) of (n, st) \<Rightarrow> (n, m\<lparr>mg_store := st\<rparr>))"

definition create_session ::
    "'b manager_config \<Rightarrow> call_env \<Rightarrow> string option \<Rightarrow> 'b manager \<Rightarrow> (session_error + live) \<times> 'b manager" where
  "create_session cfg env name m =
     (case mg_session_total cfg m of
        (n, m) \<Rightarrow>
          if mc_max_sessions cfg \<le> n then (Inl SessionLimitReached, m)
          else (case store_create (mc_backend cfg) (ce_draw env) (ce_wall env) name (mg_store m) of
                  (Inl e, st) \<Rightarrow> (Inl (StoreFailed e), m\<lparr>mg_store := st\<rparr>)
                | (Inr lv, st) \<Rightarrow> (Inr lv, m\<lparr>mg_store := st\<rparr>)))"

definition get_or_create ::
    "'b manager_config \<Rightarrow> call_env \<Rightarrow> string \<Rightarrow> 'b manager \<Rightarrow> (session_error + live \<times> bool) \<times> 'b manager" where
  "get_or_create cfg env session_id m =
     (case mg_get cfg env session_id m of
        (Some lv, m) \<Rightarrow> (Inr (lv, False), m)
      | (None, m) \<Rightarrow>
          (case mg_session_total cfg m of
             (n, m) \<Rightarrow>
               if mc_max_sessions cfg \<le> n then (Inl SessionLimitReached, m)
               else (case store_get_or_create (mc_backend cfg) (ce_wall env) session_id (mg_store m) of
                       (Inl e, st) \<Rightarrow> (Inl (StoreFailed e), m\<lparr>mg_store := st\<rparr>)
                     | (Inr r, st) \<Rightarrow> (Inr r, m\<lparr>mg_store := st\<rparr>))))"

definition list_sessions :: "'b manager_config \<Rightarrow> 'b manager \<Rightarrow> json_obj list \<times> 'b manager" where
  "list_sessions cfg m =
     (case store_list_meta (mc_backend cfg) (mg_store m) of (ms, st) \<Rightarrow> (ms, m\<lparr>mg_store := st\<rparr>))"

definition deleted_event :: "string option \<Rightarrow> json_obj" where
  "deleted_event deleted_by = [(''type'', JStr ''session_deleted''), (''deleted_by'', opt_str deleted_by)]"

text \<open>\<open>delete_session\<close> waits for the lock; \<open>delete_session_sync\<close> refuses when it is held.\<close>

definition delete_session ::
    "'b manager_config \<Rightarrow> call_env \<Rightarrow> string \<Rightarrow> string option \<Rightarrow> 'b manager \<Rightarrow> bool \<times> 'b manager" where
  "delete_session cfg env session_id deleted_by m =
     (case store_delete (mc_backend cfg) session_id (mg_store m) of
        (existed, st) \<Rightarrow>
          (let m = m\<lparr>mg_store := st\<rparr>
           in (existed, if existed then mg_publish env session_id (deleted_event deleted_by) m else m)))"

definition delete_session_sync ::
    "'b manager_config \<Rightarrow> call_env \<Rightarrow> string \<Rightarrow> string option \<Rightarrow> 'b manager \<Rightarrow>
     (session_error + bool) \<times> 'b manager" where
  "delete_session_sync cfg env session_id deleted_by m =
     (if session_id \<in> set (mg_locked m) then (Inl LayoutBusy, m)
      else case delete_session cfg env session_id deleted_by m of (existed, m) \<Rightarrow> (Inr existed, m))"

section \<open>Batches\<close>

definition CLAIM_OPS :: "string list" where
  "CLAIM_OPS = [''selection_claimed'', ''selection_released'']"

definition LEASE_OPS :: "string list" where
  "LEASE_OPS = [''edit_lease_acquired'', ''edit_lease_released'']"

text \<open>The annotation an op would change, if it is there.\<close>

definition claimed_annotation_target :: "json_obj \<Rightarrow> live \<Rightarrow> string option" where
  "claimed_annotation_target op lv =
     (let t = obj_get op ''op'';
          ann_id = (if t = JStr ''annotation_updated'' \<or> t = JStr ''annotation_created''
                    then (case obj_get op ''annotation'' of JObj a \<Rightarrow> obj_get a ''id'' | _ \<Rightarrow> JNull)
                    else if t = JStr ''annotation_deleted''
                    then (if truthy (obj_get op ''annotation_id'') then obj_get op ''annotation_id''
                          else obj_get op ''id'')
                    else if t = JStr ''group_membership_changed'' then obj_get op ''group_id''
                    else JNull)
      in case ann_id of
           JStr i \<Rightarrow> if find_annotation lv i \<noteq> None then Some i else None
         | _ \<Rightarrow> None)"

definition element_ids :: "json_obj \<Rightarrow> string list option" where
  "element_ids op = (case obj_get op ''element_ids'' of JArr vs \<Rightarrow> str_list vs | _ \<Rightarrow> None)"

definition validate_claim_op :: "json_obj \<Rightarrow> op_error option" where
  "validate_claim_op op = (if element_ids op = None then Some OpError else None)"

definition validate_batch_op :: "json \<Rightarrow> op_error option" where
  "validate_batch_op v =
     (case v of
        JObj op \<Rightarrow>
          (case obj_get op ''op'' of
             JStr t \<Rightarrow>
               if t \<in> set CLAIM_OPS \<or> t \<in> set LEASE_OPS then validate_claim_op op
               else if t \<in> set STATE_OPS then None else Some OpError
           | t \<Rightarrow> Some (if hashable t then OpError else PyError))
      | _ \<Rightarrow> Some OpError)"

fun validate_batch :: "json list \<Rightarrow> op_error option" where
  "validate_batch [] = None"
| "validate_batch (v # vs) = (case validate_batch_op v of Some e \<Rightarrow> Some e | None \<Rightarrow> validate_batch vs)"

text \<open>The bytes of the ops without an embedded image, each image within its own budget.\<close>

fun non_image_bytes :: "'b manager_config \<Rightarrow> json list \<Rightarrow> session_error + nat" where
  "non_image_bytes cfg [] = Inr 0"
| "non_image_bytes cfg (JObj op # vs) =
     (let n = op_embedded_image_bytes op
      in if 0 < n
         then (if mc_max_optimized_image_bytes cfg < n then Inl ImageBudgetExceeded
               else non_image_bytes cfg vs)
         else py_bind (non_image_bytes cfg vs) (\<lambda>k. Inr (dumps_len (mc_float_len cfg) (JObj op) + k)))"
| "non_image_bytes cfg (v # vs) = non_image_bytes cfg vs"

datatype pending =
    PState applied_op
  | PClaim string "string list"
  | PAcquire "string list" "(string, string) dict"
  | PRelease "string list"

text \<open>The lease ops of a batch against its working copy of the leases.\<close>

fun working_acquire ::
    "string \<Rightarrow> string list \<Rightarrow> (string, string) dict \<Rightarrow> string list \<Rightarrow> (string, string) dict \<Rightarrow>
     string list \<times> (string, string) dict \<times> (string, string) dict" where
  "working_acquire client_id [] w granted denied = (granted, denied, w)"
| "working_acquire client_id (eid # eids) w granted denied =
     (case map_of w eid of
        Some h \<Rightarrow>
          if h \<noteq> client_id then working_acquire client_id eids w granted (dict_set denied eid h)
          else working_acquire client_id eids (dict_set w eid client_id) (granted @ [eid]) denied
      | None \<Rightarrow> working_acquire client_id eids (dict_set w eid client_id) (granted @ [eid]) denied)"

fun working_release ::
    "string \<Rightarrow> string list \<Rightarrow> (string, string) dict \<Rightarrow> string list \<Rightarrow> string list \<times> (string, string) dict" where
  "working_release client_id [] w released = (released, w)"
| "working_release client_id (eid # eids) w released =
     (if map_of w eid = Some client_id
      then working_release client_id eids (dict_del w eid) (released @ [eid])
      else working_release client_id eids w released)"

definition lease_conflict :: "json_obj \<Rightarrow> live \<Rightarrow> (string, string) dict \<Rightarrow> string \<Rightarrow> session_error option" where
  "lease_conflict op lv leases client_id =
     (case claimed_annotation_target op lv of
        None \<Rightarrow> None
      | Some i \<Rightarrow>
          (case map_of leases i of
             None \<Rightarrow> None
           | Some h \<Rightarrow> if h \<noteq> client_id then Some (LeaseConflict i h) else None))"

definition batch_op ::
    "'b manager_config \<Rightarrow> op_env \<Rightarrow> string \<Rightarrow> json_obj \<Rightarrow> live \<Rightarrow> (string, string) dict \<Rightarrow>
     (session_error + pending option) \<times> live \<times> (string, string) dict" where
  "batch_op cfg env client_id op lv w =
     (let t = (case obj_get op ''op'' of JStr s \<Rightarrow> s | _ \<Rightarrow> []);
          ids = (case element_ids op of Some ids \<Rightarrow> ids | None \<Rightarrow> [])
      in if t \<in> set CLAIM_OPS then (Inr (Some (PClaim t ids)), lv, w)
         else if t = ''edit_lease_acquired''
         then (case working_acquire client_id (union_ids [] ids) w [] [] of
                 (granted, denied, w) \<Rightarrow> (Inr (Some (PAcquire granted denied)), lv, w))
         else if t = ''edit_lease_released''
         then (case working_release client_id (union_ids [] ids) w [] of
                 (released, w) \<Rightarrow> (Inr (Some (PRelease released)), lv, w))
         else case lease_conflict op lv w client_id of
           Some e \<Rightarrow> (Inl e, lv, w)
         | None \<Rightarrow>
             (case apply_state_op (mc_store cfg) env True False lv (dict_set op ''client_id'' (JStr client_id)) of
                (Inl e, lv) \<Rightarrow> (Inl (OpFailed e), lv, w)
              | (Inr r, lv) \<Rightarrow> (Inr (map_option PState r), lv, w)))"

fun batch_loop ::
    "'b manager_config \<Rightarrow> (nat \<Rightarrow> op_env) \<Rightarrow> string \<Rightarrow> nat \<Rightarrow> json list \<Rightarrow> live \<Rightarrow> (string, string) dict \<Rightarrow>
     (session_error + pending list) \<times> live" where
  "batch_loop cfg envs client_id k [] lv w = (Inr [], lv)"
| "batch_loop cfg envs client_id k (v # vs) lv w =
     (case v of
        JObj op \<Rightarrow>
          (case batch_op cfg (envs k) client_id op lv w of
             (Inl e, lv, w) \<Rightarrow> (Inl e, lv)
           | (Inr p, lv, w) \<Rightarrow>
               (case batch_loop cfg envs client_id (k + 1) vs lv w of
                  (Inl e, lv) \<Rightarrow> (Inl e, lv)
                | (Inr ps, lv) \<Rightarrow> (Inr ((case p of None \<Rightarrow> [] | Some x \<Rightarrow> [x]) @ ps), lv)))
      | _ \<Rightarrow> (Inl (OpFailed OpError), lv))"

fun is_state :: "pending \<Rightarrow> bool" where
  "is_state (PState _) = True"
| "is_state _ = False"

text \<open>The budgets of the resulting document.\<close>

definition budget_error :: "'b manager_config \<Rightarrow> live \<Rightarrow> session_error option" where
  "budget_error cfg lv =
     (if mc_max_session_image_bytes cfg < session_image_bytes lv None then Some ImageBudgetExceeded
      else if mc_max_document_bytes cfg < dumps_len (mc_float_len cfg) (JObj (session_to_dict lv))
      then Some ImageBudgetExceeded else None)"

text \<open>The checks before the lock.\<close>

definition apply_ops_checks ::
    "'b manager_config \<Rightarrow> call_env \<Rightarrow> string \<Rightarrow> json \<Rightarrow> json \<Rightarrow> 'b manager \<Rightarrow>
     (session_error + string \<times> json list) \<times> 'b manager" where
  "apply_ops_checks cfg env session_id client_id ops m =
     (if \<not> is_valid_session_id session_id then (Inl SessionNotFound, m)
      else case ops of
        JArr vs \<Rightarrow>
          if mc_max_ops cfg < length vs then (Inl OpBatchTooLarge, m)
          else (case non_image_bytes cfg vs of
             Inl e \<Rightarrow> (Inl e, m)
           | Inr n \<Rightarrow>
               if mc_max_op_batch_bytes cfg < n then (Inl OpBatchTooLarge, m)
               else (case client_id of
                  JStr c \<Rightarrow>
                    if c = [] then (Inl (OpFailed OpError), m)
                    else (case mg_consume env c (max 1 (length vs)) m of
                       (False, m) \<Rightarrow> (Inl RateLimited, m)
                     | (True, m) \<Rightarrow>
                         (case mg_get cfg env session_id m of
                            (None, m) \<Rightarrow> (Inl SessionNotFound, m)
                          | (Some _, m) \<Rightarrow>
                              (case validate_batch vs of
                                 Some e \<Rightarrow> (Inl (OpFailed e), m)
                               | None \<Rightarrow> (Inr (c, vs), m))))
                | _ \<Rightarrow> (Inl (OpFailed OpError), m)))
      | _ \<Rightarrow> (Inl (OpFailed OpError), m))"

text \<open>
  A batch whose state ops wait for the disk: what it saved for the rollback, its pending
  effects, the snapshot being written. It holds the lock of its session.
\<close>

record inflight =
  if_client :: string
  if_saved :: live
  if_pending :: "pending list"
  if_snapshot :: "json_obj option"

definition mg_lock :: "string \<Rightarrow> 'b manager \<Rightarrow> 'b manager" where
  "mg_lock i m = m\<lparr>mg_locked := i # mg_locked m\<rparr>"

definition mg_unlock :: "string \<Rightarrow> 'b manager \<Rightarrow> 'b manager" where
  "mg_unlock i m = m\<lparr>mg_locked := remove1 i (mg_locked m)\<rparr>"

text \<open>From the lock to the write of the snapshot.\<close>

definition apply_ops_enter ::
    "'b manager_config \<Rightarrow> call_env \<Rightarrow> string \<Rightarrow> string \<Rightarrow> json list \<Rightarrow> 'b manager \<Rightarrow>
     (session_error + inflight) \<times> 'b manager" where
  "apply_ops_enter cfg env session_id client_id vs m =
     (case mg_get cfg env session_id m of
        (None, m) \<Rightarrow> (Inl SessionNotFound, m)
      | (Some saved, m) \<Rightarrow>
          (case mg_leases_now (ce_now env) session_id m of
             (leases, m) \<Rightarrow>
               (case batch_loop cfg (ce_op env) client_id 0 vs saved leases of
                  (Inl e, lv) \<Rightarrow> (Inl e, mg_put session_id (rollback saved lv) m)
                | (Inr ps, lv) \<Rightarrow>
                    if \<not> list_ex is_state ps
                    then (Inr \<lparr>if_client = client_id, if_saved = saved, if_pending = ps, if_snapshot = None\<rparr>,
                          mg_lock session_id (mg_put session_id lv m))
                    else (case budget_error cfg lv of
                       Some e \<Rightarrow> (Inl e, mg_put session_id (rollback saved lv) m)
                     | None \<Rightarrow>
                         (Inr \<lparr>if_client = client_id, if_saved = saved, if_pending = ps,
                               if_snapshot = Some (session_to_dict lv)\<rparr>,
                          mg_lock session_id (mg_put session_id lv m))))))"

text \<open>The effect of a pending entry after the commit, and what the caller is told of it.\<close>

definition hold_event :: "string \<Rightarrow> string \<Rightarrow> string list \<Rightarrow> json_obj" where
  "hold_event op_type client_id ids =
     [(''type'', JStr ''op''), (''client_id'', JStr client_id),
      (''op'', JObj [(''op'', JStr op_type), (''client_id'', JStr client_id), (''element_ids'', jids ids)])]"

definition hold_result :: "string \<Rightarrow> string list \<Rightarrow> json_obj" where
  "hold_result op_type ids = [(''op'', JStr op_type), (''element_ids'', jids ids)]"

definition commit_entry ::
    "call_env \<Rightarrow> string \<Rightarrow> string \<Rightarrow> heap \<Rightarrow> pending \<Rightarrow> 'b manager \<Rightarrow> json_obj \<times> 'b manager" where
  "commit_entry env session_id client_id h p m =
     (case p of
        PState ap \<Rightarrow>
          (applied_view h ap, mg_publish env session_id (op_event client_id (applied_view h ap)) m)
      | PClaim t ids \<Rightarrow>
          (case (if t = ''selection_claimed''
                 then (ids, snd (claim CLAIM_TTL (mg_claims m) session_id client_id ids (ce_commit env) (ce_commit env)))
                 else holds_release (mg_claims m) session_id client_id ids (ce_commit env)) of
             (ids, claims) \<Rightarrow>
               (hold_result t ids,
                mg_publish env session_id (hold_event t client_id ids) (m\<lparr>mg_claims := claims\<rparr>)))
      | PAcquire granted denied \<Rightarrow>
          (hold_result ''edit_lease_acquired'' granted @ [(''denied'', JObj (map (\<lambda>(e, c). (e, JStr c)) denied))],
           if granted = [] then m
           else mg_publish env session_id (hold_event ''edit_lease_acquired'' client_id granted)
             (m\<lparr>mg_leases := snd (acquire LEASE_TTL (mg_leases m) session_id client_id granted
                 (ce_commit env) (ce_commit env))\<rparr>))
      | PRelease ids \<Rightarrow>
          (hold_result ''edit_lease_released'' ids,
           if ids = [] then m
           else mg_publish env session_id (hold_event ''edit_lease_released'' client_id ids)
             (m\<lparr>mg_leases := snd (holds_release (mg_leases m) session_id client_id ids (ce_commit env))\<rparr>)))"

fun commit_entries ::
    "call_env \<Rightarrow> string \<Rightarrow> string \<Rightarrow> heap \<Rightarrow> pending list \<Rightarrow> 'b manager \<Rightarrow> json_obj list \<times> 'b manager" where
  "commit_entries env session_id client_id h [] m = ([], m)"
| "commit_entries env session_id client_id h (p # ps) m =
     (case commit_entry env session_id client_id h p m of
        (r, m) \<Rightarrow> (case commit_entries env session_id client_id h ps m of (rs, m) \<Rightarrow> (r # rs, m)))"

text \<open>The session object of a batch in flight.\<close>

definition live_of :: "string \<Rightarrow> 'b manager \<Rightarrow> live \<Rightarrow> live" where
  "live_of session_id m fallback =
     (case map_of (sx_sessions (mg_store m)) session_id of Some lv \<Rightarrow> lv | None \<Rightarrow> fallback)"

text \<open>From the end of the write to the release of the lock.\<close>

definition apply_ops_leave ::
    "'b manager_config \<Rightarrow> call_env \<Rightarrow> string \<Rightarrow> inflight \<Rightarrow> 'b manager \<Rightarrow>
     (session_error + json_obj list \<times> int) \<times> 'b manager" where
  "apply_ops_leave cfg env session_id f m =
     (let lv = live_of session_id m (if_saved f)
      in case (case if_snapshot f of
                 None \<Rightarrow> (True, mg_store m)
               | Some doc \<Rightarrow> backend_save (mc_backend cfg) (mg_store m) doc) of
           (False, st) \<Rightarrow>
             (Inl (StoreFailed SaveFailed),
              mg_unlock session_id (mg_put session_id (rollback (if_saved f) lv) (m\<lparr>mg_store := st\<rparr>)))
         | (True, st) \<Rightarrow>
             (case commit_entries env session_id (if_client f) (lv_heap lv) (if_pending f) (m\<lparr>mg_store := st\<rparr>) of
                (rs, m) \<Rightarrow> (Inr (rs, se_seq (lv_session lv)), mg_unlock session_id m)))"

text \<open>A batch that nothing interleaves with.\<close>

definition apply_ops ::
    "'b manager_config \<Rightarrow> call_env \<Rightarrow> string \<Rightarrow> json \<Rightarrow> json \<Rightarrow> 'b manager \<Rightarrow>
     (session_error + json_obj list \<times> int) \<times> 'b manager" where
  "apply_ops cfg env session_id client_id ops m =
     (case apply_ops_checks cfg env session_id client_id ops m of
        (Inl e, m) \<Rightarrow> (Inl e, m)
      | (Inr (c, vs), m) \<Rightarrow>
          (case apply_ops_enter cfg env session_id c vs m of
             (Inl e, m) \<Rightarrow> (Inl e, m)
           | (Inr f, m) \<Rightarrow> apply_ops_leave cfg env session_id f m))"

definition rename_session ::
    "'b manager_config \<Rightarrow> call_env \<Rightarrow> string \<Rightarrow> string option \<Rightarrow> string option \<Rightarrow> 'b manager \<Rightarrow>
     (session_error + live option) \<times> 'b manager" where
  "rename_session cfg env session_id name client_id m =
     (case get_or_create cfg env session_id m of
        (Inl e, m) \<Rightarrow> (Inl e, m)
      | (Inr _, m) \<Rightarrow>
          (case apply_ops cfg env session_id (JStr (case client_id of Some (c # cs) \<Rightarrow> c # cs | _ \<Rightarrow> ''rest''))
                  (JArr [JObj [(''op'', JStr ''session_renamed''), (''name'', opt_str name)]]) m of
             (Inl e, m) \<Rightarrow> (Inl e, m)
           | (Inr _, m) \<Rightarrow> (case mg_get cfg env session_id m of (r, m) \<Rightarrow> (Inr r, m))))"

section \<open>Synchronous writes\<close>

text \<open>
  \<open>_apply_op_sync\<close>: apply, persist, broadcast, or roll back. It returns the applied op and the
  session it leaves; \<open>rename_session_sync\<close> repeats its steps.
\<close>

definition apply_op_sync ::
    "'b manager_config \<Rightarrow> call_env \<Rightarrow> bool \<Rightarrow> bool \<Rightarrow> string \<Rightarrow> string \<Rightarrow> live \<Rightarrow> json_obj \<Rightarrow> 'b manager \<Rightarrow>
     (session_error + (applied_op option \<times> live)) \<times> 'b manager" where
  "apply_op_sync cfg env record_activity trusted_replay session_id client_id saved op m =
     (case apply_state_op (mc_store cfg) (ce_op env 0) record_activity trusted_replay saved op of
        (Inl e, lv) \<Rightarrow> (Inl (OpFailed e), mg_put session_id (rollback saved lv) m)
      | (Inr None, lv) \<Rightarrow> (Inr (None, lv), mg_put session_id lv m)
      | (Inr (Some ap), lv) \<Rightarrow>
          (case mg_persist cfg lv (mg_put session_id lv m) of
             (False, m) \<Rightarrow> (Inl (StoreFailed SaveFailed), mg_put session_id (rollback saved lv) m)
           | (True, m) \<Rightarrow>
               (Inr (Some ap, lv),
                mg_publish env session_id (op_event client_id (applied_view (lv_heap lv) ap)) m)))"

text \<open>The checks every synchronous write makes between its throttle and its op.\<close>

definition open_for_write ::
    "'b manager_config \<Rightarrow> call_env \<Rightarrow> string \<Rightarrow> int option \<Rightarrow> 'b manager \<Rightarrow> (session_error + live) \<times> 'b manager" where
  "open_for_write cfg env session_id expected_revision m =
     (if session_id \<in> set (mg_locked m) then (Inl LayoutBusy, m)
      else case mg_get cfg env session_id m of
        (None, m) \<Rightarrow> (Inl SessionNotFound, m)
      | (Some lv, m) \<Rightarrow>
          (case expected_revision of
             None \<Rightarrow> (Inr lv, m)
           | Some r \<Rightarrow>
               if r \<noteq> se_seq (lv_session lv) then (Inl (RevisionConflict r (se_seq (lv_session lv))), m)
               else (Inr lv, m)))"

definition throttled ::
    "'b manager_config \<Rightarrow> call_env \<Rightarrow> string \<Rightarrow> string \<Rightarrow> nat \<Rightarrow> int option \<Rightarrow> 'b manager \<Rightarrow>
     (session_error + live) \<times> 'b manager" where
  "throttled cfg env session_id client_id amount expected_revision m =
     (case mg_consume env client_id amount m of
        (False, m) \<Rightarrow> (Inl RateLimited, m)
      | (True, m) \<Rightarrow> open_for_write cfg env session_id expected_revision m)"

definition reject_if_leased ::
    "call_env \<Rightarrow> string \<Rightarrow> string \<Rightarrow> live \<Rightarrow> json_obj \<Rightarrow> 'b manager \<Rightarrow> session_error option \<times> 'b manager" where
  "reject_if_leased env session_id client_id lv op m =
     (if claimed_annotation_target op lv = None then (None, m)
      else case mg_leases_now (ce_now env) session_id m of
        (leases, m) \<Rightarrow> (lease_conflict op lv leases client_id, m))"

definition leased_write ::
    "'b manager_config \<Rightarrow> call_env \<Rightarrow> string \<Rightarrow> string \<Rightarrow> string \<Rightarrow> live \<Rightarrow> json_obj \<Rightarrow> 'b manager \<Rightarrow>
     (session_error + (applied_op option \<times> live)) \<times> 'b manager" where
  "leased_write cfg env session_id lease_client client_id lv op m =
     (case reject_if_leased env session_id lease_client lv op m of
        (Some e, m) \<Rightarrow> (Inl e, m)
      | (None, m) \<Rightarrow> apply_op_sync cfg env True False session_id client_id lv op m)"

text \<open>What a write returns: the applied op and the revision.\<close>

record write_result =
  wr_applied :: "json_obj option"
  wr_revision :: int

definition write_result_of :: "applied_op option \<times> live \<Rightarrow> write_result" where
  "write_result_of r =
     \<lparr>wr_applied = map_option (applied_view (lv_heap (snd r))) (fst r), wr_revision = se_seq (lv_session (snd r))\<rparr>"

definition rename_session_sync ::
    "'b manager_config \<Rightarrow> call_env \<Rightarrow> string \<Rightarrow> string option \<Rightarrow> string option \<Rightarrow> 'b manager \<Rightarrow>
     (session_error + live) \<times> 'b manager" where
  "rename_session_sync cfg env session_id name client_id m =
     (if \<not> is_valid_session_id session_id then (Inl SessionNotFound, m)
      else case get_or_create cfg env session_id m of
        (Inl e, m) \<Rightarrow> (Inl e, m)
      | (Inr _, m) \<Rightarrow>
          (case open_for_write cfg env session_id None m of
             (Inl e, m) \<Rightarrow> (Inl e, m)
           | (Inr lv, m) \<Rightarrow>
               (let c = (case client_id of Some (c # cs) \<Rightarrow> c # cs | _ \<Rightarrow> ''rest'')
                in case apply_op_sync cfg env True False session_id c lv
                          [(''op'', JStr ''session_renamed''), (''name'', opt_str name), (''client_id'', JStr c)] m of
                     (Inl e, m) \<Rightarrow> (Inl e, m)
                   | (Inr r, m) \<Rightarrow> (Inr (snd r), m))))"

text \<open>The targets of a delta move: \<open>None\<close> is a delta that is refused.\<close>

definition delta_target :: "json_obj \<Rightarrow> string \<Rightarrow> json \<Rightarrow> op_error + json" where
  "delta_target positions node_id delta =
     (case delta of
        JObj d \<Rightarrow>
          (case (json_num (obj_get d ''dx''), json_num (obj_get d ''dy'')) of
             (Some dx, Some dy) \<Rightarrow>
               (case or_origin (obj_get positions node_id) of
                  JObj base \<Rightarrow>
                    (case (json_num (obj_get base ''x''), json_num (obj_get base ''y'')) of
                       (Some x, Some y) \<Rightarrow> Inr (point (x + dx) (y + dy))
                     | _ \<Rightarrow> Inl PyError)
                | _ \<Rightarrow> Inl PyError)
           | _ \<Rightarrow> Inl OpError)
      | _ \<Rightarrow> Inl OpError)"

fun delta_targets :: "json_obj \<Rightarrow> json_obj \<Rightarrow> op_error + json_obj" where
  "delta_targets positions [] = Inr []"
| "delta_targets positions ((n, d) # ds) =
     py_bind (delta_target positions n d) (\<lambda>p. py_bind (delta_targets positions ds) (\<lambda>ps. Inr ((n, p) # ps)))"

definition apply_layout ::
    "'b manager_config \<Rightarrow> call_env \<Rightarrow> string \<Rightarrow> string \<Rightarrow> json option \<Rightarrow> json option \<Rightarrow> int option \<Rightarrow>
     json option \<Rightarrow> 'b manager \<Rightarrow> (session_error + write_result \<times> nat) \<times> 'b manager" where
  "apply_layout cfg env session_id client_id positions deltas expected_revision animation m =
     (if \<not> is_valid_session_id session_id then (Inl SessionNotFound, m)
      else if client_id = [] then (Inl (OpFailed OpError), m)
      else if (positions = None) = (deltas = None) then (Inl (OpFailed OpError), m)
      else case (case positions of Some p \<Rightarrow> p | None \<Rightarrow> the deltas) of
        JObj moves \<Rightarrow>
          if moves = [] then (Inl (OpFailed OpError), m)
          else if mc_max_ops cfg < length moves then (Inl OpBatchTooLarge, m)
          else if mc_max_op_batch_bytes cfg < dumps_len (mc_float_len cfg) (JObj moves)
          then (Inl OpBatchTooLarge, m)
          else (case throttled cfg env session_id client_id (length moves) expected_revision m of
             (Inl e, m) \<Rightarrow> (Inl e, m)
           | (Inr lv, m) \<Rightarrow>
               (case (if deltas = None then Inr moves else delta_targets (cv_positions (lv_canvas lv)) moves) of
                  Inl e \<Rightarrow> (Inl (OpFailed e), m)
                | Inr target \<Rightarrow>
                    (case apply_op_sync cfg env True False session_id client_id lv
                        ([(''op'', JStr ''layout_applied''), (''positions'', JObj target),
                          (''client_id'', JStr client_id)] @
                         (case animation of None \<Rightarrow> [] | Some v \<Rightarrow> [(''animation'', v)])) m of
                       (Inl e, m) \<Rightarrow> (Inl e, m)
                     | (Inr r, m) \<Rightarrow> (Inr (write_result_of r, length target), m))))
      | _ \<Rightarrow> (Inl (OpFailed OpError), m))"

text \<open>The ids a call adds, in order and once each.\<close>

fun new_refs :: "string list \<Rightarrow> json list \<Rightarrow> string list" where
  "new_refs present [] = []"
| "new_refs present (v # vs) =
     (case v of
        JStr n \<Rightarrow> if n \<in> set present then new_refs present vs else n # new_refs (n # present) vs
      | _ \<Rightarrow> new_refs present vs)"

record add_result =
  ad_write :: write_result
  ad_added :: "string list"
  ad_node_count :: nat

definition add_node_refs ::
    "'b manager_config \<Rightarrow> call_env \<Rightarrow> string \<Rightarrow> string \<Rightarrow> json list \<Rightarrow> int option \<Rightarrow> 'b manager \<Rightarrow>
     (session_error + add_result) \<times> 'b manager" where
  "add_node_refs cfg env session_id client_id node_ids expected_revision m =
     (if \<not> is_valid_session_id session_id then (Inl SessionNotFound, m)
      else if client_id = [] then (Inl (OpFailed OpError), m)
      else if node_ids = [] then (Inl (OpFailed OpError), m)
      else if mc_max_ops cfg < length node_ids then (Inl OpBatchTooLarge, m)
      else if mc_max_op_batch_bytes cfg < dumps_len (mc_float_len cfg) (JArr node_ids) then (Inl OpBatchTooLarge, m)
      else case throttled cfg env session_id client_id (length node_ids) expected_revision m of
        (Inl e, m) \<Rightarrow> (Inl e, m)
      | (Inr lv, m) \<Rightarrow>
          (let added = new_refs (cv_node_refs (lv_canvas lv)) node_ids
           in if added = []
              then (Inr \<lparr>ad_write = write_result_of (None, lv), ad_added = [],
                         ad_node_count = length (cv_node_refs (lv_canvas lv))\<rparr>, m)
              else (case apply_op_sync cfg env True False session_id client_id lv
                  [(''op'', JStr ''nodes_added''), (''node_ids'', jids added), (''client_id'', JStr client_id)] m of
                 (Inl e, m) \<Rightarrow> (Inl e, m)
               | (Inr r, m) \<Rightarrow>
                   (Inr \<lparr>ad_write = write_result_of r, ad_added = added,
                         ad_node_count = length (cv_node_refs (lv_canvas (snd r)))\<rparr>, m))))"

section \<open>Annotation writes\<close>

text \<open>\<open>next((a for a in annotations if a.get("id") == annotation_id), None)\<close> for a string id.\<close>

definition existing_annotation :: "live \<Rightarrow> json \<Rightarrow> json_obj option" where
  "existing_annotation lv ann_id =
     (case ann_id of JStr i \<Rightarrow> map_option (lv_heap lv) (find_annotation lv i) | _ \<Rightarrow> None)"

text \<open>\<open>_check_image_budgets\<close>.\<close>

definition image_budget_error ::
    "'b manager_config \<Rightarrow> live \<Rightarrow> json \<Rightarrow> json_obj \<Rightarrow> nat \<Rightarrow> session_error option" where
  "image_budget_error cfg lv ann_id annotation image_bytes =
     (let len = dumps_len (mc_float_len cfg);
          other = session_image_bytes lv (case ann_id of JStr i \<Rightarrow> Some i | _ \<Rightarrow> None);
          existing_bytes = (case existing_annotation lv ann_id of Some e \<Rightarrow> len (JObj e) | None \<Rightarrow> 0);
          projected = int (len (JObj (session_to_dict lv))) - int existing_bytes + int (len (JObj annotation))
      in if mc_max_optimized_image_bytes cfg < image_bytes then Some ImageBudgetExceeded
         else if mc_max_session_image_bytes cfg < other + image_bytes then Some ImageBudgetExceeded
         else if int (mc_max_document_bytes cfg) < projected then Some ImageBudgetExceeded
         else None)"

definition created_op :: "json_obj \<Rightarrow> string \<Rightarrow> json_obj" where
  "created_op annotation client_id =
     [(''op'', JStr ''annotation_created''), (''annotation'', JObj annotation), (''client_id'', JStr client_id)]"

text \<open>The write of both upserts: \<open>None\<close> from the store is a recently deleted id.\<close>

definition upsert_write ::
    "'b manager_config \<Rightarrow> call_env \<Rightarrow> string \<Rightarrow> string \<Rightarrow> string \<Rightarrow> live \<Rightarrow> json_obj \<Rightarrow> 'b manager \<Rightarrow>
     (session_error + write_result) \<times> 'b manager" where
  "upsert_write cfg env session_id lease_client client_id lv annotation m =
     (case leased_write cfg env session_id lease_client client_id lv (created_op annotation client_id) m of
        (Inl e, m) \<Rightarrow> (Inl e, m)
      | (Inr (None, lv), m) \<Rightarrow> (Inl (AnnotationRecentlyDeleted (obj_get annotation ''id'')), m)
      | (Inr (Some ap, lv), m) \<Rightarrow> (Inr (write_result_of (Some ap, lv)), m))"

definition upsert_annotation ::
    "'b manager_config \<Rightarrow> call_env \<Rightarrow> string \<Rightarrow> string \<Rightarrow> json \<Rightarrow> int option \<Rightarrow> 'b manager \<Rightarrow>
     (session_error + write_result) \<times> 'b manager" where
  "upsert_annotation cfg env session_id client_id annotation expected_revision m =
     (if \<not> is_valid_session_id session_id then (Inl SessionNotFound, m)
      else if client_id = [] then (Inl (OpFailed OpError), m)
      else case annotation of
        JObj a \<Rightarrow>
          (case throttled cfg env session_id client_id 1 expected_revision m of
             (Inl e, m) \<Rightarrow> (Inl e, m)
           | (Inr lv, m) \<Rightarrow>
               (let n = annotation_embedded_image_bytes annotation
                in case (if 0 < n then image_budget_error cfg lv (obj_get a ''id'') a n
                         else if mc_max_op_batch_bytes cfg < dumps_len (mc_float_len cfg) (JObj a)
                         then Some OpBatchTooLarge else None) of
                     Some e \<Rightarrow> (Inl e, m)
                   | None \<Rightarrow> upsert_write cfg env session_id client_id client_id lv a m))
      | _ \<Rightarrow> (Inl (OpFailed OpError), m))"

text \<open>\<open>rate_limit_key\<close> picks the bucket, \<open>lease_client_id\<close> whose lease is checked.\<close>

definition upsert_image_annotation ::
    "'b manager_config \<Rightarrow> call_env \<Rightarrow> string \<Rightarrow> string \<Rightarrow> json \<Rightarrow> nat \<Rightarrow> string option \<Rightarrow> string option \<Rightarrow>
     int option \<Rightarrow> 'b manager \<Rightarrow> (session_error + write_result) \<times> 'b manager" where
  "upsert_image_annotation cfg env session_id client_id annotation optimized_image_bytes rate_limit_key
      lease_client_id expected_revision m =
     (if \<not> is_valid_session_id session_id then (Inl SessionNotFound, m)
      else if client_id = [] then (Inl (OpFailed OpError), m)
      else case annotation of
        JObj a \<Rightarrow>
          (case (case rate_limit_key of
                   None \<Rightarrow> mg_consume env client_id 1 m
                 | Some key \<Rightarrow>
                     (case bucket_consume (mg_image_bucket m) key 1 (ce_now env) of
                        (ok, b) \<Rightarrow> (ok, m\<lparr>mg_image_bucket := b\<rparr>))) of
             (False, m) \<Rightarrow> (Inl RateLimited, m)
           | (True, m) \<Rightarrow>
               (case open_for_write cfg env session_id expected_revision m of
                  (Inl e, m) \<Rightarrow> (Inl e, m)
                | (Inr lv, m) \<Rightarrow>
                    (case image_budget_error cfg lv (obj_get a ''id'') a optimized_image_bytes of
                       Some e \<Rightarrow> (Inl e, m)
                     | None \<Rightarrow>
                         upsert_write cfg env session_id
                           (case lease_client_id of Some c \<Rightarrow> c | None \<Rightarrow> client_id) client_id lv a m)))
      | _ \<Rightarrow> (Inl (OpFailed OpError), m))"

definition update_annotation ::
    "'b manager_config \<Rightarrow> call_env \<Rightarrow> string \<Rightarrow> string \<Rightarrow> json \<Rightarrow> int option \<Rightarrow> json \<Rightarrow> 'b manager \<Rightarrow>
     (session_error + write_result) \<times> 'b manager" where
  "update_annotation cfg env session_id client_id patch expected_revision base_version m =
     (if \<not> is_valid_session_id session_id then (Inl SessionNotFound, m)
      else if client_id = [] then (Inl (OpFailed OpError), m)
      else case patch of
        JObj p \<Rightarrow>
          (case obj_get p ''id'' of
             JStr i \<Rightarrow>
               if mc_max_op_batch_bytes cfg < dumps_len (mc_float_len cfg) (JObj p) then (Inl OpBatchTooLarge, m)
               else (case throttled cfg env session_id client_id 1 expected_revision m of
                  (Inl e, m) \<Rightarrow> (Inl e, m)
                | (Inr lv, m) \<Rightarrow>
                    (case leased_write cfg env session_id client_id client_id lv
                        ([(''op'', JStr ''annotation_updated''), (''annotation'', JObj p),
                          (''client_id'', JStr client_id)] @
                         (if base_version = JNull then [] else [(''base_version'', base_version)])) m of
                       (Inl e, m) \<Rightarrow> (Inl e, m)
                     | (Inr (None, lv), m) \<Rightarrow> (Inl (AnnotationNotFound i), m)
                     | (Inr (Some ap, lv), m) \<Rightarrow> (Inr (write_result_of (Some ap, lv)), m)))
           | _ \<Rightarrow> (Inl (OpFailed OpError), m))
      | _ \<Rightarrow> (Inl (OpFailed OpError), m))"

definition delete_annotation ::
    "'b manager_config \<Rightarrow> call_env \<Rightarrow> string \<Rightarrow> string \<Rightarrow> string \<Rightarrow> int option \<Rightarrow> 'b manager \<Rightarrow>
     (session_error + write_result) \<times> 'b manager" where
  "delete_annotation cfg env session_id client_id ann_id expected_revision m =
     (if \<not> is_valid_session_id session_id then (Inl SessionNotFound, m)
      else if client_id = [] then (Inl (OpFailed OpError), m)
      else if ann_id = [] then (Inl (OpFailed OpError), m)
      else case throttled cfg env session_id client_id 1 expected_revision m of
        (Inl e, m) \<Rightarrow> (Inl e, m)
      | (Inr lv, m) \<Rightarrow>
          if find_annotation lv ann_id = None then (Inl (AnnotationNotFound ann_id), m)
          else (case leased_write cfg env session_id client_id client_id lv
              [(''op'', JStr ''annotation_deleted''), (''annotation_id'', JStr ann_id),
               (''client_id'', JStr client_id)] m of
             (Inl e, m) \<Rightarrow> (Inl e, m)
           | (Inr r, m) \<Rightarrow> (Inr (write_result_of r), m)))"

definition set_group_members ::
    "'b manager_config \<Rightarrow> call_env \<Rightarrow> string \<Rightarrow> string \<Rightarrow> string \<Rightarrow> json \<Rightarrow> int option \<Rightarrow> 'b manager \<Rightarrow>
     (session_error + write_result \<times> json_obj option) \<times> 'b manager" where
  "set_group_members cfg env session_id client_id group_id member_node_ids expected_revision m =
     (if \<not> is_valid_session_id session_id then (Inl SessionNotFound, m)
      else if client_id = [] then (Inl (OpFailed OpError), m)
      else if group_id = [] then (Inl (OpFailed OpError), m)
      else case member_node_ids of
        JArr vs \<Rightarrow>
          if str_list vs = None then (Inl (OpFailed OpError), m)
          else if mc_max_op_batch_bytes cfg < dumps_len (mc_float_len cfg) (JArr vs) then (Inl OpBatchTooLarge, m)
          else (case throttled cfg env session_id client_id 1 expected_revision m of
             (Inl e, m) \<Rightarrow> (Inl e, m)
           | (Inr lv, m) \<Rightarrow>
               (case leased_write cfg env session_id client_id client_id lv
                   [(''op'', JStr ''group_membership_changed''), (''group_id'', JStr group_id),
                    (''member_node_ids'', JArr vs), (''client_id'', JStr client_id)] m of
                  (Inl e, m) \<Rightarrow> (Inl e, m)
                | (Inr r, m) \<Rightarrow> (Inr (write_result_of r, existing_annotation (snd r) (JStr group_id)), m)))
      | _ \<Rightarrow> (Inl (OpFailed OpError), m))"

section \<open>Undo\<close>

definition UNDO_REPLAY_CLIENT_ID :: string where
  "UNDO_REPLAY_CLIENT_ID = ''undo-replay''"

definition mg_list_activity ::
    "'b manager_config \<Rightarrow> call_env \<Rightarrow> string \<Rightarrow> string option \<Rightarrow> int \<Rightarrow> 'b manager \<Rightarrow>
     (session_error + activity list) \<times> 'b manager" where
  "mg_list_activity cfg env session_id actor limit m =
     (case mg_get cfg env session_id m of
        (None, m) \<Rightarrow> (Inl SessionNotFound, m)
      | (Some lv, m) \<Rightarrow> (Inr (list_activity lv actor limit), m))"

text \<open>Recreating a deleted annotation first takes its id out of the recent deletions.\<close>

definition forget_deletion :: "json_obj \<Rightarrow> live \<Rightarrow> live" where
  "forget_deletion undo_op lv =
     (if obj_get undo_op ''op'' = JStr ''annotation_created''
      then (case obj_get undo_op ''annotation'' of
              JObj a \<Rightarrow>
                (case obj_get a ''id'' of
                   JStr i \<Rightarrow> lv\<lparr>lv_session := (lv_session lv)\<lparr>se_deleted_annotation_ids :=
                              remove1 i (se_deleted_annotation_ids (lv_session lv))\<rparr>\<rparr>
                 | _ \<Rightarrow> lv)
            | _ \<Rightarrow> lv)
      else lv)"

text \<open>The record is changed in place in the log.\<close>

definition mark_undone :: "nat \<Rightarrow> string \<Rightarrow> live \<Rightarrow> live" where
  "mark_undone k now lv =
     lv\<lparr>lv_session := (lv_session lv)\<lparr>se_activity_log :=
          (se_activity_log (lv_session lv))[k :=
            (se_activity_log (lv_session lv) ! k)\<lparr>ar_undone := True, ar_undone_at := JStr now\<rparr>]\<rparr>\<rparr>"

definition undo_last_action ::
    "'b manager_config \<Rightarrow> call_env \<Rightarrow> string \<Rightarrow> string \<Rightarrow> int option \<Rightarrow> 'b manager \<Rightarrow>
     (session_error + string \<times> write_result) \<times> 'b manager" where
  "undo_last_action cfg env session_id client_id expected_revision m =
     (if \<not> is_valid_session_id session_id then (Inl SessionNotFound, m)
      else if client_id = [] then (Inl (OpFailed OpError), m)
      else case throttled cfg env session_id client_id 1 expected_revision m of
        (Inl e, m) \<Rightarrow> (Inl e, m)
      | (Inr lv, m) \<Rightarrow>
          (case find_latest_undoable (se_activity_log (lv_session lv)) client_id of
             None \<Rightarrow> (Inl (NoUndoableAction client_id), m)
           | Some k \<Rightarrow>
               (let r = se_activity_log (lv_session lv) ! k;
                    undo_op = (case ar_inverse_op r of Some d \<Rightarrow> d | None \<Rightarrow> [])
                in if undo_conflict lv r then (Inl (UndoConflict (ar_id r)), m)
                   else (case reject_if_leased env session_id client_id lv undo_op m of
                      (Some e, m) \<Rightarrow> (Inl e, m)
                    | (None, m) \<Rightarrow>
                        (case apply_op_sync cfg env False True session_id UNDO_REPLAY_CLIENT_ID
                            (forget_deletion undo_op lv)
                            (dict_set undo_op ''client_id'' (JStr UNDO_REPLAY_CLIENT_ID)) m of
                           (Inl e, m) \<Rightarrow> (Inl e, m)
                         | (Inr (None, lv), m) \<Rightarrow> (Inl (UndoConflict (ar_id r)), m)
                         | (Inr (Some ap, lv), m) \<Rightarrow>
                             (let lv = mark_undone k (ce_wall env) lv
                              in case mg_persist cfg lv (mg_put session_id lv m) of
                                   (ok, m) \<Rightarrow>
                                     (if ok then Inr (ar_id r, write_result_of (Some ap, lv))
                                      else Inl (StoreFailed SaveFailed), m)))))))"

section \<open>Connections\<close>

definition member_json :: "member \<Rightarrow> json" where
  "member_json p =
     JObj [(''client_id'', JStr (pm_client_id p)), (''display_name'', JStr (pm_display_name p)),
           (''color'', JStr (pm_color p))]"

definition mg_connect ::
    "call_env \<Rightarrow> string \<Rightarrow> string \<Rightarrow> string option \<Rightarrow> 'b manager \<Rightarrow> (nat \<times> member) \<times> 'b manager" where
  "mg_connect env session_id client_id display_name m =
     (case bus_subscribe (mg_bus m) session_id (ce_loop env) of
        (sub, b) \<Rightarrow>
          (case presence_join (mg_presence m) session_id client_id display_name of
             (p, pr) \<Rightarrow>
               ((sub, p),
                mg_publish env session_id [(''type'', JStr ''presence_joined''), (''member'', member_json p)]
                  (m\<lparr>mg_bus := b, mg_presence := pr\<rparr>))))"

definition mg_disconnect :: "call_env \<Rightarrow> string \<Rightarrow> string \<Rightarrow> nat \<Rightarrow> 'b manager \<Rightarrow> 'b manager" where
  "mg_disconnect env session_id client_id sub m =
     (let m = m\<lparr>mg_bus := bus_unsubscribe (mg_bus m) sub\<rparr>
      in case presence_leave (mg_presence m) session_id client_id of
           (None, pr) \<Rightarrow> m\<lparr>mg_presence := pr\<rparr>
         | (Some p, pr) \<Rightarrow>
             (case holds_release_all (mg_claims m) session_id client_id of
                (released, claims) \<Rightarrow>
                  (let m = m\<lparr>mg_presence := pr, mg_claims := claims\<rparr>;
                       m = (if released = [] then m
                            else mg_publish env session_id (hold_event ''selection_released'' client_id released) m)
                   in case holds_release_all (mg_leases m) session_id client_id of
                        (freed, leases) \<Rightarrow>
                          (let m = m\<lparr>mg_leases := leases\<rparr>;
                               m = (if freed = [] then m
                                    else mg_publish env session_id (hold_event ''edit_lease_released'' client_id freed) m)
                           in mg_publish env session_id
                                [(''type'', JStr ''presence_left''), (''client_id'', JStr client_id)] m))))"

text \<open>\<open>catch_up\<close>: the missed ops, or the document.\<close>

datatype catch_up = Missed "json_obj list" | Snapshot json_obj

record catch_up_payload =
  cu_seq :: int
  cu_body :: catch_up
  cu_roster :: "member list"
  cu_claims :: "(string, string) dict"
  cu_leases :: "(string, string) dict"

definition mg_catch_up ::
    "'b manager_config \<Rightarrow> call_env \<Rightarrow> string \<Rightarrow> int option \<Rightarrow> 'b manager \<Rightarrow>
     (session_error + catch_up_payload) \<times> 'b manager" where
  "mg_catch_up cfg env session_id since_seq m =
     (case mg_get cfg env session_id m of
        (None, m) \<Rightarrow> (Inl SessionNotFound, m)
      | (Some lv, m) \<Rightarrow>
          (case holds_snapshot (mg_claims m) session_id (ce_now env) of
             (claims, ch) \<Rightarrow>
               (case mg_leases_now (ce_now env) session_id (m\<lparr>mg_claims := ch\<rparr>) of
                  (leases, m) \<Rightarrow>
                    (let body = (case Option.bind since_seq (ops_since lv) of
                           Some aps \<Rightarrow> Missed (map (applied_view (lv_heap lv)) aps)
                         | None \<Rightarrow> Snapshot (session_to_dict lv))
                     in (Inr \<lparr>cu_seq = se_seq (lv_session lv), cu_body = body,
                           cu_roster = presence_roster (mg_presence m) session_id,
                           cu_claims = claims, cu_leases = leases\<rparr>, m)))))"

definition claimed_elements :: "rat \<Rightarrow> string \<Rightarrow> 'b manager \<Rightarrow> string list \<times> 'b manager" where
  "claimed_elements now session_id m =
     (case holds_snapshot (mg_claims m) session_id now of (d, h) \<Rightarrow> (dict_keys d, m\<lparr>mg_claims := h\<rparr>))"

definition mg_push_command ::
    "'b manager_config \<Rightarrow> call_env \<Rightarrow> string \<Rightarrow> json_obj \<Rightarrow> 'b manager \<Rightarrow> bool \<times> 'b manager" where
  "mg_push_command cfg env session_id command m =
     (case mg_get cfg env session_id m of
        (None, m) \<Rightarrow> (False, m)
      | (Some _, m) \<Rightarrow>
          (True, mg_publish env session_id [(''type'', JStr ''command''), (''command'', JObj command)] m))"

end
