(* ===== verification/SessionBatch.thy ===== *)
theory SessionBatch
  imports SessionManager SessionDemo
begin

text \<open>
  The batch path and the synchronous writes: what a rollback restores, what a batch leaves
  alone, and who may change a leased annotation.
\<close>

section \<open>Identity of a session\<close>

text \<open>No op changes the id or the creation time of a session.\<close>

definition same_identity :: "live \<Rightarrow> live \<Rightarrow> bool" where
  "same_identity lv lv' \<longleftrightarrow> se_id (lv_session lv') = se_id (lv_session lv) \<and>
     se_created_at (lv_session lv') = se_created_at (lv_session lv)"

lemma same_identity_refl [simp]: "same_identity lv lv"
  by (simp add: same_identity_def)

lemma same_identity_trans: "same_identity a b \<Longrightarrow> same_identity b c \<Longrightarrow> same_identity a c"
  by (simp add: same_identity_def)

lemma value_identity:
  "op_nodes_added lv op = (out, lv') \<Longrightarrow> same_identity lv lv'"
  "op_node_moved lv op = (out, lv') \<Longrightarrow> same_identity lv lv'"
  "op_nodes_hidden lv op = (out, lv') \<Longrightarrow> same_identity lv lv'"
  "op_nodes_shown lv op = (out, lv') \<Longrightarrow> same_identity lv lv'"
  "op_nodes_dimmed lv op = (out, lv') \<Longrightarrow> same_identity lv lv'"
  "op_nodes_undimmed lv op = (out, lv') \<Longrightarrow> same_identity lv lv'"
  "op_edges_payload lv op = (out, lv') \<Longrightarrow> same_identity lv lv'"
  "op_edges_removed lv op = (out, lv') \<Longrightarrow> same_identity lv lv'"
  "op_edges_hidden lv op = (out, lv') \<Longrightarrow> same_identity lv lv'"
  "op_edges_shown lv op = (out, lv') \<Longrightarrow> same_identity lv lv'"
  "op_edges_dimmed lv op = (out, lv') \<Longrightarrow> same_identity lv lv'"
  "op_edges_undimmed lv op = (out, lv') \<Longrightarrow> same_identity lv lv'"
  "op_edge_intensity_set lv op = (out, lv') \<Longrightarrow> same_identity lv lv'"
  "op_session_renamed lv op = (out, lv') \<Longrightarrow> same_identity lv lv'"
  "op_layout_applied lv op = (out, lv') \<Longrightarrow> same_identity lv lv'"
  "op_group_membership_changed env lv op = (out, lv') \<Longrightarrow> same_identity lv lv'"
  by (auto simp: op_defs op_group_membership_changed_def Let_def same_identity_def
      split: sum.splits if_splits json.splits option.splits)

lemma op_nodes_removed_identity:
  assumes "op_nodes_removed lv op = (out, lv')"
  shows "same_identity lv lv'"
proof (cases "require_id_list op ''node_ids''")
  case (Inr rs)
  then show ?thesis
    using op_nodes_removed_state [OF Inr, of lv] assms drop_from_groups_frame by (simp add: same_identity_def)
qed (use assms in \<open>auto simp: op_nodes_removed_def\<close>)

lemma annotation_identity:
  "op_annotation_created n env tr lv op = (out, lv') \<Longrightarrow> same_identity lv lv'"
  "op_annotation_deleted lv op = (out, lv') \<Longrightarrow> same_identity lv lv'"
  "op_annotation_updated env tr lv op = (out, lv') \<Longrightarrow> same_identity lv lv'"
proof -
  show "same_identity lv lv'" if "op_annotation_created n env tr lv op = (out, lv')"
    using op_annotation_created_cases [OF that]
    by (auto simp: same_identity_def insert_annotation_def Let_def dest: upsert_existing_frame split: if_splits)
  show "same_identity lv lv'" if "op_annotation_deleted lv op = (out, lv')"
    using that by (auto simp: op_annotation_deleted_def Let_def same_identity_def split: json.splits if_splits)
  show "same_identity lv lv'" if "op_annotation_updated env tr lv op = (out, lv')"
  proof -
    have "lv_session (snd (merge_annotation lv a incoming fv changed now)) = lv_session lv" for a incoming fv changed now
      by (simp add: merge_annotation_def Let_def split: option.split)
    then show ?thesis using that unfolding op_annotation_updated_def Let_def same_identity_def
      by (auto split: sum.splits option.splits if_splits prod.splits) (metis snd_conv)+
  qed
qed

lemma branch_identity:
  assumes "state_op_branch cfg env tr lv op t = (out, lv')"
  shows "same_identity lv lv'"
  using assms unfolding state_op_branch_def
  by (auto split: if_splits intro: value_identity op_nodes_removed_identity annotation_identity)

lemma apply_identity:
  assumes "apply_state_op cfg env rec tr lv op = (r, lv')"
  shows "same_identity lv lv'"
  using apply_state_op_cases [OF assms]
proof (elim disjE exE conjE)
  fix t out lv1 f a k ap
  assume b: "state_op_branch cfg env tr lv op t = (out, lv1)" and c: "commit_op cfg env rec t op f a k lv1 = (ap, lv')"
  have "same_identity lv1 lv'" using c by (auto simp: commit_op_def Let_def same_identity_def)
  with branch_identity [OF b] show ?thesis by (rule same_identity_trans)
qed (auto dest: branch_identity)

lemma batch_op_identity:
  assumes "batch_op cfg env c op lv w = (r, lv', w')"
  shows "same_identity lv lv'"
  using assms by (auto simp: batch_op_def Let_def dest: apply_identity
      split: if_splits option.splits prod.splits sum.splits)

lemma batch_loop_identity:
  "batch_loop cfg envs c k vs lv w = (r, lv') \<Longrightarrow> same_identity lv lv'"
proof (induction cfg envs c k vs lv w arbitrary: r lv' rule: batch_loop.induct)
  case (2 cfg envs c k v vs lv w)
  show ?case
  proof (cases v)
    case (JObj op)
    obtain r1 lv1 w1 where b: "batch_op cfg (envs k) c op lv w = (r1, lv1, w1)" by (cases "batch_op cfg (envs k) c op lv w")
    note i1 = batch_op_identity [OF b]
    show ?thesis
    proof (cases r1)
      case (Inl e)
      then show ?thesis using "2.prems" i1 by (simp add: JObj b)
    next
      case (Inr p)
      obtain r2 lv2 where l: "batch_loop cfg envs c (k + 1) vs lv1 w1 = (r2, lv2)" by fastforce
      have "lv' = lv2" using "2.prems" by (cases r2) (simp_all add: JObj b Inr l [simplified])
      then show ?thesis
        using same_identity_trans [OF i1 "2.IH" [OF JObj b [symmetric] Inr refl l]] by simp
    qed
  qed (use "2.prems" in simp_all)
qed simp

section \<open>What a rollback restores\<close>

lemma rollback_dict:
  assumes "same_identity saved lv"
  shows "session_to_dict (rollback saved lv) = session_to_dict saved"
proof -
  let ?as = "cv_annotations (lv_canvas saved)" and ?n = "lv_next lv"
  have "map (\<lambda>a. JObj (lv_heap (rollback saved lv) a)) [?n..<?n + length ?as] = map (\<lambda>a. JObj (lv_heap saved a)) ?as"
    by (rule nth_equalityI) (simp_all add: rollback_def copy_annotations_def Let_def)
  then show ?thesis
    using assms by (simp add: session_to_dict_def session_meta_def canvas_to_dict_def Let_def same_identity_def)
      (simp add: rollback_def copy_annotations_def Let_def)
qed

lemma rollback_ring [simp]: "lv_ring (rollback saved lv) = lv_ring saved"
  by (simp add: rollback_def Let_def)

lemma rollback_deleted [simp]:
  "se_deleted_annotation_ids (lv_session (rollback saved lv)) = se_deleted_annotation_ids (lv_session lv)"
  by (simp add: rollback_def copy_annotations_def Let_def)

section \<open>What a failed batch leaves\<close>

lemma store_get_state:
  "store_get ops now i st = (r, st') \<Longrightarrow>
     sx_backend st' = sx_backend st \<and> sx_meta_cache st' = sx_meta_cache st \<and>
     (\<forall>lv. r = Some lv \<longrightarrow> is_valid_session_id i \<and> map_of (sx_sessions st') i = Some lv \<and> store_get ops now i st' = (r, st')) \<and>
     (r = None \<longrightarrow> st' = st)"
  by (auto simp: store_get_def store_put_def split: if_splits option.splits)

lemma mg_get_state:
  assumes "mg_get cfg env i m = (r, m')"
  shows "sx_backend (mg_store m') = sx_backend (mg_store m)"
    and "r = Some lv \<Longrightarrow> is_valid_session_id i \<and> map_of (sx_sessions (mg_store m')) i = Some lv"
    and "fst (mg_get cfg env i m') = r"
  using assms store_get_state [of "mc_backend cfg" "ce_wall env" i "mg_store m" r "mg_store m'"]
  by (cases r; auto simp: mg_get_def split: prod.splits)+

lemma mg_get_frame:
  assumes "mg_get cfg env i m = (r, m')"
  shows "mg_bus m' = mg_bus m" "mg_presence m' = mg_presence m" "mg_claims m' = mg_claims m"
    "mg_leases m' = mg_leases m" "mg_locked m' = mg_locked m" "mg_bucket m' = mg_bucket m"
  using assms by (auto simp: mg_get_def split: prod.splits)

lemma mg_put_frame [simp]:
  "mg_bus (mg_put i lv m) = mg_bus m" "mg_presence (mg_put i lv m) = mg_presence m"
  "mg_claims (mg_put i lv m) = mg_claims m" "mg_leases (mg_put i lv m) = mg_leases m"
  "mg_locked (mg_put i lv m) = mg_locked m" "mg_bucket (mg_put i lv m) = mg_bucket m"
  "sx_backend (mg_store (mg_put i lv m)) = sx_backend (mg_store m)"
  by (simp_all add: mg_put_def store_put_def)

lemma mg_get_put:
  "is_valid_session_id i \<Longrightarrow> mg_get cfg env i (mg_put i lv m) = (Some lv, mg_put i lv m)"
  by (simp add: mg_get_def mg_put_def store_get_def store_put_def)

lemma mg_get_cong: "mg_store m' = mg_store m \<Longrightarrow> fst (mg_get cfg env i m') = fst (mg_get cfg env i m)"
  by (simp add: mg_get_def split: prod.split)

text \<open>Everything outside the session object, up to expired leases that were swept.\<close>

definition outside_same :: "call_env \<Rightarrow> string \<Rightarrow> 'b manager \<Rightarrow> 'b manager \<Rightarrow> bool" where
  "outside_same env i m m' \<longleftrightarrow> mg_bus m' = mg_bus m \<and> mg_presence m' = mg_presence m \<and>
     mg_claims m' = mg_claims m \<and> mg_locked m' = mg_locked m \<and>
     (mg_leases m' = mg_leases m \<or> mg_leases m' = holds_prune (mg_leases m) i (ce_now env))"

lemma checks_state:
  assumes "apply_ops_checks cfg env i client ops m = (r, m')"
  shows "outside_same env i m m' \<and> mg_leases m' = mg_leases m \<and> sx_backend (mg_store m') = sx_backend (mg_store m) \<and>
    fst (mg_get cfg env i m') = fst (mg_get cfg env i m)"
proof -
  have consume: "mg_consume env c n m = (ok, m1) \<Longrightarrow> \<exists>b. m1 = m\<lparr>mg_bucket := b\<rparr>" for c n ok m1
    by (auto simp: mg_consume_def split: prod.splits)
  have cases: "(\<exists>b. m' = m\<lparr>mg_bucket := b\<rparr>) \<or> (\<exists>b. m' = snd (mg_get cfg env i (m\<lparr>mg_bucket := b\<rparr>)))"
  proof (cases "\<exists>c vs n. client = JStr c \<and> c \<noteq> [] \<and> ops = JArr vs \<and> non_image_bytes cfg vs = Inr n \<and>
      n \<le> mc_max_op_batch_bytes cfg \<and> length vs \<le> mc_max_ops cfg \<and> is_valid_session_id i")
    case False
    then have "m' = m"
      using assms by (auto simp: apply_ops_checks_def not_less split: json.splits if_splits sum.splits)
    then show ?thesis by (intro disjI1 exI [of _ "mg_bucket m"]) simp
  next
    case True
    then obtain c vs n where h: "client = JStr c" "c \<noteq> []" "ops = JArr vs" "non_image_bytes cfg vs = Inr n"
      "n \<le> mc_max_op_batch_bytes cfg" "length vs \<le> mc_max_ops cfg" "is_valid_session_id i" by blast
    obtain ok m1 where k: "mg_consume env c (max 1 (length vs)) m = (ok, m1)" by fastforce
    obtain b where b: "m1 = m\<lparr>mg_bucket := b\<rparr>" using consume [OF k] by blast
    obtain g m2 where g: "mg_get cfg env i m1 = (g, m2)" by fastforce
    have "m' = m1 \<or> m' = m2"
      using assms h by (auto simp: apply_ops_checks_def k [simplified] g split: bool.splits option.splits)
    moreover have "m2 = snd (mg_get cfg env i (m\<lparr>mg_bucket := b\<rparr>))" using g b by simp
    ultimately show ?thesis using b by blast
  qed
  then show ?thesis
  proof (elim disjE exE)
    fix b assume "m' = m\<lparr>mg_bucket := b\<rparr>"
    then show ?thesis using mg_get_cong [of m' m cfg env i] by (simp add: outside_same_def)
  next
    fix b assume m': "m' = snd (mg_get cfg env i (m\<lparr>mg_bucket := b\<rparr>))"
    obtain g m2 where g: "mg_get cfg env i (m\<lparr>mg_bucket := b\<rparr>) = (g, m2)" by fastforce
    have "fst (mg_get cfg env i (m\<lparr>mg_bucket := b\<rparr>)) = fst (mg_get cfg env i m)" by (rule mg_get_cong) simp
    then have "fst (mg_get cfg env i m2) = fst (mg_get cfg env i m)" using mg_get_state(3) [OF g] g by simp
    moreover have "m' = m2" using m' g by simp
    moreover have "outside_same env i m m2" "mg_leases m2 = mg_leases m"
      using mg_get_frame [OF g] by (simp_all add: outside_same_def)
    moreover have "sx_backend (mg_store m2) = sx_backend (mg_store m)" using mg_get_state(1) [OF g] by simp
    ultimately show ?thesis by blast
  qed
qed

lemma mg_get_deterministic:
  assumes "fst (mg_get cfg env i m) = Some lv" and "mg_get cfg env i m' = (r, m1)"
    and "fst (mg_get cfg env i m') = fst (mg_get cfg env i m)"
  shows "r = Some lv"
  using assms by simp

text \<open>What a failing \<open>apply_ops_enter\<close> or \<open>apply_ops_leave\<close> leaves of the session.\<close>

lemma enter_failed:
  assumes r: "apply_ops_enter cfg env i c vs m = (Inl e, m')" and g: "fst (mg_get cfg env i m) = Some lv"
  shows "outside_same env i m m' \<and> sx_backend (mg_store m') = sx_backend (mg_store m) \<and>
    (\<exists>lv'. fst (mg_get cfg env i m') = Some lv' \<and> session_to_dict lv' = session_to_dict lv \<and> lv_ring lv' = lv_ring lv)"
proof -
  obtain g1 m1 where m1: "mg_get cfg env i m = (g1, m1)" by fastforce
  with g have g1: "g1 = Some lv" by simp
  note s1 = mg_get_state [OF m1]
  obtain leases m2 where l: "mg_leases_now (ce_now env) i m1 = (leases, m2)" by fastforce
  have m2: "m2 = m1\<lparr>mg_leases := holds_prune (mg_leases m1) i (ce_now env)\<rparr>"
    using l holds_snapshot_state [of "mg_leases m1" i "ce_now env"]
    by (auto simp: mg_leases_now_def split: prod.splits)
  obtain r1 lv1 where b: "batch_loop cfg (ce_op env) c 0 vs lv leases = (r1, lv1)" by fastforce
  have m': "m' = mg_put i (rollback lv lv1) m2"
    using r by (auto simp: apply_ops_enter_def m1 g1 l b split: sum.splits if_splits option.splits)
  have id: "same_identity lv lv1" by (rule batch_loop_identity [OF b])
  have "fst (mg_get cfg env i m') = Some (rollback lv lv1)"
    unfolding m' using s1(2) [OF g1] by (subst mg_get_put) simp_all
  moreover have "outside_same env i m m' \<and> sx_backend (mg_store m') = sx_backend (mg_store m)"
    unfolding m' m2 using s1(1) mg_get_frame [OF m1] by (simp add: outside_same_def)
  ultimately show ?thesis using rollback_dict [OF id] by auto
qed

lemma enter_entered:
  assumes r: "apply_ops_enter cfg env i c vs m = (Inr f, m')" and g: "fst (mg_get cfg env i m) = Some lv"
  shows "\<exists>lv1 leases ps. batch_loop cfg (ce_op env) c 0 vs lv leases = (Inr ps, lv1) \<and>
      leases = fst (holds_snapshot (mg_leases m) i (ce_now env)) \<and> if_client f = c \<and> if_pending f = ps \<and>
      (list_ex is_state ps \<longrightarrow> if_snapshot f = Some (session_to_dict lv1) \<and> budget_error cfg lv1 = None) \<and>
      (\<not> list_ex is_state ps \<longrightarrow> if_snapshot f = None) \<and>
      map_of (sx_sessions (mg_store m')) i = Some lv1"
    and "if_saved f = lv" and "is_valid_session_id i"
    and "mg_bus m' = mg_bus m" "mg_presence m' = mg_presence m" "mg_claims m' = mg_claims m"
      "mg_leases m' = holds_prune (mg_leases m) i (ce_now env)" "mg_locked m' = i # mg_locked m"
      "sx_backend (mg_store m') = sx_backend (mg_store m)"
proof -
  obtain g1 m1 where m1: "mg_get cfg env i m = (g1, m1)" by fastforce
  with g have g1: "g1 = Some lv" by simp
  note s1 = mg_get_state [OF m1] and f1 = mg_get_frame [OF m1]
  obtain leases m2 where l: "mg_leases_now (ce_now env) i m1 = (leases, m2)" by fastforce
  have m2: "m2 = m1\<lparr>mg_leases := holds_prune (mg_leases m1) i (ce_now env)\<rparr>"
      "leases = fst (holds_snapshot (mg_leases m1) i (ce_now env))"
    using l holds_snapshot_state [of "mg_leases m1" i "ce_now env"]
    by (auto simp: mg_leases_now_def split: prod.splits)
  obtain r1 lv1 where b: "batch_loop cfg (ce_op env) c 0 vs lv leases = (r1, lv1)" by fastforce
  obtain ps where ps: "r1 = Inr ps"
    using r by (cases r1) (auto simp: apply_ops_enter_def m1 g1 l b)
  have m': "m' = mg_lock i (mg_put i lv1 m2)" and fs: "if_saved f = lv" "if_client f = c" "if_pending f = ps"
    "list_ex is_state ps \<longrightarrow> if_snapshot f = Some (session_to_dict lv1) \<and> budget_error cfg lv1 = None"
    "\<not> list_ex is_state ps \<longrightarrow> if_snapshot f = None"
    using r by (auto simp: apply_ops_enter_def m1 g1 l b ps split: if_splits option.splits)
  have "map_of (sx_sessions (mg_store m')) i = Some lv1"
    by (simp add: m' mg_lock_def mg_put_def store_put_def)
  then show "\<exists>lv1 leases ps. batch_loop cfg (ce_op env) c 0 vs lv leases = (Inr ps, lv1) \<and>
      leases = fst (holds_snapshot (mg_leases m) i (ce_now env)) \<and> if_client f = c \<and> if_pending f = ps \<and>
      (list_ex is_state ps \<longrightarrow> if_snapshot f = Some (session_to_dict lv1) \<and> budget_error cfg lv1 = None) \<and>
      (\<not> list_ex is_state ps \<longrightarrow> if_snapshot f = None) \<and>
      map_of (sx_sessions (mg_store m')) i = Some lv1"
    using b ps m2(2) f1(4) fs by metis
  show "if_saved f = lv" by (rule fs(1))
  show "is_valid_session_id i" using s1(2) [OF g1] by simp
  show "mg_bus m' = mg_bus m" "mg_presence m' = mg_presence m" "mg_claims m' = mg_claims m"
      "mg_leases m' = holds_prune (mg_leases m) i (ce_now env)" "mg_locked m' = i # mg_locked m"
      "sx_backend (mg_store m') = sx_backend (mg_store m)"
    using f1 s1(1) by (simp_all add: m' mg_lock_def m2(1))
qed

lemma leave_failed:
  assumes r: "apply_ops_leave cfg env i f m = (Inl e, m')" and lv: "map_of (sx_sessions (mg_store m)) i = Some lv"
    and v: "is_valid_session_id i"
  shows "e = StoreFailed SaveFailed \<and> fst (mg_get cfg env i m') = Some (rollback (if_saved f) lv) \<and>
    mg_bus m' = mg_bus m \<and> mg_presence m' = mg_presence m \<and> mg_claims m' = mg_claims m \<and>
    mg_leases m' = mg_leases m \<and> mg_locked m' = remove1 i (mg_locked m)"
proof -
  obtain ok st where s: "(case if_snapshot f of None \<Rightarrow> (True, mg_store m)
      | Some doc \<Rightarrow> backend_save (mc_backend cfg) (mg_store m) doc) = (ok, st)" by fastforce
  have l: "live_of i m (if_saved f) = lv" by (simp add: live_of_def lv)
  have nok: "\<not> ok" using r by (cases ok) (auto simp: apply_ops_leave_def Let_def s split: prod.splits)
  have m': "e = StoreFailed SaveFailed" "m' = mg_unlock i (mg_put i (rollback (if_saved f) lv) (m\<lparr>mg_store := st\<rparr>))"
    using r nok by (auto simp: apply_ops_leave_def Let_def s l)
  have "fst (mg_get cfg env i m') = Some (rollback (if_saved f) lv)"
  proof -
    have "fst (mg_get cfg env i m') = fst (mg_get cfg env i (mg_put i (rollback (if_saved f) lv) (m\<lparr>mg_store := st\<rparr>)))"
      by (rule mg_get_cong) (simp add: m' mg_unlock_def)
    then show ?thesis using mg_get_put [OF v, of cfg env] by simp
  qed
  then show ?thesis using m' by (simp add: mg_unlock_def)
qed

lemma failed_batch_reverts:
  assumes r: "apply_ops cfg env i client ops m = (Inl e, m')" and g: "fst (mg_get cfg env i m) = Some lv"
  shows "\<exists>lv'. fst (mg_get cfg env i m') = Some lv' \<and> session_to_dict lv' = session_to_dict lv \<and>
    lv_ring lv' = lv_ring lv \<and> outside_same env i m m' \<and>
    (sx_backend (mg_store m') = sx_backend (mg_store m) \<or> e = StoreFailed SaveFailed)"
proof -
  obtain r1 m1 where c: "apply_ops_checks cfg env i client ops m = (r1, m1)" by fastforce
  note cs = checks_state [OF c]
  have g1: "fst (mg_get cfg env i m1) = Some lv" using cs g by simp
  show ?thesis
  proof (cases r1)
    case (Inl e1)
    then have "m' = m1" using r by (simp add: apply_ops_def c)
    then show ?thesis using cs g by (intro exI [of _ lv]) simp
  next
    case (Inr cv)
    obtain c0 vs where cv: "cv = (c0, vs)" by fastforce
    obtain r2 m2 where en: "apply_ops_enter cfg env i c0 vs m1 = (r2, m2)" by fastforce
    show ?thesis
    proof (cases r2)
      case (Inl e2)
      then have "m' = m2" using r Inr by (simp add: apply_ops_def c cv en)
      then show ?thesis using enter_failed [OF en [unfolded Inl] g1] cs by (auto simp: outside_same_def)
    next
      case (Inr f)
      note ent = enter_entered [OF en [unfolded Inr] g1]
      have lf: "apply_ops_leave cfg env i f m2 = (Inl e, m')"
        using r \<open>r1 = Inr cv\<close> Inr by (simp add: apply_ops_def c cv en)
      obtain lv1 leases ps where lv1: "batch_loop cfg (ce_op env) c0 0 vs lv leases = (Inr ps, lv1)"
          "map_of (sx_sessions (mg_store m2)) i = Some lv1"
        using ent(1) by blast
      note fl = leave_failed [OF lf lv1(2) ent(3)]
      have "outside_same env i m m'" using fl ent(4-8) cs by (simp add: outside_same_def)
      moreover have "session_to_dict (rollback lv lv1) = session_to_dict lv"
        by (rule rollback_dict [OF batch_loop_identity [OF lv1(1)]])
      ultimately show ?thesis using fl ent(2) by auto
    qed
  qed
qed

text \<open>C17: when a batch fails, the document is as it was. When \<open>apply_ops\<close> fails, for whatever reason
  (a malformed or refused op anywhere in the batch, a leased annotation, a budget, the disk), the session
  is the document it was, its catch-up ring holds the same entries, nothing was broadcast, no claim or
  lease was taken or given up, the lock is free again, and unless the disk itself failed nothing was
  written. (The entries are the same, but not what they show: an entry of an annotation refers to the
  annotation object, and the rollback does not undo what the batch did to that object,
  \<open>failed_batch_shows_in_ring\<close>. The set of deleted annotation ids is not restored either.)\<close>

theorem batch_all_or_nothing:
  assumes r: "apply_ops cfg env i client ops m = (Inl e, m')" and g: "fst (mg_get cfg env i m) = Some lv"
  shows "\<exists>lv'. fst (mg_get cfg env i m') = Some lv' \<and> session_to_dict lv' = session_to_dict lv \<and>
    lv_ring lv' = lv_ring lv \<and> outside_same env i m m' \<and>
    (sx_backend (mg_store m') = sx_backend (mg_store m) \<or> e = StoreFailed SaveFailed)"
  using r g by (rule failed_batch_reverts)

section \<open>Witness\<close>

definition demo_config :: "mem_backend manager_config" where
  "demo_config =
     \<lparr>mc_store = demo_store, mc_backend = mem_backend_ops ''2026-01-05T10:00:00Z'', mc_max_ops = 3,
      mc_max_sessions = 3, mc_max_op_batch_bytes = 400, mc_max_optimized_image_bytes = 100,
      mc_max_session_image_bytes = 200, mc_max_document_bytes = 2000, mc_float_len = (\<lambda>_. 3)\<rparr>"

definition demo_call :: call_env where
  "demo_call =
     \<lparr>ce_now = 0, ce_commit = 0, ce_wall = ''2026-01-05T10:00:00Z'', ce_op = (\<lambda>_. demo_env), ce_draw = (\<lambda>k. k),
      ce_loop = None, ce_closed = (\<lambda>_. False), ce_dying = (\<lambda>_. False)\<rparr>"

definition demo_manager :: "mem_backend manager" where
  "demo_manager = manager_init (store_put (store_init []) ''0001-0002'' demo_live)"

lemma demo_get: "fst (mg_get demo_config demo_call ''0001-0002'' demo_manager) = Some demo_live"
proof -
  have "is_valid_session_id ''0001-0002''" by code_simp
  then show ?thesis
    by (simp add: mg_get_def store_get_def demo_manager_def manager_init_def store_put_def store_init_def)
qed

definition demo_batch :: json where
  "demo_batch = JArr [JObj demo_hide, JObj (demo_update ''new'' (JStr ''one''))]"

lemma batch_all_or_nothing_witness:
  "\<exists>lv'. fst (mg_get demo_config demo_call ''0001-0002''
      (snd (apply_ops demo_config demo_call ''0001-0002'' (JStr ''bob'') demo_batch demo_manager))) = Some lv' \<and>
    session_to_dict lv' = session_to_dict demo_live"
proof -
  let ?r = "apply_ops demo_config demo_call ''0001-0002'' (JStr ''bob'') demo_batch demo_manager"
  have "fst ?r = Inl (OpFailed OpError)" by code_simp
  then have "?r = (Inl (OpFailed OpError), snd ?r)" by (simp add: prod_eq_iff)
  from batch_all_or_nothing [OF this demo_get] show ?thesis by blast
qed

text \<open>
  The rollback copies the ring, not the annotation objects its entries refer to: a client that
  catches up after a failed batch is sent the text the batch wrote, which the document does not have.
\<close>

lemma failed_batch_shows_in_ring:
  "case apply_ops demo_config demo_call ''0001-0002'' (JStr ''bob'')
      (JArr [JObj (demo_update ''new'' (JInt 1)), JObj (demo_update ''other'' (JStr ''one''))]) demo_manager of (r, m') \<Rightarrow>
     r = Inl (OpFailed OpError) \<and>
     (case fst (mg_get demo_config demo_call ''0001-0002'' m') of
        None \<Rightarrow> False
      | Some lv' \<Rightarrow> session_to_dict lv' = session_to_dict demo_live \<and>
          map (applied_view (lv_heap lv')) (lv_ring lv') \<noteq> map (applied_view (lv_heap demo_live)) (lv_ring demo_live))"
  by code_simp

end
