(* ===== verification/SessionLease.thy ===== *)
theory SessionLease
  imports SessionBatch
begin

text \<open>
  What an edit lease of a session promises: which annotation objects the ops of a batch can
  touch, that a batch never takes over another client's lease, and that a leased annotation
  therefore survives the batches of everyone else (\<open>session_manager.py\<close>).
\<close>

section \<open>Who may change a leased annotation\<close>

text \<open>An annotation object that a step leaves in place and as it is.\<close>

definition keeps :: "string \<Rightarrow> nat \<Rightarrow> live \<Rightarrow> live \<Rightarrow> bool" where
  "keeps j a lv lv' \<longleftrightarrow> find_annotation lv' j = Some a \<and> lv_heap lv' a = lv_heap lv a \<and>
     (\<forall>b \<in> set (cv_annotations (lv_canvas lv')). b < lv_next lv')"

lemma keeps_refl:
  "find_annotation lv j = Some a \<Longrightarrow> \<forall>b \<in> set (cv_annotations (lv_canvas lv)). b < lv_next lv \<Longrightarrow> keeps j a lv lv"
  by (simp add: keeps_def)

lemma keeps_trans: "keeps j a lv lv1 \<Longrightarrow> keeps j a lv1 lv2 \<Longrightarrow> keeps j a lv lv2"
  by (simp add: keeps_def)

lemma find_filter: "find P (filter Q xs) = (if \<forall>x \<in> set xs. P x \<longrightarrow> Q x then find P xs else find P (filter Q xs))"
  by (induction xs) auto

lemma find_cong': "(\<And>x. x \<in> set xs \<Longrightarrow> P x = Q x) \<Longrightarrow> find P xs = find Q xs"
  by (induction xs) auto

definition allocated :: "live \<Rightarrow> bool" where
  "allocated lv \<longleftrightarrow> (\<forall>b \<in> set (cv_annotations (lv_canvas lv)). b < lv_next lv)"

lemma keeps_same:
  assumes "find_annotation lv j = Some a" and "allocated lv"
    and "cv_annotations (lv_canvas lv') = cv_annotations (lv_canvas lv)" and "lv_heap lv' = lv_heap lv"
    and "lv_next lv' = lv_next lv"
  shows "keeps j a lv lv'"
  using assms by (simp add: keeps_def find_annotation_def allocated_def)

text \<open>Another annotation object changes, and its id does not become or cease to be \<open>j\<close>.\<close>

lemma keeps_other:
  assumes "find_annotation lv j = Some a" and "allocated lv"
    and "obj_get (lv_heap lv b) ''id'' \<noteq> JStr j" and "obj_get d ''id'' \<noteq> JStr j"
  shows "keeps j a lv (heap_set lv b d)"
proof -
  have "b \<noteq> a" using assms(3) find_annotation_some(2) [OF assms(1)] by auto
  moreover have "find_annotation (heap_set lv b d) j = find_annotation lv j"
    unfolding find_annotation_def using assms by (auto intro!: find_cong')
  ultimately show ?thesis using assms by (simp add: keeps_def allocated_def)
qed

definition ann_same :: "live \<Rightarrow> live \<Rightarrow> bool" where
  "ann_same lv lv' \<longleftrightarrow> cv_annotations (lv_canvas lv') = cv_annotations (lv_canvas lv) \<and>
     lv_heap lv' = lv_heap lv \<and> lv_next lv' = lv_next lv"

lemma keeps_ann_same: "ann_same lv lv' \<Longrightarrow> find_annotation lv j = Some a \<Longrightarrow> allocated lv \<Longrightarrow> keeps j a lv lv'"
  by (simp add: ann_same_def keeps_same)

lemma value_ann_same:
  "op_nodes_added lv op = (out, lv') \<Longrightarrow> ann_same lv lv'"
  "op_node_moved lv op = (out, lv') \<Longrightarrow> ann_same lv lv'"
  "op_nodes_hidden lv op = (out, lv') \<Longrightarrow> ann_same lv lv'"
  "op_nodes_shown lv op = (out, lv') \<Longrightarrow> ann_same lv lv'"
  "op_nodes_dimmed lv op = (out, lv') \<Longrightarrow> ann_same lv lv'"
  "op_nodes_undimmed lv op = (out, lv') \<Longrightarrow> ann_same lv lv'"
  "op_edges_payload lv op = (out, lv') \<Longrightarrow> ann_same lv lv'"
  "op_edges_removed lv op = (out, lv') \<Longrightarrow> ann_same lv lv'"
  "op_edges_hidden lv op = (out, lv') \<Longrightarrow> ann_same lv lv'"
  "op_edges_shown lv op = (out, lv') \<Longrightarrow> ann_same lv lv'"
  "op_edges_dimmed lv op = (out, lv') \<Longrightarrow> ann_same lv lv'"
  "op_edges_undimmed lv op = (out, lv') \<Longrightarrow> ann_same lv lv'"
  "op_edge_intensity_set lv op = (out, lv') \<Longrightarrow> ann_same lv lv'"
  "op_session_renamed lv op = (out, lv') \<Longrightarrow> ann_same lv lv'"
  "op_layout_applied lv op = (out, lv') \<Longrightarrow> ann_same lv lv'"
  by (auto simp: op_defs Let_def ann_same_def split: sum.splits if_splits json.splits option.splits)

lemma validate_annotation_id:
  assumes "validate_annotation v req = Inr d"
  shows "\<exists>d0. v = JObj d0 \<and> obj_get d ''id'' = obj_get d0 ''id''"
proof -
  obtain d0 where d0: "v = JObj d0" using assms by (auto simp: validate_annotation_def split: json.splits)
  obtain t where "d = dict_set (dict_set d0 ''type'' (JStr t)) ''kind'' (JStr t)"
    using assms unfolding d0 validate_annotation_def
    by (auto simp: Let_def py_bind_Inr_iff split: if_splits)
  then show ?thesis by (simp add: d0)
qed

lemma update_id:
  assumes "distinct (map fst incoming)" and "obj_get incoming ''id'' = JStr i"
  shows "obj_get (dict_update old incoming) ''id'' = JStr i"
    and "obj_get (merged old incoming fv changed v now) ''id'' = JStr i"
  using assms by (auto simp: merged_get obj_get_update) (auto simp: obj_get_def split: option.splits)

lemma merge_keeps:
  assumes "find_annotation lv j = Some a" and "allocated lv"
    and "obj_get (lv_heap lv b) ''id'' = JStr i" and "i \<noteq> j"
    and "distinct (map fst incoming)" and "obj_get incoming ''id'' = JStr i"
    and "merge_annotation lv b incoming fv changed now = (e, lv')"
  shows "keeps j a lv lv'"
  using assms(7) update_id [OF assms(5,6)] assms(3,4)
  by (auto simp: merge_annotation_def Let_def intro!: keeps_other [OF assms(1,2)] split: option.splits)

lemma created_keeps:
  assumes f: "find_annotation lv j = Some a" and al: "allocated lv" and op: "py_json (JObj op)"
    and t: "obj_get op ''op'' = JStr ''annotation_created''" and nj: "claimed_annotation_target op lv \<noteq> Some j"
    and r: "op_annotation_created n env tr lv op = (out, lv')"
  shows "keeps j a lv lv'"
  using op_annotation_created_cases [OF r]
proof (elim disjE exE conjE)
  assume "lv' = lv"
  then show ?thesis by (intro keeps_same [OF f al]) simp_all
next
  fix ann i b
  assume val: "validate_annotation (obj_get op ''annotation'') False = Inr ann"
    and i: "obj_get ann ''id'' = JStr i" and b: "find_annotation lv i = Some b"
    and u: "upsert_existing env lv op ann i b = (out, lv')"
  obtain d0 where "obj_get op ''annotation'' = JObj d0" "obj_get d0 ''id'' = JStr i"
    using validate_annotation_id [OF val] i by auto
  then have "i \<noteq> j" using nj b by (simp add: claimed_annotation_target_def t)
  note m = merge_keeps [OF f al find_annotation_some(2) [OF b] this
      validate_annotation_ok(1) [OF val py_json_get [OF op]] i]
  show ?thesis using u keeps_same [OF f al] m
    by (auto simp: upsert_existing_def Let_def split: if_splits option.splits prod.splits)
next
  fix ann
  assume ins: "insert_annotation n env lv op ann = (out, lv')"
  have old: "find (\<lambda>b. obj_get (((lv_heap lv)(lv_next lv := d)) b) ''id'' = JStr j) (cv_annotations (lv_canvas lv)) =
      Some a" for d
    unfolding f [symmetric] find_annotation_def using al by (intro find_cong') (auto simp: allocated_def)
  have find_append: "find P (xs @ ys) = Some b" if "find P xs = Some b" for P :: "nat \<Rightarrow> bool" and xs ys b
    using that by (induction xs) (auto split: if_splits)
  have "a < lv_next lv" using al find_annotation_some(1) [OF f] by (simp add: allocated_def)
  show ?thesis
  proof (cases "n \<le> length (cv_annotations (lv_canvas lv))")
    case True
    then show ?thesis using ins keeps_same [OF f al] by (auto simp: insert_annotation_def)
  next
    case False
    then have lv': "lv' = (set_canvas (heap_set lv (lv_next lv) (new_annotation env op ann))
      ((lv_canvas lv)\<lparr>cv_annotations := cv_annotations (lv_canvas lv) @ [lv_next lv]\<rparr>))\<lparr>lv_next := lv_next lv + 1\<rparr>"
      using ins by (auto simp: insert_annotation_def Let_def)
    have "find_annotation lv' j = Some a"
      using find_append [OF old] by (simp add: find_annotation_def lv')
    then show ?thesis
      using \<open>a < lv_next lv\<close> al by (auto simp: keeps_def lv' allocated_def)
  qed
qed

lemma updated_keeps:
  assumes f: "find_annotation lv j = Some a" and al: "allocated lv" and op: "py_json (JObj op)"
    and t: "obj_get op ''op'' = JStr ''annotation_updated''" and nj: "claimed_annotation_target op lv \<noteq> Some j"
    and r: "op_annotation_updated env tr lv op = (out, lv')"
  shows "keeps j a lv lv'"
proof (cases "validate_annotation (obj_get op ''annotation'') True")
  case (Inl e)
  then show ?thesis using r keeps_same [OF f al] by (auto simp: op_annotation_updated_def)
next
  case (Inr ann)
  note ok = validate_annotation_ok [OF Inr py_json_get [OF op]]
  obtain i where i: "obj_get ann ''id'' = JStr i" using ok(3) by blast
  have ai: "annotation_id ann = i" by (simp add: annotation_id_def i)
  show ?thesis
  proof (cases "find_annotation lv i")
    case None
    then show ?thesis using r Inr keeps_same [OF f al] by (auto simp: op_annotation_updated_def ai)
  next
    case (Some b)
    obtain d0 where "obj_get op ''annotation'' = JObj d0" "obj_get d0 ''id'' = JStr i"
      using validate_annotation_id [OF Inr] i by auto
    then have "i \<noteq> j" using nj Some by (simp add: claimed_annotation_target_def t)
    note m = merge_keeps [OF f al find_annotation_some(2) [OF Some] this ok(1) i]
    show ?thesis using r keeps_same [OF f al] m
      by (auto simp: op_annotation_updated_def Inr ai Some Let_def split: if_splits option.splits prod.splits)
  qed
qed

lemma deleted_keeps:
  assumes f: "find_annotation lv j = Some a" and al: "allocated lv"
    and t: "obj_get op ''op'' = JStr ''annotation_deleted''" and nj: "claimed_annotation_target op lv \<noteq> Some j"
    and r: "op_annotation_deleted lv op = (out, lv')"
  shows "keeps j a lv lv'"
proof (cases "if truthy (obj_get op ''annotation_id'') then obj_get op ''annotation_id'' else obj_get op ''id''")
  case (JStr i)
  then have ij: "i \<noteq> j" using nj f by (auto simp: claimed_annotation_target_def t)
  have lv': "cv_annotations (lv_canvas lv') = filter (\<lambda>b. obj_get (lv_heap lv b) ''id'' \<noteq> JStr i) (cv_annotations (lv_canvas lv))"
    "lv_heap lv' = lv_heap lv" "lv_next lv' = lv_next lv"
    using r by (auto simp: op_annotation_deleted_def JStr Let_def)
  have "find_annotation lv' j = find_annotation lv j"
    using ij unfolding find_annotation_def lv' by (subst find_filter) auto
  then show ?thesis using f al lv' by (simp add: keeps_def allocated_def)
qed (use r keeps_same [OF f al] in \<open>auto simp: op_annotation_deleted_def\<close>)

lemma group_keeps:
  assumes f: "find_annotation lv j = Some a" and al: "allocated lv"
    and t: "obj_get op ''op'' = JStr ''group_membership_changed''" and nj: "claimed_annotation_target op lv \<noteq> Some j"
    and r: "op_group_membership_changed env lv op = (out, lv')"
  shows "keeps j a lv lv'"
proof (cases "lv' = lv")
  case True
  then show ?thesis by (intro keeps_same [OF f al]) simp_all
next
  case False
  then obtain g b ms where g: "obj_get op ''group_id'' = JStr g"
    and b: "find (\<lambda>a. obj_get (lv_heap lv a) ''id'' = JStr g \<and> raw_type (lv_heap lv a) = JStr ''group'')
      (cv_annotations (lv_canvas lv)) = Some b"
    and lv': "lv' = heap_set lv b (dict_set (dict_set (lv_heap lv b) ''member_node_ids'' (jids ms))
       ''updated_at'' (JStr (ev_annotation_time env)))"
    using r by (auto simp: op_group_membership_changed_def split: json.splits sum.splits option.splits)
  from b have id: "obj_get (lv_heap lv b) ''id'' = JStr g" "b \<in> set (cv_annotations (lv_canvas lv))"
    by (auto simp: find_Some_iff)
  then have "find_annotation lv g \<noteq> None" by (auto simp: find_annotation_def find_None_iff)
  then have "g \<noteq> j" using nj by (auto simp: claimed_annotation_target_def t g)
  then show ?thesis unfolding lv' using id by (intro keeps_other [OF f al]) simp_all
qed

lemma branch_keeps:
  assumes f: "find_annotation lv j = Some a" and al: "allocated lv" and op: "py_json (JObj op)"
    and t: "obj_get op ''op'' = JStr t" "t \<noteq> ''nodes_removed''" and nj: "claimed_annotation_target op lv \<noteq> Some j"
    and r: "state_op_branch cfg env tr lv op t = (out, lv')" and st: "t \<in> set STATE_OPS"
  shows "keeps j a lv lv'"
  using r t(2) unfolding state_op_branch_def
  by (auto split: if_splits intro: value_ann_same [THEN keeps_ann_same, OF _ f al] created_keeps [OF f al op _ nj]
      updated_keeps [OF f al op _ nj] deleted_keeps [OF f al _ nj] group_keeps [OF f al _ nj] simp: t(1))

lemma apply_keeps:
  assumes f: "find_annotation lv j = Some a" and al: "allocated lv" and op: "py_json (JObj op)"
    and nr: "obj_get op ''op'' \<noteq> JStr ''nodes_removed''" and nj: "claimed_annotation_target op lv \<noteq> Some j"
    and r: "apply_state_op cfg env rec tr lv op = (r, lv')"
  shows "keeps j a lv lv'"
  using apply_state_op_cases [OF r]
proof (elim disjE exE conjE)
  assume "lv' = lv"
  then show ?thesis by (intro keeps_same [OF f al]) simp_all
next
  fix t out lv1 g b k ap
  assume t: "obj_get op ''op'' = JStr t" "t \<in> set STATE_OPS" and b: "state_op_branch cfg env tr lv op t = (out, lv1)"
    and c: "commit_op cfg env rec t op g b k lv1 = (ap, lv')"
  have "keeps j a lv lv1" by (rule branch_keeps [OF f al op t(1) _ nj b t(2)]) (use nr t(1) in auto)
  then show ?thesis using commit_fields [OF c] by (simp add: keeps_def find_annotation_def)
qed (use branch_keeps [OF f al op _ _ nj] nr in fastforce)+

lemma py_json_set:
  assumes "py_json (JObj d)" and "py_json v"
  shows "py_json (JObj (dict_set d k v))"
proof -
  have "py_json w" if "(k', w) \<in> set (dict_set d k v)" for k' w
  proof -
    have "distinct (map fst (dict_set d k v))" using assms(1) by simp
    with that have "map_of (dict_set d k v) k' = Some w" by (simp only: map_of_is_SomeI)
    then have "w = v \<or> map_of d k' = Some w" by (simp split: if_splits)
    then show ?thesis using assms by (auto simp: list_all_iff dest: map_of_SomeD)
  qed
  then show ?thesis using assms(1) by (auto simp: list_all_iff)
qed

lemma claimed_with_client: "claimed_annotation_target (dict_set op ''client_id'' v) lv = claimed_annotation_target op lv"
  by (simp add: claimed_annotation_target_def cong: if_cong)

lemma working_acquire_keeps:
  "map_of w j = Some h \<Longrightarrow> h \<noteq> c \<Longrightarrow> working_acquire c es w g n = (g', n', w') \<Longrightarrow> map_of w' j = Some h"
proof (induction es arbitrary: w g n)
  case (Cons e es)
  show ?case
    using Cons.IH [of "dict_set w e c", OF _ Cons.prems(2)] Cons.IH [of w, OF _ Cons.prems(2)] Cons.prems
    by (cases "e = j") (auto split: option.splits if_splits)
qed simp

lemma working_release_keeps:
  "map_of w j = Some h \<Longrightarrow> h \<noteq> c \<Longrightarrow> working_release c es w rs = (rs', w') \<Longrightarrow> map_of w' j = Some h"
proof (induction es arbitrary: w rs)
  case (Cons e es)
  show ?case
    using Cons.IH [of "dict_del w e", OF _ Cons.prems(2)] Cons.IH [of w, OF _ Cons.prems(2)] Cons.prems
    by (cases "e = j") (auto split: if_splits)
qed simp

lemma lease_conflict_none:
  assumes "lease_conflict op lv w c = None" and "map_of w j = Some h" and "h \<noteq> c"
  shows "claimed_annotation_target op lv \<noteq> Some j"
  using assms by (auto simp: lease_conflict_def split: option.splits)

lemma batch_op_keeps:
  assumes f: "find_annotation lv j = Some a" and al: "allocated lv" and op: "py_json (JObj op)"
    and nr: "obj_get op ''op'' \<noteq> JStr ''nodes_removed''"
    and w: "map_of w j = Some h" "h \<noteq> c"
    and r: "batch_op cfg env c op lv w = (Inr p, lv', w')"
  shows "keeps j a lv lv' \<and> map_of w' j = Some h"
proof -
  have same: "keeps j a lv lv" by (intro keeps_same [OF f al]) simp_all
  let ?op = "dict_set op ''client_id'' (JStr c)"
  have op_keeps: "keeps j a lv lv1"
    if "lease_conflict op lv w c = None" "apply_state_op (mc_store cfg) env True False lv ?op = (r1, lv1)" for r1 lv1
  proof (rule apply_keeps [OF f al py_json_set [OF op] _ _ that(2)])
    show "claimed_annotation_target ?op lv \<noteq> Some j"
      unfolding claimed_with_client by (rule lease_conflict_none [OF that(1) w])
  qed (use nr in simp_all)
  show ?thesis
    using r same op_keeps working_acquire_keeps [OF w] working_release_keeps [OF w] w(1)
    by (auto simp: batch_op_def Let_def split: if_splits option.splits prod.splits sum.splits)
qed

lemma batch_loop_keeps:
  "batch_loop cfg envs c k vs lv w = (Inr ps, lv') \<Longrightarrow> find_annotation lv j = Some a \<Longrightarrow> allocated lv \<Longrightarrow>
   \<forall>v \<in> set vs. py_json v \<and> (\<forall>op. v = JObj op \<longrightarrow> obj_get op ''op'' \<noteq> JStr ''nodes_removed'') \<Longrightarrow>
   map_of w j = Some h \<Longrightarrow> h \<noteq> c \<Longrightarrow> keeps j a lv lv'"
proof (induction cfg envs c k vs lv w arbitrary: ps lv' rule: batch_loop.induct)
  case (1 cfg envs c k lv w)
  then show ?case by (auto intro!: keeps_same)
next
  case (2 cfg envs c k v vs lv w)
  show ?case
  proof (cases v)
    case (JObj op)
    obtain r1 lv1 w1 where b: "batch_op cfg (envs k) c op lv w = (r1, lv1, w1)" by (cases "batch_op cfg (envs k) c op lv w")
    obtain p where p: "r1 = Inr p" using "2.prems"(1) by (cases r1) (auto simp: JObj b)
    obtain r2 lv2 where l: "batch_loop cfg envs c (k + 1) vs lv1 w1 = (r2, lv2)" by fastforce
    obtain ps2 where ps2: "r2 = Inr ps2" using "2.prems"(1) by (cases r2) (auto simp: JObj b p l [simplified])
    have lv2: "lv' = lv2" using "2.prems"(1) by (simp add: JObj b p l [simplified] ps2)
    have "py_json (JObj op)" "obj_get op ''op'' \<noteq> JStr ''nodes_removed''" using "2.prems"(4) JObj by auto
    from batch_op_keeps [OF "2.prems"(2,3) this "2.prems"(5,6) b [unfolded p]]
    have k: "keeps j a lv lv1" and w1: "map_of w1 j = Some h" by auto
    have "find_annotation lv1 j = Some a" "allocated lv1" using k by (simp_all add: keeps_def allocated_def)
    from "2.IH" [OF JObj b [symmetric] p refl l [unfolded ps2] this _ w1 "2.prems"(6)] "2.prems"(4)
    have "keeps j a lv1 lv2" by simp
    with k show ?thesis unfolding lv2 by (rule keeps_trans)
  qed (use "2.prems" in simp_all)
qed

lemma existing_from_dict:
  assumes "session_to_dict lv' = session_to_dict lv"
  shows "existing_annotation lv' (JStr j) = existing_annotation lv (JStr j)"
proof -
  have find_map: "map_option h (find (\<lambda>a. P (h a)) xs) = find P (map h xs)" for h :: "nat \<Rightarrow> json_obj" and P xs
    by (induction xs) auto
  have "map (lv_heap lv') (cv_annotations (lv_canvas lv')) = map (lv_heap lv) (cv_annotations (lv_canvas lv))"
  proof -
    have "map (\<lambda>a. JObj (lv_heap lv' a)) (cv_annotations (lv_canvas lv')) =
        map (\<lambda>a. JObj (lv_heap lv a)) (cv_annotations (lv_canvas lv))"
      using assms by (simp add: session_to_dict_def session_meta_def canvas_to_dict_def Let_def)
    then have "map JObj (map (lv_heap lv') (cv_annotations (lv_canvas lv'))) =
        map JObj (map (lv_heap lv) (cv_annotations (lv_canvas lv)))" by (simp add: comp_def)
    then show ?thesis by (rule map_injective) (simp add: inj_on_def inj_def)
  qed
  then show ?thesis
    using find_map [of "lv_heap lv" "\<lambda>d. obj_get d ''id'' = JStr j" "cv_annotations (lv_canvas lv)"]
      find_map [of "lv_heap lv'" "\<lambda>d. obj_get d ''id'' = JStr j" "cv_annotations (lv_canvas lv')"]
    by (simp add: existing_annotation_def find_annotation_def)
qed

lemma commit_entry_store:
  "mg_store (snd (commit_entry env i c h p m)) = mg_store m"
  by (cases p) (auto simp: commit_entry_def mg_publish_def split: prod.split)

lemma commit_entries_store:
  "mg_store (snd (commit_entries env i c h ps m)) = mg_store m"
proof (induction ps arbitrary: m)
  case (Cons p ps)
  show ?case using Cons [of "snd (commit_entry env i c h p m)"] commit_entry_store [of env i c h p m]
    by (simp add: split_beta)
qed simp

lemma backend_save_sessions: "sx_sessions (snd (backend_save ops st doc)) = sx_sessions st"
  by (auto simp: backend_save_def split: prod.split bool.split)

lemma leave_committed:
  assumes r: "apply_ops_leave cfg env i f m = (Inr res, m')" and lv: "map_of (sx_sessions (mg_store m)) i = Some lv"
    and v: "is_valid_session_id i"
  shows "fst (mg_get cfg env i m') = Some lv"
proof -
  obtain ok st where s: "(case if_snapshot f of None \<Rightarrow> (True, mg_store m)
      | Some doc \<Rightarrow> backend_save (mc_backend cfg) (mg_store m) doc) = (ok, st)" by fastforce
  have l: "live_of i m (if_saved f) = lv" by (simp add: live_of_def lv)
  have ok: "ok" using r by (cases ok) (auto simp: apply_ops_leave_def Let_def s)
  have st: "sx_sessions st = sx_sessions (mg_store m)"
    using s backend_save_sessions [of "mc_backend cfg" "mg_store m"] by (cases "if_snapshot f") (auto, metis snd_conv)
  have "m' = mg_unlock i (snd (commit_entries env i (if_client f) (lv_heap lv) (if_pending f) (m\<lparr>mg_store := st\<rparr>)))"
    using r ok by (auto simp: apply_ops_leave_def Let_def s l split: prod.splits)
  then have "mg_store m' = st" by (simp add: mg_unlock_def commit_entries_store)
  then show ?thesis using lv v by (simp add: mg_get_def store_get_def st)
qed

text \<open>C18: an edit lease protects its annotation. While one client holds a live lease on an
  annotation, no batch of another client without a \<open>nodes_removed\<close> op changes or removes it: whatever the
  batch does otherwise, lease ops included, and whether it succeeds or fails, the annotation reads
  afterwards as before. (\<open>nodes_removed\<close> is not checked against the leases: it takes the removed nodes
  out of the members of every group, a leased one too, \<open>removal_edits_leased_group\<close>.)\<close>

theorem lease_protects:
  assumes g: "fst (mg_get cfg env i m) = Some lv" and al: "allocated lv"
    and d: "existing_annotation lv (JStr j) = Some d"
    and h: "map_of (fst (holds_snapshot (mg_leases m) i (ce_now env))) j = Some h" "h \<noteq> c"
    and vs: "\<forall>v \<in> set vs. py_json v \<and> (\<forall>op. v = JObj op \<longrightarrow> obj_get op ''op'' \<noteq> JStr ''nodes_removed'')"
    and r: "apply_ops cfg env i (JStr c) (JArr vs) m = (r, m')"
  shows "\<exists>lv'. fst (mg_get cfg env i m') = Some lv' \<and> existing_annotation lv' (JStr j) = Some d"
proof (cases r)
  case (Inl e)
  obtain lv' where "fst (mg_get cfg env i m') = Some lv'" "session_to_dict lv' = session_to_dict lv"
    using failed_batch_reverts [OF r [unfolded Inl] g] by blast
  then show ?thesis using existing_from_dict d by metis
next
  case (Inr res)
  obtain r1 m1 where c1: "apply_ops_checks cfg env i (JStr c) (JArr vs) m = (r1, m1)" by fastforce
  obtain cv where r1: "r1 = Inr cv" using r Inr by (cases r1) (auto simp: apply_ops_def c1)
  have cv: "cv = (c, vs)"
    using c1 r1 by (auto simp: apply_ops_checks_def split: if_splits sum.splits prod.splits bool.splits option.splits)
  obtain r2 m2 where en: "apply_ops_enter cfg env i c vs m1 = (r2, m2)" by fastforce
  obtain f where f: "r2 = Inr f" using r Inr by (cases r2) (auto simp: apply_ops_def c1 r1 cv en)
  have lf: "apply_ops_leave cfg env i f m2 = (Inr res, m')"
    using r Inr by (simp add: apply_ops_def c1 r1 cv en f)
  have g1: "fst (mg_get cfg env i m1) = Some lv" using checks_state [OF c1] g by simp
  note ent = enter_entered [OF en [unfolded f] g1]
  obtain lv1 leases ps where lv1: "batch_loop cfg (ce_op env) c 0 vs lv leases = (Inr ps, lv1)"
      "leases = fst (holds_snapshot (mg_leases m1) i (ce_now env))"
      "map_of (sx_sessions (mg_store m2)) i = Some lv1"
    using ent(1) by blast
  obtain a where a: "find_annotation lv j = Some a" "lv_heap lv a = d"
    using d by (auto simp: existing_annotation_def)
  have "map_of leases j = Some h" using h(1) lv1(2) checks_state [OF c1] by simp
  from batch_loop_keeps [OF lv1(1) a(1) al vs this h(2)] have "keeps j a lv lv1" .
  then have "existing_annotation lv1 (JStr j) = Some d"
    using a(2) by (simp add: keeps_def existing_annotation_def)
  then show ?thesis using leave_committed [OF lf lv1(3) ent(3)] by blast
qed

section \<open>Witness\<close>

definition leased_manager :: "mem_backend manager" where
  "leased_manager = demo_manager\<lparr>mg_leases := snd (acquire LEASE_TTL [] ''0001-0002'' ''ann'' [''a''] 0 0)\<rparr>"

lemma lease_protects_witness:
  "\<exists>lv'. fst (mg_get demo_config demo_call ''0001-0002''
      (snd (apply_ops demo_config demo_call ''0001-0002'' (JStr ''bob'')
        (JArr [JObj demo_hide, JObj demo_delete]) leased_manager))) = Some lv' \<and>
    existing_annotation lv' (JStr ''a'') = existing_annotation demo_live (JStr ''a'')"
proof -
  let ?vs = "[JObj demo_hide, JObj demo_delete]"
  obtain d where d: "existing_annotation demo_live (JStr ''a'') = Some d"
  proof -
    have "existing_annotation demo_live (JStr ''a'') \<noteq> None" by code_simp
    then show thesis using that by blast
  qed
  have g: "fst (mg_get demo_config demo_call ''0001-0002'' leased_manager) = Some demo_live"
    using demo_get by (simp add: leased_manager_def mg_get_def split: prod.splits)
  have al: "allocated demo_live" using demo_live_inv by (auto simp: allocated_def live_inv_def ann_inv_def)
  have h: "map_of (fst (holds_snapshot (mg_leases leased_manager) ''0001-0002'' (ce_now demo_call))) ''a'' = Some ''ann''"
    by code_simp
  have vs: "\<forall>v \<in> set ?vs. py_json v \<and> (\<forall>op. v = JObj op \<longrightarrow> obj_get op ''op'' \<noteq> JStr ''nodes_removed'')"
    by (simp add: demo_hide_def demo_delete_def obj_get_def)
  have "(''ann'' :: string) \<noteq> ''bob''" by simp
  from lease_protects [OF g al d h this vs surjective_pairing] d show ?thesis by auto
qed

text \<open>
  The removal of nodes is not checked against the leases: \<open>ann\<close> holds a lease on the group, and
  \<open>bob\<close> removes a node, which takes it out of the members of the group.
\<close>

definition group_live :: live where
  "group_live = run_ops demo_store (new_live ''0001-0002'' None ''now'') [(demo_env, True, False,
     [(''op'', JStr ''annotation_created''), (''client_id'', JStr ''ann''),
      (''annotation'', JObj [(''id'', JStr ''a''), (''type'', JStr ''group''),
         (''member_node_ids'', JArr [JStr ''n'', JStr ''m''])])])]"

definition group_manager :: "mem_backend manager" where
  "group_manager = (manager_init (store_put (store_init []) ''0001-0002'' group_live))\<lparr>
     mg_leases := snd (acquire LEASE_TTL [] ''0001-0002'' ''ann'' [''a''] 0 0)\<rparr>"

lemma removal_edits_leased_group:
  "map_of (fst (holds_snapshot (mg_leases group_manager) ''0001-0002'' (ce_now demo_call))) ''a'' = Some ''ann'' \<and>
   (case apply_ops demo_config demo_call ''0001-0002'' (JStr ''bob'')
      (JArr [JObj [(''op'', JStr ''nodes_removed''), (''client_id'', JStr ''bob''), (''node_ids'', JArr [JStr ''n''])]])
      group_manager of (r, m') \<Rightarrow>
     (case r of Inl e \<Rightarrow> False | Inr x \<Rightarrow> True) \<and>
     (case fst (mg_get demo_config demo_call ''0001-0002'' m') of
        None \<Rightarrow> False
      | Some lv' \<Rightarrow> existing_annotation lv' (JStr ''a'') \<noteq> existing_annotation group_live (JStr ''a'')))"
  by code_simp

end
