(* ===== verification/PyIso.thy ===== *)
theory PyIso
  imports PyTime PyStr
begin

text \<open>
  \<open>datetime.fromisoformat\<close> on the forms the source writes, behind the \<open>_parse_datetime\<close> of
  \<open>backend/core/models.py\<close>: date, separator, time to the second, an optional fraction of six
  digits, and \<open>+00:00\<close>, \<open>Z\<close> or no offset, which all mean UTC. Forms with another offset, or that
  only other writers produce, are not read.
\<close>

fun digits :: "nat \<Rightarrow> string \<Rightarrow> nat \<Rightarrow> (nat \<times> string) option" where
  "digits 0 s acc = Some (acc, s)"
| "digits (Suc k) [] acc = None"
| "digits (Suc k) (c # cs) acc = (if is_digit c then digits k cs (acc * 10 + (code c - 48)) else None)"

definition expect :: "char \<Rightarrow> string \<Rightarrow> string option" where
  "expect c s = (case s of d # ds \<Rightarrow> if d = c then Some ds else None | [] \<Rightarrow> None)"

definition fraction :: "string \<Rightarrow> (nat \<times> string) option" where
  "fraction s = (case s of c # cs \<Rightarrow> if c = CHR ''.'' then digits 6 cs 0 else Some (0, s) | [] \<Rightarrow> Some (0, s))"

definition normalize_z :: "string \<Rightarrow> string" where
  "normalize_z s = (if s \<noteq> [] \<and> last s = CHR ''Z'' then butlast s @ ''+00:00'' else s)"

definition instant_of :: "int \<Rightarrow> int \<Rightarrow> int \<Rightarrow> int \<Rightarrow> int \<Rightarrow> int \<Rightarrow> int \<Rightarrow> datetime option" where
  "instant_of y mo d h mi sec us =
     (if valid_date y mo d \<and> h \<le> 23 \<and> mi \<le> 59 \<and> sec \<le> 59
      then Some ((((ymd2ord (y, mo, d) - 719163) * 24 + h) * 3600 + mi * 60 + sec) * 1000000 + us)
      else None)"

definition parse_datetime :: "string \<Rightarrow> datetime option" where
  "parse_datetime s =
     Option.bind (digits 4 (normalize_z s) 0) (\<lambda>(y, s).
     Option.bind (expect (CHR ''-'') s) (\<lambda>s. Option.bind (digits 2 s 0) (\<lambda>(mo, s).
     Option.bind (expect (CHR ''-'') s) (\<lambda>s. Option.bind (digits 2 s 0) (\<lambda>(d, s).
     Option.bind (if s = [] then None else digits 2 (tl s) 0) (\<lambda>(h, s).
     Option.bind (expect (CHR '':'') s) (\<lambda>s. Option.bind (digits 2 s 0) (\<lambda>(mi, s).
     Option.bind (expect (CHR '':'') s) (\<lambda>s. Option.bind (digits 2 s 0) (\<lambda>(sec, s).
     Option.bind (fraction s) (\<lambda>(us, s).
       if s = [] \<or> s = ''+00:00'' then instant_of (int y) (int mo) (int d) (int h) (int mi) (int sec) (int us)
       else None)))))))))))"

section \<open>Digits\<close>

lemma digits_append: "digits (k + j) s acc = Option.bind (digits k s acc) (\<lambda>(a, s). digits j s a)"
  by (induction k s acc rule: digits.induct) auto

lemma code_char [simp]: "n < 256 \<Longrightarrow> code (char_of n) = n"
  by (simp add: code_def of_char_of)

lemma digit_char: "(n::nat) < 10 \<Longrightarrow> is_digit (char_of (48 + n))"
  by (simp add: is_digit_def)

lemma char_zero: "char_of (48::nat) = CHR ''0''"
  by code_simp

lemma zero_pad_Suc:
  assumes "0 < w"
  shows "zero_pad (Suc w) n = zero_pad w (n div 10) @ [char_of (48 + n mod 10)]"
proof (cases "n < 10")
  case True
  then have "string_of_nat n = [char_of (48 + n)]" "string_of_nat (n div 10) = [CHR ''0'']"
    by (simp_all add: string_of_nat.simps char_zero)
  moreover have "replicate w (CHR ''0'') = replicate (w - 1) (CHR ''0'') @ [CHR ''0'']"
    using assms by (metis Suc_diff_1 replicate_Suc replicate_append_same)
  ultimately show ?thesis using True by (simp add: zero_pad_def Let_def)
next
  case False
  then have "string_of_nat n = string_of_nat (n div 10) @ [char_of (48 + n mod 10)]"
    by (subst string_of_nat.simps) simp
  then show ?thesis by (simp add: zero_pad_def Let_def)
qed

lemma digits_zero_pad:
  assumes "0 < w" and "n < 10 ^ w"
  shows "digits w (zero_pad w n @ rest) 0 = Some (n, rest)"
  using assms
proof (induction w arbitrary: n rest)
  case (Suc w)
  show ?case
  proof (cases "w = 0")
    case True
    with Suc.prems have "n < 10" by simp
    then show ?thesis
      by (simp add: True zero_pad_def Let_def string_of_nat.simps digit_char)
  next
    case False
    have "n div 10 < 10 ^ w" using Suc.prems(2) by (simp add: less_mult_imp_div_less mult.commute)
    then have "digits w (zero_pad w (n div 10) @ char_of (48 + n mod 10) # rest) 0 =
        Some (n div 10, char_of (48 + n mod 10) # rest)"
      using Suc.IH False by simp
    then have "digits (w + 1) (zero_pad w (n div 10) @ char_of (48 + n mod 10) # rest) 0 =
        digits 1 (char_of (48 + n mod 10) # rest) (n div 10)"
      unfolding digits_append [of w 1] by simp
    then show ?thesis using False by (simp add: zero_pad_Suc digit_char)
  qed
qed simp

section \<open>Dates\<close>

lemma ord2md_valid:
  assumes "0 \<le> n" and "n < 365" and "ord2md leap n = (m, d)"
  shows "1 \<le> m \<and> m \<le> 12 \<and> 1 \<le> d \<and> d \<le> days_in_month m + (if m = 2 \<and> leap then 1 else 0)"
proof -
  define k where "k = (n + 50) div 32"
  have bounds: "32 * k \<le> n + 50" "n + 50 < 32 * k + 32" unfolding k_def by linarith+
  have k: "1 \<le> k" "k \<le> 12" using bounds assms(1,2) by linarith+
  have md: "(m, d) = ord2md leap n" using assms(3) by simp
  have "ord2md leap n = (let preceding = days_before_month k + (if 2 < k \<and> leap then 1 else 0)
      in if n < preceding
         then let preceding = preceding - (days_in_month (k - 1) + (if k - 1 = 2 \<and> leap then 1 else 0))
              in (k - 1, n - preceding + 1)
         else (k, n - preceding + 1))"
    unfolding ord2md_def Let_def k_def by (rule refl)
  with md month_cases [OF k] bounds assms(1,2) show ?thesis
    by (elim disjE) (cases leap; simp split: if_splits; linarith?)+
qed

lemma ord2ymd_valid:
  assumes "1 \<le> ordinal" and "ordinal \<le> 3652059" and "ord2ymd ordinal = (y, m, d)"
  shows "valid_date y m d \<and> y \<le> 9999"
proof -
  define a r1 where "a = (ordinal - 1) div 146097" and "r1 = (ordinal - 1) mod 146097"
  define b r2 where "b = r1 div 36524" and "r2 = r1 mod 36524"
  define c r3 where "c = r2 div 1461" and "r3 = r2 mod 1461"
  define e n where "e = r3 div 365" and "n = r3 mod 365"
  have r1: "0 \<le> r1" "r1 < 146097" and o: "ordinal - 1 = 146097 * a + r1" by (simp_all add: a_def r1_def)
  have r2: "0 \<le> r2" "r2 < 36524" and o2: "r1 = 36524 * b + r2" by (simp_all add: b_def r2_def)
  have r3: "0 \<le> r3" "r3 < 1461" and o3: "r2 = 1461 * c + r3" by (simp_all add: c_def r3_def)
  have n: "0 \<le> n" "n < 365" and o4: "r3 = 365 * e + n" by (simp_all add: e_def n_def)
  have a: "0 \<le> a" "a \<le> 24" using o r1 assms(1,2) by linarith+
  have b: "0 \<le> b" "b \<le> 4" using r1 r2 o2 by linarith+
  have c: "0 \<le> c" "c \<le> 24" using r2 r3 o3 by linarith+
  have e: "0 \<le> e" "e \<le> 4" using r3 n o4 by linarith+
  let ?leap = "e = 3 \<and> (c \<noteq> 24 \<or> b = 3)"
  have total: "ordinal - 1 = 146097 * a + 36524 * b + 1461 * c + 365 * e + n" using o o2 o3 o4 by simp
  have ord: "ord2ymd ordinal = (let year = a * 400 + 1 + b * 100 + c * 4 + e in
      if e = 4 \<or> b = 4 then (year - 1, 12, 31) else (year, ord2md ?leap n))"
    unfolding ord2ymd_def Let_def a_def r1_def b_def r2_def c_def r3_def e_def n_def by (rule refl)
  show ?thesis
  proof (cases "e = 4 \<or> b = 4")
    case True
    then have y: "y = a * 400 + b * 100 + c * 4 + e" "m = 12" "d = 31"
      using assms(3) by (simp_all add: ord Let_def)
    have "y \<le> 9999"
    proof (cases "b = 4")
      case b4: True
      then have "r2 = 0" using r1 r2 o2 by linarith
      then have z: "c = 0" "e = 0" using r3 o3 n o4 c e by linarith+
      have "146097 * a \<le> 3505962" using total assms(2) b4 z n by linarith
      then have "a \<le> 23" by linarith
      then show ?thesis using y(1) b4 z by linarith
    next
      case False
      then have "b \<le> 3" "e = 4" using b True by linarith+
      then show ?thesis using total assms(2) a c n y(1) by linarith
    qed
    moreover have "1 \<le> y" using y(1) True a b c e by linarith
    ultimately show ?thesis using y(2,3) by (simp add: valid_date_def)
  next
    case False
    then have y: "y = a * 400 + 1 + b * 100 + c * 4 + e" and md: "ord2md ?leap n = (m, d)"
      using assms(3) by (simp_all add: ord Let_def)
    have be: "b \<le> 3" "e \<le> 3" using False b e by linarith+
    have "y = 400 * a + 100 * b + 4 * c + e + 1" using y by simp
    with year_parts(4) [OF b(1) be(1) c e(1) be(2), of a] have "is_leap y \<longleftrightarrow> ?leap" by simp
    moreover have "y \<le> 9999" using total assms(2) a b c e n y be by linarith
    ultimately show ?thesis using ord2md_valid [OF n md] y a b c e by (auto simp: valid_date_def)
  qed
qed

section \<open>The round trip\<close>

text \<open>From the first instant of year 1 to the last of year 9999.\<close>

definition iso_range :: "datetime \<Rightarrow> bool" where
  "iso_range t = (- 719162 \<le> t div us_per_day \<and> t div us_per_day \<le> 2932896)"

lemma instant_sum:
  fixes q a b c f s t :: int
  assumes "t = q * 86400000000 + s * 1000000 + f" and "s = a * 3600 + b * 60 + c"
  shows "((q * 24 + a) * 3600 + b * 60 + c) * 1000000 + f = t"
  using assms by simp

theorem parse_isoformat:
  assumes "iso_range t"
  shows "parse_datetime (isoformat t) = Some t"
proof -
  obtain y m d where ymd: "civil_of_days (t div us_per_day) = (y, m, d)" by (cases "civil_of_days (t div us_per_day)")
  have "valid_date y m d \<and> y \<le> 9999"
    using assms ymd ord2ymd_valid [of "t div us_per_day + 719163" y m d]
    by (simp add: civil_of_days_def iso_range_def)
  then have v: "valid_date y m d" "y \<le> 9999" by simp_all
  have dim: "days_in_month m \<le> 31" if "1 \<le> m" "m \<le> 12"
    using month_cases [OF that] by (elim disjE) simp_all
  have r: "1 \<le> y" "1 \<le> m" "m \<le> 12" "1 \<le> d" "d \<le> 32"
    using v dim by (auto simp: valid_date_def split: if_splits)
  have ordy: "ymd2ord (y, m, d) - 719163 = t div us_per_day"
    using ymd2ord_ord2ymd [of "t div us_per_day + 719163"] ymd by (simp add: civil_of_days_def)
  define us secs frac where "us = t mod us_per_day" and "secs = us div 1000000" and "frac = us mod 1000000"
  have us: "0 \<le> us" "us < us_per_day" by (simp_all add: us_def us_per_day_def)
  have secs: "0 \<le> secs" "secs < 86400" using us by (auto simp: secs_def us_per_day_def)
  have frac: "0 \<le> frac" "frac < 1000000" by (simp_all add: frac_def)
  have t: "t = t div us_per_day * us_per_day + secs * 1000000 + frac"
    by (simp add: secs_def frac_def us_def)
  have hms: "secs = secs div 3600 * 3600 + secs div 60 mod 60 * 60 + secs mod 60"
  proof -
    have "secs div 60 = secs div 60 div 60 * 60 + secs div 60 mod 60" by simp
    moreover have "secs div 60 div 60 = secs div 3600" by (simp add: zdiv_zmult2_eq [symmetric])
    moreover have "secs = secs div 60 * 60 + secs mod 60" by simp
    ultimately show ?thesis by linarith
  qed
  have h: "0 \<le> secs div 3600" "secs div 3600 \<le> 23" using secs by auto
  let ?tail = "(if frac = 0 then [] else ''.'' @ zero_pad 6 (nat frac)) @ ''+00:00''"
  have iso: "isoformat t = zero_pad 4 (nat y) @ ''-'' @ zero_pad 2 (nat m) @ ''-'' @ zero_pad 2 (nat d) @ ''T'' @
      zero_pad 2 (nat (secs div 3600)) @ '':'' @ zero_pad 2 (nat (secs div 60 mod 60)) @ '':'' @
      zero_pad 2 (nat (secs mod 60)) @ ?tail"
    by (simp add: isoformat_def ymd us_def secs_def frac_def Let_def)
  have "last (isoformat t) \<noteq> CHR ''Z''" unfolding iso by simp
  then have z: "normalize_z (isoformat t) = isoformat t" by (simp add: normalize_z_def)
  have tail: "fraction ?tail = Some (nat frac, ''+00:00'')"
    using digits_zero_pad [of 6 "nat frac" "''+00:00''"] frac by (auto simp: fraction_def)
  have d4: "digits 4 (zero_pad 4 (nat y) @ s) 0 = Some (nat y, s)" for s
    using v(2) r by (intro digits_zero_pad) simp_all
  have d2: "digits 2 (zero_pad 2 k @ s) 0 = Some (k, s)" if "k < 100" for k s
    using that by (intro digits_zero_pad) simp_all
  have lt: "nat m < 100" "nat d < 100" "nat (secs div 3600) < 100" "nat (secs div 60 mod 60) < 100" "nat (secs mod 60) < 100"
    using r h by auto
  have val: "instant_of y m d (secs div 3600) (secs div 60 mod 60) (secs mod 60) frac = Some t"
  proof -
    have "secs div 60 mod 60 \<le> 59" "secs mod 60 \<le> 59" by simp_all
    with v(1) h(2) have "instant_of y m d (secs div 3600) (secs div 60 mod 60) (secs mod 60) frac =
        Some ((((ymd2ord (y, m, d) - 719163) * 24 + secs div 3600) * 3600 + secs div 60 mod 60 * 60 + secs mod 60)
          * 1000000 + frac)"
      unfolding instant_of_def by (simp only: conj_assoc simp_thms if_True)
    moreover have "((t div us_per_day * 24 + secs div 3600) * 3600 + secs div 60 mod 60 * 60 + secs mod 60)
        * 1000000 + frac = t"
      using t hms unfolding us_per_day_def by (rule instant_sum)
    ultimately show ?thesis by (simp only: ordy)
  qed
  have nn: "int (nat y) = y" "int (nat m) = m" "int (nat d) = d" "int (nat (secs div 3600)) = secs div 3600"
    "int (nat (secs div 60 mod 60)) = secs div 60 mod 60" "int (nat (secs mod 60)) = secs mod 60" "int (nat frac) = frac"
    using r h frac by simp_all
  show ?thesis
    unfolding parse_datetime_def iso z [unfolded iso]
    by (simp only: z [unfolded iso, simplified append.simps] d4 d2 lt expect_def tail [simplified append.simps] append.simps list.case Option.bind.bind_lunit prod.case simp_thms
        if_True if_False list.distinct list.sel nn val)
qed

end
