(* ===== verification/GraphModels.thy ===== *)
theory GraphModels
  imports PyIso
begin

text \<open>
  Nodes and edges of the knowledge graph (\<open>Node\<close> and \<open>Edge\<close> in \<open>backend/core/models.py\<close>): the
  legacy enums of types, the field limits the pydantic models enforce, and the dict form they are
  stored in. A missing id or time is filled from \<open>fresh\<close>, the \<open>uuid4\<close> and the clock of the
  reader. What a validator raises is \<open>None\<close>.
\<close>

section \<open>Types of nodes and edges\<close>

datatype node_kind =
    ACTOR | INITIATIVE | CAPABILITY | RESOURCE | LEGISLATION | THEME | GOAL | EVENT | SAVED_VIEW
  | VISUALIZATION_VIEW

fun node_kind_value :: "node_kind \<Rightarrow> string" where
  "node_kind_value ACTOR = ''Actor''"
| "node_kind_value INITIATIVE = ''Initiative''"
| "node_kind_value CAPABILITY = ''Capability''"
| "node_kind_value RESOURCE = ''Resource''"
| "node_kind_value LEGISLATION = ''Legislation''"
| "node_kind_value THEME = ''Theme''"
| "node_kind_value GOAL = ''Goal''"
| "node_kind_value EVENT = ''Event''"
| "node_kind_value SAVED_VIEW = ''SavedView''"
| "node_kind_value VISUALIZATION_VIEW = ''VisualizationView''"

fun node_kind_name :: "node_kind \<Rightarrow> string" where
  "node_kind_name ACTOR = ''ACTOR''"
| "node_kind_name INITIATIVE = ''INITIATIVE''"
| "node_kind_name CAPABILITY = ''CAPABILITY''"
| "node_kind_name RESOURCE = ''RESOURCE''"
| "node_kind_name LEGISLATION = ''LEGISLATION''"
| "node_kind_name THEME = ''THEME''"
| "node_kind_name GOAL = ''GOAL''"
| "node_kind_name EVENT = ''EVENT''"
| "node_kind_name SAVED_VIEW = ''SAVED_VIEW''"
| "node_kind_name VISUALIZATION_VIEW = ''VISUALIZATION_VIEW''"

definition node_kinds :: "node_kind list" where
  "node_kinds = [ACTOR, INITIATIVE, CAPABILITY, RESOURCE, LEGISLATION, THEME, GOAL, EVENT, SAVED_VIEW,
     VISUALIZATION_VIEW]"

datatype node_type = KnownNode node_kind | OtherNode string

definition node_type_of :: "string \<Rightarrow> node_type" where
  "node_type_of s =
     (case find (\<lambda>k. node_kind_value k = s) node_kinds of Some k \<Rightarrow> KnownNode k | None \<Rightarrow> OtherNode s)"

text \<open>\<open>type_str\<close>, and \<open>str(node.type)\<close>, which of an enum member is its qualified name.\<close>

fun node_type_str :: "node_type \<Rightarrow> string" where
  "node_type_str (KnownNode k) = node_kind_value k"
| "node_type_str (OtherNode s) = s"

fun node_type_py_str :: "node_type \<Rightarrow> string" where
  "node_type_py_str (KnownNode k) = ''NodeType.'' @ node_kind_name k"
| "node_type_py_str (OtherNode s) = s"

datatype relationship_kind =
    BELONGS_TO | IMPLEMENTS | PRODUCES | GOVERNED_BY | RELATES_TO | PART_OF | AIMS_FOR

fun relationship_value :: "relationship_kind \<Rightarrow> string" where
  "relationship_value BELONGS_TO = ''BELONGS_TO''"
| "relationship_value IMPLEMENTS = ''IMPLEMENTS''"
| "relationship_value PRODUCES = ''PRODUCES''"
| "relationship_value GOVERNED_BY = ''GOVERNED_BY''"
| "relationship_value RELATES_TO = ''RELATES_TO''"
| "relationship_value PART_OF = ''PART_OF''"
| "relationship_value AIMS_FOR = ''AIMS_FOR''"

definition relationship_kinds :: "relationship_kind list" where
  "relationship_kinds = [BELONGS_TO, IMPLEMENTS, PRODUCES, GOVERNED_BY, RELATES_TO, PART_OF, AIMS_FOR]"

datatype edge_type = KnownEdge relationship_kind | OtherEdge string

definition edge_type_of :: "string \<Rightarrow> edge_type" where
  "edge_type_of s =
     (if s = [] then KnownEdge RELATES_TO
      else case find (\<lambda>k. relationship_value k = s) relationship_kinds of
        Some k \<Rightarrow> KnownEdge k
      | None \<Rightarrow> OtherEdge s)"

fun edge_type_str :: "edge_type \<Rightarrow> string" where
  "edge_type_str (KnownEdge k) = relationship_value k"
| "edge_type_str (OtherEdge s) = s"

section \<open>Nodes\<close>

record node =
  nd_id :: string
  nd_type :: node_type
  nd_name :: string
  nd_description :: string
  nd_summary :: string
  nd_tags :: "string list"
  nd_subtypes :: "string list"
  nd_aliases :: "string list"
  nd_metadata :: json_obj
  nd_archived :: bool
  nd_embedding :: "rat list option"
  nd_created_at :: datetime
  nd_updated_at :: datetime

definition LIST_FIELD_TOTAL_LIMIT :: nat where "LIST_FIELD_TOTAL_LIMIT = 2000"
definition LIST_FIELD_ITEM_LIMIT :: nat where "LIST_FIELD_ITEM_LIMIT = 200"

text \<open>\<open>_limit_list_text\<close>.\<close>

definition limit_list_text :: "string list \<Rightarrow> bool" where
  "limit_list_text v =
     (sum_list (map length v) \<le> LIST_FIELD_TOTAL_LIMIT \<and> list_all (\<lambda>i. length i \<le> LIST_FIELD_ITEM_LIMIT) v)"

definition node_to_dict :: "node \<Rightarrow> json_obj" where
  "node_to_dict n =
     [(''id'', JStr (nd_id n)), (''type'', JStr (node_type_str (nd_type n))), (''name'', JStr (nd_name n)),
      (''description'', JStr (nd_description n)), (''summary'', JStr (nd_summary n)),
      (''tags'', JArr (map JStr (nd_tags n))), (''subtypes'', JArr (map JStr (nd_subtypes n))),
      (''aliases'', JArr (map JStr (nd_aliases n))), (''metadata'', JObj (nd_metadata n)),
      (''archived'', JBool (nd_archived n)),
      (''embedding'', case nd_embedding n of None \<Rightarrow> JNull | Some e \<Rightarrow> JArr (map JFloat e)),
      (''created_at'', JStr (isoformat (nd_created_at n))), (''updated_at'', JStr (isoformat (nd_updated_at n)))]"

section \<open>Reading fields\<close>

text \<open>
  One function per declared field type; the first argument is the default of a missing field. A
  string, a list of strings, an object and a list of floats take what pydantic takes of JSON
  values; a boolean may also be written as a number or a word, a time only as a string.
\<close>

definition field_str :: "string \<Rightarrow> json option \<Rightarrow> string option" where
  "field_str d v = (case v of None \<Rightarrow> Some d | Some (JStr s) \<Rightarrow> Some s | Some _ \<Rightarrow> None)"

fun strings :: "json list \<Rightarrow> string list option" where
  "strings [] = Some []"
| "strings (JStr s # vs) = map_option ((#) s) (strings vs)"
| "strings (v # vs) = None"

definition field_strs :: "json option \<Rightarrow> string list option" where
  "field_strs v = (case v of None \<Rightarrow> Some [] | Some (JArr vs) \<Rightarrow> strings vs | Some _ \<Rightarrow> None)"

definition field_obj :: "json option \<Rightarrow> json_obj option" where
  "field_obj v = (case v of None \<Rightarrow> Some [] | Some (JObj d) \<Rightarrow> Some d | Some _ \<Rightarrow> None)"

definition field_bool :: "bool \<Rightarrow> json option \<Rightarrow> bool option" where
  "field_bool d v =
     (case v of
        None \<Rightarrow> Some d
      | Some (JBool b) \<Rightarrow> Some b
      | Some (JInt n) \<Rightarrow> if n = 0 then Some False else if n = 1 then Some True else None
      | Some (JFloat r) \<Rightarrow> if r = 0 then Some False else if r = 1 then Some True else None
      | Some (JStr s) \<Rightarrow>
          if lower s \<in> {''0'', ''off'', ''f'', ''false'', ''n'', ''no''} then Some False
          else if lower s \<in> {''1'', ''on'', ''t'', ''true'', ''y'', ''yes''} then Some True else None
      | Some _ \<Rightarrow> None)"

fun floats :: "json list \<Rightarrow> rat list option" where
  "floats [] = Some []"
| "floats (v # vs) = (case json_num v of Some r \<Rightarrow> map_option ((#) r) (floats vs) | None \<Rightarrow> None)"

definition field_embedding :: "json option \<Rightarrow> rat list option option" where
  "field_embedding v =
     (case v of
        None \<Rightarrow> Some None
      | Some JNull \<Rightarrow> Some None
      | Some (JArr vs) \<Rightarrow> map_option Some (floats vs)
      | Some _ \<Rightarrow> None)"

definition field_time :: "datetime \<Rightarrow> json option \<Rightarrow> datetime option" where
  "field_time d v = (case v of None \<Rightarrow> Some d | Some (JStr s) \<Rightarrow> parse_datetime s | Some _ \<Rightarrow> None)"

definition bounded :: "nat \<Rightarrow> nat \<Rightarrow> string option \<Rightarrow> string option" where
  "bounded lo hi s =
     (case s of Some t \<Rightarrow> if lo \<le> length t \<and> length t \<le> hi then Some t else None | None \<Rightarrow> None)"

definition limited :: "string list option \<Rightarrow> string list option" where
  "limited v = (case v of Some xs \<Rightarrow> if limit_list_text xs then Some xs else None | None \<Rightarrow> None)"

record fresh =
  fr_id :: string
  fr_now :: datetime

definition node_from_dict :: "fresh \<Rightarrow> json_obj \<Rightarrow> node option" where
  "node_from_dict fr d =
     Option.bind (field_str (fr_id fr) (map_of d ''id'')) (\<lambda>i.
     Option.bind (case map_of d ''type'' of Some (JStr t) \<Rightarrow> Some (node_type_of t) | _ \<Rightarrow> None) (\<lambda>ty.
     Option.bind (bounded 1 200 (field_str [] (map_of d ''name''))) (\<lambda>name.
     Option.bind (bounded 0 2000 (field_str [] (map_of d ''description''))) (\<lambda>description.
     Option.bind (bounded 0 300 (field_str [] (map_of d ''summary''))) (\<lambda>summary.
     Option.bind (limited (field_strs (map_of d ''tags''))) (\<lambda>tags.
     Option.bind (field_strs (map_of d ''subtypes'')) (\<lambda>subtypes.
     Option.bind (limited (field_strs (map_of d ''aliases''))) (\<lambda>aliases.
     Option.bind (field_obj (map_of d ''metadata'')) (\<lambda>metadata.
     Option.bind (field_bool False (map_of d ''archived'')) (\<lambda>archived.
     Option.bind (field_embedding (map_of d ''embedding'')) (\<lambda>embedding.
     Option.bind (field_time (fr_now fr) (map_of d ''created_at'')) (\<lambda>created.
     Option.bind (field_time (fr_now fr) (map_of d ''updated_at'')) (\<lambda>updated.
       Some \<lparr>nd_id = i, nd_type = ty, nd_name = name, nd_description = description, nd_summary = summary,
         nd_tags = tags, nd_subtypes = subtypes, nd_aliases = aliases, nd_metadata = metadata,
         nd_archived = archived, nd_embedding = embedding, nd_created_at = created,
         nd_updated_at = updated\<rparr>)))))))))))))"

text \<open>What a validated node satisfies.\<close>

definition type_ok :: "node_type \<Rightarrow> bool" where
  "type_ok t = (case t of KnownNode _ \<Rightarrow> True | OtherNode s \<Rightarrow> s \<notin> set (map node_kind_value node_kinds))"

definition node_ok :: "node \<Rightarrow> bool" where
  "node_ok n =
     (type_ok (nd_type n) \<and> 1 \<le> length (nd_name n) \<and> length (nd_name n) \<le> 200 \<and>
      length (nd_description n) \<le> 2000 \<and> length (nd_summary n) \<le> 300 \<and>
      limit_list_text (nd_tags n) \<and> limit_list_text (nd_aliases n) \<and>
      iso_range (nd_created_at n) \<and> iso_range (nd_updated_at n))"

section \<open>Edges\<close>

record edge =
  ed_id :: string
  ed_source :: string
  ed_target :: string
  ed_type :: edge_type
  ed_label :: string
  ed_metadata :: json_obj
  ed_archived :: bool
  ed_created_at :: datetime

definition edge_to_dict :: "edge \<Rightarrow> json_obj" where
  "edge_to_dict e =
     [(''id'', JStr (ed_id e)), (''source'', JStr (ed_source e)), (''target'', JStr (ed_target e)),
      (''type'', JStr (edge_type_str (ed_type e))), (''label'', JStr (ed_label e)),
      (''metadata'', JObj (ed_metadata e)), (''archived'', JBool (ed_archived e)),
      (''created_at'', JStr (isoformat (ed_created_at e)))]"

definition field_edge_type :: "json option \<Rightarrow> edge_type option" where
  "field_edge_type v =
     (case v of
        None \<Rightarrow> Some (KnownEdge RELATES_TO)
      | Some JNull \<Rightarrow> Some (KnownEdge RELATES_TO)
      | Some (JStr s) \<Rightarrow> Some (edge_type_of s)
      | Some _ \<Rightarrow> None)"

definition required_str :: "json option \<Rightarrow> string option" where
  "required_str v = (case v of Some (JStr s) \<Rightarrow> Some s | _ \<Rightarrow> None)"

definition edge_from_dict :: "fresh \<Rightarrow> json_obj \<Rightarrow> edge option" where
  "edge_from_dict fr d =
     Option.bind (field_str (fr_id fr) (map_of d ''id'')) (\<lambda>i.
     Option.bind (required_str (map_of d ''source'')) (\<lambda>source.
     Option.bind (required_str (map_of d ''target'')) (\<lambda>target.
     Option.bind (field_edge_type (map_of d ''type'')) (\<lambda>ty.
     Option.bind (field_str [] (map_of d ''label'')) (\<lambda>label.
     Option.bind (field_obj (map_of d ''metadata'')) (\<lambda>metadata.
     Option.bind (field_bool False (map_of d ''archived'')) (\<lambda>archived.
     Option.bind (field_time (fr_now fr) (map_of d ''created_at'')) (\<lambda>created.
       Some \<lparr>ed_id = i, ed_source = source, ed_target = target, ed_type = ty, ed_label = label,
         ed_metadata = metadata, ed_archived = archived, ed_created_at = created\<rparr>))))))))"

definition edge_type_ok :: "edge_type \<Rightarrow> bool" where
  "edge_type_ok t =
     (case t of KnownEdge _ \<Rightarrow> True
      | OtherEdge s \<Rightarrow> s \<noteq> [] \<and> s \<notin> set (map relationship_value relationship_kinds))"

definition edge_ok :: "edge \<Rightarrow> bool" where
  "edge_ok e = (edge_type_ok (ed_type e) \<and> iso_range (ed_created_at e))"

section \<open>Round trips\<close>

lemma find_None: "find P xs = None \<longleftrightarrow> (\<forall>x \<in> set xs. \<not> P x)"
  by (induction xs) auto

lemma node_type_of_str: "type_ok t \<Longrightarrow> node_type_of (node_type_str t) = t"
proof (cases t)
  case (KnownNode k)
  then show ?thesis by (cases k) (simp_all add: node_type_of_def node_kinds_def)
next
  case (OtherNode s)
  assume "type_ok t"
  with OtherNode have "find (\<lambda>k. node_kind_value k = s) node_kinds = None"
    by (auto simp: find_None type_ok_def)
  with OtherNode show ?thesis by (simp add: node_type_of_def)
qed

lemma type_ok_of: "type_ok (node_type_of s)"
proof (cases "find (\<lambda>k. node_kind_value k = s) node_kinds")
  case None
  then have "\<forall>k \<in> set node_kinds. node_kind_value k \<noteq> s" by (simp only: find_None)
  with None show ?thesis by (auto simp: node_type_of_def type_ok_def)
qed (simp add: node_type_of_def type_ok_def)

lemma edge_type_of_str: "edge_type_ok t \<Longrightarrow> edge_type_of (edge_type_str t) = t"
proof (cases t)
  case (KnownEdge k)
  then show ?thesis by (cases k) (simp_all add: edge_type_of_def relationship_kinds_def)
next
  case (OtherEdge s)
  assume "edge_type_ok t"
  with OtherEdge have "find (\<lambda>k. relationship_value k = s) relationship_kinds = None" "s \<noteq> []"
    by (auto simp: find_None edge_type_ok_def)
  with OtherEdge show ?thesis by (simp add: edge_type_of_def)
qed

lemma edge_type_ok_of: "edge_type_ok (edge_type_of s)"
proof (cases "find (\<lambda>k. relationship_value k = s) relationship_kinds")
  case None
  then have "\<forall>k \<in> set relationship_kinds. relationship_value k \<noteq> s" by (simp only: find_None)
  with None show ?thesis by (auto simp: edge_type_of_def edge_type_ok_def)
qed (simp add: edge_type_of_def edge_type_ok_def)

lemma strings_map [simp]: "strings (map JStr xs) = Some xs"
  by (induction xs) simp_all

lemma floats_map [simp]: "floats (map JFloat xs) = Some xs"
  by (induction xs) simp_all

lemmas field_defs = field_str_def field_strs_def field_obj_def field_bool_def field_embedding_def field_time_def
  bounded_def limited_def field_edge_type_def required_str_def

lemma node_roundtrip:
  assumes "node_ok n"
  shows "node_from_dict fr (node_to_dict n) = Some n"
  using assms
  by (simp add: node_from_dict_def node_to_dict_def field_defs node_ok_def node_type_of_str parse_isoformat
      split: option.split)

lemma edge_roundtrip:
  assumes "edge_ok e"
  shows "edge_from_dict fr (edge_to_dict e) = Some e"
  using assms
  by (simp add: edge_from_dict_def edge_to_dict_def field_defs edge_ok_def edge_type_of_str parse_isoformat)

end
