(* ===== verification/GraphStore.thy ===== *)
theory GraphStore
  imports GraphModels
begin

text \<open>
  The graph store (\<open>GraphStorage\<close> in \<open>backend/core/storage.py\<close>, with \<open>emit_event\<close> of
  \<open>backend/core/storage_events.py\<close> and the relationship rules of
  \<open>backend/config/config_loader.py\<close>).

  A call runs under the lock from start to end, so an operation is a function on the state. The
  networkx graph is its nodes and its edge triples; the \<open>data\<close> of a triple is the edge object of
  that id. Saves go to a one-worker executor: \<open>g_pending\<close> is its queue. \<open>g_events\<close> are the events
  handed to the history, the listeners and the dispatcher, in order. The embedding model is a
  parameter; \<open>None\<close> is the exception that is swallowed where it is not installed.
\<close>

section \<open>State\<close>

datatype event_type = NODE_CREATE | NODE_UPDATE | NODE_DELETE | EDGE_CREATE | EDGE_UPDATE | EDGE_DELETE
datatype entity_kind = NODE | EDGE

record event_context =
  ec_origin :: "string option"
  ec_session_id :: "string option"
  ec_correlation_id :: "string option"
  ec_attribution :: "json_obj option"

definition no_context :: event_context where
  "no_context = \<lparr>ec_origin = None, ec_session_id = None, ec_correlation_id = None, ec_attribution = None\<rparr>"

record graph_event =
  ge_type :: event_type
  ge_context :: event_context
  ge_kind :: entity_kind
  ge_id :: string
  ge_entity_type :: string
  ge_before :: "json_obj option"
  ge_after :: "json_obj option"
  ge_patch :: "json_obj option"

record graph =
  g_nodes :: "(string, node) dict"
  g_edges :: "(string, edge) dict"
  g_net_nodes :: "string list"
  g_net_edges :: "(string \<times> string \<times> string) list"
  g_text :: "(string, string) dict"
  g_vectors :: "(string, rat list) dict"
  g_metadata :: json_obj
  g_pending :: "json_obj list"
  g_disk :: "json_obj option"
  g_events :: "graph_event list"

record relation_rules =
  rr_source_types :: "string list"
  rr_target_types :: "string list"

record graph_config =
  gc_relationships :: "(string, relation_rules) dict"
  gc_node_labels :: "(string, (string, string) dict) dict"
  gc_default_name :: string
  gc_embed :: "node list \<Rightarrow> rat list list option"

text \<open>What a call reads from outside: the clock, and whose mutation it is.\<close>

record graph_env =
  gv_now :: "nat \<Rightarrow> datetime"
  gv_context :: "event_context option"

section \<open>Relationship rules\<close>

definition relationship_type_allows_node_types ::
    "graph_config \<Rightarrow> string \<Rightarrow> string \<Rightarrow> string \<Rightarrow> bool" where
  "relationship_type_allows_node_types cfg ty source_type target_type =
     (case map_of (gc_relationships cfg) ty of
        None \<Rightarrow> True
      | Some r \<Rightarrow>
          (let ss = rr_source_types r; ts = rr_target_types r
           in if ss = [] \<and> ts = [] then True
              else (ss = [] \<or> ''*'' \<in> set ss \<or> source_type \<in> set ss) \<and>
                   (ts = [] \<or> ''*'' \<in> set ts \<or> target_type \<in> set ts)))"

text \<open>\<open>_validate_edge_applicability\<close>: whether it returns rather than raises.\<close>

definition edge_applicable :: "graph_config \<Rightarrow> graph \<Rightarrow> edge \<Rightarrow> bool" where
  "edge_applicable cfg g e =
     (case (map_of (g_nodes g) (ed_source e), map_of (g_nodes g) (ed_target e)) of
        (Some s, Some t) \<Rightarrow>
          relationship_type_allows_node_types cfg (edge_type_str (ed_type e))
            (node_type_str (nd_type s)) (node_type_str (nd_type t))
      | _ \<Rightarrow> True)"

record violation =
  vi_edge_id :: string
  vi_type :: string
  vi_source :: string
  vi_target :: string
  vi_source_type :: "string option"
  vi_target_type :: "string option"
  vi_missing :: bool

definition audit_edge :: "graph_config \<Rightarrow> graph \<Rightarrow> edge \<Rightarrow> violation list" where
  "audit_edge cfg g e =
     (let s = map_of (g_nodes g) (ed_source e); t = map_of (g_nodes g) (ed_target e);
          v = \<lparr>vi_edge_id = ed_id e, vi_type = edge_type_str (ed_type e), vi_source = ed_source e,
               vi_target = ed_target e, vi_source_type = map_option (\<lambda>n. node_type_str (nd_type n)) s,
               vi_target_type = map_option (\<lambda>n. node_type_str (nd_type n)) t,
               vi_missing = (s = None \<or> t = None)\<rparr>
      in if s = None \<or> t = None then [v] else if edge_applicable cfg g e then [] else [v])"

definition audit_relationship_applicability :: "graph_config \<Rightarrow> graph \<Rightarrow> violation list" where
  "audit_relationship_applicability cfg g = concat (map (audit_edge cfg g) (dict_values (g_edges g)))"

section \<open>Searchable text\<close>

definition join :: "string list \<Rightarrow> string" where
  "join ws = (case ws of [] \<Rightarrow> [] | w # ws \<Rightarrow> w @ concat (map (\<lambda>v. '' '' @ v) ws))"

text \<open>\<open>_build_type_searchable_text\<close>.\<close>

definition type_searchable_text :: "graph_config \<Rightarrow> (string, string) dict" where
  "type_searchable_text cfg =
     map (\<lambda>(name, labels). (name, strip (lower (name @ '' '' @ join (dict_values labels))))) (gc_node_labels cfg)"

definition build_searchable_text :: "graph_config \<Rightarrow> node \<Rightarrow> string" where
  "build_searchable_text cfg n =
     (let type_text = (case map_of (type_searchable_text cfg) (node_type_py_str (nd_type n)) of
            Some t \<Rightarrow> t
          | None \<Rightarrow> lower (node_type_py_str (nd_type n)))
      in lower (join [nd_name n, nd_description n, nd_summary n, join (nd_tags n), join (nd_subtypes n),
           join (nd_aliases n), type_text]))"

section \<open>Events\<close>

text \<open>The members of \<open>after\<close> that are new or have another value.\<close>

definition patch_of :: "json_obj \<Rightarrow> json_obj \<Rightarrow> json_obj" where
  "patch_of before after =
     filter (\<lambda>(k, v). map_of before k = None \<or> \<not> json_eq (obj_get before k) v) after"

definition emit_event ::
    "graph_env \<Rightarrow> event_type \<Rightarrow> entity_kind \<Rightarrow> string \<Rightarrow> string \<Rightarrow> json_obj option \<Rightarrow> json_obj option \<Rightarrow>
     graph \<Rightarrow> graph" where
  "emit_event env ty kind i entity_type before after g =
     (let patch = (case (before, after) of
            (Some b, Some a) \<Rightarrow>
              if b \<noteq> [] \<and> a \<noteq> [] \<and> ty = NODE_UPDATE then Some (patch_of b a) else None
          | _ \<Rightarrow> None)
      in g\<lparr>g_events := g_events g @
        [\<lparr>ge_type = ty, ge_context = (case gv_context env of Some c \<Rightarrow> c | None \<Rightarrow> no_context),
          ge_kind = kind, ge_id = i, ge_entity_type = entity_type, ge_before = before, ge_after = after,
          ge_patch = patch\<rparr>]\<rparr>)"

definition node_event ::
    "graph_env \<Rightarrow> event_type \<Rightarrow> json_obj option \<Rightarrow> node \<Rightarrow> graph \<Rightarrow> graph" where
  "node_event env ty before n g =
     emit_event env ty NODE (nd_id n) (node_type_str (nd_type n)) before (Some (node_to_dict n)) g"

definition edge_event ::
    "graph_env \<Rightarrow> event_type \<Rightarrow> json_obj option \<Rightarrow> edge \<Rightarrow> graph \<Rightarrow> graph" where
  "edge_event env ty before e g =
     emit_event env ty EDGE (ed_id e) (edge_type_str (ed_type e)) before (Some (edge_to_dict e)) g"

section \<open>The networkx graph\<close>

definition net_add_node :: "string \<Rightarrow> graph \<Rightarrow> graph" where
  "net_add_node i g = g\<lparr>g_net_nodes := (if i \<in> set (g_net_nodes g) then g_net_nodes g else g_net_nodes g @ [i])\<rparr>"

definition net_add_edge :: "edge \<Rightarrow> graph \<Rightarrow> graph" where
  "net_add_edge e g =
     (let g = net_add_node (ed_target e) (net_add_node (ed_source e) g);
          t = (ed_source e, ed_target e, ed_id e)
      in g\<lparr>g_net_edges := (if t \<in> set (g_net_edges g) then g_net_edges g else g_net_edges g @ [t])\<rparr>)"

text \<open>\<open>remove_edge\<close> and \<open>remove_node\<close> raise on what is not there.\<close>

definition net_remove_edge :: "edge \<Rightarrow> graph \<Rightarrow> graph option" where
  "net_remove_edge e g =
     (let t = (ed_source e, ed_target e, ed_id e)
      in if t \<in> set (g_net_edges g) then Some (g\<lparr>g_net_edges := removeAll t (g_net_edges g)\<rparr>) else None)"

definition net_remove_node :: "string \<Rightarrow> graph \<Rightarrow> graph option" where
  "net_remove_node i g =
     (if i \<in> set (g_net_nodes g)
      then Some (g\<lparr>g_net_nodes := removeAll i (g_net_nodes g),
                   g_net_edges := filter (\<lambda>(s, t, k). s \<noteq> i \<and> t \<noteq> i) (g_net_edges g)\<rparr>)
      else None)"

section \<open>Saving and loading\<close>

definition graph_name_of :: "graph_config \<Rightarrow> json_obj \<Rightarrow> json" where
  "graph_name_of cfg md = get_default md ''graph_name'' (JStr (gc_default_name cfg))"

definition graph_to_dict :: "graph_config \<Rightarrow> datetime \<Rightarrow> graph \<Rightarrow> json_obj" where
  "graph_to_dict cfg now g =
     [(''nodes'', JArr (map (\<lambda>n. JObj (node_to_dict n)) (dict_values (g_nodes g)))),
      (''edges'', JArr (map (\<lambda>e. JObj (edge_to_dict e)) (dict_values (g_edges g)))),
      (''metadata'', JObj (dict_update (g_metadata g)
         [(''version'', get_default (g_metadata g) ''version'' (JStr ''1.0'')),
          (''graph_name'', graph_name_of cfg (g_metadata g)),
          (''last_updated'', JStr (isoformat now))]))]"

definition save :: "graph_config \<Rightarrow> datetime \<Rightarrow> graph \<Rightarrow> graph" where
  "save cfg now g = g\<lparr>g_pending := g_pending g @ [graph_to_dict cfg now g]\<rparr>"

text \<open>The worker writes the next document; \<open>flush\<close> waits until it has written all.\<close>

definition io_step :: "graph \<Rightarrow> graph" where
  "io_step g = (case g_pending g of [] \<Rightarrow> g | d # ds \<Rightarrow> g\<lparr>g_pending := ds, g_disk := Some d\<rparr>)"

definition flush :: "graph \<Rightarrow> graph" where
  "flush g = g\<lparr>g_pending := [], g_disk := (if g_pending g = [] then g_disk g else Some (last (g_pending g)))\<rparr>"

definition graph_init :: "graph_config \<Rightarrow> graph" where
  "graph_init cfg =
     \<lparr>g_nodes = [], g_edges = [], g_net_nodes = [], g_net_edges = [], g_text = [], g_vectors = [],
      g_metadata = [(''version'', JStr ''1.0''), (''graph_name'', JStr (gc_default_name cfg))],
      g_pending = [], g_disk = None, g_events = []\<rparr>"

definition put_node :: "graph_config \<Rightarrow> node \<Rightarrow> graph \<Rightarrow> graph" where
  "put_node cfg n g =
     (let g = net_add_node (nd_id n) (g\<lparr>g_nodes := dict_set (g_nodes g) (nd_id n) n\<rparr>)
      in g\<lparr>g_text := dict_set (g_text g) (nd_id n) (build_searchable_text cfg n)\<rparr>)"

definition put_edge :: "edge \<Rightarrow> graph \<Rightarrow> graph" where
  "put_edge e g = net_add_edge e (g\<lparr>g_edges := dict_set (g_edges g) (ed_id e) e\<rparr>)"

fun objs :: "json list \<Rightarrow> json_obj list option" where
  "objs [] = Some []"
| "objs (JObj d # vs) = map_option ((#) d) (objs vs)"
| "objs (v # vs) = None"

fun read_all :: "(nat \<Rightarrow> json_obj \<Rightarrow> 'a option) \<Rightarrow> nat \<Rightarrow> json_obj list \<Rightarrow> 'a list option" where
  "read_all f k [] = Some []"
| "read_all f k (d # ds) = Option.bind (f k d) (\<lambda>x. map_option ((#) x) (read_all f (Suc k) ds))"

definition list_of :: "json_obj \<Rightarrow> string \<Rightarrow> json_obj list option" where
  "list_of d k = (case get_default d k (JArr []) of JArr vs \<Rightarrow> objs vs | _ \<Rightarrow> None)"

definition load_metadata :: "graph_config \<Rightarrow> json_obj \<Rightarrow> json_obj" where
  "load_metadata cfg data =
     (case obj_get data ''metadata'' of
        JObj md \<Rightarrow>
          dict_update
            [(''version'', get_default md ''version'' (JStr ''1.0'')),
             (''graph_name'', let n = obj_get md ''graph_name'' in if truthy n then n else JStr (gc_default_name cfg))]
            (filter (\<lambda>(k, v). k \<noteq> ''version'' \<and> k \<noteq> ''graph_name'') md)
      | _ \<Rightarrow> [(''version'', JStr ''1.0''), (''graph_name'', JStr (gc_default_name cfg))])"

text \<open>
  The vector index stacks its embeddings into a matrix after every change; \<open>vstack\<close> raises where
  their lengths differ.
\<close>

definition stackable :: "(string, rat list) dict \<Rightarrow> bool" where
  "stackable d =
     (case dict_values d of [] \<Rightarrow> True | e # es \<Rightarrow> list_all (\<lambda>v. length v = length e) es)"

definition rebuild_index :: "node list \<Rightarrow> (string, rat list) dict option" where
  "rebuild_index ns =
     (let d = foldl (\<lambda>d n. case nd_embedding n of Some e \<Rightarrow> dict_set d (nd_id n) e | None \<Rightarrow> d) [] ns
      in if stackable d then Some d else None)"

text \<open>
  \<open>load\<close> of an existing document into a store; \<open>None\<close> is the exception. A document that repeats
  an id has no reading here: the two containers would refer to different objects.
\<close>

definition load_graph ::
    "graph_config \<Rightarrow> (nat \<Rightarrow> fresh) \<Rightarrow> json_obj \<Rightarrow> graph \<Rightarrow> graph option" where
  "load_graph cfg fr data g =
     Option.bind (Option.bind (list_of data ''nodes'') (read_all (\<lambda>k. node_from_dict (fr k)) 0)) (\<lambda>ns.
     Option.bind (Option.bind (list_of data ''edges'') (read_all (\<lambda>k. edge_from_dict (fr k)) (length ns))) (\<lambda>es.
       if distinct (map nd_id ns) \<and> distinct (map ed_id es)
       then (let g = g\<lparr>g_nodes := [], g_edges := [], g_net_nodes := [], g_net_edges := [], g_text := [],
                        g_metadata := load_metadata cfg data\<rparr>;
                 g = foldl (\<lambda>g n. put_node cfg n g) g ns;
                 g = foldl (\<lambda>g e. put_edge e g) g es
             in map_option (\<lambda>d. g\<lparr>g_vectors := d\<rparr>) (rebuild_index ns))
       else None))"

text \<open>A new store over a file: without one it writes an empty graph and waits for it.\<close>

definition open_graph :: "graph_config \<Rightarrow> (nat \<Rightarrow> fresh) \<Rightarrow> datetime \<Rightarrow> json_obj option \<Rightarrow> graph option" where
  "open_graph cfg fr now disk =
     (case disk of
        None \<Rightarrow> Some (flush (save cfg now (graph_init cfg)))
      | Some data \<Rightarrow> load_graph cfg fr data ((graph_init cfg)\<lparr>g_disk := disk\<rparr>))"

definition get_graph_name :: "graph_config \<Rightarrow> graph \<Rightarrow> string" where
  "get_graph_name cfg g =
     (case obj_get (g_metadata g) ''graph_name'' of
        JStr s \<Rightarrow> if strip s \<noteq> [] then strip s else gc_default_name cfg
      | _ \<Rightarrow> gc_default_name cfg)"

end
