(* ===== verification/GraphSearch.thy ===== *)
theory GraphSearch
  imports GraphStore
begin

text \<open>
  Search and traversal of the graph (\<open>backend/core/storage_search.py\<close>, with \<open>VectorStore.search\<close>
  of \<open>backend/core/vector_store.py\<close>). The functions read the containers of a store. What the
  embedding model, its cosine similarity and \<open>rapidfuzz\<close> compute are parameters; similarities are
  rationals. Python iterates over sets in no fixed order: the visited sets of the traversal are
  lists in the order of their insertion.
\<close>

section \<open>Scores\<close>

definition MATCH_MODES :: "string list" where
  "MATCH_MODES = [''substring'', ''any_term'']"

definition MAX_ANY_TERM_TERMS :: nat where "MAX_ANY_TERM_TERMS = 32"

definition name_score :: "string \<Rightarrow> string \<Rightarrow> nat" where
  "name_score name q =
     (if name = q then 500000 else if starts_with name q then 400000 else if contains q name then 300000 else 0)"

definition alias_score :: "string list \<Rightarrow> string \<Rightarrow> nat" where
  "alias_score as q =
     (if q \<in> set as then 250000
      else if list_ex (\<lambda>a. starts_with a q) as then 220000
      else if list_ex (contains q) as then 200000 else 0)"

definition type_score :: "graph_config \<Rightarrow> node_type \<Rightarrow> string \<Rightarrow> nat" where
  "type_score cfg ty q =
     (let key = node_type_py_str ty; name = lower key;
          txt = (case map_of (type_searchable_text cfg) key of Some t \<Rightarrow> t | None \<Rightarrow> name)
      in if name = q then 700 else if starts_with name q then 650 else if contains q txt then 600 else 0)"

definition tags_score :: "string list \<Rightarrow> string \<Rightarrow> nat" where
  "tags_score ts q = (if q \<in> set ts then 500 else if list_ex (contains q) ts then 450 else 0)"

definition score_node_match :: "graph_config \<Rightarrow> node \<Rightarrow> string \<Rightarrow> nat" where
  "score_node_match cfg n q =
     max (name_score (lower (nd_name n)) q) (alias_score (map lower (nd_aliases n)) q) +
     type_score cfg (nd_type n) q + tags_score (map lower (nd_tags n)) q +
     (if list_ex (\<lambda>s. contains q (lower s)) (nd_subtypes n) then 400 else 0) +
     (if contains q (lower (nd_description n)) \<or> contains q (lower (nd_summary n)) then 200 else 0)"

section \<open>Text search\<close>

text \<open>\<open>xs[:limit]\<close>.\<close>

definition take_to :: "int \<Rightarrow> 'a list \<Rightarrow> 'a list" where
  "take_to limit xs = (if 0 \<le> limit then take (nat limit) xs else take (length xs - nat (- limit)) xs)"

text \<open>\<open>node_types and node.type not in node_types\<close>, and the archived filter.\<close>

definition selected :: "string list \<Rightarrow> bool \<Rightarrow> node \<Rightarrow> bool" where
  "selected types include_archived n =
     ((types = [] \<or> node_type_str (nd_type n) \<in> set types) \<and> (include_archived \<or> \<not> nd_archived n))"

definition query_terms :: "string \<Rightarrow> string \<Rightarrow> string list" where
  "query_terms match_mode q =
     (if match_mode = ''any_term'' then take MAX_ANY_TERM_TERMS (rev (remdups (rev (split_words q)))) else [q])"

text \<open>A text that is not cached is built and put there.\<close>

definition cache_text :: "graph_config \<Rightarrow> (string, string) dict \<Rightarrow> node \<Rightarrow> (string, string) dict" where
  "cache_text cfg cache n =
     (if nd_id n \<in> set (dict_keys cache) then cache else dict_set cache (nd_id n) (build_searchable_text cfg n))"

definition matched_terms :: "(string, string) dict \<Rightarrow> string list \<Rightarrow> node \<Rightarrow> string list" where
  "matched_terms cache terms n =
     (case map_of cache (nd_id n) of Some t \<Rightarrow> filter (\<lambda>w. contains w t) terms | None \<Rightarrow> [])"

definition best_score :: "graph_config \<Rightarrow> node \<Rightarrow> string list \<Rightarrow> nat" where
  "best_score cfg n hits = fold (\<lambda>w m. max (score_node_match cfg n w) m) hits 0"

text \<open>Sorting by a pair of numbers, the greatest first; equal ones keep their order.\<close>

definition sort_ranked :: "graph_config \<Rightarrow> (node \<Rightarrow> string list) \<Rightarrow> node list \<Rightarrow> node list" where
  "sort_ranked cfg hits ns = sort_key (\<lambda>n. (- int (best_score cfg n (hits n)), - int (length (hits n)))) ns"

definition match_all :: "string \<Rightarrow> bool" where
  "match_all q = (q = [] \<or> q = ''*'')"

text \<open>\<open>None\<close> is the \<open>ValueError\<close> of an unknown mode.\<close>

definition search_nodes ::
    "graph_config \<Rightarrow> string \<Rightarrow> string list \<Rightarrow> int \<Rightarrow> bool \<Rightarrow> string \<Rightarrow> graph \<Rightarrow> node list option \<times> graph" where
  "search_nodes cfg query types limit include_archived match_mode g =
     (if match_mode \<notin> set MATCH_MODES then (None, g)
      else
        (let q = strip (lower query);
             ns = filter (selected types include_archived) (dict_values (g_nodes g))
         in if match_all q then (Some (take_to limit ns), g)
            else
              (let cache = foldl (cache_text cfg) (g_text g) ns;
                   hits = matched_terms cache (query_terms match_mode q);
                   found = filter (\<lambda>n. hits n \<noteq> []) ns
               in (Some (take_to limit (sort_ranked cfg hits found)), g\<lparr>g_text := cache\<rparr>))))"

section \<open>Traversal\<close>

definition blocked :: "bool \<Rightarrow> string \<Rightarrow> graph \<Rightarrow> string \<Rightarrow> bool" where
  "blocked include_archived anchor g v =
     (if include_archived \<or> v = anchor then False
      else case map_of (g_nodes g) v of Some n \<Rightarrow> nd_archived n | None \<Rightarrow> False)"

text \<open>Whether the edge of a triple is followed to its other end \<open>v\<close>.\<close>

definition followed :: "string list \<Rightarrow> bool \<Rightarrow> string \<Rightarrow> graph \<Rightarrow> string \<Rightarrow> string \<Rightarrow> bool" where
  "followed rels include_archived anchor g k v =
     (case map_of (g_edges g) k of
        None \<Rightarrow> False
      | Some e \<Rightarrow>
          (rels = [] \<or> edge_type_str (ed_type e) \<in> set rels) \<and> (include_archived \<or> \<not> ed_archived e) \<and>
          \<not> blocked include_archived anchor g v)"

text \<open>The edges out of and into a node that are followed, with their other ends.\<close>

definition neighbours :: "string list \<Rightarrow> bool \<Rightarrow> string \<Rightarrow> graph \<Rightarrow> string \<Rightarrow> (string \<times> string) list" where
  "neighbours rels include_archived anchor g c =
     filter (\<lambda>(k, v). followed rels include_archived anchor g k v)
       (map (\<lambda>(s, t, k). (k, t)) (filter (\<lambda>(s, t, k). s = c) (g_net_edges g)) @
        map (\<lambda>(s, t, k). (k, s)) (filter (\<lambda>(s, t, k). t = c) (g_net_edges g)))"

record traversal =
  tr_nodes :: "string list"
  tr_edges :: "string list"
  tr_next :: "string list"

definition visit :: "traversal \<Rightarrow> string \<times> string \<Rightarrow> traversal" where
  "visit tr kv =
     (case kv of (k, v) \<Rightarrow>
        (let tr = tr\<lparr>tr_edges := List.insert k (tr_edges tr)\<rparr>
         in if v \<in> set (tr_nodes tr) then tr
            else tr\<lparr>tr_nodes := tr_nodes tr @ [v], tr_next := tr_next tr @ [v]\<rparr>))"

fun hops :: "(string \<Rightarrow> (string \<times> string) list) \<Rightarrow> nat \<Rightarrow> traversal \<Rightarrow> traversal" where
  "hops adj 0 tr = tr"
| "hops adj (Suc d) tr =
     hops adj d (foldl (\<lambda>tr c. foldl visit tr (adj c)) (tr\<lparr>tr_next := []\<rparr>) (tr_next tr))"

definition get_related_nodes ::
    "string \<Rightarrow> string list \<Rightarrow> int \<Rightarrow> bool \<Rightarrow> graph \<Rightarrow> node list \<times> edge list" where
  "get_related_nodes i rels depth include_archived g =
     (if i \<notin> set (dict_keys (g_nodes g)) then ([], [])
      else
        (let tr = hops (neighbours rels include_archived i g) (nat depth)
               \<lparr>tr_nodes = [i], tr_edges = [], tr_next = [i]\<rparr>
         in (List.map_filter (map_of (g_nodes g)) (tr_nodes tr), List.map_filter (map_of (g_edges g)) (tr_edges tr))))"

section \<open>Similarity\<close>

text \<open>\<open>VectorStore.search\<close> of a text; the encoding is \<open>None\<close> where the model is not installed.\<close>

record vector_model =
  vm_encode :: "string \<Rightarrow> rat list option"
  vm_cosine :: "rat list \<Rightarrow> rat list \<Rightarrow> rat"

definition vector_search :: "vector_model \<Rightarrow> (string, rat list) dict \<Rightarrow> string \<Rightarrow> int \<Rightarrow> rat \<Rightarrow> (string \<times> rat) list" where
  "vector_search vm index query limit threshold =
     (if index = [] \<or> query = [] then []
      else case vm_encode vm query of
        None \<Rightarrow> []
      | Some e \<Rightarrow>
          take_to limit (sort_key (\<lambda>(i, s). - s)
            (filter (\<lambda>(i, s). threshold \<le> s) (map (\<lambda>(i, v). (i, vm_cosine vm e v)) index))))"

text \<open>The hits that are selected, until \<open>limit\<close> of them are taken: at least one.\<close>

fun take_selected :: "graph \<Rightarrow> (node \<Rightarrow> bool) \<Rightarrow> int \<Rightarrow> nat \<Rightarrow> (string \<times> rat) list \<Rightarrow> node list" where
  "take_selected g P limit taken [] = []"
| "take_selected g P limit taken ((i, s) # hits) =
     (case map_of (g_nodes g) i of
        None \<Rightarrow> take_selected g P limit taken hits
      | Some n \<Rightarrow>
          if \<not> P n then take_selected g P limit taken hits
          else if limit \<le> int (Suc taken) then [n]
          else n # take_selected g P limit (Suc taken) hits)"

definition semantic_search_nodes ::
    "vector_model \<Rightarrow> string \<Rightarrow> string list \<Rightarrow> int \<Rightarrow> rat \<Rightarrow> bool \<Rightarrow> graph \<Rightarrow> node list" where
  "semantic_search_nodes vm query types limit threshold include_archived g =
     (let q = strip query
      in if q = [] \<or> q = ''*'' then []
         else take_selected g (selected types include_archived) limit 0
           (vector_search vm (g_vectors g) q (max (limit * 4) limit) threshold))"

datatype match_reason = NameSimilarity int | SemanticSimilarity int

record similar_node =
  sn_node :: node
  sn_score :: rat
  sn_reason :: match_reason

text \<open>\<open>round(x, 2)\<close>, and \<open>int(x * 100)\<close> of what is not negative.\<close>

definition round2 :: "rat \<Rightarrow> rat" where
  "round2 x = of_int (round_half_even (x * 100)) / 100"

definition percent :: "rat \<Rightarrow> int" where
  "percent x = (if 0 \<le> x then \<lfloor>x * 100\<rfloor> else - \<lfloor>- (x * 100)\<rfloor>)"

definition name_similarity :: "(string \<Rightarrow> string \<Rightarrow> nat) \<Rightarrow> string \<Rightarrow> string \<Rightarrow> rat" where
  "name_similarity lev a b =
     (let m = max (length a) (length b) in if m = 0 then 1 else 1 - of_nat (lev a b) / of_nat m)"

definition by_name ::
    "(string \<Rightarrow> string \<Rightarrow> nat) \<Rightarrow> string \<Rightarrow> string option \<Rightarrow> rat \<Rightarrow> graph \<Rightarrow> similar_node list" where
  "by_name lev name ty threshold g =
     List.map_filter (\<lambda>n.
       let s = name_similarity lev (lower name) (lower (nd_name n))
       in if (case ty of Some t \<Rightarrow> t \<noteq> [] \<and> node_type_str (nd_type n) \<noteq> t | None \<Rightarrow> False) then None
          else if threshold \<le> s then Some \<lparr>sn_node = n, sn_score = round2 s, sn_reason = NameSimilarity (percent s)\<rparr>
          else None) (dict_values (g_nodes g))"

fun by_meaning ::
    "graph \<Rightarrow> string option \<Rightarrow> string list \<Rightarrow> (string \<times> rat) list \<Rightarrow> similar_node list" where
  "by_meaning g ty seen [] = []"
| "by_meaning g ty seen ((i, s) # hits) =
     (if i \<in> set seen then by_meaning g ty seen hits
      else case map_of (g_nodes g) i of
        None \<Rightarrow> by_meaning g ty seen hits
      | Some n \<Rightarrow>
          if (case ty of Some t \<Rightarrow> t \<noteq> [] \<and> node_type_str (nd_type n) \<noteq> t | None \<Rightarrow> False)
          then by_meaning g ty seen hits
          else \<lparr>sn_node = n, sn_score = round2 s, sn_reason = SemanticSimilarity (percent s)\<rparr> #
            by_meaning g ty (i # seen) hits)"

definition find_similar_nodes ::
    "(string \<Rightarrow> string \<Rightarrow> nat) \<Rightarrow> vector_model \<Rightarrow> string \<Rightarrow> string option \<Rightarrow> rat \<Rightarrow> int \<Rightarrow> graph \<Rightarrow> similar_node list" where
  "find_similar_nodes lev vm name ty threshold limit g =
     (let named = by_name lev name ty threshold g;
          meant = by_meaning g ty (map (\<lambda>s. nd_id (sn_node s)) named)
            (vector_search vm (g_vectors g) name limit (max (4 / 10) (threshold - 2 / 10)))
      in take_to limit (sort_key (\<lambda>s. - sn_score s) (named @ meant)))"

definition find_similar_nodes_batch ::
    "(string \<Rightarrow> string \<Rightarrow> nat) \<Rightarrow> vector_model \<Rightarrow> string list \<Rightarrow> string option \<Rightarrow> rat \<Rightarrow> int \<Rightarrow> graph \<Rightarrow>
     (string, similar_node list) dict" where
  "find_similar_nodes_batch lev vm names ty threshold limit g =
     foldl (\<lambda>d name. dict_set d name (find_similar_nodes lev vm name ty threshold limit g)) [] names"

end
