(* ===== verification/GraphOps.thy ===== *)
theory GraphOps
  imports GraphStore
begin

text \<open>
  The mutations and simple queries of \<open>GraphStorage\<close> (\<open>backend/core/storage.py\<close>).
\<close>

section \<open>Adding nodes and edges\<close>

datatype graph_error =
    NodeExists string
  | EdgeExists string
  | MissingEndpoint string
  | NotApplicable
  | StaleUpdate string
  | InvalidUpdate
  | PyTypeError
  | NetworkError
  | VectorError
  | TooManyNodes
  | NotConfirmed

text \<open>The dictionary from names to ids: of two nodes with one name the later wins.\<close>

definition name_to_id :: "graph \<Rightarrow> (string, string) dict" where
  "name_to_id g = foldl (\<lambda>d (i, n). dict_set d (nd_name n) i) [] (g_nodes g)"

definition known_node :: "graph \<Rightarrow> string \<Rightarrow> bool" where
  "known_node g i = (i \<in> set (dict_keys (g_nodes g)))"

definition resolve :: "graph \<Rightarrow> (string, string) dict \<Rightarrow> string \<Rightarrow> string option" where
  "resolve g names s = (if known_node g s then Some s else map_of names s)"

fun add_nodes_loop :: "graph_config \<Rightarrow> node list \<Rightarrow> graph \<Rightarrow> graph_error option \<times> graph" where
  "add_nodes_loop cfg [] g = (None, g)"
| "add_nodes_loop cfg (n # ns) g =
     (if known_node g (nd_id n) then (Some (NodeExists (nd_id n)), g)
      else add_nodes_loop cfg ns (put_node cfg n g))"

text \<open>
  \<open>update_nodes_embeddings\<close>: the embedding is stored on the node and in the index. What building
  the matrix raises after that is swallowed by the callers.
\<close>

definition set_embedding :: "graph \<Rightarrow> string \<times> rat list \<Rightarrow> graph" where
  "set_embedding g p =
     (case p of (i, e) \<Rightarrow>
        (case map_of (g_nodes g) i of
           None \<Rightarrow> g
         | Some n \<Rightarrow>
             g\<lparr>g_nodes := dict_set (g_nodes g) i (n\<lparr>nd_embedding := Some e\<rparr>),
               g_vectors := dict_set (g_vectors g) i e\<rparr>))"

definition embed_nodes :: "graph_config \<Rightarrow> node list \<Rightarrow> graph \<Rightarrow> graph" where
  "embed_nodes cfg ns g =
     (if ns = [] then g
      else case gc_embed cfg ns of
        None \<Rightarrow> g
      | Some es \<Rightarrow> foldl set_embedding g (zip (map nd_id ns) es))"

fun add_edges_loop ::
    "graph_config \<Rightarrow> (string, string) dict \<Rightarrow> edge list \<Rightarrow> graph \<Rightarrow> (graph_error + string list) \<times> graph" where
  "add_edges_loop cfg names [] g = (Inr [], g)"
| "add_edges_loop cfg names (e # es) g =
     (case (resolve g names (ed_source e), resolve g names (ed_target e)) of
        (None, _) \<Rightarrow> (Inl (MissingEndpoint (ed_source e)), g)
      | (Some _, None) \<Rightarrow> (Inl (MissingEndpoint (ed_target e)), g)
      | (Some s, Some t) \<Rightarrow>
          (let e = e\<lparr>ed_source := s, ed_target := t\<rparr>
           in if ed_id e \<in> set (dict_keys (g_edges g)) then (Inl (EdgeExists (ed_id e)), g)
              else if \<not> edge_applicable cfg g e then (Inl NotApplicable, g)
              else (case add_edges_loop cfg names es (put_edge e g) of
                 (Inl err, g) \<Rightarrow> (Inl err, g)
               | (Inr is, g) \<Rightarrow> (Inr (ed_id e # is), g))))"

definition emit_created_node :: "graph_env \<Rightarrow> graph \<Rightarrow> string \<Rightarrow> graph" where
  "emit_created_node env g i =
     (case map_of (g_nodes g) i of None \<Rightarrow> g | Some n \<Rightarrow> node_event env NODE_CREATE None n g)"

definition emit_created_edge :: "graph_env \<Rightarrow> graph \<Rightarrow> string \<Rightarrow> graph" where
  "emit_created_edge env g i =
     (case map_of (g_edges g) i of None \<Rightarrow> g | Some e \<Rightarrow> edge_event env EDGE_CREATE None e g)"

text \<open>
  The result: why it failed, or the ids it added. What the loops did before a failure stays.
\<close>

definition add_nodes ::
    "graph_config \<Rightarrow> graph_env \<Rightarrow> node list \<Rightarrow> edge list \<Rightarrow> graph \<Rightarrow>
     (graph_error + string list \<times> string list) \<times> graph" where
  "add_nodes cfg env ns es g =
     (case add_nodes_loop cfg ns g of
        (Some err, g) \<Rightarrow> (Inl err, g)
      | (None, g) \<Rightarrow>
          (let g = save cfg (gv_now env 0) (embed_nodes cfg ns g)
           in case add_edges_loop cfg (name_to_id g) es g of
                (Inl err, g) \<Rightarrow> (Inl err, g)
              | (Inr added, g) \<Rightarrow>
                  (let g = save cfg (gv_now env 1) g;
                       g = foldl (emit_created_node env) g (map nd_id ns);
                       g = foldl (emit_created_edge env) g added
                   in (Inr (map nd_id ns, added), g))))"

definition add_edge ::
    "graph_config \<Rightarrow> graph_env \<Rightarrow> edge \<Rightarrow> graph \<Rightarrow> (graph_error + string option) \<times> graph" where
  "add_edge cfg env e g =
     (case (resolve g (name_to_id g) (ed_source e), resolve g (name_to_id g) (ed_target e)) of
        (Some s, Some t) \<Rightarrow>
          (let e = e\<lparr>ed_source := s, ed_target := t\<rparr>
           in if ed_id e \<in> set (dict_keys (g_edges g)) then (Inr None, g)
              else if \<not> edge_applicable cfg g e then (Inl NotApplicable, g)
              else (Inr (Some (ed_id e)),
                    edge_event env EDGE_CREATE None e (save cfg (gv_now env 0) (put_edge e g))))
      | _ \<Rightarrow> (Inr None, g))"

section \<open>Updating nodes\<close>

definition allowed_fields :: "string list" where
  "allowed_fields = [''name'', ''description'', ''summary'', ''tags'', ''subtypes'', ''aliases'', ''metadata'']"

definition reserved_fields :: "string list" where
  "reserved_fields = [''id'', ''type'', ''embedding'', ''created_at'', ''updated_at'', ''archived'']"

text \<open>\<open>_apply_metadata_patch\<close>: a member whose value is \<open>None\<close> is removed.\<close>

definition apply_metadata_patch :: "json_obj \<Rightarrow> json_obj \<Rightarrow> json_obj" where
  "apply_metadata_patch base patch =
     foldl (\<lambda>d (k, v). if v = JNull then dict_del d k else dict_set d k v) base patch"

text \<open>\<open>dict(v)\<close> of a list: its elements are read as pairs. A key that is not a string is \<open>bad\<close>.\<close>

definition pair_of :: "json \<Rightarrow> graph_error + json \<times> json" where
  "pair_of v =
     (case v of
        JArr [k, x] \<Rightarrow> Inr (k, x)
      | JStr [a, b] \<Rightarrow> Inr (JStr [a], JStr [b])
      | JObj [(a, _), (b, _)] \<Rightarrow> Inr (JStr a, JStr b)
      | JArr _ \<Rightarrow> Inl InvalidUpdate
      | JStr _ \<Rightarrow> Inl InvalidUpdate
      | JObj _ \<Rightarrow> Inl InvalidUpdate
      | _ \<Rightarrow> Inl PyTypeError)"

fun dict_of_pairs :: "json list \<Rightarrow> json_obj \<Rightarrow> bool \<Rightarrow> graph_error + json_obj" where
  "dict_of_pairs [] d bad = (if bad then Inl InvalidUpdate else Inr d)"
| "dict_of_pairs (v # vs) d bad =
     (case pair_of v of
        Inl err \<Rightarrow> Inl err
      | Inr (k, x) \<Rightarrow>
          (case k of
             JStr s \<Rightarrow> dict_of_pairs vs (dict_set d s x) bad
           | _ \<Rightarrow> if hashable k then dict_of_pairs vs d True else Inl PyTypeError))"

text \<open>\<open>dict(v or {})\<close>.\<close>

definition py_dict_or :: "json \<Rightarrow> graph_error + json_obj" where
  "py_dict_or v =
     (if \<not> truthy v then Inr []
      else case v of
        JObj d \<Rightarrow> Inr d
      | JArr vs \<Rightarrow> dict_of_pairs vs [] False
      | JStr _ \<Rightarrow> Inl InvalidUpdate
      | _ \<Rightarrow> Inl PyTypeError)"

definition candidate_metadata :: "bool \<Rightarrow> json_obj \<Rightarrow> json_obj \<Rightarrow> graph_error + json" where
  "candidate_metadata metadata_merge metadata updates =
     (let extra = filter (\<lambda>(k, v). k \<notin> set allowed_fields \<and> k \<notin> set reserved_fields) updates
      in if metadata_merge
         then (case (case map_of updates ''metadata'' of
                       None \<Rightarrow> Inr metadata
                     | Some v \<Rightarrow>
                         if \<not> truthy v then Inr metadata
                         else (case v of JObj m \<Rightarrow> Inr (apply_metadata_patch metadata m) | _ \<Rightarrow> Inl InvalidUpdate)) of
                 Inl err \<Rightarrow> Inl err
               | Inr merged \<Rightarrow>
                   Inr (JObj (if extra = [] then merged else apply_metadata_patch merged extra)))
         else (let m = get_default updates ''metadata'' (JObj metadata)
               in if extra = [] then Inr m
                  else (case py_dict_or m of
                     Inl err \<Rightarrow> Inl err
                   | Inr d \<Rightarrow> Inr (JObj (dict_update d extra)))))"

definition candidate :: "bool \<Rightarrow> node \<Rightarrow> json_obj \<Rightarrow> graph_error + json_obj" where
  "candidate metadata_merge n updates =
     (let d = dict_update (node_to_dict n)
            (filter (\<lambda>(k, v). k \<in> set allowed_fields \<and> k \<noteq> ''metadata'') updates)
      in case candidate_metadata metadata_merge (nd_metadata n) updates of
           Inl err \<Rightarrow> Inl err
         | Inr m \<Rightarrow> Inr (dict_set d ''metadata'' m))"

text \<open>The validated values of the allowed fields, and the time of the update.\<close>

definition apply_validated :: "node \<Rightarrow> node \<Rightarrow> datetime \<Rightarrow> node" where
  "apply_validated n v now =
     n\<lparr>nd_name := nd_name v, nd_description := nd_description v, nd_summary := nd_summary v,
       nd_tags := nd_tags v, nd_subtypes := nd_subtypes v, nd_aliases := nd_aliases v,
       nd_metadata := nd_metadata v, nd_updated_at := now\<rparr>"

definition text_changed :: "json_obj \<Rightarrow> bool" where
  "text_changed updates =
     list_ex (\<lambda>k. k \<in> set (dict_keys updates)) [''name'', ''description'', ''summary'', ''tags'', ''aliases'']"

text \<open>\<open>expected_updated_at\<close>: nothing, a time, or its text.\<close>

datatype expected = NoGuard | ExpectTime datetime | ExpectText string

definition guard_error :: "node \<Rightarrow> expected \<Rightarrow> graph_error option" where
  "guard_error n ex =
     (case ex of
        NoGuard \<Rightarrow> None
      | ExpectTime t \<Rightarrow> if nd_updated_at n \<noteq> t then Some (StaleUpdate (nd_id n)) else None
      | ExpectText s \<Rightarrow>
          (case parse_datetime s of
             None \<Rightarrow> Some InvalidUpdate
           | Some t \<Rightarrow> if nd_updated_at n \<noteq> t then Some (StaleUpdate (nd_id n)) else None))"

text \<open>A changed node object.\<close>

definition replace_node :: "graph_config \<Rightarrow> node \<Rightarrow> graph \<Rightarrow> graph" where
  "replace_node cfg n g =
     g\<lparr>g_nodes := dict_set (g_nodes g) (nd_id n) n,
       g_text := dict_set (g_text g) (nd_id n) (build_searchable_text cfg n)\<rparr>"

definition update_node ::
    "graph_config \<Rightarrow> graph_env \<Rightarrow> string \<Rightarrow> json_obj \<Rightarrow> bool \<Rightarrow> expected \<Rightarrow> graph \<Rightarrow>
     (graph_error + node option) \<times> graph" where
  "update_node cfg env i updates metadata_merge ex g =
     (case map_of (g_nodes g) i of
        None \<Rightarrow> (Inr None, g)
      | Some n \<Rightarrow>
          (case guard_error n ex of
             Some err \<Rightarrow> (Inl err, g)
           | None \<Rightarrow>
               (case candidate metadata_merge n updates of
                  Inl err \<Rightarrow> (Inl err, g)
                | Inr d \<Rightarrow>
                    (case node_from_dict \<lparr>fr_id = [], fr_now = 0\<rparr> d of
                       None \<Rightarrow> (Inl InvalidUpdate, g)
                     | Some v \<Rightarrow>
                         (let n' = apply_validated n v (gv_now env 0);
                              g = replace_node cfg n' g;
                              g = (if text_changed updates then embed_nodes cfg [n'] g else g);
                              n' = (case map_of (g_nodes g) i of Some m \<Rightarrow> m | None \<Rightarrow> n');
                              g = save cfg (gv_now env 1) g
                          in (Inr (Some n'), node_event env NODE_UPDATE (Some (node_to_dict n)) n' g))))))"

section \<open>Archiving\<close>

fun set_nodes_archived_loop ::
    "graph_env \<Rightarrow> nat \<Rightarrow> string list \<Rightarrow> bool \<Rightarrow> graph \<Rightarrow> string list \<times> bool \<times> graph" where
  "set_nodes_archived_loop env k [] archived g = ([], False, g)"
| "set_nodes_archived_loop env k (i # is) archived g =
     (case map_of (g_nodes g) i of
        None \<Rightarrow> set_nodes_archived_loop env k is archived g
      | Some n \<Rightarrow>
          if nd_archived n = archived
          then (case set_nodes_archived_loop env k is archived g of (found, ch, g) \<Rightarrow> (i # found, ch, g))
          else (let n' = n\<lparr>nd_archived := archived, nd_updated_at := gv_now env k\<rparr>;
                    g = node_event env NODE_UPDATE (Some (node_to_dict n)) n'
                          (g\<lparr>g_nodes := dict_set (g_nodes g) i n'\<rparr>)
                in case set_nodes_archived_loop env (k + 1) is archived g of
                     (found, ch, g) \<Rightarrow> (i # found, True, g)))"

text \<open>The found nodes are returned by their ids.\<close>

definition set_nodes_archived ::
    "graph_config \<Rightarrow> graph_env \<Rightarrow> string list \<Rightarrow> bool \<Rightarrow> graph \<Rightarrow> string list \<times> graph" where
  "set_nodes_archived cfg env is archived g =
     (case set_nodes_archived_loop env 1 is archived g of
        (found, changed, g) \<Rightarrow> (found, if changed then save cfg (gv_now env 0) g else g))"

fun set_edges_archived_loop ::
    "graph_env \<Rightarrow> string list \<Rightarrow> bool \<Rightarrow> graph \<Rightarrow> string list \<times> bool \<times> graph" where
  "set_edges_archived_loop env [] archived g = ([], False, g)"
| "set_edges_archived_loop env (i # is) archived g =
     (case map_of (g_edges g) i of
        None \<Rightarrow> set_edges_archived_loop env is archived g
      | Some e \<Rightarrow>
          if ed_archived e = archived
          then (case set_edges_archived_loop env is archived g of (found, ch, g) \<Rightarrow> (i # found, ch, g))
          else (let e' = e\<lparr>ed_archived := archived\<rparr>;
                    g = edge_event env EDGE_UPDATE (Some (edge_to_dict e)) e'
                          (g\<lparr>g_edges := dict_set (g_edges g) i e'\<rparr>)
                in case set_edges_archived_loop env is archived g of (found, ch, g) \<Rightarrow> (i # found, True, g)))"

definition set_edges_archived ::
    "graph_config \<Rightarrow> graph_env \<Rightarrow> string list \<Rightarrow> bool \<Rightarrow> graph \<Rightarrow> string list \<times> graph" where
  "set_edges_archived cfg env is archived g =
     (case set_edges_archived_loop env is archived g of
        (found, changed, g) \<Rightarrow> (found, if changed then save cfg (gv_now env 0) g else g))"

section \<open>Deleting\<close>

definition drop_edge :: "string \<Rightarrow> graph \<Rightarrow> graph" where
  "drop_edge i g = g\<lparr>g_edges := dict_del (g_edges g) i\<rparr>"

text \<open>The loops tell whether they came to their end; networkx raises where something is missing.\<close>

fun remove_edges :: "string list \<Rightarrow> graph \<Rightarrow> bool \<times> graph" where
  "remove_edges [] g = (True, g)"
| "remove_edges (i # is) g =
     (case map_of (g_edges g) i of
        None \<Rightarrow> (False, g)
      | Some e \<Rightarrow>
          (case net_remove_edge e g of
             None \<Rightarrow> (False, g)
           | Some g \<Rightarrow> remove_edges is (drop_edge i g)))"

definition incident :: "string \<Rightarrow> edge \<Rightarrow> bool" where
  "incident i e = (ed_source e = i \<or> ed_target e = i)"

definition drop_node :: "string \<Rightarrow> graph \<Rightarrow> graph" where
  "drop_node i g = g\<lparr>g_nodes := dict_del (g_nodes g) i, g_text := dict_del (g_text g) i\<rparr>"

text \<open>The deleted nodes and affected edges come with their states before.\<close>

fun delete_nodes_loop ::
    "string list \<Rightarrow> graph \<Rightarrow> (string \<times> node) list \<times> (string \<times> edge) list \<times> bool \<times> graph" where
  "delete_nodes_loop [] g = ([], [], True, g)"
| "delete_nodes_loop (i # is) g =
     (case map_of (g_nodes g) i of
        None \<Rightarrow> delete_nodes_loop is g
      | Some n \<Rightarrow>
          (let es = filter (\<lambda>(k, e). incident i e) (g_edges g)
           in case remove_edges (map fst es) g of
                (False, g) \<Rightarrow> ([], [], False, g)
              | (True, g) \<Rightarrow>
                  (case net_remove_node i g of
                     None \<Rightarrow> ([], [], False, g)
                   | Some g \<Rightarrow>
                       (case delete_nodes_loop is (drop_node i g) of
                          (ns, es', ok, g) \<Rightarrow> ((i, n) # ns, es @ es', ok, g)))))"

definition emit_deleted_edge :: "graph_env \<Rightarrow> graph \<Rightarrow> string \<times> edge \<Rightarrow> graph" where
  "emit_deleted_edge env g p =
     (case p of (i, e) \<Rightarrow>
        emit_event env EDGE_DELETE EDGE i (edge_type_str (ed_type e)) (Some (edge_to_dict e)) None g)"

definition emit_deleted_node :: "graph_env \<Rightarrow> graph \<Rightarrow> string \<times> node \<Rightarrow> graph" where
  "emit_deleted_node env g p =
     (case p of (i, n) \<Rightarrow>
        emit_event env NODE_DELETE NODE i (node_type_str (nd_type n)) (Some (node_to_dict n)) None g)"

definition delete_nodes ::
    "graph_config \<Rightarrow> graph_env \<Rightarrow> string list \<Rightarrow> bool \<Rightarrow> graph \<Rightarrow>
     (graph_error + string list \<times> string list) \<times> graph" where
  "delete_nodes cfg env is confirmed g =
     (if 10 < length is then (Inl TooManyNodes, g)
      else if \<not> confirmed then (Inl NotConfirmed, g)
      else case delete_nodes_loop is g of
        (ns, es, False, g) \<Rightarrow> (Inl NetworkError, g)
      | (ns, es, True, g) \<Rightarrow>
          (let changed = list_ex (\<lambda>(i, n). i \<in> set (dict_keys (g_vectors g))) ns;
               g = g\<lparr>g_vectors := foldl dict_del (g_vectors g) (map fst ns)\<rparr>
           in if changed \<and> \<not> stackable (g_vectors g) then (Inl VectorError, g)
              else (let g = save cfg (gv_now env 0) g;
                        g = foldl (emit_deleted_edge env) g es;
                        g = foldl (emit_deleted_node env) g ns
                    in (Inr (map fst ns, map fst es), g))))"

text \<open>\<open>delete_edge\<close> and \<open>delete_edges\<close> swallow what networkx raises.\<close>

definition take_edge :: "string \<Rightarrow> edge \<Rightarrow> graph \<Rightarrow> graph" where
  "take_edge i e g = drop_edge i (case net_remove_edge e g of Some g \<Rightarrow> g | None \<Rightarrow> g)"

definition delete_edge :: "graph_config \<Rightarrow> graph_env \<Rightarrow> string \<Rightarrow> graph \<Rightarrow> bool \<times> graph" where
  "delete_edge cfg env i g =
     (case map_of (g_edges g) i of
        None \<Rightarrow> (False, g)
      | Some e \<Rightarrow> (True, emit_deleted_edge env (save cfg (gv_now env 0) (take_edge i e g)) (i, e)))"

fun delete_edges_loop :: "string list \<Rightarrow> graph \<Rightarrow> (string \<times> edge) list \<times> graph" where
  "delete_edges_loop [] g = ([], g)"
| "delete_edges_loop (i # is) g =
     (case map_of (g_edges g) i of
        None \<Rightarrow> delete_edges_loop is g
      | Some e \<Rightarrow> (case delete_edges_loop is (take_edge i e g) of (es, g) \<Rightarrow> ((i, e) # es, g)))"

definition delete_edges :: "graph_config \<Rightarrow> graph_env \<Rightarrow> string list \<Rightarrow> graph \<Rightarrow> string list \<times> graph" where
  "delete_edges cfg env is g =
     (case delete_edges_loop is g of
        (es, g) \<Rightarrow> (map fst es, foldl (emit_deleted_edge env) (save cfg (gv_now env 0) g) es))"

section \<open>Updating edges\<close>

text \<open>The fields of a call that may change, \<open>type\<close> with its default.\<close>

definition edge_updates :: "json_obj \<Rightarrow> json_obj" where
  "edge_updates updates =
     map (\<lambda>(k, v). (k, if k = ''type'' \<and> (v = JNull \<or> v = JStr []) then JStr ''RELATES_TO'' else v))
       (filter (\<lambda>(k, v). k \<in> {''type'', ''label'', ''metadata''}) updates)"

definition update_edge ::
    "graph_config \<Rightarrow> graph_env \<Rightarrow> string \<Rightarrow> json_obj \<Rightarrow> graph \<Rightarrow> (graph_error + edge option) \<times> graph" where
  "update_edge cfg env i updates g =
     (case map_of (g_edges g) i of
        None \<Rightarrow> (Inr None, g)
      | Some e \<Rightarrow>
          (case edge_from_dict \<lparr>fr_id = [], fr_now = 0\<rparr> (dict_update (edge_to_dict e) (edge_updates updates)) of
             None \<Rightarrow> (Inl InvalidUpdate, g)
           | Some v \<Rightarrow>
               if \<not> edge_applicable cfg g v then (Inl NotApplicable, g)
               else (let e' = e\<lparr>ed_type := ed_type v, ed_label := ed_label v, ed_metadata := ed_metadata v\<rparr>;
                         g = save cfg (gv_now env 0) (g\<lparr>g_edges := dict_set (g_edges g) i e'\<rparr>)
                     in (Inr (Some e'), edge_event env EDGE_UPDATE (Some (edge_to_dict e)) e' g))))"

section \<open>Queries\<close>

definition count_by :: "string list \<Rightarrow> (string, nat) dict" where
  "count_by ts = foldl (\<lambda>d t. dict_set d t ((case map_of d t of Some n \<Rightarrow> n | None \<Rightarrow> 0) + 1)) [] ts"

record graph_stats =
  gs_total_nodes :: nat
  gs_total_edges :: nat
  gs_nodes_by_type :: "(string, nat) dict"
  gs_edges_by_type :: "(string, nat) dict"

definition get_stats :: "graph \<Rightarrow> graph_stats" where
  "get_stats g =
     \<lparr>gs_total_nodes = length (g_nodes g), gs_total_edges = length (g_edges g),
      gs_nodes_by_type = count_by (map (\<lambda>n. node_type_str (nd_type n)) (dict_values (g_nodes g))),
      gs_edges_by_type = count_by (map (\<lambda>e. edge_type_str (ed_type e)) (dict_values (g_edges g)))\<rparr>"

definition get_subtypes_by_node_type :: "string option \<Rightarrow> graph \<Rightarrow> (string, string list) dict" where
  "get_subtypes_by_node_type node_type g =
     map (\<lambda>(t, ss). (t, sort (remdups ss)))
       (foldl (\<lambda>d n.
          let t = node_type_str (nd_type n)
          in if (case node_type of Some w \<Rightarrow> w \<noteq> [] \<and> t \<noteq> w | None \<Rightarrow> False) \<or> nd_subtypes n = [] then d
             else dict_set d t ((case map_of d t of Some ss \<Rightarrow> ss | None \<Rightarrow> []) @ nd_subtypes n))
        [] (dict_values (g_nodes g)))"

definition get_edges_between_nodes :: "string list \<Rightarrow> graph \<Rightarrow> edge list" where
  "get_edges_between_nodes is g =
     filter (\<lambda>e. ed_source e \<in> set is \<and> ed_target e \<in> set is) (dict_values (g_edges g))"

definition get_edges_for_node :: "string \<Rightarrow> graph \<Rightarrow> edge list" where
  "get_edges_for_node i g = filter (incident i) (dict_values (g_edges g))"

text \<open>
  \<open>get_incident_edges\<close>: outgoing, then incoming edges of each node. The order in which networkx
  lists them is not fixed; here it is the order of insertion.
\<close>

definition net_edge_ids :: "(string \<times> string \<times> string \<Rightarrow> bool) \<Rightarrow> graph \<Rightarrow> string list" where
  "net_edge_ids P g = map (\<lambda>(s, t, k). k) (filter P (g_net_edges g))"

definition get_incident_edges :: "string list \<Rightarrow> graph \<Rightarrow> edge list" where
  "get_incident_edges is g =
     (let ids = concat (map (\<lambda>i.
            if known_node g i \<and> i \<in> set (g_net_nodes g)
            then net_edge_ids (\<lambda>(s, t, k). s = i) g @ net_edge_ids (\<lambda>(s, t, k). t = i) g else []) is)
      in List.map_filter (map_of (g_edges g)) (rev (remdups (rev ids))))"

end
