(* ===== verification/GraphInv.thy ===== *)
theory GraphInv
  imports GraphOps
begin

text \<open>
  The invariant of the graph store and its preservation by every operation: the dictionaries, the
  networkx graph and the text cache agree, every edge joins two nodes of the graph under the
  relationship rules, and every node and edge is one the models accept.
\<close>

named_theorems graph_defs

declare net_add_node_def [graph_defs] net_add_edge_def [graph_defs] put_edge_def [graph_defs]
  save_def [graph_defs] emit_event_def [graph_defs] node_event_def [graph_defs] edge_event_def [graph_defs]

section \<open>The invariant\<close>

definition nodes_inv :: "graph \<Rightarrow> bool" where
  "nodes_inv g \<longleftrightarrow> distinct (dict_keys (g_nodes g)) \<and>
     (\<forall>i n. map_of (g_nodes g) i = Some n \<longrightarrow> nd_id n = i \<and> node_ok n)"

definition edges_inv :: "graph_config \<Rightarrow> graph \<Rightarrow> bool" where
  "edges_inv cfg g \<longleftrightarrow> distinct (dict_keys (g_edges g)) \<and>
     (\<forall>i e. map_of (g_edges g) i = Some e \<longrightarrow>
        ed_id e = i \<and> edge_ok e \<and> known_node g (ed_source e) \<and> known_node g (ed_target e) \<and>
        edge_applicable cfg g e)"

definition net_inv :: "graph \<Rightarrow> bool" where
  "net_inv g \<longleftrightarrow> distinct (g_net_nodes g) \<and> set (g_net_nodes g) = set (dict_keys (g_nodes g)) \<and>
     distinct (g_net_edges g) \<and>
     (\<forall>s t k. (s, t, k) \<in> set (g_net_edges g) \<longleftrightarrow>
        (\<exists>e. map_of (g_edges g) k = Some e \<and> ed_source e = s \<and> ed_target e = t))"

definition text_inv :: "graph_config \<Rightarrow> graph \<Rightarrow> bool" where
  "text_inv cfg g \<longleftrightarrow> (\<forall>i. map_of (g_text g) i = map_option (build_searchable_text cfg) (map_of (g_nodes g) i))"

definition graph_inv :: "graph_config \<Rightarrow> graph \<Rightarrow> bool" where
  "graph_inv cfg g \<longleftrightarrow> nodes_inv g \<and> edges_inv cfg g \<and> net_inv g \<and> text_inv cfg g"

lemmas inv_defs = graph_inv_def nodes_inv_def edges_inv_def net_inv_def text_inv_def

text \<open>What the invariant reads.\<close>

definition same_content :: "graph \<Rightarrow> graph \<Rightarrow> bool" where
  "same_content g g' \<longleftrightarrow> g_nodes g' = g_nodes g \<and> g_edges g' = g_edges g \<and> g_net_nodes g' = g_net_nodes g \<and>
     g_net_edges g' = g_net_edges g \<and> g_text g' = g_text g"

lemma same_content_refl [simp]: "same_content g g"
  by (simp add: same_content_def)

lemma same_content_trans: "same_content g g1 \<Longrightarrow> same_content g1 g2 \<Longrightarrow> same_content g g2"
  by (simp add: same_content_def)

lemma same_content_steps [simp]:
  "same_content g (save cfg now g)" "same_content g (emit_event env ty kind i t b a g)"
  "same_content g (node_event env ty b n g)" "same_content g (edge_event env ty b e g)"
  "same_content g (emit_created_node env g i)" "same_content g (emit_created_edge env g i)"
  "same_content g (emit_deleted_node env g p)" "same_content g (emit_deleted_edge env g q)"
  "same_content g (g\<lparr>g_vectors := vs\<rparr>)" "same_content g (flush g)" "same_content g (io_step g)"
  by (auto simp: same_content_def graph_defs Let_def emit_created_node_def emit_created_edge_def
      emit_deleted_node_def emit_deleted_edge_def flush_def io_step_def split: option.split list.split prod.split)

lemma same_content_foldl: "(\<And>g x. same_content g (f g x)) \<Longrightarrow> same_content g (foldl f g xs)"
  by (induction xs arbitrary: g) (auto intro: same_content_trans)

lemma applicable_cong: "g_nodes g' = g_nodes g \<Longrightarrow> edge_applicable cfg g' e = edge_applicable cfg g e"
  by (simp add: edge_applicable_def)

lemma graph_inv_cong: "same_content g g' \<Longrightarrow> graph_inv cfg g' = graph_inv cfg g"
  by (simp add: same_content_def inv_defs known_node_def edge_applicable_def)

lemma graph_inv_init: "graph_inv cfg (graph_init cfg)"
  by (simp add: inv_defs graph_init_def)

section \<open>Nodes\<close>

lemma known_map: "known_node g i \<longleftrightarrow> map_of (g_nodes g) i \<noteq> None"
  by (simp add: known_node_def map_of_eq_None_iff image_iff)

lemma graph_inv_put_node:
  assumes inv: "graph_inv cfg g" and n: "node_ok n" and new: "\<not> known_node g (nd_id n)"
  shows "graph_inv cfg (put_node cfg n g)"
proof -
  let ?g = "put_node cfg n g"
  have nodes: "g_nodes ?g = dict_set (g_nodes g) (nd_id n) n" and edges: "g_edges ?g = g_edges g"
    and net: "g_net_edges ?g = g_net_edges g"
    and net_nodes: "g_net_nodes ?g = (if nd_id n \<in> set (g_net_nodes g) then g_net_nodes g else g_net_nodes g @ [nd_id n])"
    and cache: "g_text ?g = dict_set (g_text g) (nd_id n) (build_searchable_text cfg n)"
    by (simp_all add: put_node_def net_add_node_def Let_def)
  have no: "map_of (g_nodes g) (nd_id n) = None" using new by (simp add: known_map)
  have fresh: "nd_id n \<notin> set (g_net_nodes g)" using inv new by (simp add: inv_defs known_node_def)
  have "nodes_inv ?g" using inv n no by (auto simp: inv_defs nodes)
  moreover have "edges_inv cfg ?g"
    unfolding edges_inv_def edges
  proof (intro conjI allI impI)
    show "distinct (dict_keys (g_edges g))" using inv by (simp add: inv_defs)
    fix i e assume e: "map_of (g_edges g) i = Some e"
    then have k: "ed_id e = i" "edge_ok e" "known_node g (ed_source e)" "known_node g (ed_target e)"
        "edge_applicable cfg g e"
      using inv by (auto simp: inv_defs)
    then have "ed_source e \<noteq> nd_id n" "ed_target e \<noteq> nd_id n" using new by auto
    then show "edge_applicable cfg ?g e" using k by (simp add: edge_applicable_def nodes)
    show "ed_id e = i" "edge_ok e" using k by simp_all
    show "known_node ?g (ed_source e)" "known_node ?g (ed_target e)" using k by (simp_all add: known_map nodes)
  qed
  moreover have "net_inv ?g"
    using inv fresh by (simp add: inv_defs nodes edges net net_nodes keys_dict_set del: set_map)
  moreover have "text_inv cfg ?g" using inv by (simp add: inv_defs nodes cache)
  ultimately show ?thesis by (simp add: graph_inv_def)
qed

text \<open>A node replaced by one of the same id and type.\<close>

lemma graph_inv_replace:
  assumes inv: "graph_inv cfg g" and n: "map_of (g_nodes g) i = Some n" and n': "node_ok n'"
    and same: "nd_id n' = i" "nd_type n' = nd_type n"
    and g': "g_nodes g' = dict_set (g_nodes g) i n'" "g_edges g' = g_edges g" "g_net_nodes g' = g_net_nodes g"
      "g_net_edges g' = g_net_edges g"
    and cache: "map_of (g_text g') = (map_of (g_text g))(i \<mapsto> build_searchable_text cfg n')"
  shows "graph_inv cfg g'"
proof -
  have keys: "dict_keys (g_nodes g') = dict_keys (g_nodes g)"
    unfolding g' using n by (intro dict_set_present) (force dest: map_of_SomeD)
  have ap: "edge_applicable cfg g' e = edge_applicable cfg g e" for e
    using n same by (auto simp: edge_applicable_def g' split: option.split)
  have "nodes_inv g'" using inv n' same by (auto simp: inv_defs g' (1))
  moreover have "edges_inv cfg g'" using inv ap by (auto simp: inv_defs known_node_def keys g'(2) simp del: set_map)
  moreover have "net_inv g'" using inv by (simp add: inv_defs keys g'(2-) del: set_map)
  moreover have "text_inv cfg g'" using inv by (simp add: inv_defs cache g'(1))
  ultimately show ?thesis by (simp add: graph_inv_def)
qed

lemma build_text_embedding [simp]: "build_searchable_text cfg (n\<lparr>nd_embedding := e\<rparr>) = build_searchable_text cfg n"
  by (simp add: build_searchable_text_def split: option.split)

lemma graph_inv_set_embedding: "graph_inv cfg g \<Longrightarrow> graph_inv cfg (set_embedding g p)"
proof (cases p)
  case (Pair i e)
  assume inv: "graph_inv cfg g"
  show ?thesis
  proof (cases "map_of (g_nodes g) i")
    case (Some n)
    have ok: "node_ok (n\<lparr>nd_embedding := Some e\<rparr>)" "nd_id n = i"
      using inv Some by (auto simp: inv_defs node_ok_def)
    have "map_of (g_text g) i = Some (build_searchable_text cfg n)" using inv Some by (simp add: inv_defs)
    then have "map_of (g_text g) = (map_of (g_text g))(i \<mapsto> build_searchable_text cfg (n\<lparr>nd_embedding := Some e\<rparr>))"
      by (auto simp: fun_eq_iff)
    from graph_inv_replace [OF inv Some ok(1) _ _ _ _ _ _ , of "set_embedding g p"] this ok show ?thesis
      by (simp add: set_embedding_def Pair Some)
  qed (use inv in \<open>simp add: set_embedding_def Pair\<close>)
qed

lemma graph_inv_embed: "graph_inv cfg g \<Longrightarrow> graph_inv cfg (embed_nodes cfg ns g)"
proof -
  have "graph_inv cfg g \<Longrightarrow> graph_inv cfg (foldl set_embedding g ps)" for ps
    by (induction ps arbitrary: g) (auto intro: graph_inv_set_embedding)
  then show "graph_inv cfg g \<Longrightarrow> ?thesis" by (simp add: embed_nodes_def split: option.split)
qed

section \<open>Edges\<close>

lemma graph_inv_put_edge:
  assumes inv: "graph_inv cfg g" and e: "edge_ok e" and new: "ed_id e \<notin> set (dict_keys (g_edges g))"
    and ends: "known_node g (ed_source e)" "known_node g (ed_target e)" and ap: "edge_applicable cfg g e"
  shows "graph_inv cfg (put_edge e g)"
proof -
  let ?g = "put_edge e g" and ?t = "(ed_source e, ed_target e, ed_id e)"
  have no: "map_of (g_edges g) (ed_id e) = None" using new by (simp add: map_of_None_keys del: set_map)
  then have fresh: "?t \<notin> set (g_net_edges g)" using inv by (simp add: inv_defs)
  have net: "ed_source e \<in> set (g_net_nodes g)" "ed_target e \<in> set (g_net_nodes g)"
    using inv ends by (simp_all add: inv_defs known_node_def)
  have f: "g_nodes ?g = g_nodes g" "g_edges ?g = dict_set (g_edges g) (ed_id e) e" "g_net_nodes ?g = g_net_nodes g"
      "g_net_edges ?g = g_net_edges g @ [?t]" "g_text ?g = g_text g"
    using fresh net by (simp_all add: put_edge_def net_add_edge_def net_add_node_def Let_def)
  have "edges_inv cfg ?g"
    using inv e ends ap by (auto simp: inv_defs f known_node_def applicable_cong [OF f(1)])
  moreover have "net_inv ?g" using inv fresh no by (auto simp: inv_defs f)
  moreover have "nodes_inv ?g" "text_inv cfg ?g" using inv by (simp_all add: inv_defs f)
  ultimately show ?thesis by (simp add: graph_inv_def)
qed

text \<open>An edge replaced by one of the same id and ends.\<close>

lemma graph_inv_replace_edge:
  assumes inv: "graph_inv cfg g" and e: "map_of (g_edges g) i = Some e" and e': "edge_ok e'"
    and same: "ed_id e' = i" "ed_source e' = ed_source e" "ed_target e' = ed_target e"
    and ap: "edge_applicable cfg g e'"
  shows "graph_inv cfg (g\<lparr>g_edges := dict_set (g_edges g) i e'\<rparr>)"
proof -
  let ?g = "g\<lparr>g_edges := dict_set (g_edges g) i e'\<rparr>"
  have "edges_inv cfg ?g"
    using inv e e' same ap applicable_cong [of ?g g cfg] by (auto simp: inv_defs known_node_def)
  moreover have "net_inv ?g" using inv e same by (auto simp: inv_defs)
  moreover have "nodes_inv ?g" "text_inv cfg ?g" using inv by (simp_all add: inv_defs)
  ultimately show ?thesis by (simp add: graph_inv_def)
qed

lemma net_remove_present:
  assumes "graph_inv cfg g" and "map_of (g_edges g) i = Some e"
  shows "net_remove_edge e g =
    Some (g\<lparr>g_net_edges := removeAll (ed_source e, ed_target e, i) (g_net_edges g)\<rparr>)"
  using assms by (auto simp: net_remove_edge_def Let_def inv_defs)

definition without_edge :: "string \<Rightarrow> edge \<Rightarrow> graph \<Rightarrow> graph" where
  "without_edge i e g =
     g\<lparr>g_net_edges := removeAll (ed_source e, ed_target e, i) (g_net_edges g), g_edges := dict_del (g_edges g) i\<rparr>"

lemma graph_inv_without_edge:
  assumes inv: "graph_inv cfg g" and e: "map_of (g_edges g) i = Some e"
  shows "graph_inv cfg (without_edge i e g)"
proof -
  let ?g = "without_edge i e g"
  have "edges_inv cfg ?g"
    using inv by (auto simp: inv_defs without_edge_def known_node_def edge_applicable_def split: if_splits)
  moreover have "net_inv ?g"
    using inv e by (auto simp: inv_defs without_edge_def removeAll_filter_not_eq)
  moreover have "nodes_inv ?g" "text_inv cfg ?g" using inv by (simp_all add: inv_defs without_edge_def)
  ultimately show ?thesis by (simp add: graph_inv_def)
qed

lemma take_edge_without:
  assumes "graph_inv cfg g" and "map_of (g_edges g) i = Some e"
  shows "take_edge i e g = without_edge i e g"
  using net_remove_present [OF assms] by (simp add: take_edge_def drop_edge_def without_edge_def)

end
