(* ===== verification/GraphRuns.thy ===== *)
theory GraphRuns
  imports GraphInv
begin

text \<open>
  Runs of the graph store: each operation as a step, the preservation of the invariant by every
  step, whatever its arguments and its outcome, and what a run leaves behind.
\<close>

section \<open>Adding\<close>

lemma resolve_known:
  assumes "resolve g (name_to_id g) s = Some i"
  shows "known_node g i"
proof -
  have "i \<in> fst ` set ps" if "map_of (foldl (\<lambda>d (i, n). dict_set d (nd_name n) i) d ps) s = Some i"
    and "map_of d s \<noteq> Some i" for d :: "(string, string) dict" and ps :: "(string, node) dict"
    using that
  proof (induction ps arbitrary: d)
    case (Cons p ps)
    obtain j n where p: "p = (j, n)" by fastforce
    show ?case
    proof (cases "map_of (dict_set d (nd_name n) j) s = Some i")
      case True
      then show ?thesis using Cons.prems by (auto simp: p split: if_splits)
    next
      case False
      then show ?thesis using Cons.IH [of "dict_set d (nd_name n) j"] Cons.prems by (auto simp: p)
    qed
  qed simp
  from this [of "[]" "g_nodes g"] show ?thesis
    using assms by (auto simp: resolve_def name_to_id_def known_node_def split: if_splits)
qed

lemma name_to_id_cong: "g_nodes g' = g_nodes g \<Longrightarrow> name_to_id g' = name_to_id g"
  by (simp add: name_to_id_def)

lemma put_edge_nodes [simp]: "g_nodes (put_edge e g) = g_nodes g"
  by (simp add: put_edge_def net_add_edge_def net_add_node_def Let_def)

lemma graph_inv_add_nodes_loop:
  "graph_inv cfg g \<Longrightarrow> \<forall>n \<in> set ns. node_ok n \<Longrightarrow> add_nodes_loop cfg ns g = (r, g') \<Longrightarrow> graph_inv cfg g'"
  by (induction cfg ns g rule: add_nodes_loop.induct) (auto intro: graph_inv_put_node split: if_splits)

lemma graph_inv_add_edges_loop:
  "graph_inv cfg g \<Longrightarrow> \<forall>e \<in> set es. edge_ok e \<Longrightarrow> names = name_to_id g \<Longrightarrow>
   add_edges_loop cfg names es g = (r, g') \<Longrightarrow> graph_inv cfg g'"
proof (induction cfg names es g arbitrary: r g' rule: add_edges_loop.induct)
  case (2 cfg names e es g)
  show ?case
  proof (cases "resolve g names (ed_source e)")
    case s: (Some s)
    show ?thesis
    proof (cases "resolve g names (ed_target e)")
      case t: (Some t)
      let ?e = "e\<lparr>ed_source := s, ed_target := t\<rparr>"
      show ?thesis
      proof (cases "ed_id e \<in> set (dict_keys (g_edges g)) \<or> \<not> edge_applicable cfg g ?e")
        case True
        then show ?thesis
          using "2.prems" s [unfolded "2.prems"(3)] t [unfolded "2.prems"(3)] by (auto simp: Let_def split: if_splits)
      next
        case False
        have "graph_inv cfg (put_edge ?e g)"
          using "2.prems"(1,2) False resolve_known [OF s [unfolded "2.prems"(3)]]
            resolve_known [OF t [unfolded "2.prems"(3)]]
          by (intro graph_inv_put_edge) (auto simp: edge_ok_def)
        moreover obtain r1 g1 where l: "add_edges_loop cfg names es (put_edge ?e g) = (r1, g1)" by fastforce
        ultimately have "graph_inv cfg g1"
          using "2.IH" [OF refl s t refl] False "2.prems"(2,3) by (simp add: name_to_id_def)
        then show ?thesis using "2.prems"(4) False by (auto simp: s t Let_def l split: sum.splits)
      qed
    next
      case None
      then show ?thesis
        using "2.prems" s [unfolded "2.prems"(3)] None [unfolded "2.prems"(3)] by simp
    qed
  next
    case None
    then show ?thesis using "2.prems" None [unfolded "2.prems"(3)] by simp
  qed
qed simp

lemma graph_inv_add_nodes:
  assumes "graph_inv cfg g" and "\<forall>n \<in> set ns. node_ok n" and "\<forall>e \<in> set es. edge_ok e"
  shows "graph_inv cfg (snd (add_nodes cfg env ns es g))"
proof -
  obtain r1 g1 where l1: "add_nodes_loop cfg ns g = (r1, g1)" by fastforce
  have i1: "graph_inv cfg g1" using graph_inv_add_nodes_loop [OF assms(1,2) l1] .
  let ?g = "save cfg (gv_now env 0) (embed_nodes cfg ns g1)"
  have i2: "graph_inv cfg ?g" using graph_inv_embed [OF i1] graph_inv_cong [OF same_content_steps(1)] by simp
  obtain r2 g2 where l2: "add_edges_loop cfg (name_to_id ?g) es ?g = (r2, g2)" by fastforce
  have i3: "graph_inv cfg g2" using graph_inv_add_edges_loop [OF i2 assms(3) refl l2] .
  let ?done = "\<lambda>added. foldl (emit_created_edge env) (foldl (emit_created_node env) (save cfg (gv_now env 1) g2) (map nd_id ns)) added"
  have "same_content g2 (?done added)" for added
    by (rule same_content_trans [OF same_content_steps(1) same_content_trans [OF same_content_foldl same_content_foldl]])
      simp_all
  then have "graph_inv cfg (?done added)" for added using graph_inv_cong i3 by blast
  then show ?thesis using i1 i3 l1 l2 by (auto simp: add_nodes_def Let_def split: option.split sum.split)
qed

lemma graph_inv_add_edge:
  assumes "graph_inv cfg g" and "edge_ok e"
  shows "graph_inv cfg (snd (add_edge cfg env e g))"
proof -
  have "graph_inv cfg (edge_event env ty b x (save cfg now (put_edge e1 g)))"
    if "graph_inv cfg (put_edge e1 g)" for ty b x now e1
    using that same_content_trans [OF same_content_steps(1) same_content_steps(4)] graph_inv_cong by blast
  moreover have "graph_inv cfg (put_edge (e\<lparr>ed_source := s, ed_target := t\<rparr>) g)"
    if "resolve g (name_to_id g) (ed_source e) = Some s" "resolve g (name_to_id g) (ed_target e) = Some t"
      "ed_id e \<notin> set (dict_keys (g_edges g))" "edge_applicable cfg g (e\<lparr>ed_source := s, ed_target := t\<rparr>)" for s t
    using assms that resolve_known by (intro graph_inv_put_edge) (auto simp: edge_ok_def)
  ultimately show ?thesis using assms(1) by (auto simp: add_edge_def Let_def split: option.split)
qed

section \<open>Updating\<close>

lemma node_from_dict_ok:
  assumes "node_from_dict fr d = Some v"
  shows "1 \<le> length (nd_name v) \<and> length (nd_name v) \<le> 200 \<and> length (nd_description v) \<le> 2000 \<and>
    length (nd_summary v) \<le> 300 \<and> limit_list_text (nd_tags v) \<and> limit_list_text (nd_aliases v)"
  using assms
  by (auto simp: node_from_dict_def Option.bind_eq_Some_conv bounded_def limited_def split: option.splits if_splits)

lemma apply_validated_ok:
  assumes "node_ok n" and "node_from_dict fr d = Some v" and "iso_range now"
  shows "node_ok (apply_validated n v now)"
  using assms node_from_dict_ok [OF assms(2)] by (simp add: node_ok_def apply_validated_def)

lemma apply_validated_same [simp]:
  "nd_id (apply_validated n v now) = nd_id n" "nd_type (apply_validated n v now) = nd_type n"
  by (simp_all add: apply_validated_def)

lemma graph_inv_replace_node:
  assumes inv: "graph_inv cfg g" and n: "map_of (g_nodes g) i = Some n" and n': "node_ok n'"
    and same: "nd_id n' = i" "nd_type n' = nd_type n"
  shows "graph_inv cfg (replace_node cfg n' g)"
  by (rule graph_inv_replace [OF inv n n' same]) (simp_all add: replace_node_def same)

lemma graph_inv_update_node:
  assumes inv: "graph_inv cfg g" and now: "\<forall>k. iso_range (gv_now env k)"
  shows "graph_inv cfg (snd (update_node cfg env i updates merge ex g))"
proof (cases "map_of (g_nodes g) i")
  case (Some n)
  have n: "node_ok n" "nd_id n = i" using inv Some by (auto simp: inv_defs)
  have "graph_inv cfg (node_event env ty b x (save cfg t g1))" if "graph_inv cfg g1" for ty b x t g1
    using that same_content_trans [OF same_content_steps(1) same_content_steps(3)] graph_inv_cong by blast
  moreover have "graph_inv cfg (replace_node cfg (apply_validated n v (gv_now env 0)) g)"
    if "node_from_dict fr d = Some v" for v fr d
    using apply_validated_ok [OF n(1) that] now n by (intro graph_inv_replace_node [OF inv Some]) simp_all
  ultimately show ?thesis
    using inv graph_inv_embed
    by (auto simp: update_node_def Some Let_def split: option.split sum.split)
qed (use inv in \<open>simp add: update_node_def\<close>)

lemma dict_update_other: "k \<notin> set (map fst e) \<Longrightarrow> map_of (dict_update d e) k = map_of d k"
  by (induction e arbitrary: d) (auto simp: dict_update_def)

lemma edge_updates_keys: "set (map fst (edge_updates u)) \<subseteq> {''type'', ''label'', ''metadata''}"
  by (auto simp: edge_updates_def)

lemma edge_candidate:
  assumes "edge_from_dict fr (dict_update (edge_to_dict e) (edge_updates u)) = Some v"
  shows "ed_source v = ed_source e" "ed_target v = ed_target e" "edge_type_ok (ed_type v)"
proof -
  have "map_of (dict_update (edge_to_dict e) (edge_updates u)) k = map_of (edge_to_dict e) k"
    if "k \<notin> {''type'', ''label'', ''metadata''}" for k
    using that edge_updates_keys [of u] by (intro dict_update_other) auto
  then have "map_of (dict_update (edge_to_dict e) (edge_updates u)) ''source'' = Some (JStr (ed_source e))"
    "map_of (dict_update (edge_to_dict e) (edge_updates u)) ''target'' = Some (JStr (ed_target e))"
    by (simp_all add: edge_to_dict_def)
  then show "ed_source v = ed_source e" "ed_target v = ed_target e"
    using assms by (auto simp: edge_from_dict_def Option.bind_eq_Some_conv required_str_def)
  show "edge_type_ok (ed_type v)"
    using assms edge_type_ok_of
    by (auto simp: edge_from_dict_def Option.bind_eq_Some_conv field_edge_type_def edge_type_ok_def
        split: option.splits json.splits)
qed

lemma graph_inv_update_edge:
  assumes inv: "graph_inv cfg g"
  shows "graph_inv cfg (snd (update_edge cfg env i updates g))"
proof (cases "map_of (g_edges g) i")
  case (Some e)
  have e: "ed_id e = i" "edge_ok e" using inv Some by (auto simp: inv_defs)
  have "graph_inv cfg (edge_event env ty b x (save cfg t g1))" if "graph_inv cfg g1" for ty b x t g1
    using that same_content_trans [OF same_content_steps(1) same_content_steps(4)] graph_inv_cong by blast
  moreover have "graph_inv cfg (g\<lparr>g_edges := dict_set (g_edges g) i
      (e\<lparr>ed_type := ed_type v, ed_label := ed_label v, ed_metadata := ed_metadata v\<rparr>)\<rparr>)"
    if v: "edge_from_dict fr (dict_update (edge_to_dict e) (edge_updates updates)) = Some v"
      and ap: "edge_applicable cfg g v" for fr v
    using edge_candidate [OF v] e ap
    by (intro graph_inv_replace_edge [OF inv Some]) (simp_all add: edge_ok_def edge_applicable_def split: option.splits)
  ultimately show ?thesis using inv by (auto simp: update_edge_def Some Let_def split: option.split)
qed (use inv in \<open>simp add: update_edge_def\<close>)

section \<open>Archiving\<close>

lemma graph_inv_nodes_archived_loop:
  "graph_inv cfg g \<Longrightarrow> \<forall>k. iso_range (gv_now env k) \<Longrightarrow> set_nodes_archived_loop env k is b g = (found, ch, g') \<Longrightarrow>
   graph_inv cfg g'"
proof (induction env k "is" b g arbitrary: found ch g' rule: set_nodes_archived_loop.induct)
  case (2 env k i "is" b g)
  show ?case
  proof (cases "map_of (g_nodes g) i")
    case (Some n)
    show ?thesis
    proof (cases "nd_archived n = b")
      case True
      then show ?thesis using "2.IH"(2) [OF Some True "2.prems"(1,2)] "2.prems"(3)
        by (auto simp: Some split: prod.splits)
    next
      case False
      let ?n = "n\<lparr>nd_archived := b, nd_updated_at := gv_now env k\<rparr>"
      let ?g = "node_event env NODE_UPDATE (Some (node_to_dict n)) ?n (g\<lparr>g_nodes := dict_set (g_nodes g) i ?n\<rparr>)"
      have ok: "node_ok ?n" "nd_id ?n = i" using "2.prems"(1,2) Some by (auto simp: inv_defs node_ok_def)
      have "build_searchable_text cfg ?n = build_searchable_text cfg n"
        by (simp add: build_searchable_text_def split: option.split)
      then have "map_of (g_text g) = (map_of (g_text g))(i \<mapsto> build_searchable_text cfg ?n)"
        using "2.prems"(1) Some by (auto simp: inv_defs fun_eq_iff)
      then have "graph_inv cfg (g\<lparr>g_nodes := dict_set (g_nodes g) i ?n\<rparr>)"
        using graph_inv_replace [OF "2.prems"(1) Some ok(1), of "g\<lparr>g_nodes := dict_set (g_nodes g) i ?n\<rparr>"] ok(2) by simp
      then have "graph_inv cfg ?g" using graph_inv_cong [OF same_content_steps(3)] by simp
      from "2.IH"(3) [OF Some False refl refl this "2.prems"(2)] "2.prems"(3) show ?thesis
        by (auto simp: Some False Let_def split: prod.splits)
    qed
  qed (use 2 in simp)
qed simp

lemma graph_inv_edges_archived_loop:
  "graph_inv cfg g \<Longrightarrow> set_edges_archived_loop env is b g = (found, ch, g') \<Longrightarrow> graph_inv cfg g'"
proof (induction env "is" b g arbitrary: found ch g' rule: set_edges_archived_loop.induct)
  case (2 env i "is" b g)
  show ?case
  proof (cases "map_of (g_edges g) i")
    case (Some e)
    show ?thesis
    proof (cases "ed_archived e = b")
      case True
      then show ?thesis using "2.IH"(2) [OF Some True "2.prems"(1)] "2.prems"(2)
        by (auto simp: Some split: prod.splits)
    next
      case False
      let ?e = "e\<lparr>ed_archived := b\<rparr>"
      let ?g = "edge_event env EDGE_UPDATE (Some (edge_to_dict e)) ?e (g\<lparr>g_edges := dict_set (g_edges g) i ?e\<rparr>)"
      have "edge_ok ?e" "ed_id ?e = i" "edge_applicable cfg g ?e"
        using "2.prems"(1) Some by (auto simp: inv_defs edge_ok_def edge_applicable_def split: option.splits)
      then have "graph_inv cfg (g\<lparr>g_edges := dict_set (g_edges g) i ?e\<rparr>)"
        using graph_inv_replace_edge [OF "2.prems"(1) Some, of ?e] by simp
      then have "graph_inv cfg ?g" using graph_inv_cong [OF same_content_steps(4)] by simp
      from "2.IH"(3) [OF Some False refl refl this] "2.prems"(2) show ?thesis
        by (auto simp: Some False Let_def split: prod.splits)
    qed
  qed (use 2 in simp)
qed simp

section \<open>Deleting\<close>

text \<open>The edges of a list of distinct present ids, all removed.\<close>

lemma remove_edges_inv:
  "graph_inv cfg g \<Longrightarrow> set is \<subseteq> set (dict_keys (g_edges g)) \<Longrightarrow> distinct is \<Longrightarrow>
   \<exists>g'. remove_edges is g = (True, g') \<and> graph_inv cfg g' \<and> g_nodes g' = g_nodes g \<and>
     g_edges g' = filter (\<lambda>(k, e). k \<notin> set is) (g_edges g) \<and> g_text g' = g_text g \<and>
     g_vectors g' = g_vectors g \<and> g_events g' = g_events g \<and> g_pending g' = g_pending g \<and> g_disk g' = g_disk g"
proof (induction "is" arbitrary: g)
  case Nil
  then show ?case by (simp add: filter_id_conv)
next
  case (Cons i "is")
  then obtain e where e: "map_of (g_edges g) i = Some e" by (cases "map_of (g_edges g) i") (auto simp: map_of_None_keys)
  have step: "remove_edges (i # is) g = remove_edges is (without_edge i e g)"
    using net_remove_present [OF Cons.prems(1) e] e by (simp add: drop_edge_def without_edge_def)
  have del: "dict_del (g_edges g) i = filter (\<lambda>(k, e). k \<noteq> i) (g_edges g)" by (auto simp: AList.delete_eq intro!: filter_cong)
  have "set is \<subseteq> set (dict_keys (g_edges (without_edge i e g)))"
    using Cons.prems(2,3) by (auto simp: without_edge_def delete_keys simp del: set_map)
  from Cons.IH [OF graph_inv_without_edge [OF Cons.prems(1) e] this] Cons.prems(3)
  obtain g' where g': "remove_edges is (without_edge i e g) = (True, g')" "graph_inv cfg g'"
      "g_nodes g' = g_nodes g" "g_edges g' = filter (\<lambda>(k, e). k \<notin> set is) (dict_del (g_edges g) i)"
      "g_text g' = g_text g" "g_vectors g' = g_vectors g" "g_events g' = g_events g"
      "g_pending g' = g_pending g" "g_disk g' = g_disk g"
    by (auto simp: without_edge_def)
  have "filter (\<lambda>(k, e). k \<notin> set is) (dict_del (g_edges g) i) = filter (\<lambda>(k, e). k \<notin> set (i # is)) (g_edges g)"
    unfolding del filter_filter by (rule filter_cong) auto
  with g' step show ?case by auto
qed

lemma graph_inv_drop_node:
  assumes inv: "graph_inv cfg g" and n: "map_of (g_nodes g) i = Some n"
    and free: "\<forall>k e. map_of (g_edges g) k = Some e \<longrightarrow> \<not> incident i e"
  shows "\<exists>g'. net_remove_node i g = Some g' \<and> graph_inv cfg (drop_node i g') \<and>
    g_nodes (drop_node i g') = dict_del (g_nodes g) i \<and> g_edges (drop_node i g') = g_edges g \<and>
    g_vectors (drop_node i g') = g_vectors g \<and> g_events (drop_node i g') = g_events g \<and>
    g_pending (drop_node i g') = g_pending g \<and> g_disk (drop_node i g') = g_disk g"
proof -
  have "i \<in> set (dict_keys (g_nodes g))" using n by (metis map_of_None_keys option.distinct(1))
  then have i: "i \<in> set (g_net_nodes g)" using inv by (simp only: graph_inv_def net_inv_def)
  have "(s, t, k) \<in> set (g_net_edges g) \<Longrightarrow> s \<noteq> i \<and> t \<noteq> i" for s t k
    using inv free by (auto simp: inv_defs incident_def)
  then have id: "filter (\<lambda>(s, t, k). s \<noteq> i \<and> t \<noteq> i) (g_net_edges g) = g_net_edges g"
    by (auto simp: filter_id_conv)
  let ?g = "g\<lparr>g_net_nodes := removeAll i (g_net_nodes g)\<rparr>"
  have r: "net_remove_node i g = Some ?g" using i id by (simp add: net_remove_node_def)
  define d where "d = drop_node i ?g"
  have ends: "ed_source e \<noteq> i \<and> ed_target e \<noteq> i" if "map_of (g_edges g) k = Some e" for k e
    using free that by (auto simp: incident_def)
  have f: "g_nodes d = dict_del (g_nodes g) i" "g_edges d = g_edges g" "g_net_edges d = g_net_edges g"
      "g_net_nodes d = removeAll i (g_net_nodes g)" "g_text d = dict_del (g_text g) i"
      "g_vectors d = g_vectors g" "g_events d = g_events g" "g_pending d = g_pending g" "g_disk d = g_disk g"
    by (simp_all add: drop_node_def d_def)
  have known: "known_node d j \<longleftrightarrow> known_node g j \<and> j \<noteq> i" for j by (auto simp: known_map f)
  have keys: "set (dict_keys (g_nodes d)) = set (dict_keys (g_nodes g)) - {i}"
    by (simp only: f delete_keys set_removeAll)
  have "edges_inv cfg d"
    using inv ends by (auto simp: inv_defs f known edge_applicable_def)
  moreover have "net_inv d" using inv unfolding graph_inv_def net_inv_def keys by (simp add: f distinct_removeAll)
  moreover have "nodes_inv d" "text_inv cfg d" using inv by (auto simp: inv_defs f split: if_splits)
  ultimately show ?thesis using r f by (intro exI [of _ ?g]) (simp add: graph_inv_def flip: d_def)
qed

text \<open>The loop deletes the present ids, once each, and every edge at one of them.\<close>

lemma map_of_filter_edges:
  "distinct (map fst d) \<Longrightarrow> map_of (filter (\<lambda>(k, v). P k v) d) k =
    (case map_of d k of Some v \<Rightarrow> if P k v then Some v else None | None \<Rightarrow> None)"
  by (induction d) (auto simp: map_of_None_keys split: option.split dest: map_of_SomeD)

lemma edge_ends:
  assumes "graph_inv cfg g" and "map_of (g_edges g) k = Some e"
  shows "known_node g (ed_source e) \<and> known_node g (ed_target e)"
  using assms unfolding graph_inv_def edges_inv_def by blast

lemma delete_nodes_loop_effect:
  "graph_inv cfg g \<Longrightarrow>
   \<exists>ns es g'. delete_nodes_loop is g = (ns, es, True, g') \<and> graph_inv cfg g' \<and>
     set ns = {p \<in> set (g_nodes g). fst p \<in> set is} \<and> distinct (map fst ns) \<and>
     g_nodes g' = filter (\<lambda>(k, n). k \<notin> set is) (g_nodes g) \<and>
     g_edges g' = filter (\<lambda>(k, e). \<not> (\<exists>i \<in> set is. incident i e)) (g_edges g) \<and>
     set es = {p \<in> set (g_edges g). \<exists>i \<in> set is. incident i (snd p)} \<and> distinct (map fst es) \<and>
     g_vectors g' = g_vectors g \<and> g_events g' = g_events g \<and> g_pending g' = g_pending g \<and> g_disk g' = g_disk g"
proof (induction "is" arbitrary: g)
  case (Cons i "is")
  have dk: "distinct (dict_keys (g_nodes g))" and dke: "distinct (dict_keys (g_edges g))"
    using Cons.prems by (simp_all add: inv_defs)
  show ?case
  proof (cases "map_of (g_nodes g) i")
    case None
    then have no: "i \<notin> set (dict_keys (g_nodes g))" by (metis map_of_None_keys)
    have "\<not> incident i e" if "(k, e) \<in> set (g_edges g)" for k e
      using edge_ends [OF Cons.prems iffD1 [OF dict_item [OF dke] that]] no unfolding incident_def known_node_def by blast
    then have e: "(\<exists>j \<in> set (i # is). incident j e) \<longleftrightarrow> (\<exists>j \<in> set is. incident j e)"
      if "(k, e) \<in> set (g_edges g)" for k e using that by auto
    have n: "k \<in> set (i # is) \<longleftrightarrow> k \<in> set is" if "(k, n) \<in> set (g_nodes g)" for k n
      using no that by (auto simp: rev_image_eqI)
    from Cons.IH [OF Cons.prems] obtain ns es g' where l: "delete_nodes_loop is g = (ns, es, True, g')" "graph_inv cfg g'"
      "set ns = {p \<in> set (g_nodes g). fst p \<in> set is}" "distinct (map fst ns)"
      "g_nodes g' = filter (\<lambda>(k, n). k \<notin> set is) (g_nodes g)"
      "g_edges g' = filter (\<lambda>(k, e). \<not> (\<exists>i \<in> set is. incident i e)) (g_edges g)"
      "set es = {p \<in> set (g_edges g). \<exists>i \<in> set is. incident i (snd p)}" "distinct (map fst es)"
      "g_vectors g' = g_vectors g" "g_events g' = g_events g" "g_pending g' = g_pending g" "g_disk g' = g_disk g"
      by blast
    have "delete_nodes_loop (i # is) g = (ns, es, True, g')" using None l(1) by simp
    moreover have "filter (\<lambda>(k, n). k \<notin> set is) (g_nodes g) = filter (\<lambda>(k, n). k \<notin> set (i # is)) (g_nodes g)"
      by (rule filter_cong) (use n in auto)
    moreover have "filter (\<lambda>(k, e). \<not> (\<exists>i \<in> set is. incident i e)) (g_edges g) =
        filter (\<lambda>(k, e). \<not> (\<exists>j \<in> set (i # is). incident j e)) (g_edges g)"
      by (rule filter_cong) (use e in auto)
    moreover have "{p \<in> set (g_nodes g). fst p \<in> set is} = {p \<in> set (g_nodes g). fst p \<in> set (i # is)}"
      using n by force
    moreover have "{p \<in> set (g_edges g). \<exists>i \<in> set is. incident i (snd p)} =
        {p \<in> set (g_edges g). \<exists>j \<in> set (i # is). incident j (snd p)}"
      using e by force
    ultimately show ?thesis using l by (intro exI [of _ ns] exI [of _ es] exI [of _ g']) simp
  next
    case (Some n)
    let ?es = "filter (\<lambda>(k, e). incident i e) (g_edges g)"
    have "set (map fst ?es) \<subseteq> set (dict_keys (g_edges g))" "distinct (map fst ?es)"
      using dke by (auto simp: distinct_map_filter)
    from remove_edges_inv [OF Cons.prems this] obtain g1 where
      g1: "remove_edges (map fst ?es) g = (True, g1)" "graph_inv cfg g1" "g_nodes g1 = g_nodes g"
      "g_edges g1 = filter (\<lambda>(k, e). k \<notin> set (map fst ?es)) (g_edges g)" "g_vectors g1 = g_vectors g"
      "g_events g1 = g_events g" "g_pending g1 = g_pending g" "g_disk g1 = g_disk g" by blast
    have keyed: "k \<in> set (map fst ?es) \<longleftrightarrow> incident i e" if "(k, e) \<in> set (g_edges g)" for k e
      using that dict_item [OF dke] by (auto simp: image_iff)
    have e1: "g_edges g1 = filter (\<lambda>(k, e). \<not> incident i e) (g_edges g)"
      unfolding g1(4) by (rule filter_cong) (use keyed in auto)
    have free: "\<forall>k e. map_of (g_edges g1) k = Some e \<longrightarrow> \<not> incident i e"
      by (auto simp: e1 map_of_filter_edges [OF dke] split: option.splits if_splits)
    obtain g2 where g2: "net_remove_node i g1 = Some g2" "graph_inv cfg (drop_node i g2)"
      "g_nodes (drop_node i g2) = dict_del (g_nodes g) i" "g_edges (drop_node i g2) = g_edges g1"
      "g_vectors (drop_node i g2) = g_vectors g" "g_events (drop_node i g2) = g_events g"
      "g_pending (drop_node i g2) = g_pending g" "g_disk (drop_node i g2) = g_disk g"
      using graph_inv_drop_node [OF g1(2) _ free] Some g1 by auto
    from Cons.IH [OF g2(2)] obtain ns es g' where l: "delete_nodes_loop is (drop_node i g2) = (ns, es, True, g')"
      "graph_inv cfg g'"
      "set ns = {p \<in> set (dict_del (g_nodes g) i). fst p \<in> set is}" "distinct (map fst ns)"
      "g_nodes g' = filter (\<lambda>(k, n). k \<notin> set is) (dict_del (g_nodes g) i)"
      "g_edges g' = filter (\<lambda>(k, e). \<not> (\<exists>i \<in> set is. incident i e)) (g_edges g1)"
      "set es = {p \<in> set (g_edges g1). \<exists>i \<in> set is. incident i (snd p)}" "distinct (map fst es)"
      "g_vectors g' = g_vectors g" "g_events g' = g_events g" "g_pending g' = g_pending g" "g_disk g' = g_disk g"
      using g2 by auto
    have run: "delete_nodes_loop (i # is) g = ((i, n) # ns, ?es @ es, True, g')"
      by (simp add: Some g1(1) g2(1) l(1) Let_def)
    have del: "set (dict_del (g_nodes g) i) = {p \<in> set (g_nodes g). fst p \<noteq> i}"
      by (auto simp: AList.delete_eq)
    have "set ((i, n) # ns) = {p \<in> set (g_nodes g). fst p \<in> set (i # is)}"
      using Some dict_item [OF dk, of i] by (auto simp: l(3) del)
    moreover have "distinct (map fst ((i, n) # ns))" using l(3,4) by (auto simp: del)
    moreover have "g_nodes g' = filter (\<lambda>(k, n). k \<notin> set (i # is)) (g_nodes g)"
      unfolding l(5) AList.delete_eq filter_filter by (rule filter_cong) auto
    moreover have "g_edges g' = filter (\<lambda>(k, e). \<not> (\<exists>j \<in> set (i # is). incident j e)) (g_edges g)"
      unfolding l(6) e1 filter_filter by (rule filter_cong) auto
    moreover have "set (?es @ es) = {p \<in> set (g_edges g). \<exists>j \<in> set (i # is). incident j (snd p)}"
      by (auto simp: l(7) e1)
    moreover have "distinct (map fst (?es @ es))"
      using l(7,8) \<open>distinct (map fst ?es)\<close> dict_item [OF dke] by (auto simp: e1)
    ultimately show ?thesis using run l by (intro exI [of _ "(i, n) # ns"] exI [of _ "?es @ es"] exI [of _ g']) simp
  qed
qed (simp add: filter_id_conv)

lemma same_content_deleted:
  "same_content g (foldl (emit_deleted_node env) (foldl (emit_deleted_edge env) (save cfg now g) es) ns)"
  by (rule same_content_trans [OF same_content_steps(1) same_content_trans [OF same_content_foldl same_content_foldl]])
    simp_all

lemma graph_inv_delete_nodes:
  assumes inv: "graph_inv cfg g"
  shows "graph_inv cfg (snd (delete_nodes cfg env is b g))"
proof -
  obtain ns es g' where l: "delete_nodes_loop is g = (ns, es, True, g')" and i: "graph_inv cfg g'"
    using delete_nodes_loop_effect [OF inv] by blast
  let ?g = "g'\<lparr>g_vectors := foldl dict_del (g_vectors g') (map fst ns)\<rparr>"
  have "graph_inv cfg ?g" using i graph_inv_cong same_content_steps(9) by blast
  then have "graph_inv cfg (foldl (emit_deleted_node env) (foldl (emit_deleted_edge env)
      (save cfg (gv_now env 0) ?g) es) ns)"
    using graph_inv_cong same_content_deleted by blast
  then show ?thesis using inv \<open>graph_inv cfg ?g\<close> by (simp add: delete_nodes_def l Let_def)
qed

lemma graph_inv_take_edge:
  "graph_inv cfg g \<Longrightarrow> map_of (g_edges g) i = Some e \<Longrightarrow> graph_inv cfg (take_edge i e g)"
  by (simp add: take_edge_without graph_inv_without_edge)

lemma graph_inv_delete_edge:
  assumes "graph_inv cfg g"
  shows "graph_inv cfg (snd (delete_edge cfg env i g))"
proof (cases "map_of (g_edges g) i")
  case (Some e)
  have "same_content (take_edge i e g) (emit_deleted_edge env (save cfg (gv_now env 0) (take_edge i e g)) (i, e))"
    by (rule same_content_trans [OF same_content_steps(1) same_content_steps(8)])
  then show ?thesis using graph_inv_cong graph_inv_take_edge [OF assms Some] by (simp add: delete_edge_def Some)
qed (use assms in \<open>simp add: delete_edge_def\<close>)

lemma graph_inv_delete_edges_loop: "graph_inv cfg g \<Longrightarrow> graph_inv cfg (snd (delete_edges_loop is g))"
  by (induction "is" g rule: delete_edges_loop.induct)
    (auto split: option.split prod.split dest: graph_inv_take_edge)

lemma graph_inv_delete_edges:
  assumes "graph_inv cfg g"
  shows "graph_inv cfg (snd (delete_edges cfg env is g))"
proof -
  obtain es g' where l: "delete_edges_loop is g = (es, g')" by fastforce
  have "same_content g' (foldl (emit_deleted_edge env) (save cfg (gv_now env 0) g') es)"
    by (rule same_content_trans [OF same_content_steps(1) same_content_foldl]) simp
  then show ?thesis
    using graph_inv_delete_edges_loop [OF assms, of "is"] graph_inv_cong by (simp add: delete_edges_def l)
qed

lemma graph_inv_set_nodes_archived:
  assumes "graph_inv cfg g" and "\<forall>k. iso_range (gv_now env k)"
  shows "graph_inv cfg (snd (set_nodes_archived cfg env is b g))"
proof -
  obtain found ch g' where l: "set_nodes_archived_loop env 1 is b g = (found, ch, g')" by (metis prod_cases3)
  then have "graph_inv cfg g'" using graph_inv_nodes_archived_loop assms by blast
  then show ?thesis using graph_inv_cong [OF same_content_steps(1)] by (simp add: set_nodes_archived_def l del: One_nat_def)
qed

lemma graph_inv_set_edges_archived:
  assumes "graph_inv cfg g"
  shows "graph_inv cfg (snd (set_edges_archived cfg env is b g))"
proof -
  obtain found ch g' where l: "set_edges_archived_loop env is b g = (found, ch, g')" by (metis prod_cases3)
  then have "graph_inv cfg g'" using graph_inv_edges_archived_loop assms by blast
  then show ?thesis using graph_inv_cong [OF same_content_steps(1)] by (simp add: set_edges_archived_def l)
qed

end
