(* ===== verification/GraphDims.thy ===== *)
theory GraphDims
  imports GraphRuns
begin

text \<open>
  The lengths of embeddings. The matrix of the vector index needs all embeddings of one length
  \<open>d\<close>; nothing checks the embeddings a caller sends, so that this holds is a hypothesis on the
  calls, which every operation then preserves.
\<close>

definition emb_ok :: "nat \<Rightarrow> node \<Rightarrow> bool" where
  "emb_ok d n \<longleftrightarrow> (\<forall>e. nd_embedding n = Some e \<longrightarrow> length e = d)"

definition dims :: "nat \<Rightarrow> graph \<Rightarrow> bool" where
  "dims d g \<longleftrightarrow> (\<forall>p \<in> set (g_nodes g). emb_ok d (snd p)) \<and> (\<forall>p \<in> set (g_vectors g). length (snd p) = d)"

text \<open>The model embeds every text in the same space.\<close>

definition embeds :: "graph_config \<Rightarrow> nat \<Rightarrow> bool" where
  "embeds cfg d \<longleftrightarrow> (\<forall>ns es. gc_embed cfg ns = Some es \<longrightarrow> (\<forall>e \<in> set es. length e = d))"

lemma set_dict_set: "p \<in> set (dict_set d k v) \<Longrightarrow> p = (k, v) \<or> p \<in> set d"
  by (induction d) (auto split: if_splits)

lemma dict_del_member: "p \<in> set (dict_del d k) \<Longrightarrow> p \<in> set d"
  by (auto simp: AList.delete_eq)

lemma dict_dels_member: "p \<in> set (foldl dict_del d ks) \<Longrightarrow> p \<in> set d"
  by (induction ks arbitrary: d) (auto dest: dict_del_member)

lemma stackable_dims: "\<forall>p \<in> set v. length (snd p) = d \<Longrightarrow> stackable v"
  by (cases v) (auto simp: stackable_def list_all_iff)

definition same_dims :: "graph \<Rightarrow> graph \<Rightarrow> bool" where
  "same_dims g g' \<longleftrightarrow> g_nodes g' = g_nodes g \<and> g_vectors g' = g_vectors g"

lemma same_dims_refl [simp]: "same_dims g g"
  by (simp add: same_dims_def)

lemma same_dims_trans: "same_dims g g1 \<Longrightarrow> same_dims g1 g2 \<Longrightarrow> same_dims g g2"
  by (simp add: same_dims_def)

lemma dims_cong: "same_dims g g' \<Longrightarrow> dims d g' = dims d g"
  by (simp add: same_dims_def dims_def)

lemma same_dims_foldl: "(\<And>g x. same_dims g (f g x)) \<Longrightarrow> same_dims g (foldl f g xs)"
  by (induction xs arbitrary: g) (auto intro: same_dims_trans)

lemma same_dims_steps [simp]:
  "same_dims g (save cfg now g)" "same_dims g (emit_event env ty kind i t b a g)"
  "same_dims g (node_event env ty b n g)" "same_dims g (edge_event env ty b e g)"
  "same_dims g (emit_created_node env g i)" "same_dims g (emit_created_edge env g i)"
  "same_dims g (emit_deleted_node env g p)" "same_dims g (emit_deleted_edge env g q)"
  "same_dims g (put_edge e g)" "same_dims g (flush g)" "same_dims g (io_step g)" "same_dims g (take_edge i e g)"
  by (auto simp: same_dims_def graph_defs Let_def emit_created_node_def emit_created_edge_def take_edge_def
      emit_deleted_node_def emit_deleted_edge_def flush_def io_step_def drop_edge_def net_remove_edge_def
      split: option.split list.split prod.split)

lemma dims_put_node: "dims d g \<Longrightarrow> emb_ok d n \<Longrightarrow> dims d (put_node cfg n g)"
  by (auto simp: dims_def put_node_def net_add_node_def Let_def dest!: set_dict_set)

lemma dims_set_embedding: "dims d g \<Longrightarrow> length (snd p) = d \<Longrightarrow> dims d (set_embedding g p)"
  by (auto simp: dims_def set_embedding_def emb_ok_def split: prod.split option.split dest!: set_dict_set)

lemma dims_embed_nodes:
  assumes "embeds cfg d" and "dims d g"
  shows "dims d (embed_nodes cfg ns g)"
proof -
  have "dims d (foldl set_embedding g ps)" if "\<forall>p \<in> set ps. length (snd p) = d" "dims d g" for ps g
    using that by (induction ps arbitrary: g) (auto intro: dims_set_embedding)
  moreover have "\<forall>p \<in> set (zip is es). length (snd p) = d" if "gc_embed cfg ns = Some es" for "is" :: "string list" and es
    using that assms(1) by (auto simp: embeds_def dest!: set_zip_rightD)
  ultimately show ?thesis using assms(2) by (simp add: embed_nodes_def split: option.split)
qed

lemma dims_add_nodes_loop:
  "dims d g \<Longrightarrow> \<forall>n \<in> set ns. emb_ok d n \<Longrightarrow> dims d (snd (add_nodes_loop cfg ns g))"
  by (induction cfg ns g rule: add_nodes_loop.induct) (auto intro: dims_put_node)

lemma same_dims_add_edges_loop: "same_dims g (snd (add_edges_loop cfg names es g))"
proof (induction cfg names es g rule: add_edges_loop.induct)
  case (2 cfg names e es g)
  show ?case
  proof (cases "\<exists>s t. resolve g names (ed_source e) = Some s \<and> resolve g names (ed_target e) = Some t \<and>
      ed_id e \<notin> set (dict_keys (g_edges g)) \<and> edge_applicable cfg g (e\<lparr>ed_source := s, ed_target := t\<rparr>)")
    case True
    then obtain s t where st: "resolve g names (ed_source e) = Some s" "resolve g names (ed_target e) = Some t"
      and ok: "ed_id e \<notin> set (dict_keys (g_edges g))" "edge_applicable cfg g (e\<lparr>ed_source := s, ed_target := t\<rparr>)"
      by blast
    have "same_dims (put_edge (e\<lparr>ed_source := s, ed_target := t\<rparr>) g)
        (snd (add_edges_loop cfg names es (put_edge (e\<lparr>ed_source := s, ed_target := t\<rparr>) g)))"
      using "2.IH" [OF refl st refl] ok by simp
    then have "same_dims g (snd (add_edges_loop cfg names es (put_edge (e\<lparr>ed_source := s, ed_target := t\<rparr>) g)))"
      using same_dims_trans [OF same_dims_steps(9)] by blast
    then show ?thesis using ok by (auto simp: st Let_def split: prod.split sum.split)
  qed (auto simp: Let_def split: option.split)
qed simp

lemma dims_add_nodes:
  assumes "embeds cfg d" and "dims d g" and "\<forall>n \<in> set ns. emb_ok d n"
  shows "dims d (snd (add_nodes cfg env ns es g))"
proof -
  obtain r1 g1 where l1: "add_nodes_loop cfg ns g = (r1, g1)" by fastforce
  then have g1: "dims d g1" using dims_add_nodes_loop [OF assms(2,3), of cfg] by simp
  let ?g2 = "save cfg (gv_now env 0) (embed_nodes cfg ns g1)"
  have g2: "dims d ?g2" using dims_embed_nodes [OF assms(1) g1] dims_cong [OF same_dims_steps(1)] by simp
  obtain r3 g3 where l3: "add_edges_loop cfg (name_to_id ?g2) es ?g2 = (r3, g3)" by fastforce
  then have g3: "dims d g3" using g2 dims_cong [OF same_dims_add_edges_loop] by (metis snd_conv)
  have "same_dims g3 (foldl (emit_created_edge env) (foldl (emit_created_node env) (save cfg t g3) is) js)" for t "is" js
    by (rule same_dims_trans [OF same_dims_steps(1) same_dims_trans [OF same_dims_foldl same_dims_foldl]]) simp_all
  then have "dims d (foldl (emit_created_edge env) (foldl (emit_created_node env) (save cfg t g3) is) js)" for t "is" js
    using g3 dims_cong by blast
  then show ?thesis
    using g1 g3 by (auto simp: add_nodes_def Let_def l1 l3 split: option.split sum.split)
qed

lemma dims_add_edge: "dims d g \<Longrightarrow> dims d (snd (add_edge cfg env e g))"
  using dims_cong [OF same_dims_trans [OF same_dims_steps(9) same_dims_trans [OF same_dims_steps(1) same_dims_steps(4)]]]
  by (auto simp: add_edge_def Let_def split: option.split)

lemma dims_update_node:
  assumes "embeds cfg d" and "dims d g"
  shows "dims d (snd (update_node cfg env i updates merge ex g))"
proof -
  have "dims d (replace_node cfg (apply_validated n v now) g)" if "map_of (g_nodes g) i = Some n" for n v now
    using that assms(2)
    by (auto simp: dims_def replace_node_def emb_ok_def apply_validated_def dest!: set_dict_set map_of_SomeD)
  moreover have "dims d (node_event env ty b n (save cfg t g1))" if "dims d g1" for ty b n t g1
    using that dims_cong [OF same_dims_trans [OF same_dims_steps(1) same_dims_steps(3)]] by blast
  ultimately show ?thesis
    using assms dims_embed_nodes by (auto simp: update_node_def Let_def split: option.split sum.split)
qed

lemma dims_update_edge:
  assumes "dims d g"
  shows "dims d (snd (update_edge cfg env i updates g))"
proof -
  have "dims d (edge_event env ty b n (save cfg t (g\<lparr>g_edges := es\<rparr>)))" for ty b n t es
    using dims_cong [OF same_dims_trans [OF same_dims_steps(1) same_dims_steps(4)]] assms by (simp add: dims_def)
  with assms show ?thesis by (auto simp: update_edge_def Let_def split: option.split)
qed

lemma dims_nodes_archived_loop: "dims d g \<Longrightarrow> dims d (snd (snd (set_nodes_archived_loop env k is b g)))"
proof (induction env k "is" b g rule: set_nodes_archived_loop.induct)
  case (2 env k i "is" b g)
  show ?case
  proof (cases "map_of (g_nodes g) i")
    case (Some n)
    let ?n = "n\<lparr>nd_archived := b, nd_updated_at := gv_now env k\<rparr>"
    have "dims d (g\<lparr>g_nodes := dict_set (g_nodes g) i ?n\<rparr>)"
      using 2(4) Some by (auto simp: dims_def emb_ok_def dest!: set_dict_set map_of_SomeD)
    then have "dims d (node_event env NODE_UPDATE (Some (node_to_dict n)) ?n (g\<lparr>g_nodes := dict_set (g_nodes g) i ?n\<rparr>))"
      using dims_cong [OF same_dims_steps(3)] by blast
    then show ?thesis using 2(2) [OF Some _ 2(4)] 2(3) [OF Some _ refl refl]
      by (auto simp: Some Let_def split: prod.split)
  qed (use 2 in simp)
qed simp

lemma same_dims_edges_archived_loop: "same_dims g (snd (snd (set_edges_archived_loop env is b g)))"
proof (induction env "is" b g rule: set_edges_archived_loop.induct)
  case (2 env i "is" b g)
  show ?case
  proof (cases "map_of (g_edges g) i")
    case (Some e)
    let ?e = "e\<lparr>ed_archived := b\<rparr>"
    have "same_dims g (edge_event env EDGE_UPDATE (Some (edge_to_dict e)) ?e (g\<lparr>g_edges := dict_set (g_edges g) i ?e\<rparr>))"
      by (rule same_dims_trans [OF _ same_dims_steps(4)]) (simp add: same_dims_def)
    then show ?thesis using 2(2) [OF Some] same_dims_trans [OF _ 2(3) [OF Some _ refl refl]]
      by (auto simp: Some Let_def split: prod.split)
  qed (use 2 in simp)
qed simp

lemma same_dims_delete_edges_loop: "same_dims g (snd (delete_edges_loop is g))"
  by (induction "is" g rule: delete_edges_loop.induct)
    (auto split: option.split prod.split intro: same_dims_trans [OF same_dims_steps(12)])

lemma dims_delete_edges:
  assumes "dims d g"
  shows "dims d (snd (delete_edges cfg env is g))"
proof -
  obtain es g' where l: "delete_edges_loop is g = (es, g')" by fastforce
  have "same_dims g' (foldl (emit_deleted_edge env) (save cfg t g') es)" for t
    by (rule same_dims_trans [OF same_dims_steps(1) same_dims_foldl]) simp
  moreover have "dims d g'" using assms dims_cong [OF same_dims_delete_edges_loop [of g "is"]] by (simp add: l)
  ultimately have "dims d (foldl (emit_deleted_edge env) (save cfg t g') es)" for t using dims_cong by blast
  then show ?thesis by (simp add: delete_edges_def l)
qed

lemma dims_delete_edge: "dims d g \<Longrightarrow> dims d (snd (delete_edge cfg env i g))"
  using dims_cong [OF same_dims_trans [OF same_dims_steps(12) same_dims_trans [OF same_dims_steps(1) same_dims_steps(8)]]]
  by (auto simp: delete_edge_def split: option.split)

lemma dims_delete_nodes:
  assumes inv: "graph_inv cfg g" and d: "dims d g"
  shows "dims d (snd (delete_nodes cfg env is b g))"
proof -
  obtain ns es g' where l: "delete_nodes_loop is g = (ns, es, True, g')" and v: "g_vectors g' = g_vectors g"
    and n: "g_nodes g' = filter (\<lambda>(k, n). k \<notin> set is) (g_nodes g)"
    using delete_nodes_loop_effect [OF inv, of "is"] by blast
  let ?g = "g'\<lparr>g_vectors := foldl dict_del (g_vectors g') (map fst ns)\<rparr>"
  have g: "dims d ?g" using d dict_dels_member by (fastforce simp: dims_def v n)
  have "same_dims ?g (foldl (emit_deleted_node env) (foldl (emit_deleted_edge env) (save cfg t ?g) es) ns)" for t
    by (rule same_dims_trans [OF same_dims_steps(1) same_dims_trans [OF same_dims_foldl same_dims_foldl]]) simp_all
  then have "dims d (foldl (emit_deleted_node env) (foldl (emit_deleted_edge env) (save cfg t ?g) es) ns)" for t
    using g dims_cong by blast
  with g d show ?thesis by (simp add: delete_nodes_def l Let_def)
qed

lemma vectors_stackable:
  assumes "dims d g"
  shows "stackable (foldl dict_del (g_vectors g) is)"
proof (rule stackable_dims)
  show "\<forall>p \<in> set (foldl dict_del (g_vectors g) is). length (snd p) = d"
    using assms dict_dels_member unfolding dims_def by blast
qed

end
