(* ===== verification/GraphHistory.thy ===== *)
theory GraphHistory
  imports GraphDims
begin

text \<open>
  The graph store as a machine: its operations as steps, runs of them, and what a run leaves in the
  event history and in the file. \<open>graph_step\<close> also tells whether an \<open>add_nodes\<close> failed: it is the
  only operation that fails and leaves a change.
\<close>

section \<open>Runs\<close>

datatype graph_op =
    AddNodes "node list" "edge list"
  | AddEdge edge
  | UpdateNode string json_obj bool expected
  | SetNodesArchived "string list" bool
  | SetEdgesArchived "string list" bool
  | DeleteNodes "string list" bool
  | DeleteEdge string
  | DeleteEdges "string list"
  | UpdateEdge string json_obj
  | WriteNext
  | Flush

fun graph_step :: "graph_config \<Rightarrow> graph_env \<Rightarrow> graph_op \<Rightarrow> graph \<Rightarrow> graph" where
  "graph_step cfg env (AddNodes ns es) g = snd (add_nodes cfg env ns es g)"
| "graph_step cfg env (AddEdge e) g = snd (add_edge cfg env e g)"
| "graph_step cfg env (UpdateNode i u m ex) g = snd (update_node cfg env i u m ex g)"
| "graph_step cfg env (SetNodesArchived is b) g = snd (set_nodes_archived cfg env is b g)"
| "graph_step cfg env (SetEdgesArchived is b) g = snd (set_edges_archived cfg env is b g)"
| "graph_step cfg env (DeleteNodes is c) g = snd (delete_nodes cfg env is c g)"
| "graph_step cfg env (DeleteEdge i) g = snd (delete_edge cfg env i g)"
| "graph_step cfg env (DeleteEdges is) g = snd (delete_edges cfg env is g)"
| "graph_step cfg env (UpdateEdge i u) g = snd (update_edge cfg env i u g)"
| "graph_step cfg env WriteNext g = io_step g"
| "graph_step cfg env Flush g = flush g"

fun run_graph :: "graph_config \<Rightarrow> (graph_env \<times> graph_op) list \<Rightarrow> graph \<Rightarrow> graph" where
  "run_graph cfg [] g = g"
| "run_graph cfg ((env, op) # ops) g = run_graph cfg ops (graph_step cfg env op g)"

text \<open>The arguments are validated models, and the clock tells a time \<open>datetime\<close> can hold.\<close>

fun op_ok :: "graph_op \<Rightarrow> bool" where
  "op_ok (AddNodes ns es) = ((\<forall>n \<in> set ns. node_ok n) \<and> (\<forall>e \<in> set es. edge_ok e))"
| "op_ok (AddEdge e) = edge_ok e"
| "op_ok _ = True"

definition env_ok :: "graph_env \<Rightarrow> bool" where
  "env_ok env \<longleftrightarrow> (\<forall>k. iso_range (gv_now env k))"

definition ops_ok :: "(graph_env \<times> graph_op) list \<Rightarrow> bool" where
  "ops_ok ops \<longleftrightarrow> (\<forall>(env, op) \<in> set ops. env_ok env \<and> op_ok op)"

text \<open>A store opened over no file.\<close>

definition new_graph :: "graph_config \<Rightarrow> datetime \<Rightarrow> graph" where
  "new_graph cfg now = flush (save cfg now (graph_init cfg))"

lemma graph_inv_step:
  assumes "graph_inv cfg g" and "op_ok op" and "env_ok env"
  shows "graph_inv cfg (graph_step cfg env op g)"
  using assms graph_inv_add_nodes graph_inv_add_edge graph_inv_update_node graph_inv_set_nodes_archived
    graph_inv_set_edges_archived graph_inv_delete_nodes graph_inv_delete_edge graph_inv_delete_edges
    graph_inv_update_edge graph_inv_cong [OF same_content_steps(10)] graph_inv_cong [OF same_content_steps(11)]
  by (cases op) (simp_all add: env_ok_def)

lemma run_graph_append: "run_graph cfg (ops @ ops') g = run_graph cfg ops' (run_graph cfg ops g)"
  by (induction cfg ops g rule: run_graph.induct) auto

lemma graph_inv_run: "graph_inv cfg g \<Longrightarrow> ops_ok ops \<Longrightarrow> graph_inv cfg (run_graph cfg ops g)"
  by (induction cfg ops g rule: run_graph.induct) (auto simp: ops_ok_def graph_inv_step)

lemma graph_inv_new: "graph_inv cfg (new_graph cfg now)"
  using graph_inv_init graph_inv_cong [OF same_content_steps(1)] graph_inv_cong [OF same_content_steps(10)]
  by (simp add: new_graph_def)

text \<open>The embeddings sent by callers have the model's dimension \<open>d\<close>.\<close>

fun op_dims :: "nat \<Rightarrow> graph_op \<Rightarrow> bool" where
  "op_dims d (AddNodes ns es) = (\<forall>n \<in> set ns. emb_ok d n)"
| "op_dims d _ = True"

definition ops_dims :: "nat \<Rightarrow> (graph_env \<times> graph_op) list \<Rightarrow> bool" where
  "ops_dims d ops \<longleftrightarrow> (\<forall>(env, op) \<in> set ops. op_dims d op)"

lemma dims_new: "dims d (new_graph cfg now)"
  by (simp add: dims_def new_graph_def flush_def save_def graph_init_def)

lemma dims_archived:
  assumes "dims d g"
  shows "dims d (snd (set_nodes_archived cfg env is b g))" "dims d (snd (set_edges_archived cfg env is b g))"
proof -
  obtain found ch g' where l: "set_nodes_archived_loop env 1 is b g = (found, ch, g')" by (metis prod_cases3)
  then have "dims d g'" using dims_nodes_archived_loop [OF assms, of env 1 "is" b] by simp
  then show "dims d (snd (set_nodes_archived cfg env is b g))"
    using dims_cong [OF same_dims_steps(1)] by (simp add: set_nodes_archived_def l del: One_nat_def)
  obtain found' ch' g1 where l': "set_edges_archived_loop env is b g = (found', ch', g1)" by (metis prod_cases3)
  then have "dims d g1" using dims_cong [OF same_dims_edges_archived_loop] assms by (metis snd_conv)
  then show "dims d (snd (set_edges_archived cfg env is b g))"
    using dims_cong [OF same_dims_steps(1)] by (simp add: set_edges_archived_def l')
qed

lemma dims_step:
  assumes "embeds cfg d" and "graph_inv cfg g" and "dims d g" and "op_dims d op"
  shows "dims d (graph_step cfg env op g)"
  using assms dims_cong [OF same_dims_steps(10)] dims_cong [OF same_dims_steps(11)]
  by (cases op) (simp_all add: dims_add_nodes dims_add_edge dims_update_node dims_update_edge dims_archived
    dims_delete_nodes dims_delete_edges dims_delete_edge)

section \<open>What the file will hold\<close>

text \<open>The document that is on disk once the queue is empty.\<close>

definition latest :: "graph \<Rightarrow> json_obj option" where
  "latest g = (if g_pending g = [] then g_disk g else Some (last (g_pending g)))"

definition saved :: "graph_config \<Rightarrow> graph \<Rightarrow> bool" where
  "saved cfg g \<longleftrightarrow> (\<exists>now. latest g = Some (graph_to_dict cfg now g))"

lemma disk_flush: "g_disk (flush g) = latest g"
  by (simp add: flush_def latest_def)

text \<open>The parts of the state the document and the queue are made of.\<close>

definition same_file :: "graph \<Rightarrow> graph \<Rightarrow> bool" where
  "same_file g g' \<longleftrightarrow> g_nodes g' = g_nodes g \<and> g_edges g' = g_edges g \<and> g_metadata g' = g_metadata g \<and>
     latest g' = latest g"

lemma same_file_trans: "same_file g g1 \<Longrightarrow> same_file g1 g2 \<Longrightarrow> same_file g g2"
  by (simp add: same_file_def)

lemma same_file_steps [simp]:
  "same_file g (emit_event env ty kind i t b a g)"
  "same_file g (node_event env ty b n g)" "same_file g (edge_event env ty b e g)"
  "same_file g (emit_created_node env g i)" "same_file g (emit_created_edge env g i)"
  "same_file g (emit_deleted_node env g p)" "same_file g (emit_deleted_edge env g q)"
  "same_file g (flush g)" "same_file g (io_step g)"
  by (auto simp: same_file_def graph_defs Let_def emit_created_node_def emit_created_edge_def latest_def
      emit_deleted_node_def emit_deleted_edge_def flush_def io_step_def split: option.split list.split prod.split)

lemma same_file_refl [simp]: "same_file g g"
  by (simp add: same_file_def)

lemma same_file_foldl: "(\<And>g x. same_file g (f g x)) \<Longrightarrow> same_file g (foldl f g xs)"
  by (induction xs arbitrary: g) (auto intro: same_file_trans)

lemma saved_cong: "same_file g g' \<Longrightarrow> saved cfg g' = saved cfg g"
  by (simp add: same_file_def saved_def graph_to_dict_def)

lemma saved_save: "saved cfg (save cfg now g)"
  by (auto simp: saved_def save_def latest_def graph_to_dict_def)

lemma saved_new: "saved cfg (new_graph cfg now)"
  using saved_cong [OF same_file_steps(8)] saved_save by (simp add: new_graph_def)

lemma saved_after [intro]: "same_file (save cfg now g) g' \<Longrightarrow> saved cfg g'"
  using saved_cong saved_save by blast

lemma saved_event [simp]:
  "saved cfg (node_event env ty b n (save cfg now g))" "saved cfg (edge_event env ty b e (save cfg now g))"
  "saved cfg (emit_deleted_edge env (save cfg now g) p)"
  by (rule saved_after [OF same_file_steps(2)] saved_after [OF same_file_steps(3)]
      saved_after [OF same_file_steps(7)])+

text \<open>Only a failed \<open>add_nodes\<close> leaves the file behind the graph.\<close>

fun step_fails :: "graph_config \<Rightarrow> graph_env \<Rightarrow> graph_op \<Rightarrow> graph \<Rightarrow> bool" where
  "step_fails cfg env (AddNodes ns es) g = (case add_nodes cfg env ns es g of (Inl _, _) \<Rightarrow> True | _ \<Rightarrow> False)"
| "step_fails cfg env _ g = False"

fun run_fails :: "graph_config \<Rightarrow> (graph_env \<times> graph_op) list \<Rightarrow> graph \<Rightarrow> bool" where
  "run_fails cfg [] g = False"
| "run_fails cfg ((env, op) # ops) g =
     (step_fails cfg env op g \<or> run_fails cfg ops (graph_step cfg env op g))"

lemma add_nodes_unfold:
  assumes "add_nodes cfg env ns es g = (Inr r, g')"
  obtains g1 g2 g3 added where "add_nodes_loop cfg ns g = (None, g1)"
    "g2 = save cfg (gv_now env 0) (embed_nodes cfg ns g1)" "add_edges_loop cfg (name_to_id g2) es g2 = (Inr added, g3)"
    "g' = foldl (emit_created_edge env) (foldl (emit_created_node env) (save cfg (gv_now env 1) g3) (map nd_id ns)) added"
  using assms by (auto simp: add_nodes_def Let_def split: prod.splits option.splits sum.splits)

lemma nodes_archived_same: "set_nodes_archived_loop env k is b g = (found, False, g') \<Longrightarrow> g' = g"
proof (induction env k "is" b g arbitrary: found g' rule: set_nodes_archived_loop.induct)
  case (2 env k i "is" b g)
  show ?case
  proof (cases "map_of (g_nodes g) i")
    case (Some x)
    show ?thesis
    proof (cases "nd_archived x = b")
      case True
      then show ?thesis using "2.IH"(2) [OF Some True] "2.prems" by (auto simp: Some split: prod.splits)
    next
      case False
      then show ?thesis using "2.prems" by (simp add: Some Let_def split: prod.splits)
    qed
  qed (use "2.IH"(1) "2.prems" in simp)
qed simp

lemma edges_archived_same: "set_edges_archived_loop env is b g = (found, False, g') \<Longrightarrow> g' = g"
proof (induction env "is" b g arbitrary: found g' rule: set_edges_archived_loop.induct)
  case (2 env i "is" b g)
  show ?case
  proof (cases "map_of (g_edges g) i")
    case (Some x)
    show ?thesis
    proof (cases "ed_archived x = b")
      case True
      then show ?thesis using "2.IH"(2) [OF Some True] "2.prems" by (auto simp: Some split: prod.splits)
    next
      case False
      then show ?thesis using "2.prems" by (simp add: Some Let_def split: prod.splits)
    qed
  qed (use "2.IH"(1) "2.prems" in simp)
qed simp

lemma saved_add_nodes:
  assumes "add_nodes cfg env ns es g = (Inr r, g')"
  shows "saved cfg g'"
proof -
  have "same_file g0 (foldl (emit_created_edge env) (foldl (emit_created_node env) g0 xs) ys)" for g0 xs ys
    by (rule same_file_trans [OF same_file_foldl same_file_foldl]) simp_all
  with assms show ?thesis by (auto elim!: add_nodes_unfold)
qed

lemma saved_step:
  assumes inv: "graph_inv cfg g" and d: "dims d g" and s: "saved cfg g" and f: "\<not> step_fails cfg env op g"
  shows "saved cfg (graph_step cfg env op g)"
proof (cases op)
  case (AddNodes ns es)
  with f obtain r g' where r: "add_nodes cfg env ns es g = (Inr r, g')" by (auto split: prod.splits sum.splits)
  then show ?thesis using saved_add_nodes by (simp add: AddNodes)
next
  case (SetNodesArchived "is" b)
  obtain found ch g' where l: "set_nodes_archived_loop env 1 is b g = (found, ch, g')" by (metis prod_cases3)
  then show ?thesis using s saved_save nodes_archived_same [of env 1 "is" b g found g']
    by (cases ch) (auto simp: SetNodesArchived set_nodes_archived_def simp del: One_nat_def)
next
  case (SetEdgesArchived "is" b)
  obtain found ch g' where l: "set_edges_archived_loop env is b g = (found, ch, g')" by (metis prod_cases3)
  then show ?thesis using s saved_save edges_archived_same [of env "is" b g found g']
    by (cases ch) (auto simp: SetEdgesArchived set_edges_archived_def)
next
  case (DeleteNodes "is" b)
  obtain ns es g' where l: "delete_nodes_loop is g = (ns, es, True, g')" and v: "g_vectors g' = g_vectors g"
    using delete_nodes_loop_effect [OF inv] by blast
  have "same_file g0 (foldl (emit_deleted_node env) (foldl (emit_deleted_edge env) g0 es) ns)" for g0
    by (rule same_file_trans [OF same_file_foldl same_file_foldl]) simp_all
  moreover have "stackable (foldl dict_del (g_vectors g') (map fst ns))"
    using vectors_stackable [OF d] v by simp
  ultimately show ?thesis using s by (auto simp: DeleteNodes delete_nodes_def l Let_def)
next
  case (DeleteEdges "is")
  have "same_file g0 (foldl (emit_deleted_edge env) g0 es)" for g0 es by (rule same_file_foldl) simp
  then show ?thesis by (auto simp: DeleteEdges delete_edges_def split: prod.split)
next
  case WriteNext
  then show ?thesis using s saved_cong [OF same_file_steps(9)] by simp
next
  case Flush
  then show ?thesis using s saved_cong [OF same_file_steps(8)] by simp
qed (use s in \<open>auto simp: add_edge_def update_node_def delete_edge_def update_edge_def Let_def
    split: option.split sum.split\<close>)

lemma saved_run:
  "embeds cfg d \<Longrightarrow> graph_inv cfg g \<Longrightarrow> dims d g \<Longrightarrow> ops_ok ops \<Longrightarrow> ops_dims d ops \<Longrightarrow> saved cfg g \<Longrightarrow>
   \<not> run_fails cfg ops g \<Longrightarrow> saved cfg (run_graph cfg ops g)"
  by (induction cfg ops g rule: run_graph.induct)
    (auto simp: ops_ok_def ops_dims_def graph_inv_step saved_step dims_step)

lemma dims_run:
  "embeds cfg d \<Longrightarrow> graph_inv cfg g \<Longrightarrow> dims d g \<Longrightarrow> ops_ok ops \<Longrightarrow> ops_dims d ops \<Longrightarrow> dims d (run_graph cfg ops g)"
  by (induction cfg ops g rule: run_graph.induct) (auto simp: ops_ok_def ops_dims_def graph_inv_step dims_step)

section \<open>Loading what was saved\<close>

lemma objs_map [simp]: "objs (map (\<lambda>x. JObj (f x)) xs) = Some (map f xs)"
  by (induction xs) simp_all

lemma read_all_nodes:
  "\<forall>n \<in> set ns. node_ok n \<Longrightarrow> read_all (\<lambda>k. node_from_dict (fr k)) m (map node_to_dict ns) = Some ns"
  by (induction ns arbitrary: m) (simp_all add: node_roundtrip)

lemma read_all_edges:
  "\<forall>e \<in> set es. edge_ok e \<Longrightarrow> read_all (\<lambda>k. edge_from_dict (fr k)) m (map edge_to_dict es) = Some es"
  by (induction es arbitrary: m) (simp_all add: edge_roundtrip)

lemma put_node_fields:
  "g_nodes (put_node cfg n g) = dict_set (g_nodes g) (nd_id n) n"
  "g_edges (put_node cfg n g) = g_edges g" "g_metadata (put_node cfg n g) = g_metadata g"
  "g_events (put_node cfg n g) = g_events g" "g_vectors (put_node cfg n g) = g_vectors g"
  "g_pending (put_node cfg n g) = g_pending g" "g_disk (put_node cfg n g) = g_disk g"
  by (simp_all add: put_node_def net_add_node_def Let_def)

lemma put_edge_fields:
  "g_edges (put_edge e g) = dict_set (g_edges g) (ed_id e) e"
  "g_text (put_edge e g) = g_text g" "g_metadata (put_edge e g) = g_metadata g"
  "g_events (put_edge e g) = g_events g" "g_vectors (put_edge e g) = g_vectors g"
  "g_pending (put_edge e g) = g_pending g" "g_disk (put_edge e g) = g_disk g"
  by (simp_all add: put_edge_def net_add_edge_def net_add_node_def Let_def)

lemma dict_set_new: "k \<notin> fst ` set d \<Longrightarrow> dict_set d k v = d @ [(k, v)]"
  by (induction d) auto

lemma put_nodes:
  "graph_inv cfg g \<Longrightarrow> \<forall>n \<in> set ns. node_ok n \<Longrightarrow> distinct (map nd_id ns) \<Longrightarrow>
   \<forall>n \<in> set ns. \<not> known_node g (nd_id n) \<Longrightarrow>
   graph_inv cfg (foldl (\<lambda>g n. put_node cfg n g) g ns) \<and>
   g_nodes (foldl (\<lambda>g n. put_node cfg n g) g ns) = g_nodes g @ map (\<lambda>n. (nd_id n, n)) ns \<and>
   g_edges (foldl (\<lambda>g n. put_node cfg n g) g ns) = g_edges g"
proof (induction ns arbitrary: g)
  case (Cons n ns)
  have new: "g_nodes (put_node cfg n g) = g_nodes g @ [(nd_id n, n)]"
    using Cons.prems(4) by (simp add: put_node_fields dict_set_new known_node_def)
  have "\<forall>m \<in> set ns. \<not> known_node (put_node cfg n g) (nd_id m)"
    using Cons.prems(3,4) by (auto simp: known_node_def new) (metis image_eqI)
  then show ?case
    using Cons.IH [OF graph_inv_put_node [OF Cons.prems(1), of n]] Cons.prems by (simp add: new put_node_fields(2))
qed simp

lemma put_edges:
  "graph_inv cfg g \<Longrightarrow> \<forall>e \<in> set es. edge_ok e \<and> known_node g (ed_source e) \<and> known_node g (ed_target e) \<and>
     edge_applicable cfg g e \<Longrightarrow> distinct (map ed_id es) \<Longrightarrow>
   \<forall>e \<in> set es. ed_id e \<notin> fst ` set (g_edges g) \<Longrightarrow>
   graph_inv cfg (foldl (\<lambda>g e. put_edge e g) g es) \<and>
   g_edges (foldl (\<lambda>g e. put_edge e g) g es) = g_edges g @ map (\<lambda>e. (ed_id e, e)) es \<and>
   g_nodes (foldl (\<lambda>g e. put_edge e g) g es) = g_nodes g"
proof (induction es arbitrary: g)
  case (Cons e es)
  have new: "g_edges (put_edge e g) = g_edges g @ [(ed_id e, e)]"
    using Cons.prems(4) by (simp add: put_edge_fields dict_set_new)
  have "graph_inv cfg (put_edge e g)" using Cons.prems by (intro graph_inv_put_edge) auto
  moreover have "\<forall>x \<in> set es. edge_ok x \<and> known_node (put_edge e g) (ed_source x) \<and>
      known_node (put_edge e g) (ed_target x) \<and> edge_applicable cfg (put_edge e g) x"
    using Cons.prems(2) applicable_cong [OF put_edge_nodes] by (simp add: known_node_def)
  moreover have "\<forall>x \<in> set es. ed_id x \<notin> fst ` set (g_edges (put_edge e g))"
    using Cons.prems(3,4) by (simp add: new) (metis image_eqI)
  ultimately show ?case using Cons.IH [of "put_edge e g"] Cons.prems(3) by (simp add: new)
qed simp

lemma dict_by_id: "\<forall>(k, x) \<in> set d. f x = k \<Longrightarrow> map (\<lambda>x. (f x, x)) (dict_values d) = d"
  by (induction d) auto

text \<open>A document written from a store with the invariant is read back as that store.\<close>

lemma rebuild_index_dims:
  assumes "\<forall>n \<in> set ns. emb_ok d n"
  shows "\<exists>v. rebuild_index ns = Some v"
proof -
  have "\<forall>p \<in> set (foldl (\<lambda>d n. case nd_embedding n of Some e \<Rightarrow> dict_set d (nd_id n) e | None \<Rightarrow> d) v ns). length (snd p) = d"
    if "\<forall>p \<in> set v. length (snd p) = d" for v
    using that assms
  proof (induction ns arbitrary: v)
    case (Cons n ns)
    have "\<forall>p \<in> set (case nd_embedding n of Some e \<Rightarrow> dict_set v (nd_id n) e | None \<Rightarrow> v). length (snd p) = d"
      using Cons.prems by (auto simp: emb_ok_def split: option.split dest!: set_dict_set)
    from Cons.IH [OF this] Cons.prems(2) show ?case by simp
  qed simp
  from this [of "[]"] show ?thesis using stackable_dims by (simp add: rebuild_index_def Let_def)
qed

lemma load_stacked:
  assumes inv: "graph_inv cfg g" and index: "rebuild_index (dict_values (g_nodes g)) = Some v"
  shows "\<exists>g'. load_graph cfg fr (graph_to_dict cfg now g) g0 = Some g' \<and> g_nodes g' = g_nodes g \<and>
    g_edges g' = g_edges g \<and> graph_inv cfg g'"
proof -
  let ?d = "graph_to_dict cfg now g"
  obtain ns es where vs: "dict_values (g_nodes g) = ns" "dict_values (g_edges g) = es" by blast
  have dk: "distinct (dict_keys (g_nodes g))" and dke: "distinct (dict_keys (g_edges g))"
    using inv by (simp_all add: inv_defs)
  have n: "nd_id n = i \<and> node_ok n" if "(i, n) \<in> set (g_nodes g)" for i n
    using inv iffD1 [OF dict_item [OF dk] that] unfolding graph_inv_def nodes_inv_def by blast
  have e: "ed_id e = i \<and> edge_ok e \<and> known_node g (ed_source e) \<and> known_node g (ed_target e) \<and> edge_applicable cfg g e"
    if "(i, e) \<in> set (g_edges g)" for i e
    using inv iffD1 [OF dict_item [OF dke] that] unfolding graph_inv_def edges_inv_def by blast
  have ns: "map (\<lambda>n. (nd_id n, n)) ns = g_nodes g" and es: "map (\<lambda>e. (ed_id e, e)) es = g_edges g"
    unfolding vs [symmetric] by (rule dict_by_id, use n e in blast)+
  have "map fst (map (\<lambda>n. (nd_id n, n)) ns) = map nd_id ns" "map fst (map (\<lambda>e. (ed_id e, e)) es) = map ed_id es"
    by simp_all
  with dk dke have ids: "distinct (map nd_id ns)" "distinct (map ed_id es)" by (simp_all only: ns es)
  have nok: "\<forall>n \<in> set ns. node_ok n" using n unfolding vs [symmetric] by force
  have eok: "\<forall>e \<in> set es. edge_ok e \<and> known_node g (ed_source e) \<and> known_node g (ed_target e) \<and> edge_applicable cfg g e"
    using e unfolding vs [symmetric] by force
  let ?g1 = "g0\<lparr>g_nodes := [], g_edges := [], g_net_nodes := [], g_net_edges := [], g_text := [],
      g_metadata := load_metadata cfg ?d\<rparr>"
  let ?g2 = "foldl (\<lambda>g n. put_node cfg n g) ?g1 ns"
  let ?g3 = "foldl (\<lambda>g e. put_edge e g) ?g2 es"
  have "graph_inv cfg ?g1" by (simp add: inv_defs)
  then have g2: "graph_inv cfg ?g2" "g_nodes ?g2 = g_nodes g" "g_edges ?g2 = []"
    using put_nodes [of cfg ?g1 ns] nok ids ns by (simp_all add: known_node_def)
  then have g3: "graph_inv cfg ?g3" "g_nodes ?g3 = g_nodes g" "g_edges ?g3 = g_edges g"
    using put_edges [of cfg ?g2 es] eok ids es applicable_cong [OF g2(2)] by (simp_all add: known_node_def)
  have v: "rebuild_index ns = Some v" using index vs by simp
  have rn: "read_all (\<lambda>k. node_from_dict (fr k)) 0 (map node_to_dict ns) = Some ns"
    using read_all_nodes [OF nok] .
  have re: "read_all (\<lambda>k. edge_from_dict (fr k)) (length ns) (map edge_to_dict es) = Some es"
    by (rule read_all_edges) (use eok in blast)
  have "list_of ?d ''nodes'' = Some (map node_to_dict ns)" "list_of ?d ''edges'' = Some (map edge_to_dict es)"
    by (simp_all add: list_of_def graph_to_dict_def get_default_def vs)
  then have "load_graph cfg fr ?d g0 = Some (?g3\<lparr>g_vectors := v\<rparr>)"
    using rn re ids v by (simp add: load_graph_def Let_def)
  with g3 graph_inv_cong [OF same_content_steps(9)] show ?thesis by simp
qed

lemma load_saved:
  assumes "graph_inv cfg g" and d: "dims d g"
  shows "\<exists>g'. load_graph cfg fr (graph_to_dict cfg now g) g0 = Some g' \<and> g_nodes g' = g_nodes g \<and>
    g_edges g' = g_edges g \<and> graph_inv cfg g'"
proof -
  obtain v where "rebuild_index (dict_values (g_nodes g)) = Some v"
    using rebuild_index_dims [of "dict_values (g_nodes g)" d] d unfolding dims_def by auto
  from load_stacked [OF assms(1) this] show ?thesis .
qed

text \<open>The index stacks when the embeddings are of one length.\<close>

lemma stackable_iff: "stackable d \<longleftrightarrow> (\<forall>v \<in> set (dict_values d). \<forall>w \<in> set (dict_values d). length v = length w)"
proof (cases "dict_values d")
  case (Cons e es)
  then show ?thesis by (simp add: stackable_def list_all_iff) metis
qed (simp add: stackable_def)

definition embeddings :: "node list \<Rightarrow> (string, rat list) dict" where
  "embeddings ns = concat (map (\<lambda>n. case nd_embedding n of None \<Rightarrow> [] | Some e \<Rightarrow> [(nd_id n, e)]) ns)"

lemma rebuild_index_embeddings:
  assumes "distinct (map nd_id ns)"
  shows "rebuild_index ns = (if stackable (embeddings ns) then Some (embeddings ns) else None)"
proof -
  have "foldl (\<lambda>d n. case nd_embedding n of Some e \<Rightarrow> dict_set d (nd_id n) e | None \<Rightarrow> d) v ns = v @ embeddings ns"
    if "\<forall>n \<in> set ns. nd_id n \<notin> set (dict_keys v)" for v
    using that assms
  proof (induction ns arbitrary: v)
    case (Cons n ns)
    define v' where "v' = (case nd_embedding n of None \<Rightarrow> v | Some e \<Rightarrow> dict_set v (nd_id n) e)"
    have v': "v' = v @ embeddings [n]"
      using Cons.prems(1) by (simp add: v'_def embeddings_def dict_set_absent split: option.split)
    then have "\<forall>m \<in> set ns. nd_id m \<notin> set (dict_keys v')"
      using Cons.prems by (auto simp: embeddings_def image_iff split: option.splits)
    from Cons.IH [OF this] Cons.prems(2) v' show ?case
      by (simp add: embeddings_def flip: v'_def)
  qed (simp add: embeddings_def)
  from this [of "[]"] show ?thesis by (simp add: rebuild_index_def Let_def)
qed

lemma embeddings_values: "e \<in> set (dict_values (embeddings ns)) \<longleftrightarrow> (\<exists>n \<in> set ns. nd_embedding n = Some e)"
  by (force simp: embeddings_def split: option.splits)

end
