(* ===== verification/GraphLog.thy ===== *)
theory GraphLog
  imports GraphHistory
begin

text \<open>
  The event history against the graph: an observer that only reads the events and keeps what each
  entity is after its last one holds exactly the nodes and edges of the store.
\<close>

definition observe :: "entity_kind \<Rightarrow> (string \<Rightarrow> json_obj option) \<Rightarrow> graph_event \<Rightarrow> (string \<Rightarrow> json_obj option)" where
  "observe kind m ev = (if ge_kind ev = kind then m(ge_id ev := ge_after ev) else m)"

definition observed :: "entity_kind \<Rightarrow> graph_event list \<Rightarrow> string \<Rightarrow> json_obj option" where
  "observed kind evs = foldl (observe kind) (\<lambda>_. None) evs"

definition nodes_view :: "graph \<Rightarrow> string \<Rightarrow> json_obj option" where
  "nodes_view g i = map_option node_to_dict (map_of (g_nodes g) i)"

definition edges_view :: "graph \<Rightarrow> string \<Rightarrow> json_obj option" where
  "edges_view g i = map_option edge_to_dict (map_of (g_edges g) i)"

definition logged :: "graph \<Rightarrow> bool" where
  "logged g \<longleftrightarrow> observed NODE (g_events g) = nodes_view g \<and> observed EDGE (g_events g) = edges_view g"

lemma observed_snoc [simp]: "observed kind (evs @ [ev]) = observe kind (observed kind evs) ev"
  by (simp add: observed_def)

section \<open>One event\<close>

lemma emit_event_fields [simp]:
  "g_nodes (emit_event env ty kind i t b a g) = g_nodes g" "g_edges (emit_event env ty kind i t b a g) = g_edges g"
  by (simp_all add: emit_event_def Let_def)

lemma node_event_fields [simp]:
  "g_nodes (node_event env ty b n g) = g_nodes g" "g_edges (node_event env ty b n g) = g_edges g"
  "g_nodes (edge_event env ty b e g) = g_nodes g" "g_edges (edge_event env ty b e g) = g_edges g"
  by (simp_all add: node_event_def edge_event_def)

lemma save_fields [simp]:
  "g_nodes (save cfg now g) = g_nodes g" "g_edges (save cfg now g) = g_edges g" "g_events (save cfg now g) = g_events g"
  by (simp_all add: save_def)

lemma observed_emit [simp]:
  "observed kind (g_events (emit_event env ty kind' i t b a g)) =
     (if kind' = kind then (observed kind (g_events g))(i := a) else observed kind (g_events g))"
  by (simp add: emit_event_def Let_def observe_def)

lemma observed_node_event [simp]:
  "observed NODE (g_events (node_event env ty b n g)) = (observed NODE (g_events g))(nd_id n := Some (node_to_dict n))"
  "observed EDGE (g_events (node_event env ty b n g)) = observed EDGE (g_events g)"
  "observed EDGE (g_events (edge_event env ty b e g)) = (observed EDGE (g_events g))(ed_id e := Some (edge_to_dict e))"
  "observed NODE (g_events (edge_event env ty b e g)) = observed NODE (g_events g)"
  by (simp_all add: node_event_def edge_event_def)

lemma logged_new: "logged (new_graph cfg now)"
  by (simp add: logged_def new_graph_def flush_def graph_init_def observed_def nodes_view_def edges_view_def fun_eq_iff)

lemma logged_save [simp]: "logged (save cfg now g) = logged g"
  by (simp add: logged_def nodes_view_def edges_view_def fun_eq_iff)

section \<open>The events of lists\<close>

lemma observed_deleted_nodes:
  "g_nodes (foldl (emit_deleted_node env) g ns) = g_nodes g \<and> g_edges (foldl (emit_deleted_node env) g ns) = g_edges g \<and>
   observed EDGE (g_events (foldl (emit_deleted_node env) g ns)) = observed EDGE (g_events g) \<and>
   observed NODE (g_events (foldl (emit_deleted_node env) g ns)) =
     (\<lambda>i. if i \<in> fst ` set ns then None else observed NODE (g_events g) i)"
  by (induction ns arbitrary: g) (auto simp: emit_deleted_node_def fun_eq_iff)

lemma observed_deleted_edges:
  "g_nodes (foldl (emit_deleted_edge env) g es) = g_nodes g \<and> g_edges (foldl (emit_deleted_edge env) g es) = g_edges g \<and>
   observed NODE (g_events (foldl (emit_deleted_edge env) g es)) = observed NODE (g_events g) \<and>
   observed EDGE (g_events (foldl (emit_deleted_edge env) g es)) =
     (\<lambda>i. if i \<in> fst ` set es then None else observed EDGE (g_events g) i)"
  by (induction es arbitrary: g) (auto simp: emit_deleted_edge_def fun_eq_iff)

lemma observed_created_nodes:
  assumes "\<forall>i n. map_of (g_nodes g) i = Some n \<longrightarrow> nd_id n = i"
  shows "g_nodes (foldl (emit_created_node env) g is) = g_nodes g \<and> g_edges (foldl (emit_created_node env) g is) = g_edges g \<and>
   observed EDGE (g_events (foldl (emit_created_node env) g is)) = observed EDGE (g_events g) \<and>
   observed NODE (g_events (foldl (emit_created_node env) g is)) =
     (\<lambda>i. if i \<in> set is \<and> map_of (g_nodes g) i \<noteq> None then nodes_view g i else observed NODE (g_events g) i)"
  using assms
  by (induction "is" arbitrary: g)
    (auto simp: emit_created_node_def nodes_view_def fun_eq_iff split: option.split)

lemma observed_created_edges:
  assumes "\<forall>i e. map_of (g_edges g) i = Some e \<longrightarrow> ed_id e = i"
  shows "g_nodes (foldl (emit_created_edge env) g is) = g_nodes g \<and> g_edges (foldl (emit_created_edge env) g is) = g_edges g \<and>
   observed NODE (g_events (foldl (emit_created_edge env) g is)) = observed NODE (g_events g) \<and>
   observed EDGE (g_events (foldl (emit_created_edge env) g is)) =
     (\<lambda>i. if i \<in> set is \<and> map_of (g_edges g) i \<noteq> None then edges_view g i else observed EDGE (g_events g) i)"
  using assms
  by (induction "is" arbitrary: g)
    (auto simp: emit_created_edge_def edges_view_def fun_eq_iff split: option.split)

section \<open>Steps\<close>

lemma add_nodes_loop_effect:
  "add_nodes_loop cfg ns g = (None, g') \<Longrightarrow>
   g_edges g' = g_edges g \<and> g_events g' = g_events g \<and>
   (\<forall>i. i \<notin> nd_id ` set ns \<longrightarrow> map_of (g_nodes g') i = map_of (g_nodes g) i) \<and>
   (\<forall>i. map_of (g_nodes g) i \<noteq> None \<or> i \<in> nd_id ` set ns \<longrightarrow> map_of (g_nodes g') i \<noteq> None)"
proof (induction cfg ns g rule: add_nodes_loop.induct)
  case (2 cfg n ns g)
  then have "\<not> known_node g (nd_id n)" "add_nodes_loop cfg ns (put_node cfg n g) = (None, g')"
    by (simp_all split: if_splits)
  with "2.IH" show ?case by (simp add: put_node_fields)
qed simp

lemma set_embeddings_effect:
  "g_edges (foldl set_embedding g ps) = g_edges g \<and> g_events (foldl set_embedding g ps) = g_events g \<and>
   (\<forall>i. i \<notin> fst ` set ps \<longrightarrow> map_of (g_nodes (foldl set_embedding g ps)) i = map_of (g_nodes g) i) \<and>
   (\<forall>i. map_of (g_nodes g) i \<noteq> None \<longrightarrow> map_of (g_nodes (foldl set_embedding g ps)) i \<noteq> None)"
proof (induction ps arbitrary: g)
  case (Cons p ps)
  obtain i e where p: "p = (i, e)" by fastforce
  have "g_edges (set_embedding g p) = g_edges g \<and> g_events (set_embedding g p) = g_events g \<and>
     (\<forall>j. j \<noteq> i \<longrightarrow> map_of (g_nodes (set_embedding g p)) j = map_of (g_nodes g) j) \<and>
     (\<forall>j. map_of (g_nodes g) j \<noteq> None \<longrightarrow> map_of (g_nodes (set_embedding g p)) j \<noteq> None)"
    by (simp add: set_embedding_def p split: option.split)
  then show ?case using Cons.IH [of "set_embedding g p"] by (simp add: p)
qed simp

lemma embed_nodes_effect:
  "g_edges (embed_nodes cfg ns g) = g_edges g \<and> g_events (embed_nodes cfg ns g) = g_events g \<and>
   (\<forall>i. i \<notin> nd_id ` set ns \<longrightarrow> map_of (g_nodes (embed_nodes cfg ns g)) i = map_of (g_nodes g) i) \<and>
   (\<forall>i. map_of (g_nodes g) i \<noteq> None \<longrightarrow> map_of (g_nodes (embed_nodes cfg ns g)) i \<noteq> None)"
proof (cases "gc_embed cfg ns")
  case (Some es)
  have "i \<notin> fst ` set (zip (map nd_id ns) es)" if "i \<notin> nd_id ` set ns" for i
    using that by (auto dest: set_zip_leftD)
  then show ?thesis
    using set_embeddings_effect [of g "zip (map nd_id ns) es"] by (simp add: embed_nodes_def Some)
qed (simp add: embed_nodes_def)

lemma add_edges_loop_effect:
  "add_edges_loop cfg names es g = (Inr added, g') \<Longrightarrow>
   g_nodes g' = g_nodes g \<and> g_events g' = g_events g \<and>
   (\<forall>i. i \<notin> set added \<longrightarrow> map_of (g_edges g') i = map_of (g_edges g) i) \<and>
   (\<forall>i. map_of (g_edges g) i \<noteq> None \<or> i \<in> set added \<longrightarrow> map_of (g_edges g') i \<noteq> None)"
proof (induction cfg names es g arbitrary: added g' rule: add_edges_loop.induct)
  case (2 cfg names e es g)
  from "2.prems" obtain s t r where st: "resolve g names (ed_source e) = Some s" "resolve g names (ed_target e) = Some t"
    and ok: "ed_id e \<notin> set (dict_keys (g_edges g))" "edge_applicable cfg g (e\<lparr>ed_source := s, ed_target := t\<rparr>)"
    and r: "add_edges_loop cfg names es (put_edge (e\<lparr>ed_source := s, ed_target := t\<rparr>) g) = (Inr r, g')"
    and a: "added = ed_id e # r"
    by (auto simp: Let_def split: option.splits if_splits prod.splits sum.splits)
  from "2.IH" [OF refl st refl _ _ r] ok show ?case by (simp add: a put_edge_fields)
qed simp

lemma id_of_node: "graph_inv cfg g \<Longrightarrow> map_of (g_nodes g) i = Some n \<Longrightarrow> nd_id n = i"
  by (simp add: graph_inv_def nodes_inv_def)

lemma id_of_edge: "graph_inv cfg g \<Longrightarrow> map_of (g_edges g) i = Some e \<Longrightarrow> ed_id e = i"
  by (simp add: graph_inv_def edges_inv_def)

lemma logged_add_nodes:
  assumes inv: "graph_inv cfg g" and ok: "op_ok (AddNodes ns es)" and l: "logged g"
    and r: "add_nodes cfg env ns es g = (Inr r, g')"
  shows "logged g'"
proof -
  obtain g1 g2 g3 added where s: "add_nodes_loop cfg ns g = (None, g1)"
    "g2 = save cfg (gv_now env 0) (embed_nodes cfg ns g1)" "add_edges_loop cfg (name_to_id g2) es g2 = (Inr added, g3)"
    "g' = foldl (emit_created_edge env) (foldl (emit_created_node env) (save cfg (gv_now env 1) g3) (map nd_id ns)) added"
    using add_nodes_unfold [OF r] by metis
  have i1: "graph_inv cfg g1" using graph_inv_add_nodes_loop [OF inv _ s(1)] ok by simp
  have i2: "graph_inv cfg g2" unfolding s(2) using graph_inv_embed [OF i1] graph_inv_cong [OF same_content_steps(1)] by blast
  have i3: "graph_inv cfg g3" using graph_inv_add_edges_loop [OF i2 _ refl s(3)] ok by simp
  note e1 = add_nodes_loop_effect [OF s(1)] and e2 = embed_nodes_effect [of cfg ns g1]
    and e3 = add_edges_loop_effect [OF s(3)]
  let ?g4 = "foldl (emit_created_node env) (save cfg (gv_now env 1) g3) (map nd_id ns)"
  have n: "g_nodes ?g4 = g_nodes g3 \<and> g_edges ?g4 = g_edges g3 \<and>
     observed EDGE (g_events ?g4) = observed EDGE (g_events g3) \<and>
     observed NODE (g_events ?g4) =
     (\<lambda>i. if i \<in> nd_id ` set ns \<and> map_of (g_nodes g3) i \<noteq> None then nodes_view g3 i else observed NODE (g_events g3) i)"
    using observed_created_nodes [of "save cfg (gv_now env 1) g3" env "map nd_id ns"] id_of_node [OF i3]
    by (simp add: nodes_view_def cong: if_cong)
  have e: "g_nodes g' = g_nodes g3 \<and> g_edges g' = g_edges g3 \<and>
     observed NODE (g_events g') = observed NODE (g_events ?g4) \<and>
     observed EDGE (g_events g') =
     (\<lambda>i. if i \<in> set added \<and> map_of (g_edges g3) i \<noteq> None then edges_view g3 i else observed EDGE (g_events g3) i)"
    using observed_created_edges [of ?g4 env added] id_of_edge [OF i3] n
    by (simp add: s(4) edges_view_def cong: if_cong)
  have ev: "g_events g3 = g_events g" using e1 e2 e3 by (simp add: s(2))
  have "observed NODE (g_events g') i = nodes_view g3 i" for i
  proof (cases "i \<in> nd_id ` set ns")
    case True
    then have "map_of (g_nodes g3) i \<noteq> None" using e1 e2 e3 by (simp add: s(2))
    with True show ?thesis using n e by simp
  next
    case False
    then have "nodes_view g3 i = nodes_view g i" using e1 e2 e3 by (simp add: s(2) nodes_view_def)
    with False show ?thesis using n e l ev by (simp add: logged_def)
  qed
  moreover have "observed EDGE (g_events g') i = edges_view g3 i" for i
  proof (cases "i \<in> set added")
    case True
    then have "map_of (g_edges g3) i \<noteq> None" using e3 by blast
    with True show ?thesis using e by simp
  next
    case False
    then have "edges_view g3 i = edges_view g i" using e1 e2 e3 by (simp add: s(2) edges_view_def)
    with False show ?thesis using e l ev by (simp add: logged_def)
  qed
  ultimately show ?thesis using e by (simp add: logged_def nodes_view_def edges_view_def fun_eq_iff)
qed

lemma logged_add_edge:
  assumes "logged g"
  shows "logged (snd (add_edge cfg env e g))"
  using assms
  by (auto simp: add_edge_def Let_def logged_def put_edge_fields nodes_view_def edges_view_def fun_eq_iff
      split: option.split)

lemma logged_replaced:
  assumes l: "logged g" and e: "g_edges g1 = g_edges g" "g_events g1 = g_events g"
    and o: "\<And>j. j \<noteq> nd_id n \<Longrightarrow> map_of (g_nodes g1) j = map_of (g_nodes g) j"
    and n: "map_of (g_nodes g1) (nd_id n) = Some n"
  shows "logged (node_event env ty b n (save cfg now g1))" "logged (node_event env ty b n g1)"
  using assms by (auto simp: logged_def nodes_view_def edges_view_def fun_eq_iff)

lemma logged_update_node:
  assumes inv: "graph_inv cfg g" and now: "env_ok env" and l: "logged g"
  shows "logged (snd (update_node cfg env i updates merge ex g))"
proof (cases "map_of (g_nodes g) i")
  case (Some n)
  have id: "node_ok n" "nd_id n = i" using inv Some by (auto simp: inv_defs)
  have "logged (node_event env NODE_UPDATE b (case map_of (g_nodes g2) i of Some m \<Rightarrow> m | None \<Rightarrow> n') (save cfg t g2))"
    if v: "node_from_dict fr d = Some v" and n': "n' = apply_validated n v (gv_now env 0)"
      and g2: "g2 = (if ch then embed_nodes cfg [n'] (replace_node cfg n' g) else replace_node cfg n' g)"
    for fr d v n' g2 ch b t
  proof -
    let ?g1 = "replace_node cfg n' g"
    have i': "nd_id n' = i" by (simp add: n' id)
    have i1: "graph_inv cfg ?g1"
      using apply_validated_ok [OF id(1) v] now i' by (intro graph_inv_replace_node [OF inv Some]) (simp_all add: n' env_ok_def)
    then have i2: "graph_inv cfg g2" using graph_inv_embed g2 by simp
    have f: "g_edges g2 = g_edges g" "g_events g2 = g_events g"
      using embed_nodes_effect [of cfg "[n']" ?g1] by (simp_all add: g2 replace_node_def)
    have o: "map_of (g_nodes g2) j = map_of (g_nodes g) j" if "j \<noteq> i" for j
      using that embed_nodes_effect [of cfg "[n']" ?g1] i' by (simp add: g2 replace_node_def)
    have "map_of (g_nodes g2) i \<noteq> None"
      using embed_nodes_effect [of cfg "[n']" ?g1] i' by (simp add: g2 replace_node_def)
    then obtain m where m: "map_of (g_nodes g2) i = Some m" by blast
    then show ?thesis using id_of_node [OF i2 m] o f by (simp add: logged_replaced [OF l])
  qed
  then show ?thesis using l by (simp add: update_node_def Some Let_def split: option.split sum.split)
qed (use l in \<open>simp add: update_node_def\<close>)

lemma logged_update_edge:
  assumes inv: "graph_inv cfg g" and l: "logged g"
  shows "logged (snd (update_edge cfg env i updates g))"
proof (cases "map_of (g_edges g) i")
  case (Some e)
  then show ?thesis
    using l id_of_edge [OF inv Some]
    by (auto simp: update_edge_def Let_def logged_def nodes_view_def edges_view_def fun_eq_iff split: option.split)
qed (use l in \<open>simp add: update_edge_def\<close>)

lemma logged_set_nodes_archived:
  assumes inv: "graph_inv cfg g" and l: "logged g"
  shows "logged (snd (set_nodes_archived cfg env is b g))"
proof -
  have loop: "logged g'"
    if "set_nodes_archived_loop env k is b g = (found, ch, g')" "logged g"
      "\<forall>i n. map_of (g_nodes g) i = Some n \<longrightarrow> nd_id n = i" for k found ch g' g
    using that
  proof (induction env k "is" b g arbitrary: found ch g' rule: set_nodes_archived_loop.induct)
    case (2 env k i "is" b g)
    show ?case
    proof (cases "map_of (g_nodes g) i")
      case (Some n)
      show ?thesis
      proof (cases "nd_archived n = b")
        case True
        then show ?thesis using "2.IH"(2) [OF Some True] "2.prems" by (auto simp: Some split: prod.splits)
      next
        case False
        let ?n = "n\<lparr>nd_archived := b, nd_updated_at := gv_now env k\<rparr>"
        let ?g = "node_event env NODE_UPDATE (Some (node_to_dict n)) ?n (g\<lparr>g_nodes := dict_set (g_nodes g) i ?n\<rparr>)"
        have id: "nd_id ?n = i" using "2.prems"(3) Some by simp
        have "logged ?g" by (rule logged_replaced [OF "2.prems"(2)]) (use id in simp_all)
        moreover have "\<forall>j m. map_of (g_nodes ?g) j = Some m \<longrightarrow> nd_id m = j" using "2.prems"(3) id by simp
        ultimately show ?thesis using "2.IH"(3) [OF Some False refl refl] "2.prems"(1)
          by (auto simp: Some False Let_def split: prod.splits)
      qed
    qed (use "2.IH"(1) "2.prems" in simp)
  qed simp
  obtain found ch g' where r: "set_nodes_archived_loop env 1 is b g = (found, ch, g')" by (metis prod_cases3)
  from loop [OF r l] id_of_node [OF inv] have "logged g'" by blast
  then show ?thesis by (simp add: set_nodes_archived_def r del: One_nat_def)
qed

lemma logged_set_edges_archived:
  assumes inv: "graph_inv cfg g" and l: "logged g"
  shows "logged (snd (set_edges_archived cfg env is b g))"
proof -
  have loop: "logged g'"
    if "set_edges_archived_loop env is b g = (found, ch, g')" "logged g"
      "\<forall>i e. map_of (g_edges g) i = Some e \<longrightarrow> ed_id e = i" for found ch g' g
    using that
  proof (induction env "is" b g arbitrary: found ch g' rule: set_edges_archived_loop.induct)
    case (2 env i "is" b g)
    show ?case
    proof (cases "map_of (g_edges g) i")
      case (Some e)
      show ?thesis
      proof (cases "ed_archived e = b")
        case True
        then show ?thesis using "2.IH"(2) [OF Some True] "2.prems" by (auto simp: Some split: prod.splits)
      next
        case False
        let ?e = "e\<lparr>ed_archived := b\<rparr>"
        let ?g = "edge_event env EDGE_UPDATE (Some (edge_to_dict e)) ?e (g\<lparr>g_edges := dict_set (g_edges g) i ?e\<rparr>)"
        have id: "ed_id ?e = i" using "2.prems"(3) Some by simp
        have "logged ?g" using "2.prems"(2) id by (auto simp: logged_def nodes_view_def edges_view_def fun_eq_iff)
        moreover have "\<forall>j m. map_of (g_edges ?g) j = Some m \<longrightarrow> ed_id m = j" using "2.prems"(3) id by simp
        ultimately show ?thesis using "2.IH"(3) [OF Some False refl refl] "2.prems"(1)
          by (auto simp: Some False Let_def split: prod.splits)
      qed
    qed (use "2.IH"(1) "2.prems" in simp)
  qed simp
  obtain found ch g' where r: "set_edges_archived_loop env is b g = (found, ch, g')" by (metis prod_cases3)
  from loop [OF r l] id_of_edge [OF inv] have "logged g'" by blast
  then show ?thesis by (simp add: set_edges_archived_def r)
qed

text \<open>What is gone is what the delete events name.\<close>

lemma logged_gone:
  assumes l: "logged g" and ev: "g_events g1 = g_events g"
    and n: "\<And>i. map_of (g_nodes g1) i = (if i \<in> fst ` set ns then None else map_of (g_nodes g) i)"
    and e: "\<And>i. map_of (g_edges g1) i = (if i \<in> fst ` set es then None else map_of (g_edges g) i)"
  shows "logged (foldl (emit_deleted_node env) (foldl (emit_deleted_edge env) g1 es) ns)"
proof -
  let ?g2 = "foldl (emit_deleted_edge env) g1 es"
  have views: "nodes_view g1 i = (if i \<in> fst ` set ns then None else nodes_view g i)"
    "edges_view g1 i = (if i \<in> fst ` set es then None else edges_view g i)" for i
    using n e by (simp_all add: nodes_view_def edges_view_def)
  show ?thesis
    using l observed_deleted_edges [of env g1 es] observed_deleted_nodes [of env ?g2 ns]
    by (simp add: logged_def ev views nodes_view_def [of "foldl _ _ _"] edges_view_def [of "foldl _ _ _"] fun_eq_iff
        flip: nodes_view_def edges_view_def cong: if_cong)
qed

lemma logged_delete_nodes:
  assumes inv: "graph_inv cfg g" and d: "dims d g" and l: "logged g"
  shows "logged (snd (delete_nodes cfg env is b g))"
proof -
  obtain ns es g' where r: "delete_nodes_loop is g = (ns, es, True, g')" and "graph_inv cfg g'"
    and ns: "set ns = {p \<in> set (g_nodes g). fst p \<in> set is}"
    and n: "g_nodes g' = filter (\<lambda>(k, n). k \<notin> set is) (g_nodes g)"
    and e: "g_edges g' = filter (\<lambda>(k, e). \<not> (\<exists>i \<in> set is. incident i e)) (g_edges g)"
    and es: "set es = {p \<in> set (g_edges g). \<exists>i \<in> set is. incident i (snd p)}" and ev: "g_events g' = g_events g"
    and v: "g_vectors g' = g_vectors g"
    using delete_nodes_loop_effect [OF inv, of "is"] by blast
  have dk: "distinct (dict_keys (g_nodes g))" and dke: "distinct (dict_keys (g_edges g))"
    using inv by (simp_all add: inv_defs)
  have nodes: "map_of (g_nodes g') i = (if i \<in> fst ` set ns then None else map_of (g_nodes g) i)" for i
    using dict_item [OF dk, of i]
    by (auto simp: n ns map_of_filter_edges [OF dk] image_iff split: option.split)
  have edges: "map_of (g_edges g') i = (if i \<in> fst ` set es then None else map_of (g_edges g) i)" for i
    using dict_item [OF dke, of i]
    by (auto simp: e es map_of_filter_edges [OF dke] image_iff split: option.split)
  have "logged (foldl (emit_deleted_node env) (foldl (emit_deleted_edge env)
      (save cfg t (g'\<lparr>g_vectors := vs\<rparr>)) es) ns)" for t vs
    by (rule logged_gone [OF l]) (simp_all add: ev nodes edges)
  moreover have "stackable (foldl dict_del (g_vectors g') (map fst ns))" using vectors_stackable [OF d] v by simp
  ultimately show ?thesis using l by (simp add: delete_nodes_def r Let_def)
qed

lemma take_edge_fields:
  "g_nodes (take_edge i e g) = g_nodes g" "g_events (take_edge i e g) = g_events g"
  "g_edges (take_edge i e g) = dict_del (g_edges g) i"
  by (simp_all add: take_edge_def drop_edge_def net_remove_edge_def Let_def)

lemma delete_edges_loop_effect:
  "delete_edges_loop is g = (es, g') \<Longrightarrow>
   g_nodes g' = g_nodes g \<and> g_events g' = g_events g \<and>
   (\<forall>i. map_of (g_edges g') i = (if i \<in> fst ` set es then None else map_of (g_edges g) i))"
proof (induction "is" g arbitrary: es g' rule: delete_edges_loop.induct)
  case (2 i "is" g)
  show ?case
  proof (cases "map_of (g_edges g) i")
    case None
    then have "delete_edges_loop is g = (es, g')" using "2.prems" by simp
    from "2.IH"(1) [OF None this] show ?thesis .
  next
    case (Some e)
    obtain es1 where r: "delete_edges_loop is (take_edge i e g) = (es1, g')" "es = (i, e) # es1"
      using "2.prems" by (auto simp: Some split: prod.splits)
    from "2.IH"(2) [OF Some r(1)] show ?thesis by (auto simp: r(2) take_edge_fields)
  qed
qed simp

lemma logged_delete_edges:
  assumes l: "logged g"
  shows "logged (snd (delete_edges cfg env is g))"
proof -
  obtain es g' where r: "delete_edges_loop is g = (es, g')" by fastforce
  have "logged (foldl (emit_deleted_node env) (foldl (emit_deleted_edge env) (save cfg t g') es) [])" for t
    by (rule logged_gone [OF l]) (simp_all add: delete_edges_loop_effect [OF r])
  then show ?thesis by (simp add: delete_edges_def r)
qed

lemma logged_delete_edge:
  assumes l: "logged g"
  shows "logged (snd (delete_edge cfg env i g))"
proof (cases "map_of (g_edges g) i")
  case (Some e)
  have "logged (foldl (emit_deleted_node env) (foldl (emit_deleted_edge env) (save cfg t (take_edge i e g)) [(i, e)]) [])" for t
    by (rule logged_gone [OF l]) (simp_all add: take_edge_fields)
  then show ?thesis by (simp add: delete_edge_def Some)
qed (use l in \<open>simp add: delete_edge_def\<close>)

lemma logged_cong:
  "g_nodes g' = g_nodes g \<Longrightarrow> g_edges g' = g_edges g \<Longrightarrow> g_events g' = g_events g \<Longrightarrow> logged g' = logged g"
  by (simp add: logged_def nodes_view_def fun_eq_iff edges_view_def)

lemma io_fields:
  "g_nodes (io_step g) = g_nodes g" "g_edges (io_step g) = g_edges g" "g_events (io_step g) = g_events g"
  "g_nodes (flush g) = g_nodes g" "g_edges (flush g) = g_edges g" "g_events (flush g) = g_events g"
  by (simp_all add: io_step_def flush_def split: list.split)

lemma logged_step:
  assumes "graph_inv cfg g" and "op_ok op" and "env_ok env" and "logged g" and "\<not> step_fails cfg env op g"
    and "dims d g"
  shows "logged (graph_step cfg env op g)"
proof (cases op)
  case (AddNodes ns es)
  with assms(5) obtain r g' where r: "add_nodes cfg env ns es g = (Inr r, g')" by (auto split: prod.splits sum.splits)
  then show ?thesis using logged_add_nodes [OF assms(1) _ assms(4)] assms(2) by (simp add: AddNodes)
next
  case WriteNext
  then show ?thesis using assms(4) logged_cong [OF io_fields(1-3)] by simp
next
  case Flush
  then show ?thesis using assms(4) logged_cong [OF io_fields(4-6)] by simp
qed (simp_all add: assms logged_add_edge logged_update_node logged_update_edge logged_set_nodes_archived
    logged_set_edges_archived logged_delete_nodes [where d = d] logged_delete_edge logged_delete_edges)

lemma logged_run:
  "embeds cfg d \<Longrightarrow> graph_inv cfg g \<Longrightarrow> dims d g \<Longrightarrow> ops_ok ops \<Longrightarrow> ops_dims d ops \<Longrightarrow> logged g \<Longrightarrow>
   \<not> run_fails cfg ops g \<Longrightarrow> logged (run_graph cfg ops g)"
  by (induction cfg ops g rule: run_graph.induct)
    (auto simp: ops_ok_def ops_dims_def graph_inv_step logged_step dims_step)

end
