(* ===== verification/GraphDemo.thy ===== *)
theory GraphDemo
  imports GraphLog
begin

text \<open>A small configuration and a run of it, the concrete inputs of the graph properties' witnesses.\<close>

definition demo_graph_config :: graph_config where
  "demo_graph_config =
     \<lparr>gc_relationships = [(''PRODUCES'', \<lparr>rr_source_types = [''Actor''], rr_target_types = [''*'']\<rparr>)],
      gc_node_labels = [(''Actor'', [(''sv'', ''Aktor'')])], gc_default_name = ''Graph'',
      gc_embed = (\<lambda>ns. Some (map (\<lambda>n. [1]) ns))\<rparr>"

definition demo_graph_env :: graph_env where
  "demo_graph_env = \<lparr>gv_now = (\<lambda>k. 0), gv_context = None\<rparr>"

definition demo_node :: "string \<Rightarrow> string \<Rightarrow> string \<Rightarrow> node" where
  "demo_node i ty name =
     \<lparr>nd_id = i, nd_type = node_type_of ty, nd_name = name, nd_description = '''', nd_summary = '''',
      nd_tags = [], nd_subtypes = [], nd_aliases = [''AKA''], nd_metadata = [], nd_archived = False,
      nd_embedding = None, nd_created_at = 0, nd_updated_at = 0\<rparr>"

definition demo_edge :: "string \<Rightarrow> string \<Rightarrow> string \<Rightarrow> edge" where
  "demo_edge i s t =
     \<lparr>ed_id = i, ed_source = s, ed_target = t, ed_type = edge_type_of ''PRODUCES'', ed_label = '''',
      ed_metadata = [], ed_archived = False, ed_created_at = 0\<rparr>"

text \<open>Two nodes and an edge that names its ends by name, and what is done to them.\<close>

definition demo_add :: graph_op where
  "demo_add = AddNodes [demo_node ''a'' ''Actor'' ''Alpha'', demo_node ''b'' ''Theme'' ''Beta''] [demo_edge ''e'' ''Alpha'' ''b'']"

definition demo_ops :: "(graph_env \<times> graph_op) list" where
  "demo_ops = map (Pair demo_graph_env)
     [demo_add, WriteNext, UpdateNode ''a'' [(''name'', JStr ''Gamma''), (''rank'', JInt 1)] True NoGuard,
      AddEdge (demo_edge ''f'' ''b'' ''a''), SetNodesArchived [''b''] True, DeleteNodes [''b'', ''c''] True]"

definition demo_graph :: graph where
  "demo_graph = graph_step demo_graph_config demo_graph_env demo_add (new_graph demo_graph_config 0)"

lemmas demo_graph_defs = demo_graph_config_def demo_graph_env_def demo_node_def demo_edge_def demo_add_def

lemma demo_nodes_ok: "node_ok (demo_node ''a'' ''Actor'' ''Alpha'')" "node_ok (demo_node ''b'' ''Theme'' ''Beta'')"
  by (simp_all add: demo_node_def node_ok_def node_type_of_def node_kinds_def type_ok_def limit_list_text_def
      LIST_FIELD_TOTAL_LIMIT_def LIST_FIELD_ITEM_LIMIT_def iso_range_def)

lemma demo_edges_ok: "edge_ok (demo_edge i s t)"
  by (simp add: demo_edge_def edge_ok_def edge_type_of_def relationship_kinds_def edge_type_ok_def iso_range_def)

lemma demo_env_ok: "env_ok demo_graph_env"
  by (simp add: env_ok_def demo_graph_env_def iso_range_def)

lemma demo_ops_ok: "ops_ok demo_ops"
  by (simp add: ops_ok_def demo_ops_def demo_add_def demo_env_ok demo_nodes_ok demo_edges_ok)

lemma demo_add_succeeds:
  "add_nodes demo_graph_config demo_graph_env [demo_node ''a'' ''Actor'' ''Alpha'', demo_node ''b'' ''Theme'' ''Beta'']
     [demo_edge ''e'' ''Alpha'' ''b''] (new_graph demo_graph_config 0) = (Inr ([''a'', ''b''], [''e'']), demo_graph)"
  by (simp add: demo_graph_def demo_graph_defs add_nodes_def new_graph_def graph_init_def flush_def save_def Let_def
     put_node_def put_edge_def net_add_node_def net_add_edge_def known_node_def embed_nodes_def set_embedding_def
     resolve_def name_to_id_def edge_applicable_def relationship_type_allows_node_types_def
     node_type_of_def node_kinds_def edge_type_of_def relationship_kinds_def)

lemma demo_ops_run: "\<not> run_fails demo_graph_config demo_ops (new_graph demo_graph_config 0)"
  using demo_add_succeeds by (simp add: demo_ops_def demo_add_def)

lemma demo_embeds: "embeds demo_graph_config 1"
  by (simp add: embeds_def demo_graph_config_def)

lemma demo_ops_dims: "ops_dims 1 demo_ops"
  by (simp add: ops_dims_def demo_ops_def demo_add_def demo_node_def emb_ok_def)

end
