(* ===== verification/GraphProps.thy ===== *)
theory GraphProps
  imports GraphDemo
begin

text \<open>The properties of the graph store, with their witnesses.\<close>

section \<open>Every run\<close>

lemma audit_empty:
  assumes inv: "graph_inv cfg g"
  shows "audit_relationship_applicability cfg g = []"
proof -
  have "distinct (dict_keys (g_edges g))" using inv by (simp add: inv_defs)
  then have "audit_edge cfg g e = []" if "(k, e) \<in> set (g_edges g)" for k e
    using inv iffD1 [OF dict_item that] unfolding graph_inv_def edges_inv_def known_map
    by (auto simp: audit_edge_def Let_def)
  then show ?thesis by (auto simp: audit_relationship_applicability_def)
qed

text \<open>C21: in every run of the graph store from an empty file, whatever the operations answer, the
networkx graph holds exactly the nodes and the edges of the dictionaries, the cache holds the
searchable text of every node and of nothing else, and the audit of the relationship rules finds no
edge with a missing end and none whose type does not admit its ends.\<close>

theorem mirrors_agree:
  fixes cfg :: graph_config and now :: datetime
  assumes "ops_ok ops"
  defines "g \<equiv> run_graph cfg ops (new_graph cfg now)"
  shows "set (g_net_nodes g) = set (dict_keys (g_nodes g)) \<and>
    (\<forall>s t k. (s, t, k) \<in> set (g_net_edges g) \<longleftrightarrow>
       (\<exists>e. map_of (g_edges g) k = Some e \<and> ed_source e = s \<and> ed_target e = t)) \<and>
    (\<forall>i. map_of (g_text g) i = map_option (build_searchable_text cfg) (map_of (g_nodes g) i)) \<and>
    audit_relationship_applicability cfg g = []"
proof -
  have "graph_inv cfg g" unfolding g_def using graph_inv_run [OF graph_inv_new assms(1)] .
  then show ?thesis using audit_empty unfolding graph_inv_def net_inv_def text_inv_def by blast
qed

theorem mirrors_agree_witness:
  "audit_relationship_applicability demo_graph_config (run_graph demo_graph_config demo_ops (new_graph demo_graph_config 0)) = []"
  using mirrors_agree [OF demo_ops_ok, of demo_graph_config 0] by simp

text \<open>C23: every node and edge a run can store is a value the pydantic models accept: it keeps the
limits of its fields, is filed under its own id, and the dict it is stored as is read back as the
same node or edge.\<close>

theorem stored_values_are_valid:
  fixes cfg :: graph_config and now :: datetime
  assumes "ops_ok ops"
  defines "g \<equiv> run_graph cfg ops (new_graph cfg now)"
  shows "(\<forall>i n. map_of (g_nodes g) i = Some n \<longrightarrow>
      nd_id n = i \<and> node_ok n \<and> node_from_dict fr (node_to_dict n) = Some n) \<and>
    (\<forall>i e. map_of (g_edges g) i = Some e \<longrightarrow>
      ed_id e = i \<and> edge_ok e \<and> edge_from_dict fr (edge_to_dict e) = Some e)"
proof -
  have "graph_inv cfg g" unfolding g_def using graph_inv_run [OF graph_inv_new assms(1)] .
  then show ?thesis
    using node_roundtrip edge_roundtrip unfolding graph_inv_def nodes_inv_def edges_inv_def by blast
qed

theorem stored_values_are_valid_witness:
  "case map_of (g_nodes (run_graph demo_graph_config demo_ops (new_graph demo_graph_config 0))) ''a'' of
     None \<Rightarrow> True | Some n \<Rightarrow> nd_id n = ''a'' \<and> node_ok n"
  using stored_values_are_valid [OF demo_ops_ok, of demo_graph_config 0] by (simp split: option.split)

text \<open>C20: a run in which no \<open>add_nodes\<close> failed, and whose embeddings, the callers' and the model's, are
of one dimension, is durable: the file, once the queued saves are written, opens as a store with the
same nodes and edges in the same order.\<close>

theorem graph_restart:
  fixes cfg :: graph_config and now :: datetime
  assumes "ops_ok ops" and "\<not> run_fails cfg ops (new_graph cfg now)"
    and dims: "embeds cfg d" "ops_dims d ops"
  defines "g \<equiv> run_graph cfg ops (new_graph cfg now)"
  shows "\<exists>g'. open_graph cfg fr now' (g_disk (flush g)) = Some g' \<and> g_nodes g' = g_nodes g \<and>
    g_edges g' = g_edges g \<and> graph_inv cfg g'"
proof -
  have inv: "graph_inv cfg g" unfolding g_def using graph_inv_run [OF graph_inv_new assms(1)] .
  have "saved cfg g" unfolding g_def using saved_run [OF dims(1) graph_inv_new dims_new assms(1) dims(2) saved_new assms(2)] .
  then obtain t where "g_disk (flush g) = Some (graph_to_dict cfg t g)" by (auto simp: saved_def disk_flush)
  moreover have "dims d g" unfolding g_def using dims_run [OF dims(1) graph_inv_new dims_new assms(1) dims(2)] .
  ultimately show ?thesis using load_saved [OF inv] by (simp add: open_graph_def)
qed

theorem graph_restart_witness:
  "\<exists>g'. open_graph demo_graph_config (\<lambda>k. \<lparr>fr_id = [], fr_now = 0\<rparr>) 0
      (g_disk (flush (run_graph demo_graph_config demo_ops (new_graph demo_graph_config 0)))) = Some g' \<and>
    graph_inv demo_graph_config g'"
  using graph_restart [OF demo_ops_ok demo_ops_run demo_embeds demo_ops_dims] by blast

text \<open>C22: after a run in which no \<open>add_nodes\<close> failed, and whose embeddings, the callers' and the
model's, are of one dimension, the event history is complete: an observer who
keeps, for each entity, the \<open>after\<close> of the last event about it holds exactly the nodes and the
edges of the store in their dict form, embeddings, archived flags and cascaded deletions included.
(A failed \<open>add_nodes\<close> leaves nodes that no event tells of, \<open>failed_add_keeps_nodes\<close>.)\<close>

theorem history_replays:
  fixes cfg :: graph_config and now :: datetime
  assumes "ops_ok ops" and "\<not> run_fails cfg ops (new_graph cfg now)"
    and dims: "embeds cfg d" "ops_dims d ops"
  defines "g \<equiv> run_graph cfg ops (new_graph cfg now)"
  shows "observed NODE (g_events g) i = map_option node_to_dict (map_of (g_nodes g) i) \<and>
    observed EDGE (g_events g) i = map_option edge_to_dict (map_of (g_edges g) i)"
proof -
  have "logged g" unfolding g_def using logged_run [OF dims(1) graph_inv_new dims_new assms(1) dims(2) logged_new assms(2)] .
  then show ?thesis by (simp_all add: logged_def nodes_view_def edges_view_def)
qed

theorem history_replays_witness:
  "observed NODE (g_events (run_graph demo_graph_config demo_ops (new_graph demo_graph_config 0))) ''a'' =
   map_option node_to_dict (map_of (g_nodes (run_graph demo_graph_config demo_ops (new_graph demo_graph_config 0))) ''a'')"
  using history_replays [OF demo_ops_ok demo_ops_run demo_embeds demo_ops_dims] by blast

section \<open>Deletion\<close>

text \<open>In a store of a run, with embeddings of one dimension, \<open>delete_nodes\<close> of at most ten confirmed ids removes exactly those
nodes and exactly the edges at one of them, keeps the rest in order, answers with the ids it
removed, each once, and leaves no edge to a node that is gone.\<close>

theorem delete_nodes_exact:
  fixes cfg :: graph_config and now :: datetime
  assumes "ops_ok ops" and "length ids \<le> 10" and dims: "embeds cfg d" "ops_dims d ops"
  defines "g \<equiv> run_graph cfg ops (new_graph cfg now)"
  shows "\<exists>ns es g'. delete_nodes cfg env ids True g = (Inr (ns, es), g') \<and>
    set ns = set (dict_keys (g_nodes g)) \<inter> set ids \<and> distinct ns \<and>
    g_nodes g' = filter (\<lambda>(k, n). k \<notin> set ids) (g_nodes g) \<and>
    g_edges g' = filter (\<lambda>(k, e). ed_source e \<notin> set ids \<and> ed_target e \<notin> set ids) (g_edges g) \<and>
    set es = {k. \<exists>e. map_of (g_edges g) k = Some e \<and> (ed_source e \<in> set ids \<or> ed_target e \<in> set ids)} \<and>
    audit_relationship_applicability cfg g' = []"
proof -
  have inv: "graph_inv cfg g" unfolding g_def using graph_inv_run [OF graph_inv_new assms(1)] .
  have dke: "distinct (dict_keys (g_edges g))" using inv by (simp add: inv_defs)
  obtain ns es g1 where l: "delete_nodes_loop ids g = (ns, es, True, g1)"
    and ns: "set ns = {p \<in> set (g_nodes g). fst p \<in> set ids}" and d: "distinct (map fst ns)"
    and n: "g_nodes g1 = filter (\<lambda>(k, n). k \<notin> set ids) (g_nodes g)"
    and e: "g_edges g1 = filter (\<lambda>(k, e). \<not> (\<exists>i \<in> set ids. incident i e)) (g_edges g)"
    and es: "set es = {p \<in> set (g_edges g). \<exists>i \<in> set ids. incident i (snd p)}" and v: "g_vectors g1 = g_vectors g"
    using delete_nodes_loop_effect [OF inv, of ids] by blast
  have "dims d g" unfolding g_def using dims_run [OF dims(1) graph_inv_new dims_new assms(1) dims(2)] .
  then have st: "stackable (foldl dict_del (g_vectors g1) (map fst ns))" using vectors_stackable v by simp
  let ?g = "save cfg (gv_now env 0) (g1\<lparr>g_vectors := foldl dict_del (g_vectors g1) (map fst ns)\<rparr>)"
  let ?g' = "foldl (emit_deleted_node env) (foldl (emit_deleted_edge env) ?g es) ns"
  have r: "delete_nodes cfg env ids True g = (Inr (map fst ns, map fst es), ?g')"
    using assms(2) st by (simp add: delete_nodes_def l Let_def)
  have f: "g_nodes ?g' = g_nodes g1" "g_edges ?g' = g_edges g1"
    using observed_deleted_nodes [of env "foldl (emit_deleted_edge env) ?g es" ns] observed_deleted_edges [of env ?g es]
    by simp_all
  have "graph_inv cfg ?g'" using graph_inv_delete_nodes [OF inv, of env ids True] by (simp add: r)
  moreover have "g_edges g1 = filter (\<lambda>(k, e). ed_source e \<notin> set ids \<and> ed_target e \<notin> set ids) (g_edges g)"
    unfolding e by (rule filter_cong) (auto simp: incident_def)
  moreover have "set (map fst ns) = set (dict_keys (g_nodes g)) \<inter> set ids" by (auto simp: ns)
  moreover have "set (map fst es) =
      {k. \<exists>e. map_of (g_edges g) k = Some e \<and> (ed_source e \<in> set ids \<or> ed_target e \<in> set ids)}"
  proof -
    have "fst ` set es = {k. \<exists>e. (k, e) \<in> set (g_edges g) \<and> (\<exists>i \<in> set ids. incident i e)}"
      unfolding es by force
    then show ?thesis by (simp add: dict_item [OF dke] incident_def Bex_def conj_disj_distribL ex_disj_distrib)
  qed
  ultimately show ?thesis using r f n d audit_empty by (metis (no_types, lifting))
qed

theorem delete_nodes_exact_witness:
  "\<exists>ns es g'. delete_nodes demo_graph_config demo_graph_env [''a'', ''zz''] True
     (run_graph demo_graph_config demo_ops (new_graph demo_graph_config 0)) = (Inr (ns, es), g') \<and> distinct ns"
  using delete_nodes_exact [OF demo_ops_ok, where ids = "[''a'', ''zz'']" and cfg = demo_graph_config and now = 0
    and env = demo_graph_env, OF _ demo_embeds demo_ops_dims] by auto

section \<open>Updates\<close>

lemma set_embeddings_node:
  "map_of (g_nodes g) i = Some n \<Longrightarrow>
   \<exists>e. map_of (g_nodes (foldl set_embedding g ps)) i = Some (n\<lparr>nd_embedding := e\<rparr>)"
proof (induction ps arbitrary: g n)
  case Nil
  then show ?case by (intro exI [of _ "nd_embedding n"]) simp
next
  case (Cons p ps)
  obtain j v where p: "p = (j, v)" by fastforce
  have "\<exists>e. map_of (g_nodes (set_embedding g p)) i = Some (n\<lparr>nd_embedding := e\<rparr>)"
    using Cons.prems
    by (cases "i = j") (auto simp: set_embedding_def p split: option.split intro: exI [of _ "nd_embedding n"])
  then obtain e where e: "map_of (g_nodes (set_embedding g p)) i = Some (n\<lparr>nd_embedding := e\<rparr>)" by blast
  from Cons.IH [OF e] show ?case by simp
qed

lemma embed_nodes_node:
  "map_of (g_nodes g) i = Some n \<Longrightarrow> \<exists>e. map_of (g_nodes (embed_nodes cfg ns g)) i = Some (n\<lparr>nd_embedding := e\<rparr>)"
  using set_embeddings_node
  by (auto simp: embed_nodes_def split: option.split intro: exI [of _ "nd_embedding n"])

text \<open>What an update that goes through leaves, before its event.\<close>

lemma update_node_effect:
  fixes g :: graph and v :: node and now :: datetime and cfg :: graph_config and ch :: bool
  assumes n: "map_of (g_nodes g) i = Some n" "nd_id n = i"
  defines "n' \<equiv> apply_validated n v now"
  defines "g2 \<equiv> (if ch then embed_nodes cfg [n'] (replace_node cfg n' g) else replace_node cfg n' g)"
  shows "\<exists>e. map_of (g_nodes g2) i = Some (n'\<lparr>nd_embedding := e\<rparr>) \<and>
    (\<forall>j. j \<noteq> i \<longrightarrow> map_of (g_nodes g2) j = map_of (g_nodes g) j) \<and> g_edges g2 = g_edges g"
proof -
  let ?g1 = "replace_node cfg n' g"
  have id: "nd_id n' = i" by (simp add: n'_def n)
  have f: "map_of (g_nodes ?g1) i = Some n'" "g_edges ?g1 = g_edges g"
      "\<And>j. j \<noteq> i \<Longrightarrow> map_of (g_nodes ?g1) j = map_of (g_nodes g) j"
    by (simp_all add: replace_node_def id)
  obtain e where "map_of (g_nodes (embed_nodes cfg [n'] ?g1)) i = Some (n'\<lparr>nd_embedding := e\<rparr>)"
    using embed_nodes_node [OF f(1)] by blast
  then show ?thesis
    using f embed_nodes_effect [of cfg "[n']" ?g1] id
    by (cases ch) (auto simp: g2_def intro: exI [of _ "nd_embedding n'"])
qed

text \<open>C25: \<open>update_node\<close> is all or nothing, and guarded. When it raises, the store is unchanged; when
the caller's \<open>expected_updated_at\<close> is not the node's time it raises; when it returns a node, that
node is in the store under its id with its type, creation time and archived flag as before and the
update's time, and every other node and every edge is untouched.\<close>

theorem update_node_atomic:
  fixes cfg :: graph_config and now :: datetime
  assumes "ops_ok ops" and "env_ok env"
  defines "g \<equiv> run_graph cfg ops (new_graph cfg now)"
  assumes r: "update_node cfg env i updates merge ex g = (r, g')"
  shows "case r of
      Inl err \<Rightarrow> g' = g
    | Inr None \<Rightarrow> g' = g \<and> map_of (g_nodes g) i = None
    | Inr (Some m) \<Rightarrow> (\<exists>n. map_of (g_nodes g) i = Some n \<and> map_of (g_nodes g') i = Some m \<and>
        (\<forall>t. ex = ExpectTime t \<longrightarrow> nd_updated_at n = t) \<and>
        (\<forall>s. ex = ExpectText s \<longrightarrow> parse_datetime s = Some (nd_updated_at n)) \<and>
        nd_id m = i \<and> nd_type m = nd_type n \<and> nd_created_at m = nd_created_at n \<and>
        nd_archived m = nd_archived n \<and> nd_updated_at m = gv_now env 0 \<and>
        (\<forall>j. j \<noteq> i \<longrightarrow> map_of (g_nodes g') j = map_of (g_nodes g) j) \<and> g_edges g' = g_edges g)"
proof -
  have inv: "graph_inv cfg g" unfolding g_def using graph_inv_run [OF graph_inv_new assms(1)] .
  show ?thesis
  proof (cases "map_of (g_nodes g) i")
    case None
    then show ?thesis using r by (auto simp: update_node_def)
  next
    case n: (Some n)
    have id: "nd_id n = i" using id_of_node [OF inv n] .
    have guard: "(\<forall>t. ex = ExpectTime t \<longrightarrow> nd_updated_at n = t) \<and>
        (\<forall>s. ex = ExpectText s \<longrightarrow> parse_datetime s = Some (nd_updated_at n))" if "guard_error n ex = None"
      using that by (auto simp: guard_error_def split: if_splits option.splits)
    show ?thesis
    proof (cases r)
      case (Inl err)
      then show ?thesis using r n by (auto simp: update_node_def Let_def split: option.splits sum.splits)
    next
      case (Inr m)
      obtain d v where ok: "guard_error n ex = None" "candidate merge n updates = Inr d"
          "node_from_dict \<lparr>fr_id = [], fr_now = 0\<rparr> d = Some v"
        using r n Inr by (auto simp: update_node_def Let_def split: option.splits sum.splits)
      let ?n = "apply_validated n v (gv_now env 0)"
      obtain e where e: "map_of (g_nodes (if text_changed updates then embed_nodes cfg [?n] (replace_node cfg ?n g)
            else replace_node cfg ?n g)) i = Some (?n\<lparr>nd_embedding := e\<rparr>)"
          "\<forall>j. j \<noteq> i \<longrightarrow> map_of (g_nodes (if text_changed updates then embed_nodes cfg [?n] (replace_node cfg ?n g)
            else replace_node cfg ?n g)) j = map_of (g_nodes g) j"
          "g_edges (if text_changed updates then embed_nodes cfg [?n] (replace_node cfg ?n g)
            else replace_node cfg ?n g) = g_edges g"
        using update_node_effect [OF n id] by blast
      then show ?thesis
        using r Inr n id guard [OF ok(1)] by (auto simp: update_node_def Let_def ok apply_validated_def)
    qed
  qed
qed

theorem update_node_atomic_witness:
  "case update_node demo_graph_config demo_graph_env ''a'' [] True (ExpectTime 7)
      (run_graph demo_graph_config demo_ops (new_graph demo_graph_config 0)) of
    (Inr (Some m), g') \<Rightarrow> nd_id m = ''a'' | _ \<Rightarrow> True"
  using update_node_atomic [OF demo_ops_ok demo_env_ok, where cfg = demo_graph_config and now = 0 and i = "''a''"
    and updates = "[]" and merge = True and ex = "ExpectTime 7"]
  by (auto split: prod.split sum.split option.split)

section \<open>Failed additions\<close>

lemma add_edges_loop_keeps:
  "add_edges_loop cfg names es g = (r, g') \<Longrightarrow>
   g_nodes g' = g_nodes g \<and> g_events g' = g_events g \<and> g_pending g' = g_pending g \<and> g_disk g' = g_disk g"
proof (induction cfg names es g arbitrary: r g' rule: add_edges_loop.induct)
  case (2 cfg names e es g)
  show ?case
  proof (cases "\<exists>s t. resolve g names (ed_source e) = Some s \<and> resolve g names (ed_target e) = Some t \<and>
      ed_id e \<notin> set (dict_keys (g_edges g)) \<and> edge_applicable cfg g (e\<lparr>ed_source := s, ed_target := t\<rparr>)")
    case True
    then obtain s t where st: "resolve g names (ed_source e) = Some s" "resolve g names (ed_target e) = Some t"
      and ok: "ed_id e \<notin> set (dict_keys (g_edges g))" "edge_applicable cfg g (e\<lparr>ed_source := s, ed_target := t\<rparr>)"
      by blast
    obtain r1 g1 where l: "add_edges_loop cfg names es (put_edge (e\<lparr>ed_source := s, ed_target := t\<rparr>) g) = (r1, g1)"
      by fastforce
    have "g' = g1" using "2.prems" ok by (simp add: st Let_def l split: sum.splits)
    then show ?thesis using "2.IH" [OF refl st refl _ _ l] ok by (simp add: put_edge_fields)
  next
    case False
    then have "g' = g" using "2.prems" by (auto simp: Let_def split: option.splits if_splits)
    then show ?thesis by simp
  qed
qed simp

text \<open>A failed \<open>add_nodes\<close> is not rolled back: when the nodes go in and an edge of the call is then
refused, the caller is told of the error, but every node of the call is in the store and in the last
queued save, and no event tells of them.\<close>

theorem failed_add_keeps_nodes:
  assumes "add_nodes_loop cfg ns g = (None, g1)"
    and "add_nodes cfg env ns es g = (Inl err, g')"
  shows "(\<forall>n \<in> set ns. known_node g' (nd_id n)) \<and> g_events g' = g_events g \<and>
    (\<exists>t h. latest g' = Some (graph_to_dict cfg t h) \<and> g_nodes h = g_nodes g')"
proof -
  let ?g2 = "save cfg (gv_now env 0) (embed_nodes cfg ns g1)"
  have l: "add_edges_loop cfg (name_to_id ?g2) es ?g2 = (Inl err, g')"
    using assms by (simp add: add_nodes_def Let_def split: prod.splits sum.splits)
  note e1 = add_nodes_loop_effect [OF assms(1)] and e2 = embed_nodes_effect [of cfg ns g1]
    and e3 = add_edges_loop_keeps [OF l]
  have "\<forall>n \<in> set ns. known_node g' (nd_id n)" using e1 e2 e3 by (simp add: known_map)
  moreover have "g_events g' = g_events g" using e1 e2 e3 by simp
  moreover have "latest g' = Some (graph_to_dict cfg (gv_now env 0) (embed_nodes cfg ns g1))"
    using e3 by (simp add: latest_def save_def)
  ultimately show ?thesis using e3 by auto
qed

text \<open>One node, and an edge to a node that does not exist.\<close>

definition demo_half :: "(graph_error + string list \<times> string list) \<times> graph" where
  "demo_half = add_nodes demo_graph_config demo_graph_env [demo_node ''a'' ''Actor'' ''Alpha'']
     [demo_edge ''e'' ''a'' ''nowhere''] (new_graph demo_graph_config 0)"

theorem failed_add_keeps_nodes_witness:
  "fst demo_half = Inl (MissingEndpoint ''nowhere'') \<and> known_node (snd demo_half) ''a'' \<and> g_events (snd demo_half) = []"
proof -
  obtain g1 where g1: "add_nodes_loop demo_graph_config [demo_node ''a'' ''Actor'' ''Alpha''] (new_graph demo_graph_config 0) =
      (None, g1)"
    by (simp add: known_node_def new_graph_def flush_def graph_init_def save_def)
  have r: "fst demo_half = Inl (MissingEndpoint ''nowhere'')"
    by (simp add: demo_half_def demo_graph_defs add_nodes_def new_graph_def graph_init_def flush_def save_def Let_def
      put_node_def net_add_node_def known_node_def embed_nodes_def set_embedding_def resolve_def name_to_id_def)
  have "add_nodes demo_graph_config demo_graph_env [demo_node ''a'' ''Actor'' ''Alpha'']
     [demo_edge ''e'' ''a'' ''nowhere''] (new_graph demo_graph_config 0) = (Inl (MissingEndpoint ''nowhere''), snd demo_half)"
    using r by (simp add: demo_half_def prod_eq_iff)
  from failed_add_keeps_nodes [OF g1 this] r show ?thesis
    by (simp add: demo_node_def new_graph_def flush_def graph_init_def save_def)
qed

section \<open>Embeddings of two dimensions\<close>

text \<open>Two successful calls whose callers send embeddings, with no embedding model installed.\<close>

definition ragged_config :: graph_config where
  "ragged_config = demo_graph_config\<lparr>gc_embed := (\<lambda>ns. None)\<rparr>"

definition ragged_ops :: "(graph_env \<times> graph_op) list" where
  "ragged_ops = map (Pair demo_graph_env)
     [AddNodes [demo_node ''a'' ''Actor'' ''Alpha''\<lparr>nd_embedding := Some [1]\<rparr>] [],
      AddNodes [demo_node ''b'' ''Theme'' ''Beta''\<lparr>nd_embedding := Some [1, 1]\<rparr>] []]"

lemma load_not_stackable:
  assumes "Option.bind (list_of data ''nodes'') (read_all (\<lambda>k. node_from_dict (fr k)) 0) = Some ns"
    and "rebuild_index ns = None"
  shows "load_graph cfg fr data g = None"
  using assms(2) by (simp add: load_graph_def assms(1) Let_def Option.bind_eq_None_conv)

lemma read_saved_nodes:
  assumes "\<forall>n \<in> set (dict_values (g_nodes g)). node_ok n"
  shows "Option.bind (list_of (graph_to_dict cfg now g) ''nodes'') (read_all (\<lambda>k. node_from_dict (fr k)) 0) =
    Some (dict_values (g_nodes g))"
proof -
  obtain ns where ns: "dict_values (g_nodes g) = ns" by blast
  then have "list_of (graph_to_dict cfg now g) ''nodes'' = Some (map node_to_dict ns)"
    by (simp add: list_of_def graph_to_dict_def get_default_def)
  moreover have "read_all (\<lambda>k. node_from_dict (fr k)) 0 (map node_to_dict ns) = Some ns"
    by (rule read_all_nodes) (use assms ns in simp)
  ultimately show ?thesis by (simp add: ns)
qed

text \<open>C26: the length of an embedding is not checked when a node comes in, and that decides whether the
file can be read again. After any run and a successful \<open>add_nodes\<close>, the file opens, with the same nodes
and edges, when the embeddings of all nodes are of one length; when two of them differ, no store can
open it any more: loading raises where the vector index stacks the embeddings.\<close>

theorem file_opens_iff_one_length:
  fixes cfg :: graph_config and now t :: datetime
  assumes "ops_ok (ops @ [(env, AddNodes ns es)])"
    and "add_nodes cfg env ns es (run_graph cfg ops (new_graph cfg now)) = (Inr r, g)"
  shows "case open_graph cfg fr t (g_disk (flush g)) of
     None \<Rightarrow> \<exists>i j a b v w. map_of (g_nodes g) i = Some a \<and> map_of (g_nodes g) j = Some b \<and>
       nd_embedding a = Some v \<and> nd_embedding b = Some w \<and> length v \<noteq> length w
   | Some g' \<Rightarrow> g_nodes g' = g_nodes g \<and> g_edges g' = g_edges g \<and>
       (\<forall>i j a b v w. map_of (g_nodes g) i = Some a \<and> map_of (g_nodes g) j = Some b \<and>
         nd_embedding a = Some v \<and> nd_embedding b = Some w \<longrightarrow> length v = length w)"
proof -
  let ?ns = "dict_values (g_nodes g)"
  have "g = run_graph cfg (ops @ [(env, AddNodes ns es)]) (new_graph cfg now)"
    by (simp add: run_graph_append assms(2))
  then have inv: "graph_inv cfg g" using graph_inv_run [OF graph_inv_new assms(1)] by simp
  then have keys: "distinct (dict_keys (g_nodes g))"
    and node: "\<And>i n. map_of (g_nodes g) i = Some n \<Longrightarrow> nd_id n = i \<and> node_ok n"
    by (auto simp: graph_inv_def nodes_inv_def)
  have mem: "n \<in> set ?ns \<longleftrightarrow> (\<exists>i. map_of (g_nodes g) i = Some n)" for n
    using dict_item [OF keys] by force
  have "map nd_id ?ns = dict_keys (g_nodes g)" using node dict_item [OF keys] by auto
  with keys have ids: "distinct (map nd_id ?ns)" by (simp only:)
  have st: "stackable (embeddings ?ns) \<longleftrightarrow> (\<forall>i j a b v w. map_of (g_nodes g) i = Some a \<and>
      map_of (g_nodes g) j = Some b \<and> nd_embedding a = Some v \<and> nd_embedding b = Some w \<longrightarrow> length v = length w)"
    unfolding stackable_iff Ball_def embeddings_values Bex_def mem by blast
  obtain u where u: "latest g = Some (graph_to_dict cfg u g)"
    using saved_add_nodes [OF assms(2)] by (auto simp: saved_def)
  have ok: "\<forall>n \<in> set ?ns. node_ok n" using mem node by blast
  show ?thesis
  proof (cases "stackable (embeddings ?ns)")
    case True
    then have "rebuild_index ?ns = Some (embeddings ?ns)" by (simp add: rebuild_index_embeddings [OF ids])
    from load_stacked [OF inv this] u obtain g' where "open_graph cfg fr t (g_disk (flush g)) = Some g'"
        "g_nodes g' = g_nodes g" "g_edges g' = g_edges g"
      by (fastforce simp: open_graph_def disk_flush)
    with st True show ?thesis by simp
  next
    case False
    then have "rebuild_index ?ns = None" by (simp add: rebuild_index_embeddings [OF ids])
    with load_not_stackable [OF read_saved_nodes [OF ok]] u have "open_graph cfg fr t (g_disk (flush g)) = None"
      by (simp add: open_graph_def disk_flush)
    then show ?thesis using st False by auto
  qed
qed

theorem ragged_embeddings_lock_out:
  "open_graph ragged_config (\<lambda>k. \<lparr>fr_id = [], fr_now = 0\<rparr>) 0
     (g_disk (flush (run_graph ragged_config ragged_ops (new_graph ragged_config 0)))) = None"
proof -
  let ?a = "demo_node ''a'' ''Actor'' ''Alpha''\<lparr>nd_embedding := Some [1]\<rparr>"
  let ?b = "demo_node ''b'' ''Theme'' ''Beta''\<lparr>nd_embedding := Some [1, 1]\<rparr>"
  let ?g0 = "new_graph ragged_config 0" and ?first = "[(demo_graph_env, AddNodes [?a] [])]"
  have "node_ok ?a" "node_ok ?b" using demo_nodes_ok by (simp_all add: node_ok_def)
  then have ok: "ops_ok (?first @ [(demo_graph_env, AddNodes [?b] [])])" by (simp add: ops_ok_def demo_env_ok)
  obtain g1 where g1: "add_nodes ragged_config demo_graph_env [?a] [] ?g0 = (Inr ([''a''], []), g1)" "g_nodes g1 = [(''a'', ?a)]"
    by (simp add: add_nodes_def ragged_config_def demo_graph_defs new_graph_def graph_init_def flush_def save_def Let_def
      put_node_def net_add_node_def known_node_def embed_nodes_def emit_created_node_def)
  obtain g2 where g2: "add_nodes ragged_config demo_graph_env [?b] [] g1 = (Inr ([''b''], []), g2)"
      "g_nodes g2 = [(''a'', ?a), (''b'', ?b)]"
    using g1(2) by (simp add: add_nodes_def ragged_config_def demo_graph_defs save_def Let_def
      put_node_def net_add_node_def known_node_def embed_nodes_def emit_created_node_def)
  have run: "run_graph ragged_config ?first ?g0 = g1" "run_graph ragged_config ragged_ops ?g0 = g2"
    by (simp_all add: ragged_ops_def g1 g2)
  have "map_of (g_nodes g2) ''a'' = Some ?a" "map_of (g_nodes g2) ''b'' = Some ?b" by (simp_all add: g2(2))
  moreover have "nd_embedding ?a = Some [1]" "nd_embedding ?b = Some [1, 1]" "length [1::rat] \<noteq> length [1::rat, 1]"
    by simp_all
  ultimately show ?thesis
    using file_opens_iff_one_length [OF ok, of ragged_config 0 _ g2 "\<lambda>k. \<lparr>fr_id = [], fr_now = 0\<rparr>" 0] run g2(1)
    by (fastforce split: option.splits)
qed

end
