(* ===== verification/GraphSearchProps.thy ===== *)
theory GraphSearchProps
  imports GraphSearch GraphProps
begin

text \<open>The properties of search and traversal, with their witnesses.\<close>

section \<open>Ranking\<close>

lemma name_score_tiers:
  "name_score name q = (if contains q name then name_score name q else 0)"
  "contains q name \<Longrightarrow> 300000 \<le> name_score name q"
  using starts_with_contains by (auto simp: name_score_def)

lemma alias_score_tiers:
  "\<not> list_ex (contains q) as \<Longrightarrow> alias_score as q = 0"
  "list_ex (contains q) as \<Longrightarrow> 200000 \<le> alias_score as q"
  "alias_score as q \<le> 250000"
  using starts_with_contains starts_with_contains [OF starts_with_refl]
  by (auto simp: alias_score_def list_ex_iff)

lemma secondary_scores: "type_score cfg ty q \<le> 700" "tags_score ts q \<le> 500"
  by (simp_all add: type_score_def tags_score_def Let_def)

text \<open>The score keeps its tiers: a node whose name contains the query scores at least 300000; one
that only an alias matches scores at least 200000 and below every name match; one that neither
matches scores at most 1800, whatever its type, tags, subtypes, description and summary add up to.\<close>

theorem score_tiers:
  "(contains q (lower (nd_name n)) \<longrightarrow> 300000 \<le> score_node_match cfg n q) \<and>
   (\<not> contains q (lower (nd_name n)) \<and> list_ex (contains q) (map lower (nd_aliases n)) \<longrightarrow>
      200000 \<le> score_node_match cfg n q \<and> score_node_match cfg n q < 300000) \<and>
   (\<not> contains q (lower (nd_name n)) \<and> \<not> list_ex (contains q) (map lower (nd_aliases n)) \<longrightarrow>
      score_node_match cfg n q \<le> 1800)"
proof -
  let ?as = "map lower (nd_aliases n)" and ?name = "lower (nd_name n)"
  define s where "s = type_score cfg (nd_type n) q + tags_score (map lower (nd_tags n)) q +
    (if list_ex (\<lambda>s. contains q (lower s)) (nd_subtypes n) then 400 else 0) +
    (if contains q (lower (nd_description n)) \<or> contains q (lower (nd_summary n)) then 200 else 0)"
  have s: "s \<le> 1800"
    using secondary_scores(1) [of cfg "nd_type n" q] secondary_scores(2) [of "map lower (nd_tags n)" q] by (simp add: s_def)
  have score: "score_node_match cfg n q = max (name_score ?name q) (alias_score ?as q) + s"
    by (simp add: score_node_match_def s_def)
  show ?thesis
    using s score name_score_tiers [where name = ?name and q = q] alias_score_tiers [where q = q and as = ?as] by auto
qed

theorem score_tiers_witness:
  "200000 \<le> score_node_match demo_graph_config (demo_node ''a'' ''Actor'' ''Alpha'') ''aka''"
proof -
  have "\<not> contains ''aka'' (lower (nd_name (demo_node ''a'' ''Actor'' ''Alpha'')))"
    "list_ex (contains ''aka'') (map lower (nd_aliases (demo_node ''a'' ''Actor'' ''Alpha'')))"
    by code_simp+
  then show ?thesis using score_tiers [of "''aka''" "demo_node ''a'' ''Actor'' ''Alpha''" demo_graph_config] by blast
qed

section \<open>What a search returns\<close>

text \<open>How a search ranks a node: its best term's score, then the number of terms it matches.\<close>

definition search_rank :: "graph_config \<Rightarrow> string list \<Rightarrow> node \<Rightarrow> nat \<times> nat" where
  "search_rank cfg terms n =
     (let hits = filter (\<lambda>w. contains w (build_searchable_text cfg n)) terms in (best_score cfg n hits, length hits))"

definition matches :: "graph_config \<Rightarrow> string list \<Rightarrow> node \<Rightarrow> bool" where
  "matches cfg terms n \<longleftrightarrow> (\<exists>w \<in> set terms. contains w (build_searchable_text cfg n))"

lemma cache_text_present:
  assumes "\<forall>n \<in> set ns. nd_id n \<in> set (dict_keys c)"
  shows "foldl (cache_text cfg) c ns = c"
  using assms by (induction ns) (simp_all add: cache_text_def)

lemma ranked_sorted:
  "sorted_wrt (\<lambda>a b. key b \<le> key a) (sort_key (\<lambda>n. (- int (fst (key n)), - int (snd (key n)))) ns)"
proof -
  let ?k = "\<lambda>n. (- int (fst (key n)), - int (snd (key n)))"
  have "sorted (map ?k (sort_key ?k ns))" by (rule sorted_sort_key)
  then have "sorted_wrt (\<lambda>a b. ?k a \<le> ?k b) (sort_key ?k ns)" by (simp add: sorted_map)
  then show ?thesis
    by (rule sorted_wrt_mono_rel [rotated]) (auto simp: less_eq_prod_def)
qed

text \<open>In a store of a run, a search with a query is sound, complete and ranked: up to \<open>limit\<close>, it
returns exactly the nodes of a wanted type, not archived unless asked for, whose searchable text
contains a term, each once, the best ranked first; and it leaves the store as it was, for every text
it needs is cached.\<close>

theorem search_exact:
  fixes cfg :: graph_config and now :: datetime and query :: string
  assumes "ops_ok ops" and mode: "mode \<in> set MATCH_MODES"
  defines "g \<equiv> run_graph cfg ops (new_graph cfg now)" and "q \<equiv> strip (lower query)"
  assumes q: "\<not> match_all q"
  shows "\<exists>full. search_nodes cfg query types limit arch mode g = (Some (take_to limit full), g) \<and>
    set full = {n \<in> set (dict_values (g_nodes g)). selected types arch n \<and> matches cfg (query_terms mode q) n} \<and>
    distinct full \<and>
    sorted_wrt (\<lambda>a b. search_rank cfg (query_terms mode q) b \<le> search_rank cfg (query_terms mode q) a) full"
proof -
  let ?terms = "query_terms mode q" and ?ns = "filter (selected types arch) (dict_values (g_nodes g))"
  have inv: "graph_inv cfg g" unfolding g_def using graph_inv_run [OF graph_inv_new assms(1)] .
  have dk: "distinct (dict_keys (g_nodes g))" using inv by (simp add: inv_defs)
  have node: "map_of (g_nodes g) (nd_id n) = Some n" if n: "n \<in> set (dict_values (g_nodes g))" for n
  proof -
    obtain p where p: "n = snd p" "p \<in> set (g_nodes g)" using n unfolding set_map by (rule imageE)
    have "map_of (g_nodes g) (fst p) = Some n" using iffD1 [OF dict_item [OF dk], of "fst p" n] p by simp
    with id_of_node [OF inv this] show ?thesis by simp
  qed
  then have cached: "map_of (g_text g) (nd_id n) = Some (build_searchable_text cfg n)"
    if "n \<in> set (dict_values (g_nodes g))" for n
    using that inv by (simp add: graph_inv_def text_inv_def)
  have "\<forall>n \<in> set ?ns. nd_id n \<in> set (dict_keys (g_text g))"
  proof
    fix n assume "n \<in> set ?ns"
    then have "map_of (g_text g) (nd_id n) \<noteq> None" using cached by simp
    then show "nd_id n \<in> set (dict_keys (g_text g))" using map_of_None_keys by metis
  qed
  then have cache: "foldl (cache_text cfg) (g_text g) ?ns = g_text g" by (rule cache_text_present)
  let ?hits = "matched_terms (g_text g) ?terms"
  let ?found = "filter (\<lambda>n. ?hits n \<noteq> []) ?ns"
  have hits: "?hits n = filter (\<lambda>w. contains w (build_searchable_text cfg n)) ?terms" if "n \<in> set ?ns" for n
    using that cached by (simp add: matched_terms_def)
  have rank: "search_rank cfg ?terms n = (best_score cfg n (?hits n), length (?hits n))" if "n \<in> set ?ns" for n
    using hits [OF that] by (simp add: search_rank_def Let_def)
  let ?full = "sort_ranked cfg ?hits ?found"
  have "sort_ranked cfg ?hits ?found =
      sort_key (\<lambda>n. (- int (fst (search_rank cfg ?terms n)), - int (snd (search_rank cfg ?terms n)))) ?found"
    unfolding sort_ranked_def by (rule sort_key_cong_order) (simp add: rank)
  then have sorted: "sorted_wrt (\<lambda>a b. search_rank cfg ?terms b \<le> search_rank cfg ?terms a) ?full"
    using ranked_sorted [of "search_rank cfg ?terms"] by simp
  have "search_nodes cfg query types limit arch mode g = (Some (take_to limit ?full), g)"
    using mode q cache by (simp add: search_nodes_def Let_def flip: q_def)
  moreover have "set ?full = {n \<in> set (dict_values (g_nodes g)). selected types arch n \<and> matches cfg ?terms n}"
  proof -
    have "?hits n \<noteq> [] \<longleftrightarrow> matches cfg ?terms n" if "n \<in> set ?ns" for n
      by (simp only: hits [OF that] matches_def filter_empty_conv) blast
    then show ?thesis by (auto simp: sort_ranked_def)
  qed
  moreover have vals: "distinct (dict_values (g_nodes g))"
  proof -
    have key: "nd_id n = k" if "(k, n) \<in> set (g_nodes g)" for k n
      using id_of_node [OF inv iffD1 [OF dict_item [OF dk] that]] .
    have "inj_on snd (set (g_nodes g))"
    proof (rule inj_onI)
      fix p p' assume "p \<in> set (g_nodes g)" "p' \<in> set (g_nodes g)" "snd p = snd p'"
      then show "p = p'" by (metis key prod.collapse)
    qed
    with dk show ?thesis by (simp add: distinct_map)
  qed
  from vals have "distinct ?full" by (simp add: sort_ranked_def)
  ultimately show ?thesis using sorted by blast
qed

theorem search_exact_witness:
  "\<exists>full. search_nodes demo_graph_config ''alpha'' [] 5 False ''any_term''
      (run_graph demo_graph_config demo_ops (new_graph demo_graph_config 0)) =
    (Some (take_to 5 full), run_graph demo_graph_config demo_ops (new_graph demo_graph_config 0)) \<and> distinct full"
proof -
  have m: "\<not> match_all (strip (lower ''alpha''))" by code_simp
  show ?thesis
    using search_exact [OF demo_ops_ok _ m, where mode = "''any_term''" and cfg = demo_graph_config and now = 0
      and types = "[]" and limit = 5 and arch = False] by (auto simp: MATCH_MODES_def)
qed

section \<open>What a traversal reaches\<close>

text \<open>Breadth-first search over any adjacency: \<open>edge_to adj\<close> is one hop.\<close>

definition hop :: "(string \<Rightarrow> (string \<times> string) list) \<Rightarrow> (string \<times> string) set" where
  "hop adj = {(c, v). \<exists>k. (k, v) \<in> set (adj c)}"

lemma visit_all:
  "set (tr_nodes (foldl visit tr kvs)) = set (tr_nodes tr) \<union> snd ` set kvs \<and>
   set (tr_edges (foldl visit tr kvs)) = set (tr_edges tr) \<union> fst ` set kvs \<and>
   (set (tr_next tr) \<subseteq> set (tr_nodes tr) \<longrightarrow>
     set (tr_next (foldl visit tr kvs)) = set (tr_next tr) \<union> (snd ` set kvs - set (tr_nodes tr)))"
proof (induction kvs arbitrary: tr)
  case (Cons kv kvs)
  obtain k v where kv: "kv = (k, v)" by fastforce
  have one: "set (tr_nodes (visit tr kv)) = insert v (set (tr_nodes tr))"
    "set (tr_edges (visit tr kv)) = insert k (set (tr_edges tr))"
    "set (tr_next (visit tr kv)) = set (tr_next tr) \<union> ({v} - set (tr_nodes tr))"
    by (auto simp: visit_def kv Let_def)
  have sub: "set (tr_next tr) \<subseteq> set (tr_nodes tr) \<longrightarrow> set (tr_next (visit tr kv)) \<subseteq> set (tr_nodes (visit tr kv))"
    using one by auto
  have step: "foldl visit tr (kv # kvs) = foldl visit (visit tr kv) kvs" by simp
  show ?case unfolding step using Cons.IH [of "visit tr kv"] one sub by (auto simp: kv)
qed simp

lemma visit_layer:
  fixes adj :: "string \<Rightarrow> (string \<times> string) list" and cs :: "string list"
  assumes "set (tr_next tr) \<subseteq> set (tr_nodes tr)"
  defines "tr' \<equiv> foldl (\<lambda>tr c. foldl visit tr (adj c)) tr cs"
  shows "set (tr_nodes tr') = set (tr_nodes tr) \<union> hop adj `` set cs \<and>
    set (tr_edges tr') = set (tr_edges tr) \<union> (\<Union>c \<in> set cs. fst ` set (adj c)) \<and>
    set (tr_next tr') = set (tr_next tr) \<union> (hop adj `` set cs - set (tr_nodes tr))"
  using assms(1) unfolding tr'_def
proof (induction cs arbitrary: tr)
  case (Cons c cs)
  let ?tr = "foldl visit tr (adj c)"
  have snd: "snd ` set (adj c) = hop adj `` {c}" by (force simp: hop_def)
  note one = visit_all [of tr "adj c", unfolded snd]
  have sub: "set (tr_next ?tr) \<subseteq> set (tr_nodes ?tr)" using one Cons.prems by auto
  have step: "foldl (\<lambda>tr c. foldl visit tr (adj c)) tr (c # cs) = foldl (\<lambda>tr c. foldl visit tr (adj c)) ?tr cs" by simp
  have un: "hop adj `` set (c # cs) = hop adj `` {c} \<union> hop adj `` set cs" by auto
  show ?case unfolding step un using Cons.IH [OF sub] one Cons.prems by auto
qed auto

text \<open>Nodes that are not in the current layer have had their edges followed.\<close>

definition expanded :: "(string \<Rightarrow> (string \<times> string) list) \<Rightarrow> traversal \<Rightarrow> bool" where
  "expanded adj tr \<longleftrightarrow> set (tr_next tr) \<subseteq> set (tr_nodes tr) \<and>
     (\<forall>c \<in> set (tr_nodes tr) - set (tr_next tr). \<forall>(k, v) \<in> set (adj c). k \<in> set (tr_edges tr) \<and> v \<in> set (tr_nodes tr))"

definition ball :: "(string \<times> string) set \<Rightarrow> nat \<Rightarrow> string set \<Rightarrow> string set" where
  "ball R d S = {v. \<exists>n \<le> d. \<exists>u \<in> S. (u, v) \<in> R ^^ n}"

lemma ball_0 [simp]: "ball R 0 S = S"
  by (auto simp: ball_def)

lemma ball_Suc: "ball R (Suc d) S = ball R d (S \<union> R `` S)"
proof -
  have "v \<in> ball R d (S \<union> R `` S)" if uv: "n \<le> Suc d" "u \<in> S" "(u, v) \<in> R ^^ n" for n u v
  proof (cases n)
    case 0
    then show ?thesis using uv by (force simp: ball_def)
  next
    case (Suc m)
    then obtain w where "(u, w) \<in> R" "(w, v) \<in> R ^^ m" using uv(3) by (metis relpow_Suc_D2)
    then show ?thesis using uv Suc by (auto simp: ball_def)
  qed
  moreover have "v \<in> ball R (Suc d) S" if uv: "n \<le> d" "u \<in> S" "(u, w) \<in> R" "(w, v) \<in> R ^^ n" for n u w v
    using uv(1,2) relpow_Suc_I2 [OF uv(3,4)] unfolding ball_def mem_Collect_eq
    by (intro exI [of _ "Suc n"] conjI bexI [of _ u]) simp_all
  moreover have "v \<in> ball R (Suc d) S" if "v \<in> ball R d S" for v
    using that by (auto simp: ball_def intro: le_SucI)
  ultimately show ?thesis by (fastforce simp: ball_def)
qed

lemma hops_reach:
  assumes "expanded adj tr"
  shows "set (tr_nodes (hops adj d tr)) = ball (hop adj) d (set (tr_nodes tr)) \<and>
    set (tr_edges (hops adj d tr)) = set (tr_edges tr) \<union>
      (if d = 0 then {} else \<Union>c \<in> ball (hop adj) (d - 1) (set (tr_nodes tr)). fst ` set (adj c))"
  using assms
proof (induction adj d tr rule: hops.induct)
  case (2 adj d tr)
  let ?tr = "foldl (\<lambda>tr c. foldl visit tr (adj c)) (tr\<lparr>tr_next := []\<rparr>) (tr_next tr)"
  have layer: "set (tr_nodes ?tr) = set (tr_nodes tr) \<union> hop adj `` set (tr_next tr)"
    "set (tr_edges ?tr) = set (tr_edges tr) \<union> (\<Union>c \<in> set (tr_next tr). fst ` set (adj c))"
    "set (tr_next ?tr) = hop adj `` set (tr_next tr) - set (tr_nodes tr)"
    using visit_layer [of "tr\<lparr>tr_next := []\<rparr>" adj "tr_next tr"] by simp_all
  have old: "k \<in> set (tr_edges tr) \<and> v \<in> set (tr_nodes tr)"
    if "c \<in> set (tr_nodes tr)" "c \<notin> set (tr_next tr)" "(k, v) \<in> set (adj c)" for c k v
    using "2.prems" that by (force simp: expanded_def)
  have sub: "set (tr_next tr) \<subseteq> set (tr_nodes tr)" using "2.prems" by (simp add: expanded_def)
  have nodes: "set (tr_nodes ?tr) = set (tr_nodes tr) \<union> hop adj `` set (tr_nodes tr)"
    unfolding layer using old sub by (auto simp: hop_def)
  have edges: "set (tr_edges ?tr) = set (tr_edges tr) \<union> (\<Union>c \<in> set (tr_nodes tr). fst ` set (adj c))"
  proof -
    have "fst ` set (adj c) \<subseteq> set (tr_edges tr)" if "c \<in> set (tr_nodes tr)" "c \<notin> set (tr_next tr)" for c
      using old [OF that] by auto
    then show ?thesis unfolding layer using sub by blast
  qed
  have "expanded adj ?tr"
    unfolding expanded_def
  proof (intro conjI ballI)
    show "set (tr_next ?tr) \<subseteq> set (tr_nodes ?tr)" using layer by auto
    fix c kv assume c: "c \<in> set (tr_nodes ?tr) - set (tr_next ?tr)" and kv: "kv \<in> set (adj c)"
    then have "c \<in> set (tr_nodes tr)" using layer by auto
    then show "case kv of (k, v) \<Rightarrow> k \<in> set (tr_edges ?tr) \<and> v \<in> set (tr_nodes ?tr)"
      using kv unfolding nodes edges by (force simp: hop_def)
  qed
  from "2.IH" [OF this] have IH: "set (tr_nodes (hops adj d ?tr)) = ball (hop adj) d (set (tr_nodes ?tr))"
    "set (tr_edges (hops adj d ?tr)) = set (tr_edges ?tr) \<union>
      (if d = 0 then {} else \<Union>c \<in> ball (hop adj) (d - 1) (set (tr_nodes ?tr)). fst ` set (adj c))"
    by simp_all
  have "ball (hop adj) d (set (tr_nodes tr)) = set (tr_nodes tr) \<union>
      (if d = 0 then {} else ball (hop adj) (d - 1) (set (tr_nodes ?tr)))"
    by (cases d) (auto simp: nodes ball_Suc [of _ _ "set (tr_nodes tr)"], auto simp: ball_def intro: exI [of _ 0])
  with IH show ?case by (auto simp: nodes edges ball_Suc split: if_splits)
qed simp

text \<open>The edges a traversal may follow, read off the edge dictionary alone.\<close>

definition traversable :: "string list \<Rightarrow> bool \<Rightarrow> string \<Rightarrow> graph \<Rightarrow> edge \<Rightarrow> string \<Rightarrow> string \<Rightarrow> bool" where
  "traversable rels arch anchor g e a b \<longleftrightarrow>
     (ed_source e = a \<and> ed_target e = b \<or> ed_target e = a \<and> ed_source e = b) \<and>
     (rels = [] \<or> edge_type_str (ed_type e) \<in> set rels) \<and> (arch \<or> \<not> ed_archived e) \<and>
     (arch \<or> b = anchor \<or> (\<forall>n. map_of (g_nodes g) b = Some n \<longrightarrow> \<not> nd_archived n))"

definition related_step :: "string list \<Rightarrow> bool \<Rightarrow> string \<Rightarrow> graph \<Rightarrow> (string \<times> string) set" where
  "related_step rels arch anchor g =
     {(a, b). \<exists>k e. map_of (g_edges g) k = Some e \<and> traversable rels arch anchor g e a b}"

lemma neighbours_traversable:
  assumes inv: "graph_inv cfg g"
  shows "(k, v) \<in> set (neighbours rels arch i g c) \<longleftrightarrow>
    (\<exists>e. map_of (g_edges g) k = Some e \<and> traversable rels arch i g e c v)"
proof -
  have net: "(s, t, k) \<in> set (g_net_edges g) \<longleftrightarrow>
      (\<exists>e. map_of (g_edges g) k = Some e \<and> ed_source e = s \<and> ed_target e = t)" for s t
    using inv by (simp add: graph_inv_def net_inv_def)
  have "(k, v) \<in> set (neighbours rels arch i g c) \<longleftrightarrow>
      followed rels arch i g k v \<and> ((c, v, k) \<in> set (g_net_edges g) \<or> (v, c, k) \<in> set (g_net_edges g))"
    by (force simp: neighbours_def)
  then show ?thesis
    by (auto simp: net followed_def traversable_def blocked_def split: option.splits)
qed

text \<open>C24: in a store of a run, a traversal from a node to depth \<open>d\<close> returns exactly the nodes that a
path of at most \<open>d\<close> followed edges leads to, each a node of the store, and exactly the edges that
leave a node less than \<open>d\<close> hops away: no node beyond an archived one, an archived edge or an edge of
another type comes back, and none within reach is missed.\<close>

theorem related_nodes_exact:
  fixes cfg :: graph_config and now :: datetime and i :: string and rels :: "string list" and arch :: bool
  assumes "ops_ok ops"
  defines "g \<equiv> run_graph cfg ops (new_graph cfg now)"
  defines "R \<equiv> related_step rels arch i g"
  assumes i: "map_of (g_nodes g) i \<noteq> None" and r: "get_related_nodes i rels depth arch g = (ns, es)"
  shows "set (map nd_id ns) = ball R (nat depth) {i} \<and> set ns \<subseteq> set (dict_values (g_nodes g)) \<and>
    set es = {e. 0 < depth \<and> (\<exists>k a b. map_of (g_edges g) k = Some e \<and>
       a \<in> ball R (nat depth - 1) {i} \<and> traversable rels arch i g e a b)}"
proof -
  have inv: "graph_inv cfg g" unfolding g_def using graph_inv_run [OF graph_inv_new assms(1)] .
  let ?adj = "neighbours rels arch i g" and ?tr = "\<lparr>tr_nodes = [i], tr_edges = [], tr_next = [i]\<rparr>"
  note nb = neighbours_traversable [OF inv]
  have hop: "hop ?adj = R" by (auto simp: hop_def R_def related_step_def nb)
  have "expanded ?adj ?tr" by (simp add: expanded_def)
  from hops_reach [OF this, of "nat depth"] have nodes: "set (tr_nodes (hops ?adj (nat depth) ?tr)) = ball R (nat depth) {i}"
    and edges: "set (tr_edges (hops ?adj (nat depth) ?tr)) =
      (if nat depth = 0 then {} else \<Union>c \<in> ball R (nat depth - 1) {i}. fst ` set (?adj c))"
    by (simp_all add: hop)
  have "\<exists>n. map_of (g_nodes g) v = Some n" if "(u, v) \<in> R ^^ k" "u = i" for u v k
    using that
  proof (induction k arbitrary: v)
    case 0
    then show ?case using i by auto
  next
    case (Suc k)
    then obtain w where "(w, v) \<in> R" by auto
    then obtain j e where e: "map_of (g_edges g) j = Some e" "v = ed_source e \<or> v = ed_target e"
      by (auto simp: R_def related_step_def traversable_def)
    then show ?case using edge_ends [OF inv e(1)] by (auto simp: known_map)
  qed
  then have known: "\<exists>n. map_of (g_nodes g) v = Some n" if "v \<in> ball R d {i}" for v d
    using that by (auto simp: ball_def)
  have res: "ns = List.map_filter (map_of (g_nodes g)) (tr_nodes (hops ?adj (nat depth) ?tr))"
    "es = List.map_filter (map_of (g_edges g)) (tr_edges (hops ?adj (nat depth) ?tr))"
  proof -
    have "i \<in> set (dict_keys (g_nodes g))" using i map_of_None_keys by metis
    then show "ns = List.map_filter (map_of (g_nodes g)) (tr_nodes (hops ?adj (nat depth) ?tr))"
      "es = List.map_filter (map_of (g_edges g)) (tr_edges (hops ?adj (nat depth) ?tr))"
      using r by (simp_all add: get_related_nodes_def Let_def del: set_map)
  qed
  have mem: "x \<in> set (List.map_filter f xs) \<longleftrightarrow> (\<exists>y \<in> set xs. f y = Some x)" for f :: "string \<Rightarrow> 'a option" and xs x
    by (force simp: List.map_filter_def)
  have n: "set ns = {n. \<exists>v \<in> ball R (nat depth) {i}. map_of (g_nodes g) v = Some n}"
    unfolding res(1) by (auto simp: mem nodes)
  have "set (map nd_id ns) = ball R (nat depth) {i}"
  proof (intro set_eqI iffI)
    fix v assume "v \<in> ball R (nat depth) {i}"
    moreover from known [OF this] obtain n where "map_of (g_nodes g) v = Some n" by blast
    ultimately show "v \<in> set (map nd_id ns)" using id_of_node [OF inv] by (force simp: n)
  qed (use id_of_node [OF inv] in \<open>auto simp: n\<close>)
  moreover have "set ns \<subseteq> set (dict_values (g_nodes g))" by (force simp: n dest: map_of_SomeD)
  moreover have "set es = {e. 0 < depth \<and> (\<exists>k a b. map_of (g_edges g) k = Some e \<and>
       a \<in> ball R (nat depth - 1) {i} \<and> traversable rels arch i g e a b)}"
  proof -
    have adj: "k \<in> fst ` set (?adj c) \<longleftrightarrow> (\<exists>e b. map_of (g_edges g) k = Some e \<and> traversable rels arch i g e c b)" for k c
    proof -
      have "k \<in> fst ` set (?adj c) \<longleftrightarrow> (\<exists>b. (k, b) \<in> set (?adj c))" by force
      then show ?thesis using nb by blast
    qed
    have "k \<in> set (tr_edges (hops ?adj (nat depth) ?tr)) \<longleftrightarrow> 0 < depth \<and>
        (\<exists>a \<in> ball R (nat depth - 1) {i}. \<exists>e b. map_of (g_edges g) k = Some e \<and> traversable rels arch i g e a b)" for k
      using adj by (cases "0 < depth") (simp_all only: edges nat_0_iff if_True if_False UN_iff not_less empty_iff, auto)
    then show ?thesis unfolding res(2) by (intro set_eqI) (simp only: mem mem_Collect_eq, force)
  qed
  ultimately show ?thesis by blast
qed

lemma added_known:
  assumes "add_nodes cfg env ns es g = (Inr r, g')" and "n \<in> set ns"
  shows "map_of (g_nodes g') (nd_id n) \<noteq> None"
proof -
  obtain g1 g2 g3 added where s: "add_nodes_loop cfg ns g = (None, g1)"
    "g2 = save cfg (gv_now env 0) (embed_nodes cfg ns g1)" "add_edges_loop cfg (name_to_id g2) es g2 = (Inr added, g3)"
    "g' = foldl (emit_created_edge env) (foldl (emit_created_node env) (save cfg (gv_now env 1) g3) (map nd_id ns)) added"
    using add_nodes_unfold [OF assms(1)] by metis
  have "same_dims g3 g'"
    unfolding s(4) by (rule same_dims_trans [OF same_dims_steps(1) same_dims_trans [OF same_dims_foldl same_dims_foldl]]) simp_all
  then show ?thesis
    using add_nodes_loop_effect [OF s(1)] embed_nodes_effect [of cfg ns g1] add_edges_loop_effect [OF s(3)] assms(2)
    by (simp add: s(2) same_dims_def)
qed

lemma demo_graph_known: "map_of (g_nodes demo_graph) ''a'' \<noteq> None"
  using added_known [OF demo_add_succeeds, of "demo_node ''a'' ''Actor'' ''Alpha''"] by (simp add: demo_node_def)

theorem related_nodes_exact_witness:
  "\<exists>ns es. get_related_nodes ''a'' [] 2 False demo_graph = (ns, es) \<and>
    set (map nd_id ns) = ball (related_step [] False ''a'' demo_graph) 2 {''a''}"
proof -
  have ops: "ops_ok [(demo_graph_env, demo_add)]" using demo_ops_ok by (simp add: ops_ok_def demo_ops_def)
  have g: "run_graph demo_graph_config [(demo_graph_env, demo_add)] (new_graph demo_graph_config 0) = demo_graph"
    by (simp add: demo_graph_def)
  obtain ns es where r: "get_related_nodes ''a'' [] 2 False demo_graph = (ns, es)" by fastforce
  show ?thesis
    using related_nodes_exact [OF ops, of demo_graph_config 0 "''a''" "[]" 2 False, unfolded g] demo_graph_known r by simp
qed

section \<open>Duplicates\<close>

text \<open>The search for duplicates finds the node that is one: given that an edit distance is zero of
equal strings, a threshold of at most 1 and a positive limit, a node of the wanted type whose name is
the given one up to case gives a result whose first entry has the full score, and the entries come
with falling scores.\<close>

theorem duplicates_found:
  assumes lev: "\<And>s. lev s s = 0" and "threshold \<le> 1" and "0 < limit"
    and n: "n \<in> set (dict_values (g_nodes g))" "lower (nd_name n) = lower name"
    and ty: "ty = None \<or> ty = Some (node_type_str (nd_type n))"
  shows "\<exists>s rest. find_similar_nodes lev vm name ty threshold limit g = s # rest \<and> 1 \<le> sn_score s \<and>
    sorted_wrt (\<lambda>a b. sn_score b \<le> sn_score a) (s # rest)"
proof -
  let ?named = "by_name lev name ty threshold g"
  let ?meant = "by_meaning g ty (map (\<lambda>s. nd_id (sn_node s)) ?named)
    (vector_search vm (g_vectors g) name limit (max (4 / 10) (threshold - 2 / 10)))"
  let ?all = "sort_key (\<lambda>s. - sn_score s) (?named @ ?meant)"
  have one: "round2 1 = 1" by (simp add: round2_def round_half_even_def Let_def)
  have "name_similarity lev (lower name) (lower (nd_name n)) = 1"
    by (simp add: name_similarity_def n(2) lev Let_def)
  then have "\<lparr>sn_node = n, sn_score = 1, sn_reason = NameSimilarity (percent 1)\<rparr> \<in> set ?named"
    using n(1) ty assms(2) one by (force simp: by_name_def List.map_filter_def Let_def)
  then obtain m where m: "m \<in> set ?all" "sn_score m = 1" by force
  have "sorted (map (\<lambda>s. - sn_score s) ?all)" by (rule sorted_sort_key)
  then have sorted: "sorted_wrt (\<lambda>a b. sn_score b \<le> sn_score a) ?all" by (simp add: sorted_map)
  have "?all \<noteq> []" using m(1) by (metis empty_iff list.set(1))
  then obtain s rest where all: "?all = s # rest" by (meson neq_Nil_conv)
  have "sn_score m \<le> sn_score s" using m(1) sorted unfolding all by auto
  moreover have "find_similar_nodes lev vm name ty threshold limit g = s # take (nat limit - 1) rest"
    using assms(3) all by (cases "nat limit") (simp_all add: find_similar_nodes_def take_to_def Let_def)
  moreover have "sorted_wrt (\<lambda>a b. sn_score b \<le> sn_score a) (s # take (nat limit - 1) rest)"
    using sorted unfolding all by (auto dest: in_set_takeD intro: sorted_wrt_take)
  ultimately show ?thesis using m(2) by auto
qed

definition demo_lev :: "string \<Rightarrow> string \<Rightarrow> nat" where
  "demo_lev a b = (if a = b then 0 else max (length a) (length b))"

theorem duplicates_found_witness:
  "\<exists>s rest. find_similar_nodes demo_lev \<lparr>vm_encode = (\<lambda>s. None), vm_cosine = (\<lambda>a b. 0)\<rparr> ''AlphA'' None (7 / 10) 5
     ((graph_init demo_graph_config)\<lparr>g_nodes := [(''a'', demo_node ''a'' ''Actor'' ''Alpha'')]\<rparr>) = s # rest \<and> 1 \<le> sn_score s"
proof -
  have low: "lower (nd_name (demo_node ''a'' ''Actor'' ''Alpha'')) = lower ''AlphA''" by code_simp
  show ?thesis
    using duplicates_found [of demo_lev "7 / 10" 5 "demo_node ''a'' ''Actor'' ''Alpha''"
      "(graph_init demo_graph_config)\<lparr>g_nodes := [(''a'', demo_node ''a'' ''Actor'' ''Alpha'')]\<rparr>" "''AlphA''" None,
      OF _ _ _ _ low]
    by (simp add: demo_lev_def) blast
qed

end
