(* ===== verification/EventModels.thy ===== *)
theory EventModels
  imports GraphStore
begin

text \<open>
  Mutation events as they leave the store (\<open>backend/core/events/models.py\<close> and the federated relays
  of \<open>backend/core/storage_events.py\<close>): a graph event with its id, time and subscription, its
  webhook payload, and the settings of a subscription.
\<close>

fun event_type_value :: "event_type \<Rightarrow> string" where
  "event_type_value NODE_CREATE = ''node.create''"
| "event_type_value NODE_UPDATE = ''node.update''"
| "event_type_value NODE_DELETE = ''node.delete''"
| "event_type_value EDGE_CREATE = ''edge.create''"
| "event_type_value EDGE_UPDATE = ''edge.update''"
| "event_type_value EDGE_DELETE = ''edge.delete''"

text \<open>The part after the last dot.\<close>

fun event_operation :: "event_type \<Rightarrow> string" where
  "event_operation NODE_CREATE = ''create''"
| "event_operation NODE_UPDATE = ''update''"
| "event_operation NODE_DELETE = ''delete''"
| "event_operation EDGE_CREATE = ''create''"
| "event_operation EDGE_UPDATE = ''update''"
| "event_operation EDGE_DELETE = ''delete''"

fun entity_kind_value :: "entity_kind \<Rightarrow> string" where
  "entity_kind_value NODE = ''node''"
| "entity_kind_value EDGE = ''edge''"

definition entity_kind_of :: "string \<Rightarrow> entity_kind option" where
  "entity_kind_of s = (if s = ''node'' then Some NODE else if s = ''edge'' then Some EDGE else None)"

record event =
  ev_id :: string
  ev_occurred_at :: datetime
  ev_body :: graph_event
  ev_subscription :: "(string \<times> string) option"

definition EVENT_SCHEMA_VERSION :: string where "EVENT_SCHEMA_VERSION = ''1.0''"

definition context_to_dict :: "event_context \<Rightarrow> json_obj" where
  "context_to_dict c =
     [(''event_origin'', opt_str (ec_origin c)), (''event_session_id'', opt_str (ec_session_id c)),
      (''event_correlation_id'', opt_str (ec_correlation_id c)), (''attribution'', opt_obj (ec_attribution c))]"

definition to_webhook_payload :: "event \<Rightarrow> json_obj" where
  "to_webhook_payload ev =
     (let b = ev_body ev
      in [(''event_id'', JStr (ev_id ev)), (''schema_version'', JStr EVENT_SCHEMA_VERSION),
          (''event_type'', JStr (event_type_value (ge_type b))), (''occurred_at'', JStr (iso_z (ev_occurred_at ev))),
          (''origin'', JObj (context_to_dict (ge_context b))),
          (''entity'', JObj [(''kind'', JStr (entity_kind_value (ge_kind b))), (''id'', JStr (ge_id b)),
             (''type'', JStr (ge_entity_type b)),
             (''data'', JObj [(''before'', opt_obj (ge_before b)), (''after'', opt_obj (ge_after b)),
                (''patch'', opt_obj (ge_patch b))])]),
          (''subscription'', case ev_subscription ev of
             None \<Rightarrow> JNull
           | Some (i, name) \<Rightarrow> JObj [(''id'', JStr i), (''name'', JStr name)])])"

section \<open>Federated changes\<close>

definition federated_context :: "string \<Rightarrow> event_context" where
  "federated_context origin = no_context\<lparr>ec_origin := Some origin\<rparr>"

text \<open>The event of a change in the federated cache, or nothing.\<close>

definition federated_node_event ::
    "string \<Rightarrow> node option \<Rightarrow> node option \<Rightarrow> string \<Rightarrow> graph \<Rightarrow> graph" where
  "federated_node_event operation before after origin g =
     (let ty = (if operation = ''create'' then Some NODE_CREATE
                else if operation = ''update'' then Some NODE_UPDATE
                else if operation = ''delete'' then Some NODE_DELETE else None)
      in case (ty, if after \<noteq> None then after else before) of
           (Some t, Some n) \<Rightarrow>
             emit_event \<lparr>gv_now = (\<lambda>k. 0), gv_context = Some (federated_context origin)\<rparr> t NODE (nd_id n)
               (node_type_str (nd_type n)) (map_option node_to_dict before) (map_option node_to_dict after) g
         | _ \<Rightarrow> g)"

definition federated_edge_event ::
    "string \<Rightarrow> edge option \<Rightarrow> edge option \<Rightarrow> string \<Rightarrow> graph \<Rightarrow> graph" where
  "federated_edge_event operation before after origin g =
     (let ty = (if operation = ''create'' then Some EDGE_CREATE
                else if operation = ''update'' then Some EDGE_UPDATE
                else if operation = ''delete'' then Some EDGE_DELETE else None)
      in case (ty, if after \<noteq> None then after else before) of
           (Some t, Some e) \<Rightarrow>
             emit_event \<lparr>gv_now = (\<lambda>k. 0), gv_context = Some (federated_context origin)\<rparr> t EDGE (ed_id e)
               (edge_type_str (ed_type e)) (map_option edge_to_dict before) (map_option edge_to_dict after) g
         | _ \<Rightarrow> g)"

section \<open>Subscriptions\<close>

record target_filters =
  tf_entity_kind :: entity_kind
  tf_node_types :: "string list"
  tf_relationship_types :: "string list"

record federation_filters =
  ff_scope :: string
  ff_include_graph_ids :: "string list"
  ff_max_distance :: "int option"

record subscription_filters =
  sf_target :: target_filters
  sf_operations :: "string list"
  sf_keywords :: "string list"
  sf_federation :: federation_filters

record subscription_delivery =
  sd_webhook_url :: string
  sd_ignore_origins :: "string list"
  sd_ignore_session_ids :: "string list"

end
