(* ===== verification/EventHistory.thy ===== *)
theory EventHistory
  imports EventModels
begin

text \<open>
  The append-only history of mutations (\<open>GraphHistoryStore\<close> in \<open>backend/core/history_store.py\<close> and
  the read helpers of \<open>backend/core/storage_history.py\<close>). The file is its lines in order; \<open>None\<close> is
  a line that is no JSON (a line that is JSON but no object does not occur: only the store writes
  the file). Writes are taken to succeed.
\<close>

section \<open>Records\<close>

definition derive_is_ai_action :: "string option \<Rightarrow> json_obj option \<Rightarrow> bool" where
  "derive_is_ai_action event_origin attribution =
     (if (case event_origin of Some s \<Rightarrow> starts_with s ''agent:'' \<or> s = ''mcp'' | None \<Rightarrow> False) then True
      else (let actor_type = (case attribution of
                  None \<Rightarrow> []
                | Some a \<Rightarrow> (case obj_get a ''actor'' of
                    JObj actor \<Rightarrow> (case obj_get actor ''actor_type'' of JStr t \<Rightarrow> t | _ \<Rightarrow> [])
                  | _ \<Rightarrow> []))
            in lower actor_type \<in> {''agent'', ''ai''}))"

definition event_to_history_record :: "event \<Rightarrow> json_obj" where
  "event_to_history_record ev =
     (let b = ev_body ev; c = ge_context b
      in [(''event_id'', JStr (ev_id ev)), (''event_type'', JStr (event_type_value (ge_type b))),
          (''occurred_at'', JStr (iso_z (ev_occurred_at ev))), (''entity_kind'', JStr (entity_kind_value (ge_kind b))),
          (''entity_id'', JStr (ge_id b)), (''entity_type'', JStr (ge_entity_type b)),
          (''before'', opt_obj (ge_before b)), (''after'', opt_obj (ge_after b)), (''patch'', opt_obj (ge_patch b)),
          (''event_origin'', opt_str (ec_origin c)), (''event_session_id'', opt_str (ec_session_id c)),
          (''event_correlation_id'', opt_str (ec_correlation_id c)), (''attribution'', opt_obj (ec_attribution c)),
          (''is_ai_action'', JBool (derive_is_ai_action (ec_origin c) (ec_attribution c)))])"

section \<open>The store\<close>

record history =
  hs_max_events :: "int option"
  hs_max_age_days :: "rat option"
  hs_interval :: int
  hs_appends :: nat
  hs_lines :: "json_obj option list"

definition DEFAULT_COMPACTION_INTERVAL :: int where "DEFAULT_COMPACTION_INTERVAL = 256"

definition history_init ::
    "int option \<Rightarrow> rat option \<Rightarrow> int option \<Rightarrow> json_obj option list \<Rightarrow> history" where
  "history_init max_events max_age_days compaction_interval lines =
     (let me = (case max_events of Some n \<Rightarrow> if 0 < n then Some n else None | None \<Rightarrow> None);
          ma = (case max_age_days of Some d \<Rightarrow> if 0 < d then Some d else None | None \<Rightarrow> None)
      in \<lparr>hs_max_events = me, hs_max_age_days = ma,
          hs_interval = (case compaction_interval of
              Some k \<Rightarrow> max 1 k
            | None \<Rightarrow> (case me of
                Some n \<Rightarrow> max 1 (min n DEFAULT_COMPACTION_INTERVAL)
              | None \<Rightarrow> DEFAULT_COMPACTION_INTERVAL)),
          hs_appends = 0, hs_lines = lines\<rparr>)"

definition retention_enabled :: "history \<Rightarrow> bool" where
  "retention_enabled h = (hs_max_events h \<noteq> None \<or> hs_max_age_days h \<noteq> None)"

text \<open>\<open>_read_all\<close>: lines that are no record are skipped.\<close>

definition read_records :: "history \<Rightarrow> json_obj list" where
  "read_records h = List.map_filter id (hs_lines h)"

definition record_within_age :: "datetime \<Rightarrow> json_obj \<Rightarrow> bool" where
  "record_within_age cutoff r =
     (case obj_get r ''occurred_at'' of
        JStr s \<Rightarrow> (case parse_datetime s of Some t \<Rightarrow> cutoff \<le> t | None \<Rightarrow> True)
      | _ \<Rightarrow> True)"

definition days_us :: "rat \<Rightarrow> int" where
  "days_us d = round_half_even (d * 86400000000)"

definition apply_retention :: "history \<Rightarrow> datetime \<Rightarrow> json_obj list \<Rightarrow> json_obj list" where
  "apply_retention h now rs =
     (let kept = (case hs_max_age_days h of
            Some d \<Rightarrow> filter (record_within_age (now - days_us d)) rs
          | None \<Rightarrow> rs)
      in case hs_max_events h of
           Some n \<Rightarrow> if n < int (length kept) then drop (length kept - nat n) kept else kept
         | None \<Rightarrow> kept)"

definition compact_locked :: "datetime \<Rightarrow> history \<Rightarrow> history" where
  "compact_locked now h =
     (let h = h\<lparr>hs_appends := 0\<rparr>; rs = read_records h; kept = apply_retention h now rs
      in if length kept = length rs then h else h\<lparr>hs_lines := map Some kept\<rparr>)"

definition append_record :: "datetime \<Rightarrow> json_obj \<Rightarrow> history \<Rightarrow> history" where
  "append_record now r h =
     (let h = h\<lparr>hs_lines := hs_lines h @ [Some r]\<rparr>
      in if retention_enabled h
         then (let h = h\<lparr>hs_appends := hs_appends h + 1\<rparr>
               in if hs_interval h \<le> int (hs_appends h) then compact_locked now h else h)
         else h)"

definition append_event :: "datetime \<Rightarrow> event \<Rightarrow> history \<Rightarrow> history" where
  "append_event now ev h = append_record now (event_to_history_record ev) h"

definition compact :: "datetime \<Rightarrow> history \<Rightarrow> history" where
  "compact now h = (if retention_enabled h then compact_locked now h else h)"

definition paginate :: "json_obj list \<Rightarrow> int \<Rightarrow> int \<Rightarrow> json_obj list" where
  "paginate rs limit offset = take (nat limit) (drop (nat offset) rs)"

definition get_recent :: "history \<Rightarrow> int \<Rightarrow> int \<Rightarrow> json_obj list" where
  "get_recent h limit offset = paginate (rev (read_records h)) limit offset"

definition get_entity_history :: "history \<Rightarrow> string \<Rightarrow> string option \<Rightarrow> int \<Rightarrow> int \<Rightarrow> json_obj list" where
  "get_entity_history h i kind limit offset =
     paginate (rev (filter (\<lambda>r. obj_get r ''entity_id'' = JStr i \<and>
       (case kind of None \<Rightarrow> True | Some k \<Rightarrow> obj_get r ''entity_kind'' = JStr k)) (read_records h))) limit offset"

definition get_recent_history :: "history option \<Rightarrow> int \<Rightarrow> int \<Rightarrow> json_obj list" where
  "get_recent_history h limit offset = (case h of None \<Rightarrow> [] | Some s \<Rightarrow> get_recent s limit offset)"

definition get_node_history :: "history option \<Rightarrow> string \<Rightarrow> int \<Rightarrow> int \<Rightarrow> json_obj list" where
  "get_node_history h i limit offset =
     (case h of None \<Rightarrow> [] | Some s \<Rightarrow> get_entity_history s i (Some ''node'') limit offset)"

definition get_edge_history :: "history option \<Rightarrow> string \<Rightarrow> int \<Rightarrow> int \<Rightarrow> json_obj list" where
  "get_edge_history h i limit offset =
     (case h of None \<Rightarrow> [] | Some s \<Rightarrow> get_entity_history s i (Some ''edge'') limit offset)"

section \<open>Retention\<close>

lemma read_records_some [simp]: "hs_lines h = map Some rs \<Longrightarrow> read_records h = rs"
  by (simp add: read_records_def List.map_filter_def filter_map comp_def)

fun append_all :: "(datetime \<times> json_obj) list \<Rightarrow> history \<Rightarrow> history" where
  "append_all [] h = h"
| "append_all ((now, r) # rs) h = append_all rs (append_record now r h)"

text \<open>The file after several processes, each of which opens it, appends and ends.\<close>

fun processes :: "int option \<Rightarrow> int option \<Rightarrow> (datetime \<times> json_obj) list list \<Rightarrow> json_obj option list \<Rightarrow> json_obj option list" where
  "processes me interval [] lines = lines"
| "processes me interval (rs # rss) lines =
     processes me interval rss (hs_lines (append_all rs (history_init me None interval lines)))"

text \<open>
  With a cap on the number only: the readable records are an end of all records, at least the
  newest \<open>n\<close>, and no more than the cap, or what the process found, and the appends since the last
  pass allow.
\<close>

definition capped :: "nat \<Rightarrow> nat \<Rightarrow> json_obj list \<Rightarrow> history \<Rightarrow> bool" where
  "capped n found all h \<longleftrightarrow> hs_max_events h = Some (int n) \<and> 0 < n \<and> hs_max_age_days h = None \<and> 1 \<le> hs_interval h \<and>
     int (hs_appends h) < hs_interval h \<and>
     (\<exists>m \<le> length all. read_records h = drop m all \<and> m \<le> length all - n) \<and>
     length (read_records h) \<le> max n found + hs_appends h"

lemma compact_capped:
  assumes "hs_max_events h = Some (int n)" and "hs_max_age_days h = None"
  shows "read_records (compact_locked now h) = drop (length (read_records h) - n) (read_records h)"
    and "\<exists>lines. compact_locked now h = h\<lparr>hs_appends := 0, hs_lines := lines\<rparr>"
proof -
  let ?h = "h\<lparr>hs_appends := 0\<rparr>" and ?rs = "read_records h"
  have r: "read_records ?h = ?rs" by (simp add: read_records_def)
  have k: "apply_retention ?h now ?rs = drop (length ?rs - n) ?rs"
    using assms by (auto simp: apply_retention_def Let_def)
  have c: "compact_locked now h =
      (if length (drop (length ?rs - n) ?rs) = length ?rs then ?h else ?h\<lparr>hs_lines := map Some (drop (length ?rs - n) ?rs)\<rparr>)"
    by (simp only: compact_locked_def Let_def r k)
  show "read_records (compact_locked now h) = drop (length ?rs - n) ?rs"
    using r by (cases "length ?rs - n = 0 \<or> ?rs = []") (auto simp: c)
  have "?h = h\<lparr>hs_appends := 0, hs_lines := hs_lines h\<rparr>" by simp
  then show "\<exists>lines. compact_locked now h = h\<lparr>hs_appends := 0, hs_lines := lines\<rparr>"
    unfolding c by metis
qed

lemma capped_append:
  assumes "capped n found all h"
  shows "capped n found (all @ [r]) (append_record now r h)"
proof -
  obtain m where m: "m \<le> length all" "read_records h = drop m all" "m \<le> length all - n"
    and c: "hs_max_events h = Some (int n)" "0 < n" "hs_max_age_days h = None" "1 \<le> hs_interval h"
      "int (hs_appends h) < hs_interval h" "length (read_records h) \<le> max n found + hs_appends h"
    using assms by (auto simp: capped_def)
  let ?h = "h\<lparr>hs_lines := hs_lines h @ [Some r], hs_appends := Suc (hs_appends h)\<rparr>"
  obtain all1 where all1: "all @ [r] = all1" by blast
  have rr: "read_records ?h = drop m all1" "length all1 = Suc (length all)"
    using m(1,2) by (auto simp: read_records_def List.map_filter_def simp flip: all1)
  have step: "append_record now r h = (if hs_interval h \<le> int (Suc (hs_appends h)) then compact_locked now ?h else ?h)"
    by (simp add: append_record_def retention_enabled_def c(1))
  have "capped n found all1 (append_record now r h)"
  proof (cases "hs_interval h \<le> int (Suc (hs_appends h))")
    case False
    have "length (read_records ?h) \<le> max n found + Suc (hs_appends h)" using m c(6) rr by simp
    moreover have "\<exists>m \<le> length all1. read_records ?h = drop m all1 \<and> m \<le> length all1 - n"
      using m rr by (intro exI [of _ m]) simp
    ultimately show ?thesis using False c by (simp add: step capped_def)
  next
    case True
    let ?m = "m + (length (drop m all1) - n)"
    obtain lines where k: "compact_locked now ?h = ?h\<lparr>hs_appends := 0, hs_lines := lines\<rparr>"
      using compact_capped(2) [of ?h n now] c by auto
    have "read_records (compact_locked now ?h) = drop ?m all1"
      using compact_capped(1) [of ?h n now] c rr by (simp add: add.commute)
    moreover have "?m \<le> length all1" "?m \<le> length all1 - n" "length (drop ?m all1) \<le> n" using m(1,3) rr by auto
    ultimately show ?thesis using c True unfolding step if_P [OF True] capped_def by (auto simp: k)
  qed
  then show ?thesis by (simp add: all1)
qed

lemma capped_append_all: "capped n found all h \<Longrightarrow> capped n found (all @ map snd rs) (append_all rs h)"
proof (induction rs arbitrary: all h)
  case (Cons x rs)
  obtain now r where x: "x = (now, r)" by fastforce
  show ?case using Cons.IH [OF capped_append [OF Cons.prems, of r now]] by (simp add: x)
qed simp

abbreviation readable :: "json_obj option list \<Rightarrow> json_obj list" where
  "readable lines \<equiv> List.map_filter id lines"

lemma capped_init:
  assumes "0 < n" and "m \<le> length all" and "readable lines = drop m all" and "m \<le> length all - n"
  shows "capped n (length (readable lines)) all (history_init (Some (int n)) None interval lines)"
  using assms by (auto simp: capped_def history_init_def Let_def read_records_def split: option.split)

lemma processes_kept:
  assumes "0 < n"
  shows "m \<le> length all \<Longrightarrow> readable lines = drop m all \<Longrightarrow> m \<le> length all - n \<Longrightarrow>
   \<exists>m' \<le> length (all @ map snd (concat rss)).
     readable (processes (Some (int n)) interval rss lines) = drop m' (all @ map snd (concat rss)) \<and>
     m' \<le> length (all @ map snd (concat rss)) - n"
proof (induction rss arbitrary: m all lines)
  case (Cons rs rss)
  let ?h = "append_all rs (history_init (Some (int n)) None interval lines)"
  have "capped n (length (readable lines)) (all @ map snd rs) ?h"
    by (rule capped_append_all [OF capped_init [OF assms Cons.prems]])
  then obtain k where "k \<le> length (all @ map snd rs)" "readable (hs_lines ?h) = drop k (all @ map snd rs)"
      "k \<le> length (all @ map snd rs) - n"
    by (auto simp: capped_def read_records_def)
  from Cons.IH [OF this] show ?case by simp
qed auto

text \<open>C32: retention with a cap on the number of records and none on their age. Whatever file the
first process found, unreadable lines included, and however many processes appended to it one after
the other, a reader that asks for the newest \<open>k\<close> of at most the cap gets exactly the last \<open>k\<close> of all
records, newest first: retention never loses one it must keep. While a process runs the file has less
than a compaction interval more readable records than the cap, or than the process found if that was more:
the count of appends starts anew with each process.\<close>

theorem history_retention:
  fixes n :: nat and interval :: "int option" and rs :: "(datetime \<times> json_obj) list"
    and before :: "(datetime \<times> json_obj) list list" and lines :: "json_obj option list"
  assumes "0 < n" and "k \<le> n"
  defines "found \<equiv> processes (Some (int n)) interval before lines"
  defines "h \<equiv> append_all rs (history_init (Some (int n)) None interval found)"
  shows "get_recent h (int k) 0 = take k (rev (readable lines @ map snd (concat before @ rs))) \<and>
    int (length (read_records h)) < int (max n (length (readable found))) + hs_interval h"
proof -
  let ?all = "readable lines @ map snd (concat before)"
  obtain m where "m \<le> length ?all" "readable found = drop m ?all" "m \<le> length ?all - n"
    using processes_kept [OF assms(1), of 0 "readable lines" lines before interval] by (auto simp: found_def)
  then have "capped n (length (readable found)) ?all (history_init (Some (int n)) None interval found)"
    by (rule capped_init [OF assms(1)])
  then have c: "capped n (length (readable found)) (?all @ map snd rs) h"
    unfolding h_def by (rule capped_append_all)
  obtain all1 where all1: "?all @ map snd rs = all1" by blast
  obtain l where l: "read_records h = drop l all1" "l \<le> length all1 - n" "l \<le> length all1"
    using c unfolding all1 by (auto simp: capped_def)
  have "rev all1 = rev (drop l all1) @ rev (take l all1)"
    by (metis append_take_drop_id rev_append)
  moreover have "k \<le> length (drop l all1) \<or> l = 0" using l(2) assms(2) by auto
  ultimately have "take k (rev all1) = take k (rev (drop l all1))" by auto
  moreover have "readable lines @ map snd (concat before @ rs) = all1" by (simp flip: all1)
  ultimately show ?thesis
    using c l(1) by (auto simp: capped_def get_recent_def paginate_def)
qed

text \<open>Processes that each append less than an interval never compact: the file keeps every line.\<close>

lemma append_few:
  "int (hs_appends h + length rs) < hs_interval h \<Longrightarrow> hs_lines (append_all rs h) = hs_lines h @ map (Some \<circ> snd) rs"
  by (induction rs arbitrary: h) (auto simp: append_record_def Let_def)

theorem short_processes_never_compact:
  assumes "\<forall>rs \<in> set rss. int (length rs) < hs_interval (history_init me None interval [])"
  shows "processes me interval rss lines = lines @ map (Some \<circ> snd) (concat rss)"
  using assms
proof (induction rss arbitrary: lines)
  case (Cons rs rss)
  have "hs_interval (history_init me None interval lines) = hs_interval (history_init me None interval [])"
    "hs_appends (history_init me None interval lines) = 0" "hs_lines (history_init me None interval lines) = lines"
    by (simp_all add: history_init_def Let_def)
  with Cons append_few [of "history_init me None interval lines" rs] show ?case by simp
qed simp

end
