(* ===== verification/EventDispatch.thy ===== *)
theory EventDispatch
  imports EventModels
begin

text \<open>
  Routing of events to subscriptions (\<open>EventDispatcher\<close> in \<open>backend/core/events/dispatcher.py\<close>).
  A subscription is an \<open>EventSubscription\<close> node of the graph. What a malformed one raises ends the
  whole call: it is the result \<open>None\<close>. The members of an event's entity have the types
  \<open>to_dict\<close> writes.
\<close>

section \<open>Reading subscriptions\<close>

record event_subscription =
  su_id :: string
  su_name :: string
  su_filters :: subscription_filters
  su_delivery :: subscription_delivery

text \<open>\<open>d.get(k, {})\<close>, whose methods the caller then uses.\<close>

definition sub_obj :: "json_obj \<Rightarrow> string \<Rightarrow> json_obj option" where
  "sub_obj d k = (case map_of d k of None \<Rightarrow> Some [] | Some (JObj x) \<Rightarrow> Some x | Some _ \<Rightarrow> None)"

definition field_int :: "json option \<Rightarrow> int option option" where
  "field_int v =
     (case v of
        None \<Rightarrow> Some None
      | Some JNull \<Rightarrow> Some None
      | Some (JFloat r) \<Rightarrow> if r = of_int \<lfloor>r\<rfloor> then Some (Some \<lfloor>r\<rfloor>) else None
      | Some x \<Rightarrow> map_option Some (json_int x))"

definition parse_target :: "json_obj \<Rightarrow> target_filters option" where
  "parse_target d =
     Option.bind (case map_of d ''entity_kind'' of
         None \<Rightarrow> Some NODE | Some (JStr s) \<Rightarrow> entity_kind_of s | Some _ \<Rightarrow> None) (\<lambda>kind.
     Option.bind (field_strs (map_of d ''node_types'')) (\<lambda>nts.
     Option.bind (field_strs (map_of d ''relationship_types'')) (\<lambda>rts.
       Some \<lparr>tf_entity_kind = kind, tf_node_types = nts, tf_relationship_types = rts\<rparr>)))"

definition parse_federation :: "json_obj \<Rightarrow> federation_filters option" where
  "parse_federation d =
     Option.bind (field_str ''local_only'' (map_of d ''scope'')) (\<lambda>scope.
     Option.bind (field_strs (map_of d ''include_graph_ids'')) (\<lambda>ids.
     Option.bind (field_int (map_of d ''max_distance'')) (\<lambda>md.
       Some \<lparr>ff_scope = scope, ff_include_graph_ids = ids, ff_max_distance = md\<rparr>)))"

definition parse_filters :: "json_obj \<Rightarrow> subscription_filters option" where
  "parse_filters d =
     Option.bind (Option.bind (sub_obj d ''target'') parse_target) (\<lambda>target.
     Option.bind (Option.bind (sub_obj d ''keywords'') (\<lambda>k. field_strs (map_of k ''any''))) (\<lambda>kws.
     Option.bind (Option.bind (sub_obj d ''federation'') parse_federation) (\<lambda>fed.
     Option.bind (case map_of d ''operations'' of
         None \<Rightarrow> Some [''create'', ''update'', ''delete''] | v \<Rightarrow> field_strs v) (\<lambda>ops.
       Some \<lparr>sf_target = target, sf_operations = ops, sf_keywords = kws, sf_federation = fed\<rparr>))))"

definition parse_delivery :: "json_obj \<Rightarrow> subscription_delivery option" where
  "parse_delivery d =
     Option.bind (required_str (map_of d ''webhook_url'')) (\<lambda>url.
     Option.bind (field_strs (map_of d ''ignore_origins'')) (\<lambda>os.
     Option.bind (field_strs (map_of d ''ignore_session_ids'')) (\<lambda>ss.
       Some \<lparr>sd_webhook_url = url, sd_ignore_origins = os, sd_ignore_session_ids = ss\<rparr>)))"

text \<open>One node: it raises (\<open>None\<close>), is skipped, or is a subscription.\<close>

definition read_subscription :: "node \<Rightarrow> event_subscription option option" where
  "read_subscription n =
     (if node_type_str (nd_type n) \<noteq> ''EventSubscription'' then Some None
      else
        Option.bind (Option.bind (sub_obj (nd_metadata n) ''filters'') parse_filters) (\<lambda>filters.
        Option.bind (sub_obj (nd_metadata n) ''delivery'') (\<lambda>d.
          if \<not> truthy (obj_get d ''webhook_url'') then Some None
          else map_option (\<lambda>delivery. Some \<lparr>su_id = nd_id n, su_name = nd_name n, su_filters = filters,
                 su_delivery = delivery\<rparr>) (parse_delivery d))))"

fun read_subscriptions :: "node list \<Rightarrow> event_subscription list option" where
  "read_subscriptions [] = Some []"
| "read_subscriptions (n # ns) =
     Option.bind (read_subscription n) (\<lambda>s.
       map_option (\<lambda>ss. case s of None \<Rightarrow> ss | Some x \<Rightarrow> x # ss) (read_subscriptions ns))"

type_synonym subscription_cache = "(event_subscription list \<times> datetime) option"

definition CACHE_TTL_US :: int where "CACHE_TTL_US = 30000000"

definition load_subscriptions ::
    "datetime \<Rightarrow> graph \<Rightarrow> subscription_cache \<Rightarrow> event_subscription list option \<times> subscription_cache" where
  "load_subscriptions now g cache =
     (case (case cache of Some (subs, t) \<Rightarrow> if now - t < CACHE_TTL_US then Some subs else None | None \<Rightarrow> None) of
        Some subs \<Rightarrow> (Some subs, cache)
      | None \<Rightarrow>
          (case read_subscriptions (dict_values (g_nodes g)) of
             None \<Rightarrow> (None, cache)
           | Some subs \<Rightarrow> (Some subs, Some (subs, now))))"

section \<open>Matching\<close>

definition entity_data :: "graph_event \<Rightarrow> json_obj" where
  "entity_data b =
     (case ge_after b of
        Some a \<Rightarrow> if a \<noteq> [] then a else (case ge_before b of Some d \<Rightarrow> d | None \<Rightarrow> [])
      | None \<Rightarrow> (case ge_before b of Some d \<Rightarrow> d | None \<Rightarrow> []))"

definition text_part :: "json_obj \<Rightarrow> string \<Rightarrow> string list" where
  "text_part d k = (case obj_get d k of JStr s \<Rightarrow> if s = [] then [] else [s] | _ \<Rightarrow> [])"

definition matches_keywords :: "graph_event \<Rightarrow> string list \<Rightarrow> bool" where
  "matches_keywords b keywords =
     (let d = entity_data b;
          tags = (case obj_get d ''tags'' of
            JArr vs \<Rightarrow> (case strings vs of Some ts \<Rightarrow> ts | None \<Rightarrow> []) | _ \<Rightarrow> []);
          txt = lower (join (text_part d ''name'' @ text_part d ''description'' @ text_part d ''summary'' @ tags))
      in if d = [] then False else list_ex (\<lambda>k. contains (lower k) txt) keywords)"

definition matches_federation :: "graph_event \<Rightarrow> federation_filters \<Rightarrow> bool" where
  "matches_federation b fed =
     (let md = (case obj_get (entity_data b) ''metadata'' of JObj m \<Rightarrow> m | _ \<Rightarrow> []);
          gid = obj_get md ''origin_graph_id''; dist = obj_get md ''federation_distance'';
          federated = (gid \<noteq> JNull \<and> dist \<noteq> JNull)
      in if ff_scope fed = ''local_only'' then \<not> federated
         else if ff_scope fed = ''local_and_federated'' then
           (if ff_include_graph_ids fed \<noteq> [] \<and> federated \<and> gid \<notin> set (map JStr (ff_include_graph_ids fed)) then False
            else case ff_max_distance fed of
              None \<Rightarrow> True
            | Some m \<Rightarrow> if federated then (case json_int dist of Some n \<Rightarrow> n \<le> m | None \<Rightarrow> False) else True)
         else False)"

definition matches_subscription :: "graph_event \<Rightarrow> subscription_filters \<Rightarrow> bool" where
  "matches_subscription b f =
     (if ge_kind b \<noteq> tf_entity_kind (sf_target f) then False
      else if event_operation (ge_type b) \<notin> set (sf_operations f) then False
      else if ge_kind b = NODE \<and> tf_node_types (sf_target f) \<noteq> [] \<and> ge_entity_type b \<notin> set (tf_node_types (sf_target f))
        then False
      else if ge_kind b = EDGE \<and> tf_relationship_types (sf_target f) \<noteq> [] \<and>
        ge_entity_type b \<notin> set (tf_relationship_types (sf_target f)) then False
      else if sf_keywords f \<noteq> [] \<and> \<not> matches_keywords b (sf_keywords f) then False
      else matches_federation b (sf_federation f))"

definition should_block :: "graph_event \<Rightarrow> subscription_delivery \<Rightarrow> bool" where
  "should_block b d =
     ((case ec_origin (ge_context b) of
         Some s \<Rightarrow> s \<noteq> [] \<and> s \<in> set (sd_ignore_origins d) | None \<Rightarrow> False) \<or>
      (case ec_session_id (ge_context b) of
         Some s \<Rightarrow> s \<noteq> [] \<and> s \<in> set (sd_ignore_session_ids d) | None \<Rightarrow> False))"

section \<open>Dispatching\<close>

text \<open>
  The agent callback answers whether it took the event; \<open>None\<close> is what it raises. The webhook
  callback is the queue of the delivery worker, which takes everything.
\<close>

type_synonym agent_callback = "event \<Rightarrow> string \<Rightarrow> bool option"

datatype route = ToAgent string event | ToWebhook string string event

definition route_one :: "agent_callback option \<Rightarrow> event \<Rightarrow> event_subscription \<Rightarrow> route list" where
  "route_one agent ev sub =
     (if \<not> matches_subscription (ev_body ev) (su_filters sub) then []
      else if should_block (ev_body ev) (su_delivery sub) then []
      else
        (let ev = ev\<lparr>ev_subscription := Some (su_id sub, su_name sub)\<rparr>;
             url = sd_webhook_url (su_delivery sub)
         in if (case agent of Some f \<Rightarrow> f ev (su_id sub) = Some True | None \<Rightarrow> False) then [ToAgent (su_id sub) ev]
            else if starts_with url ''internal://'' then []
            else [ToWebhook (su_id sub) url ev]))"

text \<open>The answer counts the routes; \<open>None\<close> is an exception, which the emitter of the event swallows.\<close>

definition dispatch ::
    "bool \<Rightarrow> agent_callback option \<Rightarrow> datetime \<Rightarrow> graph \<Rightarrow> event \<Rightarrow> subscription_cache \<Rightarrow>
     nat option \<times> route list \<times> subscription_cache" where
  "dispatch delivers agent now g ev cache =
     (if \<not> delivers then (Some 0, [], cache)
      else case load_subscriptions now g cache of
        (None, cache) \<Rightarrow> (None, [], cache)
      | (Some subs, cache) \<Rightarrow>
          (let routes = concat (map (route_one agent ev) subs)
           in (Some (length routes), routes, cache)))"

definition invalidate_cache :: "subscription_cache \<Rightarrow> subscription_cache" where
  "invalidate_cache cache = None"

section \<open>Where an event goes\<close>

fun route_subscription :: "route \<Rightarrow> string" where
  "route_subscription (ToAgent i ev) = i"
| "route_subscription (ToWebhook i url ev) = i"

fun route_event :: "route \<Rightarrow> event" where
  "route_event (ToAgent i ev) = ev"
| "route_event (ToWebhook i url ev) = ev"

lemma route_one_cases:
  "route_one agent ev sub = [] \<or>
   (\<exists>r. route_one agent ev sub = [r] \<and> route_subscription r = su_id sub \<and>
      route_event r = ev\<lparr>ev_subscription := Some (su_id sub, su_name sub)\<rparr>)"
  by (auto simp: route_one_def Let_def)

text \<open>Reading the nodes of a graph: every subscription comes from a node, with its id.\<close>

lemma read_subscription_id: "read_subscription n = Some (Some s) \<Longrightarrow> su_id s = nd_id n"
  by (auto simp: read_subscription_def Option.bind_eq_Some_conv split: if_splits)

lemma read_subscriptions_mem:
  "read_subscriptions ns = Some subs \<Longrightarrow> s \<in> set subs \<longleftrightarrow> (\<exists>n \<in> set ns. read_subscription n = Some (Some s))"
  by (induction ns arbitrary: subs) (auto simp: Option.bind_eq_Some_conv split: option.splits)

lemma read_subscriptions_distinct:
  "read_subscriptions ns = Some subs \<Longrightarrow> distinct (map nd_id ns) \<Longrightarrow> distinct (map su_id subs)"
proof (induction ns arbitrary: subs)
  case (Cons n ns)
  then obtain s ss where s: "read_subscription n = Some s" "read_subscriptions ns = Some ss"
      "subs = (case s of None \<Rightarrow> ss | Some x \<Rightarrow> x # ss)"
    by (auto simp: Option.bind_eq_Some_conv)
  have "su_id x \<notin> su_id ` set ss" if x: "s = Some x" for x
  proof
    assume "su_id x \<in> su_id ` set ss"
    then obtain y where y: "y \<in> set ss" "su_id y = su_id x" by auto
    then obtain n' where n': "n' \<in> set ns" "read_subscription n' = Some (Some y)"
      using read_subscriptions_mem [OF s(2)] by blast
    have "nd_id n' = nd_id n" using read_subscription_id [OF n'(2)] read_subscription_id [of n x] s(1) x y(2) by simp
    then show False using n'(1) Cons.prems(2) by (metis distinct.simps(2) image_eqI list.set_map list.simps(9))
  qed
  then show ?case using Cons.IH [OF s(2)] Cons.prems(2) by (cases s) (auto simp: s(3))
qed simp

lemma routes_of: "r \<in> set (route_one agent ev sub) \<Longrightarrow> route_subscription r = su_id sub"
  using route_one_cases [of agent ev sub] by auto

lemma one_route_per_subscription:
  "distinct (map su_id subs) \<Longrightarrow> distinct (map route_subscription (concat (map (route_one agent ev) subs)))"
proof (induction subs)
  case (Cons s subs)
  obtain rest where rest: "concat (map (route_one agent ev) subs) = rest" by blast
  have sub: "route_subscription r \<in> su_id ` set subs" if "r \<in> set rest" for r
    using that routes_of unfolding rest [symmetric] by fastforce
  have "distinct (map route_subscription rest)" using Cons rest by simp
  moreover have "su_id s \<notin> su_id ` set subs" using Cons.prems by simp
  ultimately have "distinct (map route_subscription (route_one agent ev s @ rest))"
    using route_one_cases [of agent ev s] sub by auto
  then show ?case by (simp add: rest)
qed simp

end
