(* ===== verification/EventProps.thy ===== *)
theory EventProps
  imports EventHistory EventDispatch GraphDemo
begin

text \<open>What the dispatcher and the history promise, over the graphs that runs of the store leave.\<close>

lemma value_of_key:
  assumes "distinct (dict_keys d)"
  shows "n \<in> set (dict_values d) \<longleftrightarrow> (\<exists>i. map_of d i = Some n)"
  using dict_item [OF assms] by force

definition taken :: "agent_callback option \<Rightarrow> event \<Rightarrow> event_subscription \<Rightarrow> bool" where
  "taken agent ev sub \<longleftrightarrow> (case agent of
     Some f \<Rightarrow> f (ev\<lparr>ev_subscription := Some (su_id sub, su_name sub)\<rparr>) (su_id sub) = Some True | None \<Rightarrow> False)"

definition wanted :: "agent_callback option \<Rightarrow> event \<Rightarrow> event_subscription \<Rightarrow> bool" where
  "wanted agent ev sub \<longleftrightarrow> matches_subscription (ev_body ev) (su_filters sub) \<and>
     \<not> should_block (ev_body ev) (su_delivery sub) \<and>
     (taken agent ev sub \<or> \<not> starts_with (sd_webhook_url (su_delivery sub)) ''internal://'')"

text \<open>Where the one route of a subscription leads.\<close>

definition destination :: "agent_callback option \<Rightarrow> event \<Rightarrow> event_subscription \<Rightarrow> route" where
  "destination agent ev sub =
     (let ev' = ev\<lparr>ev_subscription := Some (su_id sub, su_name sub)\<rparr>
      in if taken agent ev sub then ToAgent (su_id sub) ev'
         else ToWebhook (su_id sub) (sd_webhook_url (su_delivery sub)) ev')"

lemma route_one_wanted: "route_one agent ev sub = (if wanted agent ev sub then [destination agent ev sub] else [])"
  by (auto simp: route_one_def wanted_def destination_def taken_def Let_def split: option.splits)

lemma load_fresh:
  "load_subscriptions now g None =
     (case read_subscriptions (dict_values (g_nodes g)) of None \<Rightarrow> (None, None) | Some subs \<Rightarrow> (Some subs, Some (subs, now)))"
  by (simp add: load_subscriptions_def)

text \<open>C27: after any run of the store, with no subscriptions cached, an event is routed to exactly the
subscription nodes of the graph whose filters it matches and whose ignore lists do not name its origin
or session, each exactly once: to the agent if the agent took it, else to the webhook; a subscription the
agent did not take and whose address is internal (\<open>internal://\<close>) gets nothing. The routes of the next
30 seconds use the list just read, later ones read the graph again. This is so when every subscription
node reads; otherwise one of them does not, and the event is routed nowhere.\<close>

theorem dispatch_exact:
  fixes cfg :: graph_config and now t0 :: datetime and agent :: "agent_callback option"
  assumes "ops_ok ops"
  defines "g \<equiv> run_graph cfg ops (new_graph cfg t0)"
  shows "case read_subscriptions (dict_values (g_nodes g)) of
     None \<Rightarrow> dispatch True agent now g ev None = (None, [], None) \<and>
       (\<exists>i n. map_of (g_nodes g) i = Some n \<and> read_subscription n = None)
   | Some subs \<Rightarrow> \<exists>routes. dispatch True agent now g ev None = (Some (length routes), routes, Some (subs, now)) \<and>
    distinct (map route_subscription routes) \<and>
    (\<forall>r. r \<in> set routes \<longleftrightarrow> (\<exists>i n sub. map_of (g_nodes g) i = Some n \<and> read_subscription n = Some (Some sub) \<and>
       su_id sub = i \<and> wanted agent ev sub \<and> r = destination agent ev sub)) \<and>
    (\<forall>later g'. dispatch True agent later g' ev (Some (subs, now)) =
       (if later - now < CACHE_TTL_US then (Some (length routes), routes, Some (subs, now))
        else let (r, rs, c) = dispatch True agent later g' ev None
             in (r, rs, if r = None then Some (subs, now) else c)))"
proof (cases "read_subscriptions (dict_values (g_nodes g))")
  case None
  moreover have "\<exists>n \<in> set ns. read_subscription n = None" if "read_subscriptions ns = None" for ns
    using that by (induction ns) (auto simp: Option.bind_eq_None_conv)
  ultimately obtain n where "n \<in> set (dict_values (g_nodes g))" "read_subscription n = None" by blast
  moreover have "distinct (dict_keys (g_nodes g))"
    unfolding g_def using graph_inv_run [OF graph_inv_new assms(1)] by (simp add: graph_inv_def nodes_inv_def)
  ultimately show ?thesis using None value_of_key [of "g_nodes g" n] by (auto simp: dispatch_def load_fresh)
next
  case (Some subs)
  have inv: "graph_inv cfg g" unfolding g_def using graph_inv_run [OF graph_inv_new assms(1)] .
  then have keys: "distinct (dict_keys (g_nodes g))" and ids: "\<And>i n. map_of (g_nodes g) i = Some n \<Longrightarrow> nd_id n = i"
    by (auto simp: graph_inv_def nodes_inv_def)
  obtain routes where routes: "concat (map (route_one agent ev) subs) = routes" by blast
  have "map nd_id (dict_values (g_nodes g)) = dict_keys (g_nodes g)"
    using dict_item [OF keys] ids by auto
  then have "distinct (map nd_id (dict_values (g_nodes g)))" using keys by (simp only:)
  then have "distinct (map route_subscription routes)"
    using one_route_per_subscription read_subscriptions_distinct [OF Some] routes by blast
  moreover have "r \<in> set routes \<longleftrightarrow> (\<exists>i n sub. map_of (g_nodes g) i = Some n \<and> read_subscription n = Some (Some sub) \<and>
       su_id sub = i \<and> wanted agent ev sub \<and> r = destination agent ev sub)" for r
  proof -
    have "r \<in> set routes \<longleftrightarrow> (\<exists>sub \<in> set subs. wanted agent ev sub \<and> r = destination agent ev sub)"
      unfolding routes [symmetric] by (auto simp: route_one_wanted)
    also have "\<dots> \<longleftrightarrow> (\<exists>i n sub. map_of (g_nodes g) i = Some n \<and> read_subscription n = Some (Some sub) \<and>
        wanted agent ev sub \<and> r = destination agent ev sub)"
      using read_subscriptions_mem [OF Some] value_of_key [OF keys] by blast
    also have "\<dots> \<longleftrightarrow> (\<exists>i n sub. map_of (g_nodes g) i = Some n \<and> read_subscription n = Some (Some sub) \<and>
        su_id sub = i \<and> wanted agent ev sub \<and> r = destination agent ev sub)"
      using read_subscription_id ids by metis
    finally show ?thesis .
  qed
  moreover have "dispatch True agent now g ev None = (Some (length routes), routes, Some (subs, now))"
    using Some by (simp add: dispatch_def load_fresh routes)
  moreover have "dispatch True agent later g' ev (Some (subs, now)) =
       (if later - now < CACHE_TTL_US then (Some (length routes), routes, Some (subs, now))
        else let (r, rs, c) = dispatch True agent later g' ev None
             in (r, rs, if r = None then Some (subs, now) else c))" for later g'
    by (simp add: dispatch_def load_subscriptions_def routes Let_def split: option.split)
  ultimately show ?thesis unfolding Some option.case by blast
qed

text \<open>A subscription to everything that happens to nodes, with one ignored origin.\<close>

definition demo_sub :: node where
  "demo_sub = (demo_node ''s'' ''EventSubscription'' ''Watch'')
     \<lparr>nd_metadata := [(''delivery'', JObj [(''webhook_url'', JStr ''https://x''), (''ignore_origins'', JArr [JStr ''web''])])]\<rparr>"

definition demo_sub_ops :: "(graph_env \<times> graph_op) list" where
  "demo_sub_ops = [(demo_graph_env, AddNodes [demo_sub] [])]"

lemma demo_sub_ok: "ops_ok demo_sub_ops"
  by (simp add: ops_ok_def demo_sub_ops_def demo_env_ok demo_sub_def demo_node_def node_ok_def node_type_of_def
      node_kinds_def type_ok_def limit_list_text_def LIST_FIELD_TOTAL_LIMIT_def LIST_FIELD_ITEM_LIMIT_def iso_range_def)

lemma demo_sub_nodes:
  "dict_values (g_nodes (run_graph demo_graph_config demo_sub_ops (new_graph demo_graph_config 0))) =
     [demo_sub\<lparr>nd_embedding := Some [1]\<rparr>]"
  by (simp add: demo_sub_ops_def demo_sub_def demo_graph_defs add_nodes_def new_graph_def graph_init_def flush_def
     save_def Let_def put_node_def net_add_node_def known_node_def embed_nodes_def set_embedding_def
     node_type_of_def node_kinds_def emit_created_node_def node_event_def emit_event_def)

definition demo_subscription :: event_subscription where
  "demo_subscription = \<lparr>su_id = ''s'', su_name = ''Watch'',
     su_filters = \<lparr>sf_target = \<lparr>tf_entity_kind = NODE, tf_node_types = [], tf_relationship_types = []\<rparr>,
       sf_operations = [''create'', ''update'', ''delete''], sf_keywords = [],
       sf_federation = \<lparr>ff_scope = ''local_only'', ff_include_graph_ids = [], ff_max_distance = None\<rparr>\<rparr>,
     su_delivery = \<lparr>sd_webhook_url = ''https://x'', sd_ignore_origins = [''web''], sd_ignore_session_ids = []\<rparr>\<rparr>"

lemma demo_sub_read:
  "read_subscriptions [demo_sub\<lparr>nd_embedding := Some [1]\<rparr>] = Some [demo_subscription]"
  by (simp add: demo_sub_def demo_node_def demo_subscription_def read_subscription_def node_type_of_def node_kinds_def
     sub_obj_def parse_filters_def parse_target_def parse_federation_def parse_delivery_def field_str_def field_strs_def
     field_int_def required_str_def obj_get_def)

definition demo_graph_event :: event where
  "demo_graph_event = \<lparr>ev_id = ''v'', ev_occurred_at = 0,
     ev_body = \<lparr>ge_type = NODE_CREATE, ge_context = no_context, ge_kind = NODE, ge_id = ''a'', ge_entity_type = ''Actor'', ge_before = None,
       ge_after = Some [(''name'', JStr ''Alpha'')], ge_patch = None\<rparr>, ev_subscription = None\<rparr>"

theorem dispatch_exact_witness:
  "\<exists>routes. dispatch True None 0 (run_graph demo_graph_config demo_sub_ops (new_graph demo_graph_config 0)) demo_graph_event None =
     (Some (length routes), routes, Some ([demo_subscription], 0)) \<and> distinct (map route_subscription routes)"
  using dispatch_exact [OF demo_sub_ok, where cfg = demo_graph_config and ?t0.0 = 0 and agent = None and now = 0
      and ev = demo_graph_event]
    demo_sub_read demo_sub_nodes by auto

text \<open>One subscription node whose filters or delivery do not read, such as one whose entity kind is
misspelt, silences every subscriber: until the node is gone, an event that finds no list cached is
routed nowhere, the valid subscriptions of the graph included.\<close>

theorem malformed_subscription_silences:
  assumes "map_of (g_nodes g) i = Some n" and "read_subscription n = None"
  shows "dispatch True agent now g ev None = (None, [], None)"
proof -
  have "read_subscriptions ns = None" if "n \<in> set ns" for ns
    using that assms(2) by (induction ns) (auto split: bind_splits)
  then have "read_subscriptions (dict_values (g_nodes g)) = None"
    using map_of_SomeD [OF assms(1)] by force
  then show ?thesis by (simp add: dispatch_def load_fresh)
qed

text \<open>The misspelt kind, beside a subscription that is fine.\<close>

definition misspelt_sub :: node where
  "misspelt_sub = demo_sub\<lparr>nd_id := ''m'', nd_metadata :=
     [(''filters'', JObj [(''target'', JObj [(''entity_kind'', JStr ''Node'')])]),
      (''delivery'', JObj [(''webhook_url'', JStr ''https://y'')])]\<rparr>"

theorem malformed_subscription_silences_witness:
  "dispatch True None 0 ((new_graph demo_graph_config 0)\<lparr>g_nodes := [(''s'', demo_sub), (''m'', misspelt_sub)]\<rparr>) demo_graph_event None =
     (None, [], None)"
  by (rule malformed_subscription_silences [of _ "''m''" misspelt_sub])
    (simp_all add: misspelt_sub_def demo_sub_def demo_node_def read_subscription_def node_type_of_def
     node_kinds_def sub_obj_def parse_filters_def parse_target_def entity_kind_of_def)

theorem history_retention_witness:
  "get_recent (append_all [(0, [(''b'', JNull)])] (history_init (Some 2) None None
       (processes (Some 2) None [[(0, [(''a'', JNull)])]] [Some [(''old'', JNull)], None]))) 2 0 =
     [[(''b'', JNull)], [(''a'', JNull)]]"
  using history_retention [where n = 2 and k = 2 and rs = "[(0, [(''b'', JNull)])]" and interval = None
      and before = "[[(0, [(''a'', JNull)])]]" and lines = "[Some [(''old'', JNull)], None]"]
  by (simp add: List.map_filter_def)

end
