(* ===== verification/PyNet.thy ===== *)
theory PyNet
  imports PyStr "HOL-Library.Word"
begin

text \<open>
  What the source uses of Python's \<open>ipaddress\<close> and \<open>urllib.parse\<close> (release 3.11, the one the
  project builds on): IPv4 addresses as 32-bit and IPv6 addresses as 128-bit words, networks as an
  address and a prefix length, the parser of address literals, and the scheme and host of a URL.
\<close>

section \<open>Addresses and networks\<close>

datatype ip = V4 "32 word" | V6 "128 word"

type_synonym 'a network = "'a word \<times> nat"

definition in_net :: "'a::len word \<Rightarrow> 'a network \<Rightarrow> bool" where
  "in_net a n = (case n of (net, p) \<Rightarrow> drop_bit (LENGTH('a) - p) a = drop_bit (LENGTH('a) - p) net)"

text \<open>0/8, 10/8, 127/8, 169.254/16, 172.16/12, 192.0.0/24, 192.0.0.170/31, 192.0.2/24, 192.168/16,
  198.18/15, 198.51.100/24, 203.0.113/24, 240/4 and the broadcast address.\<close>

definition private_v4 :: "32 network list" where
  "private_v4 =
     [(0x00000000, 8), (0x0A000000, 8), (0x7F000000, 8), (0xA9FE0000, 16), (0xAC100000, 12), (0xC0000000, 24),
      (0xC00000AA, 31), (0xC0000200, 24), (0xC0A80000, 16), (0xC6120000, 15), (0xC6336400, 24), (0xCB007100, 24),
      (0xF0000000, 4), (0xFFFFFFFF, 32)]"

definition private_exceptions_v4 :: "32 network list" where
  "private_exceptions_v4 = [(0xC0000009, 32), (0xC000000A, 32)]"

text \<open>::1, ::, ::ffff:0:0/96, 64:ff9b:1::/48, 100::/64, 2001::/23, 2001:db8::/32, 2002::/16, fc00::/7
  and fe80::/10.\<close>

definition private_v6 :: "128 network list" where
  "private_v6 =
     [(1, 128), (0, 128), (0xFFFF00000000, 96), (0x0064FF9B000100000000000000000000, 48),
      (0x01000000000000000000000000000000, 64), (0x20010000000000000000000000000000, 23),
      (0x20010DB8000000000000000000000000, 32), (0x20020000000000000000000000000000, 16),
      (0xFC000000000000000000000000000000, 7), (0xFE800000000000000000000000000000, 10)]"

definition private_exceptions_v6 :: "128 network list" where
  "private_exceptions_v6 =
     [(0x20010001000000000000000000000001, 128), (0x20010001000000000000000000000002, 128),
      (0x20010003000000000000000000000000, 32), (0x20010004011200000000000000000000, 48),
      (0x20010020000000000000000000000000, 28), (0x20010030000000000000000000000000, 28)]"

definition reserved_v6 :: "128 network list" where
  "reserved_v6 =
     [(0, 8), (0x01000000000000000000000000000000, 8), (0x02000000000000000000000000000000, 7),
      (0x04000000000000000000000000000000, 6), (0x08000000000000000000000000000000, 5),
      (0x10000000000000000000000000000000, 4), (0x40000000000000000000000000000000, 3),
      (0x60000000000000000000000000000000, 3), (0x80000000000000000000000000000000, 3),
      (0xA0000000000000000000000000000000, 3), (0xC0000000000000000000000000000000, 3),
      (0xE0000000000000000000000000000000, 4), (0xF0000000000000000000000000000000, 5),
      (0xF8000000000000000000000000000000, 6), (0xFE000000000000000000000000000000, 9)]"

definition among :: "'a::len network list \<Rightarrow> 'a network list \<Rightarrow> 'a word \<Rightarrow> bool" where
  "among nets exceptions a = (list_ex (in_net a) nets \<and> \<not> list_ex (in_net a) exceptions)"

definition ipv4_mapped :: "128 word \<Rightarrow> 32 word option" where
  "ipv4_mapped a = (if drop_bit 32 a = 0xFFFF then Some (ucast a) else None)"

fun is_private :: "ip \<Rightarrow> bool" where
  "is_private (V4 a) = among private_v4 private_exceptions_v4 a"
| "is_private (V6 a) =
     (case ipv4_mapped a of
        Some b \<Rightarrow> among private_v4 private_exceptions_v4 b
      | None \<Rightarrow> among private_v6 private_exceptions_v6 a)"

fun is_loopback :: "ip \<Rightarrow> bool" where
  "is_loopback (V4 a) = in_net a (0x7F000000, 8)"
| "is_loopback (V6 a) = (a = 1)"

fun is_link_local :: "ip \<Rightarrow> bool" where
  "is_link_local (V4 a) = in_net a (0xA9FE0000, 16)"
| "is_link_local (V6 a) = in_net a (0xFE800000000000000000000000000000, 10)"

fun is_multicast :: "ip \<Rightarrow> bool" where
  "is_multicast (V4 a) = in_net a (0xE0000000, 4)"
| "is_multicast (V6 a) = in_net a (0xFF000000000000000000000000000000, 8)"

fun is_reserved :: "ip \<Rightarrow> bool" where
  "is_reserved (V4 a) = in_net a (0xF0000000, 4)"
| "is_reserved (V6 a) = list_ex (in_net a) reserved_v6"

section \<open>Address literals\<close>

definition dec_value :: "char \<Rightarrow> nat" where
  "dec_value c = code c - 48"

definition parse_octet :: "string \<Rightarrow> nat option" where
  "parse_octet s =
     (if s = [] \<or> \<not> list_all is_digit s \<or> 3 < length s \<or> (s \<noteq> ''0'' \<and> hd s = CHR ''0'') then None
      else (let n = foldl (\<lambda>n c. 10 * n + dec_value c) 0 s in if 255 < n then None else Some n))"

definition parse_v4 :: "string \<Rightarrow> 32 word option" where
  "parse_v4 s =
     (case map parse_octet (split_on (CHR ''.'') s) of
        [Some a, Some b, Some c, Some d] \<Rightarrow> Some (of_nat (((a * 256 + b) * 256 + c) * 256 + d))
      | _ \<Rightarrow> None)"

definition hex_value :: "char \<Rightarrow> nat option" where
  "hex_value c =
     (if is_digit c then Some (code c - 48)
      else if 97 \<le> code c \<and> code c \<le> 102 then Some (code c - 87)
      else if 65 \<le> code c \<and> code c \<le> 70 then Some (code c - 55) else None)"

text \<open>\<open>_parse_hextet\<close>; the empty string passes its tests and fails in \<open>int\<close>.\<close>

definition parse_hextet :: "string \<Rightarrow> nat option" where
  "parse_hextet s =
     (if s = [] \<or> list_ex (\<lambda>c. hex_value c = None) s \<or> 4 < length s then None
      else Some (foldl (\<lambda>n c. 16 * n + the (hex_value c)) 0 s))"

text \<open>
  The parts between the colons, a trailing IPv4 address as its two groups. A group in hand is its value.
\<close>

datatype group = Text string | Value nat

fun group_value :: "group \<Rightarrow> nat option" where
  "group_value (Text s) = parse_hextet s"
| "group_value (Value n) = Some n"

definition v6_parts :: "string \<Rightarrow> group list option" where
  "v6_parts s =
     (let ps = split_on (CHR '':'') s
      in if length ps < 3 then None
         else if CHR ''.'' \<in> set (last ps) then
           map_option (\<lambda>a. map Text (butlast ps) @ [Value (unat a div 65536), Value (unat a mod 65536)])
             (parse_v4 (last ps))
         else Some (map Text ps))"

definition skips :: "group list \<Rightarrow> nat list" where
  "skips ps = filter (\<lambda>i. ps ! i = Text '''') [1..<length ps - 1]"

fun values_of :: "group list \<Rightarrow> nat list option" where
  "values_of [] = Some []"
| "values_of (g # gs) = Option.bind (group_value g) (\<lambda>n. map_option ((#) n) (values_of gs))"

definition v6_groups :: "group list \<Rightarrow> nat list option" where
  "v6_groups ps =
     (if 9 < length ps then None
      else case skips ps of
        [] \<Rightarrow> if length ps = 8 then values_of ps else None
      | [i] \<Rightarrow>
          (let hi = (if hd ps = Text '''' then i - 1 else i);
               lo = (if last ps = Text '''' then length ps - i - 2 else length ps - i - 1)
           in if (hd ps = Text '''' \<and> hi \<noteq> 0) \<or> (last ps = Text '''' \<and> lo \<noteq> 0) \<or> 7 < hi + lo then None
              else Option.bind (values_of (take hi ps)) (\<lambda>as.
                map_option (\<lambda>bs. as @ replicate (8 - (hi + lo)) 0 @ bs) (values_of (drop (length ps - lo) ps))))
      | _ \<Rightarrow> None)"

definition parse_v6 :: "string \<Rightarrow> 128 word option" where
  "parse_v6 s =
     (let addr = takeWhile (\<lambda>c. c \<noteq> CHR ''%'') s; zone = drop (length addr) s
      in if CHR ''/'' \<in> set s \<or> zone = ''%'' \<or> CHR ''%'' \<in> set (tl zone) then None
         else map_option (\<lambda>ns. of_nat (foldl (\<lambda>n g. 65536 * n + g) 0 ns)) (Option.bind (v6_parts addr) v6_groups))"

definition ip_address :: "string \<Rightarrow> ip option" where
  "ip_address s = (case parse_v4 s of Some a \<Rightarrow> Some (V4 a) | None \<Rightarrow> map_option V6 (parse_v6 s))"

section \<open>URLs\<close>

text \<open>\<open>s.partition(c)\<close> as the parts before and after; \<open>s.rpartition(c)[2]\<close>.\<close>

definition before :: "char \<Rightarrow> string \<Rightarrow> string" where
  "before c s = takeWhile (\<lambda>x. x \<noteq> c) s"

definition after :: "char \<Rightarrow> string \<Rightarrow> string" where
  "after c s = tl (dropWhile (\<lambda>x. x \<noteq> c) s)"

definition after_last :: "char \<Rightarrow> string \<Rightarrow> string" where
  "after_last c s = rev (takeWhile (\<lambda>x. x \<noteq> c) (rev s))"

definition is_letter :: "char \<Rightarrow> bool" where
  "is_letter c = ((65 \<le> code c \<and> code c \<le> 90) \<or> (97 \<le> code c \<and> code c \<le> 122))"

definition scheme_char :: "char \<Rightarrow> bool" where
  "scheme_char c = (is_letter c \<or> is_digit c \<or> c \<in> set ''+-.'')"

text \<open>\<open>[...]\<close> holds an IPv6 address, or a version and a text (\<open>v1.x\<close>).\<close>

definition bracketed_host_ok :: "string \<Rightarrow> bool" where
  "bracketed_host_ok s =
     (if starts_with s ''v''
      then before (CHR ''.'') (tl s) \<noteq> [] \<and> list_all (\<lambda>c. hex_value c \<noteq> None) (before (CHR ''.'') (tl s)) \<and>
        after (CHR ''.'') (tl s) \<noteq> []
      else (case ip_address s of Some (V6 a) \<Rightarrow> True | _ \<Rightarrow> False))"

text \<open>\<open>urlparse\<close>: the scheme and the network location, \<open>None\<close> when it raises.\<close>

definition url_split :: "string \<Rightarrow> (string \<times> string) option" where
  "url_split url =
     (let url = filter (\<lambda>c. c \<notin> {CHR 0x09, CHR 0x0A, CHR 0x0D}) (dropWhile (\<lambda>c. code c \<le> 32) url);
          pre = before (CHR '':'') url;
          has = CHR '':'' \<in> set url \<and> pre \<noteq> [] \<and> is_letter (hd pre) \<and> list_all scheme_char pre;
          rest = (if has then after (CHR '':'') url else url);
          netloc = (if starts_with rest ''//'' then takeWhile (\<lambda>c. c \<notin> set ''/?#'') (drop 2 rest) else [])
      in if (CHR ''['' \<in> set netloc) \<noteq> (CHR '']'' \<in> set netloc) then None
         else if CHR ''['' \<in> set netloc \<and> \<not> bracketed_host_ok (before (CHR '']'') (after (CHR ''['') netloc)) then None
         else Some (if has then lower pre else [], netloc))"

text \<open>\<open>parsed.hostname\<close>; \<open>[]\<close> also where that is \<open>None\<close>.\<close>

definition hostname :: "string \<Rightarrow> string" where
  "hostname netloc =
     (let info = after_last (CHR ''@'') netloc;
          host = (if CHR ''['' \<in> set info then before (CHR '']'') (after (CHR ''['') info) else before (CHR '':'') info);
          name = before (CHR ''%'') host
      in lower name @ drop (length name) host)"

section \<open>Networks as intervals\<close>

lemma div_nat_eq_iff: "0 < m \<Longrightarrow> (n div m = q) \<longleftrightarrow> q * m \<le> n \<and> n < (q + 1) * m" for m n q :: nat
  by (metis Suc_eq_plus1 div_less_iff_less_mult div_nat_eqI mult.commute less_Suc_eq times_div_less_eq_dividend)

lemma in_net_interval:
  fixes a net :: "'a::len word"
  shows "in_net a (net, p) \<longleftrightarrow>
    unat net div 2 ^ (LENGTH('a) - p) * 2 ^ (LENGTH('a) - p) \<le> unat a \<and>
    unat a < (unat net div 2 ^ (LENGTH('a) - p) + 1) * 2 ^ (LENGTH('a) - p)"
proof -
  let ?k = "LENGTH('a) - p"
  have "in_net a (net, p) \<longleftrightarrow> unat a div 2 ^ ?k = unat net div 2 ^ ?k"
    by (simp only: in_net_def prod.case word_unat_eq_iff unat_drop_bit_eq) (simp only: drop_bit_eq_div)
  also have "\<dots> \<longleftrightarrow> unat net div 2 ^ ?k * 2 ^ ?k \<le> unat a \<and> unat a < (unat net div 2 ^ ?k + 1) * 2 ^ ?k"
    by (simp add: div_nat_eq_iff)
  finally show ?thesis .
qed

end
