(* ===== verification/EventDelivery.thy ===== *)
theory EventDelivery
  imports EventModels PyNet
begin

text \<open>
  Delivery of events to webhooks (\<open>backend/core/events/delivery.py\<close>): the check of a URL before it
  is requested, the request with its redirects, and the worker with its queue and its retries. The
  network is a parameter; its answers may depend on how many requests and checks came before, so a
  name may resolve differently each time.
\<close>

section \<open>The check of a URL\<close>

definition CGNAT :: "32 network" where "CGNAT = (0x64400000, 10)"

fun is_safe_ip :: "ip \<Rightarrow> bool" where
  "is_safe_ip (V4 a) =
     (\<not> in_net a CGNAT \<and>
      \<not> (is_private (V4 a) \<or> is_loopback (V4 a) \<or> is_link_local (V4 a) \<or> is_multicast (V4 a) \<or> is_reserved (V4 a)))"
| "is_safe_ip (V6 a) =
     (\<not> (is_private (V6 a) \<or> is_loopback (V6 a) \<or> is_link_local (V6 a) \<or> is_multicast (V6 a) \<or> is_reserved (V6 a)))"

text \<open>The addresses a host name resolves to, \<open>None\<close> when \<open>getaddrinfo\<close> raises.\<close>

type_synonym resolver = "string \<Rightarrow> string list option"

definition safe_address :: "string \<Rightarrow> bool" where
  "safe_address s = (case ip_address (before (CHR ''%'') s) of Some a \<Rightarrow> is_safe_ip a | None \<Rightarrow> False)"

definition is_safe_url :: "resolver \<Rightarrow> string \<Rightarrow> bool" where
  "is_safe_url resolve url =
     (case url_split url of
        None \<Rightarrow> False
      | Some (scheme, netloc) \<Rightarrow>
          (let host = hostname netloc
           in if scheme \<notin> {''http'', ''https''} then False
              else if host = [] then False
              else case ip_address host of
                Some a \<Rightarrow> is_safe_ip a
              | None \<Rightarrow>
                  (case resolve host of
                     None \<Rightarrow> False
                   | Some addrs \<Rightarrow> if addrs = [] then False else list_all safe_address addrs)))"

section \<open>Requests\<close>

datatype http_method = POST | GET

text \<open>
  An answer: status, \<open>is_redirect\<close> of the client library, the \<open>Location\<close> header or the empty text,
  the body; or what the client raises.
\<close>

datatype answer =
    Response int bool string string
  | TimedOut
  | RequestError string
  | OtherError string

record web =
  we_resolve :: "nat \<Rightarrow> resolver"
  we_send :: "nat \<Rightarrow> http_method \<Rightarrow> string \<Rightarrow> answer"
  we_join :: "string \<Rightarrow> string \<Rightarrow> string option"
  we_now :: "nat \<Rightarrow> datetime"

datatype web_action = Checked string bool | Sent http_method string

definition MAX_REDIRECTS :: nat where "MAX_REDIRECTS = 10"

datatype request_outcome =
    Answered int string
  | RedirectBlocked string
  | TooManyRedirects
  | NoAnswer string

definition check_url :: "web \<Rightarrow> string \<Rightarrow> web_action list \<Rightarrow> bool \<times> web_action list" where
  "check_url web url tr = (let ok = is_safe_url (we_resolve web (length tr)) url in (ok, tr @ [Checked url ok]))"

fun follow :: "web \<Rightarrow> nat \<Rightarrow> http_method \<Rightarrow> string \<Rightarrow> web_action list \<Rightarrow> request_outcome \<times> web_action list" where
  "follow web 0 m url tr = (TooManyRedirects, tr)"
| "follow web (Suc n) m url tr =
     (let ans = we_send web (length tr) m url; tr = tr @ [Sent m url]
      in case ans of
           TimedOut \<Rightarrow> (NoAnswer ''Request timed out'', tr)
         | RequestError e \<Rightarrow> (NoAnswer e, tr)
         | OtherError e \<Rightarrow> (NoAnswer (''Unexpected error: '' @ e), tr)
         | Response status redirect location body \<Rightarrow>
             (if \<not> redirect then (Answered status body, tr)
              else case we_join web url location of
                None \<Rightarrow> (NoAnswer ''Unexpected error: invalid URL'', tr)
              | Some next_url \<Rightarrow>
                  (let (ok, tr) = check_url web next_url tr
                   in if \<not> ok then (RedirectBlocked next_url, tr)
                      else follow web n (if status \<in> {301, 302, 303} then GET else m) next_url tr)))"

definition post_with_redirect_ssrf_check ::
    "web \<Rightarrow> string \<Rightarrow> web_action list \<Rightarrow> request_outcome \<times> web_action list" where
  "post_with_redirect_ssrf_check web url tr = follow web MAX_REDIRECTS POST url tr"

section \<open>The worker\<close>

record delivery_item =
  di_event :: event
  di_url :: string
  di_attempt :: int

datatype delivery_status = SUCCESS | FAILED | RETRYING | DROPPED

record delivery_result =
  dr_event_id :: string
  dr_subscription_id :: string
  dr_webhook_url :: string
  dr_status :: delivery_status
  dr_attempt :: int
  dr_max_attempts :: int
  dr_status_code :: "int option"
  dr_error_message :: "string option"
  dr_delivered_at :: "datetime option"

definition DEFAULT_MAX_ATTEMPTS :: int where "DEFAULT_MAX_ATTEMPTS = 3"
definition DEFAULT_BACKOFF_TIMES :: "rat list" where "DEFAULT_BACKOFF_TIMES = [1/2, 2, 5]"

text \<open>
  Threads are counted by where they stand: at the head of the loop, waiting for an item, or busy with
  one. \<open>dw_results\<close> is what the result callback was given, with the item; \<open>dw_slept\<close> the waits between
  attempts.
\<close>

record worker =
  dw_max_attempts :: int
  dw_backoff :: "rat list"
  dw_running :: bool
  dw_queue :: "delivery_item option list"
  dw_ready :: nat
  dw_waiting :: nat
  dw_busy :: "delivery_item list"
  dw_trace :: "web_action list"
  dw_results :: "(delivery_item \<times> delivery_result) list"
  dw_slept :: "rat list"

definition worker_init :: "int \<Rightarrow> rat list option \<Rightarrow> worker" where
  "worker_init max_attempts backoff_times =
     \<lparr>dw_max_attempts = max_attempts,
      dw_backoff = (case backoff_times of Some b \<Rightarrow> if b \<noteq> [] then b else DEFAULT_BACKOFF_TIMES | None \<Rightarrow> DEFAULT_BACKOFF_TIMES),
      dw_running = False, dw_queue = [], dw_ready = 0, dw_waiting = 0, dw_busy = [], dw_trace = [],
      dw_results = [], dw_slept = []\<rparr>"

definition worker_start :: "worker \<Rightarrow> worker" where
  "worker_start w = (if dw_running w then w else w\<lparr>dw_running := True, dw_ready := dw_ready w + 1\<rparr>)"

definition worker_stop :: "worker \<Rightarrow> worker" where
  "worker_stop w = (if \<not> dw_running w then w else w\<lparr>dw_running := False, dw_queue := dw_queue w @ [None]\<rparr>)"

definition enqueue :: "event \<Rightarrow> string \<Rightarrow> worker \<Rightarrow> worker" where
  "enqueue ev url w = w\<lparr>dw_queue := dw_queue w @ [Some \<lparr>di_event = ev, di_url = url, di_attempt = 1\<rparr>]\<rparr>"

definition result_of ::
    "worker \<Rightarrow> delivery_item \<Rightarrow> delivery_status \<Rightarrow> int option \<Rightarrow> string option \<Rightarrow> datetime option \<Rightarrow> delivery_result" where
  "result_of w it status c message delivered =
     \<lparr>dr_event_id = ev_id (di_event it),
      dr_subscription_id = (case ev_subscription (di_event it) of Some (i, name) \<Rightarrow> i | None \<Rightarrow> []),
      dr_webhook_url = di_url it, dr_status = status, dr_attempt = di_attempt it, dr_max_attempts = dw_max_attempts w,
      dr_status_code = c, dr_error_message = message, dr_delivered_at = delivered\<rparr>"

definition report ::
    "delivery_item \<Rightarrow> delivery_status \<Rightarrow> int option \<Rightarrow> string option \<Rightarrow> datetime option \<Rightarrow> worker \<Rightarrow> worker" where
  "report it status c message delivered w =
     w\<lparr>dw_results := dw_results w @ [(it, result_of w it status c message delivered)]\<rparr>"

definition handle_failure :: "delivery_item \<Rightarrow> int option \<Rightarrow> string option \<Rightarrow> worker \<Rightarrow> worker" where
  "handle_failure it c message w =
     (if di_attempt it < dw_max_attempts w then
        (let i = min (di_attempt it - 1) (int (length (dw_backoff w)) - 1);
             w = report it RETRYING c message None w
         in w\<lparr>dw_slept := dw_slept w @ [dw_backoff w ! nat i],
              dw_queue := dw_queue w @ [Some (it\<lparr>di_attempt := di_attempt it + 1\<rparr>)]\<rparr>)
      else report it DROPPED c message None w)"

definition show_int :: "int \<Rightarrow> string" where
  "show_int n = (if n < 0 then ''-'' @ string_of_nat (nat (- n)) else string_of_nat (nat n))"

definition deliver :: "web \<Rightarrow> delivery_item \<Rightarrow> worker \<Rightarrow> worker" where
  "deliver web it w =
     (let (ok, tr) = check_url web (di_url it) (dw_trace w); w = w\<lparr>dw_trace := tr\<rparr>
      in if \<not> ok then
           report it DROPPED None (Some ''Blocked attempt to send webhook to restricted IP address'') None w
         else
           (let (res, tr) = post_with_redirect_ssrf_check web (di_url it) (dw_trace w); w = w\<lparr>dw_trace := tr\<rparr>
            in case res of
                 Answered status body \<Rightarrow>
                   (if 200 \<le> status \<and> status < 300
                    then report it SUCCESS (Some status) None (Some (we_now web (length tr))) w
                    else handle_failure it (Some status)
                      (Some (''HTTP '' @ show_int status @ '': '' @ take 200 body)) w)
               | RedirectBlocked next_url \<Rightarrow>
                   report it DROPPED None (Some (''Blocked redirect to restricted address: '' @ next_url)) None w
               | TooManyRedirects \<Rightarrow> report it DROPPED None (Some ''Exceeded redirect limit'') None w
               | NoAnswer e \<Rightarrow> handle_failure it None (Some e) w))"

section \<open>The loop of a thread\<close>

text \<open>The test of \<open>_running\<close>, the \<open>get\<close> of the queue (or its timeout), and the work on an item.\<close>

definition loop_check :: "worker \<Rightarrow> worker" where
  "loop_check w =
     (if dw_ready w = 0 then w
      else let w = w\<lparr>dw_ready := dw_ready w - 1\<rparr>
           in if dw_running w then w\<lparr>dw_waiting := dw_waiting w + 1\<rparr> else w)"

definition loop_get :: "worker \<Rightarrow> worker" where
  "loop_get w =
     (if dw_waiting w = 0 then w
      else let w = w\<lparr>dw_waiting := dw_waiting w - 1\<rparr>
           in case dw_queue w of
                [] \<Rightarrow> w\<lparr>dw_ready := dw_ready w + 1\<rparr>
              | None # q \<Rightarrow> w\<lparr>dw_queue := q\<rparr>
              | Some it # q \<Rightarrow> w\<lparr>dw_queue := q, dw_busy := dw_busy w @ [it]\<rparr>)"

definition loop_deliver :: "web \<Rightarrow> worker \<Rightarrow> worker" where
  "loop_deliver web w =
     (case dw_busy w of
        [] \<Rightarrow> w
      | it # b \<Rightarrow> (let w = deliver web it (w\<lparr>dw_busy := b\<rparr>) in w\<lparr>dw_ready := dw_ready w + 1\<rparr>))"

datatype worker_op = Start | Stop | Enqueue event string | LoopCheck | LoopGet | LoopDeliver

fun worker_step :: "web \<Rightarrow> worker_op \<Rightarrow> worker \<Rightarrow> worker" where
  "worker_step web Start w = worker_start w"
| "worker_step web Stop w = worker_stop w"
| "worker_step web (Enqueue ev url) w = enqueue ev url w"
| "worker_step web LoopCheck w = loop_check w"
| "worker_step web LoopGet w = loop_get w"
| "worker_step web LoopDeliver w = loop_deliver web w"

definition run_worker :: "web \<Rightarrow> worker_op list \<Rightarrow> worker \<Rightarrow> worker" where
  "run_worker web ops w = fold (worker_step web) ops w"

end
