(* ===== verification/AddressProps.thy ===== *)
theory AddressProps
  imports EventDelivery
begin

text \<open>Which addresses the check of a URL lets through, as intervals instead of networks.\<close>

definition between :: "nat \<Rightarrow> nat \<Rightarrow> nat \<Rightarrow> bool" where
  "between lo hi n \<longleftrightarrow> lo \<le> n \<and> n < Suc hi"

text \<open>An address from its four numbers.\<close>

abbreviation quad :: "nat \<Rightarrow> nat \<Rightarrow> nat \<Rightarrow> nat \<Rightarrow> nat" where
  "quad a b c d \<equiv> ((a * 256 + b) * 256 + c) * 256 + d"

lemmas net_intervals = in_net_interval between_def

lemma private_v4_intervals:
  "among private_v4 private_exceptions_v4 a \<longleftrightarrow>
     (between (quad 0 0 0 0) (quad 0 255 255 255) (unat a) \<or> between (quad 10 0 0 0) (quad 10 255 255 255) (unat a) \<or>
      between (quad 127 0 0 0) (quad 127 255 255 255) (unat a) \<or>
      between (quad 169 254 0 0) (quad 169 254 255 255) (unat a) \<or>
      between (quad 172 16 0 0) (quad 172 31 255 255) (unat a) \<or>
      between (quad 192 0 0 0) (quad 192 0 0 8) (unat a) \<or> between (quad 192 0 0 11) (quad 192 0 0 255) (unat a) \<or>
      between (quad 192 0 2 0) (quad 192 0 2 255) (unat a) \<or> between (quad 192 168 0 0) (quad 192 168 255 255) (unat a) \<or>
      between (quad 198 18 0 0) (quad 198 19 255 255) (unat a) \<or>
      between (quad 198 51 100 0) (quad 198 51 100 255) (unat a) \<or>
      between (quad 203 0 113 0) (quad 203 0 113 255) (unat a) \<or> between (quad 240 0 0 0) (quad 255 255 255 255) (unat a))"
proof -
  let ?n = "unat a" and ?x = "in_net a (0xC0000000, 24) \<or> in_net a (0xC00000AA, 31)"
  have e: "in_net a (0xC0000009, 32) \<longleftrightarrow> ?n = quad 192 0 0 9" "in_net a (0xC000000A, 32) \<longleftrightarrow> ?n = quad 192 0 0 10"
    by (auto simp: in_net_interval)
  have s: "in_net a (0xFFFFFFFF, 32) \<Longrightarrow> in_net a (0xF0000000, 4)" by (simp add: in_net_interval)
  have x: "?x \<longleftrightarrow> between (quad 192 0 0 0) (quad 192 0 0 8) ?n \<or> between (quad 192 0 0 11) (quad 192 0 0 255) ?n"
    if "?n \<noteq> quad 192 0 0 9" "?n \<noteq> quad 192 0 0 10"
    using that by (auto simp: net_intervals)
  have nets: "in_net a (0x00000000, 8) \<longleftrightarrow> between (quad 0 0 0 0) (quad 0 255 255 255) ?n"
      "in_net a (0x0A000000, 8) \<longleftrightarrow> between (quad 10 0 0 0) (quad 10 255 255 255) ?n"
      "in_net a (0x7F000000, 8) \<longleftrightarrow> between (quad 127 0 0 0) (quad 127 255 255 255) ?n"
      "in_net a (0xA9FE0000, 16) \<longleftrightarrow> between (quad 169 254 0 0) (quad 169 254 255 255) ?n"
      "in_net a (0xAC100000, 12) \<longleftrightarrow> between (quad 172 16 0 0) (quad 172 31 255 255) ?n"
      "in_net a (0xC0000200, 24) \<longleftrightarrow> between (quad 192 0 2 0) (quad 192 0 2 255) ?n"
      "in_net a (0xC0A80000, 16) \<longleftrightarrow> between (quad 192 168 0 0) (quad 192 168 255 255) ?n"
      "in_net a (0xC6120000, 15) \<longleftrightarrow> between (quad 198 18 0 0) (quad 198 19 255 255) ?n"
      "in_net a (0xC6336400, 24) \<longleftrightarrow> between (quad 198 51 100 0) (quad 198 51 100 255) ?n"
      "in_net a (0xCB007100, 24) \<longleftrightarrow> between (quad 203 0 113 0) (quad 203 0 113 255) ?n"
      "in_net a (0xF0000000, 4) \<longleftrightarrow> between (quad 240 0 0 0) (quad 255 255 255 255) ?n"
    by (simp_all add: net_intervals)
  show ?thesis
  proof (cases "?n = quad 192 0 0 9 \<or> ?n = quad 192 0 0 10")
    case True
    then have "\<not> among private_v4 private_exceptions_v4 a" using e by (auto simp: among_def private_exceptions_v4_def)
    moreover have "\<not> between lo hi ?n" if "?n < lo \<or> hi < ?n" for lo hi using that by (auto simp: between_def)
    ultimately show ?thesis using True by auto
  next
    case False
    then have "\<not> list_ex (in_net a) private_exceptions_v4" using e by (simp add: private_exceptions_v4_def)
    then have "among private_v4 private_exceptions_v4 a \<longleftrightarrow> list_ex (in_net a) private_v4" by (simp add: among_def)
    also have "\<dots> \<longleftrightarrow> ?x \<or> list_ex (in_net a) (filter (\<lambda>n. n \<noteq> (0xC0000000, 24) \<and> n \<noteq> (0xC00000AA, 31)) private_v4)"
      by (auto simp: list_ex_iff private_v4_def)
    also have "\<dots> \<longleftrightarrow> ?x \<or> in_net a (0x00000000, 8) \<or> in_net a (0x0A000000, 8) \<or> in_net a (0x7F000000, 8) \<or>
        in_net a (0xA9FE0000, 16) \<or> in_net a (0xAC100000, 12) \<or> in_net a (0xC0000200, 24) \<or> in_net a (0xC0A80000, 16) \<or>
        in_net a (0xC6120000, 15) \<or> in_net a (0xC6336400, 24) \<or> in_net a (0xCB007100, 24) \<or> in_net a (0xF0000000, 4)"
      using s by (auto simp: private_v4_def)
    finally show ?thesis using x False unfolding nets by blast
  qed
qed

text \<open>Globally routable unicast, less the blocks set aside for protocols, documentation and 6to4.\<close>

definition public_v6 :: "128 word \<Rightarrow> bool" where
  "public_v6 a \<longleftrightarrow> drop_bit 125 a = 1 \<and> \<not> in_net a (0x20010DB8000000000000000000000000, 32) \<and>
     \<not> in_net a (0x20020000000000000000000000000000, 16) \<and>
     (in_net a (0x20010000000000000000000000000000, 23) \<longrightarrow> list_ex (in_net a) private_exceptions_v6)"

lemma mapped_reserved: "ipv4_mapped a \<noteq> None \<Longrightarrow> list_ex (in_net a) reserved_v6"
proof -
  assume "ipv4_mapped a \<noteq> None"
  then have "drop_bit 32 (unat a) = 0xFFFF"
    by (auto simp: ipv4_mapped_def simp flip: unat_drop_bit_eq split: if_splits)
  then have "unat a < 0x1000000000000" by (simp add: drop_bit_eq_div div_nat_eq_iff)
  then have "in_net a (0, 8)" by (simp add: in_net_interval)
  then show ?thesis by (simp add: reserved_v6_def)
qed

lemma special_v6:
  "in_net a (0x20010DB8000000000000000000000000, 32) \<or> in_net a (0x20020000000000000000000000000000, 16) \<Longrightarrow>
   \<not> list_ex (in_net a) private_exceptions_v6"
  by (auto simp: private_exceptions_v6_def in_net_interval)

text \<open>The networks from \<open>4000::\<close> on, by their first 16 bits.\<close>

lemma ranges_v6:
  fixes a :: "128 word"
  shows "in_net a (0x40000000000000000000000000000000, 3) \<longleftrightarrow> 0x4000 * 2 ^ 112 \<le> unat a \<and> unat a < 0x6000 * 2 ^ 112"
    "in_net a (0x60000000000000000000000000000000, 3) \<longleftrightarrow> 0x6000 * 2 ^ 112 \<le> unat a \<and> unat a < 0x8000 * 2 ^ 112"
    "in_net a (0x80000000000000000000000000000000, 3) \<longleftrightarrow> 0x8000 * 2 ^ 112 \<le> unat a \<and> unat a < 0xA000 * 2 ^ 112"
    "in_net a (0xA0000000000000000000000000000000, 3) \<longleftrightarrow> 0xA000 * 2 ^ 112 \<le> unat a \<and> unat a < 0xC000 * 2 ^ 112"
    "in_net a (0xC0000000000000000000000000000000, 3) \<longleftrightarrow> 0xC000 * 2 ^ 112 \<le> unat a \<and> unat a < 0xE000 * 2 ^ 112"
    "in_net a (0xE0000000000000000000000000000000, 4) \<longleftrightarrow> 0xE000 * 2 ^ 112 \<le> unat a \<and> unat a < 0xF000 * 2 ^ 112"
    "in_net a (0xF0000000000000000000000000000000, 5) \<longleftrightarrow> 0xF000 * 2 ^ 112 \<le> unat a \<and> unat a < 0xF800 * 2 ^ 112"
    "in_net a (0xF8000000000000000000000000000000, 6) \<longleftrightarrow> 0xF800 * 2 ^ 112 \<le> unat a \<and> unat a < 0xFC00 * 2 ^ 112"
    "in_net a (0xFC000000000000000000000000000000, 7) \<longleftrightarrow> 0xFC00 * 2 ^ 112 \<le> unat a \<and> unat a < 0xFE00 * 2 ^ 112"
    "in_net a (0xFE000000000000000000000000000000, 9) \<longleftrightarrow> 0xFE00 * 2 ^ 112 \<le> unat a \<and> unat a < 0xFE80 * 2 ^ 112"
    "in_net a (0xFE800000000000000000000000000000, 10) \<longleftrightarrow> 0xFE80 * 2 ^ 112 \<le> unat a \<and> unat a < 0xFEC0 * 2 ^ 112"
    "in_net a (0xFEC00000000000000000000000000000, 10) \<longleftrightarrow> 0xFEC0 * 2 ^ 112 \<le> unat a \<and> unat a < 0xFF00 * 2 ^ 112"
    "in_net a (0xFF000000000000000000000000000000, 8) \<longleftrightarrow> 0xFF00 * 2 ^ 112 \<le> unat a"
  using unsigned_less [of a, where 'a = nat] by (simp_all add: in_net_interval)

text \<open>The others lie below.\<close>

lemma low_v6:
  "2 ^ 126 \<le> unat a \<Longrightarrow> list_ex (in_net a) private_v6 \<longleftrightarrow>
     in_net a (0xFC000000000000000000000000000000, 7) \<or> in_net a (0xFE800000000000000000000000000000, 10)"
  "2 ^ 126 \<le> unat a \<Longrightarrow> list_ex (in_net a) reserved_v6 \<longleftrightarrow>
     list_ex (in_net a) (drop 6 reserved_v6)"
proof -
  assume n: "2 ^ 126 \<le> unat a"
  have "\<not> in_net a x" if "x \<in> set (take 8 private_v6) \<union> set (take 6 reserved_v6)" for x
    using that n by (auto simp: private_v6_def reserved_v6_def in_net_interval)
  then have l: "\<not> list_ex (in_net a) (take 8 private_v6)" "\<not> list_ex (in_net a) (take 6 reserved_v6)"
    by (auto simp: list_ex_iff)
  have "list_ex (in_net a) private_v6 \<longleftrightarrow> list_ex (in_net a) (drop 8 private_v6)"
    using l(1) by (metis append_take_drop_id list_ex_append)
  then show "list_ex (in_net a) private_v6 \<longleftrightarrow>
     in_net a (0xFC000000000000000000000000000000, 7) \<or> in_net a (0xFE800000000000000000000000000000, 10)"
    by (simp add: private_v6_def)
  show "list_ex (in_net a) reserved_v6 \<longleftrightarrow> list_ex (in_net a) (drop 6 reserved_v6)"
    using l(2) by (metis append_take_drop_id list_ex_append)
qed

text \<open>A case analysis along ascending bounds.\<close>

fun steps :: "nat \<Rightarrow> nat list \<Rightarrow> nat \<Rightarrow> bool \<Rightarrow> bool" where
  "steps lo [] n P = (lo \<le> n \<longrightarrow> P)"
| "steps lo (t # ts) n P = ((lo \<le> n \<and> n < t \<longrightarrow> P) \<and> steps t ts n P)"

lemma steps_rule: "steps lo ts n P \<Longrightarrow> lo \<le> n \<Longrightarrow> P"
  by (induction lo ts n P rule: steps.induct) (auto simp: not_less)

lemma high_v6:
  assumes "2 ^ 126 \<le> unat a"
  shows "\<not> list_ex (in_net a) private_exceptions_v6" and
    "\<not> in_net a (0xFEC00000000000000000000000000000, 10) \<longleftrightarrow>
     list_ex (in_net a) private_v6 \<or> is_link_local (V6 a) \<or> is_multicast (V6 a) \<or> list_ex (in_net a) reserved_v6"
proof -
  let ?n = "unat a"
  have top: "?n < 2 ^ 128" using unsigned_less [of a] by simp
  show "\<not> list_ex (in_net a) private_exceptions_v6" using assms by (simp add: private_exceptions_v6_def in_net_interval)
  let ?goal = "\<not> in_net a (0xFEC00000000000000000000000000000, 10) \<longleftrightarrow>
     list_ex (in_net a) private_v6 \<or> is_link_local (V6 a) \<or> is_multicast (V6 a) \<or> list_ex (in_net a) reserved_v6"
  have "steps (2 ^ 126)
      (map (\<lambda>k. k * 2 ^ 112) [0x6000, 0x8000, 0xA000, 0xC000, 0xE000, 0xF000, 0xF800, 0xFC00, 0xFE00, 0xFE80, 0xFEC0, 0xFF00])
      ?n ?goal"
    unfolding list.map steps.simps
    by (insert top assms, intro conjI impI; (elim conjE)?; simp add: low_v6; simp add: reserved_v6_def ranges_v6)
  then show ?goal using assms by (rule steps_rule)
qed

lemma safe_v6:
  "is_safe_ip (V6 a) \<longleftrightarrow> public_v6 a \<or> in_net a (0xFEC00000000000000000000000000000, 10)"
proof -
  let ?n = "unat a"
  have top: "?n < 2 ^ 128" using unsigned_less [of a] by simp
  have unicast: "drop_bit 125 a = 1 \<longleftrightarrow> in_net a (0x20000000000000000000000000000000, 3)"
    by (simp add: in_net_def)
  show ?thesis
  proof (cases "ipv4_mapped a")
    case (Some b)
    then have r: "in_net a (0xFFFF00000000, 96)" by (auto simp: ipv4_mapped_def in_net_def split: if_splits)
    have "list_ex (in_net a) reserved_v6" using mapped_reserved Some by simp
    moreover have "\<not> drop_bit 125 a = 1" "\<not> in_net a (0xFEC00000000000000000000000000000, 10)"
      using r unfolding unicast by (auto simp: in_net_interval)
    ultimately show ?thesis by (simp add: public_v6_def)
  next
    case None
    have m: "\<not> in_net a (0xFFFF00000000, 96)" using None by (auto simp: ipv4_mapped_def in_net_def split: if_splits)
    have one: "a = 1 \<longleftrightarrow> ?n = 1" by (simp add: word_unat_eq_iff)
    show ?thesis
    proof (cases "drop_bit 125 a = 1")
      case True
      then have n: "2 ^ 125 \<le> ?n" "?n < 2 ^ 126" unfolding unicast by (simp_all add: in_net_interval)
      then have "\<not> list_ex (in_net a) reserved_v6" "\<not> is_loopback (V6 a)" "\<not> is_link_local (V6 a)"
          "\<not> is_multicast (V6 a)" "\<not> in_net a (0xFEC00000000000000000000000000000, 10)"
        by (simp_all add: reserved_v6_def in_net_interval one)
      moreover have "list_ex (in_net a) private_v6 \<longleftrightarrow> in_net a (0x20010000000000000000000000000000, 23) \<or>
          in_net a (0x20010DB8000000000000000000000000, 32) \<or> in_net a (0x20020000000000000000000000000000, 16)"
      proof -
        have "\<not> in_net a (1, 128)" "\<not> in_net a (0, 128)" "\<not> in_net a (0x0064FF9B000100000000000000000000, 48)"
            "\<not> in_net a (0x01000000000000000000000000000000, 64)" "\<not> in_net a (0xFC000000000000000000000000000000, 7)"
            "\<not> in_net a (0xFE800000000000000000000000000000, 10)"
          using n by (simp_all add: in_net_interval)
        then show ?thesis using m by (simp add: private_v6_def)
      qed
      then have "is_private (V6 a) \<longleftrightarrow> \<not> public_v6 a"
        using None True special_v6 [of a] by (auto simp: among_def public_v6_def)
      ultimately show ?thesis by simp
    next
      case False
      then have n: "?n < 2 ^ 125 \<or> 2 ^ 126 \<le> ?n" unfolding unicast by (auto simp: in_net_interval)
      have "is_safe_ip (V6 a) \<longleftrightarrow> in_net a (0xFEC00000000000000000000000000000, 10)"
      proof (cases "2 ^ 126 \<le> ?n")
        case True
        then show ?thesis using high_v6 [of a] None one by (auto simp: among_def)
      next
        case False
        with n have "?n < 2 ^ 125" by simp
        then have "list_ex (in_net a) reserved_v6" "\<not> in_net a (0xFEC00000000000000000000000000000, 10)"
          using one by (simp_all add: reserved_v6_def in_net_interval) linarith
        then show ?thesis by simp
      qed
      then show ?thesis using False by (simp add: public_v6_def)
    qed
  qed
qed

text \<open>C31: the check lets an IPv4 address through exactly when it lies outside every special-purpose
block, the shared address space 100.64.0.0/10 and all multicast included. It lets an IPv6 address
through exactly when it is globally routable unicast outside the documentation, protocol and 6to4
blocks, so no address that embeds an IPv4 one, or is site-local, which it should not be.\<close>

theorem safe_address_ranges:
  "(is_safe_ip (V4 a) \<longleftrightarrow>
     \<not> between (quad 0 0 0 0) (quad 0 255 255 255) (unat a) \<and> \<not> between (quad 10 0 0 0) (quad 10 255 255 255) (unat a) \<and>
     \<not> between (quad 100 64 0 0) (quad 100 127 255 255) (unat a) \<and>
     \<not> between (quad 127 0 0 0) (quad 127 255 255 255) (unat a) \<and>
     \<not> between (quad 169 254 0 0) (quad 169 254 255 255) (unat a) \<and>
     \<not> between (quad 172 16 0 0) (quad 172 31 255 255) (unat a) \<and>
     \<not> between (quad 192 0 0 0) (quad 192 0 0 8) (unat a) \<and> \<not> between (quad 192 0 0 11) (quad 192 0 0 255) (unat a) \<and>
     \<not> between (quad 192 0 2 0) (quad 192 0 2 255) (unat a) \<and>
     \<not> between (quad 192 168 0 0) (quad 192 168 255 255) (unat a) \<and>
     \<not> between (quad 198 18 0 0) (quad 198 19 255 255) (unat a) \<and>
     \<not> between (quad 198 51 100 0) (quad 198 51 100 255) (unat a) \<and>
     \<not> between (quad 203 0 113 0) (quad 203 0 113 255) (unat a) \<and>
     \<not> between (quad 224 0 0 0) (quad 255 255 255 255) (unat a)) \<and>
   (is_safe_ip (V6 b) \<longleftrightarrow> public_v6 b \<or> in_net b (0xFEC00000000000000000000000000000, 10))"
proof -
  let ?n = "unat a"
  have nets: "in_net a CGNAT \<longleftrightarrow> between (quad 100 64 0 0) (quad 100 127 255 255) ?n"
      "in_net a (0x7F000000, 8) \<longleftrightarrow> between (quad 127 0 0 0) (quad 127 255 255 255) ?n"
      "in_net a (0xA9FE0000, 16) \<longleftrightarrow> between (quad 169 254 0 0) (quad 169 254 255 255) ?n"
      "in_net a (0xE0000000, 4) \<longleftrightarrow> between (quad 224 0 0 0) (quad 239 255 255 255) ?n"
      "in_net a (0xF0000000, 4) \<longleftrightarrow> between (quad 240 0 0 0) (quad 255 255 255 255) ?n"
    by (simp_all add: CGNAT_def net_intervals)
  have top: "between (quad 224 0 0 0) (quad 255 255 255 255) ?n \<longleftrightarrow>
      between (quad 224 0 0 0) (quad 239 255 255 255) ?n \<or> between (quad 240 0 0 0) (quad 255 255 255 255) ?n"
    by (auto simp: between_def)
  have "is_safe_ip (V4 a) \<longleftrightarrow> \<not> in_net a CGNAT \<and> \<not> among private_v4 private_exceptions_v4 a \<and>
      \<not> in_net a (0x7F000000, 8) \<and> \<not> in_net a (0xA9FE0000, 16) \<and> \<not> in_net a (0xE0000000, 4) \<and> \<not> in_net a (0xF0000000, 4)"
    by simp
  then show ?thesis unfolding private_v4_intervals nets top safe_v6 by blast
qed

text \<open>A URL with a site-local address passes the check, one with a private address does not.\<close>

lemmas parse_defs = parse_v4_def parse_octet_def parse_v6_def v6_parts_def v6_groups_def skips_def parse_hextet_def
  hex_value_def dec_value_def is_digit_def code_def ip_address_def upt_conv_Cons

lemma six_zeros: "replicate 6 x = [x, x, x, x, x, x]"
  by (simp add: eval_nat_numeral)

lemma site_local_host: "ip_address ''fec0::1'' = Some (V6 0xFEC00000000000000000000000000001)"
  by (simp add: parse_defs six_zeros)

lemma private_host: "ip_address ''10.0.0.1'' = Some (V4 0x0A000001)"
  by (simp add: parse_defs)

lemmas url_defs = url_split_def before_def after_def after_last_def is_letter_def scheme_char_def bracketed_host_ok_def
  hostname_def lower_def lower_char_def is_digit_def code_def

lemma site_local_is_safe: "is_safe_url resolve ''http://[fec0::1]/admin''"
proof -
  have "url_split ''http://[fec0::1]/admin'' = Some (''http'', ''[fec0::1]'')"
    by (simp add: url_defs site_local_host)
  moreover have "hostname ''[fec0::1]'' = ''fec0::1''" by (simp add: url_defs)
  moreover have "is_safe_ip (V6 0xFEC00000000000000000000000000001)" unfolding safe_v6 by (simp add: in_net_def)
  ultimately show ?thesis by (simp add: is_safe_url_def site_local_host)
qed

lemma private_is_unsafe: "\<not> is_safe_url resolve ''http://u@10.0.0.1:80/admin''"
proof -
  have "url_split ''http://u@10.0.0.1:80/admin'' = Some (''http'', ''u@10.0.0.1:80'')"
    by (simp add: url_defs)
  moreover have "hostname ''u@10.0.0.1:80'' = ''10.0.0.1''" by (simp add: url_defs)
  moreover have "\<not> is_safe_ip (V4 0x0A000001)"
    by (simp add: among_def private_v4_def private_exceptions_v4_def in_net_def)
  ultimately show ?thesis by (simp add: is_safe_url_def private_host)
qed

end
