(* ===== verification/DeliveryProps.thy ===== *)
theory DeliveryProps
  imports AddressProps "HOL-Library.Multiset"
begin

text \<open>
  What the delivery of webhooks promises: every request was checked, no event is lost or delivered
  twice, and the retries end.
\<close>

section \<open>One attempt\<close>

text \<open>A trace: every check tells what the check says at that moment, every request follows the check of its URL.\<close>

definition action_ok :: "web \<Rightarrow> web_action list \<Rightarrow> web_action \<Rightarrow> bool" where
  "action_ok web tr a \<longleftrightarrow> (case a of
     Checked u ok \<Rightarrow> ok = is_safe_url (we_resolve web (length tr)) u
   | Sent m u \<Rightarrow> tr \<noteq> [] \<and> last tr = Checked u True)"

definition guarded :: "web \<Rightarrow> web_action list \<Rightarrow> bool" where
  "guarded web tr \<longleftrightarrow> (\<forall>i < length tr. action_ok web (take i tr) (tr ! i))"

lemma guarded_nil [simp]: "guarded web []"
  by (simp add: guarded_def)

lemma guarded_snoc [simp]: "guarded web (tr @ [a]) \<longleftrightarrow> guarded web tr \<and> action_ok web tr a"
  by (auto simp: guarded_def nth_append less_Suc_eq)

fun is_sent :: "web_action \<Rightarrow> bool" where
  "is_sent (Sent m u) = True"
| "is_sent (Checked u ok) = False"

definition sent :: "web_action list \<Rightarrow> nat" where
  "sent tr = length (filter is_sent tr)"

lemma sent_simps [simp]: "sent [] = 0" "sent (tr @ [Sent m u]) = Suc (sent tr)" "sent (tr @ [Checked u ok]) = sent tr"
  by (simp_all add: sent_def)

lemma follow_guarded:
  "guarded web tr \<Longrightarrow> tr \<noteq> [] \<Longrightarrow> last tr = Checked url True \<Longrightarrow> follow web n m url tr = (res, tr') \<Longrightarrow>
   guarded web tr' \<and> sent tr' \<le> sent tr + n"
proof (induction n arbitrary: m url tr)
  case (Suc n)
  have g: "guarded web (tr @ [Sent m url])" using Suc.prems by (simp add: action_ok_def)
  show ?case
  proof (cases "we_send web (length tr) m url")
    case ans: (Response status redirect location body)
    show ?thesis
    proof (cases "redirect \<and> we_join web url location \<noteq> None")
      case True
      then obtain u where u: "redirect" "we_join web url location = Some u" by auto
      let ?tr = "tr @ [Sent m url]"
      obtain ok where ok: "ok = is_safe_url (we_resolve web (length ?tr)) u" by blast
      have g2: "guarded web (?tr @ [Checked u ok])"
        using g ok by (simp only: guarded_snoc) (simp add: action_ok_def)
      have s2: "sent (?tr @ [Checked u ok]) = Suc (sent tr)" by (simp only: sent_simps)
      show ?thesis
      proof (cases ok)
        case True
        let ?m = "if status \<in> {301, 302, 303} then GET else m"
        have f: "follow web n ?m u (?tr @ [Checked u True]) = (res, tr')"
          using Suc.prems(4) ans u ok True by (simp add: check_url_def split: if_splits)
        have "guarded web tr' \<and> sent tr' \<le> sent (?tr @ [Checked u True]) + n"
          using Suc.IH [OF _ _ _ f] g2 ok True by simp
        then show ?thesis using s2 True by simp
      next
        case False
        have "tr' = ?tr @ [Checked u ok]"
          using Suc.prems(4) ans u ok False by (simp add: check_url_def split: if_splits)
        then show ?thesis using g2 s2 by simp
      qed
    next
      case False
      then have "tr' = tr @ [Sent m url]" using Suc.prems(4) ans by (auto simp: Let_def split: if_splits option.splits)
      then show ?thesis using g by simp
    qed
  qed (use Suc.prems g in auto)
qed simp

text \<open>What an attempt does to the worker: one result, and either the end of the item or its next attempt.\<close>

definition final :: "delivery_status \<Rightarrow> bool" where
  "final s \<longleftrightarrow> s = SUCCESS \<or> s = DROPPED"

definition delivery_frame :: "worker \<Rightarrow> worker \<Rightarrow> bool" where
  "delivery_frame w w' \<longleftrightarrow> dw_max_attempts w' = dw_max_attempts w \<and> dw_running w' = dw_running w \<and>
     dw_ready w' = dw_ready w \<and> dw_waiting w' = dw_waiting w \<and> dw_busy w' = dw_busy w"

definition ended :: "delivery_item \<Rightarrow> worker \<Rightarrow> worker \<Rightarrow> bool" where
  "ended it w w' \<longleftrightarrow> delivery_frame w w' \<and> dw_queue w' = dw_queue w \<and>
     (\<exists>r. dw_results w' = dw_results w @ [(it, r)] \<and> final (dr_status r) \<and> dr_attempt r = di_attempt it)"

definition retried :: "delivery_item \<Rightarrow> worker \<Rightarrow> worker \<Rightarrow> bool" where
  "retried it w w' \<longleftrightarrow> delivery_frame w w' \<and> di_attempt it < dw_max_attempts w \<and>
     dw_queue w' = dw_queue w @ [Some (it\<lparr>di_attempt := di_attempt it + 1\<rparr>)] \<and>
     (\<exists>r. dw_results w' = dw_results w @ [(it, r)] \<and> dr_status r = RETRYING \<and> dr_attempt r = di_attempt it)"

lemma handle_failure_effect: "ended it w (handle_failure it c e w) \<or> retried it w (handle_failure it c e w)"
  by (auto simp: handle_failure_def report_def result_of_def ended_def retried_def delivery_frame_def final_def Let_def)

lemma report_effect: "final s \<Longrightarrow> ended it w (report it s c e d w)"
  by (auto simp: report_def result_of_def ended_def delivery_frame_def)

lemma trace_effect:
  "ended it (w\<lparr>dw_trace := tr\<rparr>) w' \<longleftrightarrow> ended it w w'" "retried it (w\<lparr>dw_trace := tr\<rparr>) w' \<longleftrightarrow> retried it w w'"
  by (simp_all add: ended_def retried_def delivery_frame_def)

lemma deliver_effect: "ended it w (deliver web it w) \<or> retried it w (deliver web it w)"
proof -
  obtain ok tr where c: "check_url web (di_url it) (dw_trace w) = (ok, tr)" by fastforce
  obtain res tr' where f: "post_with_redirect_ssrf_check web (di_url it) tr = (res, tr')" by fastforce
  have t: "ended it w x \<longleftrightarrow> ended it (w\<lparr>dw_trace := a\<rparr>) x" "retried it w x \<longleftrightarrow> retried it (w\<lparr>dw_trace := a\<rparr>) x" for x a
    by (simp_all add: trace_effect)
  show ?thesis
  proof (cases ok)
    case False
    then have "deliver web it w = report it DROPPED None
        (Some ''Blocked attempt to send webhook to restricted IP address'') None (w\<lparr>dw_trace := tr\<rparr>)"
      by (simp add: deliver_def c)
    then show ?thesis using report_effect [of DROPPED it "w\<lparr>dw_trace := tr\<rparr>"] by (simp add: final_def trace_effect)
  next
    case True
    let ?w = "w\<lparr>dw_trace := tr'\<rparr>"
    have e: "ended it ?w (deliver web it w) \<or> retried it ?w (deliver web it w)"
      using True handle_failure_effect [of it ?w] report_effect [of _ it ?w]
      by (cases res) (simp_all add: deliver_def c f final_def Let_def)
    then show ?thesis by (simp add: trace_effect)
  qed
qed

lemma handle_failure_trace [simp]: "dw_trace (handle_failure it c e w) = dw_trace w"
  by (simp add: handle_failure_def report_def Let_def)

lemma report_trace [simp]: "dw_trace (report it s c e d w) = dw_trace w"
  by (simp add: report_def)

lemma deliver_trace:
  assumes "guarded web (dw_trace w)"
  shows "guarded web (dw_trace (deliver web it w)) \<and> sent (dw_trace (deliver web it w)) \<le> sent (dw_trace w) + MAX_REDIRECTS"
proof -
  let ?ok = "is_safe_url (we_resolve web (length (dw_trace w))) (di_url it)"
  let ?tr = "dw_trace w @ [Checked (di_url it) ?ok]"
  have g: "guarded web ?tr" using assms by (simp add: action_ok_def)
  obtain res tr' where f: "follow web MAX_REDIRECTS POST (di_url it) ?tr = (res, tr')" by fastforce
  show ?thesis
  proof (cases ?ok)
    case False
    then have "dw_trace (deliver web it w) = ?tr" by (simp add: deliver_def check_url_def)
    then show ?thesis using g by simp
  next
    case True
    then have "dw_trace (deliver web it w) = tr'"
      using f by (simp add: deliver_def check_url_def post_with_redirect_ssrf_check_def Let_def split: request_outcome.split)
    moreover have "guarded web tr' \<and> sent tr' \<le> sent ?tr + MAX_REDIRECTS"
      using follow_guarded [OF g _ _ f] True by simp
    ultimately show ?thesis by simp
  qed
qed

section \<open>Runs of the worker\<close>

definition job_of :: "delivery_item \<Rightarrow> event \<times> string" where
  "job_of it = (di_event it, di_url it)"

definition queued :: "worker \<Rightarrow> delivery_item list" where
  "queued w = concat (map (\<lambda>x. case x of None \<Rightarrow> [] | Some it \<Rightarrow> [it]) (dw_queue w))"

definition finals :: "worker \<Rightarrow> (event \<times> string) list" where
  "finals w = map (\<lambda>(it, r). job_of it) (filter (\<lambda>(it, r). final (dr_status r)) (dw_results w))"

fun enqueued :: "worker_op list \<Rightarrow> (event \<times> string) list" where
  "enqueued [] = []"
| "enqueued (Enqueue ev url # ops) = (ev, url) # enqueued ops"
| "enqueued (op # ops) = enqueued ops"

definition items :: "worker \<Rightarrow> delivery_item list" where
  "items w = queued w @ dw_busy w"

definition worker_inv :: "web \<Rightarrow> (event \<times> string) list \<Rightarrow> worker \<Rightarrow> bool" where
  "worker_inv web jobs w \<longleftrightarrow> mset jobs = mset (map job_of (items w)) + mset (finals w) \<and>
     (\<forall>it \<in> set (items w). 1 \<le> di_attempt it \<and> di_attempt it \<le> max 1 (dw_max_attempts w)) \<and>
     (\<forall>(it, r) \<in> set (dw_results w). 1 \<le> dr_attempt r \<and> dr_attempt r \<le> max 1 (dw_max_attempts w)) \<and>
     guarded web (dw_trace w) \<and> sent (dw_trace w) \<le> MAX_REDIRECTS * length (dw_results w)"

lemma worker_inv_init: "worker_inv web [] (worker_init m b)"
  by (simp add: worker_inv_def worker_init_def items_def queued_def finals_def)

lemma worker_inv_cong:
  assumes "dw_queue w' = dw_queue w" and "dw_busy w' = dw_busy w" and "dw_results w' = dw_results w"
    and "dw_trace w' = dw_trace w" and "dw_max_attempts w' = dw_max_attempts w"
  shows "worker_inv web jobs w' = worker_inv web jobs w"
  using assms by (simp add: worker_inv_def items_def queued_def finals_def)

lemma worker_inv_enqueue:
  "worker_inv web jobs w \<Longrightarrow> worker_inv web (jobs @ [(ev, url)]) (enqueue ev url w)"
  by (auto simp: worker_inv_def items_def queued_def finals_def enqueue_def job_of_def)

lemma worker_inv_stop: "worker_inv web jobs w \<Longrightarrow> worker_inv web jobs (worker_stop w)"
  by (auto simp: worker_inv_def items_def queued_def finals_def worker_stop_def)

lemma worker_inv_get:
  assumes inv: "worker_inv web jobs w"
  shows "worker_inv web jobs (loop_get w)"
proof (cases "dw_queue w")
  case Nil
  then show ?thesis using inv by (auto simp: loop_get_def worker_inv_def items_def queued_def finals_def)
next
  case (Cons x q)
  then show ?thesis using inv
    by (cases x) (auto simp: loop_get_def worker_inv_def items_def queued_def finals_def)
qed

lemma worker_inv_deliver:
  assumes inv: "worker_inv web jobs w" and b: "dw_busy w = it # b"
  shows "worker_inv web jobs (deliver web it (w\<lparr>dw_busy := b\<rparr>))"
proof -
  let ?w = "w\<lparr>dw_busy := b\<rparr>"
  let ?w' = "deliver web it ?w"
  have i: "items w = queued ?w @ it # b" using b by (simp add: items_def queued_def)
  have f: "finals ?w = finals w" by (simp add: finals_def)
  have jobs: "mset jobs = mset (map job_of (queued ?w @ it # b)) + mset (finals w)"
    and a: "\<forall>x \<in> set (queued ?w @ it # b). 1 \<le> di_attempt x \<and> di_attempt x \<le> max 1 (dw_max_attempts w)"
    and rs: "\<forall>(x, r) \<in> set (dw_results w). 1 \<le> dr_attempt r \<and> dr_attempt r \<le> max 1 (dw_max_attempts w)"
    and tr: "guarded web (dw_trace ?w)" and s: "sent (dw_trace ?w) \<le> MAX_REDIRECTS * length (dw_results w)"
    using inv unfolding worker_inv_def i by simp_all
  have tr': "guarded web (dw_trace ?w')" "sent (dw_trace ?w') \<le> sent (dw_trace ?w) + MAX_REDIRECTS"
    using deliver_trace [OF tr] by auto
  from deliver_effect [of it ?w web] show ?thesis
  proof
    assume e: "ended it ?w ?w'"
    then obtain r where r: "dw_results ?w' = dw_results w @ [(it, r)]" "final (dr_status r)" "dr_attempt r = di_attempt it"
      and q: "dw_queue ?w' = dw_queue ?w" and fr: "dw_busy ?w' = b" "dw_max_attempts ?w' = dw_max_attempts w"
      by (auto simp: ended_def delivery_frame_def)
    have "items ?w' = queued ?w @ b" using q fr by (simp add: items_def queued_def)
    moreover have "finals ?w' = finals w @ [job_of it]" using r by (simp add: finals_def)
    ultimately show ?thesis using jobs a rs r fr tr' s by (auto simp: worker_inv_def)
  next
    assume e: "retried it ?w ?w'"
    let ?it = "it\<lparr>di_attempt := di_attempt it + 1\<rparr>"
    obtain r where r: "dw_results ?w' = dw_results w @ [(it, r)]" "dr_status r = RETRYING" "dr_attempt r = di_attempt it"
      and q: "dw_queue ?w' = dw_queue ?w @ [Some ?it]" and fr: "dw_busy ?w' = b" "dw_max_attempts ?w' = dw_max_attempts w"
      and lt: "di_attempt it < dw_max_attempts w"
      using e by (auto simp: retried_def delivery_frame_def)
    have "items ?w' = queued ?w @ ?it # b" using q fr by (simp add: items_def queued_def)
    moreover have "finals ?w' = finals w" using r by (simp add: finals_def final_def)
    moreover have "job_of ?it = job_of it" by (simp add: job_of_def)
    ultimately show ?thesis using jobs a rs r fr lt tr' s by (auto simp: worker_inv_def)
  qed
qed

lemma worker_inv_step:
  assumes inv: "worker_inv web jobs w"
  shows "worker_inv web (jobs @ enqueued [op]) (worker_step web op w)"
proof (cases op)
  case Start
  then show ?thesis using inv worker_inv_cong [of "worker_start w" w] by (simp add: worker_start_def)
next
  case Stop
  then show ?thesis using worker_inv_stop inv by simp
next
  case (Enqueue ev url)
  then show ?thesis using worker_inv_enqueue inv by simp
next
  case LoopCheck
  then show ?thesis using inv worker_inv_cong [of "loop_check w" w] by (simp add: loop_check_def Let_def)
next
  case LoopGet
  then show ?thesis using worker_inv_get inv by simp
next
  case LoopDeliver
  show ?thesis
  proof (cases "dw_busy w")
    case Nil
    then show ?thesis using LoopDeliver inv by (simp add: loop_deliver_def)
  next
    case (Cons it b)
    let ?w = "deliver web it (w\<lparr>dw_busy := b\<rparr>)"
    have "worker_inv web jobs ?w" using worker_inv_deliver [OF inv Cons] .
    then show ?thesis using LoopDeliver Cons worker_inv_cong [of "?w\<lparr>dw_ready := dw_ready ?w + 1\<rparr>" ?w]
      by (simp add: loop_deliver_def Let_def)
  qed
qed

lemma enqueued_append [simp]: "enqueued (xs @ ys) = enqueued xs @ enqueued ys"
  by (induction xs rule: enqueued.induct) simp_all

lemma worker_inv_run: "worker_inv web (enqueued ops) (run_worker web ops (worker_init m b))"
proof (induction ops rule: rev_induct)
  case Nil
  then show ?case using worker_inv_init by (simp add: run_worker_def)
next
  case (snoc op ops)
  then show ?case using worker_inv_step [OF snoc.IH, of op] by (simp add: run_worker_def)
qed

lemma deliver_frame: "delivery_frame w (deliver web it w)"
  using deliver_effect [of it w web] by (auto simp: ended_def retried_def)

lemma max_attempts_step [simp]: "dw_max_attempts (worker_step web op w) = dw_max_attempts w"
  using deliver_frame by (cases op)
    (auto simp: worker_start_def worker_stop_def enqueue_def loop_check_def loop_get_def loop_deliver_def delivery_frame_def
     Let_def split: list.splits option.splits)

lemma run_worker_append [simp]: "run_worker web (xs @ ys) w = run_worker web ys (run_worker web xs w)"
  by (simp add: run_worker_def)

lemma run_worker_simps [simp]:
  "run_worker web [] w = w" "run_worker web (op # ops) w = run_worker web ops (worker_step web op w)"
  by (simp_all add: run_worker_def)

lemma max_attempts_run [simp]: "dw_max_attempts (run_worker web ops w) = dw_max_attempts w"
  by (induction ops arbitrary: w) simp_all

section \<open>The retries end\<close>

text \<open>One thread at the head of its loop, no sentinel in the queue.\<close>

definition lone :: "delivery_item list \<Rightarrow> worker \<Rightarrow> bool" where
  "lone its w \<longleftrightarrow> dw_running w \<and> dw_ready w = 1 \<and> dw_waiting w = 0 \<and> dw_busy w = [] \<and> dw_queue w = map Some its"

definition tries_left :: "int \<Rightarrow> delivery_item \<Rightarrow> nat" where
  "tries_left m it = nat (max 1 m - di_attempt it + 1)"

abbreviation turn :: "worker_op list" where
  "turn \<equiv> [LoopCheck, LoopGet, LoopDeliver]"

lemma turn_idle: "lone [] w \<Longrightarrow> lone [] (run_worker web turn w)"
  by (simp add: lone_def loop_check_def loop_get_def loop_deliver_def)

lemma turn_works:
  assumes l: "lone (it # its) w" and a: "di_attempt it \<le> max 1 (dw_max_attempts w)"
  shows "\<exists>its'. lone its' (run_worker web turn w) \<and>
    sum_list (map (tries_left (dw_max_attempts w)) its') < sum_list (map (tries_left (dw_max_attempts w)) (it # its)) \<and>
    (\<forall>x \<in> set its'. x \<in> set its \<or> di_attempt x \<le> dw_max_attempts w)"
proof -
  let ?m = "dw_max_attempts w" and ?w = "w\<lparr>dw_ready := 0, dw_waiting := 0, dw_queue := map Some its, dw_busy := []\<rparr>"
  let ?w' = "deliver web it ?w"
  have r: "run_worker web turn w = ?w'\<lparr>dw_ready := dw_ready ?w' + 1\<rparr>"
    using l by (simp add: lone_def loop_check_def loop_get_def loop_deliver_def Let_def)
  have pos: "1 \<le> tries_left ?m it" using a by (simp add: tries_left_def)
  from deliver_effect [of it ?w web] show ?thesis
  proof
    assume "ended it ?w ?w'"
    then have "lone its (run_worker web turn w)" using l unfolding r by (simp add: lone_def ended_def delivery_frame_def)
    then show ?thesis using pos by (intro exI [of _ its]) simp
  next
    assume e: "retried it ?w ?w'"
    let ?it = "it\<lparr>di_attempt := di_attempt it + 1\<rparr>"
    have "lone (its @ [?it]) (run_worker web turn w)" using l e unfolding r by (simp add: lone_def retried_def delivery_frame_def)
    moreover have "tries_left ?m ?it < tries_left ?m it" "di_attempt ?it \<le> ?m"
      using e by (auto simp: retried_def tries_left_def)
    ultimately show ?thesis by (intro exI [of _ "its @ [?it]"]) auto
  qed
qed

lemma turns_end:
  "lone its w \<Longrightarrow> \<forall>it \<in> set its. di_attempt it \<le> max 1 (dw_max_attempts w) \<Longrightarrow>
   sum_list (map (tries_left (dw_max_attempts w)) its) \<le> n \<Longrightarrow>
   lone [] (run_worker web (concat (replicate n turn)) w)"
proof (induction n arbitrary: its w)
  case 0
  have "its = []"
  proof (rule ccontr)
    assume "its \<noteq> []"
    then have "tries_left (dw_max_attempts w) (hd its) = 0" "di_attempt (hd its) \<le> max 1 (dw_max_attempts w)"
      using 0 by (simp_all add: sum_list_eq_0_iff)
    then show False by (simp add: tries_left_def)
  qed
  then show ?case using 0 by simp
next
  case (Suc n)
  let ?w = "run_worker web turn w"
  have m: "dw_max_attempts ?w = dw_max_attempts w" by (rule max_attempts_run)
  obtain its' where l: "lone its' ?w" "\<forall>it \<in> set its'. di_attempt it \<le> max 1 (dw_max_attempts w)"
    "sum_list (map (tries_left (dw_max_attempts w)) its') \<le> n"
  proof (cases its)
    case Nil
    then show ?thesis using that [of "[]"] turn_idle [of w web] Suc.prems(1) by simp
  next
    case (Cons it rest)
    have "lone (it # rest) w" "di_attempt it \<le> max 1 (dw_max_attempts w)" using Suc.prems Cons by simp_all
    from turn_works [OF this, of web] obtain its' where t: "lone its' ?w"
      "sum_list (map (tries_left (dw_max_attempts w)) its') < sum_list (map (tries_left (dw_max_attempts w)) (it # rest))"
      "\<forall>x \<in> set its'. x \<in> set rest \<or> di_attempt x \<le> dw_max_attempts w" by blast
    have "\<forall>it \<in> set its'. di_attempt it \<le> max 1 (dw_max_attempts w)" using t(3) Suc.prems(2) Cons by fastforce
    moreover have "sum_list (map (tries_left (dw_max_attempts w)) its') \<le> n" using t(2) Suc.prems(3) Cons by simp
    ultimately show ?thesis using that t(1) by blast
  qed
  have "lone [] (run_worker web (concat (replicate n turn)) ?w)" using Suc.IH [OF l(1)] l(2,3) m by simp
  then show ?case by simp
qed

lemma enqueue_jobs:
  "run_worker web (map (\<lambda>(ev, url). Enqueue ev url) jobs) w =
   w\<lparr>dw_queue := dw_queue w @ map (\<lambda>(ev, url). Some \<lparr>di_event = ev, di_url = url, di_attempt = 1\<rparr>) jobs\<rparr>"
  by (induction jobs arbitrary: w) (auto simp: enqueue_def)

lemma enqueued_jobs [simp]: "enqueued (map (\<lambda>(ev, url). Enqueue ev url) jobs) = jobs"
  by (induction jobs) auto

lemma enqueued_turns [simp]: "enqueued (concat (replicate n turn)) = []"
  by (induction n) simp_all

text \<open>C29: a started worker that is given any jobs and then left alone finishes all of them in as many
turns of its loop as the jobs have attempts, whatever the network answers: the queue and its hands are
empty, and every job has come to exactly one final result.\<close>

theorem delivery_terminates:
  assumes "length jobs * nat (max 1 m) \<le> n"
  shows "let w = run_worker web (Start # map (\<lambda>(ev, url). Enqueue ev url) jobs @ concat (replicate n [LoopCheck, LoopGet, LoopDeliver]))
               (worker_init m b)
    in dw_queue w = [] \<and> dw_busy w = [] \<and> mset (finals w) = mset jobs"
proof -
  let ?its = "map (\<lambda>(ev, url). \<lparr>di_event = ev, di_url = url, di_attempt = 1\<rparr>) jobs"
  let ?ops = "Start # map (\<lambda>(ev, url). Enqueue ev url) jobs"
  let ?w = "run_worker web ?ops (worker_init m b)"
  have m: "dw_max_attempts ?w = m" by (simp only: max_attempts_run) (simp add: worker_init_def)
  have l: "lone ?its ?w" by (auto simp: enqueue_jobs lone_def worker_start_def worker_init_def)
  have "sum_list (map (tries_left m) ?its) = length jobs * nat (max 1 m)"
    by (induction jobs) (auto simp: tries_left_def)
  moreover have "\<forall>it \<in> set ?its. di_attempt it \<le> max 1 m" by auto
  ultimately have "lone [] (run_worker web (concat (replicate n turn)) ?w)"
    using turns_end [OF l, of n web] assms unfolding m by simp
  moreover have "worker_inv web jobs (run_worker web (?ops @ concat (replicate n turn)) (worker_init m b))"
    using worker_inv_run [of web "?ops @ concat (replicate n turn)" m b] by simp
  ultimately show ?thesis by (simp add: lone_def worker_inv_def items_def queued_def Let_def)
qed

text \<open>C30: whatever is started, stopped, enqueued and whenever the threads of a worker take their steps,
every enqueued job is at any moment in the queue, in the hands of a thread, or has come to exactly one
final result, none is lost and none is delivered twice; and no job has more attempts than configured.\<close>

theorem no_job_lost:
  "let w = run_worker web ops (worker_init m b)
   in mset (enqueued ops) = mset (map job_of (queued w)) + mset (map job_of (dw_busy w)) + mset (finals w) \<and>
      list_all (\<lambda>(it, r). 1 \<le> dr_attempt r \<and> dr_attempt r \<le> max 1 m) (dw_results w)"
proof -
  let ?w = "run_worker web ops (worker_init m b)"
  have "dw_max_attempts ?w = m" by (simp add: worker_init_def)
  then show ?thesis using worker_inv_run [of web ops m b]
    by (auto simp: worker_inv_def items_def list_all_iff Let_def)
qed

text \<open>C28: whatever the worker does, no request leaves, redirects included, unless its very URL was found
safe just before, and there are at most ten requests for each attempt.\<close>

theorem requests_checked:
  fixes web :: web and ops :: "worker_op list" and m :: int and b :: "rat list option"
  defines "w \<equiv> run_worker web ops (worker_init m b)"
  assumes "i < length (dw_trace w)" and "dw_trace w ! i = Sent meth url"
  shows "0 < i \<and> dw_trace w ! (i - 1) = Checked url True \<and> is_safe_url (we_resolve web (i - 1)) url \<and>
    sent (dw_trace w) \<le> 10 * length (dw_results w)"
proof -
  let ?tr = "dw_trace w"
  have inv: "guarded web ?tr" "sent ?tr \<le> MAX_REDIRECTS * length (dw_results w)"
    using worker_inv_run [of web ops m b] by (simp_all add: worker_inv_def w_def)
  then have "action_ok web (take i ?tr) (Sent meth url)" using assms(2,3) by (metis guarded_def)
  then have i: "0 < i" "last (take i ?tr) = Checked url True" by (cases i; simp add: action_ok_def)+
  then have c: "?tr ! (i - 1) = Checked url True" using assms(2) by (cases i) (simp_all add: take_Suc_conv_app_nth)
  then have "action_ok web (take (i - 1) ?tr) (Checked url True)"
    using inv(1) assms(2) by (metis guarded_def less_imp_diff_less)
  then show ?thesis using i c inv(2) assms(2) by (simp add: action_ok_def MAX_REDIRECTS_def)
qed

section \<open>A restart that fails\<close>

definition deaf :: "worker \<Rightarrow> bool" where
  "deaf w \<longleftrightarrow> dw_running w \<and> dw_ready w = 0 \<and> dw_waiting w = 0 \<and> dw_busy w = []"

lemma deaf_step: "deaf w \<Longrightarrow> op \<noteq> Stop \<Longrightarrow> deaf (worker_step web op w) \<and> dw_results (worker_step web op w) = dw_results w"
  by (cases op) (auto simp: deaf_def worker_start_def enqueue_def loop_check_def loop_get_def loop_deliver_def)

lemma deaf_run: "deaf w \<Longrightarrow> Stop \<notin> set ops \<Longrightarrow> dw_results (run_worker web ops w) = dw_results w"
  by (induction ops arbitrary: w) (use deaf_step in auto)

text \<open>A worker that is stopped while it delivers an event and then started again never delivers
anything: the stopped thread leaves the sentinel in the queue, the new thread takes it and ends, and
\<open>start\<close> then does nothing because the worker counts as running.\<close>

theorem restarted_worker_is_deaf:
  assumes "Stop \<notin> set ops"
  shows "let w = run_worker web [Start, Enqueue ev url, LoopCheck, LoopGet, Stop, LoopDeliver, LoopCheck, Start, LoopCheck, LoopGet]
               (worker_init m b)
    in dw_running w \<and> dw_results (run_worker web ops w) = dw_results w"
proof -
  let ?w = "run_worker web [Start, Enqueue ev url, LoopCheck, LoopGet, Stop] (worker_init m b)"
  obtain it where w: "\<not> dw_running ?w" "dw_ready ?w = 0" "dw_waiting ?w = 0" "dw_busy ?w = [it]" "dw_queue ?w = [None]"
    by (simp add: worker_init_def worker_start_def enqueue_def loop_check_def loop_get_def worker_stop_def)
  let ?d = "deliver web it (?w\<lparr>dw_busy := []\<rparr>)"
  have d: "\<not> dw_running ?d" "dw_ready ?d = 0" "dw_waiting ?d = 0" "dw_busy ?d = []" "\<exists>q. dw_queue ?d = None # q"
    using deliver_effect [of it "?w\<lparr>dw_busy := []\<rparr>" web] w by (auto simp: ended_def retried_def delivery_frame_def)
  then obtain q where q: "dw_queue ?d = None # q" by blast
  have l: "worker_step web LoopDeliver ?w = ?d\<lparr>dw_ready := 1\<rparr>" using w d by (simp add: loop_deliver_def Let_def)
  have "deaf (run_worker web [LoopCheck, Start, LoopCheck, LoopGet] (worker_step web LoopDeliver ?w))"
    unfolding l using d q by (simp add: loop_check_def worker_start_def loop_get_def deaf_def)
  then have "deaf (run_worker web ([Start, Enqueue ev url, LoopCheck, LoopGet, Stop] @ [LoopDeliver] @ [LoopCheck, Start, LoopCheck, LoopGet])
      (worker_init m b))"
    by (simp only: run_worker_append run_worker_simps)
  then show ?thesis using deaf_run [OF _ assms] by (simp add: deaf_def Let_def)
qed

section \<open>Concrete inputs\<close>

definition demo_webhook :: event where
  "demo_webhook = \<lparr>ev_id = ''v'', ev_occurred_at = 0,
     ev_body = \<lparr>ge_type = NODE_DELETE, ge_context = no_context, ge_kind = NODE, ge_id = ''a'', ge_entity_type = ''Actor'',
       ge_before = None, ge_after = None, ge_patch = None\<rparr>, ev_subscription = None\<rparr>"

text \<open>A network that always fails.\<close>

definition dead_web :: web where
  "dead_web = \<lparr>we_resolve = (\<lambda>k host. None), we_send = (\<lambda>k m u. TimedOut), we_join = (\<lambda>u l. Some l), we_now = (\<lambda>k. 0)\<rparr>"

theorem delivery_terminates_witness:
  "let w = run_worker dead_web (Start # map (\<lambda>(ev, url). Enqueue ev url) [(demo_webhook, ''http://8.8.8.8/'')] @
             concat (replicate 3 [LoopCheck, LoopGet, LoopDeliver])) (worker_init 3 None)
   in dw_queue w = [] \<and> mset (finals w) = {#(demo_webhook, ''http://8.8.8.8/'')#}"
  using delivery_terminates [of "[(demo_webhook, ''http://8.8.8.8/'')]" 3 3 dead_web None] by (simp add: Let_def)

lemma public_host: "ip_address ''8.8.8.8'' = Some (V4 0x08080808)"
  by (simp add: parse_defs)

lemma public_is_safe: "is_safe_url resolve ''http://8.8.8.8/''"
proof -
  have "url_split ''http://8.8.8.8/'' = Some (''http'', ''8.8.8.8'')"
    by (simp add: url_defs)
  moreover have "hostname ''8.8.8.8'' = ''8.8.8.8''" by (simp add: url_defs)
  moreover have "is_safe_ip (V4 0x08080808)"
    by (simp add: among_def private_v4_def CGNAT_def in_net_def)
  ultimately show ?thesis by (simp add: is_safe_url_def public_host)
qed

definition demo_delivery :: "worker_op list" where
  "demo_delivery = [Start, Enqueue demo_webhook ''http://8.8.8.8/'', LoopCheck, LoopGet, LoopDeliver]"

lemma demo_delivery_trace:
  "dw_trace (run_worker dead_web demo_delivery (worker_init 3 None)) =
     [Checked ''http://8.8.8.8/'' True, Sent POST ''http://8.8.8.8/'']"
  by (simp add: demo_delivery_def dead_web_def worker_init_def worker_start_def enqueue_def loop_check_def loop_get_def
     loop_deliver_def deliver_def check_url_def public_is_safe post_with_redirect_ssrf_check_def MAX_REDIRECTS_def
     eval_nat_numeral Let_def)

theorem requests_checked_witness:
  "is_safe_url (we_resolve dead_web 0) ''http://8.8.8.8/'' \<and>
   sent (dw_trace (run_worker dead_web demo_delivery (worker_init 3 None))) \<le>
     10 * length (dw_results (run_worker dead_web demo_delivery (worker_init 3 None)))"
  using requests_checked [of 1 dead_web demo_delivery 3 None POST "''http://8.8.8.8/''"] by (simp add: demo_delivery_trace)

theorem restarted_worker_is_deaf_witness:
  "dw_running (run_worker dead_web [Start, Enqueue demo_webhook ''http://8.8.8.8/'', LoopCheck, LoopGet, Stop, LoopDeliver, LoopCheck,
     Start, LoopCheck, LoopGet] (worker_init 3 None))"
  using restarted_worker_is_deaf [of "[]" dead_web demo_webhook "''http://8.8.8.8/''" 3 None] by (simp add: Let_def)

end
