(* ===== verification/RequestContext.thy ===== *)
theory RequestContext
  imports PyStr
begin

text \<open>
  Who a request acts for and in which scope (\<open>backend/runtime/request_context.py\<close>): explicit inputs
  first, then request headers, then the environment of the process. Header values are strings.
\<close>

type_synonym environ = "string \<Rightarrow> string option"
type_synonym headers = "(string, string option) dict"

definition clean_string :: "string option \<Rightarrow> string" where
  "clean_string v = (case v of None \<Rightarrow> [] | Some s \<Rightarrow> strip s)"

definition coerce_headers :: "headers \<Rightarrow> (string, string) dict" where
  "coerce_headers hs = foldl (\<lambda>d (k, v). dict_set d (lower k) (clean_string v)) [] hs"

definition header :: "(string, string) dict \<Rightarrow> string \<Rightarrow> string" where
  "header hs name = (case map_of hs name of None \<Rightarrow> [] | Some v \<Rightarrow> v)"

text \<open>\<open>a or b or c\<close>.\<close>

definition first_of :: "string \<Rightarrow> string \<Rightarrow> string \<Rightarrow> string" where
  "first_of a b c = (if a \<noteq> [] then a else if b \<noteq> [] then b else c)"

definition input_source :: "string list \<Rightarrow> string list \<Rightarrow> string list \<Rightarrow> string" where
  "input_source overrides requested ambient =
     (if list_ex (\<lambda>s. s \<noteq> []) overrides then ''override''
      else if list_ex (\<lambda>s. s \<noteq> []) requested then ''request''
      else if list_ex (\<lambda>s. s \<noteq> []) ambient then ''environment''
      else ''default'')"

record actor_context =
  ac_actor_id :: string
  ac_actor_type :: string
  ac_is_authenticated :: bool
  ac_auth_source :: string
  ac_source :: string

definition request_actor_context ::
    "environ \<Rightarrow> headers \<Rightarrow> string option \<Rightarrow> string option \<Rightarrow> string option \<Rightarrow> actor_context" where
  "request_actor_context env headers actor_id actor_type auth_source =
     (let hs = coerce_headers headers;
          h = (\<lambda>name. header hs (''x-communityoverview-'' @ name));
          e = (\<lambda>name. clean_string (env (''COMMUNITYOVERVIEW_'' @ name)));
          i = first_of (clean_string actor_id) (h ''actor-id'') (e ''ACTOR_ID'');
          t = first_of (clean_string actor_type) (h ''actor-type'') (e ''ACTOR_TYPE'');
          s = first_of (clean_string auth_source) (h ''auth-source'') (e ''AUTH_SOURCE'')
      in \<lparr>ac_actor_id = i, ac_actor_type = t, ac_is_authenticated = (i \<noteq> []),
          ac_auth_source = (if s \<noteq> [] then s else if i \<noteq> [] then ''provided'' else ''anonymous''),
          ac_source = input_source (map clean_string [actor_id, actor_type, auth_source])
            (map h [''actor-id'', ''actor-type'', ''auth-source'']) (map e [''ACTOR_ID'', ''ACTOR_TYPE'', ''AUTH_SOURCE''])\<rparr>)"

text \<open>What may be shown of it: not the actor's id.\<close>

definition public_request_actor_context :: "actor_context \<Rightarrow> json_obj" where
  "public_request_actor_context c =
     [(''actor_type'', JStr (ac_actor_type c)), (''is_authenticated'', JBool (ac_is_authenticated c)),
      (''auth_source'', JStr (ac_auth_source c)), (''has_actor'', JBool (ac_actor_id c \<noteq> [])),
      (''source'', JStr (ac_source c))]"

definition selection_mode :: "bool \<Rightarrow> bool \<Rightarrow> string" where
  "selection_mode workspace graph =
     (if workspace \<and> graph then ''workspace_graph'' else if workspace then ''workspace''
      else if graph then ''graph'' else ''default'')"

record scope_context =
  sc_workspace_id :: string
  sc_workspace_kind :: string
  sc_graph_id :: string
  sc_source :: string
  sc_selection_mode :: string

definition request_scope_context ::
    "environ \<Rightarrow> headers \<Rightarrow> string option \<Rightarrow> string option \<Rightarrow> string option \<Rightarrow> scope_context" where
  "request_scope_context env headers workspace_id workspace_kind graph_id =
     (let hs = coerce_headers headers;
          h = (\<lambda>name. header hs (''x-communityoverview-'' @ name));
          e = (\<lambda>name. clean_string (env (''COMMUNITYOVERVIEW_'' @ name)));
          w = first_of (clean_string workspace_id) (h ''workspace-id'') (e ''WORKSPACE_ID'');
          k = first_of (clean_string workspace_kind) (h ''workspace-kind'') (e ''WORKSPACE_KIND'');
          i = first_of (clean_string graph_id) (h ''graph-id'') (e ''GRAPH_SCOPE_ID'')
      in \<lparr>sc_workspace_id = w, sc_workspace_kind = k, sc_graph_id = i,
          sc_source = input_source (map clean_string [workspace_id, workspace_kind, graph_id])
            (map h [''workspace-id'', ''workspace-kind'', ''graph-id''])
            (map e [''WORKSPACE_ID'', ''WORKSPACE_KIND'', ''GRAPH_SCOPE_ID'']),
          sc_selection_mode = selection_mode (w \<noteq> []) (i \<noteq> [])\<rparr>)"

definition public_request_scope_context :: "scope_context \<Rightarrow> json_obj" where
  "public_request_scope_context c =
     [(''workspace_kind'', JStr (sc_workspace_kind c)), (''has_workspace'', JBool (sc_workspace_id c \<noteq> [])),
      (''has_graph'', JBool (sc_graph_id c \<noteq> [])),
      (''has_selection'', JBool (sc_workspace_id c \<noteq> [] \<or> sc_graph_id c \<noteq> [])),
      (''selection_mode'', JStr (sc_selection_mode c)), (''selection_source'', JStr (sc_source c)),
      (''source'', JStr (sc_source c))]"

end
