(* ===== verification/SavedViews.thy ===== *)
theory SavedViews
  imports SessionState GraphStore
begin

text \<open>
  The annotations kept in the metadata of a saved view: the check of a write and the cleaning of a
  read (\<open>backend/core/session_annotations.py\<close>), and the serialized form of nodes and edges
  (\<open>backend/service/serializers.py\<close>).
\<close>

section \<open>Annotations of a saved view\<close>

definition objects_of :: "json list \<Rightarrow> json_obj list" where
  "objects_of vs = concat (map (\<lambda>v. case v of JObj d \<Rightarrow> [d] | _ \<Rightarrow> []) vs)"

text \<open>
  What iterating \<open>document.get("annotations", []) or []\<close> yields that is an object: the keys of a dict
  and the characters of a string are none; a number or \<open>True\<close> raises, which is \<open>None\<close>.
\<close>

definition iterate :: "json \<Rightarrow> json_obj list option" where
  "iterate v =
     (if \<not> truthy v then Some []
      else case v of
        JArr vs \<Rightarrow> Some (objects_of vs)
      | JObj d \<Rightarrow> Some []
      | JStr s \<Rightarrow> Some []
      | _ \<Rightarrow> None)"

text \<open>
  The annotations in the order they are yielded, and whether the generator then raises. Nothing is
  yielded after that.
\<close>

definition iter_saved_view_annotations :: "json_obj \<Rightarrow> json_obj list \<times> bool" where
  "iter_saved_view_annotations metadata =
     (case (case obj_get metadata ''annotation_document'' of
              JObj document \<Rightarrow> iterate (obj_get document ''annotations'') | _ \<Rightarrow> Some []) of
        None \<Rightarrow> ([], True)
      | Some as \<Rightarrow>
          (as @ (case obj_get metadata ''annotations'' of JArr vs \<Rightarrow> objects_of vs | _ \<Rightarrow> []), False))"

datatype view_check = ViewOk | ViewRefused image_error | ViewRaises

definition saved_view_annotation_error :: "json_obj \<Rightarrow> view_check" where
  "saved_view_annotation_error metadata =
     (case iter_saved_view_annotations metadata of (as, raises) \<Rightarrow>
        (case List.map_filter (\<lambda>a. image_annotation_error a None) as of
           e # es \<Rightarrow> ViewRefused e
         | [] \<Rightarrow> if raises then ViewRaises else ViewOk))"

definition sanitize_annotation :: "json_obj \<Rightarrow> json_obj" where
  "sanitize_annotation a =
     (if annotation_type_of a \<noteq> Some ''image'' then a
      else case obj_get a ''image'' of
        JObj img \<Rightarrow>
          (let url = obj_get img ''url''
           in if url = JNull \<or> is_embedded_image_url url then a
              else dict_set a ''image'' (JObj (dict_del img ''url'')))
      | _ \<Rightarrow> a)"

definition sanitize_annotations :: "json list \<Rightarrow> json list" where
  "sanitize_annotations vs = map (\<lambda>v. case v of JObj a \<Rightarrow> JObj (sanitize_annotation a) | _ \<Rightarrow> v) vs"

definition sanitize_saved_view_metadata :: "json_obj \<Rightarrow> json_obj" where
  "sanitize_saved_view_metadata metadata =
     (let d = (case obj_get metadata ''annotation_document'' of
            JObj document \<Rightarrow>
              (case obj_get document ''annotations'' of
                 JArr vs \<Rightarrow>
                   (if sanitize_annotations vs = vs then metadata
                    else dict_set metadata ''annotation_document''
                      (JObj (dict_set document ''annotations'' (JArr (sanitize_annotations vs)))))
               | _ \<Rightarrow> metadata)
          | _ \<Rightarrow> metadata)
      in case obj_get metadata ''annotations'' of
           JArr vs \<Rightarrow>
             (if sanitize_annotations vs = vs then d
              else dict_set d ''annotations'' (JArr (sanitize_annotations vs)))
         | _ \<Rightarrow> d)"

section \<open>Serialized nodes and edges\<close>

definition SAVED_VIEW_NODE_TYPES :: "string list" where
  "SAVED_VIEW_NODE_TYPES = [''SavedView'', ''VisualizationView'']"

definition serialize_node :: "node \<Rightarrow> json_obj" where
  "serialize_node n =
     (let d = filter (\<lambda>(k, v). k \<noteq> ''embedding'') (node_to_dict n)
      in if node_type_str (nd_type n) \<in> set SAVED_VIEW_NODE_TYPES
         then dict_set d ''metadata'' (JObj (sanitize_saved_view_metadata (nd_metadata n)))
         else d)"

definition serialize_edge :: "edge \<Rightarrow> json_obj" where
  "serialize_edge e = edge_to_dict e"

text \<open>An annotation a viewer may render without reaching for another host.\<close>

definition embedded_only :: "json_obj \<Rightarrow> bool" where
  "embedded_only a \<longleftrightarrow> annotation_type_of a = Some ''image'' \<longrightarrow>
     (case obj_get a ''image'' of
        JObj img \<Rightarrow> obj_get img ''url'' = JNull \<or> is_embedded_image_url (obj_get img ''url'') | _ \<Rightarrow> True)"

end
