(* ===== verification/GraphAccess.thy ===== *)
theory GraphAccess
  imports RequestContext SavedViews GraphOps
begin

text \<open>
  Who may read and change which part of the graph (\<open>backend/runtime/authorization.py\<close> and
  \<open>backend/service/access.py\<close>). The hook is a parameter; the default one reads the mode from the
  environment. The request-scoped inputs are a record.
\<close>

section \<open>Narrowing\<close>

record narrowing =
  na_enabled :: bool
  na_allow_local :: bool
  na_include :: "string list"

definition no_narrowing :: narrowing where
  "no_narrowing = \<lparr>na_enabled = False, na_allow_local = True, na_include = []\<rparr>"

definition narrowing_matches :: "narrowing \<Rightarrow> string \<Rightarrow> bool" where
  "narrowing_matches na graph_id =
     (let i = strip graph_id
      in if \<not> na_enabled na then True
         else if i = [] then na_allow_local na
         else i \<in> set (na_include na))"

section \<open>Decisions\<close>

record auth_context =
  au_action :: string
  au_target :: string
  au_actor :: actor_context
  au_scope :: scope_context
  au_graph_id :: string

record auth_decision =
  de_allowed :: bool
  de_reason :: string
  de_mode :: string
  de_source :: string
  de_access :: narrowing

type_synonym auth_hook = "auth_context \<Rightarrow> auth_decision"

definition default_hook :: "environ \<Rightarrow> auth_hook" where
  "default_hook env c =
     (let raw = clean_string (env ''COMMUNITYOVERVIEW_AUTHORIZATION_MODE'');
          mode = (if lower raw \<noteq> [] then lower raw else ''permissive'')
      in if mode = ''deny-all'' then
           \<lparr>de_allowed = False, de_reason = ''Graph access is disabled by the current authorization mode.'',
            de_mode = mode, de_source = ''environment'', de_access = no_narrowing\<rparr>
         else if mode = ''read-only'' \<and> au_action c = ''mutate'' then
           \<lparr>de_allowed = False, de_reason = ''Graph mutations are disabled by the current authorization mode.'',
            de_mode = mode, de_source = ''environment'', de_access = no_narrowing\<rparr>
         else
           \<lparr>de_allowed = True, de_reason = [],
            de_mode = (if mode \<in> {''read-only'', ''deny-all''} then mode else ''permissive''),
            de_source = (if raw \<noteq> [] then ''environment'' else ''default''), de_access = no_narrowing\<rparr>)"

record request_inputs =
  ri_headers :: headers
  ri_actor_id :: "string option"
  ri_actor_type :: "string option"
  ri_auth_source :: "string option"
  ri_workspace_id :: "string option"
  ri_workspace_kind :: "string option"
  ri_graph_id :: "string option"

text \<open>Where a call of the service comes from: its hook, the environment and the request.\<close>

record caller =
  ca_hook :: auth_hook
  ca_environ :: environ
  ca_request :: request_inputs

definition authorization_context :: "caller \<Rightarrow> string \<Rightarrow> string \<Rightarrow> auth_context" where
  "authorization_context ca action target =
     (let r = ca_request ca;
          scope = request_scope_context (ca_environ ca) (ri_headers r) (ri_workspace_id r) (ri_workspace_kind r) (ri_graph_id r)
      in \<lparr>au_action = action, au_target = target,
          au_actor = request_actor_context (ca_environ ca) (ri_headers r) (ri_actor_id r) (ri_actor_type r) (ri_auth_source r),
          au_scope = scope, au_graph_id = sc_graph_id scope\<rparr>)"

definition evaluate_graph_access :: "caller \<Rightarrow> string \<Rightarrow> string \<Rightarrow> auth_decision" where
  "evaluate_graph_access ca action target = ca_hook ca (authorization_context ca action target)"

definition access_denied_result :: "string \<Rightarrow> string \<Rightarrow> auth_decision \<Rightarrow> json_obj" where
  "access_denied_result action target d =
     [(''success'', JBool False), (''error'', JStr ''Graph access denied''),
      (''message'', JStr (if de_reason d \<noteq> [] then de_reason d else ''Graph access denied.'')),
      (''error_code'', JStr ''access_denied''),
      (''authorization'', JObj [(''action'', JStr action), (''target'', JStr target), (''mode'', JStr (de_mode d)),
         (''source'', JStr (de_source d))])]"

definition authorize_graph_access :: "caller \<Rightarrow> string \<Rightarrow> string \<Rightarrow> json_obj option" where
  "authorize_graph_access ca action target =
     (let d = evaluate_graph_access ca action target
      in if de_allowed d then None else Some (access_denied_result action target d))"

section \<open>Visibility\<close>

text \<open>
  \<open>str(v or "").strip()\<close>. An origin that is a float, a list or a dict has a text no graph id has: here
  brackets, where Python writes its \<open>repr\<close>.
\<close>

definition origin_text :: "json \<Rightarrow> string" where
  "origin_text v =
     (if \<not> truthy v then []
      else case v of
        JStr s \<Rightarrow> strip s
      | JInt n \<Rightarrow> (if n < 0 then ''-'' else []) @ string_of_nat (nat \<bar>n\<bar>)
      | JBool b \<Rightarrow> ''True''
      | _ \<Rightarrow> ''[]'')"

definition node_graph_id :: "node \<Rightarrow> string" where
  "node_graph_id n = origin_text (obj_get (nd_metadata n) ''origin_graph_id'')"

definition is_node_visible :: "narrowing \<Rightarrow> node option \<Rightarrow> bool" where
  "is_node_visible na n = (case n of None \<Rightarrow> False | Some n \<Rightarrow> narrowing_matches na (node_graph_id n))"

definition get_node :: "graph \<Rightarrow> string \<Rightarrow> node option" where
  "get_node g i = map_of (g_nodes g) i"

definition is_edge_visible :: "narrowing \<Rightarrow> graph \<Rightarrow> edge option \<Rightarrow> bool" where
  "is_edge_visible na g e =
     (case e of
        None \<Rightarrow> False
      | Some e \<Rightarrow> is_node_visible na (get_node g (ed_source e)) \<and> is_node_visible na (get_node g (ed_target e)))"

definition filter_nodes_and_edges :: "narrowing \<Rightarrow> node list \<Rightarrow> edge list \<Rightarrow> node list \<times> edge list" where
  "filter_nodes_and_edges na ns es =
     (let ns = filter (\<lambda>n. is_node_visible na (Some n)) ns; ids = set (map nd_id ns)
      in (ns, filter (\<lambda>e. ed_source e \<in> ids \<and> ed_target e \<in> ids) es))"

definition visible_local_graph_stats :: "narrowing \<Rightarrow> graph \<Rightarrow> graph_stats" where
  "visible_local_graph_stats na g =
     (case filter_nodes_and_edges na (dict_values (g_nodes g)) (dict_values (g_edges g)) of (ns, es) \<Rightarrow>
        \<lparr>gs_total_nodes = length ns, gs_total_edges = length es,
         gs_nodes_by_type = count_by (map (\<lambda>n. node_type_str (nd_type n)) ns),
         gs_edges_by_type = count_by (map (\<lambda>e. edge_type_str (ed_type e)) es)\<rparr>)"

section \<open>Attribution\<close>

definition actor_to_dict :: "actor_context \<Rightarrow> json_obj" where
  "actor_to_dict c =
     [(''actor_id'', JStr (ac_actor_id c)), (''actor_type'', JStr (ac_actor_type c)),
      (''is_authenticated'', JBool (ac_is_authenticated c)), (''auth_source'', JStr (ac_auth_source c)),
      (''source'', JStr (ac_source c))]"

definition scope_to_dict :: "scope_context \<Rightarrow> json_obj" where
  "scope_to_dict c =
     [(''workspace_id'', JStr (sc_workspace_id c)), (''workspace_kind'', JStr (sc_workspace_kind c)),
      (''graph_id'', JStr (sc_graph_id c)), (''source'', JStr (sc_source c))]"

definition mutation_attribution :: "caller \<Rightarrow> string \<Rightarrow> json_obj option" where
  "mutation_attribution ca target =
     (let c = authorization_context ca ''mutate'' target; a = au_actor c; s = au_scope c
      in if list_ex (\<lambda>x. x \<noteq> []) [ac_actor_id a, ac_actor_type a, sc_workspace_id s, sc_workspace_kind s, sc_graph_id s]
         then Some [(''actor'', JObj (actor_to_dict a)), (''scope'', JObj (scope_to_dict s))]
         else None)"

record event_inputs =
  ei_origin :: "string option"
  ei_session_id :: "string option"
  ei_correlation_id :: "string option"

definition given :: "string option \<Rightarrow> bool" where
  "given s = (case s of None \<Rightarrow> False | Some x \<Rightarrow> x \<noteq> [])"

definition build_event_context :: "caller \<Rightarrow> string \<Rightarrow> event_inputs \<Rightarrow> event_context option" where
  "build_event_context ca target ei =
     (let a = mutation_attribution ca target
      in if \<not> given (ei_origin ei) \<and> \<not> given (ei_session_id ei) \<and> \<not> given (ei_correlation_id ei) \<and> a = None then None
         else Some \<lparr>ec_origin = ei_origin ei, ec_session_id = ei_session_id ei, ec_correlation_id = ei_correlation_id ei,
                ec_attribution = a\<rparr>)"

definition attach_mutation_attribution :: "event_context option \<Rightarrow> json_obj \<Rightarrow> json_obj" where
  "attach_mutation_attribution c response =
     (case c of
        None \<Rightarrow> response
      | Some c \<Rightarrow> (case ec_attribution c of None \<Rightarrow> response | Some a \<Rightarrow> dict_set response ''attribution'' (JObj a)))"

end
