(* ===== verification/GraphMutations.thy ===== *)
theory GraphMutations
  imports GraphAccess
begin

text \<open>
  The writing operations of the graph service (\<open>backend/service/mutations.py\<close>): authorization, the
  scope of the caller, validation, the call of the store, the response. A response that reports an
  error is the reason; the text of its message is not modelled. \<open>Raises\<close> is an exception that leaves
  the function. The clock and the ids of new nodes and edges are arguments.
\<close>

datatype failure =
    AccessDenied json_obj
  | NotFound
  | InvalidInput
  | Conflict datetime
  | EndpointNotFound
  | NotAllowed
  | TooManyEdges
  | ConfirmationMissing
  | StoreFailed graph_error
  | Raises

type_synonym response = "failure + json_obj"

text \<open>The environment of a store call: the clock, and the event context of the request.\<close>

definition store_env :: "(nat \<Rightarrow> datetime) \<Rightarrow> event_context option \<Rightarrow> graph_env" where
  "store_env now c = \<lparr>gv_now = now, gv_context = c\<rparr>"

definition strs :: "string list \<Rightarrow> json" where
  "strs is = JArr (map JStr is)"

section \<open>Adding\<close>

definition NODE_MODEL_FIELDS :: "string list" where
  "NODE_MODEL_FIELDS =
     [''id'', ''type'', ''name'', ''description'', ''summary'', ''tags'', ''subtypes'', ''aliases'', ''metadata'',
      ''embedding'', ''created_at'', ''updated_at'']"

text \<open>Unknown keys go into the metadata; \<open>None\<close> is what \<open>dict(...)\<close> raises.\<close>

definition fold_extra :: "json_obj \<Rightarrow> json_obj option" where
  "fold_extra d =
     (let extra = filter (\<lambda>(k, v). k \<notin> set NODE_MODEL_FIELDS) d
      in if extra = [] then Some d
         else case py_dict_or (obj_get d ''metadata'') of
           Inl err \<Rightarrow> None
         | Inr m \<Rightarrow> Some (dict_set (filter (\<lambda>(k, v). k \<in> set NODE_MODEL_FIELDS) d) ''metadata'' (JObj (dict_update m extra))))"

definition is_saved_view :: "node \<Rightarrow> bool" where
  "is_saved_view n = (node_type_str (nd_type n) \<in> set SAVED_VIEW_NODE_TYPES)"

definition read_node :: "fresh \<Rightarrow> json_obj \<Rightarrow> node option" where
  "read_node fr d =
     Option.bind (fold_extra d) (\<lambda>d.
     Option.bind (node_from_dict fr d) (\<lambda>n.
       if is_saved_view n \<and> saved_view_annotation_error (nd_metadata n) \<noteq> ViewOk then None else Some n))"

fun read_nodes :: "(nat \<Rightarrow> fresh) \<Rightarrow> nat \<Rightarrow> json_obj list \<Rightarrow> node list option" where
  "read_nodes fr k [] = Some []"
| "read_nodes fr k (d # ds) = Option.bind (read_node (fr k) d) (\<lambda>n. map_option ((#) n) (read_nodes fr (k + 1) ds))"

fun read_edges :: "(nat \<Rightarrow> fresh) \<Rightarrow> nat \<Rightarrow> json_obj list \<Rightarrow> edge list option" where
  "read_edges fr k [] = Some []"
| "read_edges fr k (d # ds) = Option.bind (edge_from_dict (fr k) d) (\<lambda>e. map_option ((#) e) (read_edges fr (k + 1) ds))"

definition service_add_nodes ::
    "graph_config \<Rightarrow> caller \<Rightarrow> (nat \<Rightarrow> datetime) \<Rightarrow> (nat \<Rightarrow> fresh) \<Rightarrow> event_inputs \<Rightarrow> json_obj list \<Rightarrow> json_obj list \<Rightarrow>
     graph \<Rightarrow> response \<times> graph" where
  "service_add_nodes cfg ca now fr ei nodes edges g =
     (case authorize_graph_access ca ''mutate'' ''add_nodes'' of
        Some denied \<Rightarrow> (Inl (AccessDenied denied), g)
      | None \<Rightarrow>
          (case read_nodes fr 0 nodes of
             None \<Rightarrow> (Inl InvalidInput, g)
           | Some ns \<Rightarrow>
               (case read_edges fr (length nodes) edges of
                  None \<Rightarrow> (Inl InvalidInput, g)
                | Some es \<Rightarrow>
                    (let c = build_event_context ca ''add_nodes'' ei
                     in case add_nodes cfg (store_env now c) ns es g of
                          (Inl err, g) \<Rightarrow> (Inl (StoreFailed err), g)
                        | (Inr (added_nodes, added_edges), g) \<Rightarrow>
                            (Inr (attach_mutation_attribution c
                               [(''success'', JBool True), (''added_node_ids'', strs added_nodes),
                                (''added_edge_ids'', strs added_edges),
                                (''nodes'', JArr (map (JObj \<circ> serialize_node) (List.map_filter (get_node g) added_nodes))),
                                (''edges'', JArr (map (JObj \<circ> serialize_edge) (List.map_filter (map_of (g_edges g)) added_edges))),
                                (''action'', JStr ''add_to_visualization'')]), g)))))"

definition service_add_edge ::
    "graph_config \<Rightarrow> caller \<Rightarrow> (nat \<Rightarrow> datetime) \<Rightarrow> fresh \<Rightarrow> event_inputs \<Rightarrow> string \<Rightarrow> string \<Rightarrow> string option \<Rightarrow>
     string option \<Rightarrow> graph \<Rightarrow> response \<times> graph" where
  "service_add_edge cfg ca now fr ei source target ty label g =
     (let d = evaluate_graph_access ca ''mutate'' ''add_edge'' in
      if \<not> de_allowed d then (Inl (AccessDenied (access_denied_result ''mutate'' ''add_edge'' d)), g)
      else if na_enabled (de_access d) \<and>
        \<not> (is_node_visible (de_access d) (get_node g source) \<and> is_node_visible (de_access d) (get_node g target))
      then (Inl EndpointNotFound, g)
      else case edge_from_dict fr
          ([(''source'', JStr source), (''target'', JStr target)] @ (if given ty then [(''type'', opt_str ty)] else []) @
           (if given label then [(''label'', opt_str label)] else [])) of
        None \<Rightarrow> (Inl InvalidInput, g)
      | Some e \<Rightarrow>
          (let c = build_event_context ca ''add_edge'' ei
           in case add_edge cfg (store_env now c) e g of
                (Inl err, g) \<Rightarrow> (Inl (StoreFailed err), g)
              | (Inr None, g) \<Rightarrow> (Inl EndpointNotFound, g)
              | (Inr (Some i), g) \<Rightarrow>
                  (let e = (case map_of (g_edges g) i of Some x \<Rightarrow> x | None \<Rightarrow> e)
                   in (Inr (attach_mutation_attribution c
                     [(''success'', JBool True), (''edge'', JObj (serialize_edge e)), (''edges'', JArr [JObj (serialize_edge e)]),
                      (''action'', JStr ''add_to_visualization'')]), g))))"

section \<open>Nodes\<close>

definition service_update_node ::
    "graph_config \<Rightarrow> caller \<Rightarrow> (nat \<Rightarrow> datetime) \<Rightarrow> event_inputs \<Rightarrow> string \<Rightarrow> json_obj \<Rightarrow> bool \<Rightarrow> string option \<Rightarrow>
     graph \<Rightarrow> response \<times> graph" where
  "service_update_node cfg ca now ei i updates metadata_merge ex g =
     (let d = evaluate_graph_access ca ''mutate'' ''update_node'' in
      if \<not> de_allowed d then (Inl (AccessDenied (access_denied_result ''mutate'' ''update_node'' d)), g)
      else if na_enabled (de_access d) \<and> \<not> is_node_visible (de_access d) (get_node g i) then (Inl NotFound, g)
      else
        (let check = (case get_node g i of
               Some n \<Rightarrow>
                 (if is_saved_view n
                  then (case obj_get updates ''metadata'' of JObj m \<Rightarrow> saved_view_annotation_error m | _ \<Rightarrow> ViewOk)
                  else ViewOk)
             | None \<Rightarrow> ViewOk)
         in case check of
              ViewRefused e \<Rightarrow> (Inl InvalidInput, g)
            | ViewRaises \<Rightarrow> (Inl Raises, g)
            | ViewOk \<Rightarrow>
                (let c = build_event_context ca ''update_node'' ei;
                     guard = (case ex of None \<Rightarrow> NoGuard | Some s \<Rightarrow> ExpectText s)
                 in case update_node cfg (store_env now c) i updates metadata_merge guard g of
                      (Inl (StaleUpdate j), g) \<Rightarrow>
                        (Inl (Conflict (case get_node g j of Some n \<Rightarrow> nd_updated_at n | None \<Rightarrow> 0)), g)
                    | (Inl InvalidUpdate, g) \<Rightarrow> (Inl InvalidInput, g)
                    | (Inl err, g) \<Rightarrow> (Inl Raises, g)
                    | (Inr None, g) \<Rightarrow> (Inl NotFound, g)
                    | (Inr (Some n), g) \<Rightarrow>
                        (Inr (attach_mutation_attribution c
                           [(''success'', JBool True), (''node'', JObj (serialize_node n)),
                            (''nodes'', JArr [JObj (serialize_node n)]), (''action'', JStr ''update_in_visualization'')]), g))))"

text \<open>With a narrowed scope, what the caller may not see is dropped from the call.\<close>

definition visible_ids :: "narrowing \<Rightarrow> graph \<Rightarrow> string list \<Rightarrow> string list" where
  "visible_ids na g is = (if na_enabled na then filter (\<lambda>i. is_node_visible na (get_node g i)) is else is)"

definition visible_edge_ids :: "narrowing \<Rightarrow> graph \<Rightarrow> string list \<Rightarrow> string list" where
  "visible_edge_ids na g is = (if na_enabled na then filter (\<lambda>i. is_edge_visible na g (map_of (g_edges g) i)) is else is)"

definition service_delete_nodes ::
    "graph_config \<Rightarrow> caller \<Rightarrow> (nat \<Rightarrow> datetime) \<Rightarrow> event_inputs \<Rightarrow> string list \<Rightarrow> bool \<Rightarrow> graph \<Rightarrow> response \<times> graph" where
  "service_delete_nodes cfg ca now ei is confirmed g =
     (let d = evaluate_graph_access ca ''mutate'' ''delete_nodes'' in
      if \<not> de_allowed d then (Inl (AccessDenied (access_denied_result ''mutate'' ''delete_nodes'' d)), g)
      else
        (let c = build_event_context ca ''delete_nodes'' ei
         in case delete_nodes cfg (store_env now c) (visible_ids (de_access d) g is) confirmed g of
              (Inl err, g) \<Rightarrow> (Inl (StoreFailed err), g)
            | (Inr (deleted, affected), g) \<Rightarrow>
                (Inr (attach_mutation_attribution c
                   [(''success'', JBool True), (''deleted_node_ids'', strs deleted), (''affected_edge_ids'', strs affected)]), g)))"

definition service_set_nodes_archived ::
    "graph_config \<Rightarrow> caller \<Rightarrow> (nat \<Rightarrow> datetime) \<Rightarrow> event_inputs \<Rightarrow> string list \<Rightarrow> bool \<Rightarrow> graph \<Rightarrow> response \<times> graph" where
  "service_set_nodes_archived cfg ca now ei is archived g =
     (let d = evaluate_graph_access ca ''mutate'' ''archive_nodes'' in
      if \<not> de_allowed d then (Inl (AccessDenied (access_denied_result ''mutate'' ''archive_nodes'' d)), g)
      else
        (let c = build_event_context ca ''archive_nodes'' ei
         in case set_nodes_archived cfg (store_env now c) (visible_ids (de_access d) g is) archived g of (found, g) \<Rightarrow>
              (Inr (attach_mutation_attribution c
                 [(''success'', JBool True), (''archived'', JBool archived), (''node_ids'', strs found),
                  (''nodes'', JArr (map (JObj \<circ> serialize_node) (List.map_filter (get_node g) found))),
                  (''action'', JStr ''update_in_visualization'')]), g)))"

section \<open>Edges\<close>

definition service_update_edge ::
    "graph_config \<Rightarrow> caller \<Rightarrow> (nat \<Rightarrow> datetime) \<Rightarrow> event_inputs \<Rightarrow> string \<Rightarrow> json_obj \<Rightarrow> graph \<Rightarrow> response \<times> graph" where
  "service_update_edge cfg ca now ei i updates g =
     (let d = evaluate_graph_access ca ''mutate'' ''update_edge'' in
      if \<not> de_allowed d then (Inl (AccessDenied (access_denied_result ''mutate'' ''update_edge'' d)), g)
      else if na_enabled (de_access d) \<and> \<not> is_edge_visible (de_access d) g (map_of (g_edges g) i) then (Inl NotFound, g)
      else
        (let c = build_event_context ca ''update_edge'' ei
         in case update_edge cfg (store_env now c) i updates g of
              (Inl err, g) \<Rightarrow> (Inl (StoreFailed err), g)
            | (Inr None, g) \<Rightarrow> (Inl NotFound, g)
            | (Inr (Some e), g) \<Rightarrow>
                (Inr (attach_mutation_attribution c [(''success'', JBool True), (''edge'', JObj (serialize_edge e))]), g)))"

definition service_delete_edge ::
    "graph_config \<Rightarrow> caller \<Rightarrow> (nat \<Rightarrow> datetime) \<Rightarrow> event_inputs \<Rightarrow> string \<Rightarrow> graph \<Rightarrow> response \<times> graph" where
  "service_delete_edge cfg ca now ei i g =
     (let d = evaluate_graph_access ca ''mutate'' ''delete_edge'' in
      if \<not> de_allowed d then (Inl (AccessDenied (access_denied_result ''mutate'' ''delete_edge'' d)), g)
      else if na_enabled (de_access d) \<and> \<not> is_edge_visible (de_access d) g (map_of (g_edges g) i) then (Inl NotFound, g)
      else
        (let c = build_event_context ca ''delete_edge'' ei
         in case delete_edge cfg (store_env now c) i g of
              (False, g) \<Rightarrow> (Inl NotFound, g)
            | (True, g) \<Rightarrow>
                (Inr (attach_mutation_attribution c [(''success'', JBool True), (''deleted_edge_id'', JStr i)]), g)))"

definition service_delete_edges ::
    "graph_config \<Rightarrow> caller \<Rightarrow> (nat \<Rightarrow> datetime) \<Rightarrow> event_inputs \<Rightarrow> string list \<Rightarrow> bool \<Rightarrow> graph \<Rightarrow> response \<times> graph" where
  "service_delete_edges cfg ca now ei is confirmed g =
     (let d = evaluate_graph_access ca ''mutate'' ''delete_edges'' in
      if \<not> de_allowed d then (Inl (AccessDenied (access_denied_result ''mutate'' ''delete_edges'' d)), g)
      else if 50 < length is then (Inl TooManyEdges, g)
      else if \<not> confirmed then (Inl ConfirmationMissing, g)
      else
        (let c = build_event_context ca ''delete_edges'' ei
         in case delete_edges cfg (store_env now c) (visible_edge_ids (de_access d) g is) g of (deleted, g) \<Rightarrow>
              (Inr (attach_mutation_attribution c [(''success'', JBool True), (''deleted_edge_ids'', strs deleted)]), g)))"

definition service_set_edges_archived ::
    "graph_config \<Rightarrow> caller \<Rightarrow> (nat \<Rightarrow> datetime) \<Rightarrow> event_inputs \<Rightarrow> string list \<Rightarrow> bool \<Rightarrow> graph \<Rightarrow> response \<times> graph" where
  "service_set_edges_archived cfg ca now ei is archived g =
     (let d = evaluate_graph_access ca ''mutate'' ''archive_edges'' in
      if \<not> de_allowed d then (Inl (AccessDenied (access_denied_result ''mutate'' ''archive_edges'' d)), g)
      else
        (let c = build_event_context ca ''archive_edges'' ei
         in case set_edges_archived cfg (store_env now c) (visible_edge_ids (de_access d) g is) archived g of (found, g) \<Rightarrow>
              (Inr (attach_mutation_attribution c
                 [(''success'', JBool True), (''archived'', JBool archived), (''edge_ids'', strs found),
                  (''edges'', JArr (map (JObj \<circ> serialize_edge) (List.map_filter (map_of (g_edges g)) found))),
                  (''action'', JStr ''update_in_visualization'')]), g)))"

section \<open>Calls\<close>

text \<open>The calls that name what they change.\<close>

datatype service_call =
    CallAddEdge fresh string string "string option" "string option"
  | CallUpdateNode string json_obj bool "string option"
  | CallDeleteNodes "string list" bool
  | CallArchiveNodes "string list" bool
  | CallUpdateEdge string json_obj
  | CallDeleteEdge string
  | CallDeleteEdges "string list" bool
  | CallArchiveEdges "string list" bool

fun call_target :: "service_call \<Rightarrow> string" where
  "call_target (CallAddEdge fr s t ty label) = ''add_edge''"
| "call_target (CallUpdateNode i updates merge ex) = ''update_node''"
| "call_target (CallDeleteNodes is confirmed) = ''delete_nodes''"
| "call_target (CallArchiveNodes is archived) = ''archive_nodes''"
| "call_target (CallUpdateEdge i updates) = ''update_edge''"
| "call_target (CallDeleteEdge i) = ''delete_edge''"
| "call_target (CallDeleteEdges is confirmed) = ''delete_edges''"
| "call_target (CallArchiveEdges is archived) = ''archive_edges''"

fun service :: "graph_config \<Rightarrow> caller \<Rightarrow> (nat \<Rightarrow> datetime) \<Rightarrow> event_inputs \<Rightarrow> service_call \<Rightarrow> graph \<Rightarrow> response \<times> graph" where
  "service cfg ca now ei (CallAddEdge fr s t ty label) g = service_add_edge cfg ca now fr ei s t ty label g"
| "service cfg ca now ei (CallUpdateNode i updates merge ex) g = service_update_node cfg ca now ei i updates merge ex g"
| "service cfg ca now ei (CallDeleteNodes is confirmed) g = service_delete_nodes cfg ca now ei is confirmed g"
| "service cfg ca now ei (CallArchiveNodes is archived) g = service_set_nodes_archived cfg ca now ei is archived g"
| "service cfg ca now ei (CallUpdateEdge i updates) g = service_update_edge cfg ca now ei i updates g"
| "service cfg ca now ei (CallDeleteEdge i) g = service_delete_edge cfg ca now ei i g"
| "service cfg ca now ei (CallDeleteEdges is confirmed) g = service_delete_edges cfg ca now ei is confirmed g"
| "service cfg ca now ei (CallArchiveEdges is archived) g = service_set_edges_archived cfg ca now ei is archived g"

end
