(* ===== verification/ServiceProps.thy ===== *)
theory ServiceProps
  imports GraphMutations GraphProps
begin

text \<open>
  What the mutations of the service promise a caller whose scope is narrowed, and the form in which
  saved views are read.
\<close>

section \<open>What a store operation touches\<close>

definition touched_only :: "string set \<Rightarrow> string set \<Rightarrow> graph \<Rightarrow> graph \<Rightarrow> bool" where
  "touched_only N E g g' \<longleftrightarrow> (\<forall>i. i \<notin> N \<longrightarrow> map_of (g_nodes g') i = map_of (g_nodes g) i) \<and>
     (\<forall>k. k \<notin> E \<longrightarrow> map_of (g_edges g') k = map_of (g_edges g) k)"

lemma touched_refl [simp]: "touched_only N E g g"
  by (simp add: touched_only_def)

lemma touched_same: "touched_only N E g g1 \<Longrightarrow> same_content g1 g2 \<Longrightarrow> touched_only N E g g2"
  by (simp add: touched_only_def same_content_def)

lemma same_content_foldl_emit:
  "same_content g (foldl (emit_deleted_node env) g ns)" "same_content g (foldl (emit_deleted_edge env) g es)"
  by (intro same_content_foldl; simp)+

lemma touched_emitted:
  assumes t: "touched_only N E g g1"
  shows "touched_only N E g (emit_deleted_edge env (save cfg now g1) p)"
    "touched_only N E g (edge_event env ty b e (save cfg now g1))"
    "touched_only N E g (foldl (emit_deleted_edge env) (save cfg now g1) es)"
    "touched_only N E g (foldl (emit_deleted_node env) (foldl (emit_deleted_edge env) (save cfg now g1) es) ns)"
    "touched_only N E g (node_event env ty b n (save cfg now g1))"
proof -
  have s: "touched_only N E g (save cfg now g1)" by (rule touched_same [OF t]) simp
  show "touched_only N E g (emit_deleted_edge env (save cfg now g1) p)" by (rule touched_same [OF s]) simp
  show "touched_only N E g (edge_event env ty b e (save cfg now g1))" by (rule touched_same [OF s]) simp
  show f: "touched_only N E g (foldl (emit_deleted_edge env) (save cfg now g1) es)"
    by (rule touched_same [OF s same_content_foldl_emit(2)])
  show "touched_only N E g (foldl (emit_deleted_node env) (foldl (emit_deleted_edge env) (save cfg now g1) es) ns)"
    by (rule touched_same [OF f same_content_foldl_emit(1)])
  show "touched_only N E g (node_event env ty b n (save cfg now g1))" by (rule touched_same [OF s]) simp
qed

lemma touched_update_node:
  assumes "graph_inv cfg g"
  shows "touched_only {i} {} g (snd (update_node cfg env i updates merge ex g))"
proof (cases "map_of (g_nodes g) i")
  case (Some n)
  have i: "nd_id n = i" using id_of_node [OF assms Some] .
  show ?thesis
  proof (cases "guard_error n ex")
    case None
    show ?thesis
    proof (cases "candidate merge n updates")
      case (Inr d)
      show ?thesis
      proof (cases "node_from_dict \<lparr>fr_id = [], fr_now = 0\<rparr> d")
        case v: (Some v)
        let ?n = "apply_validated n v (gv_now env 0)"
        let ?g = "if text_changed updates then embed_nodes cfg [?n] (replace_node cfg ?n g) else replace_node cfg ?n g"
        have t: "touched_only {i} {} g ?g"
          using update_node_effect [OF Some i, where cfg = cfg and ch = "text_changed updates" and v = v and now = "gv_now env 0"] by (auto simp: touched_only_def)
        have "snd (update_node cfg env i updates merge ex g) = node_event env NODE_UPDATE (Some (node_to_dict n))
            (case map_of (g_nodes ?g) i of Some m \<Rightarrow> m | None \<Rightarrow> ?n) (save cfg (gv_now env 1) ?g)"
          using Some None Inr v by (simp add: update_node_def Let_def)
        then show ?thesis using touched_emitted(5) [OF t] by simp
      qed (simp add: update_node_def Some None Inr)
    qed (simp add: update_node_def Some None)
  qed (simp add: update_node_def Some)
qed (simp add: update_node_def)

lemma touched_nodes_archived_loop:
  "set_nodes_archived_loop env k is b g = (found, ch, g') \<Longrightarrow> touched_only (set is) {} g g'"
proof (induction env k "is" b g arbitrary: found ch g' rule: set_nodes_archived_loop.induct)
  case (2 env k i "is" b g)
  show ?case
  proof (cases "map_of (g_nodes g) i")
    case None
    then show ?thesis using "2.IH"(1) [OF None] "2.prems" by (auto simp: touched_only_def)
  next
    case (Some n)
    show ?thesis
    proof (cases "nd_archived n = b")
      case True
      then show ?thesis using "2.IH"(2) [OF Some True] "2.prems"
        by (auto simp: Some touched_only_def split: prod.splits)
    next
      case False
      let ?n = "n\<lparr>nd_archived := b, nd_updated_at := gv_now env k\<rparr>"
      let ?g = "node_event env NODE_UPDATE (Some (node_to_dict n)) ?n (g\<lparr>g_nodes := dict_set (g_nodes g) i ?n\<rparr>)"
      obtain f c where r: "set_nodes_archived_loop env (k + 1) is b ?g = (f, c, g')"
        using "2.prems" Some False by (auto simp: Let_def split: prod.splits)
      have "touched_only (set is) {} ?g g'" using "2.IH"(3) [OF Some False refl refl r] .
      then show ?thesis by (simp add: touched_only_def)
    qed
  qed
qed simp

lemma touched_nodes_archived: "touched_only (set is) {} g (snd (set_nodes_archived cfg env is b g))"
proof -
  obtain f c g' where r: "set_nodes_archived_loop env 1 is b g = (f, c, g')" by (cases rule: prod_cases3)
  show ?thesis using touched_nodes_archived_loop [OF r] touched_same [OF touched_nodes_archived_loop [OF r]] r
    by (simp add: set_nodes_archived_def)
qed

lemma touched_edges_archived_loop:
  "set_edges_archived_loop env is b g = (found, ch, g') \<Longrightarrow> touched_only {} (set is) g g'"
proof (induction env "is" b g arbitrary: found ch g' rule: set_edges_archived_loop.induct)
  case (2 env i "is" b g)
  show ?case
  proof (cases "map_of (g_edges g) i")
    case None
    then show ?thesis using "2.IH"(1) [OF None] "2.prems" by (auto simp: touched_only_def)
  next
    case (Some e)
    show ?thesis
    proof (cases "ed_archived e = b")
      case True
      then show ?thesis using "2.IH"(2) [OF Some True] "2.prems"
        by (auto simp: Some touched_only_def split: prod.splits)
    next
      case False
      let ?e = "e\<lparr>ed_archived := b\<rparr>"
      let ?g = "edge_event env EDGE_UPDATE (Some (edge_to_dict e)) ?e (g\<lparr>g_edges := dict_set (g_edges g) i ?e\<rparr>)"
      obtain f c where r: "set_edges_archived_loop env is b ?g = (f, c, g')"
        using "2.prems" Some False by (auto simp: Let_def split: prod.splits)
      have "touched_only {} (set is) ?g g'" using "2.IH"(3) [OF Some False refl refl r] .
      then show ?thesis by (simp add: touched_only_def edge_event_def)
    qed
  qed
qed simp

lemma touched_edges_archived: "touched_only {} (set is) g (snd (set_edges_archived cfg env is b g))"
proof -
  obtain f c g' where r: "set_edges_archived_loop env is b g = (f, c, g')" by (cases rule: prod_cases3)
  show ?thesis using touched_edges_archived_loop [OF r] touched_same [OF touched_edges_archived_loop [OF r]] r
    by (simp add: set_edges_archived_def)
qed

definition edges_at :: "string set \<Rightarrow> graph \<Rightarrow> string set" where
  "edges_at N g = {k. \<exists>e. map_of (g_edges g) k = Some e \<and> (\<exists>i \<in> N. incident i e)}"

lemma map_of_kept_keys: "map_of (filter (\<lambda>(k, v). k \<notin> A) d) i = (if i \<in> A then None else map_of d i)"
  by (induction d) auto

lemma touched_delete_nodes:
  assumes inv: "graph_inv cfg g"
  shows "touched_only (set is) (edges_at (set is) g) g (snd (delete_nodes cfg env is confirmed g))"
proof -
  have dke: "distinct (dict_keys (g_edges g))" using inv by (simp add: inv_defs)
  obtain ns es g1 where l: "delete_nodes_loop is g = (ns, es, True, g1)"
    and n: "g_nodes g1 = filter (\<lambda>(k, n). k \<notin> set is) (g_nodes g)"
    and e: "g_edges g1 = filter (\<lambda>(k, e). \<not> (\<exists>i \<in> set is. incident i e)) (g_edges g)"
    using delete_nodes_loop_effect [OF inv, of "is"] by blast
  have t: "touched_only (set is) (edges_at (set is) g) g g1"
    unfolding touched_only_def n e map_of_kept_keys map_of_filter_edges [OF dke]
    by (auto simp: edges_at_def split: option.splits)
  let ?g1 = "g1\<lparr>g_vectors := foldl dict_del (g_vectors g1) (map fst ns)\<rparr>"
  have t1: "touched_only (set is) (edges_at (set is) g) g ?g1" by (rule touched_same [OF t]) simp
  note t2 = touched_emitted(4) [OF t1]
  show ?thesis using t1 t2 by (simp add: delete_nodes_def l Let_def)
qed

lemma touched_delete_edges: "touched_only {} (set is) g (snd (delete_edges cfg env is g))"
proof -
  obtain es g' where r: "delete_edges_loop is g = (es, g')" by fastforce
  have sub: "fst ` set es \<subseteq> set is" using r
  proof (induction "is" g arbitrary: es g' rule: delete_edges_loop.induct)
    case (2 i "is" g)
    then show ?case by (fastforce split: option.splits prod.splits)
  qed simp
  have "touched_only {} (set is) g g'" using delete_edges_loop_effect [OF r] sub by (auto simp: touched_only_def)
  then show ?thesis unfolding delete_edges_def r prod.case snd_conv by (rule touched_emitted(3))
qed

lemma touched_delete_edge: "touched_only {} {i} g (snd (delete_edge cfg env i g))"
proof (cases "map_of (g_edges g) i")
  case (Some e)
  have "touched_only {} {i} g (take_edge i e g)" by (simp add: touched_only_def take_edge_fields)
  then have "touched_only {} {i} g (emit_deleted_edge env (save cfg (gv_now env 0) (take_edge i e g)) (i, e))"
    by (rule touched_emitted(1))
  then show ?thesis by (simp add: delete_edge_def Some)
qed (simp add: delete_edge_def)

lemma touched_update_edge: "touched_only {} {i} g (snd (update_edge cfg env i updates g))"
proof -
  have "touched_only {} {i} g (edge_event env EDGE_UPDATE b e (save cfg now (g\<lparr>g_edges := dict_set (g_edges g) i e\<rparr>)))"
    for b e now
    by (rule touched_emitted(2)) (simp add: touched_only_def)
  then show ?thesis by (auto simp: update_edge_def Let_def split: option.split)
qed

text \<open>An added edge is new and runs between the nodes that were named by their ids.\<close>

lemma add_edge_effect:
  assumes "known_node g (ed_source e)" and "known_node g (ed_target e)"
  shows "g_nodes (snd (add_edge cfg env e g)) = g_nodes g \<and>
    (snd (add_edge cfg env e g) = g \<or>
     map_of (g_edges g) (ed_id e) = None \<and> map_of (g_edges (snd (add_edge cfg env e g))) = (map_of (g_edges g))(ed_id e \<mapsto> e))"
proof -
  have r: "resolve g (name_to_id g) (ed_source e) = Some (ed_source e)"
      "resolve g (name_to_id g) (ed_target e) = Some (ed_target e)"
    using assms by (simp_all add: resolve_def)
  have "g_edges (put_edge e g) = dict_set (g_edges g) (ed_id e) e"
    by (simp add: put_edge_def net_add_edge_def net_add_node_def Let_def)
  then show ?thesis using r map_of_None_keys [of "g_edges g" "ed_id e"]
    by (simp add: add_edge_def Let_def edge_event_def)
qed

section \<open>The scope of a caller\<close>

abbreviation scope_of :: "caller \<Rightarrow> service_call \<Rightarrow> narrowing" where
  "scope_of ca call \<equiv> de_access (evaluate_graph_access ca ''mutate'' (call_target call))"

abbreviation allowed :: "caller \<Rightarrow> service_call \<Rightarrow> bool" where
  "allowed ca call \<equiv> de_allowed (evaluate_graph_access ca ''mutate'' (call_target call))"

text \<open>
  What a call may touch: nodes the caller sees or that do not exist; edges it sees, that do not
  exist, or that end at a node it deletes.
\<close>

definition reachable_nodes :: "narrowing \<Rightarrow> graph \<Rightarrow> string set" where
  "reachable_nodes na g = {i. \<forall>n. map_of (g_nodes g) i = Some n \<longrightarrow> is_node_visible na (Some n)}"

definition reachable_edges :: "narrowing \<Rightarrow> graph \<Rightarrow> string set" where
  "reachable_edges na g = {k. \<forall>e. map_of (g_edges g) k = Some e \<longrightarrow> is_edge_visible na g (Some e)}"

lemma touched_mono: "touched_only N E g g' \<Longrightarrow> N \<subseteq> N' \<Longrightarrow> E \<subseteq> E' \<Longrightarrow> touched_only N' E' g g'"
  by (auto simp: touched_only_def)

lemma disabled_visible: "\<not> na_enabled na \<Longrightarrow> is_node_visible na (Some n)"
  by (simp add: is_node_visible_def narrowing_matches_def Let_def)

lemma disabled_edge_visible:
  "graph_inv cfg g \<Longrightarrow> \<not> na_enabled na \<Longrightarrow> map_of (g_edges g) k = Some e \<Longrightarrow> is_edge_visible na g (Some e)"
  using edge_ends [of cfg g k e] known_map [of g] disabled_visible by (auto simp: is_edge_visible_def get_node_def)

lemma visible_ids_reach: "set (visible_ids na g is) \<subseteq> reachable_nodes na g"
  by (auto simp: visible_ids_def reachable_nodes_def get_node_def disabled_visible)

lemma visible_edge_ids_reach: "graph_inv cfg g \<Longrightarrow> set (visible_edge_ids na g is) \<subseteq> reachable_edges na g"
  by (auto simp: visible_edge_ids_def reachable_edges_def disabled_edge_visible)

text \<open>What a call leaves, for each call: first what it may touch, then the edge it may add.\<close>

definition touches :: "narrowing \<Rightarrow> service_call \<Rightarrow> graph \<Rightarrow> graph \<Rightarrow> bool" where
  "touches na call g g' \<longleftrightarrow> (\<exists>N E. touched_only N E g g' \<and> N \<subseteq> reachable_nodes na g \<and>
     E \<subseteq> reachable_edges na g \<union> (case call of CallDeleteNodes is c \<Rightarrow> edges_at (set (visible_ids na g is)) g | _ \<Rightarrow> {}))"

lemma touchesI:
  "touched_only N E g g' \<Longrightarrow> N \<subseteq> reachable_nodes na g \<Longrightarrow> E \<subseteq> reachable_edges na g \<Longrightarrow> touches na call g g'"
  by (auto simp: touches_def)

lemma touches_refl: "touches na call g g"
  by (rule touchesI [of "{}" "{}"]) simp_all

lemma edge_of_fields:
  "edge_from_dict fr ([(''source'', JStr s), (''target'', JStr t)] @ xs) = Some e \<Longrightarrow> ed_source e = s \<and> ed_target e = t"
  by (auto simp: edge_from_dict_def required_str_def Option.bind_eq_Some_conv)

lemma service_add_edge_effect:
  assumes inv: "graph_inv cfg g" and r: "service_add_edge cfg ca now fr ei s t ty label g = (res, g')"
  defines "na \<equiv> de_access (evaluate_graph_access ca ''mutate'' ''add_edge'')"
  shows "g' = g \<or> (na_enabled na \<longrightarrow> is_node_visible na (get_node g s) \<and> is_node_visible na (get_node g t)) \<and>
    (\<exists>e env. ed_source e = s \<and> ed_target e = t \<and> g' = snd (add_edge cfg env e g))"
proof (cases "de_allowed (evaluate_graph_access ca ''mutate'' ''add_edge'') \<and>
    (na_enabled na \<longrightarrow> is_node_visible na (get_node g s) \<and> is_node_visible na (get_node g t))")
  case True
  let ?d = "[(''source'', JStr s), (''target'', JStr t)] @ (if given ty then [(''type'', opt_str ty)] else []) @
           (if given label then [(''label'', opt_str label)] else [])"
  show ?thesis
  proof (cases "edge_from_dict fr ?d")
    case None
    then show ?thesis using r True by (auto simp: service_add_edge_def na_def Let_def)
  next
    case (Some e)
    let ?env = "store_env now (build_event_context ca ''add_edge'' ei)"
    have "g' = snd (add_edge cfg ?env e g)"
      using r True Some by (auto simp: service_add_edge_def na_def Let_def split: prod.splits sum.splits option.splits)
    then show ?thesis using True edge_of_fields [OF Some] by blast
  qed
next
  case False
  then show ?thesis using r by (auto simp: service_add_edge_def na_def Let_def split: if_splits)
qed

lemma service_update_node_store:
  "snd (service_update_node cfg ca now ei i updates merge ex g) = g \<or>
   (\<exists>env g2. snd (service_update_node cfg ca now ei i updates merge ex g) = snd (update_node cfg env i updates merge g2 g))"
proof -
  let ?d = "evaluate_graph_access ca ''mutate'' ''update_node''"
  obtain check where check: "check = (case get_node g i of
       Some n \<Rightarrow>
         (if is_saved_view n
          then (case obj_get updates ''metadata'' of JObj m \<Rightarrow> saved_view_annotation_error m | _ \<Rightarrow> ViewOk)
          else ViewOk)
     | None \<Rightarrow> ViewOk)" by blast
  let ?env = "store_env now (build_event_context ca ''update_node'' ei)"
  let ?guard = "case ex of None \<Rightarrow> NoGuard | Some s \<Rightarrow> ExpectText s"
  obtain r g' where u: "update_node cfg ?env i updates merge ?guard g = (r, g')" by fastforce
  have "snd (service_update_node cfg ca now ei i updates merge ex g) \<in> {g, g'}"
  proof (cases "de_allowed ?d \<and> \<not> (na_enabled (de_access ?d) \<and> \<not> is_node_visible (de_access ?d) (get_node g i)) \<and> check = ViewOk")
    case True
    then have s: "service_update_node cfg ca now ei i updates merge ex g =
        (case (r, g') of
           (Inl (StaleUpdate j), g) \<Rightarrow> (Inl (Conflict (case get_node g j of Some n \<Rightarrow> nd_updated_at n | None \<Rightarrow> 0)), g)
         | (Inl InvalidUpdate, g) \<Rightarrow> (Inl InvalidInput, g)
         | (Inl err, g) \<Rightarrow> (Inl Raises, g)
         | (Inr None, g) \<Rightarrow> (Inl NotFound, g)
         | (Inr (Some n), g) \<Rightarrow>
             (Inr (attach_mutation_attribution (build_event_context ca ''update_node'' ei)
                [(''success'', JBool True), (''node'', JObj (serialize_node n)),
                 (''nodes'', JArr [JObj (serialize_node n)]), (''action'', JStr ''update_in_visualization'')]), g))"
      unfolding service_update_node_def Let_def u check [symmetric] by auto
    show ?thesis unfolding s by (auto split: sum.split graph_error.split option.split)
  next
    case False
    then show ?thesis unfolding service_update_node_def Let_def check [symmetric] by (cases check) auto
  qed
  then show ?thesis using u by (metis insertE singletonD snd_conv)
qed

lemma service_touches:
  assumes inv: "graph_inv cfg g" and "\<And>fr s t ty label. call \<noteq> CallAddEdge fr s t ty label"
  shows "touches (scope_of ca call) call g (snd (service cfg ca now ei call g))"
proof (cases call)
  case (CallUpdateNode i updates merge ex)
  let ?na = "scope_of ca call" and ?d = "evaluate_graph_access ca ''mutate'' ''update_node''"
  show ?thesis
  proof (cases "de_allowed ?d \<and> (na_enabled ?na \<longrightarrow> is_node_visible ?na (get_node g i))")
    case True
    have "{i} \<subseteq> reachable_nodes ?na g"
      using True disabled_visible by (auto simp: reachable_nodes_def get_node_def)
    then have u: "touches ?na call g (snd (update_node cfg env i updates merge g2 g))" for env g2
      by (rule touchesI [OF touched_update_node [OF inv]]) simp
    have "snd (service cfg ca now ei call g) = g \<or>
        (\<exists>env g2. snd (service cfg ca now ei call g) = snd (update_node cfg env i updates merge g2 g))"
      using service_update_node_store by (simp add: CallUpdateNode)
    then show ?thesis using u touches_refl by metis
  next
    case False
    then have "snd (service cfg ca now ei call g) = g" by (auto simp: CallUpdateNode service_update_node_def Let_def)
    then show ?thesis using touches_refl by simp
  qed
next
  case (CallDeleteNodes "is" c)
  let ?na = "scope_of ca call"
  have "touches ?na call g (snd (delete_nodes cfg env (visible_ids ?na g is) c g))" for env
    using touched_delete_nodes [OF inv, of "visible_ids ?na g is"] visible_ids_reach
    unfolding touches_def CallDeleteNodes service_call.case by blast
  moreover have "snd (service cfg ca now ei call g) = g \<or>
      (\<exists>env. snd (service cfg ca now ei call g) = snd (delete_nodes cfg env (visible_ids ?na g is) c g))"
    by (cases "delete_nodes cfg (store_env now (build_event_context ca ''delete_nodes'' ei)) (visible_ids ?na g is) c g")
      (auto simp: CallDeleteNodes service_delete_nodes_def Let_def split: sum.split prod.split; metis snd_conv)
  ultimately show ?thesis using touches_refl by metis
next
  case (CallArchiveNodes "is" b)
  let ?na = "scope_of ca call"
  have "touches ?na call g (snd (set_nodes_archived cfg env (visible_ids ?na g is) b g))" for env
    by (rule touchesI [OF touched_nodes_archived visible_ids_reach]) simp
  moreover have "snd (service cfg ca now ei call g) = g \<or>
      (\<exists>env. snd (service cfg ca now ei call g) = snd (set_nodes_archived cfg env (visible_ids ?na g is) b g))"
    by (cases "set_nodes_archived cfg (store_env now (build_event_context ca ''archive_nodes'' ei)) (visible_ids ?na g is) b g")
      (auto simp: CallArchiveNodes service_set_nodes_archived_def Let_def split: prod.split; metis snd_conv)
  ultimately show ?thesis using touches_refl by metis
next
  case (CallUpdateEdge i updates)
  let ?na = "scope_of ca call" and ?d = "evaluate_graph_access ca ''mutate'' ''update_edge''"
  show ?thesis
  proof (cases "de_allowed ?d \<and> (na_enabled ?na \<longrightarrow> is_edge_visible ?na g (map_of (g_edges g) i))")
    case True
    have "{i} \<subseteq> reachable_edges ?na g"
      using True disabled_edge_visible [OF inv] by (auto simp: reachable_edges_def)
    then have u: "touches ?na call g (snd (update_edge cfg env i updates g))" for env
      by (intro touchesI [OF touched_update_edge]) simp_all
    have "snd (service cfg ca now ei call g) = g \<or>
        (\<exists>env. snd (service cfg ca now ei call g) = snd (update_edge cfg env i updates g))"
    by (cases "update_edge cfg (store_env now (build_event_context ca ''update_edge'' ei)) i updates g")
      (auto simp: CallUpdateEdge service_update_edge_def Let_def split: sum.split prod.split option.split; metis snd_conv)
    then show ?thesis using u touches_refl by metis
  next
    case False
    then have "snd (service cfg ca now ei call g) = g" by (auto simp: CallUpdateEdge service_update_edge_def Let_def)
    then show ?thesis using touches_refl by simp
  qed
next
  case (CallDeleteEdge i)
  let ?na = "scope_of ca call" and ?d = "evaluate_graph_access ca ''mutate'' ''delete_edge''"
  show ?thesis
  proof (cases "de_allowed ?d \<and> (na_enabled ?na \<longrightarrow> is_edge_visible ?na g (map_of (g_edges g) i))")
    case True
    have "{i} \<subseteq> reachable_edges ?na g"
      using True disabled_edge_visible [OF inv] by (auto simp: reachable_edges_def)
    then have u: "touches ?na call g (snd (delete_edge cfg env i g))" for env
      by (intro touchesI [OF touched_delete_edge]) simp_all
    have "snd (service cfg ca now ei call g) = g \<or>
        (\<exists>env. snd (service cfg ca now ei call g) = snd (delete_edge cfg env i g))"
    by (cases "delete_edge cfg (store_env now (build_event_context ca ''delete_edge'' ei)) i g")
      (auto simp: CallDeleteEdge service_delete_edge_def Let_def split: bool.split prod.split; metis snd_conv)
    then show ?thesis using u touches_refl by metis
  next
    case False
    then have "snd (service cfg ca now ei call g) = g" by (auto simp: CallDeleteEdge service_delete_edge_def Let_def)
    then show ?thesis using touches_refl by simp
  qed
next
  case (CallDeleteEdges "is" c)
  let ?na = "scope_of ca call"
  have "touches ?na call g (snd (delete_edges cfg env (visible_edge_ids ?na g is) g))" for env
    by (rule touchesI [OF touched_delete_edges _ visible_edge_ids_reach [OF inv]]) simp
  moreover have "snd (service cfg ca now ei call g) = g \<or>
      (\<exists>env. snd (service cfg ca now ei call g) = snd (delete_edges cfg env (visible_edge_ids ?na g is) g))"
    by (cases "delete_edges cfg (store_env now (build_event_context ca ''delete_edges'' ei)) (visible_edge_ids ?na g is) g")
      (auto simp: CallDeleteEdges service_delete_edges_def Let_def split: prod.split; metis snd_conv)
  ultimately show ?thesis using touches_refl by metis
next
  case (CallArchiveEdges "is" b)
  let ?na = "scope_of ca call"
  have "touches ?na call g (snd (set_edges_archived cfg env (visible_edge_ids ?na g is) b g))" for env
    by (rule touchesI [OF touched_edges_archived _ visible_edge_ids_reach [OF inv]]) simp
  moreover have "snd (service cfg ca now ei call g) = g \<or>
      (\<exists>env. snd (service cfg ca now ei call g) = snd (set_edges_archived cfg env (visible_edge_ids ?na g is) b g))"
    by (cases "set_edges_archived cfg (store_env now (build_event_context ca ''archive_edges'' ei)) (visible_edge_ids ?na g is) b g")
      (auto simp: CallArchiveEdges service_set_edges_archived_def Let_def split: prod.split; metis snd_conv)
  ultimately show ?thesis using touches_refl by metis
qed (use assms(2) in blast)

lemma denied_call: "\<not> allowed ca call \<Longrightarrow> snd (service cfg ca now ei call g) = g"
  by (cases call)
    (simp_all add: service_add_edge_def service_update_node_def service_delete_nodes_def service_set_nodes_archived_def
      service_update_edge_def service_delete_edge_def service_delete_edges_def service_set_edges_archived_def Let_def)

lemma touched_keeps:
  assumes "touches na call g g'"
  shows "map_of (g_nodes g) i = Some n \<and> \<not> is_node_visible na (Some n) \<Longrightarrow> map_of (g_nodes g') i = Some n"
    and "map_of (g_edges g) k = Some e \<and> \<not> is_edge_visible na g (Some e) \<Longrightarrow> map_of (g_edges g') k = Some e \<or>
      (\<exists>is c. call = CallDeleteNodes is c \<and> k \<in> edges_at (set (visible_ids na g is)) g)"
proof -
  obtain N E where t: "touched_only N E g g'" and N: "N \<subseteq> reachable_nodes na g"
    and E: "E \<subseteq> reachable_edges na g \<union> (case call of CallDeleteNodes is c \<Rightarrow> edges_at (set (visible_ids na g is)) g | _ \<Rightarrow> {})"
    using assms unfolding touches_def by blast
  show "map_of (g_nodes g') i = Some n" if "map_of (g_nodes g) i = Some n \<and> \<not> is_node_visible na (Some n)"
  proof -
    have "i \<notin> N" using that N by (auto simp: reachable_nodes_def)
    then show ?thesis using t that by (simp add: touched_only_def)
  qed
  show "map_of (g_edges g') k = Some e \<or> (\<exists>is c. call = CallDeleteNodes is c \<and> k \<in> edges_at (set (visible_ids na g is)) g)"
    if "map_of (g_edges g) k = Some e \<and> \<not> is_edge_visible na g (Some e)"
  proof (cases "k \<in> E")
    case True
    have "k \<notin> reachable_edges na g" using that by (auto simp: reachable_edges_def)
    then show ?thesis using True E by (cases call) auto
  next
    case False
    then show ?thesis using t that by (simp add: touched_only_def)
  qed
qed

text \<open>C34: a mutation of the service that names what it changes stays within the scope the authorization
hook gives the caller. Refused, it changes nothing. Otherwise every node the caller may not see stays
as it is, and so does every edge with an end it may not see, unless the caller deletes a node it sees at the
other end, which takes the edge along; and an edge it adds runs between nodes it sees.\<close>

theorem service_respects_scope:
  fixes cfg :: graph_config and now :: datetime and ca :: caller and call :: service_call and clock :: "nat \<Rightarrow> datetime"
    and ei :: event_inputs
  assumes "ops_ok ops"
  defines "g \<equiv> run_graph cfg ops (new_graph cfg now)"
  defines "g' \<equiv> snd (service cfg ca clock ei call g)"
  shows "(allowed ca call \<or> g' = g) \<and>
    (\<forall>i n. map_of (g_nodes g) i = Some n \<and> \<not> is_node_visible (scope_of ca call) (Some n) \<longrightarrow> map_of (g_nodes g') i = Some n) \<and>
    (\<forall>k e. map_of (g_edges g) k = Some e \<and> \<not> is_edge_visible (scope_of ca call) g (Some e) \<longrightarrow>
       map_of (g_edges g') k = Some e \<or>
       (\<exists>is c i. call = CallDeleteNodes is c \<and> i \<in> set is \<and> incident i e \<and>
          is_node_visible (scope_of ca call) (get_node g i))) \<and>
    (\<forall>fr s t ty label k e. call = CallAddEdge fr s t ty label \<and> map_of (g_edges g) k = None \<and> map_of (g_edges g') k = Some e \<longrightarrow>
       na_enabled (scope_of ca call) \<longrightarrow>
       ed_source e = s \<and> ed_target e = t \<and> is_edge_visible (scope_of ca call) g (Some e))"
    (is "?denied \<and> ?nodes \<and> ?edges \<and> ?new")
proof -
  let ?na = "scope_of ca call"
  have inv: "graph_inv cfg g" unfolding g_def using graph_inv_run [OF graph_inv_new assms(1)] .
  have ?denied using denied_call [of ca call cfg clock ei g] by (auto simp: g'_def)
  moreover have "?nodes \<and> ?edges \<and> ?new"
  proof (cases "\<exists>fr s t ty label. call = CallAddEdge fr s t ty label")
    case True
    then obtain fr s t ty label where c: "call = CallAddEdge fr s t ty label" by blast
    have r: "service_add_edge cfg ca clock fr ei s t ty label g = (fst (service cfg ca clock ei call g), g')"
      by (simp add: c g'_def)
    from service_add_edge_effect [OF inv r] consider "g' = g"
      | e env where "na_enabled ?na \<longrightarrow> is_node_visible ?na (get_node g s) \<and> is_node_visible ?na (get_node g t)"
          "ed_source e = s" "ed_target e = t" "g' = snd (add_edge cfg env e g)"
      by (auto simp: c)
    then show ?thesis
    proof cases
      case 2
      show ?thesis
      proof (cases "na_enabled ?na")
        case True
        then have v: "is_node_visible ?na (get_node g s)" "is_node_visible ?na (get_node g t)" using 2(1) by auto
        then have k: "known_node g (ed_source e)" "known_node g (ed_target e)"
          using 2(2,3) known_map [of g] by (auto simp: is_node_visible_def get_node_def split: option.splits)
        from add_edge_effect [OF k, of cfg env] have f: "g_nodes g' = g_nodes g" "g' = g \<or>
            map_of (g_edges g) (ed_id e) = None \<and> map_of (g_edges g') = (map_of (g_edges g))(ed_id e \<mapsto> e)"
          by (auto simp: 2(4))
        have vis: "is_edge_visible ?na g (Some e)" using v 2(2,3) by (simp add: is_edge_visible_def)
        show ?thesis using f vis 2(2,3) c by (auto split: if_splits)
      next
        case False
        then show ?thesis using disabled_visible disabled_edge_visible [OF inv] by blast
      qed
    qed (auto simp: c)
  next
    case False
    then have t: "touches ?na call g g'" unfolding g'_def by (intro service_touches [OF inv]) blast
    have ?nodes using touched_keeps(1) [OF t] by blast
    moreover have ?edges
    proof (intro allI impI)
      fix k e
      assume e: "map_of (g_edges g) k = Some e \<and> \<not> is_edge_visible ?na g (Some e)"
      from touched_keeps(2) [OF t e] consider "map_of (g_edges g') k = Some e"
        | "is" c where "call = CallDeleteNodes is c" "k \<in> edges_at (set (visible_ids ?na g is)) g" by blast
      then show "map_of (g_edges g') k = Some e \<or>
       (\<exists>is c i. call = CallDeleteNodes is c \<and> i \<in> set is \<and> incident i e \<and> is_node_visible ?na (get_node g i))"
      proof cases
        case 2
        then obtain i where i: "i \<in> set (visible_ids ?na g is)" "incident i e" using e by (auto simp: edges_at_def)
        have "known_node g i" using i(2) edge_ends [OF inv, of k e] e by (auto simp: incident_def)
        then have "is_node_visible ?na (get_node g i)" "i \<in> set is"
          using i(1) disabled_visible known_map [of g i] by (auto simp: visible_ids_def get_node_def split: if_splits)
        then show ?thesis using 2(1) i(2) by blast
      qed blast
    qed
    moreover have ?new using False by blast
    ultimately show ?thesis by blast
  qed
  ultimately show ?thesis by blast
qed

text \<open>A caller of a service that is read-only.\<close>

definition demo_inputs :: request_inputs where
  "demo_inputs = \<lparr>ri_headers = [], ri_actor_id = None, ri_actor_type = None, ri_auth_source = None, ri_workspace_id = None,
     ri_workspace_kind = None, ri_graph_id = None\<rparr>"

definition read_only_caller :: caller where
  "read_only_caller = (let env = (\<lambda>k. if k = ''COMMUNITYOVERVIEW_AUTHORIZATION_MODE'' then Some ''read-only'' else None)
     in \<lparr>ca_hook = default_hook env, ca_environ = env, ca_request = demo_inputs\<rparr>)"

definition no_event_inputs :: event_inputs where
  "no_event_inputs = \<lparr>ei_origin = None, ei_session_id = None, ei_correlation_id = None\<rparr>"

lemma read_only_denied: "\<not> allowed read_only_caller call"
  by (simp add: read_only_caller_def evaluate_graph_access_def default_hook_def authorization_context_def clean_string_def
      strip_def is_space_def code_def lower_def lower_char_def Let_def)

section \<open>Saved views\<close>

definition doc_annotations :: "json_obj \<Rightarrow> json_obj list" where
  "doc_annotations m =
     (case obj_get m ''annotation_document'' of
        JObj d \<Rightarrow> (case obj_get d ''annotations'' of JArr vs \<Rightarrow> objects_of vs | _ \<Rightarrow> []) | _ \<Rightarrow> [])"

definition legacy_annotations :: "json_obj \<Rightarrow> json_obj list" where
  "legacy_annotations m = (case obj_get m ''annotations'' of JArr vs \<Rightarrow> objects_of vs | _ \<Rightarrow> [])"

definition view_annotations :: "json_obj \<Rightarrow> json_obj list" where
  "view_annotations m = doc_annotations m @ legacy_annotations m"

lemma sanitized_embedded: "embedded_only (sanitize_annotation a)"
proof (cases "\<exists>img. annotation_type_of a = Some ''image'' \<and> obj_get a ''image'' = JObj img \<and>
    obj_get img ''url'' \<noteq> JNull \<and> \<not> is_embedded_image_url (obj_get img ''url'')")
  case True
  then obtain img where "sanitize_annotation a = dict_set a ''image'' (JObj (dict_del img ''url''))"
    by (auto simp: sanitize_annotation_def)
  then show ?thesis by (simp add: embedded_only_def)
next
  case False
  then have "sanitize_annotation a = a" by (auto simp: sanitize_annotation_def Let_def split: json.split)
  then show ?thesis using False by (auto simp: embedded_only_def split: json.split)
qed

lemma sanitized_objects: "objects_of (sanitize_annotations vs) = map sanitize_annotation (objects_of vs)"
  by (induction vs) (auto simp: objects_of_def sanitize_annotations_def split: json.split)

lemma sanitized_list: "\<forall>a \<in> set (objects_of (sanitize_annotations vs)). embedded_only a"
  using sanitized_embedded by (simp add: sanitized_objects)

lemma sanitized_metadata: "\<forall>a \<in> set (view_annotations (sanitize_saved_view_metadata m)). embedded_only a"
proof -
  define d where "d = (case obj_get m ''annotation_document'' of
      JObj document \<Rightarrow>
        (case obj_get document ''annotations'' of
           JArr vs \<Rightarrow>
             (if sanitize_annotations vs = vs then m
              else dict_set m ''annotation_document''
                (JObj (dict_set document ''annotations'' (JArr (sanitize_annotations vs)))))
         | _ \<Rightarrow> m)
    | _ \<Rightarrow> m)"
  have doc: "\<forall>a \<in> set (doc_annotations d). embedded_only a"
  proof (cases "\<exists>document vs. obj_get m ''annotation_document'' = JObj document \<and> obj_get document ''annotations'' = JArr vs")
    case True
    then obtain document vs where v: "obj_get m ''annotation_document'' = JObj document"
      "obj_get document ''annotations'' = JArr vs" by blast
    then show ?thesis using sanitized_list [of vs] by (simp add: d_def doc_annotations_def)
  next
    case False
    then have "d = m" "doc_annotations m = []" by (auto simp: d_def doc_annotations_def split: json.split)
    then show ?thesis by simp
  qed
  have legacy: "obj_get d ''annotations'' = obj_get m ''annotations''" by (auto simp: d_def split: json.split)
  have s: "sanitize_saved_view_metadata m = (case obj_get m ''annotations'' of
      JArr vs \<Rightarrow> (if sanitize_annotations vs = vs then d else dict_set d ''annotations'' (JArr (sanitize_annotations vs)))
    | _ \<Rightarrow> d)" unfolding sanitize_saved_view_metadata_def Let_def d_def by (rule refl)
  show ?thesis
  proof (cases "\<exists>vs. obj_get m ''annotations'' = JArr vs")
    case True
    then obtain vs where v: "obj_get m ''annotations'' = JArr vs" by blast
    show ?thesis
    proof (cases "sanitize_annotations vs = vs")
      case True
      then have "sanitize_saved_view_metadata m = d" by (simp add: s v)
      moreover have "legacy_annotations d = objects_of vs" using legacy v by (simp add: legacy_annotations_def)
      ultimately show ?thesis using doc True sanitized_list [of vs] by (auto simp: view_annotations_def)
    next
      case False
      then have "sanitize_saved_view_metadata m = dict_set d ''annotations'' (JArr (sanitize_annotations vs))" by (simp add: s v)
      moreover have "doc_annotations (dict_set d ''annotations'' x) = doc_annotations d" for x by (simp add: doc_annotations_def)
      ultimately show ?thesis using doc sanitized_list [of vs] by (auto simp: view_annotations_def legacy_annotations_def)
    qed
  next
    case False
    then have "sanitize_saved_view_metadata m = d" by (auto simp: s split: json.split)
    moreover have "legacy_annotations d = []" using False legacy by (auto simp: legacy_annotations_def split: json.split)
    ultimately show ?thesis using doc by (simp add: view_annotations_def)
  qed
qed

text \<open>C35: however a saved view came into the store, its serialized form, which is all a viewer sees,
holds only embedded images: no annotation makes a browser fetch from another host.\<close>

theorem serialized_views_embedded:
  assumes "is_saved_view n"
  shows "\<exists>m. obj_get (serialize_node n) ''metadata'' = JObj m \<and> (\<forall>a \<in> set (view_annotations m). embedded_only a)"
  using assms sanitized_metadata by (simp add: serialize_node_def is_saved_view_def Let_def)

section \<open>Where the checks do not reach\<close>

definition remote_image :: json_obj where
  "remote_image = [(''type'', JStr ''image''), (''image'', JObj [(''url'', JStr ''http://elsewhere/p.png'')])]"

definition demo_view :: node where
  "demo_view = (demo_node ''v'' ''SavedView'' ''View'')\<lparr>nd_metadata := [(''annotations'', JArr [JObj remote_image])]\<rparr>"

theorem serialized_views_embedded_witness:
  "\<exists>m. obj_get (serialize_node demo_view) ''metadata'' = JObj m \<and> (\<forall>a \<in> set (view_annotations m). embedded_only a)"
  by (rule serialized_views_embedded)
    (simp add: is_saved_view_def demo_view_def demo_node_def node_type_of_def node_kinds_def SAVED_VIEW_NODE_TYPES_def)

lemma remote_image_refused: "image_annotation_error remote_image None = Some NotEmbedded"
  by (simp add: remote_image_def image_annotation_error_def annotation_type_of_def raw_type_def obj_get_def
      resolve_annotation_type_alias_def LEGACY_ANNOTATION_ALIASES_def is_embedded_image_url_def EMBEDDED_IMAGE_URL_PREFIX_def)

text \<open>
  A caller with full access, and one that sees only the local nodes.
\<close>

definition open_caller :: "narrowing \<Rightarrow> caller" where
  "open_caller na =
     \<lparr>ca_hook = (\<lambda>c. \<lparr>de_allowed = True, de_reason = [], de_mode = ''permissive'', de_source = ''default'', de_access = na\<rparr>),
      ca_environ = (\<lambda>k. None), ca_request = demo_inputs\<rparr>"

lemma open_decision: "evaluate_graph_access (open_caller na) a t =
    \<lparr>de_allowed = True, de_reason = [], de_mode = ''permissive'', de_source = ''default'', de_access = na\<rparr>"
  by (simp add: open_caller_def evaluate_graph_access_def)

definition empty_view_graph :: graph where
  "empty_view_graph = (new_graph demo_graph_config 0)\<lparr>g_nodes := [(''v'', demo_node ''v'' ''SavedView'' ''View'')]\<rparr>"

lemma demo_view_ok: "node_ok demo_view"
  by (simp add: demo_view_def demo_node_def node_ok_def node_type_of_def node_kinds_def type_ok_def limit_list_text_def
      LIST_FIELD_TOTAL_LIMIT_def LIST_FIELD_ITEM_LIMIT_def iso_range_def)

text \<open>
  An update of a saved view is checked only in its \<open>metadata\<close>; the store folds other keys into the
  metadata afterwards. The annotation that is refused inside \<open>metadata\<close> is stored outside it.
\<close>

theorem view_check_bypassed:
  "fst (service_update_node demo_graph_config (open_caller no_narrowing) (\<lambda>k. 0) no_event_inputs ''v''
     [(''metadata'', JObj [(''annotations'', JArr [JObj remote_image])])] False None empty_view_graph) = Inl InvalidInput"
  "\<exists>n. get_node (snd (service_update_node demo_graph_config (open_caller no_narrowing) (\<lambda>k. 0) no_event_inputs ''v''
     [(''annotations'', JArr [JObj remote_image])] False None empty_view_graph)) ''v'' = Some n \<and>
     nd_metadata n = [(''annotations'', JArr [JObj remote_image])]"
proof -
  have v: "get_node empty_view_graph ''v'' = Some (demo_node ''v'' ''SavedView'' ''View'')"
    by (simp add: empty_view_graph_def get_node_def)
  have s: "is_saved_view (demo_node ''v'' ''SavedView'' ''View'')"
    by (simp add: is_saved_view_def demo_node_def node_type_of_def node_kinds_def SAVED_VIEW_NODE_TYPES_def)
  have r: "saved_view_annotation_error [(''annotations'', JArr [JObj remote_image])] = ViewRefused NotEmbedded"
    by (simp add: saved_view_annotation_error_def iter_saved_view_annotations_def objects_of_def obj_get_def
        List.map_filter_simps remote_image_refused)
  show "fst (service_update_node demo_graph_config (open_caller no_narrowing) (\<lambda>k. 0) no_event_inputs ''v''
     [(''metadata'', JObj [(''annotations'', JArr [JObj remote_image])])] False None empty_view_graph) = Inl InvalidInput"
    by (simp add: service_update_node_def open_decision no_narrowing_def v s r Let_def obj_get_def)
  have c: "candidate False (demo_node ''v'' ''SavedView'' ''View'') [(''annotations'', JArr [JObj remote_image])] =
      Inr (node_to_dict demo_view)"
    by (simp add: candidate_def candidate_metadata_def allowed_fields_def reserved_fields_def demo_view_def demo_node_def
        node_to_dict_def get_default_def py_dict_or_def dict_update_def)
  have m: "map_of (g_nodes empty_view_graph) ''v'' = Some (demo_node ''v'' ''SavedView'' ''View'')"
    using v by (simp add: get_node_def)
  show "\<exists>n. get_node (snd (service_update_node demo_graph_config (open_caller no_narrowing) (\<lambda>k. 0) no_event_inputs ''v''
     [(''annotations'', JArr [JObj remote_image])] False None empty_view_graph)) ''v'' = Some n \<and>
     nd_metadata n = [(''annotations'', JArr [JObj remote_image])]"
  proof -
    let ?u = "[(''annotations'', JArr [JObj remote_image])]"
    let ?env = "store_env (\<lambda>k. 0) (build_event_context (open_caller no_narrowing) ''update_node'' no_event_inputs)"
    have i: "nd_id (demo_node ''v'' ''SavedView'' ''View'') = ''v''" by (simp add: demo_node_def)
    obtain x g' where u: "update_node demo_graph_config ?env ''v'' ?u False NoGuard empty_view_graph = (Inr (Some x), g')"
      and g': "map_of (g_nodes g') ''v'' = Some (apply_validated (demo_node ''v'' ''SavedView'' ''View'') demo_view 0)"
      by (simp add: update_node_def m guard_error_def c node_roundtrip [OF demo_view_ok] text_changed_def replace_node_def
          apply_validated_def i store_env_def Let_def)
    have "snd (service_update_node demo_graph_config (open_caller no_narrowing) (\<lambda>k. 0) no_event_inputs ''v'' ?u False None
        empty_view_graph) = g'"
      by (simp add: service_update_node_def open_decision no_narrowing_def v s u [unfolded no_narrowing_def] Let_def obj_get_def)
    then show ?thesis using g' by (simp add: get_node_def apply_validated_def demo_view_def)
  qed
qed

text \<open>
  \<open>add_nodes\<close> looks at no scope: the edge \<open>add_edge\<close> refuses, because the caller may not see its end,
  is stored by \<open>add_nodes\<close>.
\<close>

definition hidden_graph :: graph where
  "hidden_graph = (new_graph demo_graph_config 0)\<lparr>g_nodes := [(''a'', demo_node ''a'' ''Actor'' ''Alpha''),
     (''h'', (demo_node ''h'' ''Actor'' ''Hidden'')\<lparr>nd_metadata := [(''origin_graph_id'', JStr ''other'')]\<rparr>)]\<rparr>"

definition local_only :: narrowing where
  "local_only = \<lparr>na_enabled = True, na_allow_local = True, na_include = []\<rparr>"

text \<open>A run that leaves a local node and one of another graph, which the caller may not see.\<close>

definition hidden_node :: node where
  "hidden_node = (demo_node ''h'' ''Actor'' ''Hidden'')\<lparr>nd_metadata := [(''origin_graph_id'', JStr ''other'')]\<rparr>"

definition scoped_ops :: "(graph_env \<times> graph_op) list" where
  "scoped_ops = [(demo_graph_env, AddNodes [demo_node ''a'' ''Actor'' ''Alpha'', hidden_node] [])]"

lemma scoped_ops_ok: "ops_ok scoped_ops"
proof -
  have "node_ok hidden_node"
    by (simp add: hidden_node_def demo_node_def node_ok_def node_type_of_def node_kinds_def type_ok_def limit_list_text_def
      LIST_FIELD_TOTAL_LIMIT_def LIST_FIELD_ITEM_LIMIT_def iso_range_def)
  then show ?thesis using demo_nodes_ok by (simp add: ops_ok_def scoped_ops_def demo_env_ok)
qed

lemma scoped_nodes:
  "map_of (g_nodes (run_graph demo_graph_config scoped_ops (new_graph demo_graph_config 0))) ''h'' =
     Some (hidden_node\<lparr>nd_embedding := Some [1]\<rparr>)"
  by (simp add: scoped_ops_def hidden_node_def demo_graph_defs add_nodes_def new_graph_def graph_init_def flush_def
     save_def Let_def put_node_def net_add_node_def known_node_def embed_nodes_def set_embedding_def
     node_type_of_def node_kinds_def emit_created_node_def node_event_def emit_event_def)

text \<open>The caller is allowed to delete, and deletes what it sees; the hidden node stays.\<close>

theorem service_respects_scope_witness:
  "allowed (open_caller local_only) (CallDeleteNodes [''a'', ''h''] True) \<and>
   map_of (g_nodes (snd (service demo_graph_config (open_caller local_only) (\<lambda>k. 0) no_event_inputs
       (CallDeleteNodes [''a'', ''h''] True) (run_graph demo_graph_config scoped_ops (new_graph demo_graph_config 0))))) ''h'' =
     Some (hidden_node\<lparr>nd_embedding := Some [1]\<rparr>)"
proof -
  let ?call = "CallDeleteNodes [''a'', ''h''] True"
  have h: "\<not> is_node_visible local_only (Some (hidden_node\<lparr>nd_embedding := Some [1]\<rparr>))"
    by (simp add: is_node_visible_def hidden_node_def demo_node_def narrowing_matches_def local_only_def node_graph_id_def
        origin_text_def obj_get_def strip_def is_space_def code_def Let_def)
  have "scope_of (open_caller local_only) ?call = local_only" "allowed (open_caller local_only) ?call"
    by (simp_all add: open_decision)
  with service_respects_scope [OF scoped_ops_ok, of "open_caller local_only" ?call demo_graph_config "\<lambda>k. 0"
      no_event_inputs 0] scoped_nodes h show ?thesis by simp
qed

theorem add_nodes_ignores_scope:
  "fst (service_add_edge demo_graph_config (open_caller local_only) (\<lambda>k. 0) \<lparr>fr_id = ''e'', fr_now = 0\<rparr> no_event_inputs ''a'' ''h''
     None None hidden_graph) = Inl EndpointNotFound"
  "\<exists>e. map_of (g_edges (snd (service_add_nodes demo_graph_config (open_caller local_only) (\<lambda>k. 0)
     (\<lambda>k. \<lparr>fr_id = ''e'', fr_now = 0\<rparr>) no_event_inputs [] [[(''source'', JStr ''a''), (''target'', JStr ''h'')]] hidden_graph))) ''e'' =
     Some e \<and> ed_source e = ''a'' \<and> ed_target e = ''h''"
proof -
  have h: "\<not> is_node_visible local_only (get_node hidden_graph ''h'')"
    by (simp add: is_node_visible_def get_node_def hidden_graph_def narrowing_matches_def local_only_def node_graph_id_def
        origin_text_def obj_get_def strip_def is_space_def code_def Let_def)
  show "fst (service_add_edge demo_graph_config (open_caller local_only) (\<lambda>k. 0) \<lparr>fr_id = ''e'', fr_now = 0\<rparr> no_event_inputs
     ''a'' ''h'' None None hidden_graph) = Inl EndpointNotFound"
    using h by (simp add: service_add_edge_def open_decision Let_def local_only_def)
  obtain e where e: "edge_from_dict \<lparr>fr_id = ''e'', fr_now = 0\<rparr> [(''source'', JStr ''a''), (''target'', JStr ''h'')] = Some e"
    "ed_id e = ''e''" "ed_source e = ''a''" "ed_target e = ''h''" "ed_type e = KnownEdge RELATES_TO"
    by (simp add: edge_from_dict_def field_str_def required_str_def field_edge_type_def field_obj_def field_bool_def field_time_def)
  show "\<exists>e. map_of (g_edges (snd (service_add_nodes demo_graph_config (open_caller local_only) (\<lambda>k. 0)
     (\<lambda>k. \<lparr>fr_id = ''e'', fr_now = 0\<rparr>) no_event_inputs [] [[(''source'', JStr ''a''), (''target'', JStr ''h'')]] hidden_graph))) ''e'' =
     Some e \<and> ed_source e = ''a'' \<and> ed_target e = ''h''"
    by (simp add: service_add_nodes_def authorize_graph_access_def open_decision e Let_def add_nodes_def embed_nodes_def
        resolve_def known_node_def hidden_graph_def new_graph_def graph_init_def save_def flush_def edge_applicable_def
        relationship_type_allows_node_types_def demo_graph_config_def edge_type_of_def relationship_kinds_def
        put_edge_def net_add_edge_def net_add_node_def emit_created_edge_def edge_event_def emit_event_def)
qed

end
