(* ===== verification/SessionAutoAdd.thy ===== *)
theory SessionAutoAdd
  imports EventDispatch
begin

text \<open>
  Agents that add new nodes to a session's view (\<open>backend/core/session_auto_add.py\<close>): the registry of
  rules of each session and the listener that pushes a created node. Ids and times are arguments; the
  push is the list of what it is called with. Patterns and tags are lists of strings.
\<close>

section \<open>Rules\<close>

definition MAX_RULES_PER_SESSION :: nat where "MAX_RULES_PER_SESSION = 20"
definition MAX_SESSIONS_WITH_RULES :: nat where "MAX_SESSIONS_WITH_RULES = 5000"
definition MAX_PATTERN_ENTRIES :: nat where "MAX_PATTERN_ENTRIES = 50"
definition MAX_ENTRY_LENGTH :: nat where "MAX_ENTRY_LENGTH = 200"

datatype auto_add_error = EmptyPattern | CapacityReached

fun normalize_loop :: "string list \<Rightarrow> string list \<Rightarrow> string list" where
  "normalize_loop cleaned [] = cleaned"
| "normalize_loop cleaned (raw # raws) =
     (let entry = take MAX_ENTRY_LENGTH (strip raw)
      in if entry = [] \<or> entry \<in> set cleaned then normalize_loop cleaned raws
         else (let cleaned = cleaned @ [entry]
               in if MAX_PATTERN_ENTRIES \<le> length cleaned then cleaned else normalize_loop cleaned raws))"

definition normalize_pattern :: "string list option \<Rightarrow> string list" where
  "normalize_pattern values = (case values of None \<Rightarrow> [] | Some vs \<Rightarrow> normalize_loop [] vs)"

definition searchable_text :: "json_obj \<Rightarrow> string" where
  "searchable_text d =
     lower (join (text_part d ''name'' @ text_part d ''description'' @ text_part d ''summary'' @
       (case obj_get d ''tags'' of
          JArr vs \<Rightarrow> concat (map (\<lambda>v. case v of JStr s \<Rightarrow> [s] | _ \<Rightarrow> []) vs)
        | _ \<Rightarrow> [])))"

definition node_matches :: "string \<Rightarrow> json_obj \<Rightarrow> string list \<Rightarrow> string list \<Rightarrow> bool" where
  "node_matches ty d node_types keywords =
     (if node_types \<noteq> [] \<and> ty \<notin> set node_types then False
      else if keywords \<noteq> [] \<and> \<not> list_ex (\<lambda>k. contains (lower k) (searchable_text d)) keywords then False
      else True)"

record auto_add_rule =
  ar_agent_id :: string
  ar_session_id :: string
  ar_node_types :: "string list"
  ar_keywords :: "string list"
  ar_created_at :: datetime

definition rule_matches :: "string \<Rightarrow> json_obj \<Rightarrow> auto_add_rule \<Rightarrow> bool" where
  "rule_matches ty d r = node_matches ty d (ar_node_types r) (ar_keywords r)"

definition auto_add_rule_to_dict :: "auto_add_rule \<Rightarrow> json_obj" where
  "auto_add_rule_to_dict r =
     [(''agent_id'', JStr (ar_agent_id r)), (''session_id'', JStr (ar_session_id r)),
      (''node_types'', JArr (map JStr (ar_node_types r))), (''keywords'', JArr (map JStr (ar_keywords r))),
      (''created_at'', JStr (isoformat (ar_created_at r)))]"

section \<open>The registry\<close>

type_synonym rule_registry = "(string, (string, auto_add_rule) dict) dict"

definition add_rule ::
    "datetime \<Rightarrow> string \<Rightarrow> string \<Rightarrow> string list option \<Rightarrow> string list option \<Rightarrow> rule_registry \<Rightarrow>
     (auto_add_error + auto_add_rule) \<times> rule_registry" where
  "add_rule now token session_id node_types keywords reg =
     (let ts = normalize_pattern node_types; ks = normalize_pattern keywords
      in if ts = [] \<and> ks = [] then (Inl EmptyPattern, reg)
         else if (case map_of reg session_id of
                    None \<Rightarrow> MAX_SESSIONS_WITH_RULES \<le> length reg
                  | Some existing \<Rightarrow> MAX_RULES_PER_SESSION \<le> length existing)
         then (Inl CapacityReached, reg)
         else (let r = \<lparr>ar_agent_id = token, ar_session_id = session_id, ar_node_types = ts, ar_keywords = ks, ar_created_at = now\<rparr>;
                   rules = (case map_of reg session_id of None \<Rightarrow> [] | Some existing \<Rightarrow> existing)
               in (Inr r, dict_set reg session_id (dict_set rules token r))))"

definition list_rules :: "string \<Rightarrow> rule_registry \<Rightarrow> auto_add_rule list" where
  "list_rules session_id reg = (case map_of reg session_id of None \<Rightarrow> [] | Some rules \<Rightarrow> dict_values rules)"

definition remove_rule :: "string \<Rightarrow> string \<Rightarrow> rule_registry \<Rightarrow> bool \<times> rule_registry" where
  "remove_rule session_id agent_id reg =
     (case map_of reg session_id of
        None \<Rightarrow> (False, reg)
      | Some rules \<Rightarrow>
          (if rules = [] \<or> agent_id \<notin> set (dict_keys rules) then (False, reg)
           else (let rules = dict_del rules agent_id
                 in (True, if rules = [] then dict_del reg session_id else dict_set reg session_id rules))))"

definition clear_session :: "string \<Rightarrow> rule_registry \<Rightarrow> nat \<times> rule_registry" where
  "clear_session session_id reg = (length (list_rules session_id reg), dict_del reg session_id)"

definition matching_sessions :: "string \<Rightarrow> json_obj \<Rightarrow> rule_registry \<Rightarrow> string list" where
  "matching_sessions ty d reg = dict_keys (filter (\<lambda>(sid, rules). list_ex (rule_matches ty d) (dict_values rules)) reg)"

definition prune_to_sessions :: "string list \<Rightarrow> rule_registry \<Rightarrow> nat \<times> rule_registry" where
  "prune_to_sessions live reg =
     (let stale = filter (\<lambda>sid. sid \<notin> set live) (dict_keys reg) in (length stale, foldl dict_del reg stale))"

definition total_rules :: "rule_registry \<Rightarrow> nat" where
  "total_rules reg = sum_list (map length (dict_values reg))"

definition rule_session_count :: "rule_registry \<Rightarrow> nat" where
  "rule_session_count reg = length reg"

text \<open>The listener: the calls of \<open>push\<close>, each of which may fail alone.\<close>

definition node_create_listener :: "rule_registry \<Rightarrow> graph_event \<Rightarrow> (string \<times> json_obj) list" where
  "node_create_listener reg b =
     (if ge_type b \<noteq> NODE_CREATE then []
      else if ge_kind b \<noteq> NODE then []
      else (let d = (case ge_after b of Some a \<Rightarrow> a | None \<Rightarrow> [])
            in map (\<lambda>sid. (sid, filter (\<lambda>(k, v). k \<noteq> ''embedding'') d)) (matching_sessions (ge_entity_type b) d reg)))"

datatype auto_add_op =
    AddRule datetime string string "string list option" "string list option"
  | RemoveRule string string
  | ClearSession string
  | PruneSessions "string list"

fun auto_add_step :: "auto_add_op \<Rightarrow> rule_registry \<Rightarrow> rule_registry" where
  "auto_add_step (AddRule now token sid ts ks) reg = snd (add_rule now token sid ts ks reg)"
| "auto_add_step (RemoveRule sid aid) reg = snd (remove_rule sid aid reg)"
| "auto_add_step (ClearSession sid) reg = snd (clear_session sid reg)"
| "auto_add_step (PruneSessions live) reg = snd (prune_to_sessions live reg)"

definition run_auto_add :: "auto_add_op list \<Rightarrow> rule_registry" where
  "run_auto_add ops = fold auto_add_step ops []"

section \<open>Invariant\<close>

definition pattern_ok :: "string list \<Rightarrow> bool" where
  "pattern_ok p \<longleftrightarrow> distinct p \<and> length p \<le> MAX_PATTERN_ENTRIES \<and> (\<forall>e \<in> set p. e \<noteq> [] \<and> length e \<le> MAX_ENTRY_LENGTH)"

definition rule_ok :: "string \<Rightarrow> string \<Rightarrow> auto_add_rule \<Rightarrow> bool" where
  "rule_ok sid aid r \<longleftrightarrow> ar_session_id r = sid \<and> ar_agent_id r = aid \<and> pattern_ok (ar_node_types r) \<and>
     pattern_ok (ar_keywords r) \<and> (ar_node_types r \<noteq> [] \<or> ar_keywords r \<noteq> [])"

definition rules_ok :: "string \<Rightarrow> (string, auto_add_rule) dict \<Rightarrow> bool" where
  "rules_ok sid rules \<longleftrightarrow> rules \<noteq> [] \<and> length rules \<le> MAX_RULES_PER_SESSION \<and> distinct (dict_keys rules) \<and>
     (\<forall>aid r. map_of rules aid = Some r \<longrightarrow> rule_ok sid aid r)"

definition registry_ok :: "rule_registry \<Rightarrow> bool" where
  "registry_ok reg \<longleftrightarrow> distinct (dict_keys reg) \<and> length reg \<le> MAX_SESSIONS_WITH_RULES \<and>
     (\<forall>sid rules. map_of reg sid = Some rules \<longrightarrow> rules_ok sid rules)"

lemma normalize_loop_ok: "pattern_ok cleaned \<Longrightarrow> length cleaned < MAX_PATTERN_ENTRIES \<Longrightarrow> pattern_ok (normalize_loop cleaned raws)"
proof (induction cleaned raws rule: normalize_loop.induct)
  case (2 cleaned raw raws)
  let ?e = "take MAX_ENTRY_LENGTH (strip raw)"
  show ?case
  proof (cases "?e = [] \<or> ?e \<in> set cleaned")
    case True
    then show ?thesis using 2 by (simp only: normalize_loop.simps Let_def if_True)
  next
    case False
    then have "pattern_ok (cleaned @ [?e])" using "2.prems" by (auto simp: pattern_ok_def)
    then show ?thesis using "2.IH"(2) [OF refl False refl] False by (simp add: Let_def)
  qed
qed simp

lemma normalize_pattern_ok: "pattern_ok (normalize_pattern values)"
  using normalize_loop_ok [of "[]"] by (auto simp: normalize_pattern_def pattern_ok_def MAX_PATTERN_ENTRIES_def split: option.split)

lemma length_dict_del: "length (dict_del d k) \<le> length d"
  by (rule length_delete_le)

lemma length_dict_set: "length (dict_set d k v) = (if k \<in> set (dict_keys d) then length d else Suc (length d))"
  by (induction d) auto

lemma dict_set_not_nil: "dict_set d k v \<noteq> []"
  by (cases d) auto

lemma add_rule_ok:
  assumes "registry_ok reg"
  shows "registry_ok (snd (add_rule now token sid ts ks reg))"
proof -
  let ?ts = "normalize_pattern ts" and ?ks = "normalize_pattern ks"
  let ?r = "\<lparr>ar_agent_id = token, ar_session_id = sid, ar_node_types = ?ts, ar_keywords = ?ks, ar_created_at = now\<rparr>"
  let ?rules = "case map_of reg sid of None \<Rightarrow> [] | Some existing \<Rightarrow> existing"
  show ?thesis
  proof (cases "(?ts = [] \<and> ?ks = []) \<or> (case map_of reg sid of
                    None \<Rightarrow> MAX_SESSIONS_WITH_RULES \<le> length reg
                  | Some existing \<Rightarrow> MAX_RULES_PER_SESSION \<le> length existing)")
    case True
    then show ?thesis using assms by (auto simp: add_rule_def Let_def)
  next
    case False
    then have "\<not> (?ts = [] \<and> ?ks = [])" "\<not> (case map_of reg sid of None \<Rightarrow> MAX_SESSIONS_WITH_RULES \<le> length reg
                  | Some existing \<Rightarrow> MAX_RULES_PER_SESSION \<le> length existing)" by blast+
    then have step: "snd (add_rule now token sid ts ks reg) = dict_set reg sid (dict_set ?rules token ?r)"
      unfolding add_rule_def Let_def by (simp only: if_False snd_conv)
    have "rule_ok sid token ?r" using False normalize_pattern_ok by (simp add: rule_ok_def)
    moreover have "length (dict_set ?rules token ?r) \<le> MAX_RULES_PER_SESSION"
      using False by (cases "map_of reg sid") (auto simp: length_dict_set MAX_RULES_PER_SESSION_def)
    moreover have "distinct (dict_keys ?rules)" "\<forall>aid r. map_of ?rules aid = Some r \<longrightarrow> rule_ok sid aid r"
      using assms by (auto simp: registry_ok_def rules_ok_def split: option.split)
    ultimately have "rules_ok sid (dict_set ?rules token ?r)" using dict_set_not_nil by (simp add: rules_ok_def)
    moreover have "length (dict_set reg sid x) \<le> MAX_SESSIONS_WITH_RULES" for x
      using False assms map_of_None_keys [of reg sid]
      by (cases "map_of reg sid") (simp_all add: length_dict_set registry_ok_def)
    ultimately show ?thesis using assms unfolding step by (simp add: registry_ok_def)
  qed
qed

lemma remove_rule_ok:
  assumes "registry_ok reg"
  shows "registry_ok (snd (remove_rule sid aid reg))"
proof (cases "map_of reg sid")
  case None
  then show ?thesis using assms by (simp add: remove_rule_def)
next
  case (Some rules)
  let ?rules = "dict_del rules aid"
  have r: "rules_ok sid rules" using assms Some by (simp add: registry_ok_def)
  then have "length ?rules \<le> MAX_RULES_PER_SESSION" unfolding rules_ok_def by (intro order_trans [OF length_dict_del]) simp
  then have "?rules \<noteq> [] \<Longrightarrow> rules_ok sid ?rules" using r by (simp add: rules_ok_def)
  moreover have "length (dict_set reg sid x) = length reg" for x
    using Some map_of_None_keys [of reg sid] by (simp add: length_dict_set)
  moreover have "length (dict_del reg sid) \<le> MAX_SESSIONS_WITH_RULES"
    using assms unfolding registry_ok_def by (intro order_trans [OF length_dict_del]) simp
  ultimately show ?thesis using assms Some by (auto simp: remove_rule_def registry_ok_def Let_def)
qed

lemma foldl_del_ok: "registry_ok reg \<Longrightarrow> registry_ok (foldl dict_del reg ks)"
proof (induction ks arbitrary: reg)
  case (Cons k ks)
  have "length (dict_del reg k) \<le> MAX_SESSIONS_WITH_RULES"
    using Cons.prems unfolding registry_ok_def by (intro order_trans [OF length_dict_del]) simp
  then have "registry_ok (dict_del reg k)" using Cons.prems by (simp add: registry_ok_def)
  then show ?case using Cons.IH by simp
qed simp

lemma auto_add_step_ok: "registry_ok reg \<Longrightarrow> registry_ok (auto_add_step op reg)"
proof (cases op)
  case (ClearSession sid)
  assume "registry_ok reg"
  then show ?thesis using ClearSession foldl_del_ok [of reg "[sid]"] by (simp add: clear_session_def)
next
  case (PruneSessions live)
  assume "registry_ok reg"
  then show ?thesis using PruneSessions foldl_del_ok [of reg] by (simp add: prune_to_sessions_def Let_def)
qed (use add_rule_ok remove_rule_ok in auto)

lemma run_auto_add_ok: "registry_ok (run_auto_add ops)"
proof (induction ops rule: rev_induct)
  case Nil
  then show ?case by (simp add: run_auto_add_def registry_ok_def)
next
  case (snoc op ops)
  then show ?case using auto_add_step_ok [OF snoc.IH, of op] by (simp add: run_auto_add_def)
qed

section \<open>Exactly the rules that stand\<close>

text \<open>The rules as one map from session and agent.\<close>

definition standing :: "rule_registry \<Rightarrow> string \<Rightarrow> string \<Rightarrow> auto_add_rule option" where
  "standing reg sid aid = Option.bind (map_of reg sid) (\<lambda>rules. map_of rules aid)"

lemma standing_add:
  assumes "add_rule now token sid ts ks reg = (Inr r, reg')"
  shows "standing reg' = (standing reg)(sid := (standing reg sid)(token \<mapsto> r))"
  using assms by (auto simp: add_rule_def standing_def Let_def fun_eq_iff split: if_splits option.splits)

lemma standing_add_refused: "add_rule now token sid ts ks reg = (Inl e, reg') \<Longrightarrow> reg' = reg"
  by (auto simp: add_rule_def Let_def split: if_splits)

lemma standing_remove: "standing (snd (remove_rule sid aid reg)) = (standing reg)(sid := (standing reg sid)(aid := None))"
proof (cases "map_of reg sid")
  case None
  then show ?thesis by (auto simp: remove_rule_def standing_def fun_eq_iff)
next
  case (Some rules)
  show ?thesis
  proof (cases "aid \<in> set (dict_keys rules)")
    case False
    then show ?thesis using Some map_of_None_keys [of rules aid] by (auto simp: remove_rule_def standing_def fun_eq_iff)
  next
    case True
    have del: "map_of (dict_del rules aid) = (map_of rules)(aid := None)" by simp
    show ?thesis
    proof (cases "dict_del rules aid = []")
      case empty: True
      have "(map_of rules)(aid := None) = Map.empty" using del unfolding empty by simp
      then have none: "map_of rules x = None" if "x \<noteq> aid" for x using that by (metis fun_upd_other)
      have "snd (remove_rule sid aid reg) = dict_del reg sid"
        using Some True empty by (auto simp: remove_rule_def Let_def)
      then show ?thesis using Some none by (auto simp: standing_def fun_eq_iff)
    next
      case False
      then have "snd (remove_rule sid aid reg) = dict_set reg sid (dict_del rules aid)"
        using Some True by (auto simp: remove_rule_def Let_def)
      then show ?thesis using Some by (auto simp: standing_def fun_eq_iff)
    qed
  qed
qed

lemma standing_clear: "standing (snd (clear_session sid reg)) = (standing reg)(sid := Map.empty)"
  by (auto simp: clear_session_def standing_def fun_eq_iff)

lemma standing_prune:
  "standing (snd (prune_to_sessions live reg)) = (\<lambda>sid. if sid \<in> set live then standing reg sid else Map.empty)"
proof -
  have "map_of (foldl dict_del reg (filter (\<lambda>sid. sid \<notin> set live) (dict_keys reg))) sid =
      (if sid \<in> set live then map_of reg sid else None)" for sid
    using map_of_None_keys [of reg sid] by (auto simp: foldl_dict_del)
  then show ?thesis by (auto simp: prune_to_sessions_def standing_def fun_eq_iff Let_def)
qed

text \<open>C33: whatever rules are added, removed, cleared and pruned, a created node is pushed to exactly the
sessions with a standing rule it matches, to each once and without its embedding, and to no other;
nothing else is pushed. The registry keeps its limits: rules have a pattern of at most 50 entries of
at most 200 characters, no session more than 20 rules, and at most 5000 sessions have any.\<close>

theorem auto_add_exact:
  "let reg = run_auto_add ops; pushes = node_create_listener reg b;
       d = (case ge_after b of Some a \<Rightarrow> a | None \<Rightarrow> [])
   in distinct (map fst pushes) \<and>
      (\<forall>sid payload. (sid, payload) \<in> set pushes \<longleftrightarrow>
         ge_type b = NODE_CREATE \<and> ge_kind b = NODE \<and> payload = filter (\<lambda>(k, v). k \<noteq> ''embedding'') d \<and>
         (\<exists>aid r. standing reg sid aid = Some r \<and> rule_matches (ge_entity_type b) d r)) \<and>
      registry_ok reg"
proof -
  let ?reg = "run_auto_add ops" and ?d = "case ge_after b of Some a \<Rightarrow> a | None \<Rightarrow> []"
  let ?m = "\<lambda>(sid, rules). list_ex (rule_matches (ge_entity_type b) ?d) (dict_values rules)"
  have ok: "registry_ok ?reg" by (rule run_auto_add_ok)
  then have keys: "distinct (dict_keys ?reg)" by (simp add: registry_ok_def)
  then have dist: "distinct (matching_sessions (ge_entity_type b) ?d ?reg)"
    unfolding matching_sessions_def by (rule distinct_map_filter)
  have "sid \<in> set (matching_sessions (ge_entity_type b) ?d ?reg) \<longleftrightarrow>
      (\<exists>aid r. standing ?reg sid aid = Some r \<and> rule_matches (ge_entity_type b) ?d r)" for sid
  proof -
    have "sid \<in> set (matching_sessions (ge_entity_type b) ?d ?reg) \<longleftrightarrow>
        (\<exists>rules. (sid, rules) \<in> set ?reg \<and> list_ex (rule_matches (ge_entity_type b) ?d) (dict_values rules))"
      by (force simp: matching_sessions_def)
    also have "\<dots> \<longleftrightarrow> (\<exists>rules. map_of ?reg sid = Some rules \<and> (\<exists>r \<in> set (dict_values rules). rule_matches (ge_entity_type b) ?d r))"
      by (simp only: dict_item [OF keys] list_ex_iff)
    also have "\<dots> \<longleftrightarrow> (\<exists>rules. map_of ?reg sid = Some rules \<and>
        (\<exists>aid r. map_of rules aid = Some r \<and> rule_matches (ge_entity_type b) ?d r))"
    proof -
      have "(\<exists>r \<in> set (dict_values rules). P r) \<longleftrightarrow> (\<exists>aid r. map_of rules aid = Some r \<and> P r)"
        if "map_of ?reg sid = Some rules" for rules P
      proof -
        have "distinct (dict_keys rules)" using ok that by (auto simp: registry_ok_def rules_ok_def)
        from dict_item [OF this] show ?thesis by force
      qed
      then show ?thesis by blast
    qed
    also have "\<dots> \<longleftrightarrow> (\<exists>aid r. standing ?reg sid aid = Some r \<and> rule_matches (ge_entity_type b) ?d r)"
      by (auto simp: standing_def Option.bind_eq_Some_conv)
    finally show ?thesis .
  qed
  note m = this
  show ?thesis
  proof (cases "ge_type b = NODE_CREATE \<and> ge_kind b = NODE")
    case True
    then show ?thesis using dist ok m by (auto simp: node_create_listener_def Let_def comp_def)
  next
    case False
    then show ?thesis using ok by (auto simp: node_create_listener_def Let_def)
  qed
qed

end
