(* ===== verification/Federation.thy ===== *)
theory Federation
  imports GraphOps GraphSearch
begin

text \<open>
  The read-only copies of remote graphs (\<open>backend/federation/manager.py\<close>, with what it uses of the
  settings of \<open>backend/federation/config.py\<close>). What the HTTP request for a payload yields, the clock
  and the text of a JSON value that is no string, number or boolean are arguments. The events of a
  synchronisation are the list of the callback's calls; Python walks a set of ids in no fixed order,
  here in the order of the dictionary the ids come from. The updates of one synchronisation happen
  under one lock and without an await: they are one step.
\<close>

section \<open>Settings\<close>

record federation_graph =
  fg_graph_id :: string
  fg_display_name :: string
  fg_enabled :: bool
  fg_max_depth_override :: "int option"
  fg_graph_json_url :: "string option"
  fg_allow_adopt :: bool
  fg_scheduled :: bool
  fg_interval_seconds :: int
  fg_on_startup :: bool

record federation_config =
  fs_enabled :: bool
  fs_max_traversal_depth :: int
  fs_depth_levels :: "int list option"
  fs_graphs :: "federation_graph list"

definition get_graph_config :: "federation_config \<Rightarrow> string \<Rightarrow> federation_graph option" where
  "get_graph_config cfg gid = find (\<lambda>gr. fg_graph_id gr = gid) (fs_graphs cfg)"

section \<open>The cache\<close>

datatype sync_error = NoJsonUrl | SyncRaised

datatype fed_status = FedOffline | FedDisabled | FedHealthy | FedDegraded

record fed_cache =
  fc_display_name :: string
  fc_status :: fed_status
  fc_last_synced_at :: "datetime option"
  fc_last_error :: "sync_error option"
  fc_nodes :: "(string, node) dict"
  fc_edges :: "(string, edge) dict"

record federation =
  fm_cache :: "(string, fed_cache) dict"
  fm_next_sync_at :: "(string, rat) dict"
  fm_scheduling :: bool

definition federation_init :: "federation_config \<Rightarrow> federation" where
  "federation_init cfg =
     \<lparr>fm_cache = foldl (\<lambda>c gr. dict_set c (fg_graph_id gr)
        \<lparr>fc_display_name = fg_display_name gr, fc_status = (if fg_enabled gr then FedOffline else FedDisabled),
         fc_last_synced_at = None, fc_last_error = None, fc_nodes = [], fc_edges = []\<rparr>) [] (fs_graphs cfg),
      fm_next_sync_at = [], fm_scheduling = False\<rparr>"

section \<open>Reading a payload\<close>

text \<open>\<open>str(v)\<close>; \<open>rp\<close> is Python's text of a float, a list or a dictionary.\<close>

definition py_str :: "(json \<Rightarrow> string) \<Rightarrow> json \<Rightarrow> string" where
  "py_str rp v =
     (case v of
        JStr s \<Rightarrow> s
      | JNull \<Rightarrow> ''None''
      | JBool b \<Rightarrow> if b then ''True'' else ''False''
      | JInt n \<Rightarrow> string_of_int n
      | _ \<Rightarrow> rp v)"

definition federated_id :: "string \<Rightarrow> string \<Rightarrow> string" where
  "federated_id gid origin = ''federated::'' @ gid @ ''::'' @ origin"

text \<open>What every copy says of its origin, whatever the payload says.\<close>

definition origin_metadata :: "federation_graph \<Rightarrow> string \<Rightarrow> json \<Rightarrow> json_obj" where
  "origin_metadata gr id_key origin =
     [(''origin_graph_id'', JStr (fg_graph_id gr)), (''origin_graph_name'', JStr (fg_display_name gr)),
      (id_key, origin), (''federation_distance'', JInt 1), (''federation_path'', JArr [JStr (fg_graph_id gr)]),
      (''sync_state'', JStr ''fresh''), (''is_federated'', JBool True)]"

definition node_payload :: "federation_graph \<Rightarrow> string \<Rightarrow> json_obj \<Rightarrow> json_obj \<Rightarrow> json_obj" where
  "node_payload gr fid metadata d =
     [(''id'', JStr fid), (''type'', get_default d ''type'' (JStr ''Resource'')),
      (''name'', get_default d ''name'' (JStr ''Unnamed'')), (''description'', get_default d ''description'' (JStr [])),
      (''summary'', get_default d ''summary'' (JStr [])), (''tags'', get_default d ''tags'' (JArr [])),
      (''metadata'', JObj (dict_update metadata (origin_metadata gr ''origin_node_id'' (obj_get d ''id'')))),
      (''archived'', JBool (truthy (obj_get d ''archived'')))]"

text \<open>
  A node pydantic refuses is skipped, but its id stays mapped. \<open>None\<close> is an exception that leaves the
  loop: an element that is no object, or metadata \<open>dict(...)\<close> does not take.
\<close>

fun build_nodes ::
    "federation_graph \<Rightarrow> (json \<Rightarrow> string) \<Rightarrow> (nat \<Rightarrow> datetime) \<Rightarrow> nat \<Rightarrow> json list \<Rightarrow> (string, node) dict \<times> (string, string) dict \<Rightarrow>
     ((string, node) dict \<times> (string, string) dict) option" where
  "build_nodes gr rp now k [] acc = Some acc"
| "build_nodes gr rp now k (v # vs) (nodes, ids) =
     (case v of
        JObj d \<Rightarrow>
          (let origin = py_str rp (obj_get d ''id''); fid = federated_id (fg_graph_id gr) origin; ids = dict_set ids origin fid
           in case py_dict_or (obj_get d ''metadata'') of
                Inl err \<Rightarrow> None
              | Inr metadata \<Rightarrow>
                  (case node_from_dict \<lparr>fr_id = fid, fr_now = now k\<rparr> (node_payload gr fid metadata d) of
                     None \<Rightarrow> build_nodes gr rp now (k + 1) vs (nodes, ids)
                   | Some n \<Rightarrow> build_nodes gr rp now (k + 1) vs (dict_set nodes fid n, ids)))
      | _ \<Rightarrow> None)"

text \<open>\<open>{**(v or {})}\<close>.\<close>

definition splat_or :: "json \<Rightarrow> json_obj option" where
  "splat_or v = (if \<not> truthy v then Some [] else case v of JObj d \<Rightarrow> Some d | _ \<Rightarrow> None)"

definition edge_payload :: "federation_graph \<Rightarrow> string \<Rightarrow> string \<Rightarrow> string \<Rightarrow> json_obj \<Rightarrow> json_obj \<Rightarrow> json_obj" where
  "edge_payload gr eid source target metadata d =
     [(''id'', JStr eid), (''source'', JStr source), (''target'', JStr target),
      (''type'', get_default d ''type'' (JStr ''RELATES_TO'')), (''label'', get_default d ''label'' (JStr [])),
      (''metadata'', JObj (dict_update metadata (origin_metadata gr ''origin_edge_id'' (obj_get d ''id'')))),
      (''archived'', JBool (truthy (obj_get d ''archived'')))]"

fun build_edges ::
    "federation_graph \<Rightarrow> (json \<Rightarrow> string) \<Rightarrow> (nat \<Rightarrow> datetime) \<Rightarrow> nat \<Rightarrow> (string, string) dict \<Rightarrow> json list \<Rightarrow> (string, edge) dict \<Rightarrow>
     (string, edge) dict option" where
  "build_edges gr rp now k ids [] edges = Some edges"
| "build_edges gr rp now k ids (v # vs) edges =
     (case v of
        JObj d \<Rightarrow>
          (case (map_of ids (py_str rp (obj_get d ''source'')), map_of ids (py_str rp (obj_get d ''target''))) of
             (Some source, Some target) \<Rightarrow>
               (let eid = federated_id (fg_graph_id gr)
                      (py_str rp (get_default d ''id'' (JStr (source @ ''->'' @ target))))
                in case splat_or (obj_get d ''metadata'') of
                     None \<Rightarrow> None
                   | Some metadata \<Rightarrow>
                       (case edge_from_dict \<lparr>fr_id = eid, fr_now = now k\<rparr> (edge_payload gr eid source target metadata d) of
                          None \<Rightarrow> build_edges gr rp now (k + 1) ids vs edges
                        | Some e \<Rightarrow> build_edges gr rp now (k + 1) ids vs (dict_set edges eid e)))
           | _ \<Rightarrow> build_edges gr rp now (k + 1) ids vs edges)
      | _ \<Rightarrow> None)"

definition build_cache ::
    "federation_graph \<Rightarrow> (json \<Rightarrow> string) \<Rightarrow> (nat \<Rightarrow> datetime) \<Rightarrow> json list \<Rightarrow> json list \<Rightarrow>
     ((string, node) dict \<times> (string, edge) dict) option" where
  "build_cache gr rp now nodes edges =
     Option.bind (build_nodes gr rp now 0 nodes ([], [])) (\<lambda>(ns, ids).
       map_option (Pair ns) (build_edges gr rp now (length nodes) ids edges []))"

text \<open>The checks of a payload, and the copy it makes.\<close>

definition read_payload ::
    "federation_graph \<Rightarrow> (json \<Rightarrow> string) \<Rightarrow> (nat \<Rightarrow> datetime) \<Rightarrow> json \<Rightarrow> ((string, node) dict \<times> (string, edge) dict) option" where
  "read_payload gr rp now payload =
     (case payload of
        JObj d \<Rightarrow>
          (case (map_of d ''nodes'', get_default d ''edges'' (JArr [])) of
             (Some (JArr nodes), JArr edges) \<Rightarrow> build_cache gr rp now nodes edges
           | _ \<Rightarrow> None)
      | _ \<Rightarrow> None)"

section \<open>Synchronisation\<close>

datatype fed_event =
    NodeEvent string "node option" "node option"
  | EdgeEvent string "edge option" "edge option"

definition node_event_fingerprint :: "node \<Rightarrow> json_obj" where
  "node_event_fingerprint n = dict_del (dict_del (node_to_dict n) ''created_at'') ''updated_at''"

definition emit_node_events :: "(string, node) dict \<Rightarrow> (string, node) dict \<Rightarrow> fed_event list" where
  "emit_node_events previous current =
     map (\<lambda>(i, n). NodeEvent ''create'' None (Some n)) (filter (\<lambda>(i, n). i \<notin> set (dict_keys previous)) current) @
     map (\<lambda>(i, n). NodeEvent ''delete'' (Some n) None) (filter (\<lambda>(i, n). i \<notin> set (dict_keys current)) previous) @
     concat (map (\<lambda>(i, old).
       case map_of current i of
         None \<Rightarrow> []
       | Some new \<Rightarrow>
           if json_eq (JObj (node_event_fingerprint old)) (JObj (node_event_fingerprint new)) then []
           else [NodeEvent ''update'' (Some old) (Some new)]) previous)"

definition emit_edge_events :: "(string, edge) dict \<Rightarrow> (string, edge) dict \<Rightarrow> fed_event list" where
  "emit_edge_events previous current =
     map (\<lambda>(i, e). EdgeEvent ''create'' None (Some e)) (filter (\<lambda>(i, e). i \<notin> set (dict_keys previous)) current) @
     map (\<lambda>(i, e). EdgeEvent ''delete'' (Some e) None) (filter (\<lambda>(i, e). i \<notin> set (dict_keys current)) previous) @
     concat (map (\<lambda>(i, old).
       case map_of current i of
         None \<Rightarrow> []
       | Some new \<Rightarrow>
           if json_eq (JObj (edge_to_dict old)) (JObj (edge_to_dict new)) then []
           else [EdgeEvent ''delete'' (Some old) None, EdgeEvent ''create'' None (Some new)]) previous)"

datatype sync_result =
    Synced nat nat
  | UnknownGraph
  | GraphDisabled
  | SyncFailed sync_error

definition set_degraded :: "string \<Rightarrow> sync_error \<Rightarrow> federation \<Rightarrow> federation" where
  "set_degraded gid err fm =
     (case map_of (fm_cache fm) gid of
        None \<Rightarrow> fm
      | Some c \<Rightarrow> fm\<lparr>fm_cache := dict_set (fm_cache fm) gid (c\<lparr>fc_status := FedDegraded, fc_last_error := Some err\<rparr>)\<rparr>)"

text \<open>\<open>None\<close> is what the code below takes for an exception.\<close>

definition update_cache ::
    "(json \<Rightarrow> string) \<Rightarrow> (nat \<Rightarrow> datetime) \<Rightarrow> federation_graph \<Rightarrow> json \<Rightarrow> federation \<Rightarrow> (sync_result \<times> fed_event list \<times> federation) option" where
  "update_cache rp now gr payload fm =
     Option.bind (read_payload gr rp (\<lambda>k. now (k + 1)) payload) (\<lambda>(nodes, edges).
     Option.bind (map_of (fm_cache fm) (fg_graph_id gr)) (\<lambda>c.
       Some (Synced (length nodes) (length edges),
         emit_node_events (fc_nodes c) nodes @ emit_edge_events (fc_edges c) edges,
         fm\<lparr>fm_cache := dict_set (fm_cache fm) (fg_graph_id gr)
           (c\<lparr>fc_nodes := nodes, fc_edges := edges, fc_status := FedHealthy, fc_last_error := None,
              fc_last_synced_at := Some (now 0)\<rparr>)\<rparr>)))"

text \<open>\<open>fetch url\<close> is the payload of the response, or \<open>None\<close> where the request raises.\<close>

definition sync_graph ::
    "federation_config \<Rightarrow> (json \<Rightarrow> string) \<Rightarrow> (string \<Rightarrow> json option) \<Rightarrow> (nat \<Rightarrow> datetime) \<Rightarrow> string \<Rightarrow> federation \<Rightarrow>
     sync_result \<times> fed_event list \<times> federation" where
  "sync_graph cfg rp fetch now gid fm =
     (case get_graph_config cfg gid of
        None \<Rightarrow> (UnknownGraph, [], fm)
      | Some gr \<Rightarrow>
          if \<not> fg_enabled gr then (GraphDisabled, [], fm)
          else case fg_graph_json_url gr of
            None \<Rightarrow> (SyncFailed NoJsonUrl, [], set_degraded gid NoJsonUrl fm)
          | Some url \<Rightarrow>
              if url = [] then (SyncFailed NoJsonUrl, [], set_degraded gid NoJsonUrl fm)
              else (case Option.bind (fetch url) (\<lambda>payload. update_cache rp now gr payload fm) of
                Some r \<Rightarrow> r
              | None \<Rightarrow> (SyncFailed SyncRaised, [], set_degraded gid SyncRaised fm)))"

text \<open>
  Several synchronisations, in the order in which their requests come back. Each has its own outcome and
  clock.
\<close>

record sync_op =
  so_graph_id :: string
  so_fetch :: "string \<Rightarrow> json option"
  so_now :: "nat \<Rightarrow> datetime"

fun sync_graphs ::
    "federation_config \<Rightarrow> (json \<Rightarrow> string) \<Rightarrow> sync_op list \<Rightarrow> federation \<Rightarrow> sync_result list \<times> fed_event list \<times> federation" where
  "sync_graphs cfg rp [] fm = ([], [], fm)"
| "sync_graphs cfg rp (op # ops) fm =
     (case sync_graph cfg rp (so_fetch op) (so_now op) (so_graph_id op) fm of (r, evs, fm) \<Rightarrow>
        (case sync_graphs cfg rp ops fm of (rs, evs', fm) \<Rightarrow> (r # rs, evs @ evs', fm)))"

fun synced :: "sync_result \<Rightarrow> bool" where
  "synced (Synced n e) = True"
| "synced r = False"

text \<open>Which graphs \<open>sync_all\<close>, \<open>sync_on_startup\<close> and a turn of the scheduler synchronise.\<close>

definition sync_all_ids :: "federation_config \<Rightarrow> string list" where
  "sync_all_ids cfg = map fg_graph_id (filter fg_enabled (fs_graphs cfg))"

definition startup_ids :: "federation_config \<Rightarrow> string list" where
  "startup_ids cfg =
     (if \<not> fs_enabled cfg then []
      else map fg_graph_id (filter (\<lambda>gr. fg_enabled gr \<and> fg_on_startup gr) (fs_graphs cfg)))"

definition scheduled_graphs :: "federation_config \<Rightarrow> federation_graph list" where
  "scheduled_graphs cfg = filter (\<lambda>gr. fg_enabled gr \<and> fg_scheduled gr) (fs_graphs cfg)"

definition federation_start :: "federation_config \<Rightarrow> rat \<Rightarrow> federation \<Rightarrow> federation" where
  "federation_start cfg now fm =
     (if \<not> fs_enabled cfg \<or> fm_scheduling fm \<or> scheduled_graphs cfg = [] then fm
      else fm\<lparr>fm_next_sync_at := foldl (\<lambda>d gr. dict_set d (fg_graph_id gr) (now + of_int (fg_interval_seconds gr)))
           (fm_next_sync_at fm) (scheduled_graphs cfg), fm_scheduling := True\<rparr>)"

definition federation_stop :: "federation \<Rightarrow> federation" where
  "federation_stop fm = fm\<lparr>fm_scheduling := False\<rparr>"

fun due_graphs :: "rat \<Rightarrow> federation_graph list \<Rightarrow> (string, rat) dict \<Rightarrow> string list \<times> (string, rat) dict" where
  "due_graphs now [] next = ([], next)"
| "due_graphs now (gr # grs) next =
     (case map_of next (fg_graph_id gr) of
        None \<Rightarrow> due_graphs now grs (dict_set next (fg_graph_id gr) (now + of_int (fg_interval_seconds gr)))
      | Some due \<Rightarrow>
          if due \<le> now
          then (case due_graphs now grs (dict_set next (fg_graph_id gr) (now + of_int (fg_interval_seconds gr))) of
                  (ids, next) \<Rightarrow> (fg_graph_id gr # ids, next))
          else due_graphs now grs next)"

definition scheduler_turn :: "federation_config \<Rightarrow> rat \<Rightarrow> federation \<Rightarrow> string list \<times> federation" where
  "scheduler_turn cfg now fm =
     (case due_graphs now (scheduled_graphs cfg) (fm_next_sync_at fm) of (ids, next) \<Rightarrow> (ids, fm\<lparr>fm_next_sync_at := next\<rparr>))"

section \<open>Reading the cache\<close>

definition allowed_depth :: "federation_config \<Rightarrow> json \<Rightarrow> int" where
  "allowed_depth cfg gid =
     (let global = (if fs_max_traversal_depth cfg \<le> 0 then 1 else fs_max_traversal_depth cfg)
      in case (case gid of JStr s \<Rightarrow> get_graph_config cfg s | _ \<Rightarrow> None) of
           None \<Rightarrow> global
         | Some gr \<Rightarrow> (case fg_max_depth_override gr of None \<Rightarrow> global | Some m \<Rightarrow> min global m))"

definition within_depth :: "federation_config \<Rightarrow> int option \<Rightarrow> node \<Rightarrow> bool" where
  "within_depth cfg max_depth n =
     (let gid = obj_get (nd_metadata n) ''origin_graph_id'';
          allowed = (case max_depth of None \<Rightarrow> allowed_depth cfg gid | Some m \<Rightarrow> min (allowed_depth cfg gid) m)
      in if \<not> truthy gid then True
         else case json_int (get_default (nd_metadata n) ''federation_distance'' (JInt 1)) of
           None \<Rightarrow> False
         | Some d \<Rightarrow> d \<le> allowed)"

definition fed_type_score :: "node_type \<Rightarrow> string \<Rightarrow> nat" where
  "fed_type_score ty q =
     (let name = lower (node_type_py_str ty)
      in if name = q then 700 else if starts_with name q then 650 else if contains q name then 600 else 0)"

definition fed_score :: "node \<Rightarrow> string \<Rightarrow> nat" where
  "fed_score n q =
     max (name_score (lower (nd_name n)) q) (alias_score (map lower (nd_aliases n)) q) +
     fed_type_score (nd_type n) q + tags_score (map lower (nd_tags n)) q +
     (if list_ex (\<lambda>s. contains q (lower s)) (nd_subtypes n) then 400 else 0) +
     (if contains q (lower (nd_description n)) \<or> contains q (lower (nd_summary n)) then 200 else 0)"

definition fed_text :: "node \<Rightarrow> string" where
  "fed_text n =
     lower (nd_name n @ '' '' @ nd_description n @ '' '' @ nd_summary n @ '' '' @ join (nd_tags n) @ '' '' @
       join (nd_subtypes n) @ '' '' @ join (nd_aliases n))"

definition fed_search_nodes ::
    "federation_config \<Rightarrow> string \<Rightarrow> string list \<Rightarrow> int \<Rightarrow> int option \<Rightarrow> federation \<Rightarrow> node list \<times> edge list" where
  "fed_search_nodes cfg query types limit max_depth fm =
     (let q = strip (lower query); caches = dict_values (fm_cache fm);
          found = filter (\<lambda>n. (types = [] \<or> node_type_str (nd_type n) \<in> set types) \<and> within_depth cfg max_depth n \<and>
                    (match_all q \<or> contains q (fed_text n))) (concat (map (dict_values \<circ> fc_nodes) caches));
          ranked = (if match_all q then found else sort_key (\<lambda>n. - int (fed_score n q)) found);
          nodes = take_to limit ranked; ids = set (map nd_id nodes)
      in (nodes, filter (\<lambda>e. ed_source e \<in> ids \<or> ed_target e \<in> ids) (concat (map (dict_values \<circ> fc_edges) caches))))"

fun first_cached :: "string \<Rightarrow> fed_cache list \<Rightarrow> node option" where
  "first_cached i [] = None"
| "first_cached i (c # cs) = (case map_of (fc_nodes c) i of Some n \<Rightarrow> Some n | None \<Rightarrow> first_cached i cs)"

definition get_cached_node :: "string \<Rightarrow> federation \<Rightarrow> node option" where
  "get_cached_node i fm = first_cached i (dict_values (fm_cache fm))"

definition get_graph_config_for_node :: "federation_config \<Rightarrow> string \<Rightarrow> federation \<Rightarrow> federation_graph option" where
  "get_graph_config_for_node cfg i fm =
     (case get_cached_node i fm of
        None \<Rightarrow> None
      | Some n \<Rightarrow> (case obj_get (nd_metadata n) ''origin_graph_id'' of
           JStr s \<Rightarrow> if s = [] then None else get_graph_config cfg s | _ \<Rightarrow> None))"

definition max_selectable_depth :: "federation_config \<Rightarrow> int" where
  "max_selectable_depth cfg =
     (let m = fs_max_traversal_depth cfg;
          limits = List.map_filter fg_max_depth_override (filter fg_enabled (fs_graphs cfg))
      in if m \<le> 0 then 1 else max 1 (if limits = [] then m else min m (Max (set limits))))"

definition selectable_depth_levels :: "federation_config \<Rightarrow> int list" where
  "selectable_depth_levels cfg =
     (let m = max_selectable_depth cfg
      in case fs_depth_levels cfg of
           Some (v # vs) \<Rightarrow>
             (let bounded = filter (\<lambda>l. l \<le> m) (sort (remdups (filter (\<lambda>l. 1 \<le> l) (v # vs))))
              in if bounded = [] then [1] else bounded)
         | _ \<Rightarrow> [1..m])"

definition graph_display_names :: "federation_config \<Rightarrow> (string, string) dict" where
  "graph_display_names cfg =
     foldl (\<lambda>d gr. dict_set d (fg_graph_id gr) (fg_display_name gr)) [] (filter fg_enabled (fs_graphs cfg))"

end
