(* ===== verification/ServiceQueries.thy ===== *)
theory ServiceQueries
  imports Federation GraphMutations EventHistory
begin

text \<open>
  The reading operations of the graph service (\<open>backend/service/queries.py\<close>, with the federated part of
  \<open>backend/service/access.py\<close>). A result is its nodes and edges and the response made of them. Python
  lists a set of ids in no fixed order: here it is the order of the nodes they come from. A key of a
  metadata filter that is no string names no member. No list
  of types is the empty one. Keys and tags that are not hashable, which raise, are left out.
\<close>

section \<open>Filters\<close>

definition matches_tag_filters :: "string list \<Rightarrow> string list \<Rightarrow> string list \<Rightarrow> string list \<Rightarrow> bool" where
  "matches_tag_filters values tags_all tags_any tags_none =
     (if tags_all \<noteq> [] \<and> \<not> set tags_all \<subseteq> set values then False
      else if tags_any \<noteq> [] \<and> set values \<inter> set tags_any = {} then False
      else if tags_none \<noteq> [] \<and> set values \<inter> set tags_none \<noteq> {} then False
      else True)"

definition as_value_set :: "(json \<Rightarrow> string) \<Rightarrow> json \<Rightarrow> string set" where
  "as_value_set rp v =
     (case v of
        JNull \<Rightarrow> {}
      | JArr vs \<Rightarrow> set (map (py_str rp) vs)
      | _ \<Rightarrow> {py_str rp v})"

definition matches_filter :: "(json \<Rightarrow> string) \<Rightarrow> json_obj \<Rightarrow> json \<Rightarrow> bool" where
  "matches_filter rp meta spec =
     (case spec of
        JObj s \<Rightarrow>
          (let key = obj_get s ''key''; requested = as_value_set rp (obj_get s ''values'')
           in if \<not> truthy key \<or> requested = {} then True
              else
                (let match = (if truthy (obj_get s ''match'') then lower (py_str rp (obj_get s ''match'')) else ''any'');
                     present = as_value_set rp (case key of JStr k \<Rightarrow> obj_get meta k | _ \<Rightarrow> JNull)
                 in if match = ''all'' then requested \<subseteq> present
                    else if match = ''none'' then requested \<inter> present = {}
                    else present \<inter> requested \<noteq> {}))
      | _ \<Rightarrow> True)"

definition matches_metadata_filters :: "(json \<Rightarrow> string) \<Rightarrow> json_obj \<Rightarrow> json list \<Rightarrow> bool" where
  "matches_metadata_filters rp meta specs = list_all (matches_filter rp meta) specs"

record search_request =
  rq_query :: string
  rq_types :: "string list"
  rq_limit :: int
  rq_action :: "string option"
  rq_federation_depth :: "int option"
  rq_tags_any :: "string list"
  rq_tags_all :: "string list"
  rq_tags_none :: "string list"
  rq_metadata_filters :: "json list"
  rq_include_archived :: bool
  rq_semantic :: bool
  rq_match_mode :: string

definition passes_filters :: "(json \<Rightarrow> string) \<Rightarrow> search_request \<Rightarrow> node \<Rightarrow> bool" where
  "passes_filters rp rq n =
     (matches_tag_filters (nd_tags n) (rq_tags_all rq) (rq_tags_any rq) (rq_tags_none rq) \<and>
      matches_metadata_filters rp (nd_metadata n) (rq_metadata_filters rq))"

section \<open>The federated part\<close>

type_synonym federated = "(federation_config \<times> federation) option"

definition federating :: "federated \<Rightarrow> bool" where
  "federating fed = (case fed of None \<Rightarrow> False | Some (cfg, fm) \<Rightarrow> fs_enabled cfg)"

definition federation_display_names :: "graph_config \<Rightarrow> federated \<Rightarrow> narrowing \<Rightarrow> graph \<Rightarrow> (string, string) dict" where
  "federation_display_names gcfg fed na g =
     (let names = (if narrowing_matches na [] then [(''local'', get_graph_name gcfg g)] else [])
      in case fed of
           None \<Rightarrow> names
         | Some (cfg, fm) \<Rightarrow>
             if fs_enabled cfg
             then foldl (\<lambda>d (gid, name). if narrowing_matches na gid then dict_set d gid name else d) names (graph_display_names cfg)
             else names)"

definition federated_search_limit :: "federated \<Rightarrow> int \<Rightarrow> narrowing \<Rightarrow> bool \<Rightarrow> int" where
  "federated_search_limit fed minimum na widen =
     (case fed of
        None \<Rightarrow> minimum
      | Some (cfg, fm) \<Rightarrow>
          if \<not> fs_enabled cfg then minimum
          else if \<not> na_enabled na \<and> \<not> widen then minimum
          else max minimum (int (sum_list (map (length \<circ> fc_nodes) (dict_values (fm_cache fm))))))"

section \<open>Search\<close>

text \<open>What a query reads besides the store: the schema's node types, the models, the remote copies.\<close>

record query_env =
  qe_config :: graph_config
  qe_types :: "string list"
  qe_model :: vector_model
  qe_text :: "json \<Rightarrow> string"
  qe_federation :: federated

definition DEFAULT_SEMANTIC_THRESHOLD :: rat where "DEFAULT_SEMANTIC_THRESHOLD = 3 / 10"

definition type_from_string_ok :: "query_env \<Rightarrow> string \<Rightarrow> bool" where
  "type_from_string_ok qe t = (t \<in> set (map node_kind_value node_kinds) \<or> t \<in> set (qe_types qe))"

definition visible_local :: "query_env \<Rightarrow> search_request \<Rightarrow> narrowing \<Rightarrow> node list \<Rightarrow> node list" where
  "visible_local qe rq na ns =
     take_to (rq_limit rq) (filter (\<lambda>n. is_node_visible na (Some n) \<and> passes_filters (qe_text qe) rq n) ns)"

definition generic_filters :: "search_request \<Rightarrow> bool" where
  "generic_filters rq = (rq_tags_all rq \<noteq> [] \<or> rq_tags_any rq \<noteq> [] \<or> rq_tags_none rq \<noteq> [] \<or> rq_metadata_filters rq \<noteq> [])"

definition search_window :: "search_request \<Rightarrow> narrowing \<Rightarrow> graph \<Rightarrow> int" where
  "search_window rq na g =
     (if na_enabled na \<or> generic_filters rq then max (rq_limit rq) (int (length (g_nodes g))) else rq_limit rq)"

definition semantic_candidates :: "query_env \<Rightarrow> search_request \<Rightarrow> narrowing \<Rightarrow> graph \<Rightarrow> node list" where
  "semantic_candidates qe rq na g =
     semantic_search_nodes (qe_model qe) (rq_query rq) (rq_types rq) (search_window rq na g) DEFAULT_SEMANTIC_THRESHOLD
       (rq_include_archived rq) g"

text \<open>The local part: its nodes, and whether they are ranked by meaning.\<close>

definition local_results :: "query_env \<Rightarrow> search_request \<Rightarrow> narrowing \<Rightarrow> graph \<Rightarrow> (node list \<times> bool) \<times> graph" where
  "local_results qe rq na g =
     (if rq_semantic rq \<and> \<not> match_all (strip (rq_query rq))
      then ((visible_local qe rq na (semantic_candidates qe rq na g), True), g)
      else
        (case search_nodes (qe_config qe) (rq_query rq) (rq_types rq) (search_window rq na g) (rq_include_archived rq)
            (rq_match_mode rq) g of (found, g) \<Rightarrow>
          (let ns = (case found of None \<Rightarrow> [] | Some ns \<Rightarrow> ns);
               fallback = visible_local qe rq na (semantic_candidates qe rq na g)
           in if \<not> rq_semantic rq \<and> ns = [] \<and> \<not> match_all (strip (rq_query rq)) \<and> fallback \<noteq> []
              then ((fallback, True), g)
              else ((visible_local qe rq na ns, False), g))))"

definition is_archived :: "node option \<Rightarrow> bool" where
  "is_archived n = (case n of None \<Rightarrow> False | Some n \<Rightarrow> nd_archived n)"

definition connecting_edges :: "bool \<Rightarrow> node list \<Rightarrow> graph \<Rightarrow> edge list" where
  "connecting_edges include_archived ns g =
     filter (\<lambda>e. include_archived \<or>
         \<not> ed_archived e \<and> \<not> is_archived (get_node g (ed_source e)) \<and> \<not> is_archived (get_node g (ed_target e)))
       (get_incident_edges (map nd_id ns) g)"

definition federated_results :: "query_env \<Rightarrow> search_request \<Rightarrow> narrowing \<Rightarrow> nat \<Rightarrow> node list \<times> edge list" where
  "federated_results qe rq na local =
     (case qe_federation qe of
        None \<Rightarrow> ([], [])
      | Some (cfg, fm) \<Rightarrow>
          (let remaining = max 0 (rq_limit rq - int local) in
           if \<not> fs_enabled cfg \<or> remaining = 0 then ([], [])
           else (case fed_search_nodes cfg (rq_query rq) (rq_types rq)
               (federated_search_limit (qe_federation qe) remaining na (generic_filters rq)) (rq_federation_depth rq) fm of (ns, es) \<Rightarrow>
             if rq_include_archived rq then (filter (passes_filters (qe_text qe) rq) ns, es)
             else (let archived = set (map nd_id (filter nd_archived ns))
                   in (filter (\<lambda>n. passes_filters (qe_text qe) rq n \<and> nd_id n \<notin> archived) ns,
                       filter (\<lambda>e. \<not> ed_archived e \<and> ed_source e \<notin> archived \<and> ed_target e \<notin> archived) es)))))"

text \<open>The first edge of each id.\<close>

fun dedup_edges :: "string list \<Rightarrow> edge list \<Rightarrow> edge list" where
  "dedup_edges seen [] = []"
| "dedup_edges seen (e # es) =
     (if ed_id e \<in> set seen then dedup_edges seen es else e # dedup_edges (ed_id e # seen) es)"

record graph_view =
  vw_nodes :: "node list"
  vw_edges :: "edge list"

definition merge_results :: "narrowing \<Rightarrow> int \<Rightarrow> node list \<Rightarrow> edge list \<Rightarrow> graph_view" where
  "merge_results na limit ns es =
     (case filter_nodes_and_edges na ns es of (ns, es) \<Rightarrow>
        (let cut = limit < int (length ns);
             ns' = (if cut then take_to limit ns else ns);
             ids = set (map nd_id ns');
             es' = (if cut then filter (\<lambda>e. ed_source e \<in> ids \<and> ed_target e \<in> ids) es else es)
         in \<lparr>vw_nodes = ns', vw_edges = dedup_edges [] es'\<rparr>))"

definition search_view :: "query_env \<Rightarrow> search_request \<Rightarrow> narrowing \<Rightarrow> graph \<Rightarrow> (graph_view \<times> bool) \<times> graph" where
  "search_view qe rq na g =
     (case local_results qe rq na g of ((ns, semantic), g) \<Rightarrow>
        (case federated_results qe rq na (length ns) of (fns, fes) \<Rightarrow>
           ((merge_results na (rq_limit rq) (ns @ fns) (connecting_edges (rq_include_archived rq) ns g @ fes), semantic), g)))"

definition search_response :: "query_env \<Rightarrow> search_request \<Rightarrow> graph_view \<Rightarrow> bool \<Rightarrow> json_obj" where
  "search_response qe rq v semantic =
     [(''nodes'', JArr (map (JObj \<circ> serialize_node) (vw_nodes v))),
      (''edges'', JArr (map (JObj \<circ> serialize_edge) (vw_edges v))),
      (''total'', JInt (int (length (vw_nodes v)))), (''query'', JStr (rq_query rq)), (''semantic'', JBool semantic),
      (''match_mode'', JStr (rq_match_mode rq)),
      (''filters'', JObj
         [(''node_types'', if rq_types rq = [] then JNull else strs (rq_types rq)), (''tags_any'', strs (rq_tags_any rq)), (''tags_all'', strs (rq_tags_all rq)),
          (''tags_none'', strs (rq_tags_none rq)), (''metadata_filters'', JArr (rq_metadata_filters rq)),
          (''include_archived'', JBool (rq_include_archived rq))]),
      (''federation'', JObj
         [(''included'', JBool (federating (qe_federation qe))),
          (''federated_nodes'', JInt (int (length (filter (\<lambda>n. node_graph_id n \<noteq> []) (vw_nodes v))))),
          (''federated_edges'', JInt (int (length (filter (\<lambda>e. truthy (obj_get (ed_metadata e) ''origin_graph_id'')) (vw_edges v))))),
          (''depth'', case rq_federation_depth rq of None \<Rightarrow> JNull | Some d \<Rightarrow> JInt d)])] @
     (if given (rq_action rq) then [(''action'', opt_str (rq_action rq))] else [])"

definition denied_read :: "string \<Rightarrow> auth_decision \<Rightarrow> failure" where
  "denied_read target d = AccessDenied (access_denied_result ''read'' target d)"

definition service_search_graph :: "query_env \<Rightarrow> caller \<Rightarrow> search_request \<Rightarrow> graph \<Rightarrow> response \<times> graph" where
  "service_search_graph qe ca rq g =
     (if rq_match_mode rq \<notin> set MATCH_MODES then (Inl Raises, g)
      else
        (let d = evaluate_graph_access ca ''read'' ''search_graph''
         in if \<not> de_allowed d then (Inl (denied_read ''search_graph'' d), g)
            else if \<not> list_all (type_from_string_ok qe) (rq_types rq) then (Inl Raises, g)
            else (case search_view qe rq (de_access d) g of ((v, semantic), g) \<Rightarrow> (Inr (search_response qe rq v semantic), g))))"

section \<open>Single nodes and typed lists\<close>

definition view_lists :: "graph_view \<Rightarrow> json_obj" where
  "view_lists v =
     [(''nodes'', JArr (map (JObj \<circ> serialize_node) (vw_nodes v))),
      (''edges'', JArr (map (JObj \<circ> serialize_edge) (vw_edges v)))]"

definition details_edges :: "narrowing \<Rightarrow> string \<Rightarrow> graph \<Rightarrow> edge list" where
  "details_edges na i g =
     filter (\<lambda>e. \<not> ed_archived e \<and>
         \<not> list_ex (\<lambda>j. j \<noteq> i \<and> is_archived (get_node g j)) [ed_source e, ed_target e] \<and>
         is_edge_visible na g (Some e))
       (get_incident_edges [i] g)"

definition service_get_node_details :: "caller \<Rightarrow> string \<Rightarrow> graph \<Rightarrow> failure + json_obj" where
  "service_get_node_details ca i g =
     (let d = evaluate_graph_access ca ''read'' ''get_node_details''
      in if \<not> de_allowed d then Inl (denied_read ''get_node_details'' d)
         else case get_node g i of
           None \<Rightarrow> Inl NotFound
         | Some n \<Rightarrow>
             if \<not> is_node_visible (de_access d) (Some n) then Inl NotFound
             else Inr [(''success'', JBool True), (''node'', JObj (serialize_node n)),
               (''edges'', JArr (map (JObj \<circ> serialize_edge) (details_edges (de_access d) i g)))])"

definition related_view :: "narrowing \<Rightarrow> string \<Rightarrow> string list \<Rightarrow> int \<Rightarrow> bool \<Rightarrow> graph \<Rightarrow> graph_view" where
  "related_view na i rels depth include_archived g =
     (case get_related_nodes i rels depth include_archived g of (ns, es) \<Rightarrow>
        (case filter_nodes_and_edges na ns es of (ns, es) \<Rightarrow> \<lparr>vw_nodes = ns, vw_edges = es\<rparr>))"

text \<open>\<open>RelationshipType(r)\<close> raises for a type that is not one of the seven legacy ones.\<close>

definition service_get_related_nodes ::
    "caller \<Rightarrow> string \<Rightarrow> string list \<Rightarrow> int \<Rightarrow> bool \<Rightarrow> graph \<Rightarrow> failure + json_obj" where
  "service_get_related_nodes ca i rels depth include_archived g =
     (let d = evaluate_graph_access ca ''read'' ''get_related_nodes''
      in if \<not> de_allowed d then Inl (denied_read ''get_related_nodes'' d)
         else if \<not> is_node_visible (de_access d) (get_node g i) then Inl NotFound
         else if \<not> list_all (\<lambda>r. r \<in> set (map relationship_value relationship_kinds)) rels then Inl Raises
         else (let v = related_view (de_access d) i rels depth include_archived g
               in Inr (view_lists v @ [(''total_nodes'', JInt (int (length (vw_nodes v)))),
                    (''total_edges'', JInt (int (length (vw_edges v)))), (''depth'', JInt depth)])))"

definition typed_nodes_view ::
    "narrowing \<Rightarrow> string \<Rightarrow> string list \<Rightarrow> string list \<Rightarrow> string list \<Rightarrow> int \<Rightarrow> bool \<Rightarrow> graph \<Rightarrow> graph_view" where
  "typed_nodes_view na ty tags_all tags_any subtypes_any limit include_archived g =
     (let ns = take_to limit (filter (\<lambda>n. node_type_str (nd_type n) = ty \<and> is_node_visible na (Some n) \<and>
              (include_archived \<or> \<not> nd_archived n) \<and> matches_tag_filters (nd_tags n) tags_all tags_any [] \<and>
              (subtypes_any = [] \<or> set (nd_subtypes n) \<inter> set subtypes_any \<noteq> {})) (dict_values (g_nodes g)));
          ids = set (map nd_id ns)
      in \<lparr>vw_nodes = ns,
          vw_edges = filter (\<lambda>e. ed_source e \<in> ids \<and> ed_target e \<in> ids \<and> (include_archived \<or> \<not> ed_archived e))
            (get_incident_edges (map nd_id ns) g)\<rparr>)"

definition service_list_typed_nodes ::
    "caller \<Rightarrow> string \<Rightarrow> string list \<Rightarrow> string list \<Rightarrow> string list \<Rightarrow> int \<Rightarrow> bool \<Rightarrow> graph \<Rightarrow> failure + json_obj" where
  "service_list_typed_nodes ca ty tags_all tags_any subtypes_any limit include_archived g =
     (let target = ''list_typed_nodes:'' @ ty; d = evaluate_graph_access ca ''read'' target
      in if \<not> de_allowed d then Inl (denied_read target d)
         else (let v = typed_nodes_view (de_access d) ty tags_all tags_any subtypes_any limit include_archived g
               in Inr (view_lists v @ [(''total'', JInt (int (length (vw_nodes v)))), (''node_type'', JStr ty),
                    (''filters'', JObj [(''tags_all'', strs tags_all), (''tags_any'', strs tags_any),
                       (''subtypes_any'', strs subtypes_any), (''include_archived'', JBool include_archived)])])))"

text \<open>The limit is looked at after an edge is taken: at least one is.\<close>

fun take_edges :: "(edge \<Rightarrow> bool) \<Rightarrow> int \<Rightarrow> nat \<Rightarrow> edge list \<Rightarrow> edge list" where
  "take_edges P limit taken [] = []"
| "take_edges P limit taken (e # es) =
     (if \<not> P e then take_edges P limit taken es
      else if limit \<le> int (Suc taken) then [e]
      else e # take_edges P limit (Suc taken) es)"

definition edge_tags :: "edge \<Rightarrow> json list" where
  "edge_tags e = (case obj_get (ed_metadata e) ''tags'' of JArr vs \<Rightarrow> vs | _ \<Rightarrow> [])"

definition tag_strings :: "json list \<Rightarrow> string list" where
  "tag_strings vs = concat (map (\<lambda>v. case v of JStr s \<Rightarrow> [s] | _ \<Rightarrow> []) vs)"

definition typed_edges_view :: "narrowing \<Rightarrow> string \<Rightarrow> string list \<Rightarrow> string list \<Rightarrow> int \<Rightarrow> bool \<Rightarrow> graph \<Rightarrow> graph_view" where
  "typed_edges_view na ty tags_all tags_any limit include_archived g =
     (let es = take_edges (\<lambda>e. edge_type_str (ed_type e) = ty \<and> (include_archived \<or> \<not> ed_archived e) \<and>
              is_node_visible na (get_node g (ed_source e)) \<and> is_node_visible na (get_node g (ed_target e)) \<and>
              (include_archived \<or> \<not> is_archived (get_node g (ed_source e)) \<and> \<not> is_archived (get_node g (ed_target e))) \<and>
              matches_tag_filters (tag_strings (edge_tags e)) tags_all tags_any []) limit 0 (dict_values (g_edges g))
      in \<lparr>vw_nodes = List.map_filter (get_node g) (remdups (concat (map (\<lambda>e. [ed_source e, ed_target e]) es))), vw_edges = es\<rparr>)"

definition service_list_typed_edges ::
    "caller \<Rightarrow> string \<Rightarrow> string list \<Rightarrow> string list \<Rightarrow> int \<Rightarrow> bool \<Rightarrow> graph \<Rightarrow> failure + json_obj" where
  "service_list_typed_edges ca ty tags_all tags_any limit include_archived g =
     (let target = ''list_typed_edges:'' @ ty; d = evaluate_graph_access ca ''read'' target
      in if \<not> de_allowed d then Inl (denied_read target d)
         else (let v = typed_edges_view (de_access d) ty tags_all tags_any limit include_archived g
               in Inr (view_lists v @ [(''total'', JInt (int (length (vw_edges v)))), (''edge_type'', JStr ty),
                    (''filters'', JObj [(''tags_all'', strs tags_all), (''tags_any'', strs tags_any),
                       (''include_archived'', JBool include_archived)])])))"

section \<open>Reads without a scope\<close>

text \<open>Neither asks the authorization hook.\<close>

definition service_find_similar_nodes ::
    "query_env \<Rightarrow> (string \<Rightarrow> string \<Rightarrow> nat) \<Rightarrow> string \<Rightarrow> string option \<Rightarrow> rat \<Rightarrow> int \<Rightarrow> graph \<Rightarrow> failure + similar_node list" where
  "service_find_similar_nodes qe lev name ty threshold limit g =
     (if (case ty of Some t \<Rightarrow> t \<noteq> [] \<and> \<not> type_from_string_ok qe t | None \<Rightarrow> False) then Inl Raises
      else Inr (find_similar_nodes lev (qe_model qe) name ty threshold limit g))"

definition service_find_similar_nodes_batch ::
    "query_env \<Rightarrow> (string \<Rightarrow> string \<Rightarrow> nat) \<Rightarrow> string list \<Rightarrow> string option \<Rightarrow> rat \<Rightarrow> int \<Rightarrow> graph \<Rightarrow>
     failure + (string, similar_node list) dict" where
  "service_find_similar_nodes_batch qe lev names ty threshold limit g =
     (if (case ty of Some t \<Rightarrow> t \<noteq> [] \<and> \<not> type_from_string_ok qe t | None \<Rightarrow> False) then Inl Raises
      else Inr (find_similar_nodes_batch lev (qe_model qe) names ty threshold limit g))"

text \<open>The statistics, and what is said of the federation.\<close>

record federation_info =
  fi_local_graph_name :: string
  fi_max_selectable_depth :: int
  fi_selectable_depth_levels :: "int list"
  fi_multiple_graphs :: bool
  fi_display_names :: "(string, string) dict"

definition service_get_graph_stats :: "query_env \<Rightarrow> caller \<Rightarrow> graph \<Rightarrow> failure + graph_stats \<times> federation_info" where
  "service_get_graph_stats qe ca g =
     (let d = evaluate_graph_access ca ''read'' ''get_graph_stats''
      in if \<not> de_allowed d then Inl (denied_read ''get_graph_stats'' d)
         else
           (let stats = (if na_enabled (de_access d) then visible_local_graph_stats (de_access d) g else get_stats g);
                names = federation_display_names (qe_config qe) (qe_federation qe) (de_access d) g;
                local = (if ''local'' \<in> set (dict_keys names) then get_graph_name (qe_config qe) g else [])
            in Inr (stats,
                 case qe_federation qe of
                   Some (cfg, fm) \<Rightarrow>
                     (if fs_enabled cfg
                      then \<lparr>fi_local_graph_name = local, fi_max_selectable_depth = max_selectable_depth cfg,
                             fi_selectable_depth_levels = selectable_depth_levels cfg,
                             fi_multiple_graphs = (1 < length names), fi_display_names = names\<rparr>
                      else \<lparr>fi_local_graph_name = local, fi_max_selectable_depth = 1, fi_selectable_depth_levels = [1],
                             fi_multiple_graphs = False, fi_display_names = names\<rparr>)
                 | None \<Rightarrow>
                     \<lparr>fi_local_graph_name = local, fi_max_selectable_depth = 1, fi_selectable_depth_levels = [1],
                      fi_multiple_graphs = False, fi_display_names = names\<rparr>)))"

text \<open>The histories ask for access, but look at no scope.\<close>

definition history_response :: "json_obj \<Rightarrow> json_obj list \<Rightarrow> int \<Rightarrow> int \<Rightarrow> json_obj" where
  "history_response what entries limit offset =
     [(''success'', JBool True)] @ what @ [(''entries'', JArr (map JObj entries)), (''count'', JInt (int (length entries))),
       (''limit'', JInt limit), (''offset'', JInt offset)]"

definition service_get_graph_history :: "caller \<Rightarrow> int \<Rightarrow> int \<Rightarrow> history option \<Rightarrow> failure + json_obj" where
  "service_get_graph_history ca limit offset h =
     (let d = evaluate_graph_access ca ''read'' ''get_graph_history''
      in if \<not> de_allowed d then Inl (denied_read ''get_graph_history'' d)
         else Inr (history_response [] (get_recent_history h limit offset) limit offset))"

definition service_get_node_history :: "caller \<Rightarrow> string \<Rightarrow> int \<Rightarrow> int \<Rightarrow> history option \<Rightarrow> failure + json_obj" where
  "service_get_node_history ca i limit offset h =
     (let d = evaluate_graph_access ca ''read'' ''get_node_history''
      in if \<not> de_allowed d then Inl (denied_read ''get_node_history'' d)
         else Inr (history_response [(''node_id'', JStr i)] (get_node_history h i limit offset) limit offset))"

definition service_get_edge_history :: "caller \<Rightarrow> string \<Rightarrow> int \<Rightarrow> int \<Rightarrow> history option \<Rightarrow> failure + json_obj" where
  "service_get_edge_history ca i limit offset h =
     (let d = evaluate_graph_access ca ''read'' ''get_edge_history''
      in if \<not> de_allowed d then Inl (denied_read ''get_edge_history'' d)
         else Inr (history_response [(''edge_id'', JStr i)] (get_edge_history h i limit offset) limit offset))"

end
