(* ===== verification/FederationProps.thy ===== *)
theory FederationProps
  imports ServiceQueries
begin

text \<open>
  What the copies of remote graphs are: the last payload that could be read, under ids and an origin a
  payload cannot choose.
\<close>

section \<open>Provenance\<close>

text \<open>An object that says where it comes from.\<close>

definition from_graph :: "string \<Rightarrow> json_obj \<Rightarrow> bool" where
  "from_graph gid m \<longleftrightarrow> obj_get m ''origin_graph_id'' = JStr gid"

definition nodes_of :: "string \<Rightarrow> (string, node) dict \<Rightarrow> bool" where
  "nodes_of gid ns \<longleftrightarrow> distinct (dict_keys ns) \<and>
     (\<forall>i n. map_of ns i = Some n \<longrightarrow> nd_id n = i \<and> (\<exists>s. i = federated_id gid s) \<and> from_graph gid (nd_metadata n))"

definition edges_of :: "string \<Rightarrow> (string, edge) dict \<Rightarrow> bool" where
  "edges_of gid es \<longleftrightarrow> distinct (dict_keys es) \<and>
     (\<forall>i e. map_of es i = Some e \<longrightarrow> ed_id e = i \<and> from_graph gid (ed_metadata e) \<and>
        (\<exists>s t. ed_source e = federated_id gid s \<and> ed_target e = federated_id gid t))"

definition ids_of :: "string \<Rightarrow> (string, string) dict \<Rightarrow> bool" where
  "ids_of gid ids \<longleftrightarrow> (\<forall>s i. map_of ids s = Some i \<longrightarrow> i = federated_id gid s)"

definition cache_of :: "string \<Rightarrow> fed_cache \<Rightarrow> bool" where
  "cache_of gid c \<longleftrightarrow> nodes_of gid (fc_nodes c) \<and> edges_of gid (fc_edges c)"

lemma origin_wins: "from_graph (fg_graph_id gr) (dict_update m (origin_metadata gr k v))"
  if "k \<in> {''origin_node_id'', ''origin_edge_id''}"
proof -
  have "distinct (map fst (origin_metadata gr k v))" using that by (auto simp: origin_metadata_def)
  then show ?thesis using that
    by (auto simp: from_graph_def obj_get_def map_of_dict_update map_add_def origin_metadata_def)
qed

lemma payload_node:
  assumes "node_from_dict fr (node_payload gr fid m d) = Some n"
  shows "nd_id n = fid" "from_graph (fg_graph_id gr) (nd_metadata n)"
proof -
  from assms have "nd_id n = fid \<and> nd_metadata n = dict_update m (origin_metadata gr ''origin_node_id'' (obj_get d ''id''))"
    by (auto simp: node_from_dict_def node_payload_def field_str_def field_obj_def Option.bind_eq_Some_conv)
  then show "nd_id n = fid" "from_graph (fg_graph_id gr) (nd_metadata n)" by (simp_all add: origin_wins)
qed

lemma payload_edge:
  assumes "edge_from_dict fr (edge_payload gr eid s t m d) = Some e"
  shows "ed_id e = eid" "ed_source e = s" "ed_target e = t" "from_graph (fg_graph_id gr) (ed_metadata e)"
proof -
  from assms have "ed_id e = eid \<and> ed_source e = s \<and> ed_target e = t \<and>
      ed_metadata e = dict_update m (origin_metadata gr ''origin_edge_id'' (obj_get d ''id''))"
    by (auto simp: edge_from_dict_def edge_payload_def field_str_def field_obj_def required_str_def Option.bind_eq_Some_conv)
  then show "ed_id e = eid" "ed_source e = s" "ed_target e = t" "from_graph (fg_graph_id gr) (ed_metadata e)"
    by (simp_all add: origin_wins)
qed

lemma nodes_of_set:
  "nodes_of gid ns \<Longrightarrow> nd_id n = federated_id gid s \<Longrightarrow> from_graph gid (nd_metadata n) \<Longrightarrow>
   nodes_of gid (dict_set ns (federated_id gid s) n)"
  by (auto simp: nodes_of_def)

lemma edges_of_set:
  "edges_of gid es \<Longrightarrow> ed_id e = i \<Longrightarrow> from_graph gid (ed_metadata e) \<Longrightarrow> ed_source e = federated_id gid s \<Longrightarrow>
   ed_target e = federated_id gid t \<Longrightarrow> edges_of gid (dict_set es i e)"
  by (auto simp: edges_of_def)

lemma ids_of_set: "ids_of gid ids \<Longrightarrow> ids_of gid (dict_set ids s (federated_id gid s))"
  by (auto simp: ids_of_def)

lemma build_nodes_of:
  "build_nodes gr rp now k vs (ns, ids) = Some (ns', ids') \<Longrightarrow> nodes_of (fg_graph_id gr) ns \<Longrightarrow> ids_of (fg_graph_id gr) ids \<Longrightarrow>
   nodes_of (fg_graph_id gr) ns' \<and> ids_of (fg_graph_id gr) ids'"
proof (induction vs arbitrary: k ns ids)
  case (Cons v vs)
  from Cons.prems(1) obtain d where v: "v = JObj d" by (cases v) auto
  let ?o = "py_str rp (obj_get d ''id'')"
  let ?fid = "federated_id (fg_graph_id gr) ?o"
  from Cons.prems(1) obtain m where m: "py_dict_or (obj_get d ''metadata'') = Inr m"
    by (auto simp: v Let_def split: sum.splits)
  show ?case
  proof (cases "node_from_dict \<lparr>fr_id = ?fid, fr_now = now k\<rparr> (node_payload gr ?fid m d)")
    case None
    then show ?thesis using Cons by (simp add: v m Let_def ids_of_set)
  next
    case (Some n)
    have "nodes_of (fg_graph_id gr) (dict_set ns ?fid n)"
      using Cons.prems(2) payload_node [OF Some] by (rule nodes_of_set)
    then show ?thesis using Cons by (simp add: v m Some Let_def ids_of_set)
  qed
qed simp

lemma build_edges_of:
  "build_edges gr rp now k ids vs es = Some es' \<Longrightarrow> edges_of (fg_graph_id gr) es \<Longrightarrow> ids_of (fg_graph_id gr) ids \<Longrightarrow>
   edges_of (fg_graph_id gr) es'"
proof (induction vs arbitrary: k es)
  case (Cons v vs)
  from Cons.prems(1) obtain d where v: "v = JObj d" by (cases v) auto
  show ?case
  proof (cases "map_of ids (py_str rp (obj_get d ''source'')) = None \<or> map_of ids (py_str rp (obj_get d ''target'')) = None")
    case True
    then show ?thesis using Cons by (auto simp: v split: option.splits)
  next
    case False
    then obtain s t where st: "map_of ids (py_str rp (obj_get d ''source'')) = Some s"
      "map_of ids (py_str rp (obj_get d ''target'')) = Some t" by auto
    from Cons.prems(1) obtain m where m: "splat_or (obj_get d ''metadata'') = Some m"
      by (auto simp: v st Let_def split: option.splits)
    let ?eid = "federated_id (fg_graph_id gr) (py_str rp (get_default d ''id'' (JStr (s @ ''->'' @ t))))"
    show ?thesis
    proof (cases "edge_from_dict \<lparr>fr_id = ?eid, fr_now = now k\<rparr> (edge_payload gr ?eid s t m d)")
      case None
      then show ?thesis using Cons by (simp add: v st m Let_def)
    next
      case (Some e)
      have fid: "s = federated_id (fg_graph_id gr) (py_str rp (obj_get d ''source''))"
        "t = federated_id (fg_graph_id gr) (py_str rp (obj_get d ''target''))"
        using Cons.prems(3) st by (auto simp: ids_of_def)
      note p = payload_edge [OF Some]
      have "edges_of (fg_graph_id gr) (dict_set es ?eid e)"
        using Cons.prems(2) p(1) p(4) p(2) [THEN trans, OF fid(1)] p(3) [THEN trans, OF fid(2)] by (rule edges_of_set)
      then show ?thesis using Cons Some by (simp add: v st m Let_def)
    qed
  qed
qed simp

lemma read_payload_of:
  assumes "read_payload gr rp now p = Some (ns, es)"
  shows "nodes_of (fg_graph_id gr) ns \<and> edges_of (fg_graph_id gr) es"
proof -
  from assms obtain nodes edges ids where n: "build_nodes gr rp now 0 nodes ([], []) = Some (ns, ids)"
    and e: "build_edges gr rp now (length nodes) ids edges [] = Some es"
    by (auto simp: read_payload_def build_cache_def Option.bind_eq_Some_conv split: json.splits option.splits)
  from build_nodes_of [OF n] have "nodes_of (fg_graph_id gr) ns" "ids_of (fg_graph_id gr) ids"
    by (simp_all add: nodes_of_def ids_of_def)
  with build_edges_of [OF e] show ?thesis by (simp add: edges_of_def)
qed

lemma get_graph_config_Some: "get_graph_config cfg gid = Some gr \<Longrightarrow> gr \<in> set (fs_graphs cfg) \<and> fg_graph_id gr = gid"
  by (auto simp: get_graph_config_def find_Some_iff)

lemma update_cache_Some:
  assumes "update_cache rp now gr p fm = Some (r, evs, fm')"
  obtains ns es c where "read_payload gr rp (\<lambda>k. now (k + 1)) p = Some (ns, es)" "map_of (fm_cache fm) (fg_graph_id gr) = Some c"
    "r = Synced (length ns) (length es)" "evs = emit_node_events (fc_nodes c) ns @ emit_edge_events (fc_edges c) es"
    "fm' = fm\<lparr>fm_cache := dict_set (fm_cache fm) (fg_graph_id gr)
       (c\<lparr>fc_nodes := ns, fc_edges := es, fc_status := FedHealthy, fc_last_error := None, fc_last_synced_at := Some (now 0)\<rparr>)\<rparr>"
  using assms by (auto simp: update_cache_def Option.bind_eq_Some_conv)

text \<open>What the attempt of a synchronisation reads, if it reads anything.\<close>

definition attempt :: "federation_config \<Rightarrow> (json \<Rightarrow> string) \<Rightarrow> sync_op \<Rightarrow> ((string, node) dict \<times> (string, edge) dict) option" where
  "attempt cfg rp op =
     Option.bind (get_graph_config cfg (so_graph_id op)) (\<lambda>gr.
       if \<not> fg_enabled gr \<or> \<not> str_truthy (fg_graph_json_url gr) then None
       else Option.bind (fg_graph_json_url gr) (\<lambda>url. Option.bind (so_fetch op url) (read_payload gr rp (\<lambda>k. so_now op (k + 1)))))"

definition with_copy :: "fed_cache \<Rightarrow> (string, node) dict \<Rightarrow> (string, edge) dict \<Rightarrow> datetime \<Rightarrow> fed_cache" where
  "with_copy c ns es t =
     c\<lparr>fc_nodes := ns, fc_edges := es, fc_status := FedHealthy, fc_last_error := None, fc_last_synced_at := Some t\<rparr>"

definition without_copy :: "fed_cache \<Rightarrow> sync_error \<Rightarrow> fed_cache" where
  "without_copy c err = c\<lparr>fc_status := FedDegraded, fc_last_error := Some err\<rparr>"

abbreviation sync_op_result where
  "sync_op_result cfg rp op fm \<equiv> sync_graph cfg rp (so_fetch op) (so_now op) (so_graph_id op) fm"

text \<open>The effect of one synchronisation on the caches.\<close>

lemma sync_graph_cache:
  assumes "dom (map_of (fm_cache fm)) = fg_graph_id ` set (fs_graphs cfg)"
  shows "map_of (fm_cache (snd (snd (sync_op_result cfg rp op fm)))) gid =
    (if gid \<noteq> so_graph_id op then map_of (fm_cache fm) gid
     else case get_graph_config cfg gid of
       None \<Rightarrow> map_of (fm_cache fm) gid
     | Some gr \<Rightarrow>
         if \<not> fg_enabled gr then map_of (fm_cache fm) gid
         else map_option (\<lambda>c. case attempt cfg rp op of
             Some (ns, es) \<Rightarrow> with_copy c ns es (so_now op 0)
           | None \<Rightarrow> without_copy c (if str_truthy (fg_graph_json_url gr) then SyncRaised else NoJsonUrl)) (map_of (fm_cache fm) gid))"
proof (cases "get_graph_config cfg (so_graph_id op)")
  case None
  then show ?thesis by (simp add: sync_graph_def)
next
  case (Some gr)
  then have id: "fg_graph_id gr = so_graph_id op" using get_graph_config_Some by blast
  have "so_graph_id op \<in> dom (map_of (fm_cache fm))"
    unfolding assms using get_graph_config_Some [OF Some] by (metis image_eqI)
  then obtain c where c: "map_of (fm_cache fm) (so_graph_id op) = Some c" by blast
  show ?thesis
  proof (cases "fg_enabled gr \<and> str_truthy (fg_graph_json_url gr)")
    case False
    then show ?thesis
      by (auto simp: sync_graph_def Some attempt_def set_degraded_def c without_copy_def str_truthy_def split: option.splits)
  next
    case True
    then obtain url where url: "fg_graph_json_url gr = Some url" "url \<noteq> []" by (auto simp: str_truthy_def split: option.splits)
    show ?thesis
    proof (cases "attempt cfg rp op")
      case n: None
      then have "Option.bind (so_fetch op url) (\<lambda>p. update_cache rp (so_now op) gr p fm) = None"
        using True by (auto simp: attempt_def Some url update_cache_def Option.bind_eq_None_conv)
      then show ?thesis
        using True n by (auto simp: sync_graph_def Some url set_degraded_def c without_copy_def)
    next
      case (Some a)
      then obtain ns es p where p: "a = (ns, es)" "so_fetch op url = Some p"
        "read_payload gr rp (\<lambda>k. so_now op (k + 1)) p = Some (ns, es)"
        using True by (cases a) (auto simp: attempt_def \<open>get_graph_config cfg (so_graph_id op) = Some gr\<close> url Option.bind_eq_Some_conv)
      then show ?thesis
        using True Some \<open>get_graph_config cfg (so_graph_id op) = Some gr\<close>
        by (auto simp: sync_graph_def url update_cache_def c id with_copy_def)
    qed
  qed
qed

lemma sync_graph_dom:
  fixes op :: sync_op
  assumes "dom (map_of (fm_cache fm)) = fg_graph_id ` set (fs_graphs cfg)"
  shows "dom (map_of (fm_cache (snd (snd (sync_op_result cfg rp op fm))))) = fg_graph_id ` set (fs_graphs cfg)"
proof -
  have "map_of (fm_cache (snd (snd (sync_op_result cfg rp op fm)))) gid = None \<longleftrightarrow> map_of (fm_cache fm) gid = None" for gid
    unfolding sync_graph_cache [OF assms] by (auto split: option.splits)
  then show ?thesis using assms by (auto simp: dom_def)
qed

lemma init_cache:
  "map_of (foldl (\<lambda>c gr. dict_set c (fg_graph_id gr) (f gr)) d grs) gid =
   (case find (\<lambda>gr. fg_graph_id gr = gid) (rev grs) of Some gr \<Rightarrow> Some (f gr) | None \<Rightarrow> map_of d gid)"
  by (induction grs rule: rev_induct) auto

lemma find_rev_distinct:
  assumes "distinct (map f xs)"
  shows "find (\<lambda>x. f x = k) (rev xs) = find (\<lambda>x. f x = k) xs"
proof (cases "k \<in> f ` set xs")
  case False
  then have "\<forall>x \<in> set xs. f x \<noteq> k" by auto
  then have "find (\<lambda>x. f x = k) (rev xs) = None" "find (\<lambda>x. f x = k) xs = None" by (simp_all add: find_None_iff)
  then show ?thesis by simp
next
  case True
  then obtain x where x: "x \<in> set xs" "f x = k" by auto
  have "find (\<lambda>x. f x = k) ys = Some x" if "set ys = set xs" for ys
  proof -
    have "\<exists>y \<in> set ys. f y = k" using x that by blast
    then have "find (\<lambda>x. f x = k) ys \<noteq> None" by (auto simp: find_None_iff)
    then obtain y where y: "find (\<lambda>x. f x = k) ys = Some y" by blast
    then have "y \<in> set xs" "f y = k" using that by (auto simp: find_Some_iff)
    then have "y = x" using x assms by (auto simp: distinct_map inj_on_def)
    then show ?thesis using y by simp
  qed
  from this [of xs] this [of "rev xs"] show ?thesis by simp
qed

section \<open>The last good copy\<close>

text \<open>What a graph's cache should be, from its synchronisations alone, the last one first.\<close>

fun expected :: "federation_config \<Rightarrow> (json \<Rightarrow> string) \<Rightarrow> federation_graph \<Rightarrow> sync_op list \<Rightarrow> fed_cache" where
  "expected cfg rp gr [] =
     \<lparr>fc_display_name = fg_display_name gr, fc_status = (if fg_enabled gr then FedOffline else FedDisabled),
      fc_last_synced_at = None, fc_last_error = None, fc_nodes = [], fc_edges = []\<rparr>"
| "expected cfg rp gr (op # ops) =
     (if so_graph_id op \<noteq> fg_graph_id gr \<or> \<not> fg_enabled gr then expected cfg rp gr ops
      else case attempt cfg rp op of
        Some (ns, es) \<Rightarrow> with_copy (expected cfg rp gr ops) ns es (so_now op 0)
      | None \<Rightarrow> without_copy (expected cfg rp gr ops) (if str_truthy (fg_graph_json_url gr) then SyncRaised else NoJsonUrl))"

abbreviation fed_run :: "federation_config \<Rightarrow> (json \<Rightarrow> string) \<Rightarrow> sync_op list \<Rightarrow> federation" where
  "fed_run cfg rp ops \<equiv> snd (snd (sync_graphs cfg rp ops (federation_init cfg)))"

lemma sync_graphs_append:
  "snd (snd (sync_graphs cfg rp (ops @ [op]) fm)) =
   snd (snd (sync_op_result cfg rp op (snd (snd (sync_graphs cfg rp ops fm)))))"
proof (induction ops arbitrary: fm)
  case (Cons a ops)
  show ?case using Cons.IH [of "snd (snd (sync_op_result cfg rp a fm))"] by (simp add: split_beta)
qed (simp add: split_beta)

lemma init_dom: "dom (map_of (fm_cache (federation_init cfg))) = fg_graph_id ` set (fs_graphs cfg)"
proof -
  have "map_of (fm_cache (federation_init cfg)) gid = None \<longleftrightarrow> gid \<notin> fg_graph_id ` set (fs_graphs cfg)" for gid
  proof -
    have "map_of (fm_cache (federation_init cfg)) gid = None \<longleftrightarrow> find (\<lambda>gr. fg_graph_id gr = gid) (rev (fs_graphs cfg)) = None"
      by (simp add: federation_init_def init_cache split: option.split)
    also have "\<dots> \<longleftrightarrow> gid \<notin> fg_graph_id ` set (fs_graphs cfg)"
      by (auto simp: find_None_iff)
    finally show ?thesis .
  qed
  then show ?thesis by (auto simp: dom_def)
qed

lemma run_dom: "dom (map_of (fm_cache (fed_run cfg rp ops))) = fg_graph_id ` set (fs_graphs cfg)"
  by (induction ops rule: rev_induct) (simp_all add: init_dom sync_graphs_append sync_graph_dom)

lemma run_expected:
  assumes "distinct (map fg_graph_id (fs_graphs cfg))" "get_graph_config cfg gid = Some gr"
  shows "map_of (fm_cache (fed_run cfg rp ops)) gid = Some (expected cfg rp gr (rev ops))"
proof (induction ops rule: rev_induct)
  case Nil
  show ?case using assms(2)
    by (simp add: federation_init_def init_cache find_rev_distinct [OF assms(1)] get_graph_config_def)
next
  case (snoc op ops)
  have id: "fg_graph_id gr = gid" using get_graph_config_Some [OF assms(2)] by simp
  show ?case
    unfolding sync_graphs_append sync_graph_cache [OF run_dom]
    using snoc assms(2) id by (auto split: option.splits)
qed

text \<open>C39: whatever payloads, failures and orders of synchronisation there were, the cache of a configured
graph is the one its own synchronisations give: the nodes and edges of the last payload that could be
read, with its time, kept through every failed attempt since; its status is healthy exactly when the
last attempt succeeded, and the attempts of other graphs leave it alone.\<close>

theorem last_good_copy:
  assumes "distinct (map fg_graph_id (fs_graphs cfg))" and "get_graph_config cfg gid = Some gr"
  shows "map_of (fm_cache (snd (snd (sync_graphs cfg rp ops (federation_init cfg))))) gid = Some (expected cfg rp gr (rev ops))"
  using assms by (rule run_expected)

section \<open>Provenance in every run\<close>

definition caches_ok :: "federation_config \<Rightarrow> federation \<Rightarrow> bool" where
  "caches_ok cfg fm \<longleftrightarrow> (\<forall>gid c. map_of (fm_cache fm) gid = Some c \<longrightarrow>
     cache_of gid c \<and> (fc_nodes c = [] \<and> fc_edges c = [] \<or> (\<exists>gr. get_graph_config cfg gid = Some gr \<and> fg_enabled gr)))"

lemma attempt_of:
  assumes "attempt cfg rp op = Some (ns, es)"
  shows "nodes_of (so_graph_id op) ns \<and> edges_of (so_graph_id op) es"
proof -
  from assms obtain gr p where "get_graph_config cfg (so_graph_id op) = Some gr"
    "read_payload gr rp (\<lambda>k. so_now op (k + 1)) p = Some (ns, es)"
    by (auto simp: attempt_def Option.bind_eq_Some_conv split: if_splits)
  then show ?thesis using read_payload_of get_graph_config_Some by metis
qed

lemma caches_ok_step:
  assumes "dom (map_of (fm_cache fm)) = fg_graph_id ` set (fs_graphs cfg)" "caches_ok cfg fm"
  shows "caches_ok cfg (snd (snd (sync_op_result cfg rp (op :: sync_op) fm)))"
  unfolding caches_ok_def sync_graph_cache [OF assms(1)]
proof (intro allI impI, goal_cases)
  case (1 gid c)
  show ?case
  proof (cases "\<exists>gr. gid = so_graph_id op \<and> get_graph_config cfg gid = Some gr \<and> fg_enabled gr")
    case False
    then have "map_of (fm_cache fm) gid = Some c" using 1 by (auto split: option.splits if_splits)
    then show ?thesis using assms(2) unfolding caches_ok_def by blast
  next
    case True
    then obtain gr where gr: "gid = so_graph_id op" "get_graph_config cfg gid = Some gr" "fg_enabled gr" by blast
    from 1 gr obtain c0 where c0: "map_of (fm_cache fm) gid = Some c0"
      and c: "c = (case attempt cfg rp op of Some (ns, es) \<Rightarrow> with_copy c0 ns es (so_now op 0)
        | None \<Rightarrow> without_copy c0 (if str_truthy (fg_graph_json_url gr) then SyncRaised else NoJsonUrl))"
      by auto
    have "cache_of gid c0" using assms(2) c0 by (auto simp: caches_ok_def)
    then have "cache_of gid c"
      using attempt_of [of cfg rp op] gr(1)
      by (auto simp: c cache_of_def with_copy_def without_copy_def split: option.split)
    then show ?thesis using gr by blast
  qed
qed

lemma caches_ok_run: "caches_ok cfg (fed_run cfg rp ops)"
proof (induction ops rule: rev_induct)
  case Nil
  show ?case
    by (auto simp: caches_ok_def federation_init_def init_cache cache_of_def nodes_of_def edges_of_def split: option.splits)
next
  case (snoc op ops)
  show ?case unfolding sync_graphs_append by (rule caches_ok_step [OF run_dom snoc])
qed

lemma take_to_subset: "set (take_to k xs) \<subseteq> set xs"
  by (auto simp: take_to_def dest: in_set_takeD)

lemma fed_search_cached:
  assumes "n \<in> set (fst (fed_search_nodes cfg q types limit depth fm))"
  obtains gid c i where "(gid, c) \<in> set (fm_cache fm)" "(i, n) \<in> set (fc_nodes c)"
proof -
  from assms have "n \<in> set (concat (map (dict_values \<circ> fc_nodes) (dict_values (fm_cache fm))))"
    using take_to_subset by (fastforce simp: fed_search_nodes_def Let_def split: if_splits)
  then show thesis using that by force
qed

lemma federation_keys: "distinct (dict_keys (fm_cache (fed_run cfg rp ops)))"
proof (induction ops rule: rev_induct)
  case Nil
  have "distinct (dict_keys (foldl (\<lambda>c gr. dict_set c (fg_graph_id gr) (f gr)) d grs))"
    if "distinct (dict_keys d)" for f :: "federation_graph \<Rightarrow> fed_cache" and d grs
    using that by (induction grs arbitrary: d) auto
  then show ?case by (simp add: federation_init_def)
next
  case (snoc op ops)
  have "distinct (dict_keys (fm_cache (snd (snd (sync_op_result cfg rp op fm)))))" if "distinct (dict_keys (fm_cache fm))" for fm
    using that by (auto simp: sync_graph_def set_degraded_def update_cache_def Option.bind_eq_Some_conv
        split: option.splits if_splits)
  then show ?case unfolding sync_graphs_append using snoc .
qed

lemma strip_strip: "strip (strip s) = strip s"
proof -
  define t where "t = dropWhile is_space s"
  define u where "u = rev (dropWhile is_space (rev t))"
  have t: "t = u @ rev (takeWhile is_space (rev t))"
    unfolding u_def by (metis rev_append rev_rev_ident takeWhile_dropWhile_id)
  have "dropWhile is_space u = u"
  proof (cases u)
    case (Cons a v)
    then have "t \<noteq> []" "hd t = a" using t by (cases t; simp)+
    then have "\<not> is_space a" unfolding t_def using hd_dropWhile by metis
    then show ?thesis by (simp add: Cons)
  qed simp
  moreover have "dropWhile is_space (rev u) = rev u" by (simp add: u_def dropWhile_idem)
  moreover have "strip s = u" by (simp add: strip_def u_def t_def)
  ultimately show ?thesis by (simp add: strip_def)
qed

lemma from_graph_id: "from_graph gid (nd_metadata n) \<Longrightarrow> node_graph_id n = strip gid"
  by (simp add: from_graph_def node_graph_id_def origin_text_def strip_def)

text \<open>C40: a remote graph cannot disguise its nodes. Whatever its payloads say, and in whatever order graphs
are synchronised, every node of a search of the copies is one of an enabled graph's, under an id that
starts with \<open>federated::\<close> and that graph's id, and its metadata name that graph: a caller whose scope
leaves the graph out sees none of it.\<close>

theorem federation_provenance:
  "n \<in> set (fst (fed_search_nodes cfg q types limit depth (snd (snd (sync_graphs cfg rp ops (federation_init cfg)))))) \<Longrightarrow>
   \<exists>gr s. gr \<in> set (fs_graphs cfg) \<and> fg_enabled gr \<and> nd_id n = federated_id (fg_graph_id gr) s \<and>
     obj_get (nd_metadata n) ''origin_graph_id'' = JStr (fg_graph_id gr) \<and>
     (\<forall>na. is_node_visible na (Some n) = narrowing_matches na (fg_graph_id gr))"
proof (elim fed_search_cached)
  fix gid c i assume c: "(gid, c) \<in> set (fm_cache (fed_run cfg rp ops))" and n: "(i, n) \<in> set (fc_nodes c)"
  have m: "map_of (fm_cache (fed_run cfg rp ops)) gid = Some c" using c dict_item [OF federation_keys] by metis
  then have ok: "nodes_of gid (fc_nodes c)" and g: "fc_nodes c = [] \<and> fc_edges c = [] \<or>
      (\<exists>gr. get_graph_config cfg gid = Some gr \<and> fg_enabled gr)"
    using caches_ok_run [of cfg rp ops] by (auto simp: caches_ok_def cache_of_def)
  have "fc_nodes c \<noteq> []" using n by auto
  then obtain gr where gr: "get_graph_config cfg gid = Some gr" "fg_enabled gr" using g by blast
  note id = get_graph_config_Some [OF gr(1)]
  have "map_of (fc_nodes c) i = Some n" using n ok dict_item unfolding nodes_of_def by metis
  then obtain s where s: "nd_id n = federated_id gid s" "from_graph gid (nd_metadata n)" using ok by (auto simp: nodes_of_def)
  have "is_node_visible na (Some n) = narrowing_matches na gid" for na
    by (simp add: is_node_visible_def from_graph_id [OF s(2)] narrowing_matches_def strip_strip)
  then show ?thesis using id gr(2) s by (auto simp: from_graph_def)
qed

section \<open>A concrete run\<close>

text \<open>A remote graph read once; then its host is down.\<close>

definition demo_remote :: federation_graph where
  "demo_remote = \<lparr>fg_graph_id = ''r'', fg_display_name = ''Remote'', fg_enabled = True, fg_max_depth_override = None,
     fg_graph_json_url = Some ''u'', fg_allow_adopt = True, fg_scheduled = True, fg_interval_seconds = 300, fg_on_startup = True\<rparr>"

definition demo_federation :: federation_config where
  "demo_federation = \<lparr>fs_enabled = True, fs_max_traversal_depth = 0, fs_depth_levels = None, fs_graphs = [demo_remote]\<rparr>"

definition demo_payload :: json where
  "demo_payload = JObj
     [(''nodes'', JArr [JObj [(''id'', JStr ''1''), (''name'', JStr ''A''),
         (''metadata'', JObj [(''origin_graph_id'', JStr ''other'')])], JObj [(''id'', JStr ''2''), (''name'', JStr ''B'')]]),
      (''edges'', JArr [JObj [(''id'', JStr ''e''), (''source'', JStr ''1''), (''target'', JStr ''2'')]])]"

definition demo_syncs :: "sync_op list" where
  "demo_syncs = [\<lparr>so_graph_id = ''r'', so_fetch = (\<lambda>u. Some demo_payload), so_now = (\<lambda>k. 0)\<rparr>,
     \<lparr>so_graph_id = ''r'', so_fetch = (\<lambda>u. None), so_now = (\<lambda>k. 1)\<rparr>]"

lemma demo_read:
  "\<exists>ns es. read_payload demo_remote rp (\<lambda>k. t) demo_payload = Some (ns, es) \<and>
     map fst ns = [''federated::r::1'', ''federated::r::2''] \<and> map fst es = [''federated::r::e''] \<and>
     list_all (within_depth demo_federation None) (map snd ns)"
  by (simp add: read_payload_def build_cache_def demo_payload_def demo_remote_def get_default_def obj_get_def py_str_def
      py_dict_or_def splat_or_def federated_id_def node_from_dict_def node_payload_def edge_from_dict_def edge_payload_def
      field_defs limit_list_text_def LIST_FIELD_TOTAL_LIMIT_def LIST_FIELD_ITEM_LIMIT_def Let_def
      within_depth_def allowed_depth_def demo_federation_def get_graph_config_def json_int_def dict_update_def origin_metadata_def)

lemma demo_config: "get_graph_config demo_federation ''r'' = Some demo_remote"
  by (simp add: get_graph_config_def demo_federation_def demo_remote_def)

lemma demo_run:
  obtains ns es where
    "fm_cache (fed_run demo_federation rp demo_syncs) =
       [(''r'', \<lparr>fc_display_name = ''Remote'', fc_status = FedDegraded, fc_last_synced_at = Some 0,
         fc_last_error = Some SyncRaised, fc_nodes = ns, fc_edges = es\<rparr>)]"
    "read_payload demo_remote rp (\<lambda>k. 0) demo_payload = Some (ns, es)"
    "map fst ns = [''federated::r::1'', ''federated::r::2'']" "map fst es = [''federated::r::e'']"
    "list_all (within_depth demo_federation None) (map snd ns)"
proof -
  from demo_read [of rp 0] obtain ns es where r: "read_payload demo_remote rp (\<lambda>k. 0) demo_payload = Some (ns, es)"
    "map fst ns = [''federated::r::1'', ''federated::r::2'']" "map fst es = [''federated::r::e'']"
    "list_all (within_depth demo_federation None) (map snd ns)" by (elim exE conjE) (rule that)
  have d: "fg_enabled demo_remote" "fg_graph_json_url demo_remote = Some ''u''" "fg_graph_id demo_remote = ''r''"
    "fg_display_name demo_remote = ''Remote''" "fs_graphs demo_federation = [demo_remote]"
    by (simp_all add: demo_remote_def demo_federation_def)
  have "fm_cache (fed_run demo_federation rp demo_syncs) =
      [(''r'', \<lparr>fc_display_name = ''Remote'', fc_status = FedDegraded, fc_last_synced_at = Some 0,
        fc_last_error = Some SyncRaised, fc_nodes = ns, fc_edges = es\<rparr>)]"
    by (simp add: demo_syncs_def sync_graph_def demo_config d federation_init_def update_cache_def r(1) set_degraded_def)
  from that [OF this r] show thesis .
qed

theorem last_good_copy_witness:
  "case map_of (fm_cache (snd (snd (sync_graphs demo_federation (\<lambda>v. []) demo_syncs (federation_init demo_federation))))) ''r'' of
     None \<Rightarrow> False
   | Some c \<Rightarrow> map fst (fc_nodes c) = [''federated::r::1'', ''federated::r::2''] \<and> fc_status c = FedDegraded \<and>
       fc_last_synced_at c = Some 0 \<and> c = expected demo_federation (\<lambda>v. []) demo_remote (rev demo_syncs)"
proof (rule demo_run [of "\<lambda>v. []"], goal_cases)
  case (1 ns es)
  have "distinct (map fg_graph_id (fs_graphs demo_federation))" by (simp add: demo_federation_def)
  from last_good_copy [OF this demo_config, of "\<lambda>v. []" demo_syncs]
  have e: "expected demo_federation (\<lambda>v. []) demo_remote (rev demo_syncs) =
      \<lparr>fc_display_name = ''Remote'', fc_status = FedDegraded, fc_last_synced_at = Some 0,
       fc_last_error = Some SyncRaised, fc_nodes = ns, fc_edges = es\<rparr>" by (simp add: 1(1))
  show ?case unfolding 1(1) e by (simp add: 1(3))
qed

theorem federation_provenance_witness:
  "\<exists>n. n \<in> set (fst (fed_search_nodes demo_federation ''*'' [] 10 None
       (snd (snd (sync_graphs demo_federation (\<lambda>v. []) demo_syncs (federation_init demo_federation)))))) \<and>
     \<not> is_node_visible \<lparr>na_enabled = True, na_allow_local = True, na_include = [''other'']\<rparr> (Some n)"
proof (rule demo_run [of "\<lambda>v. []"], goal_cases)
  case (1 ns es)
  from 1(3) obtain i n ns' where ns: "ns = (i, n) # ns'" by auto
  have w: "filter (within_depth demo_federation None) (map snd ns) = map snd ns" using 1(5) by (simp add: list_all_iff)
  have "n \<in> set (take_to 10 (map snd ns))" by (simp add: ns take_to_def)
  then have s: "n \<in> set (fst (fed_search_nodes demo_federation ''*'' [] 10 None (fed_run demo_federation (\<lambda>v. []) demo_syncs)))"
    by (simp add: fed_search_nodes_def Let_def 1(1) w match_all_def lower_def lower_char_def strip_def is_space_def code_def)
  from federation_provenance [OF s] obtain gr where "gr \<in> set (fs_graphs demo_federation)"
    "\<forall>na. is_node_visible na (Some n) = narrowing_matches na (fg_graph_id gr)" by blast
  then show ?case using s
    by (auto simp: demo_federation_def demo_remote_def narrowing_matches_def strip_def is_space_def code_def)
qed

end
