(* ===== verification/QueryProps.thy ===== *)
theory QueryProps
  imports ServiceQueries GraphSearchProps ServiceProps
begin

text \<open>What the reads of the graph service return, and what they keep from the caller.\<close>

section \<open>Parts of a search\<close>

lemma in_take_to: "x \<in> set (take_to k xs) \<Longrightarrow> x \<in> set xs"
  by (auto simp: take_to_def dest: in_set_takeD split: if_splits)

lemma length_take_to: "0 \<le> k \<Longrightarrow> int (length (take_to k xs)) \<le> k"
  by (simp add: take_to_def)

lemma take_to_all: "int (length xs) \<le> k \<Longrightarrow> take_to k xs = xs"
  by (simp add: take_to_def)

lemma search_nodes_selected:
  assumes "search_nodes cfg q types k ia mm g = (Some ns, g')" "n \<in> set ns"
  shows "selected types ia n"
  using assms by (auto simp: search_nodes_def Let_def sort_ranked_def split: if_splits dest!: in_take_to)

lemma search_nodes_graph: "g_nodes (snd (search_nodes cfg q types k ia mm g)) = g_nodes g"
  by (simp add: search_nodes_def Let_def)

lemma take_selected_all: "n \<in> set (take_selected g P k j hits) \<Longrightarrow> P n"
  by (induction g P k j hits rule: take_selected.induct) (auto split: option.splits if_splits)

lemma semantic_selected: "n \<in> set (semantic_candidates qe rq na g) \<Longrightarrow> selected (rq_types rq) (rq_include_archived rq) n"
  by (auto simp: semantic_candidates_def semantic_search_nodes_def Let_def split: if_splits dest: take_selected_all)

definition wanted :: "query_env \<Rightarrow> search_request \<Rightarrow> node \<Rightarrow> bool" where
  "wanted qe rq n \<longleftrightarrow> selected (rq_types rq) (rq_include_archived rq) n \<and> passes_filters (qe_text qe) rq n"

lemma visible_local_wanted:
  "n \<in> set (visible_local qe rq na ns) \<Longrightarrow> \<forall>n \<in> set ns. selected (rq_types rq) (rq_include_archived rq) n \<Longrightarrow> wanted qe rq n"
  by (auto simp: visible_local_def wanted_def dest!: in_take_to)

lemma local_wanted:
  assumes "local_results qe rq na g = ((ns, sem), g')" "n \<in> set ns"
  shows "wanted qe rq n"
proof -
  obtain found g1 where f: "search_nodes (qe_config qe) (rq_query rq) (rq_types rq) (search_window rq na g)
      (rq_include_archived rq) (rq_match_mode rq) g = (found, g1)" by (cases "search_nodes (qe_config qe) (rq_query rq) (rq_types rq)
      (search_window rq na g) (rq_include_archived rq) (rq_match_mode rq) g")
  let ?f = "case found of None \<Rightarrow> [] | Some ns \<Rightarrow> ns"
  have "(\<exists>h. n \<in> set (visible_local qe rq na (semantic_candidates qe rq na h))) \<or> n \<in> set (visible_local qe rq na ?f)"
    using assms by (auto simp: local_results_def f Let_def split: if_splits)
  moreover have "\<forall>n \<in> set ?f. selected (rq_types rq) (rq_include_archived rq) n"
    using search_nodes_selected f by (auto split: option.splits)
  ultimately show ?thesis using visible_local_wanted semantic_selected by blast
qed

lemma fed_search_types:
  assumes "n \<in> set (fst (fed_search_nodes cfg q types limit depth fm))"
  shows "types = [] \<or> node_type_str (nd_type n) \<in> set types"
proof -
  define P where "P = (\<lambda>n. (types = [] \<or> node_type_str (nd_type n) \<in> set types) \<and> within_depth cfg depth n \<and>
      (match_all (strip (lower q)) \<or> contains (strip (lower q)) (fed_text n)))"
  define ns where "ns = concat (map (dict_values \<circ> fc_nodes) (dict_values (fm_cache fm)))"
  define ranked where "ranked = (if match_all (strip (lower q)) then filter P ns
      else sort_key (\<lambda>n. - int (fed_score n (strip (lower q)))) (filter P ns))"
  have "n \<in> set (take_to limit ranked)"
    using assms unfolding fed_search_nodes_def Let_def ranked_def ns_def P_def fst_conv .
  then have "n \<in> set ranked" by (rule in_take_to)
  then have "P n" by (auto simp: ranked_def split: if_splits)
  then show ?thesis by (simp add: P_def)
qed

lemma federated_wanted:
  assumes "federated_results qe rq na k = (ns, es)" "n \<in> set ns"
  shows "wanted qe rq n"
proof -
  from assms obtain cfg fm fns fes where f: "fed_search_nodes cfg (rq_query rq) (rq_types rq)
      (federated_search_limit (qe_federation qe) (max 0 (rq_limit rq - int k)) na (generic_filters rq)) (rq_federation_depth rq) fm = (fns, fes)"
    and n: "n \<in> set fns" "passes_filters (qe_text qe) rq n"
      "rq_include_archived rq \<or> nd_id n \<notin> set (map nd_id (filter nd_archived fns))"
    by (auto simp: federated_results_def Let_def split: option.splits prod.splits if_splits)
  have "rq_types rq = [] \<or> node_type_str (nd_type n) \<in> set (rq_types rq)"
    using fed_search_types n(1) f by (metis fst_conv)
  moreover have "rq_include_archived rq \<or> \<not> nd_archived n" using n(1,3) by auto
  ultimately show ?thesis using n(2) by (auto simp: wanted_def selected_def)
qed

lemma dedup_edges_set: "set (dedup_edges seen es) \<subseteq> set es"
  by (induction seen es rule: dedup_edges.induct) auto

lemma dedup_edges_distinct:
  "distinct (map ed_id (dedup_edges seen es)) \<and> ed_id ` set (dedup_edges seen es) \<inter> set seen = {}"
  by (induction seen es rule: dedup_edges.induct) auto

text \<open>What the merged result is made of.\<close>

lemma merge_sound:
  assumes "v = merge_results na limit ns es"
  shows "set (vw_nodes v) \<subseteq> {n \<in> set ns. is_node_visible na (Some n)}" "set (vw_edges v) \<subseteq> set es"
    "\<forall>e \<in> set (vw_edges v). {ed_source e, ed_target e} \<subseteq> nd_id ` set (vw_nodes v)"
    "distinct (map ed_id (vw_edges v))" "0 \<le> limit \<longrightarrow> int (length (vw_nodes v)) \<le> limit"
proof -
  let ?ns = "filter (\<lambda>n. is_node_visible na (Some n)) ns"
  let ?cut = "limit < int (length ?ns)"
  let ?ns' = "if ?cut then take_to limit ?ns else ?ns"
  have n: "vw_nodes v = ?ns'" by (simp add: assms merge_results_def filter_nodes_and_edges_def Let_def)
  show "set (vw_nodes v) \<subseteq> {n \<in> set ns. is_node_visible na (Some n)}"
    unfolding n by (auto dest: in_take_to)
  show "0 \<le> limit \<longrightarrow> int (length (vw_nodes v)) \<le> limit" unfolding n by (simp add: length_take_to)
  let ?es = "filter (\<lambda>e. ed_source e \<in> nd_id ` set ?ns \<and> ed_target e \<in> nd_id ` set ?ns) es"
  have d: "vw_edges v = dedup_edges [] (if ?cut then filter (\<lambda>e. ed_source e \<in> nd_id ` set ?ns' \<and> ed_target e \<in> nd_id ` set ?ns') ?es
      else ?es)"
    by (simp add: assms merge_results_def filter_nodes_and_edges_def Let_def)
  have e: "set (vw_edges v) \<subseteq> {e \<in> set es. {ed_source e, ed_target e} \<subseteq> nd_id ` set ?ns'}"
    unfolding d by (rule subset_trans [OF dedup_edges_set]) auto
  then show "set (vw_edges v) \<subseteq> set es" by blast
  show "\<forall>e \<in> set (vw_edges v). {ed_source e, ed_target e} \<subseteq> nd_id ` set (vw_nodes v)" using e unfolding n by blast
  show "distinct (map ed_id (vw_edges v))"
    unfolding d using dedup_edges_distinct by blast
qed

section \<open>Searches\<close>

lemma connecting_archived: "e \<in> set (connecting_edges ia ns g) \<Longrightarrow> ia \<or> \<not> ed_archived e"
  by (auto simp: connecting_edges_def)

lemma federated_edges_archived:
  "federated_results qe rq na k = (ns, es) \<Longrightarrow> e \<in> set es \<Longrightarrow> rq_include_archived rq \<or> \<not> ed_archived e"
  by (auto simp: federated_results_def Let_def split: option.splits prod.splits if_splits)

lemma search_view_sound:
  assumes "search_view qe rq na g = ((v, sem), g')"
  shows "(\<forall>n \<in> set (vw_nodes v). is_node_visible na (Some n) \<and> wanted qe rq n) \<and>
    (\<forall>e \<in> set (vw_edges v). {ed_source e, ed_target e} \<subseteq> nd_id ` set (vw_nodes v) \<and> (rq_include_archived rq \<or> \<not> ed_archived e)) \<and>
    distinct (map ed_id (vw_edges v)) \<and> (0 \<le> rq_limit rq \<longrightarrow> int (length (vw_nodes v)) \<le> rq_limit rq)"
proof -
  obtain ns s g1 where l: "local_results qe rq na g = ((ns, s), g1)" by (metis prod.exhaust)
  obtain fns fes where f: "federated_results qe rq na (length ns) = (fns, fes)" by (metis prod.exhaust)
  have v: "v = merge_results na (rq_limit rq) (ns @ fns) (connecting_edges (rq_include_archived rq) ns g1 @ fes)"
    using assms by (auto simp: search_view_def l f)
  note m = merge_sound [OF v]
  have w: "wanted qe rq n" if "n \<in> set (ns @ fns)" for n
    using that local_wanted [OF l] federated_wanted [OF f] by auto
  have a: "rq_include_archived rq \<or> \<not> ed_archived e" if "e \<in> set (connecting_edges (rq_include_archived rq) ns g1 @ fes)" for e
    using that connecting_archived federated_edges_archived [OF f] by auto
  have "\<forall>n \<in> set (vw_nodes v). is_node_visible na (Some n) \<and> wanted qe rq n" using m(1) w by blast
  moreover have "\<forall>e \<in> set (vw_edges v). {ed_source e, ed_target e} \<subseteq> nd_id ` set (vw_nodes v) \<and>
      (rq_include_archived rq \<or> \<not> ed_archived e)" using m(2,3) a by blast
  ultimately show ?thesis using m(4,5) by blast
qed

abbreviation read_decision :: "caller \<Rightarrow> string \<Rightarrow> auth_decision" where
  "read_decision ca target \<equiv> evaluate_graph_access ca ''read'' target"

text \<open>C36: a search answers only a caller the hook lets read, and whatever it ranks by, text or meaning,
and whatever the copies of remote graphs hold, every node it returns lies in the caller's scope, has
one of the asked types, passes the tag and metadata filters and is not archived unless archived ones
were asked for; every edge joins two returned nodes and is listed once; the limit is kept.\<close>

theorem search_sound:
  assumes "service_search_graph qe ca rq g = (Inr response, g')"
  shows "de_allowed (read_decision ca ''search_graph'') \<and>
    (\<exists>v sem. response = search_response qe rq v sem \<and>
       (\<forall>n \<in> set (vw_nodes v). is_node_visible (de_access (read_decision ca ''search_graph'')) (Some n) \<and>
          (rq_types rq = [] \<or> node_type_str (nd_type n) \<in> set (rq_types rq)) \<and> (rq_include_archived rq \<or> \<not> nd_archived n) \<and>
          passes_filters (qe_text qe) rq n) \<and>
       (\<forall>e \<in> set (vw_edges v). {ed_source e, ed_target e} \<subseteq> nd_id ` set (vw_nodes v) \<and> (rq_include_archived rq \<or> \<not> ed_archived e)) \<and>
       distinct (map ed_id (vw_edges v)) \<and> (0 \<le> rq_limit rq \<longrightarrow> int (length (vw_nodes v)) \<le> rq_limit rq))"
proof -
  let ?d = "read_decision ca ''search_graph''"
  from assms obtain v sem where v: "search_view qe rq (de_access ?d) g = ((v, sem), g')" "response = search_response qe rq v sem"
    and d: "de_allowed ?d"
    by (auto simp: service_search_graph_def Let_def split: if_splits prod.splits)
  from search_view_sound [OF v(1)] v(2) d show ?thesis unfolding wanted_def selected_def by blast
qed

text \<open>The nodes of the store whose text the query matches, ranked: what an unlimited search returns.\<close>

definition lexical_matches :: "query_env \<Rightarrow> search_request \<Rightarrow> graph \<Rightarrow> node list" where
  "lexical_matches qe rq g =
     (case fst (search_nodes (qe_config qe) (rq_query rq) (rq_types rq) (int (length (g_nodes g))) (rq_include_archived rq)
        (rq_match_mode rq) g) of None \<Rightarrow> [] | Some ns \<Rightarrow> ns)"

lemma search_nodes_window:
  assumes "mm \<in> set MATCH_MODES"
  obtains R g1 where "length R \<le> length (g_nodes g)" "\<And>k. search_nodes cfg q types k ia mm g = (Some (take_to k R), g1)"
proof (cases "match_all (strip (lower q))")
  case True
  show thesis
    by (rule that [of "filter (selected types ia) (dict_values (g_nodes g))" g])
      (use assms True in \<open>auto simp: search_nodes_def Let_def intro: order_trans [OF length_filter_le]\<close>)
next
  case False
  let ?ns = "filter (selected types ia) (dict_values (g_nodes g))"
  let ?c = "foldl (cache_text cfg) (g_text g) ?ns"
  let ?h = "matched_terms ?c (query_terms mm (strip (lower q)))"
  have "length (sort_ranked cfg ?h (filter (\<lambda>n. ?h n \<noteq> []) ?ns)) \<le> length (g_nodes g)"
    unfolding sort_ranked_def length_sort by (intro order_trans [OF length_filter_le] order_trans [OF length_filter_le]) simp
  from that [OF this, of "g\<lparr>g_text := ?c\<rparr>"] show thesis using assms False by (simp add: search_nodes_def Let_def)
qed

lemma filter_take_to_window:
  assumes "int (length R) \<le> k" shows "filter P (take_to k R) = filter P R"
  using assms by (simp add: take_to_all)

lemma local_results_complete:
  assumes "\<not> rq_semantic rq" "rq_match_mode rq \<in> set MATCH_MODES" "0 \<le> rq_limit rq"
    and "lexical_matches qe rq g \<noteq> [] \<and> 0 < rq_limit rq \<or> match_all (strip (rq_query rq))"
  shows "fst (fst (local_results qe rq na g)) =
    take (nat (rq_limit rq)) (filter (\<lambda>n. is_node_visible na (Some n) \<and> passes_filters (qe_text qe) rq n) (lexical_matches qe rq g))"
proof -
  let ?P = "\<lambda>n. is_node_visible na (Some n) \<and> passes_filters (qe_text qe) rq n"
  let ?k = "search_window rq na g"
  obtain R g1 where R: "length R \<le> length (g_nodes g)"
    "\<And>k. search_nodes (qe_config qe) (rq_query rq) (rq_types rq) k (rq_include_archived rq) (rq_match_mode rq) g = (Some (take_to k R), g1)"
    using search_nodes_window [OF assms(2)] by blast
  have m: "lexical_matches qe rq g = R" using R(1) by (simp add: lexical_matches_def R(2) take_to_all)
  have k: "rq_limit rq \<le> ?k" by (simp add: search_window_def)
  have ne: "take_to ?k R \<noteq> [] \<or> match_all (strip (rq_query rq))"
    using assms(4) k by (auto simp: m take_to_def)
  have "fst (fst (local_results qe rq na g)) = visible_local qe rq na (take_to ?k R)"
    using assms(1) ne by (auto simp: local_results_def R(2) Let_def)
  also have "\<dots> = take (nat (rq_limit rq)) (filter ?P R)"
  proof (cases "na_enabled na \<or> generic_filters rq")
    case True
    then have "int (length R) \<le> ?k" using R(1) by (simp add: search_window_def)
    then show ?thesis using assms(3) by (simp add: visible_local_def take_to_all) (simp add: take_to_def)
  next
    case False
    then have "?P n" for n
      by (simp add: is_node_visible_def narrowing_matches_def passes_filters_def generic_filters_def matches_tag_filters_def
          matches_metadata_filters_def)
    moreover have "?k = rq_limit rq" using False by (simp add: search_window_def)
    ultimately show ?thesis using assms(3) by (simp add: visible_local_def take_to_def)
  qed
  finally show ?thesis by (simp add: m)
qed

text \<open>C37: narrowing and filters lose no match. When a search by text finds anything in the store, the local
nodes of its answer are the first ones, at most the limit, of all matches of the query that the caller
may see and that pass the filters, in the order of their rank: a match is never dropped because hidden
or filtered ones ranked before it. The nodes of remote graphs come after them.\<close>

theorem search_complete:
  assumes "service_search_graph qe ca rq g = (Inr response, g')" "\<not> rq_semantic rq" "0 < rq_limit rq"
    and "lexical_matches qe rq g \<noteq> [] \<or> match_all (strip (rq_query rq))"
  shows "\<exists>v sem remote. response = search_response qe rq v sem \<and>
    vw_nodes v = take (nat (rq_limit rq)) (filter (\<lambda>n. is_node_visible (de_access (read_decision ca ''search_graph'')) (Some n) \<and>
       passes_filters (qe_text qe) rq n) (lexical_matches qe rq g)) @ remote"
proof -
  let ?na = "de_access (read_decision ca ''search_graph'')"
  let ?L = "take (nat (rq_limit rq)) (filter (\<lambda>n. is_node_visible ?na (Some n) \<and> passes_filters (qe_text qe) rq n)
      (lexical_matches qe rq g))"
  from assms(1) obtain v sem where v: "search_view qe rq ?na g = ((v, sem), g')" "response = search_response qe rq v sem"
    and mode: "rq_match_mode rq \<in> set MATCH_MODES"
    by (auto simp: service_search_graph_def Let_def split: if_splits prod.splits)
  obtain ns s g1 where l: "local_results qe rq ?na g = ((ns, s), g1)" by (metis prod.exhaust)
  have ns: "ns = ?L" using local_results_complete [OF assms(2) mode, where g = g and na = ?na and qe = qe] assms(3,4) by (simp add: l)
  obtain fns fes where f: "federated_results qe rq ?na (length ns) = (fns, fes)" by (metis prod.exhaust)
  let ?F = "filter (\<lambda>n. is_node_visible ?na (Some n)) (ns @ fns)"
  have "filter (\<lambda>n. is_node_visible ?na (Some n)) ns = ns"
    unfolding ns by (rule filter_True) (auto dest: in_set_takeD)
  then have F: "?F = ns @ filter (\<lambda>n. is_node_visible ?na (Some n)) fns" by simp
  have len: "int (length ns) \<le> rq_limit rq" unfolding ns using assms(3) by simp
  have "vw_nodes v = (if rq_limit rq < int (length ?F) then take_to (rq_limit rq) ?F else ?F)"
    using v(1) by (auto simp: search_view_def l f merge_results_def filter_nodes_and_edges_def Let_def)
  also have "\<dots> = ns @ take (nat (rq_limit rq) - length ns) (filter (\<lambda>n. is_node_visible ?na (Some n)) fns)"
    unfolding F using len assms(3) by (auto simp: take_to_def)
  finally show ?thesis using v(2) unfolding ns by blast
qed

section \<open>The other reads\<close>

definition in_scope :: "narrowing \<Rightarrow> bool \<Rightarrow> graph_view \<Rightarrow> bool" where
  "in_scope na include_archived v \<longleftrightarrow>
     (\<forall>n \<in> set (vw_nodes v). is_node_visible na (Some n)) \<and>
     (\<forall>e \<in> set (vw_edges v). {ed_source e, ed_target e} \<subseteq> nd_id ` set (vw_nodes v) \<and> (include_archived \<or> \<not> ed_archived e))"

lemma related_within: "in_scope na True (related_view na i rels depth ia g)"
  by (auto simp: in_scope_def related_view_def filter_nodes_and_edges_def Let_def split: prod.splits)

lemma typed_nodes_within: "in_scope na ia (typed_nodes_view na ty all any subs limit ia g)"
  by (auto simp: in_scope_def typed_nodes_view_def Let_def dest!: in_take_to)

lemma take_edges_all: "e \<in> set (take_edges P k j es) \<Longrightarrow> P e"
  by (induction P k j es rule: take_edges.induct) (auto split: if_splits)

lemma typed_edges_within:
  assumes "\<And>i n. map_of (g_nodes g) i = Some n \<Longrightarrow> nd_id n = i"
  shows "in_scope na ia (typed_edges_view na ty all any limit ia g)"
proof -
  let ?v = "typed_edges_view na ty all any limit ia g"
  have e: "is_node_visible na (get_node g (ed_source e)) \<and> is_node_visible na (get_node g (ed_target e)) \<and> (ia \<or> \<not> ed_archived e)"
    if "e \<in> set (vw_edges ?v)" for e
    using that by (auto simp: typed_edges_view_def Let_def dest!: take_edges_all)
  have n: "set (vw_nodes ?v) = {n. \<exists>e \<in> set (vw_edges ?v). get_node g (ed_source e) = Some n \<or> get_node g (ed_target e) = Some n}"
    by (force simp: typed_edges_view_def Let_def List.map_filter_def)
  have "nd_id n = i" if "get_node g i = Some n" for n i using that assms by (simp add: get_node_def)
  moreover have "\<exists>n. get_node g i = Some n" if "is_node_visible na (get_node g i)" for i
    using that by (auto simp: is_node_visible_def split: option.splits)
  ultimately show ?thesis using e unfolding in_scope_def n by (force simp: image_iff)
qed

text \<open>C38: the neighbours, the typed lists and the details of a node show nothing outside the caller's
scope. The neighbours of a node, the nodes of a type and the edges of a type come with nodes the caller
may see and edges between them; the details of a node are those of a visible one, with the edges whose
two ends are visible. A caller the hook does not let read gets only the refusal of the details.
(The similar nodes and the histories look at no scope.)\<close>

theorem reads_stay_in_scope:
  fixes cfg :: graph_config and now :: datetime and ca :: caller
  assumes "ops_ok ops"
  defines "g \<equiv> run_graph cfg ops (new_graph cfg now)"
  shows "(\<forall>i rels depth ia r. service_get_related_nodes ca i rels depth ia g = Inr r \<longrightarrow>
      (\<exists>v rest. r = view_lists v @ rest \<and> in_scope (de_access (read_decision ca ''get_related_nodes'')) True v)) \<and>
    (\<forall>ty all any subs limit ia r. service_list_typed_nodes ca ty all any subs limit ia g = Inr r \<longrightarrow>
      (\<exists>v rest. r = view_lists v @ rest \<and> in_scope (de_access (read_decision ca (''list_typed_nodes:'' @ ty))) ia v)) \<and>
    (\<forall>ty all any limit ia r. service_list_typed_edges ca ty all any limit ia g = Inr r \<longrightarrow>
      (\<exists>v rest. r = view_lists v @ rest \<and> in_scope (de_access (read_decision ca (''list_typed_edges:'' @ ty))) ia v)) \<and>
    (\<forall>i r. service_get_node_details ca i g = Inr r \<longrightarrow>
      (\<exists>n es. obj_get r ''node'' = JObj (serialize_node n) \<and> obj_get r ''edges'' = JArr (map (JObj \<circ> serialize_edge) es) \<and>
         nd_id n = i \<and> is_node_visible (de_access (read_decision ca ''get_node_details'')) (Some n) \<and>
         (\<forall>e \<in> set es. \<not> ed_archived e \<and> is_edge_visible (de_access (read_decision ca ''get_node_details'')) g (Some e)))) \<and>
    (\<forall>i. \<not> de_allowed (read_decision ca ''get_node_details'') \<longrightarrow>
      service_get_node_details ca i g = Inl (denied_read ''get_node_details'' (read_decision ca ''get_node_details'')))"
    (is "?related \<and> ?nodes \<and> ?edges \<and> ?details \<and> ?denied")
proof (intro conjI)
  have inv: "graph_inv cfg g" unfolding g_def using graph_inv_run [OF graph_inv_new assms(1)] .
  then have id: "\<And>i n. map_of (g_nodes g) i = Some n \<Longrightarrow> nd_id n = i" by (auto simp: inv_defs)
  show ?related using related_within
    by (fastforce simp: service_get_related_nodes_def Let_def split: if_splits)
  show ?nodes using typed_nodes_within
    by (fastforce simp: service_list_typed_nodes_def Let_def split: if_splits)
  show ?edges using typed_edges_within [of g] id
    by (fastforce simp: service_list_typed_edges_def Let_def split: if_splits)
  show ?details
  proof (intro allI impI)
    fix i r assume r: "service_get_node_details ca i g = Inr r"
    let ?na = "de_access (read_decision ca ''get_node_details'')"
    from r obtain n where n: "get_node g i = Some n" "is_node_visible ?na (Some n)"
      "r = [(''success'', JBool True), (''node'', JObj (serialize_node n)),
        (''edges'', JArr (map (JObj \<circ> serialize_edge) (details_edges ?na i g)))]"
      by (auto simp: service_get_node_details_def Let_def split: option.splits if_splits)
    have "nd_id n = i" using n(1) id by (simp add: get_node_def)
    moreover have "\<forall>e \<in> set (details_edges ?na i g). \<not> ed_archived e \<and> is_edge_visible ?na g (Some e)"
      by (auto simp: details_edges_def)
    ultimately show "\<exists>n es. obj_get r ''node'' = JObj (serialize_node n) \<and> obj_get r ''edges'' = JArr (map (JObj \<circ> serialize_edge) es) \<and>
        nd_id n = i \<and> is_node_visible ?na (Some n) \<and> (\<forall>e \<in> set es. \<not> ed_archived e \<and> is_edge_visible ?na g (Some e))"
      using n(2,3) by (intro exI [of _ n] exI [of _ "details_edges ?na i g"]) (simp add: obj_get_def)
  qed
  show ?denied by (simp add: service_get_node_details_def Let_def)
qed

section \<open>A concrete search\<close>

definition demo_query_env :: query_env where
  "demo_query_env = \<lparr>qe_config = demo_graph_config, qe_types = [], qe_model = \<lparr>vm_encode = (\<lambda>q. None), vm_cosine = (\<lambda>a b. 0)\<rparr>,
     qe_text = (\<lambda>v. []), qe_federation = None\<rparr>"

definition demo_request :: search_request where
  "demo_request = \<lparr>rq_query = ''*'', rq_types = [], rq_limit = 5, rq_action = None, rq_federation_depth = None, rq_tags_any = [],
     rq_tags_all = [], rq_tags_none = [], rq_metadata_filters = [], rq_include_archived = False, rq_semantic = False,
     rq_match_mode = ''substring''\<rparr>"

text \<open>A caller that sees the local nodes only, and a store with a node of another graph.\<close>

lemma demo_search:
  obtains response g' where "service_search_graph demo_query_env (open_caller local_only) demo_request hidden_graph = (Inr response, g')"
proof -
  have "\<exists>r. fst (service_search_graph demo_query_env (open_caller local_only) demo_request hidden_graph) = Inr r"
    by (simp add: service_search_graph_def open_decision demo_request_def MATCH_MODES_def Let_def split: prod.split)
  then show thesis using that by (metis prod.exhaust_sel)
qed

lemma hidden_nodes:
  "is_node_visible local_only (get_node hidden_graph ''a'')" "\<not> is_node_visible local_only (get_node hidden_graph ''h'')"
  "get_node hidden_graph ''a'' = Some (demo_node ''a'' ''Actor'' ''Alpha'')"
  "\<exists>n. get_node hidden_graph ''h'' = Some n"
  by (simp_all add: is_node_visible_def get_node_def hidden_graph_def narrowing_matches_def local_only_def node_graph_id_def
      origin_text_def obj_get_def strip_def is_space_def code_def Let_def demo_node_def)

theorem search_sound_witness:
  "\<exists>v sem n. fst (service_search_graph demo_query_env (open_caller local_only) demo_request hidden_graph) =
       Inr (search_response demo_query_env demo_request v sem) \<and>
     get_node hidden_graph ''h'' = Some n \<and> n \<notin> set (vw_nodes v)"
proof (rule demo_search, goal_cases)
  case (1 response g')
  obtain n where n: "get_node hidden_graph ''h'' = Some n" using hidden_nodes(4) by blast
  from search_sound [OF 1] obtain v sem where "response = search_response demo_query_env demo_request v sem"
    and v: "\<forall>n \<in> set (vw_nodes v). is_node_visible local_only (Some n)"
    by (auto simp: open_decision)
  then show ?case using 1 n hidden_nodes(2) by auto
qed

theorem search_complete_witness:
  "\<exists>v sem. fst (service_search_graph demo_query_env (open_caller local_only) demo_request hidden_graph) =
       Inr (search_response demo_query_env demo_request v sem) \<and> demo_node ''a'' ''Actor'' ''Alpha'' \<in> set (vw_nodes v)"
proof (rule demo_search, goal_cases)
  case (1 response g')
  have q: "\<not> rq_semantic demo_request" "0 < rq_limit demo_request" "match_all (strip (rq_query demo_request))"
    by (simp_all add: demo_request_def match_all_def strip_def is_space_def code_def)
  have l: "lexical_matches demo_query_env demo_request hidden_graph = dict_values (g_nodes hidden_graph)"
    by (simp add: lexical_matches_def search_nodes_def demo_request_def MATCH_MODES_def match_all_def lower_def lower_char_def
        strip_def is_space_def code_def Let_def take_to_def selected_def hidden_graph_def demo_node_def)
  have f: "passes_filters (\<lambda>v. []) demo_request n" for n
    by (simp add: passes_filters_def matches_tag_filters_def matches_metadata_filters_def demo_request_def)
  have lim: "rq_limit demo_request = 5" by (simp add: demo_request_def)
  have t: "qe_text demo_query_env = (\<lambda>v. [])" by (simp add: demo_query_env_def)
  from search_complete [OF 1 q(1,2) disjI2, OF q(3)] obtain v sem remote where
    r: "response = search_response demo_query_env demo_request v sem" and
    v: "vw_nodes v = take (nat (rq_limit demo_request)) (filter (\<lambda>n. is_node_visible local_only (Some n) \<and>
       passes_filters (\<lambda>v. []) demo_request n) (dict_values (g_nodes hidden_graph))) @ remote"
    by (auto simp: open_decision l t)
  have "demo_node ''a'' ''Actor'' ''Alpha'' \<in> set (vw_nodes v)"
    unfolding v lim using hidden_nodes(1,3) by (simp add: f hidden_graph_def)
  then show ?case using 1 r by auto
qed

theorem reads_stay_in_scope_witness:
  "\<exists>v rest. service_list_typed_nodes (open_caller local_only) ''Actor'' [] [] [] 5 False
       (run_graph demo_graph_config demo_ops (new_graph demo_graph_config 0)) = Inr (view_lists v @ rest) \<and>
     in_scope local_only False v"
proof -
  obtain r where r: "service_list_typed_nodes (open_caller local_only) ''Actor'' [] [] [] 5 False
      (run_graph demo_graph_config demo_ops (new_graph demo_graph_config 0)) = Inr r"
    by (simp add: service_list_typed_nodes_def open_decision Let_def)
  with reads_stay_in_scope [OF demo_ops_ok, of "open_caller local_only" demo_graph_config 0]
  obtain v rest where "r = view_lists v @ rest" "in_scope (de_access (read_decision (open_caller local_only) (''list_typed_nodes:'' @ ''Actor''))) False v"
    by blast
  then show ?thesis using r by (auto simp: open_decision)
qed

end
