(* ===== verification/ServiceAdopt.thy ===== *)
theory ServiceAdopt
  imports ServiceQueries
begin

text \<open>
  Adoption of a node of a remote graph into the store (\<open>adopt_federated_node\<close> of
  \<open>backend/service/mutations.py\<close>): a local node with a note of its origin, a read-only reference to the
  remote one, and an edge between them.
\<close>

datatype adopt_failure =
    AdoptDenied json_obj
  | FederationOff
  | NotCached
  | AdoptForbidden
  | AdoptInvalid
  | AdoptStoreFailed graph_error
  | AdoptRaises

text \<open>
  The first local node adopted from \<open>fid\<close>. \<open>None\<close> is what a node raises whose \<open>adopted_from\<close> is true but
  no object.
\<close>

fun find_adopted :: "string \<Rightarrow> node list \<Rightarrow> node option option" where
  "find_adopted fid [] = Some None"
| "find_adopted fid (n # ns) =
     (let v = obj_get (nd_metadata n) ''adopted_from''
      in if \<not> truthy v then find_adopted fid ns
         else case v of
           JObj d \<Rightarrow> if obj_get d ''federated_node_id'' = JStr fid then Some (Some n) else find_adopted fid ns
         | _ \<Rightarrow> None)"

definition adopted_metadata :: "node \<Rightarrow> json_obj" where
  "adopted_metadata src =
     dict_update (nd_metadata src)
       [(''is_adopted'', JBool True),
        (''adopted_from'', JObj [(''federated_node_id'', JStr (nd_id src)),
           (''origin_graph_id'', obj_get (nd_metadata src) ''origin_graph_id''),
           (''origin_node_id'', obj_get (nd_metadata src) ''origin_node_id'')])]"

definition adopted_node :: "fresh \<Rightarrow> node \<Rightarrow> string option \<Rightarrow> node option" where
  "adopted_node fr src local_name =
     node_from_dict fr
       [(''type'', JStr (node_type_str (nd_type src))),
        (''name'', JStr (case local_name of Some s \<Rightarrow> if s \<noteq> [] then s else nd_name src | None \<Rightarrow> nd_name src)),
        (''description'', JStr (nd_description src)), (''summary'', JStr (nd_summary src)),
        (''tags'', JArr (map JStr (nd_tags src))), (''metadata'', JObj (adopted_metadata src))]"

definition reference_node :: "fresh \<Rightarrow> node \<Rightarrow> node option" where
  "reference_node fr src =
     node_from_dict fr
       [(''id'', JStr (nd_id src)), (''type'', JStr (node_type_str (nd_type src))), (''name'', JStr (nd_name src)),
        (''description'', JStr (nd_description src)), (''summary'', JStr (nd_summary src)),
        (''tags'', JArr (map JStr (nd_tags src))),
        (''metadata'', JObj (dict_update (nd_metadata src)
           [(''is_federated_reference'', JBool True), (''read_only'', JBool True)]))]"

definition lineage_edge :: "fresh \<Rightarrow> node \<Rightarrow> node \<Rightarrow> string \<Rightarrow> string \<Rightarrow> edge option" where
  "lineage_edge fr src local target ty =
     edge_from_dict fr
       [(''source'', JStr (nd_id local)), (''target'', JStr target), (''type'', JStr ty),
        (''label'', JStr ''Adopted from federated source''),
        (''metadata'', JObj [(''is_federated_lineage'', JBool True),
           (''origin_graph_id'', obj_get (nd_metadata src) ''origin_graph_id'')])]"

text \<open>What is added: the local node, the reference unless the store has it, the edge.\<close>

definition adoption ::
    "(nat \<Rightarrow> fresh) \<Rightarrow> node \<Rightarrow> string option \<Rightarrow> string \<Rightarrow> graph \<Rightarrow> adopt_failure + node \<times> node list \<times> edge" where
  "adoption fr src local_name ty g =
     (case adopted_node (fr 0) src local_name of
        None \<Rightarrow> Inl AdoptRaises
      | Some local \<Rightarrow>
          (case (if is_saved_view local then saved_view_annotation_error (nd_metadata local) else ViewOk) of
             ViewRaises \<Rightarrow> Inl AdoptRaises
           | ViewRefused e \<Rightarrow> Inl AdoptInvalid
           | ViewOk \<Rightarrow>
               (case (case get_node g (nd_id src) of Some n \<Rightarrow> Some n | None \<Rightarrow> reference_node (fr 1) src) of
                  None \<Rightarrow> Inl AdoptRaises
                | Some reference \<Rightarrow>
                    (case lineage_edge (fr 2) src local (nd_id reference) ty of
                       None \<Rightarrow> Inl AdoptRaises
                     | Some e \<Rightarrow>
                         Inr (local, local # (if get_node g (nd_id reference) = None then [reference] else []), e)))))"

definition service_adopt_federated_node ::
    "graph_config \<Rightarrow> federated \<Rightarrow> caller \<Rightarrow> (nat \<Rightarrow> datetime) \<Rightarrow> (nat \<Rightarrow> fresh) \<Rightarrow> event_inputs \<Rightarrow> string \<Rightarrow> string option \<Rightarrow>
     string \<Rightarrow> bool \<Rightarrow> graph \<Rightarrow> (adopt_failure + json_obj) \<times> graph" where
  "service_adopt_federated_node gcfg fed ca now fr ei fid local_name ty create_new_copy g =
     (let d = evaluate_graph_access ca ''mutate'' ''adopt_federated_node'' in
      if \<not> de_allowed d then (Inl (AdoptDenied (access_denied_result ''mutate'' ''adopt_federated_node'' d)), g)
      else if \<not> federating fed then (Inl FederationOff, g)
      else case (case fed of Some (cfg, fm) \<Rightarrow> map_option (Pair (get_graph_config_for_node cfg fid fm)) (get_cached_node fid fm)
                 | None \<Rightarrow> None) of
        None \<Rightarrow> (Inl NotCached, g)
      | Some (gr, src) \<Rightarrow>
          if \<not> is_node_visible (de_access d) (Some src) then
            (Inl (AdoptDenied (access_denied_result ''mutate'' ''adopt_federated_node''
               (d\<lparr>de_allowed := False, de_reason := ''Graph access denied for the selected graph scope.''\<rparr>))), g)
          else if (case gr of Some c \<Rightarrow> \<not> fg_allow_adopt c | None \<Rightarrow> False) then (Inl AdoptForbidden, g)
          else case (if create_new_copy then Some None else find_adopted (nd_id src) (dict_values (g_nodes g))) of
            None \<Rightarrow> (Inl AdoptRaises, g)
          | Some (Some n) \<Rightarrow>
              (Inr [(''success'', JBool True), (''adopted_node'', JObj (serialize_node n)),
                 (''source_node'', JObj (serialize_node src)), (''lineage_edge'', JNull), (''added_node_ids'', JArr []),
                 (''added_edge_ids'', JArr []), (''action'', JStr ''add_to_visualization''), (''already_adopted'', JBool True)], g)
          | Some None \<Rightarrow>
              (case adoption fr src local_name ty g of
                 Inl err \<Rightarrow> (Inl err, g)
               | Inr (local, ns, e) \<Rightarrow>
                   (let c = build_event_context ca ''adopt_federated_node'' ei
                    in case add_nodes gcfg (store_env now c) ns [e] g of
                         (Inl err, g) \<Rightarrow> (Inl (AdoptStoreFailed err), g)
                       | (Inr (added_nodes, added_edges), g) \<Rightarrow>
                           (Inr (attach_mutation_attribution c
                              [(''success'', JBool True), (''adopted_node'', JObj (serialize_node local)),
                               (''source_node'', JObj (serialize_node src)), (''lineage_edge'', JObj (serialize_edge e)),
                               (''added_node_ids'', strs added_nodes), (''added_edge_ids'', strs added_edges),
                               (''action'', JStr ''add_to_visualization'')]), g))))"

text \<open>
  Nothing is adopted but what the caller sees of a graph that allows it, and a refusal leaves the store
  as it was, unless the store itself refuses in the middle.
\<close>

theorem adoption_guarded:
  assumes "service_adopt_federated_node gcfg fed ca now fr ei fid local_name ty create_new_copy g = (r, g')" "g' \<noteq> g"
  shows "(\<exists>cfg fm src. fed = Some (cfg, fm) \<and> fs_enabled cfg \<and> get_cached_node fid fm = Some src \<and>
      is_node_visible (de_access (evaluate_graph_access ca ''mutate'' ''adopt_federated_node'')) (Some src) \<and>
      (\<forall>gr. get_graph_config_for_node cfg fid fm = Some gr \<longrightarrow> fg_allow_adopt gr)) \<and>
    de_allowed (evaluate_graph_access ca ''mutate'' ''adopt_federated_node'') \<and>
    ((\<exists>j. r = Inr j) \<or> (\<exists>err. r = Inl (AdoptStoreFailed err)))"
  using assms
  by (auto simp: service_adopt_federated_node_def federating_def Let_def split: if_splits option.splits prod.splits sum.splits)

end
