(* ===== verification/Spec2Isabelle.thy ===== *)
theory Spec2Isabelle
  imports ExecProps GovProps RunHistory Scheduler SessionRegistry Holds Presence EventBus TokenBucket
    SessionProps SessionLease GraphSearchProps EventProps DeliveryProps ServiceProps SessionAutoAdd FederationProps QueryProps ServiceAdopt
begin

text \<open>
  The backend of a shared metadata graph (\<open>src/backend\<close>, Python): people and agents read and change a
  knowledge graph, look at it together in sessions, and are told of its changes. This development
  translates the parts that keep state or decide something and proves what makes them correct.

  \<^bold>\<open>How the parts interact.\<close> The graph store holds nodes and edges, writes them to a file, and emits an
  event for every mutation. Events go to the history, to the dispatcher (which routes them to the
  subscriptions, nodes of the graph themselves, and queues webhook jobs for the delivery worker) and to
  the listener of the auto-add agents. The service is what clients call: it asks the authorization hook,
  narrows the call to the caller's scope and calls the store; searches also read the copies of remote
  graphs that federation keeps. A session is a document of annotations and node references that several
  clients edit through ops; the session manager checks rates, claims and leases, applies a batch, persists
  it and publishes it on the event bus. Agents run on a schedule, their runs are jobs of a durable
  execution store, and their mutating tool calls become proposals that a person approves or rejects.

  \<^bold>\<open>Foundations.\<close> \<open>Prelude\<close>: dictionaries as association lists in insertion order, results as sums,
  slices, instants in whole microseconds, seconds as rationals. \<open>PyJson\<close>, \<open>PyStr\<close>, \<open>PyTime\<close>, \<open>PyIso\<close>,
  \<open>PySqlite\<close>, \<open>PyNet\<close>: what the source uses of JSON values, strings, \<open>isoformat\<close>, \<open>fromisoformat\<close>, SQL,
  and of \<open>ipaddress\<close> and \<open>urlparse\<close> (addresses are words of 32 and 128 bits).

  \<^bold>\<open>Durable execution\<close> (\<open>agents/execution/\<close>). \<open>ExecModels\<close> has the job record and the retry policy of
  \<open>models.py\<close>; \<open>ExecContract\<close> the protocol of \<open>store.py\<close> as an abstract map with a relation of allowed
  results, and the locale \<open>execution_store\<close> with its consequences; \<open>ExecMemory\<close> and \<open>ExecSqlite\<close> translate
  \<open>memory_store.py\<close> and \<open>sqlite_store.py\<close> method by method and interpret the locale; \<open>ExecEquiv\<close> relates
  a table and a dictionary for one order of ties, \<open>ExecTies\<close> shows that the order does not matter when no
  two jobs were created at the same microsecond. \<open>ExecProps\<close>: refinement, the same answers of both adapters
  to well-formed runs (up to the order in which stale jobs are returned), sticky terminal states, bounded
  attempts, progress of claims.

  \<^bold>\<open>Governance\<close> (\<open>agents/governance/\<close>). \<open>GovModels\<close>, \<open>GovStore\<close> (the locale \<open>proposal_store\<close> and both
  adapters), \<open>GovGate\<close> (which tool calls run, wait or are refused), \<open>GovManager\<close> (decisions, also one store
  operation at a time so that concurrent callers interleave). \<open>GovProps\<close>: an approved action is applied at
  most once, the gate runs nothing that changes anything.

  \<^bold>\<open>Agents.\<close> \<open>RunHistory\<close> (\<open>run_history.py\<close>) over either execution store; \<open>Scheduler\<close> (\<open>scheduler.py\<close> and
  the schedules of \<open>config.py\<close>): an agent fires once in each minute its schedule names.

  \<^bold>\<open>Sessions\<close> (\<open>core/session_*.py\<close>). \<open>SessionState\<close> and \<open>SessionOps\<close> are the document and every branch
  of \<open>apply_state_op\<close>; annotations live in a heap, because the ring of ops refers to the same objects.
  \<open>SessionInv\<close>, \<open>SessionRuns\<close>, \<open>SessionLog\<close>: the invariant, runs, the catch-up, the activity log and the
  document form. \<open>SessionStore\<close>: the registry of sessions over its backend, the locale \<open>session_backend\<close>.
  \<open>Holds\<close> (claims and leases, the locale \<open>hold_map\<close>), \<open>Presence\<close>, \<open>EventBus\<close>, \<open>TokenBucket\<close>,
  \<open>SessionRegistry\<close>: the parts of \<open>session_hub.py\<close>, \<open>session_manager.py\<close> and \<open>session_registry.py\<close>.
  \<open>SessionManager\<close>, \<open>SessionBatch\<close>, \<open>SessionLease\<close>, \<open>SessionProps\<close>: the facade, its rollback and what
  it misses, what a lease protects and that \<open>nodes_removed\<close> evades it, and the properties of the ops. \<open>SessionAutoAdd\<close>: rules that add created nodes to a view.

  \<^bold>\<open>Graph\<close> (\<open>core/models.py\<close>, \<open>storage.py\<close>, \<open>storage_search.py\<close>, \<open>vector_store.py\<close>). \<open>GraphModels\<close> has
  nodes, edges and their validation; \<open>GraphStore\<close> the state, the file, loading and events; \<open>GraphOps\<close>
  every mutation. \<open>GraphInv\<close>, \<open>GraphRuns\<close>, \<open>GraphDims\<close>, \<open>GraphHistory\<close>, \<open>GraphLog\<close> carry an invariant
  each over runs of the store: agreement of the dictionaries with networkx and the text cache, the lengths
  of embeddings, the file, the history. \<open>GraphProps\<close> reads the properties off, with
  what decides whether the file opens again (\<open>file_opens_iff_one_length\<close>). \<open>GraphSearch\<close> and
  \<open>GraphSearchProps\<close>: search, traversal, similar nodes.

  \<^bold>\<open>Events\<close> (\<open>core/events/\<close>, \<open>core/history_store.py\<close>). \<open>EventModels\<close>, \<open>EventDispatch\<close>, \<open>EventHistory\<close>,
  \<open>EventDelivery\<close>; \<open>EventProps\<close>: the routing is exact, unless a malformed subscription
  silences it; \<open>EventHistory\<close> also has the retention: over any number of processes the newest records are kept; \<open>AddressProps\<close>: the
  addresses the URL check accepts, as intervals; \<open>DeliveryProps\<close>: every request was checked, every job
  ends, none is lost.

  \<^bold>\<open>Service\<close> (\<open>service/\<close>, \<open>runtime/\<close>). \<open>RequestContext\<close> and \<open>GraphAccess\<close>: actor, scope, hook, narrowing
  and attribution; \<open>SavedViews\<close>: the image rule of saved views; \<open>GraphMutations\<close> and \<open>ServiceQueries\<close>: the
  writing and the reading operations, \<open>ServiceAdopt\<close> the adoption of a remote node. \<open>ServiceProps\<close>: mutations that name their target
  stay in the caller's scope (but for the edges a deleted node takes along), serialized
  views hold only embedded images, and two places the checks do not reach; \<open>QueryProps\<close>: the search, the
  neighbours, the typed lists and the details stay in the scope (similar nodes and histories do not ask for
  it), and narrowing loses no match.

  \<^bold>\<open>Federation\<close> (\<open>federation/\<close>). \<open>Federation\<close> has the copies of remote graphs; \<open>FederationProps\<close>: a copy is
  the last payload that could be read, and its nodes cannot hide where they come from.

  \<^bold>\<open>Conventions.\<close> A method is a function from the state to its result and the state it leaves, also when it
  raises; an exception is a value (\<open>Inl\<close> or \<open>None\<close>). Clocks, random ids, and what third parties compute are
  arguments: the embedding model and its cosine, the Levenshtein distance, the time zone database, the
  network, DNS and \<open>urljoin\<close>, the text of floats and nested values. A call that runs under its lock is one
  step; where several calls interleave (governance decisions, deliveries, sessions) the steps are explicit.

  \<^bold>\<open>Bounds.\<close> Loops are structural recursions or have a measure; no definition needs fuel but the redirects
  of a webhook, bounded by the source's own limit of ten requests, and the turns of the delivery worker,
  whose number \<open>delivery_terminates\<close> bounds by the attempts the queued jobs have left.

  \<^bold>\<open>Where the model is coarser than the code.\<close> Floats are exact rationals. Strings have 8-bit characters, and
  \<open>lower\<close> changes ASCII letters. A time is read in the ISO forms the source writes. Python walks a set, and
  networkx its edges, in no fixed order: here the order of insertion. A bus or webhook message is a
  snapshot of the value at the time it is published. The text of an error message is not modelled; its kind
  is. An attempt to deliver is one step of the worker, and \<open>urllib\<close> and \<open>ipaddress\<close> are those of Python 3.11.
  The file backends are the values they hold: temporary files, \<open>fsync\<close> and renames are taken to succeed,
  and a crash loses what was not flushed. The listeners of federation are taken not to raise, and the
  configured delays between deliveries not to be negative. The order of ties in SQL is a parameter.

  \<^bold>\<open>Not modelled.\<close> The HTTP, MCP and streaming layers (\<open>service/rest_api.py\<close>, \<open>service/mcp_tools.py\<close>,
  \<open>api_host/\<close>, \<open>ui/rest_api.py\<close>) turn requests into calls of the parts above. The chat
  (\<open>ui/chat_*.py\<close>, \<open>llm/\<close>, \<open>agents/llm_client.py\<close>, \<open>agents/prompts.py\<close>) is what a language model makes of
  prompts. Skills, agent and tool loading (\<open>skills/\<close>, \<open>agents/mcp_loader.py\<close>, \<open>agents/registry.py\<close>,
  \<open>agents/worker.py\<close>) start processes and threads around third-party clients. Configuration files
  (\<open>config/\<close>, most of it), documents and images (\<open>core/image_ingest.py\<close>, \<open>core/pdf_extractor.py\<close>, \<open>ui/document_*.py\<close>)
  are input and output. The getters of configuration are left out of the service. The frontend is JavaScript.
\<close>

end
